(* ===== verification/Prelude.thy ===== *)
theory Prelude
  imports Complex_Main
begin

text \<open>
  Shared vocabulary of the development: the exceptions of the source as values, runs of a
  step function over a list of operations, the generic interface \<open>machine\<close> (a step function
  that keeps an invariant) with its extension \<open>ranked_machine\<close> (a quantity that no step
  lowers), and list lemmas several components use.
\<close>

section \<open>Exceptions as values\<close>

text \<open>
  A Python call that may raise returns \<open>py_exc + 'a\<close>: \<open>Inl\<close> is the exception, \<open>Inr\<close> the
  returned value. The constructors are the exception classes the modelled code raises or
  catches; messages are left out.
\<close>

datatype py_exc =
    ValueError
  | TypeError
  | KeyError
  | LookupError
  | OverflowError
  | RuntimeError
  | StageValueError
  | InvalidForkTimingProfile
  | CorruptControlFile
  | OtherException

named_theorems ctl_simps \<open>equations of the freeze control file\<close>
named_theorems step_defs \<open>definitions of the operations of a component\<close>

fun ebind :: "'e + 'a \<Rightarrow> ('a \<Rightarrow> 'e + 'b) \<Rightarrow> 'e + 'b" where
  "ebind (Inl e) f = Inl e"
| "ebind (Inr a) f = f a"

lemma ebind_Inr_iff [simp]: "ebind m f = Inr b \<longleftrightarrow> (\<exists>a. m = Inr a \<and> f a = Inr b)"
  by (cases m) auto

lemma ebind_assoc: "ebind (ebind m f) g = ebind m (\<lambda>a. ebind (f a) g)"
  by (cases m) auto

fun emap_list :: "('a \<Rightarrow> 'e + 'b) \<Rightarrow> 'a list \<Rightarrow> 'e + 'b list" where
  "emap_list f [] = Inr []"
| "emap_list f (x # xs) = ebind (f x) (\<lambda>y. ebind (emap_list f xs) (\<lambda>ys. Inr (y # ys)))"

lemma emap_list_Inr:
  "emap_list f xs = Inr ys \<Longrightarrow> length ys = length xs \<and> (\<forall>y \<in> set ys. \<exists>x \<in> set xs. f x = Inr y)"
  by (induction xs arbitrary: ys) fastforce+

section \<open>Runs and invariants\<close>

fun run :: "('s \<Rightarrow> 'op \<Rightarrow> 's) \<Rightarrow> 's \<Rightarrow> 'op list \<Rightarrow> 's" where
  "run f s [] = s"
| "run f s (x # xs) = run f (f s x) xs"

lemma run_append [simp]: "run f s (xs @ ys) = run f (run f s xs) ys"
  by (induction xs arbitrary: s) auto

text \<open>
  The interface of a component whose operations keep an invariant: \<open>ok\<close> selects the
  operations the claim is about.
\<close>

locale machine =
  fixes step :: "'s \<Rightarrow> 'op \<Rightarrow> 's"
    and ok :: "'op \<Rightarrow> bool"
    and inv :: "'s \<Rightarrow> bool"
  assumes step_inv: "inv s \<Longrightarrow> ok x \<Longrightarrow> inv (step s x)"
begin

lemma run_inv: "inv s \<Longrightarrow> list_all ok xs \<Longrightarrow> inv (run step s xs)"
  by (induction xs arbitrary: s) (auto intro: step_inv)

lemma run_inv_prefix: "inv s \<Longrightarrow> list_all ok (xs @ ys) \<Longrightarrow> inv (run step s xs)"
  by (simp add: run_inv)

end

locale ranked_machine = machine +
  fixes rank :: "'a \<Rightarrow> 'r :: preorder"
  assumes step_rank: "inv s \<Longrightarrow> ok x \<Longrightarrow> rank s \<le> rank (step s x)"
begin

lemma run_rank: "inv s \<Longrightarrow> list_all ok xs \<Longrightarrow> rank s \<le> rank (run step s xs)"
proof (induction xs arbitrary: s)
  case Nil
  then show ?case by simp
next
  case (Cons x xs)
  then have "rank s \<le> rank (step s x)" and "rank (step s x) \<le> rank (run step (step s x) xs)"
    by (auto intro: step_rank step_inv)
  then show ?case by (auto intro: order_trans)
qed

end

section \<open>Lists\<close>

text \<open>
  The loop \<open>for i in range(len(xs) - 1, -1, -1): if p(xs[i]): xs.pop(i); break\<close>: the last
  element satisfying \<open>p\<close> is removed, or nothing is.
\<close>

fun remove_last :: "('a \<Rightarrow> bool) \<Rightarrow> 'a list \<Rightarrow> 'a list" where
  "remove_last p [] = []"
| "remove_last p (x # xs) =
     (if \<exists>y \<in> set xs. p y then x # remove_last p xs else if p x then xs else x # xs)"

lemma remove_last_none [simp]: "\<forall>x \<in> set xs. \<not> p x \<Longrightarrow> remove_last p xs = xs"
  by (induction xs) auto

lemma remove_last_split:
  "p x \<Longrightarrow> \<forall>y \<in> set ys. \<not> p y \<Longrightarrow> remove_last p (xs @ x # ys) = xs @ ys"
  by (induction xs) auto

lemma remove_last_snoc [simp]: "p x \<Longrightarrow> remove_last p (xs @ [x]) = xs"
  by (simp add: remove_last_split)

lemma set_remove_last: "set (remove_last p xs) \<subseteq> set xs"
  by (induction xs) auto

lemma filter_remove_last_other:
  "(\<And>x. p x \<Longrightarrow> \<not> q x) \<Longrightarrow> filter q (remove_last p xs) = filter q xs"
  by (induction xs) auto

lemma length_filter_remove_last:
  "length (filter p (remove_last p xs)) = length (filter p xs) - 1"
proof (induction xs)
  case (Cons x xs)
  show ?case
  proof (cases "\<exists>y \<in> set xs. p y")
    case True
    then have "filter p xs \<noteq> []" by (auto simp: filter_empty_conv)
    then have "0 < length (filter p xs)" by simp
    with True Cons.IH show ?thesis by simp
  next
    case False
    then have "filter p xs = []" by (auto simp: filter_empty_conv)
    with False show ?thesis by simp
  qed
qed simp

lemma remove_last_keeps: "x \<in> set xs \<Longrightarrow> \<not> p x \<Longrightarrow> x \<in> set (remove_last p xs)"
  by (induction xs) auto

end
