(* ===== verification/PyVal.thy ===== *)
theory PyVal
  imports Prelude
begin

text \<open>
  Python's dynamically typed values as they come out of JSON and TOML: \<open>pyval\<close>, with
  \<open>bool(x)\<close>, \<open>d.get(k)\<close>, \<open>float(x)\<close> and \<open>int(x)\<close> as the interpreter defines them. A float is
  an exact real or one of the three special values; rounding is not modelled. Dictionaries
  are association lists with string keys; the first binding of a key is the binding.
\<close>

section \<open>Floats\<close>

datatype pyfloat = Fin real | PosInf | NegInf | NaN

fun fl_less :: "pyfloat \<Rightarrow> pyfloat \<Rightarrow> bool" where
  "fl_less NaN _ = False"
| "fl_less _ NaN = False"
| "fl_less (Fin a) (Fin b) = (a < b)"
| "fl_less NegInf y = (y \<noteq> NegInf)"
| "fl_less x PosInf = (x \<noteq> PosInf)"
| "fl_less _ _ = False"

lemma fl_less_NaN [simp]: "\<not> fl_less x NaN"
  by (cases x) simp_all

fun fl_finite :: "pyfloat \<Rightarrow> bool" where
  "fl_finite (Fin _) = True"
| "fl_finite _ = False"

text \<open>
  The least magnitude that no longer rounds to a finite double: \<open>float(n)\<close> raises
  OverflowError for an integer from here on, and a literal reads as infinity.
\<close>

definition fl_limit :: real where
  "fl_limit = 2 ^ 1024 - 2 ^ 970"

definition fl_of_real :: "real \<Rightarrow> pyfloat" where
  "fl_of_real r = (if r \<ge> fl_limit then PosInf else if r \<le> - fl_limit then NegInf else Fin r)"

section \<open>Values\<close>

datatype pyval =
    PNone
  | PBool bool
  | PInt int
  | PFloat pyfloat
  | PStr string
  | PList "pyval list"
  | PDict "(string \<times> pyval) list"

type_synonym pydict = "(string \<times> pyval) list"

fun truthy :: "pyval \<Rightarrow> bool" where
  "truthy PNone = False"
| "truthy (PBool b) = b"
| "truthy (PInt n) = (n \<noteq> 0)"
| "truthy (PFloat x) = (x \<noteq> Fin 0)"
| "truthy (PStr s) = (s \<noteq> [])"
| "truthy (PList xs) = (xs \<noteq> [])"
| "truthy (PDict d) = (d \<noteq> [])"

definition dget :: "pydict \<Rightarrow> string \<Rightarrow> pyval \<Rightarrow> pyval" where
  "dget d k dflt = (case map_of d k of None \<Rightarrow> dflt | Some v \<Rightarrow> v)"

lemma dget_Nil [simp]: "dget [] k v = v"
  by (simp add: dget_def)

lemma dget_Cons [simp]: "dget ((k', w) # d) k v = (if k = k' then w else dget d k v)"
  by (simp add: dget_def)

fun is_dict :: "pyval \<Rightarrow> bool" where
  "is_dict (PDict _) = True"
| "is_dict _ = False"

fun the_dict :: "pyval \<Rightarrow> pydict" where
  "the_dict (PDict d) = d"
| "the_dict _ = []"

text \<open>\<open>d[k] = v\<close>: an existing key keeps its place, a new one goes to the end.\<close>

fun dset :: "pydict \<Rightarrow> string \<Rightarrow> pyval \<Rightarrow> pydict" where
  "dset [] k v = [(k, v)]"
| "dset ((k', w) # d) k v = (if k' = k then (k, v) # d else (k', w) # dset d k v)"

lemma dget_dset [simp]: "dget (dset d k v) k' w = (if k' = k then v else dget d k' w)"
  by (induction d) auto

lemma map_of_dset [simp]: "map_of (dset d k v) = (map_of d)(k \<mapsto> v)"
  by (induction d) auto

lemma keys_dset: "set (map fst (dset d k v)) = insert k (set (map fst d))"
  by (induction d k v rule: dset.induct) (simp_all add: insert_commute)

lemma distinct_dset: "distinct (map fst d) \<Longrightarrow> distinct (map fst (dset d k v))"
proof (induction d k v rule: dset.induct)
  case (2 k' w d k v)
  then show ?case using keys_dset [of d k v] by (auto simp del: set_map)
qed simp

section \<open>float(x) and int(x)\<close>

definition is_space :: "char \<Rightarrow> bool" where
  "is_space c \<longleftrightarrow> (let n = of_char c :: nat in n = 32 \<or> (9 \<le> n \<and> n \<le> 13) \<or> (28 \<le> n \<and> n \<le> 31))"

definition is_digit :: "char \<Rightarrow> bool" where
  "is_digit c \<longleftrightarrow> (let n = of_char c :: nat in 48 \<le> n \<and> n \<le> 57)"

definition digit_val :: "char \<Rightarrow> nat" where
  "digit_val c = of_char c - 48"

definition lower_char :: "char \<Rightarrow> char" where
  "lower_char c = (let n = of_char c :: nat in if 65 \<le> n \<and> n \<le> 90 then char_of (n + 32) else c)"

definition py_strip :: "string \<Rightarrow> string" where
  "py_strip s = rev (dropWhile is_space (rev (dropWhile is_space s)))"

fun take_digits :: "string \<Rightarrow> nat list \<times> string" where
  "take_digits [] = ([], [])"
| "take_digits (c # cs) =
     (if is_digit c then (let (ds, r) = take_digits cs in (digit_val c # ds, r))
      else if c = CHR ''_'' \<and> cs \<noteq> [] \<and> is_digit (hd cs) then take_digits cs
      else ([], c # cs))"

text \<open>A run of digits, underscores between digits only, as the literal grammar has it.\<close>

definition digitpart :: "string \<Rightarrow> nat list \<times> string" where
  "digitpart s = (if s \<noteq> [] \<and> is_digit (hd s) then take_digits s else ([], s))"

definition num_of :: "nat list \<Rightarrow> nat" where
  "num_of ds = foldl (\<lambda>a d. 10 * a + d) 0 ds"

definition split_sign :: "string \<Rightarrow> bool \<times> string" where
  "split_sign s = (case s of [] \<Rightarrow> (False, [])
     | c # cs \<Rightarrow> if c = CHR ''-'' then (True, cs) else if c = CHR ''+'' then (False, cs) else (False, s))"

fun parse_exponent :: "string \<Rightarrow> int option" where
  "parse_exponent [] = Some 0"
| "parse_exponent (c # cs) =
     (if lower_char c = CHR ''e'' then
        (let (neg, u) = split_sign cs; (ds, r) = digitpart u
         in if ds = [] \<or> r \<noteq> [] then None
            else Some (if neg then - int (num_of ds) else int (num_of ds)))
      else None)"

definition scale10 :: "real \<Rightarrow> int \<Rightarrow> real" where
  "scale10 m e = (if 0 \<le> e then m * 10 ^ nat e else m / 10 ^ nat (- e))"

definition parse_float :: "string \<Rightarrow> pyfloat option" where
  "parse_float s =
     (let (neg, u) = split_sign (py_strip s); l = map lower_char u in
      if l = ''inf'' \<or> l = ''infinity'' then Some (if neg then NegInf else PosInf)
      else if l = ''nan'' then Some NaN
      else
        (let (ip, r1) = digitpart u;
             (fp, r2) = (if r1 \<noteq> [] \<and> hd r1 = CHR ''.'' then digitpart (tl r1) else ([], r1))
         in if ip = [] \<and> fp = [] then None
            else map_option (\<lambda>e. let m = scale10 (real (num_of (ip @ fp))) (e - int (length fp))
                                 in fl_of_real (if neg then - m else m))
                   (parse_exponent r2)))"

definition fl_of_int :: "int \<Rightarrow> py_exc + pyfloat" where
  "fl_of_int n = (if \<bar>real_of_int n\<bar> \<ge> fl_limit then Inl OverflowError else Inr (Fin (real_of_int n)))"

fun py_float :: "pyval \<Rightarrow> py_exc + pyfloat" where
  "py_float (PBool b) = Inr (Fin (if b then 1 else 0))"
| "py_float (PInt n) = fl_of_int n"
| "py_float (PFloat x) = Inr x"
| "py_float (PStr s) = (case parse_float s of None \<Rightarrow> Inl ValueError | Some x \<Rightarrow> Inr x)"
| "py_float _ = Inl TypeError"

definition parse_int :: "string \<Rightarrow> int option" where
  "parse_int s =
     (let (neg, u) = split_sign (py_strip s); (ds, r) = digitpart u
      in if ds = [] \<or> r \<noteq> [] \<or> length ds > 4300 then None
         else Some (if neg then - int (num_of ds) else int (num_of ds)))"

fun py_int :: "pyval \<Rightarrow> py_exc + int" where
  "py_int (PBool b) = Inr (if b then 1 else 0)"
| "py_int (PInt n) = Inr n"
| "py_int (PFloat (Fin r)) = Inr (if 0 \<le> r then \<lfloor>r\<rfloor> else \<lceil>r\<rceil>)"
| "py_int (PFloat NaN) = Inl ValueError"
| "py_int (PFloat _) = Inl OverflowError"
| "py_int (PStr s) = (case parse_int s of None \<Rightarrow> Inl ValueError | Some n \<Rightarrow> Inr n)"
| "py_int _ = Inl TypeError"

lemma fl_limit_pos [simp]: "0 < fl_limit" "- fl_limit < 0" "\<not> fl_limit \<le> 0"
  by (simp_all add: fl_limit_def)

lemma fl_of_int_small [simp]: "\<bar>n\<bar> \<le> 2 ^ 64 \<Longrightarrow> fl_of_int n = Inr (Fin (real_of_int n))"
proof -
  assume "\<bar>n\<bar> \<le> 2 ^ 64"
  then have "real_of_int \<bar>n\<bar> \<le> real_of_int (2 ^ 64)" by (simp only: of_int_le_iff)
  then have "\<bar>real_of_int n\<bar> \<le> 2 ^ 64" by simp
  moreover have "(2::real) ^ 64 < fl_limit" by (simp add: fl_limit_def)
  ultimately have "\<bar>real_of_int n\<bar> < fl_limit" by linarith
  then show ?thesis by (simp add: fl_of_int_def)
qed

section \<open>str(n) and quoting in messages\<close>

fun show_nat :: "nat \<Rightarrow> string" where
  "show_nat n = (if n < 10 then [char_of (48 + n)] else show_nat (n div 10) @ [char_of (48 + n mod 10)])"

declare show_nat.simps [simp del]

definition show_int :: "int \<Rightarrow> string" where
  "show_int n = (if n < 0 then ''-'' @ show_nat (nat (- n)) else show_nat (nat n))"

definition squoted :: "string \<Rightarrow> string" where
  "squoted s = [CHR 0x27] @ s @ [CHR 0x27]"

text \<open>\<open>dict(x)\<close> of a JSON value; a key that is no string is never looked up and is left out.\<close>

fun pair_of :: "pyval \<Rightarrow> py_exc + pydict" where
  "pair_of (PList [PStr k, v]) = Inr [(k, v)]"
| "pair_of (PList [PList _, v]) = Inl TypeError"
| "pair_of (PList [PDict _, v]) = Inl TypeError"
| "pair_of (PList [k, v]) = Inr []"
| "pair_of (PList _) = Inl ValueError"
| "pair_of (PStr [a, b]) = Inr [([a], PStr [b])]"
| "pair_of (PStr _) = Inl ValueError"
| "pair_of (PDict [(a, _), (b, _)]) = Inr [(a, PStr b)]"
| "pair_of (PDict _) = Inl ValueError"
| "pair_of _ = Inl TypeError"

fun dict_of :: "pyval \<Rightarrow> py_exc + pydict" where
  "dict_of (PDict d) = Inr d"
| "dict_of (PList xs) =
     ebind (emap_list pair_of xs)
       (\<lambda>pss. Inr (foldl (\<lambda>d (k, v). dset d k v) [] (concat pss)))"
| "dict_of (PStr []) = Inr []"
| "dict_of (PStr _) = Inl ValueError"
| "dict_of _ = Inl TypeError"

end
