(* ===== verification/StateIO.thy ===== *)
theory StateIO
  imports PyVal
begin

text \<open>
  Models \<open>kaine/state_io.py\<close>: the locked read-modify-write of a small JSON state file. A file
  is missing, present but not readable as JSON, or holds a JSON value; the order of keys in
  the serialised text is not part of the model (readers look keys up). Temporary files,
  fsync and the advisory lock itself are not modelled: holding the lock for the whole
  operation is what makes it one step here. The interface \<open>locked_store\<close> states what the
  clients rely on.
\<close>

datatype jfile = Absent | Unreadable | Doc pyval

text \<open>\<open>json.loads(path.read_text())\<close>, \<open>None\<close> for OSError or ValueError.\<close>

fun read_json :: "jfile \<Rightarrow> pyval option" where
  "read_json (Doc v) = Some v"
| "read_json _ = None"

definition write_json_atomic :: "jfile \<Rightarrow> pyval \<Rightarrow> jfile" where
  "write_json_atomic f payload = Doc payload"

text \<open>
  \<open>default = None\<close> stands for a default that is no JSON value, such as the sentinel object
  the control file passes.
\<close>

definition update_json_locked ::
  "jfile \<Rightarrow> (pyval option \<Rightarrow> py_exc + pyval) \<Rightarrow> pyval option \<Rightarrow> (py_exc + pyval) \<times> jfile" where
  "update_json_locked path fn dflt =
     (let current = (case read_json path of None \<Rightarrow> dflt | Some v \<Rightarrow> Some v)
      in case fn current of
           Inl e \<Rightarrow> (Inl e, path)
         | Inr updated \<Rightarrow> (Inr updated, write_json_atomic path updated))"

locale locked_store =
  fixes load :: "'f \<Rightarrow> 'v option"
    and update :: "'f \<Rightarrow> ('v option \<Rightarrow> 'e + 'v) \<Rightarrow> 'v option \<Rightarrow> ('e + 'v) \<times> 'f"
  assumes update_ok:
      "fn (case load f of None \<Rightarrow> d | Some v \<Rightarrow> Some v) = Inr w \<Longrightarrow>
       fst (update f fn d) = Inr w \<and> load (snd (update f fn d)) = Some w"
    and update_raises:
      "fn (case load f of None \<Rightarrow> d | Some v \<Rightarrow> Some v) = Inl e \<Longrightarrow> update f fn d = (Inl e, f)"
begin

lemma update_cases:
  obtains (raised) e where "update f fn d = (Inl e, f)"
  | (written) w where "fst (update f fn d) = Inr w" "load (snd (update f fn d)) = Some w"
  using update_ok update_raises
  by (cases "fn (case load f of None \<Rightarrow> d | Some v \<Rightarrow> Some v)") blast+

lemma failed_update_writes_nothing: "fst (update f fn d) = Inl e \<Longrightarrow> snd (update f fn d) = f"
  by (cases rule: update_cases [of f fn d]) auto

text \<open>Two writers one after the other: the second works on what the first wrote.\<close>

lemma no_lost_update:
  assumes "fst (update f fn d) = Inr v" and "gn (Some v) = Inr w"
  shows "load (snd (update (snd (update f fn d)) gn d')) = Some w"
proof -
  from assms(1) have "load (snd (update f fn d)) = Some v"
    by (cases rule: update_cases [of f fn d]) auto
  with assms(2) show ?thesis by (simp add: update_ok)
qed

end

interpretation json_file: locked_store read_json update_json_locked
  by unfold_locales (auto simp: update_json_locked_def write_json_atomic_def)

end
