(* ===== verification/ControlState.thy ===== *)
theory ControlState
  imports StateIO "HOL-Library.List_Lexorder" "HOL-Library.Char_ord"
begin

text \<open>
  Models \<open>kaine/cycle/control_state.py\<close>: the control file that freezes the cycle, a stack of
  entries (oldest first) with a legacy single-slot view of its top, read and changed under
  the lock of \<open>StateIO\<close>. An entry is the raw JSON object, so entries with missing or extra
  keys are in the model. The legacy renames come from \<open>kaine/legacy_names.py\<close> (every scope is
  marked done there) and \<open>kaine/legacy_aliases.py\<close>. Times are ISO strings given as arguments.
\<close>

section \<open>Legacy names\<close>

definition legacy_modules :: "(string \<times> string) list" where
  "legacy_modules =
     [(''topos'', ''vision''), (''soma'', ''interoception''), (''chronos'', ''sequence''),
      (''thymos'', ''affect''), (''hypnos'', ''sleep''), (''mnemos'', ''episodic_memory''),
      (''phantasia'', ''world_model''), (''lingua'', ''language''), (''vox'', ''vocal''),
      (''nous'', ''planning''), (''volition'', ''action_selection''), (''eidolon'', ''self_model''),
      (''empatheia'', ''social_cognition''), (''syneidesis'', ''workspace''), (''praxis'', ''effectors''),
      (''mundus'', ''embodiment''), (''perception'', ''perceptual_locus''), (''spot'', ''supervisor''),
      (''nexus'', ''dashboard''), (''echo'', ''recorder'')]"

definition legacy_stage_values :: "(string \<times> string) list" where
  "legacy_stage_values = [(''gestation'', ''development'')]"

definition legacy_stored_tags :: "(string \<times> string) list" where
  "legacy_stored_tags =
     [(''kaine-phantasia-rssm-npz-v1'', ''kaine-world-model-rssm-npz-v1''),
      (''phantasia-encoder-v1'', ''world-model-encoder-v1''),
      (''birth'', ''maturation''),
      (''failed:gestation_unviable'', ''failed:development_unviable''),
      (''eidolon_drift'', ''self_model_drift'')]"

definition rename_with :: "(string \<times> string) list \<Rightarrow> string \<Rightarrow> string" where
  "rename_with t s = (case map_of t s of None \<Rightarrow> s | Some n \<Rightarrow> n)"

definition map_module_key :: "string \<Rightarrow> string" where
  "map_module_key key = rename_with legacy_modules key"

definition map_stored_value :: "string \<Rightarrow> string" where
  "map_stored_value v =
     (case map_of legacy_stage_values v of
        Some n \<Rightarrow> n
      | None \<Rightarrow> rename_with legacy_stored_tags v)"

fun map_freeze_source :: "pyval \<Rightarrow> pyval" where
  "map_freeze_source (PStr s) = PStr (map_stored_value (map_module_key s))"
| "map_freeze_source v = v"

text \<open>Every new name maps to itself, so mapping twice is mapping once.\<close>

definition new_names :: "string list" where
  "new_names = map snd (legacy_modules @ legacy_stage_values @ legacy_stored_tags)"

lemma new_names_fixed_all:
  "list_all (\<lambda>s. map_module_key s = s \<and> map_stored_value s = s) new_names"
  by code_simp

lemma new_names_fixed: "s \<in> set new_names \<Longrightarrow> map_module_key s = s \<and> map_stored_value s = s"
  using new_names_fixed_all by (auto simp: list_all_iff)

lemma rename_with_cases: "rename_with t s = s \<or> rename_with t s \<in> set (map snd t)"
proof (cases "map_of t s")
  case (Some n)
  then have "(s, n) \<in> set t" by (rule map_of_SomeD)
  then have "n \<in> set (map snd t)" by (force simp: image_iff)
  with Some show ?thesis by (simp add: rename_with_def)
qed (simp add: rename_with_def)

lemma map_module_key_cases: "map_module_key s = s \<or> map_module_key s \<in> set new_names"
  using rename_with_cases [of legacy_modules s] by (auto simp: map_module_key_def new_names_def)

lemma map_stored_value_alt:
  "map_stored_value s = rename_with legacy_stage_values s \<or>
   map_stored_value s = rename_with legacy_stored_tags s"
  by (simp add: map_stored_value_def rename_with_def split: option.split)

lemma map_stored_value_cases: "map_stored_value s = s \<or> map_stored_value s \<in> set new_names"
  using map_stored_value_alt [of s] rename_with_cases [of legacy_stage_values s]
    rename_with_cases [of legacy_stored_tags s]
  by (auto simp: new_names_def simp del: set_map)

lemma map_freeze_source_idem [simp]: "map_freeze_source (map_freeze_source v) = map_freeze_source v"
proof (cases v)
  case (PStr s)
  let ?k = "map_module_key s"
  have k: "map_module_key ?k = ?k"
    using map_module_key_cases [of s] new_names_fixed by auto
  have "map_module_key (map_stored_value ?k) = map_stored_value ?k \<and>
        map_stored_value (map_stored_value ?k) = map_stored_value ?k"
  proof (cases "map_stored_value ?k = ?k")
    case True
    with k show ?thesis by simp
  next
    case False
    with map_stored_value_cases [of ?k] have "map_stored_value ?k \<in> set new_names" by blast
    then show ?thesis by (rule new_names_fixed)
  qed
  with PStr show ?thesis by simp
qed auto

section \<open>The control record\<close>

record cycle_control =
  cc_frozen :: bool
  cc_frozen_at :: pyval
  cc_reason :: pyval
  cc_source :: pyval
  cc_stack :: "pydict list"

definition CycleControl :: cycle_control where
  "CycleControl = \<lparr>cc_frozen = False, cc_frozen_at = PNone, cc_reason = PNone,
     cc_source = PStr ''operator'', cc_stack = []\<rparr>"

text \<open>\<open>_top_view\<close>: the legacy view \<open>(frozen, frozen_at, reason, source)\<close> of the top entry.\<close>

definition top_view :: "pydict list \<Rightarrow> bool \<times> pyval \<times> pyval \<times> pyval" where
  "top_view st =
     (if st = [] then (False, PNone, PNone, PStr ''operator'')
      else let entry = last st in
        (True, dget entry ''frozen_at'' PNone, dget entry ''reason'' PNone,
         dget entry ''source'' (PStr ''operator'')))"

definition state_of :: "pydict list \<Rightarrow> cycle_control" where
  "state_of st =
     (let (fz, since, rs, src) = top_view st
      in \<lparr>cc_frozen = fz, cc_frozen_at = since, cc_reason = rs, cc_source = src, cc_stack = st\<rparr>)"

definition holders :: "cycle_control \<Rightarrow> (pyval \<times> pyval) list" where
  "holders c = map (\<lambda>e. (dget e ''source'' (PStr ''operator''), dget e ''frozen_at'' PNone)) (cc_stack c)"

definition to_dict :: "cycle_control \<Rightarrow> pydict" where
  "to_dict c =
     [(''frozen'', PBool (cc_frozen c)), (''frozen_at'', cc_frozen_at c), (''reason'', cc_reason c),
      (''source'', cc_source c), (''stack'', PList (map PDict (cc_stack c)))]"

text \<open>\<open>for e in data.get("stack") or ()\<close>: iterating a number or True raises TypeError.\<close>

fun iter_items :: "pyval \<Rightarrow> py_exc + pyval list" where
  "iter_items (PList xs) = Inr xs"
| "iter_items (PStr s) = Inr (map (\<lambda>c. PStr [c]) s)"
| "iter_items (PDict d) = Inr (map (\<lambda>(k, v). PStr k) d)"
| "iter_items v = (if truthy v then Inl TypeError else Inr [])"

definition clean_entry :: "pydict \<Rightarrow> pydict" where
  "clean_entry e =
     (case map_of e ''source'' of None \<Rightarrow> e | Some v \<Rightarrow> dset e ''source'' (map_freeze_source v))"

definition legacy_entry :: "pydict \<Rightarrow> pydict" where
  "legacy_entry d =
     [(''source'', map_freeze_source (dget d ''source'' (PStr ''operator''))),
      (''reason'', dget d ''reason'' PNone), (''frozen_at'', dget d ''frozen_at'' PNone)]"

definition from_dict :: "pydict \<Rightarrow> py_exc + cycle_control" where
  "from_dict d =
     ebind (iter_items (dget d ''stack'' PNone)) (\<lambda>items.
       let st = map (\<lambda>e. clean_entry (the_dict e)) (filter is_dict items);
           st' = (if st = [] \<and> truthy (dget d ''frozen'' (PBool False)) then [legacy_entry d] else st)
       in Inr (state_of st'))"

text \<open>\<open>_parse_control\<close>: a file that is no JSON object raises ValueError.\<close>

fun parse_control :: "jfile \<Rightarrow> py_exc + cycle_control" where
  "parse_control (Doc (PDict d)) = from_dict d"
| "parse_control _ = Inl ValueError"

section \<open>The world of the control file and its readers\<close>

text \<open>
  \<open>cw_audit\<close> is the override audit log, \<open>cw_logged\<close> says whether the path is in
  \<open>_LOGGED_CORRUPT_PATHS\<close>, \<open>cw_errors\<close> counts the error lines logged.
\<close>

record ctl_world =
  cw_file :: jfile
  cw_audit :: "pydict list"
  cw_logged :: bool
  cw_errors :: nat

definition mark_readable :: "ctl_world \<Rightarrow> ctl_world" where
  "mark_readable w = w\<lparr>cw_logged := False\<rparr>"

definition log_corrupt_once :: "ctl_world \<Rightarrow> ctl_world" where
  "log_corrupt_once w =
     (if cw_logged w then w else w\<lparr>cw_logged := True, cw_errors := Suc (cw_errors w)\<rparr>)"

text \<open>\<open>ts\<close>: the ISO text of the file's modification time, or of now when stat fails.\<close>

definition fail_closed_state :: "string \<Rightarrow> cycle_control" where
  "fail_closed_state ts =
     (let entry = [(''source'', PStr ''welfare''),
                   (''reason'', PStr ''control file unreadable; treating as welfare freeze''),
                   (''frozen_at'', PStr ts)]
      in \<lparr>cc_frozen = True, cc_frozen_at = PStr ts,
          cc_reason = PStr ''control file unreadable; treating as welfare freeze'',
          cc_source = PStr ''welfare'', cc_stack = [entry]\<rparr>)"

definition control_file_unreadable :: "ctl_world \<Rightarrow> bool" where
  "control_file_unreadable w =
     (if cw_file w = Absent then False
      else case parse_control (cw_file w) of Inl _ \<Rightarrow> True | Inr _ \<Rightarrow> False)"

definition read_control :: "string \<Rightarrow> ctl_world \<Rightarrow> cycle_control \<times> ctl_world" where
  "read_control ts w =
     (if cw_file w = Absent then (CycleControl, mark_readable w)
      else case parse_control (cw_file w) of
             Inr control \<Rightarrow> (control, mark_readable w)
           | Inl _ \<Rightarrow> (fail_closed_state ts, log_corrupt_once w))"

definition read_frozen_state :: "ctl_world \<Rightarrow> bool option" where
  "read_frozen_state w =
     (if cw_file w = Absent then Some False
      else case parse_control (cw_file w) of
             Inl _ \<Rightarrow> None
           | Inr control \<Rightarrow> if cc_stack control \<noteq> [] then Some True else Some (cc_frozen control))"

text \<open>\<open>py_str\<close> is the interpreter's \<open>str()\<close>.\<close>

definition read_holder_sources :: "(pyval \<Rightarrow> string) \<Rightarrow> ctl_world \<Rightarrow> string set option" where
  "read_holder_sources py_str w =
     (if cw_file w = Absent then Some {}
      else case parse_control (cw_file w) of
             Inl _ \<Rightarrow> None
           | Inr control \<Rightarrow>
               Some (set (map (\<lambda>e. py_str (dget e ''source'' (PStr ''operator''))) (cc_stack control))))"

section \<open>Locked changes of the stack\<close>

text \<open>
  What the functions passed to \<open>update_json_locked\<close> make of the current content: a missing
  file is an empty stack, anything that is no JSON object or does not build a
  \<open>CycleControl\<close> is corrupt. \<open>None\<close> is the sentinel default.
\<close>

definition current_control :: "jfile \<Rightarrow> pyval option \<Rightarrow> py_exc + cycle_control" where
  "current_control target current =
     (case current of
        None \<Rightarrow> if target = Absent then from_dict [] else Inl CorruptControlFile
      | Some (PDict d) \<Rightarrow>
          (case from_dict d of Inl _ \<Rightarrow> Inl CorruptControlFile | Inr c \<Rightarrow> Inr c)
      | Some _ \<Rightarrow> Inl CorruptControlFile)"

definition write_control :: "cycle_control \<Rightarrow> ctl_world \<Rightarrow> ctl_world" where
  "write_control state w =
     (case update_json_locked (cw_file w)
             (\<lambda>current. ebind (current_control (cw_file w) current) (\<lambda>_. Inr (PDict (to_dict state))))
             None of
        (Inl _, _) \<Rightarrow> log_corrupt_once w
      | (Inr _, f) \<Rightarrow> w\<lparr>cw_file := f\<rparr>)"

definition stack_apply ::
  "jfile \<Rightarrow> (pydict list \<Rightarrow> pydict list) \<Rightarrow> pyval option \<Rightarrow> py_exc + cycle_control" where
  "stack_apply target fn current =
     ebind (current_control target current) (\<lambda>control. Inr (state_of (fn (cc_stack control))))"

definition update_stack ::
  "string \<Rightarrow> (pydict list \<Rightarrow> pydict list) \<Rightarrow> ctl_world \<Rightarrow> cycle_control \<times> ctl_world" where
  "update_stack ts fn w =
     (case update_json_locked (cw_file w)
             (\<lambda>current. ebind (stack_apply (cw_file w) fn current) (\<lambda>state. Inr (PDict (to_dict state))))
             None of
        (Inl _, _) \<Rightarrow> (fail_closed_state ts, log_corrupt_once w)
      | (Inr _, f) \<Rightarrow>
          (case stack_apply (cw_file w) fn (read_json (cw_file w)) of
             Inr state \<Rightarrow> (state, w\<lparr>cw_file := f\<rparr>)
           | Inl _ \<Rightarrow> (fail_closed_state ts, w\<lparr>cw_file := f\<rparr>)))"

definition freeze_entry :: "string \<Rightarrow> pyval \<Rightarrow> string \<Rightarrow> pydict" where
  "freeze_entry source reason now =
     [(''source'', PStr source), (''reason'', reason), (''frozen_at'', PStr now)]"

text \<open>\<open>e.get("source") == s\<close>: an entry without the key compares None.\<close>

definition entry_from :: "string \<Rightarrow> pydict \<Rightarrow> bool" where
  "entry_from s e \<longleftrightarrow> dget e ''source'' PNone = PStr s"

definition push_freeze ::
  "string \<Rightarrow> pyval \<Rightarrow> string \<Rightarrow> string \<Rightarrow> ctl_world \<Rightarrow> cycle_control \<times> ctl_world" where
  "push_freeze ts reason source now w =
     update_stack ts (\<lambda>stack. stack @ [freeze_entry source reason now]) w"

definition pop_freeze :: "string \<Rightarrow> string option \<Rightarrow> ctl_world \<Rightarrow> cycle_control \<times> ctl_world" where
  "pop_freeze ts source w =
     update_stack ts
       (\<lambda>stack. case source of None \<Rightarrow> butlast stack | Some s \<Rightarrow> remove_last (entry_from s) stack) w"

definition stand_down :: "string \<Rightarrow> string \<Rightarrow> ctl_world \<Rightarrow> cycle_control \<times> ctl_world" where
  "stand_down ts source w = update_stack ts (filter (\<lambda>e. \<not> entry_from source e)) w"

definition overridable_sources :: "string list" where
  "overridable_sources = [''welfare'', ''development'', ''programme_end'']"

definition self_releasing_sources :: "string list" where
  "self_releasing_sources = [''supervisor'', ''preserve'']"

text \<open>
  The function \<open>override\<close> passes to the locked update; the flag is its nonlocal
  \<open>replaced_corrupt_file\<close>.
\<close>

definition override_apply ::
  "jfile \<Rightarrow> string list \<Rightarrow> pyval option \<Rightarrow> py_exc + bool \<times> cycle_control" where
  "override_apply target sources current =
     (case current_control target current of
        Inl _ \<Rightarrow> if ''welfare'' \<notin> set sources then Inl LookupError else Inr (True, CycleControl)
      | Inr control \<Rightarrow>
          (if \<exists>s \<in> set sources.
                PStr s \<notin> set (map (\<lambda>e. dget e ''source'' (PStr ''operator'')) (cc_stack control))
           then Inl LookupError
           else Inr (False, state_of
                  (filter (\<lambda>e. dget e ''source'' PNone \<notin> set (map PStr sources)) (cc_stack control)))))"

definition override_record :: "string \<Rightarrow> string list \<Rightarrow> bool \<Rightarrow> cycle_control \<Rightarrow> pydict" where
  "override_record now sources replaced new_state =
     [(''at'', PStr now), (''sources'', PList (map PStr (sort sources))),
      (''remaining'', PList (map fst (holders new_state)))] @
     (if replaced
      then [(''note'', PStr ''control file was unreadable; replaced with clean file after override'')]
      else [])"

definition override_freeze ::
  "string \<Rightarrow> string list \<Rightarrow> ctl_world \<Rightarrow> (py_exc + cycle_control) \<times> ctl_world" where
  "override_freeze now sources w =
     (if sources = [] \<or> (\<exists>s \<in> set sources. s \<notin> set overridable_sources) then (Inl ValueError, w)
      else case update_json_locked (cw_file w)
                  (\<lambda>current. ebind (override_apply (cw_file w) sources current)
                     (\<lambda>(_, state). Inr (PDict (to_dict state)))) None of
             (Inl e, _) \<Rightarrow> (Inl e, w)
           | (Inr data, f) \<Rightarrow>
               (case from_dict (the_dict data) of
                  Inl e \<Rightarrow> (Inl e, w\<lparr>cw_file := f\<rparr>)
                | Inr new_state \<Rightarrow>
                    (let replaced = (case override_apply (cw_file w) sources (read_json (cw_file w)) of
                                       Inr (r, _) \<Rightarrow> r | Inl _ \<Rightarrow> False)
                     in (Inr new_state,
                         w\<lparr>cw_file := f,
                           cw_audit := cw_audit w @ [override_record now sources replaced new_state]\<rparr>))))"

definition freeze_cycle ::
  "string \<Rightarrow> pyval \<Rightarrow> string \<Rightarrow> string \<Rightarrow> ctl_world \<Rightarrow> cycle_control \<times> ctl_world" where
  "freeze_cycle ts reason source now w = push_freeze ts reason source now w"

definition unfreeze_for_boot :: "string \<Rightarrow> ctl_world \<Rightarrow> cycle_control \<times> ctl_world" where
  "unfreeze_for_boot ts w =
     (if cw_file w \<noteq> Absent then
        (case parse_control (cw_file w) of
           Inl _ \<Rightarrow> (fail_closed_state ts, w\<lparr>cw_errors := Suc (cw_errors w)\<rparr>)
         | Inr _ \<Rightarrow> update_stack ts (filter (entry_from ''welfare'')) w)
      else update_stack ts (\<lambda>_. []) w)"

definition unfreeze :: "string \<Rightarrow> ctl_world \<Rightarrow> cycle_control \<times> ctl_world" where
  "unfreeze ts w = update_stack ts (\<lambda>_. []) w"

section \<open>Reading back what was written\<close>

text \<open>The stack a reader sees: \<open>None\<close> when the file exists and is corrupt.\<close>

definition ctl_stack :: "ctl_world \<Rightarrow> pydict list option" where
  "ctl_stack w =
     (if cw_file w = Absent then Some []
      else case parse_control (cw_file w) of Inl _ \<Rightarrow> None | Inr c \<Rightarrow> Some (cc_stack c))"

lemma cc_stack_state_of [simp]: "cc_stack (state_of st) = st"
  by (simp add: state_of_def split: prod.split)

lemma cc_frozen_state_of [simp]: "cc_frozen (state_of st) \<longleftrightarrow> st \<noteq> []"
  by (simp add: state_of_def top_view_def Let_def)

lemma state_of_Nil [simp]: "state_of [] = CycleControl"
  by (simp add: state_of_def top_view_def CycleControl_def)

lemma cc_source_state_of:
  "st \<noteq> [] \<Longrightarrow> cc_source (state_of st) = dget (last st) ''source'' (PStr ''operator'')"
  by (simp add: state_of_def top_view_def Let_def)

lemma cc_stack_default [simp]: "cc_stack CycleControl = []"
  by (simp add: CycleControl_def)

lemma fail_closed_is_view [simp]: "state_of (cc_stack (fail_closed_state ts)) = fail_closed_state ts"
  by (simp add: fail_closed_state_def state_of_def top_view_def Let_def)

lemma fail_closed_simps [simp]:
  "cc_frozen (fail_closed_state ts)" "cc_source (fail_closed_state ts) = PStr ''welfare''"
  "cc_stack (fail_closed_state ts) \<noteq> []"
  by (simp_all add: fail_closed_state_def)

lemma clean_entry_idem [simp]: "clean_entry (clean_entry e) = clean_entry e"
proof -
  have "dset (dset e k v) k v = dset e k v" for k v
    by (induction e) auto
  then show ?thesis by (simp add: clean_entry_def split: option.split)
qed

lemma clean_freeze_entry [simp]:
  "clean_entry (freeze_entry s r t) = freeze_entry (map_stored_value (map_module_key s)) r t"
  by (simp add: clean_entry_def freeze_entry_def)

lemma clean_legacy_entry [simp]: "clean_entry (legacy_entry d) = legacy_entry d"
  by (simp add: clean_entry_def legacy_entry_def)

lemma dget_clean_other [simp]: "k \<noteq> ''source'' \<Longrightarrow> dget (clean_entry e) k v = dget e k v"
  by (simp add: clean_entry_def split: option.split)

lemma map_source_welfare [simp]: "map_stored_value (map_module_key ''welfare'') = ''welfare''"
  by code_simp

lemma map_source_known [simp]:
  "map_stored_value (map_module_key ''operator'') = ''operator''"
  "map_stored_value (map_module_key ''supervisor'') = ''supervisor''"
  "map_stored_value (map_module_key ''preserve'') = ''preserve''"
  "map_stored_value (map_module_key ''development'') = ''development''"
  "map_stored_value (map_module_key ''programme_end'') = ''programme_end''"
  by code_simp+

lemma map_source_new:
  assumes "map_freeze_source v = PStr s" shows "map_stored_value (map_module_key s) = s"
proof -
  have "map_freeze_source (PStr s) = PStr s" using map_freeze_source_idem [of v] assms by simp
  then show ?thesis by simp
qed

lemma map_iter_clean: "filter is_dict (map PDict st) = map PDict st"
  by (induction st) auto

lemma from_dict_to_dict: "from_dict (to_dict (state_of st)) = Inr (state_of (map clean_entry st))"
  by (simp add: from_dict_def to_dict_def map_iter_clean Let_def comp_def)

lemma from_dict_Nil [simp]: "from_dict [] = Inr CycleControl"
  by (simp add: from_dict_def)

lemma from_dict_clean: "from_dict d = Inr c \<Longrightarrow> map clean_entry (cc_stack c) = cc_stack c"
  by (auto simp: from_dict_def Let_def comp_def)

lemma from_dict_view: "from_dict d = Inr c \<Longrightarrow> state_of (cc_stack c) = c"
  by (auto simp: from_dict_def Let_def)

lemma parse_control_dict: "parse_control f = Inr c \<Longrightarrow> \<exists>d. f = Doc (PDict d) \<and> from_dict d = Inr c"
  by (cases f rule: parse_control.cases) auto

lemma ctl_stack_cases:
  obtains (missing) "cw_file w = Absent" "ctl_stack w = Some []"
  | (readable) d c where "cw_file w = Doc (PDict d)" "from_dict d = Inr c"
      "parse_control (cw_file w) = Inr c" "ctl_stack w = Some (cc_stack c)"
  | (corrupt) e where "cw_file w \<noteq> Absent" "parse_control (cw_file w) = Inl e" "ctl_stack w = None"
proof (cases "cw_file w = Absent")
  case True
  then show ?thesis by (intro missing) (simp_all add: ctl_stack_def)
next
  case False
  show ?thesis
  proof (cases "parse_control (cw_file w)")
    case (Inl e)
    with False show ?thesis by (intro corrupt) (simp_all add: ctl_stack_def)
  next
    case (Inr c)
    then obtain d where "cw_file w = Doc (PDict d)" "from_dict d = Inr c"
      by (blast dest: parse_control_dict)
    with Inr show ?thesis by (intro readable [of d c]) (simp_all add: ctl_stack_def)
  qed
qed

lemma ctl_stack_clean: "ctl_stack w = Some st \<Longrightarrow> map clean_entry st = st"
  by (cases rule: ctl_stack_cases [of w]) (auto dest: from_dict_clean)

lemma current_control_ok:
  assumes "ctl_stack w = Some st"
  shows "current_control (cw_file w) (read_json (cw_file w)) = Inr (state_of st)"
  using assms
  by (cases rule: ctl_stack_cases [of w]) (auto simp: current_control_def dest: from_dict_view)

lemma current_control_corrupt:
  assumes "ctl_stack w = None"
  shows "current_control (cw_file w) (read_json (cw_file w)) = Inl CorruptControlFile"
proof (cases rule: ctl_stack_cases [of w])
  case (corrupt e)
  then show ?thesis
    by (cases "cw_file w" rule: parse_control.cases) (auto simp: current_control_def)
qed (use assms in auto)

lemma update_locked_none:
  "update_json_locked f fn None =
     (case fn (read_json f) of Inl e \<Rightarrow> (Inl e, f) | Inr v \<Rightarrow> (Inr v, Doc v))"
proof -
  have "(case read_json f of None \<Rightarrow> None | Some v \<Rightarrow> Some v) = read_json f"
    by (simp split: option.split)
  then show ?thesis by (simp add: update_json_locked_def write_json_atomic_def split: sum.split)
qed

text \<open>The two equations every stack operation rests on.\<close>

lemma update_stack_ok [ctl_simps]:
  assumes "ctl_stack w = Some st"
  shows "update_stack ts fn w =
    (state_of (fn st), w\<lparr>cw_file := Doc (PDict (to_dict (state_of (fn st))))\<rparr>)"
  using current_control_ok [OF assms]
  by (simp add: update_stack_def update_locked_none stack_apply_def)

lemma update_stack_corrupt [ctl_simps]:
  assumes "ctl_stack w = None"
  shows "update_stack ts fn w = (fail_closed_state ts, log_corrupt_once w)"
  using current_control_corrupt [OF assms]
  by (simp add: update_stack_def update_locked_none stack_apply_def)

lemma ctl_stack_written [simp]:
  "ctl_stack (w\<lparr>cw_file := Doc (PDict (to_dict (state_of st)))\<rparr>) = Some (map clean_entry st)"
  by (simp add: ctl_stack_def from_dict_to_dict)

lemma ctl_stack_update_stack:
  "ctl_stack w = Some st \<Longrightarrow> ctl_stack (snd (update_stack ts fn w)) = Some (map clean_entry (fn st))"
  by (simp add: ctl_simps)

lemma log_corrupt_once_file [simp]: "cw_file (log_corrupt_once w) = cw_file w"
  by (simp add: log_corrupt_once_def)

lemma mark_readable_file [simp]: "cw_file (mark_readable w) = cw_file w"
  by (simp add: mark_readable_def)

lemma ctl_stack_file_cong: "cw_file w = cw_file v \<Longrightarrow> ctl_stack w = ctl_stack v"
  by (simp add: ctl_stack_def)

lemma map_clean_subset: "map clean_entry st = st \<Longrightarrow> set xs \<subseteq> set st \<Longrightarrow> map clean_entry xs = xs"
proof -
  assume "map clean_entry st = st"
  then have "\<forall>e \<in> set st. clean_entry e = e" by (metis map_eq_conv list.map_ident)
  then show "set xs \<subseteq> set st \<Longrightarrow> map clean_entry xs = xs" by (simp add: map_idI subset_iff)
qed

lemma ctl_stack_shrink:
  assumes "ctl_stack w = Some st" and "set (fn st) \<subseteq> set st"
  shows "ctl_stack (snd (update_stack ts fn w)) = Some (fn st)"
  using assms map_clean_subset [OF ctl_stack_clean [OF assms(1)] assms(2)]
  by (simp add: ctl_stack_update_stack)

section \<open>What each operation does to the stack\<close>

lemma override_spec [ctl_simps]:
  "override_freeze now srcs w =
     (if srcs = [] \<or> \<not> set srcs \<subseteq> set overridable_sources then (Inl ValueError, w)
      else case ctl_stack w of
        None \<Rightarrow>
          if ''welfare'' \<notin> set srcs then (Inl LookupError, w)
          else (Inr CycleControl,
                w\<lparr>cw_file := Doc (PDict (to_dict CycleControl)),
                  cw_audit := cw_audit w @ [override_record now srcs True CycleControl]\<rparr>)
      | Some st \<Rightarrow>
          if \<exists>s \<in> set srcs. \<forall>e \<in> set st. dget e ''source'' (PStr ''operator'') \<noteq> PStr s
          then (Inl LookupError, w)
          else (let keep = filter (\<lambda>e. \<forall>s \<in> set srcs. \<not> entry_from s e) st
                in (Inr (state_of keep),
                    w\<lparr>cw_file := Doc (PDict (to_dict (state_of keep))),
                      cw_audit := cw_audit w @ [override_record now srcs False (state_of keep)]\<rparr>)))"
proof (cases "srcs = [] \<or> \<not> set srcs \<subseteq> set overridable_sources")
  case True
  then show ?thesis by (auto simp: override_freeze_def)
next
  case False
  then have args: "(srcs = [] \<or> (\<exists>s \<in> set srcs. s \<notin> set overridable_sources)) = False" by auto
  show ?thesis
  proof (cases "ctl_stack w")
    case None
    show ?thesis
      using False current_control_corrupt [OF None] from_dict_to_dict [of "[]"]
      by (simp only: override_freeze_def args if_False)
        (simp add: None update_locked_none override_apply_def)
  next
    case (Some st)
    let ?keep = "filter (\<lambda>e. \<forall>s \<in> set srcs. \<not> entry_from s e) st"
    have eq: "(\<lambda>e. dget e ''source'' PNone \<notin> set (map PStr srcs)) = (\<lambda>e. \<forall>s \<in> set srcs. \<not> entry_from s e)"
      by (auto simp: entry_from_def)
    have "map clean_entry ?keep = ?keep"
      by (rule map_clean_subset [OF ctl_stack_clean [OF Some]]) auto
    then have again: "from_dict (to_dict (state_of ?keep)) = Inr (state_of ?keep)"
      using from_dict_to_dict [of ?keep] by simp
    have named: "(\<exists>s \<in> set srcs. PStr s \<notin> set (map (\<lambda>e. dget e ''source'' (PStr ''operator'')) st)) \<longleftrightarrow>
        (\<exists>s \<in> set srcs. \<forall>e \<in> set st. dget e ''source'' (PStr ''operator'') \<noteq> PStr s)"
      by (force simp: image_iff)
    show ?thesis
      using False current_control_ok [OF Some] again
      by (simp only: override_freeze_def args if_False)
        (simp add: Some update_locked_none override_apply_def eq named Let_def
          del: set_map)
  qed
qed

lemma push_freeze_stack:
  "ctl_stack w = Some st \<Longrightarrow> ctl_stack (snd (push_freeze ts r s t w)) =
     Some (st @ [freeze_entry (map_stored_value (map_module_key s)) r t])"
  by (simp add: push_freeze_def ctl_stack_update_stack ctl_stack_clean)

lemma pop_freeze_stack:
  "ctl_stack w = Some st \<Longrightarrow> ctl_stack (snd (pop_freeze ts src w)) =
     Some (case src of None \<Rightarrow> butlast st | Some s \<Rightarrow> remove_last (entry_from s) st)"
  unfolding pop_freeze_def
  by (cases src)
    (simp_all add: ctl_stack_shrink set_remove_last subsetI [OF in_set_butlastD])

lemma stand_down_stack:
  "ctl_stack w = Some st \<Longrightarrow>
   ctl_stack (snd (stand_down ts s w)) = Some (filter (\<lambda>e. \<not> entry_from s e) st)"
  unfolding stand_down_def by (rule ctl_stack_shrink) auto

lemma unfreeze_for_boot_stack:
  "ctl_stack w = Some st \<Longrightarrow>
   ctl_stack (snd (unfreeze_for_boot ts w)) = Some (filter (entry_from ''welfare'') st)"
  by (cases rule: ctl_stack_cases [of w])
    (auto simp: unfreeze_for_boot_def ctl_stack_shrink)

lemmas stack_results =
  push_freeze_stack pop_freeze_stack stand_down_stack unfreeze_for_boot_stack

lemma write_control_corrupt: "ctl_stack w = None \<Longrightarrow> write_control c w = log_corrupt_once w"
  by (simp add: write_control_def update_locked_none current_control_corrupt)

lemma read_control_view:
  "fst (read_control ts w) =
     (case ctl_stack w of None \<Rightarrow> fail_closed_state ts | Some st \<Rightarrow> state_of st)"
proof (cases rule: ctl_stack_cases [of w])
  case (readable d c)
  then have "state_of (cc_stack c) = c" by (blast intro: from_dict_view)
  with readable show ?thesis by (simp add: read_control_def)
qed (simp_all add: read_control_def)

lemma read_control_file [simp]: "cw_file (snd (read_control ts w)) = cw_file w"
  by (simp add: read_control_def split: sum.split)

section \<open>The interface the freeze holders use\<close>

text \<open>
  What the supervisor and the watches rely on: pushing an entry under a name puts one entry
  of that name, and of no other, on top; popping a name removes its newest entry; neither
  touches a corrupt file.
\<close>

locale freeze_stack =
  fixes stk :: "'w \<Rightarrow> 'e list option"
    and is_from :: "'s \<Rightarrow> 'e \<Rightarrow> bool"
    and known :: "'s \<Rightarrow> bool"
    and push :: "'s \<Rightarrow> 'w \<Rightarrow> 'w"
    and pop :: "'s \<Rightarrow> 'w \<Rightarrow> 'w"
  assumes push_stk: "known s \<Longrightarrow> stk w = Some xs \<Longrightarrow>
      \<exists>e. is_from s e \<and> (\<forall>s'. s' \<noteq> s \<longrightarrow> \<not> is_from s' e) \<and> stk (push s w) = Some (xs @ [e])"
    and pop_stk: "stk w = Some xs \<Longrightarrow> stk (pop s w) = Some (remove_last (is_from s) xs)"
    and corrupt: "stk w = None \<Longrightarrow> stk (push s w) = None \<and> stk (pop s w) = None"
    and one_source: "is_from s e \<Longrightarrow> is_from s' e \<Longrightarrow> s = s'"
begin

lemma push_pop: "known s \<Longrightarrow> stk w = Some xs \<Longrightarrow> stk (pop s (push s w)) = Some xs"
  using push_stk [of s w xs] by (auto simp: pop_stk)

lemma pop_keeps_others:
  "stk w = Some xs \<Longrightarrow> s \<noteq> s' \<Longrightarrow>
   \<exists>ys. stk (pop s w) = Some ys \<and> filter (is_from s') ys = filter (is_from s') xs"
  using filter_remove_last_other [of "is_from s" "is_from s'"] one_source
  by (auto simp: pop_stk)

lemma push_keeps_others:
  "known s \<Longrightarrow> stk w = Some xs \<Longrightarrow> s \<noteq> s' \<Longrightarrow>
   \<exists>ys. stk (push s w) = Some ys \<and> filter (is_from s') ys = filter (is_from s') xs"
  using push_stk [of s w xs] by auto

lemma pushes_count:
  "known s \<Longrightarrow> stk w = Some xs \<Longrightarrow>
   \<exists>ys. stk ((push s ^^ n) w) = Some ys \<and>
        length (filter (is_from s) ys) = n + length (filter (is_from s) xs)"
proof (induction n)
  case (Suc n)
  then obtain ys where "stk ((push s ^^ n) w) = Some ys"
    and "length (filter (is_from s) ys) = n + length (filter (is_from s) xs)" by blast
  then show ?case using push_stk [OF Suc.prems(1)] by fastforce
qed simp

text \<open>One pop after several pushes leaves all pushed entries but one.\<close>

lemma pushes_pop_count:
  assumes "known s" and "stk w = Some xs"
  shows "\<exists>ys. stk (pop s ((push s ^^ Suc n) w)) = Some ys \<and>
    length (filter (is_from s) ys) = n + length (filter (is_from s) xs)"
proof -
  obtain ys where ys: "stk ((push s ^^ Suc n) w) = Some ys"
    and "length (filter (is_from s) ys) = Suc n + length (filter (is_from s) xs)"
    using pushes_count [OF assms] by blast
  with pop_stk [OF ys, of s] show ?thesis by (simp add: length_filter_remove_last)
qed

end

interpretation ctl: freeze_stack ctl_stack entry_from "\<lambda>s. map_stored_value (map_module_key s) = s"
  "\<lambda>s w. snd (push_freeze ts r s t w)" "\<lambda>s w. snd (pop_freeze ts (Some s) w)"
  for ts t :: string and r :: pyval
proof
  fix s :: string and w xs
  assume "map_stored_value (map_module_key s) = s" and "ctl_stack w = Some xs"
  then have "ctl_stack (snd (push_freeze ts r s t w)) = Some (xs @ [freeze_entry s r t])"
    by (simp add: push_freeze_stack)
  then show "\<exists>e. entry_from s e \<and> (\<forall>s'. s' \<noteq> s \<longrightarrow> \<not> entry_from s' e) \<and>
      ctl_stack (snd (push_freeze ts r s t w)) = Some (xs @ [e])"
    by (intro exI [of _ "freeze_entry s r t"]) (simp add: entry_from_def freeze_entry_def)
next
  fix s :: string and w xs
  assume "ctl_stack w = Some xs"
  then show "ctl_stack (snd (pop_freeze ts (Some s) w)) = Some (remove_last (entry_from s) xs)"
    by (simp add: pop_freeze_stack)
next
  fix s :: string and w
  assume none: "ctl_stack w = None"
  then have "ctl_stack (log_corrupt_once w) = None"
    using ctl_stack_file_cong [of "log_corrupt_once w" w] by simp
  with none show "ctl_stack (snd (push_freeze ts r s t w)) = None \<and>
      ctl_stack (snd (pop_freeze ts (Some s) w)) = None"
    by (simp add: push_freeze_def pop_freeze_def update_stack_corrupt)
qed (simp add: entry_from_def)

section \<open>Sequences of operations\<close>

datatype ctl_op =
    CWrite cycle_control
  | CPush pyval string string
  | CPop "string option"
  | CStandDown string
  | COverride string "string list"
  | CUnfreezeBoot
  | CUnfreeze
  | CRead

fun ctl_step :: "string \<Rightarrow> ctl_world \<Rightarrow> ctl_op \<Rightarrow> ctl_world" where
  "ctl_step ts w (CWrite c) = write_control c w"
| "ctl_step ts w (CPush reason source now) = snd (freeze_cycle ts reason source now w)"
| "ctl_step ts w (CPop source) = snd (pop_freeze ts source w)"
| "ctl_step ts w (CStandDown source) = snd (stand_down ts source w)"
| "ctl_step ts w (COverride now sources) = snd (override_freeze now sources w)"
| "ctl_step ts w CUnfreezeBoot = snd (unfreeze_for_boot ts w)"
| "ctl_step ts w CUnfreeze = snd (unfreeze ts w)"
| "ctl_step ts w CRead = snd (read_control ts w)"

fun overrides_welfare :: "ctl_op \<Rightarrow> bool" where
  "overrides_welfare (COverride now sources) = (''welfare'' \<in> set sources)"
| "overrides_welfare _ = False"

text \<open>The operations that may take a welfare entry off the stack or replace the whole file.\<close>

fun may_lift_welfare :: "ctl_op \<Rightarrow> bool" where
  "may_lift_welfare (CWrite c) = True"
| "may_lift_welfare (CPop source) = (source = None \<or> source = Some ''welfare'')"
| "may_lift_welfare (CStandDown source) = (source = ''welfare'')"
| "may_lift_welfare (COverride now sources) = (''welfare'' \<in> set sources)"
| "may_lift_welfare CUnfreeze = True"
| "may_lift_welfare _ = False"

definition welfare_hold :: "ctl_world \<Rightarrow> bool" where
  "welfare_hold w =
     (case ctl_stack w of None \<Rightarrow> True | Some st \<Rightarrow> \<exists>e \<in> set st. entry_from ''welfare'' e)"

lemma unfreeze_for_boot_corrupt_file:
  "ctl_stack w = None \<Longrightarrow> cw_file (snd (unfreeze_for_boot ts w)) = cw_file w"
  by (cases rule: ctl_stack_cases [of w]) (auto simp: unfreeze_for_boot_def)

lemma ctl_step_corrupt:
  "ctl_stack w = None \<Longrightarrow> \<not> overrides_welfare x \<Longrightarrow> cw_file (ctl_step ts w x) = cw_file w"
  by (cases x)
    (auto simp: write_control_corrupt freeze_cycle_def push_freeze_def pop_freeze_def stand_down_def
      unfreeze_def unfreeze_for_boot_corrupt_file ctl_simps)

interpretation corrupt_file: machine "ctl_step ts" "\<lambda>x. \<not> overrides_welfare x"
    "\<lambda>w. ctl_stack w = None \<and> cw_file w = f" for ts :: string and f :: jfile
proof
  fix w x
  assume "ctl_stack w = None \<and> cw_file w = f" and "\<not> overrides_welfare x"
  moreover from this have "cw_file (ctl_step ts w x) = cw_file w" by (simp add: ctl_step_corrupt)
  moreover from this have "ctl_stack (ctl_step ts w x) = ctl_stack w" by (rule ctl_stack_file_cong)
  ultimately show "ctl_stack (ctl_step ts w x) = None \<and> cw_file (ctl_step ts w x) = f" by simp
qed

lemma remove_last_keeps_welfare:
  "\<exists>e \<in> set st. entry_from ''welfare'' e \<Longrightarrow> s \<noteq> ''welfare'' \<Longrightarrow>
   \<exists>e \<in> set (remove_last (entry_from s) st). entry_from ''welfare'' e"
proof (elim bexE)
  fix e assume "e \<in> set st" and w: "entry_from ''welfare'' e" and "s \<noteq> ''welfare''"
  then have "e \<in> set (remove_last (entry_from s) st)"
    by (intro remove_last_keeps) (auto simp: entry_from_def)
  with w show ?thesis by blast
qed

lemma entry_from_same: "entry_from s e \<Longrightarrow> entry_from s' e \<longleftrightarrow> s' = s"
  by (auto simp: entry_from_def)

lemma override_keeps_welfare:
  assumes "welfare_hold w" and "''welfare'' \<notin> set srcs"
  shows "welfare_hold (snd (override_freeze now srcs w))"
proof (cases "ctl_stack w")
  case None
  with assms show ?thesis by (simp add: override_spec)
next
  case (Some st)
  let ?keep = "filter (\<lambda>e. \<forall>s \<in> set srcs. \<not> entry_from s e) st"
  from Some assms(1) obtain e where e: "e \<in> set st" "entry_from ''welfare'' e"
    by (auto simp: welfare_hold_def)
  with assms(2) have "e \<in> set ?keep" by (auto simp: entry_from_same)
  moreover have "map clean_entry ?keep = ?keep"
    by (rule map_clean_subset [OF ctl_stack_clean [OF Some]]) auto
  ultimately have "welfare_hold (w\<lparr>cw_file := Doc (PDict (to_dict (state_of ?keep))), cw_audit := a\<rparr>)" for a
    using e(2) by (auto simp: welfare_hold_def ctl_stack_def from_dict_to_dict)
  with Some assms show ?thesis by (simp add: override_spec Let_def)
qed

interpretation welfare: machine "ctl_step ts" "\<lambda>x. \<not> may_lift_welfare x" welfare_hold
  for ts :: string
proof
  fix w x
  assume held: "welfare_hold w" and x: "\<not> may_lift_welfare x"
  show "welfare_hold (ctl_step ts w x)"
  proof (cases "ctl_stack w")
    case None
    show ?thesis
    proof (cases "overrides_welfare x")
      case True
      with x show ?thesis by (cases x) auto
    next
      case False
      with None have "ctl_stack (ctl_step ts w x) = None"
        using ctl_step_corrupt ctl_stack_file_cong by metis
      then show ?thesis by (simp add: welfare_hold_def)
    qed
  next
    case (Some st)
    with held have e: "\<exists>e \<in> set st. entry_from ''welfare'' e" by (simp add: welfare_hold_def)
    have read: "ctl_stack (snd (read_control ts w)) = Some st"
      using Some ctl_stack_file_cong [of "snd (read_control ts w)" w] by simp
    show ?thesis
    proof (cases x)
      case (COverride now srcs)
      with x held show ?thesis by (simp add: override_keeps_welfare)
    next
      case (CPop src)
      with x obtain s where "src = Some s" "s \<noteq> ''welfare''" by (cases src) auto
      with CPop Some e show ?thesis by (simp add: welfare_hold_def stack_results remove_last_keeps_welfare)
    next
      case (CStandDown s)
      with x Some e show ?thesis by (auto simp: welfare_hold_def stack_results entry_from_def)
    qed (use x Some e read in \<open>auto simp: welfare_hold_def stack_results freeze_cycle_def\<close>)
  qed
qed

lemma welfare_hold_reads_frozen: "welfare_hold w \<Longrightarrow> cc_frozen (fst (read_control ts w))"
  by (auto simp: read_control_view welfare_hold_def split: option.splits)

section \<open>Properties\<close>

definition sample_entry :: "string \<Rightarrow> pydict" where
  "sample_entry s = freeze_entry s PNone ''2026-01-01T00:00:00+00:00''"

definition sample_world :: "pydict list \<Rightarrow> ctl_world" where
  "sample_world st =
     \<lparr>cw_file = Doc (PDict (to_dict (state_of st))), cw_audit = [], cw_logged = False, cw_errors = 0\<rparr>"

lemma ctl_stack_sample: "ctl_stack (sample_world st) = Some (map clean_entry st)"
  by (simp add: sample_world_def ctl_stack_def from_dict_to_dict)

text \<open>
  C5. A control file that exists but cannot be read as a control record stays exactly as it
  is under any sequence of operations that contains no override naming welfare, and every
  reader is told of a welfare freeze: no pop, stand-down, unfreeze, boot or write lifts it.
\<close>

theorem corrupt_control_file_stays_frozen:
  assumes "ctl_stack w = None" and "list_all (\<lambda>x. \<not> overrides_welfare x) ops"
  shows "cw_file (run (ctl_step ts) w ops) = cw_file w \<and>
    fst (read_control ts (run (ctl_step ts) w ops)) = fail_closed_state ts"
  using corrupt_file.run_inv [of w "cw_file w" ops ts] assms by (simp add: read_control_view)

theorem corrupt_control_file_stays_frozen_witness:
  "cc_frozen (fst (read_control ''t'' (run (ctl_step ''t'')
     \<lparr>cw_file = Unreadable, cw_audit = [], cw_logged = False, cw_errors = 0\<rparr>
     [CUnfreeze, CStandDown ''welfare'', CUnfreezeBoot, COverride ''n'' [''development'']])))"
  using corrupt_control_file_stays_frozen
    [of "\<lparr>cw_file = Unreadable, cw_audit = [], cw_logged = False, cw_errors = 0\<rparr>"
      "[CUnfreeze, CStandDown ''welfare'', CUnfreezeBoot, COverride ''n'' [''development'']]" "''t''"]
  by (simp add: ctl_stack_def)

text \<open>
  C6. A welfare freeze outlives every sequence of pushes, boots, operator resumes, recoveries
  that pop another source and overrides that do not name welfare: it stays on the stack and
  the cycle reads as frozen.
\<close>

theorem welfare_freeze_survives:
  assumes "welfare_hold w" and "list_all (\<lambda>x. \<not> may_lift_welfare x) ops"
  shows "welfare_hold (run (ctl_step ts) w ops) \<and>
    cc_frozen (fst (read_control ts (run (ctl_step ts) w ops)))"
  using welfare.run_inv [OF assms] welfare_hold_reads_frozen by blast

theorem welfare_freeze_survives_witness:
  "cc_frozen (fst (read_control ''t'' (run (ctl_step ''t'')
     (sample_world [sample_entry ''welfare'', sample_entry ''operator''])
     [CPush PNone ''supervisor'' ''n'', CPop (Some ''supervisor''), CStandDown ''operator'', CUnfreezeBoot])))"
proof -
  let ?w = "sample_world [sample_entry ''welfare'', sample_entry ''operator'']"
  have "welfare_hold ?w"
    by (simp add: welfare_hold_def ctl_stack_sample sample_entry_def)
      (simp add: entry_from_def freeze_entry_def)
  then show ?thesis
    using welfare_freeze_survives [of ?w "[CPush PNone ''supervisor'' ''n'', CPop (Some ''supervisor''),
        CStandDown ''operator'', CUnfreezeBoot]" "''t''"] by simp
qed

text \<open>
  C39. Round trip: writing the control record of a stack whose sources carry current names and
  parsing the file gives the same record back, extra keys of the entries included.
\<close>

theorem control_record_roundtrip:
  assumes "map clean_entry st = st"
  shows "parse_control (write_json_atomic f (PDict (to_dict (state_of st)))) = Inr (state_of st)"
  using assms by (simp add: write_json_atomic_def from_dict_to_dict)

theorem control_record_roundtrip_witness:
  "parse_control (write_json_atomic Unreadable (PDict (to_dict (state_of
     [sample_entry ''welfare'', [(''note'', PInt 1)]])))) =
   Inr (state_of [sample_entry ''welfare'', [(''note'', PInt 1)]])"
  by (rule control_record_roundtrip) (simp add: sample_entry_def clean_entry_def freeze_entry_def)

text \<open>
  Popping removes the newest entry of the named source (of any source when none is
  named) and nothing else, whatever that source is, a welfare entry included; a corrupt file
  is left corrupt.
\<close>

theorem pop_freeze_effect:
  "ctl_stack (snd (pop_freeze ts src w)) =
     map_option (\<lambda>st. case src of None \<Rightarrow> butlast st | Some s \<Rightarrow> remove_last (entry_from s) st)
       (ctl_stack w)"
proof (cases "ctl_stack w")
  case None
  have "ctl_stack (log_corrupt_once w) = ctl_stack w" by (rule ctl_stack_file_cong) simp
  with None show ?thesis by (simp add: pop_freeze_def ctl_simps)
qed (simp add: stack_results)

text \<open>
  An override succeeds exactly when it names at least one source, only overridable ones,
  and each has an active entry (for a corrupt file: when welfare is among them). It then lifts
  exactly the entries of the named sources and appends one audit record; otherwise neither
  the file nor the audit log changes.
\<close>

theorem override_contract:
  "let (r, w') = override_freeze now srcs w;
       granted = (srcs \<noteq> [] \<and> set srcs \<subseteq> set overridable_sources \<and>
         (case ctl_stack w of
            None \<Rightarrow> ''welfare'' \<in> set srcs
          | Some st \<Rightarrow> \<forall>s \<in> set srcs. \<exists>e \<in> set st. dget e ''source'' (PStr ''operator'') = PStr s))
   in ((\<exists>c. r = Inr c) \<longleftrightarrow> granted) \<and>
      (if granted
       then ctl_stack w' = Some (filter (\<lambda>e. \<forall>s \<in> set srcs. \<not> entry_from s e)
              (case ctl_stack w of None \<Rightarrow> [] | Some st \<Rightarrow> st)) \<and>
            (\<exists>rec. cw_audit w' = cw_audit w @ [rec])
       else w' = w)"
proof (cases "ctl_stack w")
  case None
  have "ctl_stack (w\<lparr>cw_file := Doc (PDict (to_dict CycleControl)), cw_audit := a\<rparr>) = Some []" for a
    using from_dict_to_dict [of "[]"] by (simp add: ctl_stack_def)
  with None show ?thesis by (simp add: override_spec)
next
  case (Some st)
  let ?keep = "filter (\<lambda>e. \<forall>s \<in> set srcs. \<not> entry_from s e) st"
  have "map clean_entry ?keep = ?keep"
    by (rule map_clean_subset [OF ctl_stack_clean [OF Some]]) auto
  then have "ctl_stack (w\<lparr>cw_file := Doc (PDict (to_dict (state_of ?keep))), cw_audit := a\<rparr>) = Some ?keep" for a
    by (simp add: ctl_stack_def from_dict_to_dict)
  with Some show ?thesis by (simp add: override_spec Let_def) blast
qed

theorem override_contract_witness:
  "fst (override_freeze ''n'' [''welfare''] (sample_world [sample_entry ''operator''])) = Inl LookupError \<and>
   (\<exists>c. fst (override_freeze ''n'' [''operator''] (sample_world [sample_entry ''operator''])) = Inr c) = False"
  using override_contract [of "''n''" "[''operator'']" "sample_world [sample_entry ''operator'']"]
  by (simp add: overridable_sources_def override_spec ctl_stack_sample sample_entry_def)
    (simp add: overridable_sources_def freeze_entry_def Let_def split: prod.splits)

text \<open>
  A clean boot keeps exactly the welfare entries of a readable stack and leaves a corrupt
  file untouched, reporting the welfare freeze.
\<close>

theorem boot_keeps_only_welfare:
  "case ctl_stack w of
     Some st \<Rightarrow> ctl_stack (snd (unfreeze_for_boot ts w)) = Some (filter (entry_from ''welfare'') st)
   | None \<Rightarrow> cw_file (snd (unfreeze_for_boot ts w)) = cw_file w \<and>
             fst (unfreeze_for_boot ts w) = fail_closed_state ts"
  by (cases rule: ctl_stack_cases [of w])
    (auto simp: stack_results unfreeze_for_boot_def ctl_stack_shrink)

text \<open>
  An entry stored without a source is shown to every reader as the operator's, and yet the
  operator's resume does not lift it, because the filter compares the missing key with the name.
\<close>

theorem operator_resume_keeps_unnamed_entry:
  assumes "ctl_stack w = Some st" and "e \<in> set st" and "map_of e ''source'' = None"
  shows "dget e ''source'' (PStr ''operator'') = PStr ''operator'' \<and>
    cc_frozen (fst (stand_down ts ''operator'' w))"
proof -
  from assms(2,3) have "e \<in> set (filter (\<lambda>e. \<not> entry_from ''operator'' e) st)"
    by (simp add: entry_from_def dget_def)
  then have "filter (\<lambda>e. \<not> entry_from ''operator'' e) st \<noteq> []" by (metis list.set(1) empty_iff)
  with assms show ?thesis by (simp add: stand_down_def ctl_simps dget_def)
qed

theorem operator_resume_keeps_unnamed_entry_witness:
  "cc_frozen (fst (stand_down ''t'' ''operator'' (sample_world [[(''reason'', PNone)]])))"
  using operator_resume_keeps_unnamed_entry
    [of "sample_world [[(''reason'', PNone)]]" "[[(''reason'', PNone)]]" "[(''reason'', PNone)]" "''t''"]
  by (simp add: ctl_stack_sample clean_entry_def)

end
