(* ===== verification/BusSchema.thy ===== *)
theory BusSchema
  imports PyVal "HOL-Library.List_Lexorder" "HOL-Library.Char_ord" "HOL-Library.Product_Lexorder"
begin

text \<open>
  Models \<open>kaine/bus/schema.py\<close>: the event record with the validation its constructor runs, the
  names of module streams, the candidate keys that join a stream and a bus entry id, and the
  arrival order of entry ids. A timestamp is a count of microseconds with the offset from UTC,
  \<open>None\<close> for a naive one; validation stores it in UTC.
\<close>

definition WORKSPACE_STREAM :: string where
  "WORKSPACE_STREAM = ''workspace.broadcast''"

definition WORKSPACE_SOURCE :: string where
  "WORKSPACE_SOURCE = ''workspace''"

record event =
  ev_source :: string
  ev_type :: string
  ev_payload :: pydict
  ev_salience :: real
  ev_timestamp :: int
  ev_parent :: "string option"

definition no_whitespace :: "string \<Rightarrow> bool" where
  "no_whitespace v \<longleftrightarrow> \<not> list_ex is_space v"

definition require_tz :: "int \<times> int option \<Rightarrow> int option" where
  "require_tz t = (case snd t of None \<Rightarrow> None | Some offset \<Rightarrow> Some (fst t - offset))"

definition validate_event ::
  "string \<Rightarrow> string \<Rightarrow> pydict \<Rightarrow> pyfloat \<Rightarrow> int \<times> int option \<Rightarrow> string option \<Rightarrow> py_exc + event" where
  "validate_event source typ payload salience timestamp parent =
     (case (salience, require_tz timestamp) of
        (Fin r, Some utc) \<Rightarrow>
          if 1 \<le> length source \<and> length source \<le> 64 \<and> 1 \<le> length typ \<and> length typ \<le> 128
             \<and> 0 \<le> r \<and> r \<le> 1 \<and> no_whitespace source \<and> no_whitespace typ
          then Inr \<lparr>ev_source = source, ev_type = typ, ev_payload = payload, ev_salience = r,
                    ev_timestamp = utc, ev_parent = parent\<rparr>
          else Inl ValueError
      | _ \<Rightarrow> Inl ValueError)"

definition module_stream :: "string \<Rightarrow> py_exc + string" where
  "module_stream name =
     (if name = [] \<or> list_ex is_space name then Inl ValueError
      else if name = WORKSPACE_SOURCE then Inr WORKSPACE_STREAM
      else Inr (name @ ''.out''))"

definition stream_entry_key :: "string \<Rightarrow> string \<Rightarrow> string" where
  "stream_entry_key stream entry_id = stream @ '':'' @ entry_id"

text \<open>\<open>key.rpartition(":")\<close>: \<open>None\<close> when the separator does not occur.\<close>

fun rpartition :: "char \<Rightarrow> string \<Rightarrow> (string \<times> string) option" where
  "rpartition c [] = None"
| "rpartition c (x # xs) =
     (case rpartition c xs of
        Some (a, b) \<Rightarrow> Some (x # a, b)
      | None \<Rightarrow> if x = c then Some ([], xs) else None)"

definition split_stream_entry_key :: "string \<Rightarrow> string option \<times> string" where
  "split_stream_entry_key key =
     (case rpartition (CHR '':'') key of
        Some (stream, entry_id) \<Rightarrow> (Some stream, entry_id)
      | None \<Rightarrow> (None, key))"

definition all_digits :: "string \<Rightarrow> bool" where
  "all_digits s \<longleftrightarrow> s \<noteq> [] \<and> list_all is_digit s"

fun partition_at :: "char \<Rightarrow> string \<Rightarrow> string \<times> bool \<times> string" where
  "partition_at c [] = ([], False, [])"
| "partition_at c (x # xs) =
     (if x = c then ([], True, xs) else let (a, f, b) = partition_at c xs in (x # a, f, b))"

definition entry_id_sort_key :: "string \<Rightarrow> int \<times> int \<times> int \<times> string" where
  "entry_id_sort_key entry_id =
     (let (ms, sep, seq) = partition_at (CHR ''-'') entry_id
      in if sep \<and> all_digits ms \<and> all_digits seq
         then (0, int (num_of (map digit_val ms)), int (num_of (map digit_val seq)), '''')
         else (1, 0, 0, entry_id))"

definition ensure_writable :: "string \<Rightarrow> string \<Rightarrow> py_exc + unit" where
  "ensure_writable stream source =
     (if stream = WORKSPACE_STREAM \<and> source \<noteq> WORKSPACE_SOURCE then Inl ValueError else Inr ())"

section \<open>Candidate keys\<close>

lemma rpartition_absent: "c \<notin> set s \<Longrightarrow> rpartition c s = None"
  by (induction s) auto

lemma rpartition_append: "c \<notin> set b \<Longrightarrow> rpartition c (a @ c # b) = Some (a, b)"
  by (induction a) (simp_all add: rpartition_absent)

lemma split_key [simp]:
  "CHR '':'' \<notin> set i \<Longrightarrow> split_stream_entry_key (stream_entry_key s i) = (Some s, i)"
  by (simp add: split_stream_entry_key_def stream_entry_key_def rpartition_append)

lemma stream_entry_key_inj:
  assumes "stream_entry_key s i = stream_entry_key s' i'" and "CHR '':'' \<notin> set i" and "CHR '':'' \<notin> set i'"
  shows "s = s' \<and> i = i'"
proof -
  have "(Some s, i) = split_stream_entry_key (stream_entry_key s' i')"
    using split_key [OF assms(2), of s] by (simp only: assms(1) [symmetric])
  also have "\<dots> = (Some s', i')" by (rule split_key) (rule assms(3))
  finally show ?thesis by simp
qed

section \<open>Arrival order\<close>

lemma partition_at_append: "c \<notin> set a \<Longrightarrow> partition_at c (a @ c # b) = (a, True, b)"
  by (induction a) auto

lemma dash_is_no_digit: "\<not> is_digit (CHR ''-'')"
  by code_simp

lemma dash_no_digit: "all_digits s \<Longrightarrow> CHR ''-'' \<notin> set s"
  using dash_is_no_digit by (auto simp: all_digits_def list_all_iff)

lemma sort_key_of_id:
  assumes "all_digits ms" and "all_digits seq"
  shows "entry_id_sort_key (ms @ ''-'' @ seq) =
    (0, int (num_of (map digit_val ms)), int (num_of (map digit_val seq)), '''')"
  using assms partition_at_append [OF dash_no_digit [OF assms(1)], of seq]
  by (simp add: entry_id_sort_key_def)

lemma stream_of_module:
  "module_stream n = Inr s \<Longrightarrow> n \<noteq> WORKSPACE_SOURCE \<Longrightarrow> s = n @ ''.out'' \<and> n \<noteq> []"
  by (auto simp: module_stream_def split: if_splits)

section \<open>Decimal numbers\<close>

lemma num_of_snoc: "num_of (ds @ [d]) = 10 * num_of ds + d"
  by (simp add: num_of_def)

lemma digit_char: "d < 10 \<Longrightarrow> is_digit (char_of (48 + d)) \<and> digit_val (char_of (48 + d)) = d"
  by (simp add: is_digit_def digit_val_def Let_def)

lemma show_nat_digits: "all_digits (show_nat n) \<and> num_of (map digit_val (show_nat n)) = n"
proof (induction n rule: show_nat.induct)
  case (1 n)
  show ?case
  proof (cases "n < 10")
    case True
    then show ?thesis using digit_char [of n]
      by (subst (1 2) show_nat.simps) (simp add: all_digits_def num_of_def)
  next
    case False
    with 1 digit_char [of "n mod 10"] show ?thesis
      by (subst (1 2) show_nat.simps) (simp add: all_digits_def num_of_snoc)
  qed
qed

definition entry_id :: "nat \<Rightarrow> nat \<Rightarrow> string" where
  "entry_id ms seq = show_nat ms @ ''-'' @ show_nat seq"

lemma entry_id_sort_key_entry [simp]:
  "entry_id_sort_key (entry_id ms seq) = (0, int ms, int seq, '''')"
  using sort_key_of_id show_nat_digits by (simp add: entry_id_def)

lemma colon_no_digit: "all_digits s \<Longrightarrow> CHR '':'' \<notin> set s"
proof -
  have "\<not> is_digit (CHR '':'')" by code_simp
  then show "all_digits s \<Longrightarrow> CHR '':'' \<notin> set s" by (auto simp: all_digits_def list_all_iff)
qed

lemma entry_id_no_colon: "CHR '':'' \<notin> set (entry_id ms seq)"
  using colon_no_digit show_nat_digits by (simp add: entry_id_def)

section \<open>Properties\<close>

text \<open>
  A candidate key splits back into its stream, whatever colons the stream has, and its
  entry id, and ids sort by arrival, millisecond count first and sequence number second, as
  numbers and before every malformed id.
\<close>

theorem entry_keys_split_and_sort:
  "split_stream_entry_key (stream_entry_key stream (entry_id ms seq)) = (Some stream, entry_id ms seq) \<and>
   (entry_id_sort_key (entry_id ms seq) < entry_id_sort_key (entry_id ms' seq') \<longleftrightarrow>
      ms < ms' \<or> ms = ms' \<and> seq < seq') \<and>
   entry_id_sort_key (entry_id ms seq) < entry_id_sort_key (CHR ''x'' # t)"
proof -
  have "\<not> is_digit (CHR ''x'')" by code_simp
  then have "entry_id_sort_key (CHR ''x'' # t) = (1, 0, 0, CHR ''x'' # t)"
    by (auto simp: entry_id_sort_key_def all_digits_def case_prod_beta Let_def)
  then show ?thesis by (auto simp: split_key [OF entry_id_no_colon])
qed

end
