(* ===== verification/Registry.thy ===== *)
theory Registry
  imports BusSchema "HOL-Library.Multiset"
begin

text \<open>
  Models \<open>kaine/modules/registry.py\<close>: the in-process map from module name to module instance,
  in registration order, and the shutdown order. A module is the part of \<open>BaseModule\<close> the
  supervisor looks at: its name, its tasks, its stop flag, the age of its heartbeat and what
  its class declares.
\<close>

text \<open>
  A task is running, cancelled, finished with the \<open>repr\<close> of its exception if it raised, or
  done with an \<open>exception()\<close> that itself raises.
\<close>

datatype task = Running | Cancelled | Finished "string option" | Unreadable_Exception

record pymodule =
  md_name :: string
  md_tasks :: "task list"
  md_stopped :: bool
  md_heartbeat_age :: real
  md_external :: bool
  md_carries :: bool
  md_is_sleeping :: bool
  md_version :: nat

type_synonym registry = "(string \<times> pymodule) list"

definition reg_contains :: "registry \<Rightarrow> string \<Rightarrow> bool" where
  "reg_contains r name \<longleftrightarrow> map_of r name \<noteq> None"

definition reg_register :: "pymodule \<Rightarrow> registry \<Rightarrow> py_exc + registry" where
  "reg_register m r =
     (if reg_contains r (md_name m) then Inl ValueError else Inr (r @ [(md_name m, m)]))"

definition reg_unregister :: "string \<Rightarrow> registry \<Rightarrow> py_exc + pymodule \<times> registry" where
  "reg_unregister name r =
     (case map_of r name of
        None \<Rightarrow> Inl KeyError
      | Some m \<Rightarrow> Inr (m, filter (\<lambda>(k, _). k \<noteq> name) r))"

fun reg_put :: "string \<Rightarrow> pymodule \<Rightarrow> registry \<Rightarrow> registry" where
  "reg_put name m [] = [(name, m)]"
| "reg_put name m ((k, v) # r) = (if k = name then (k, m) # r else (k, v) # reg_put name m r)"

definition reg_replace :: "string \<Rightarrow> pymodule \<Rightarrow> registry \<Rightarrow> py_exc + registry" where
  "reg_replace name m r =
     (if \<not> reg_contains r name then Inl KeyError
      else if md_name m \<noteq> name then Inl ValueError
      else Inr (reg_put name m r))"

definition reg_get :: "registry \<Rightarrow> string \<Rightarrow> py_exc + pymodule" where
  "reg_get r name = (case map_of r name of None \<Rightarrow> Inl KeyError | Some m \<Rightarrow> Inr m)"

definition reg_all_modules :: "registry \<Rightarrow> pymodule list" where
  "reg_all_modules r = map snd r"

definition reg_active_streams :: "registry \<Rightarrow> py_exc + string list" where
  "reg_active_streams r = emap_list (\<lambda>(name, _). module_stream name) r"

definition shutdown_order :: "pymodule list \<Rightarrow> pymodule list" where
  "shutdown_order modules =
     filter (\<lambda>m. md_name m = ''sleep'') modules @ filter (\<lambda>m. md_name m \<noteq> ''sleep'') modules"

text \<open>Every slot holds a module of its name, and no name twice.\<close>

definition reg_wf :: "registry \<Rightarrow> bool" where
  "reg_wf r \<longleftrightarrow> distinct (map fst r) \<and> list_all (\<lambda>(k, m). md_name m = k) r"

lemma reg_put_keys: "reg_contains r name \<Longrightarrow> map fst (reg_put name m r) = map fst r"
  by (induction r) (auto simp: reg_contains_def)

lemma map_of_reg_put [simp]: "map_of (reg_put name m r) = (map_of r)(name \<mapsto> m)"
  by (induction r) auto

lemma reg_put_wf: "reg_wf r \<Longrightarrow> reg_contains r name \<Longrightarrow> md_name m = name \<Longrightarrow> reg_wf (reg_put name m r)"
proof -
  assume wf: "reg_wf r" and c: "reg_contains r name" and n: "md_name m = name"
  have "list_all (\<lambda>(k, m). md_name m = k) (reg_put name m r)"
    using wf n unfolding reg_wf_def by (induction r) auto
  with wf reg_put_keys [OF c] show ?thesis by (simp add: reg_wf_def)
qed

lemma reg_register_wf: "reg_wf r \<Longrightarrow> reg_register m r = Inr r' \<Longrightarrow> reg_wf r'"
  by (auto simp: reg_register_def reg_wf_def reg_contains_def map_of_eq_None_iff split: if_splits)

lemma reg_unregister_wf: "reg_wf r \<Longrightarrow> reg_unregister n r = Inr (m, r') \<Longrightarrow> reg_wf r'"
  by (auto simp: reg_unregister_def reg_wf_def list_all_iff distinct_map_filter split: option.splits)

lemma reg_replace_wf: "reg_wf r \<Longrightarrow> reg_replace n m r = Inr r' \<Longrightarrow> reg_wf r'"
  by (auto simp: reg_replace_def reg_put_wf split: if_splits)

lemma reg_wf_name: "reg_wf r \<Longrightarrow> map_of r n = Some m \<Longrightarrow> md_name m = n"
  by (auto simp: reg_wf_def list_all_iff dest!: map_of_SomeD)

lemma reg_wf_lookup: "reg_wf r \<Longrightarrow> m \<in> set (reg_all_modules r) \<Longrightarrow> map_of r (md_name m) = Some m"
  by (auto simp: reg_wf_def reg_all_modules_def list_all_iff)

datatype reg_op = Register pymodule | Unregister string | Replace string pymodule

fun reg_step :: "registry \<Rightarrow> reg_op \<Rightarrow> registry" where
  "reg_step r (Register m) = (case reg_register m r of Inl _ \<Rightarrow> r | Inr r' \<Rightarrow> r')"
| "reg_step r (Unregister n) = (case reg_unregister n r of Inl _ \<Rightarrow> r | Inr (_, r') \<Rightarrow> r')"
| "reg_step r (Replace n m) = (case reg_replace n m r of Inl _ \<Rightarrow> r | Inr r' \<Rightarrow> r')"

interpretation registry: machine reg_step "\<lambda>_. True" reg_wf
proof
  fix r x assume "reg_wf r"
  then show "reg_wf (reg_step r x)"
    by (cases x)
      (auto split: sum.split intro: reg_register_wf reg_unregister_wf reg_replace_wf)
qed

lemma mset_shutdown_order: "mset (shutdown_order ms) = mset ms"
  by (induction ms) (auto simp: shutdown_order_def)

lemma module_stream_inj:
  "module_stream a = Inr s \<Longrightarrow> module_stream b = Inr s \<Longrightarrow> a = b"
proof -
  have ws: "n @ ''.out'' \<noteq> WORKSPACE_STREAM" for n
  proof
    assume "n @ ''.out'' = WORKSPACE_STREAM"
    then have "rev (n @ ''.out'') = rev WORKSPACE_STREAM" by simp
    then show False by (simp add: WORKSPACE_STREAM_def)
  qed
  then show "module_stream a = Inr s \<Longrightarrow> module_stream b = Inr s \<Longrightarrow> a = b"
    by (auto simp: module_stream_def ws ws [symmetric] split: if_splits)
qed

lemma reg_active_streams_distinct:
  "distinct (map fst r) \<Longrightarrow> reg_active_streams r = Inr ss \<Longrightarrow> distinct ss"
proof (induction r arbitrary: ss)
  case (Cons p r)
  obtain n m where p: "p = (n, m)" by (cases p)
  from Cons.prems(2) p obtain s ss' where s: "module_stream n = Inr s" "ss = s # ss'"
    and ss': "reg_active_streams r = Inr ss'"
    by (auto simp: reg_active_streams_def)
  have "s \<notin> set ss'"
  proof
    assume "s \<in> set ss'"
    then obtain q where "q \<in> set r" "module_stream (fst q) = Inr s"
      using ss' emap_list_Inr [of "\<lambda>(name, _). module_stream name" r ss']
      by (auto simp: reg_active_streams_def case_prod_beta)
    with s(1) Cons.prems(1) p show False using module_stream_inj by (metis distinct.simps(2) fst_conv image_eqI list.set_map list.simps(9))
  qed
  with Cons ss' s show ?case by simp
qed (simp add: reg_active_streams_def)

section \<open>Properties\<close>

text \<open>
  After any sequence of registrations, removals and replacements the registry holds every
  module under its own name, no name twice, and no two modules share an output stream.
\<close>

theorem registry_names_and_streams_unique:
  "reg_wf (run reg_step [] ops) \<and>
   (case reg_active_streams (run reg_step [] ops) of Inl _ \<Rightarrow> True | Inr ss \<Rightarrow> distinct ss)"
proof -
  have "reg_wf (run reg_step [] ops)"
    by (rule registry.run_inv) (simp_all add: reg_wf_def list_all_iff)
  then show ?thesis
    by (auto simp: reg_wf_def intro: reg_active_streams_distinct split: sum.split)
qed

end
