(* ===== verification/Incidents.thy ===== *)
theory Incidents
  imports StateIO
begin

text \<open>
  Models the two durable records the supervisor writes: \<open>kaine/cycle/escalation_state.py\<close> (the
  escalation file) and \<open>kaine/cycle/incident_log.py\<close> (the incident log, with the scrubbing of
  filesystem paths from free text). The three regular expressions of the scrubber are written
  out as scanners over the text.
\<close>

section \<open>The escalation file\<close>

record escalation_record =
  es_escalated :: bool
  es_module :: pyval
  es_attempts :: int
  es_snapshot_id :: pyval
  es_escalated_at :: pyval
  es_message :: string

definition EscalationRecord :: escalation_record where
  "EscalationRecord = \<lparr>es_escalated = False, es_module = PNone, es_attempts = 0,
     es_snapshot_id = PNone, es_escalated_at = PNone, es_message = ''''\<rparr>"

definition escalation_to_dict :: "escalation_record \<Rightarrow> pydict" where
  "escalation_to_dict r =
     [(''escalated'', PBool (es_escalated r)), (''module'', es_module r),
      (''attempts'', PInt (es_attempts r)), (''snapshot_id'', es_snapshot_id r),
      (''escalated_at'', es_escalated_at r), (''message'', PStr (es_message r))]"

text \<open>\<open>py_str\<close> is the interpreter's \<open>str()\<close>.\<close>

definition escalation_from_dict ::
  "(pyval \<Rightarrow> string) \<Rightarrow> pyval \<Rightarrow> py_exc + escalation_record" where
  "escalation_from_dict py_str data =
     ebind (if truthy data then dict_of data else Inr []) (\<lambda>d.
     ebind (py_int (dget d ''attempts'' (PInt 0))) (\<lambda>attempts.
       Inr \<lparr>es_escalated = truthy (dget d ''escalated'' (PBool False)),
            es_module = dget d ''module'' PNone,
            es_attempts = attempts,
            es_snapshot_id = dget d ''snapshot_id'' PNone,
            es_escalated_at = dget d ''escalated_at'' PNone,
            es_message = py_str (dget d ''message'' (PStr ''''))\<rparr>))"

definition read_escalation :: "(pyval \<Rightarrow> string) \<Rightarrow> jfile \<Rightarrow> py_exc + escalation_record" where
  "read_escalation py_str target =
     (case target of
        Absent \<Rightarrow> Inr EscalationRecord
      | Unreadable \<Rightarrow> Inr EscalationRecord
      | Doc data \<Rightarrow> escalation_from_dict py_str data)"

definition write_escalation :: "escalation_record \<Rightarrow> jfile \<Rightarrow> jfile" where
  "write_escalation rec target = write_json_atomic target (PDict (escalation_to_dict rec))"

definition clear_escalation :: "jfile \<Rightarrow> escalation_record \<times> jfile" where
  "clear_escalation target = (EscalationRecord, write_escalation EscalationRecord target)"

lemma escalation_reads_back:
  "(\<And>s. py_str (PStr s) = s) \<Longrightarrow> read_escalation py_str (write_escalation r f) = Inr r"
  by (simp add: read_escalation_def write_escalation_def write_json_atomic_def
      escalation_from_dict_def escalation_to_dict_def)

section \<open>Scrubbing paths\<close>

text \<open>The character class of the patterns: no white space, no quote.\<close>

definition path_char :: "char \<Rightarrow> bool" where
  "path_char c \<longleftrightarrow> \<not> is_space c \<and> c \<noteq> CHR 0x27 \<and> c \<noteq> CHR 0x22"

definition path_sentinel :: string where
  "path_sentinel = ''<PATH>''"

definition drop_tree :: "string \<Rightarrow> string" where
  "drop_tree s = (if s \<noteq> [] \<and> hd s = CHR ''/'' then dropWhile path_char (tl s) else s)"

definition after_root :: "string \<Rightarrow> string option" where
  "after_root s =
     (if take 5 s = ''/home'' \<or> take 5 s = ''/root'' then Some (drop 5 s)
      else if take 6 s = ''/Users'' then Some (drop 6 s) else None)"

lemma length_drop_tree: "length (drop_tree s) \<le> length s"
  using length_dropWhile_le [of path_char "tl s"] by (cases s) (auto simp: drop_tree_def)

lemma after_root_shorter: "after_root s = Some r \<Longrightarrow> length r < length s"
  by (cases s) (auto simp: after_root_def split: if_splits)

function sub_roots :: "string \<Rightarrow> string" where
  "sub_roots s =
     (case after_root s of
        Some rest \<Rightarrow> path_sentinel @ sub_roots (drop_tree rest)
      | None \<Rightarrow> (case s of [] \<Rightarrow> [] | c # cs \<Rightarrow> c # sub_roots cs))"
  by pat_completeness auto
termination
  by (relation "measure length")
    (auto dest: after_root_shorter intro: le_less_trans [OF length_drop_tree])

definition ascii_letter :: "char \<Rightarrow> bool" where
  "ascii_letter c \<longleftrightarrow> (let n = of_char c :: nat in (65 \<le> n \<and> n \<le> 90) \<or> (97 \<le> n \<and> n \<le> 122))"

function sub_drives :: "string \<Rightarrow> string" where
  "sub_drives (a # b # c # s) =
     (if ascii_letter a \<and> b = CHR '':'' \<and> c = CHR 0x5C
      then path_sentinel @ sub_drives (dropWhile path_char s)
      else a # sub_drives (b # c # s))"
| "sub_drives [a, b] = [a, b]"
| "sub_drives [a] = [a]"
| "sub_drives [] = []"
  by pat_completeness auto
termination
  by (relation "measure length") (auto intro: le_less_trans [OF length_dropWhile_le])

function sub_absolute :: "string \<Rightarrow> string" where
  "sub_absolute [] = []"
| "sub_absolute (c # cs) =
     (if c = CHR ''/'' \<and> 2 \<le> length (takeWhile path_char cs)
      then path_sentinel @ sub_absolute (dropWhile path_char cs)
      else c # sub_absolute cs)"
  by pat_completeness auto
termination
  by (relation "measure length") (auto intro: le_less_trans [OF length_dropWhile_le])

definition scrub_paths :: "string option \<Rightarrow> string option" where
  "scrub_paths s = map_option (\<lambda>t. sub_absolute (sub_drives (sub_roots t))) s"

text \<open>An absolute path token: a slash with at least two characters of the class after it.\<close>

fun has_path :: "string \<Rightarrow> bool" where
  "has_path [] = False"
| "has_path (c # cs) = ((c = CHR ''/'' \<and> 2 \<le> length (takeWhile path_char cs)) \<or> has_path cs)"

lemma slash_is_path_char: "path_char (CHR ''/'')"
  by code_simp

lemma has_path_sentinel [simp]: "has_path (path_sentinel @ s) = has_path s"
  by (simp add: path_sentinel_def)

lemma takeWhile_sub_absolute:
  assumes "length (takeWhile path_char cs) < 2"
  shows "length (takeWhile path_char (sub_absolute cs)) < 2"
proof (cases cs)
  case (Cons x xs)
  show ?thesis
  proof (cases "path_char x")
    case False
    then have "x \<noteq> CHR ''/''" using slash_is_path_char by auto
    with False Cons show ?thesis by simp
  next
    case True
    with assms Cons have "takeWhile path_char xs = []" by (cases "takeWhile path_char xs") auto
    then have "takeWhile path_char (sub_absolute xs) = []"
      using slash_is_path_char by (cases xs) (auto split: if_splits)
    with Cons True \<open>takeWhile path_char xs = []\<close> show ?thesis by simp
  qed
qed simp

lemma sub_absolute_no_path: "\<not> has_path (sub_absolute s)"
proof (induction s rule: sub_absolute.induct)
  case (2 c cs)
  then show ?case
    using takeWhile_sub_absolute [of cs] by (auto simp: not_le)
qed simp

section \<open>Properties\<close>

text \<open>
  Scrubbed text contains no absolute path: no slash is followed by two characters that are
  neither white space nor quotes, whatever the text was.
\<close>

theorem scrubbed_text_has_no_path:
  "case scrub_paths s of None \<Rightarrow> s = None | Some t \<Rightarrow> \<not> has_path t"
  by (cases s) (simp_all add: scrub_paths_def sub_absolute_no_path)

end
