(* ===== verification/Supervisor.thy ===== *)
theory Supervisor
  imports ControlState Registry Incidents
begin

text \<open>
  Models \<open>kaine/cycle/supervisor.py\<close>: the liveness assessment, one poll with its recovery (at
  most one incident per poll), the restart ladder, escalation and the supervision loop, over
  the control file of \<open>ControlState\<close>, the registry of \<open>Registry\<close> and the records of
  \<open>Incidents\<close>.

  What a poll reaches outside the supervisor is the argument \<open>sup_env\<close>: the fork manager's
  snapshot and restore, the modules' own shutdown, restart, initialize, serialize and
  deserialize, the rebuild closure, the rewiring, the tick provider, clocks and uuids. A call
  that may raise returns a flag with the state it leaves. Every module a poll looks at before
  the first fault is assessed without an intervening await, so a poll is one step.
\<close>

section \<open>Configuration\<close>

record incident_log_config =
  ilc_enabled :: bool
  ilc_path :: string

definition require_known_keys :: "pydict \<Rightarrow> string list \<Rightarrow> py_exc + unit" where
  "require_known_keys sec allowed =
     (if list_all (\<lambda>(k, _). k \<in> set allowed) sec then Inr () else Inl ValueError)"

definition incident_log_from_section ::
  "(pyval \<Rightarrow> string) \<Rightarrow> pydict \<Rightarrow> py_exc + incident_log_config" where
  "incident_log_from_section py_str sec =
     ebind (require_known_keys sec [''enabled'', ''path'']) (\<lambda>_.
       Inr \<lparr>ilc_enabled = truthy (dget sec ''enabled'' (PBool True)),
            ilc_path = py_str (dget sec ''path'' (PStr ''state/cycle/incidents''))\<rparr>)"

record supervisor_config =
  sc_enabled :: bool
  sc_poll_interval_s :: pyfloat
  sc_heartbeat_timeout_s :: pyfloat
  sc_max_restart_attempts :: int
  sc_restart_backoff_s :: pyfloat
  sc_per_module_timeout_s :: "(string \<times> pyfloat) list"
  sc_incident_log :: incident_log_config
  sc_selftest_timeout_s :: pyfloat

text \<open>A table argument of the TOML section: \<open>x or {}\<close>, whose items are then read.\<close>

fun table_or_empty :: "pyval \<Rightarrow> py_exc + pydict" where
  "table_or_empty (PDict d) = Inr d"
| "table_or_empty v = (if truthy v then Inl OtherException else Inr [])"

definition supervisor_from_section ::
  "(pyval \<Rightarrow> string) \<Rightarrow> pydict \<Rightarrow> py_exc + supervisor_config" where
  "supervisor_from_section py_str sec =
     ebind (require_known_keys sec
              [''enabled'', ''poll_interval_s'', ''heartbeat_timeout_s'', ''max_restart_attempts'',
               ''restart_backoff_s'', ''per_module_timeout_s'', ''incident_log'', ''selftest_timeout_s'']) (\<lambda>_.
     ebind (table_or_empty (dget sec ''per_module_timeout_s'' PNone)) (\<lambda>table.
     ebind (emap_list (\<lambda>(k, v). ebind (py_float v) (\<lambda>x. Inr (k, x))) table) (\<lambda>per_module.
     ebind (py_float (dget sec ''poll_interval_s'' (PFloat (Fin 2)))) (\<lambda>poll.
     ebind (py_float (dget sec ''heartbeat_timeout_s'' (PFloat (Fin 60)))) (\<lambda>heartbeat.
     ebind (py_int (dget sec ''max_restart_attempts'' (PInt 5))) (\<lambda>attempts.
     ebind (py_float (dget sec ''restart_backoff_s'' (PFloat (Fin 3)))) (\<lambda>backoff.
     ebind (table_or_empty (dget sec ''incident_log'' PNone)) (\<lambda>logtable.
     ebind (incident_log_from_section py_str logtable) (\<lambda>ilog.
     ebind (py_float (dget sec ''selftest_timeout_s'' (PFloat (Fin 10)))) (\<lambda>selftest.
       Inr \<lparr>sc_enabled = truthy (dget sec ''enabled'' (PBool False)),
            sc_poll_interval_s = poll,
            sc_heartbeat_timeout_s = heartbeat,
            sc_max_restart_attempts = attempts,
            sc_restart_backoff_s = backoff,
            sc_per_module_timeout_s = per_module,
            sc_incident_log = ilog,
            sc_selftest_timeout_s = selftest\<rparr>))))))))))"

section \<open>State\<close>

datatype liveness = Alive | Dead | Hung

fun liveness_name :: "liveness \<Rightarrow> string" where
  "liveness_name Alive = ''alive''"
| "liveness_name Dead = ''dead''"
| "liveness_name Hung = ''hung''"

record incident =
  in_attempts :: nat
  in_last_good :: "string option"
  in_id :: "string option"

definition Incident :: incident where
  "Incident = \<lparr>in_attempts = 0, in_last_good = None, in_id = None\<rparr>"

record supervisor =
  sv_config :: supervisor_config
  sv_registry :: registry
  sv_incidents :: "string \<rightharpoonup> incident"
  sv_escalated :: bool
  sv_poll_index :: nat
  sv_ctl :: ctl_world
  sv_escalation :: jfile
  sv_log :: "pydict list"
  sv_bus :: "(string \<times> pydict) list"
  sv_shutdowns :: "string list"
  sv_halts :: nat
  sv_escalate_on_crash :: bool

record snap =
  sn_id :: string
  sn_modules :: "(string \<times> bool) list"
  sn_byte_size :: nat

record sup_env =
  en_now :: string
  en_uuid :: string
  en_ts :: string
  en_ms :: real
  en_encrypted :: bool
  en_tick :: "int option"
  en_snapshot :: "string \<Rightarrow> snap option"
  en_shutdown :: "pymodule \<Rightarrow> bool \<times> pymodule"
  en_restart :: "pymodule \<Rightarrow> bool \<times> pymodule"
  en_serialize :: "pymodule \<Rightarrow> pyval option"
  en_rebuild :: "string \<Rightarrow> pymodule option"
  en_initialize :: "pymodule \<Rightarrow> bool \<times> pymodule"
  en_deserialize :: "pyval \<Rightarrow> pymodule \<Rightarrow> pymodule"
  en_rewire :: "registry \<Rightarrow> string \<Rightarrow> bool \<times> registry"
  en_restore :: "string \<Rightarrow> registry \<Rightarrow> bool \<times> registry"

section \<open>Liveness\<close>

definition sup_sleeping :: "registry \<Rightarrow> bool" where
  "sup_sleeping r = (case map_of r ''sleep'' of None \<Rightarrow> False | Some m \<Rightarrow> md_is_sleeping m)"

definition timeout_for :: "supervisor_config \<Rightarrow> pymodule \<Rightarrow> pyfloat" where
  "timeout_for cfg m =
     (case map_of (sc_per_module_timeout_s cfg) (md_name m) of
        None \<Rightarrow> sc_heartbeat_timeout_s cfg | Some t \<Rightarrow> t)"

text \<open>The first task that finished with an exception, or at all while the module is not stopping.\<close>

fun dead_task :: "bool \<Rightarrow> task list \<Rightarrow> string option option" where
  "dead_task is_stopping [] = None"
| "dead_task is_stopping (Finished exc # ts) =
     (if exc \<noteq> None \<or> \<not> is_stopping then Some exc else dead_task is_stopping ts)"
| "dead_task is_stopping (_ # ts) = dead_task is_stopping ts"

definition assess :: "supervisor_config \<Rightarrow> registry \<Rightarrow> pymodule \<Rightarrow> liveness \<times> string option" where
  "assess cfg r m =
     (case dead_task (md_stopped m) (md_tasks m) of
        Some exc \<Rightarrow> (Dead, exc)
      | None \<Rightarrow>
          if \<not> sup_sleeping r \<and> fl_less (timeout_for cfg m) (Fin (md_heartbeat_age m)) \<and>
             list_ex (\<lambda>t. t = Running) (md_tasks m)
          then (Hung, None) else (Alive, None))"

section \<open>Records and events\<close>

definition sup_publish :: "string \<Rightarrow> pydict \<Rightarrow> supervisor \<Rightarrow> supervisor" where
  "sup_publish typ payload s = s\<lparr>sv_bus := sv_bus s @ [(typ, payload)]\<rparr>"

definition incident_event_fields :: "string list" where
  "incident_event_fields =
     [''incident_id'', ''transition'', ''module'', ''fault_class'', ''fault_type'', ''reason'',
      ''source'', ''exception_repr'', ''snapshot_id'', ''byte_size'', ''duration_ms'', ''attempt'',
      ''attempts'', ''max_attempts'', ''path'', ''outcome'', ''latency_ms'', ''last_good_restored'',
      ''post_assess'', ''final_snapshot_id'']"

definition incident_scrub_fields :: "string list" where
  "incident_scrub_fields = [''reason'', ''exception_repr'']"

fun scrub_value :: "pyval \<Rightarrow> pyval" where
  "scrub_value (PStr t) = (case scrub_paths (Some t) of None \<Rightarrow> PNone | Some u \<Rightarrow> PStr u)"
| "scrub_value v = v"

definition incident_payload :: "sup_env \<Rightarrow> nat \<Rightarrow> pydict \<Rightarrow> pydict" where
  "incident_payload env poll record =
     List.map_filter (\<lambda>key. map_option
         (\<lambda>v. (key, if key \<in> set incident_scrub_fields then scrub_value v else v)) (map_of record key))
       incident_event_fields
     @ [(''poll_index'', PInt (int poll))]
     @ (case en_tick env of None \<Rightarrow> [] | Some tick \<Rightarrow> [(''tick_index'', PInt tick)])"

definition publish_incident :: "sup_env \<Rightarrow> pydict \<Rightarrow> supervisor \<Rightarrow> supervisor" where
  "publish_incident env record s =
     sup_publish ''supervisor.incident'' (incident_payload env (sv_poll_index s) record) s"

definition write_incident_record :: "sup_env \<Rightarrow> pydict \<Rightarrow> supervisor \<Rightarrow> supervisor" where
  "write_incident_record env record s =
     (let s1 = publish_incident env record s
      in if ilc_enabled (sc_incident_log (sv_config s1))
         then s1\<lparr>sv_log := sv_log s1 @ [record]\<rparr> else s1)"

definition opt_str :: "string option \<Rightarrow> pyval" where
  "opt_str x = (case x of None \<Rightarrow> PNone | Some t \<Rightarrow> PStr t)"

definition show_opt :: "string option \<Rightarrow> string" where
  "show_opt x = (case x of None \<Rightarrow> ''None'' | Some t \<Rightarrow> t)"

definition sup_snapshot ::
  "sup_env \<Rightarrow> string \<Rightarrow> string \<Rightarrow> string option \<Rightarrow> supervisor \<Rightarrow> string option \<times> supervisor" where
  "sup_snapshot env label name incident_id s =
     (let snap = en_snapshot env label;
          snapshot_id = map_option sn_id snap;
          modules = (case snap of None \<Rightarrow> [] | Some x \<Rightarrow> sn_modules x);
          record =
            [(''incident_id'', opt_str incident_id), (''module'', PStr name),
             (''transition'', PStr ''snapshot''), (''snapshot_id'', opt_str snapshot_id),
             (''byte_size'', PInt (case snap of None \<Rightarrow> 0 | Some x \<Rightarrow> int (sn_byte_size x))),
             (''modules_serialized_ok'', PInt (int (length (filter (\<lambda>(_, err). \<not> err) modules)))),
             (''modules_serialize_errored'',
              PList (map (\<lambda>(n, _). PStr n) (filter (\<lambda>(_, err). err) modules))),
             (''encrypted'', PBool (en_encrypted env)),
             (''duration_ms'', PFloat (Fin (en_ms env))), (''label'', PStr label)]
      in (snapshot_id, write_incident_record env record s))"

fun task_failed :: "task \<Rightarrow> bool" where
  "task_failed (Finished (Some _)) = True"
| "task_failed _ = False"

definition health_metrics :: "pymodule \<Rightarrow> pydict" where
  "health_metrics m =
     [(''heartbeat_age_s'', PFloat (Fin (md_heartbeat_age m))),
      (''tasks_failed'', PInt (int (length (filter task_failed (md_tasks m))))),
      (''tasks_total'', PInt (int (length (md_tasks m))))]"

section \<open>Restart ladder\<close>

record restart_result =
  rr_ok :: bool
  rr_heavy :: bool
  rr_last_good_restored :: bool

text \<open>
  Modules are mutable objects: a step that fails half-way still leaves what it changed in the
  registry. The oscillator handed over to the rebuilt module is not part of the module state
  modelled here.
\<close>

definition heavy_restore ::
  "sup_env \<Rightarrow> string \<Rightarrow> supervisor \<Rightarrow> restart_result \<times> supervisor" where
  "heavy_restore env name s =
     (let last_good = (case sv_incidents s name of None \<Rightarrow> None | Some i \<Rightarrow> in_last_good i)
      in case last_good of
           None \<Rightarrow> (\<lparr>rr_ok = True, rr_heavy = True, rr_last_good_restored = False\<rparr>, s)
         | Some sid \<Rightarrow>
             if sid = [] then (\<lparr>rr_ok = True, rr_heavy = True, rr_last_good_restored = False\<rparr>, s)
             else (let (ok, r) = en_restore env sid (sv_registry s)
                   in (\<lparr>rr_ok = ok, rr_heavy = True, rr_last_good_restored = ok\<rparr>,
                       s\<lparr>sv_registry := r\<rparr>)))"

definition heavy_failed :: restart_result where
  "heavy_failed = \<lparr>rr_ok = False, rr_heavy = True, rr_last_good_restored = False\<rparr>"

definition heavy_restart ::
  "sup_env \<Rightarrow> string \<Rightarrow> pymodule \<Rightarrow> supervisor \<Rightarrow> restart_result \<times> supervisor" where
  "heavy_restart env name m s =
     (let (down, old) = en_shutdown env m;
          s1 = s\<lparr>sv_registry := reg_put name old (sv_registry s)\<rparr>
      in if \<not> down then (heavy_failed, s1)
         else let carried = (if md_carries old then en_serialize env old else None)
         in case en_rebuild env name of
              None \<Rightarrow> (heavy_failed, s1)
            | Some fresh \<Rightarrow>
                (let (up, started) = en_initialize env fresh
                 in if \<not> up then (heavy_failed, s1)
                    else let new = (case carried of None \<Rightarrow> started | Some c \<Rightarrow> en_deserialize env c started)
                    in case reg_replace name new (sv_registry s1) of
                         Inl _ \<Rightarrow> (heavy_failed, s1)
                       | Inr r \<Rightarrow>
                           (let (wired, r') = en_rewire env r name;
                                s2 = s1\<lparr>sv_registry := r'\<rparr>
                            in if \<not> wired then (heavy_failed, s2) else heavy_restore env name s2)))"

definition restart_module ::
  "sup_env \<Rightarrow> string \<Rightarrow> pymodule \<Rightarrow> supervisor \<Rightarrow> restart_result \<times> supervisor" where
  "restart_module env name m s =
     (if \<not> md_external m
      then (let (ok, m') = en_restart env m
            in (\<lparr>rr_ok = ok, rr_heavy = False, rr_last_good_restored = False\<rparr>,
                s\<lparr>sv_registry := reg_put name m' (sv_registry s)\<rparr>))
      else heavy_restart env name m s)"

section \<open>Escalation\<close>

definition escalate ::
  "sup_env \<Rightarrow> string \<Rightarrow> nat \<Rightarrow> string option \<Rightarrow> string option \<Rightarrow> string option \<Rightarrow> supervisor \<Rightarrow> supervisor" where
  "escalate env name attempts snapshot_id incident_id message s =
     (let msg = (case message of Some t \<Rightarrow> t
           | None \<Rightarrow> ''Module '' @ squoted name @ '' failed to recover after '' @ show_nat attempts @
               '' attempts. Entity state saved (snapshot '' @ show_opt snapshot_id @
               ''). Reboot the machine, then restart the cycle. Do NOT auto-retry.'');
          s1 = s\<lparr>sv_escalation := write_escalation
                   \<lparr>es_escalated = True, es_module = PStr name, es_attempts = int attempts,
                     es_snapshot_id = opt_str snapshot_id, es_escalated_at = PStr (en_now env),
                     es_message = msg\<rparr> (sv_escalation s)\<rparr>;
          s2 = write_incident_record env
                 [(''incident_id'', opt_str incident_id), (''module'', PStr name),
                  (''transition'', PStr ''escalate''), (''attempts'', PInt (int attempts)),
                  (''final_snapshot_id'', opt_str snapshot_id), (''outcome'', PStr ''halted'')] s1;
          s3 = sup_publish ''supervisor.status''
                 [(''state'', PStr ''critical''), (''module'', PStr name),
                  (''attempts'', PInt (int attempts)), (''snapshot_id'', opt_str snapshot_id),
                  (''message'', PStr msg)] s2
      in s3\<lparr>sv_halts := Suc (sv_halts s3)\<rparr>)"

definition shutdown_all :: "sup_env \<Rightarrow> supervisor \<Rightarrow> supervisor" where
  "shutdown_all env s =
     s\<lparr>sv_registry := map (\<lambda>(k, m). (k, snd (en_shutdown env m))) (sv_registry s),
       sv_shutdowns := sv_shutdowns s @ map md_name (shutdown_order (reg_all_modules (sv_registry s)))\<rparr>"

definition lost_message :: "string \<Rightarrow> string \<Rightarrow> string option \<Rightarrow> string \<Rightarrow> string" where
  "lost_message what reason snapshot_id tail =
     what @ '' ('' @ reason @ ''). Entity state saved (snapshot '' @ show_opt snapshot_id @ tail"

definition escalate_supervision_lost :: "sup_env \<Rightarrow> string \<Rightarrow> supervisor \<Rightarrow> supervisor" where
  "escalate_supervision_lost env reason s =
     (let (snapshot_id, s1) = sup_snapshot env ''supervisor-supervision-lost'' ''supervisor'' None s;
          s2 = shutdown_all env s1;
          s3 = escalate env ''supervisor'' 0 snapshot_id None
                 (Some (''Supervisor'' @ [CHR 0x27] @ lost_message ''s supervision stopped'' reason snapshot_id
                   ''). An unattended or research entity does not run without its supervisor. Restart the cycle once Supervisor is healthy.'')) s2
      in s3\<lparr>sv_escalated := True\<rparr>)"

definition escalate_welfare_monitor_lost :: "sup_env \<Rightarrow> string \<Rightarrow> supervisor \<Rightarrow> supervisor" where
  "escalate_welfare_monitor_lost env reason s =
     (let (snapshot_id, s1) = sup_snapshot env ''supervisor-welfare-monitor-lost'' ''welfare_monitor'' None s;
          s2 = shutdown_all env s1;
          s3 = escalate env ''welfare_monitor'' 0 snapshot_id None
                 (Some (lost_message ''The welfare monitor stopped watching'' reason snapshot_id
                   ''). A research or unattended entity does not run without its welfare net. Restart the cycle once the welfare monitor is healthy.'')) s2
      in s3\<lparr>sv_escalated := True\<rparr>)"

section \<open>One poll\<close>

datatype poll_outcome = PollContinue | PollStop | PollRaised

definition set_incident :: "string \<Rightarrow> incident \<Rightarrow> supervisor \<Rightarrow> supervisor" where
  "set_incident name i s = s\<lparr>sv_incidents := (sv_incidents s)(name \<mapsto> i)\<rparr>"

definition drop_incident :: "string \<Rightarrow> supervisor \<Rightarrow> supervisor" where
  "drop_incident name s = s\<lparr>sv_incidents := (sv_incidents s)(name := None)\<rparr>"

text \<open>The detection half of the loop body: records, the supervisor's own freeze, first snapshot.\<close>

definition open_incident ::
  "sup_env \<Rightarrow> pymodule \<Rightarrow> liveness \<Rightarrow> string option \<Rightarrow> supervisor \<Rightarrow> incident \<times> supervisor" where
  "open_incident env m st exc s =
     (let name = md_name m;
          i0 = (case sv_incidents s name of None \<Rightarrow> Incident | Some i \<Rightarrow> i);
          i1 = (if in_id i0 = None then i0\<lparr>in_id := Some (en_uuid env)\<rparr> else i0);
          s1 = write_incident_record env
                 ([(''incident_id'', opt_str (in_id i1)), (''module'', PStr name),
                   (''transition'', PStr ''detect''), (''fault_class'', PStr (liveness_name st)),
                   (''exception_repr'', opt_str (scrub_paths exc))] @ health_metrics m @
                  [(''poll_index'', PInt (int (sv_poll_index s)))]) s;
          freeze_reason = ''supervisor: '' @ name @ '' '' @ liveness_name st;
          s2 = s1\<lparr>sv_ctl := snd (freeze_cycle (en_ts env) (PStr freeze_reason) ''supervisor''
                                  (en_now env) (sv_ctl s1))\<rparr>;
          s3 = write_incident_record env
                 [(''incident_id'', opt_str (in_id i1)), (''module'', PStr name),
                  (''transition'', PStr ''freeze''), (''reason'', PStr freeze_reason),
                  (''source'', PStr ''supervisor''), (''fault_type'', PStr (liveness_name st))] s2;
          s4 = sup_publish ''supervisor.status''
                 [(''state'', PStr ''recovery''), (''module'', PStr name),
                  (''fault'', PStr (liveness_name st))] s3;
          s5 = sup_publish ''supervisor.log''
                 [(''module'', PStr name),
                  (''message'', PStr (''detected '' @ liveness_name st @ '' module '' @ squoted name @ ''; recovering''))] s4
      in if in_attempts i1 = 0
         then (let (sid, s6) = sup_snapshot env (''supervisor-pre-restart:'' @ name) name (in_id i1) s5
               in (i1\<lparr>in_last_good := sid\<rparr>, s6))
         else (i1, s5))"

definition lift_own_freeze :: "sup_env \<Rightarrow> supervisor \<Rightarrow> supervisor" where
  "lift_own_freeze env s =
     (let (control, ctl1) = read_control (en_ts env) (sv_ctl s)
      in if list_ex (entry_from ''supervisor'') (cc_stack control)
         then s\<lparr>sv_ctl := snd (pop_freeze (en_ts env) (Some ''supervisor'') ctl1)\<rparr>
         else s\<lparr>sv_ctl := ctl1\<rparr>)"

text \<open>The second half, after the restart attempt: recovery, escalation, or backing off.\<close>

definition close_incident ::
  "sup_env \<Rightarrow> string \<Rightarrow> incident \<Rightarrow> bool \<Rightarrow> supervisor \<Rightarrow> supervisor \<times> poll_outcome" where
  "close_incident env name i recovered s =
     (let maxa = sc_max_restart_attempts (sv_config s)
      in if recovered then
           (let s1 = sup_publish ''supervisor.log''
                  [(''module'', PStr name),
                   (''message'', PStr (''recovered '' @ squoted name @ '' after '' @
                      show_nat (in_attempts i) @ '' attempt(s)''))] s
            in (lift_own_freeze env (drop_incident name s1), PollContinue))
         else if int (in_attempts i) \<ge> maxa then
           (let (final_snap, s1) = sup_snapshot env (''supervisor-escalation:'' @ name) name (in_id i) s;
                snapshot_id = (case final_snap of Some x \<Rightarrow> if x = [] then in_last_good i else Some x
                                 | None \<Rightarrow> in_last_good i);
                s2 = shutdown_all env s1;
                s3 = escalate env name (in_attempts i) snapshot_id (in_id i) None s2
            in (s3\<lparr>sv_escalated := True\<rparr>, PollStop))
         else
           (sup_publish ''supervisor.log''
              [(''module'', PStr name),
               (''message'', PStr (''restart of '' @ squoted name @ '' failed ('' @
                  show_nat (in_attempts i) @ ''/'' @ show_int maxa @ ''); backing off''))] s,
            PollContinue))"

definition handle_fault ::
  "sup_env \<Rightarrow> pymodule \<Rightarrow> liveness \<Rightarrow> string option \<Rightarrow> supervisor \<Rightarrow> supervisor \<times> poll_outcome" where
  "handle_fault env m st exc s =
     (let name = md_name m;
          (i1, s1) = open_incident env m st exc s;
          i2 = i1\<lparr>in_attempts := Suc (in_attempts i1)\<rparr>;
          s2 = set_incident name i2 s1
      in case map_of (sv_registry s2) name of
           None \<Rightarrow> (s2, PollRaised)
         | Some cur \<Rightarrow>
             (let (restart, s3) = restart_module env name cur s2
              in case map_of (sv_registry s3) name of
                   None \<Rightarrow> (s3, PollRaised)
                 | Some after \<Rightarrow>
                     (let post = fst (assess (sv_config s3) (sv_registry s3) after);
                          recovered = (rr_ok restart \<and> post = Alive);
                          s4 = write_incident_record env
                            [(''incident_id'', opt_str (in_id i2)), (''module'', PStr name),
                             (''transition'', PStr ''restart''), (''attempt'', PInt (int (in_attempts i2))),
                             (''max_attempts'', PInt (sc_max_restart_attempts (sv_config s3))),
                             (''path'', PStr (if rr_heavy restart then ''heavy'' else ''light'')),
                             (''outcome'', PStr (if recovered then ''recovered'' else ''failed'')),
                             (''latency_ms'', PFloat (Fin (en_ms env))),
                             (''last_good_restored'', PBool (rr_last_good_restored restart)),
                             (''post_assess'', PStr (liveness_name post))] s3
                      in close_incident env name i2 recovered s4)))"

fun poll_modules ::
  "sup_env \<Rightarrow> bool \<Rightarrow> pymodule list \<Rightarrow> supervisor \<Rightarrow> supervisor \<times> poll_outcome" where
  "poll_modules env under_development [] s = (s, PollContinue)"
| "poll_modules env under_development (m # ms) s =
     (let (st, exc) = assess (sv_config s) (sv_registry s) m
      in if st = Alive then poll_modules env under_development ms (drop_incident (md_name m) s)
         else if under_development \<and> st = Hung then poll_modules env under_development ms s
         else handle_fault env m st exc s)"

definition poll_once :: "sup_env \<Rightarrow> supervisor \<Rightarrow> supervisor \<times> poll_outcome" where
  "poll_once env s =
     (if \<not> sc_enabled (sv_config s) then (s, PollContinue)
      else
        (let s1 = s\<lparr>sv_poll_index := Suc (sv_poll_index s)\<rparr>;
             (control, ctl1) = read_control (en_ts env) (sv_ctl s1);
             s2 = s1\<lparr>sv_ctl := ctl1\<rparr>;
             development_only = (cc_frozen control \<and> cc_stack control \<noteq> [] \<and>
                list_all (entry_from ''development'') (cc_stack control));
             under_development = (cc_frozen control \<and>
                list_ex (entry_from ''development'') (cc_stack control))
         in if cc_frozen control \<and> cc_source control \<noteq> PStr ''supervisor'' \<and> \<not> development_only
            then (s2, PollContinue)
            else poll_modules env under_development (reg_all_modules (sv_registry s2)) s2))"

text \<open>
  The supervision loop over the polls of a run, until the stop event: a poll that raises halts
  the process loudly. The flag beside an environment marks a poll whose own code raised
  before it changed anything.
\<close>

definition poll_crashed :: "sup_env \<Rightarrow> supervisor \<Rightarrow> supervisor" where
  "poll_crashed env s =
     (let s1 = (if sv_escalate_on_crash s
                then escalate_supervision_lost env ''supervision loop crashed'' s else s)
      in s1\<lparr>sv_escalated := True, sv_halts := Suc (sv_halts s1)\<rparr>)"

fun supervise :: "(sup_env \<times> bool) list \<Rightarrow> supervisor \<Rightarrow> supervisor \<times> bool" where
  "supervise [] s = (s, False)"
| "supervise ((env, raises) # es) s =
     (if \<not> sc_enabled (sv_config s) then (s, False)
      else if raises then (poll_crashed env s, True)
      else case poll_once env s of
             (s', PollContinue) \<Rightarrow> supervise es s'
           | (s', PollStop) \<Rightarrow> (s', True)
           | (s', PollRaised) \<Rightarrow> (poll_crashed env s', True))"

section \<open>What the helpers leave alone\<close>

lemma sup_publish_frame [simp]:
  "sv_ctl (sup_publish t p s) = sv_ctl s" "sv_incidents (sup_publish t p s) = sv_incidents s"
  "sv_config (sup_publish t p s) = sv_config s" "sv_registry (sup_publish t p s) = sv_registry s"
  "sv_escalated (sup_publish t p s) = sv_escalated s"
  "sv_escalation (sup_publish t p s) = sv_escalation s"
  "sv_shutdowns (sup_publish t p s) = sv_shutdowns s"
  by (simp_all add: sup_publish_def)

lemma write_incident_record_frame [simp]:
  "sv_ctl (write_incident_record env r s) = sv_ctl s"
  "sv_incidents (write_incident_record env r s) = sv_incidents s"
  "sv_config (write_incident_record env r s) = sv_config s"
  "sv_registry (write_incident_record env r s) = sv_registry s"
  "sv_escalated (write_incident_record env r s) = sv_escalated s"
  "sv_escalation (write_incident_record env r s) = sv_escalation s"
  "sv_shutdowns (write_incident_record env r s) = sv_shutdowns s"
  by (simp_all add: write_incident_record_def publish_incident_def Let_def)

lemma sup_snapshot_frame [simp]:
  "sv_ctl (snd (sup_snapshot env l n i s)) = sv_ctl s"
  "sv_incidents (snd (sup_snapshot env l n i s)) = sv_incidents s"
  "sv_config (snd (sup_snapshot env l n i s)) = sv_config s"
  "sv_registry (snd (sup_snapshot env l n i s)) = sv_registry s"
  "sv_escalated (snd (sup_snapshot env l n i s)) = sv_escalated s"
  "sv_shutdowns (snd (sup_snapshot env l n i s)) = sv_shutdowns s"
  by (simp_all add: sup_snapshot_def Let_def)

lemma shutdown_all_frame [simp]:
  "sv_ctl (shutdown_all env s) = sv_ctl s" "sv_incidents (shutdown_all env s) = sv_incidents s"
  "sv_config (shutdown_all env s) = sv_config s" "sv_escalated (shutdown_all env s) = sv_escalated s"
  by (simp_all add: shutdown_all_def)

lemma escalate_frame [simp]:
  "sv_ctl (escalate env n a sid i msg s) = sv_ctl s"
  "sv_incidents (escalate env n a sid i msg s) = sv_incidents s"
  "sv_config (escalate env n a sid i msg s) = sv_config s"
  "sv_shutdowns (escalate env n a sid i msg s) = sv_shutdowns s"
  "sv_escalated (escalate env n a sid i msg s) = sv_escalated s"
  by (simp_all add: escalate_def Let_def)

lemma incident_update_frame [simp]:
  "sv_ctl (set_incident n i s) = sv_ctl s" "sv_ctl (drop_incident n s) = sv_ctl s"
  "sv_config (set_incident n i s) = sv_config s" "sv_config (drop_incident n s) = sv_config s"
  "sv_registry (set_incident n i s) = sv_registry s" "sv_registry (drop_incident n s) = sv_registry s"
  "sv_escalated (set_incident n i s) = sv_escalated s" "sv_escalated (drop_incident n s) = sv_escalated s"
  "sv_incidents (set_incident n i s) = (sv_incidents s)(n \<mapsto> i)"
  "sv_incidents (drop_incident n s) = (sv_incidents s)(n := None)"
  by (simp_all add: set_incident_def drop_incident_def)

lemma heavy_restore_frame:
  "sv_ctl (snd (heavy_restore env n s)) = sv_ctl s \<and>
   sv_incidents (snd (heavy_restore env n s)) = sv_incidents s \<and>
   sv_config (snd (heavy_restore env n s)) = sv_config s \<and>
   sv_escalated (snd (heavy_restore env n s)) = sv_escalated s"
  by (auto simp: heavy_restore_def Let_def split: option.split prod.split)

lemma heavy_restart_frame:
  "sv_ctl (snd (heavy_restart env n m s)) = sv_ctl s \<and>
   sv_incidents (snd (heavy_restart env n m s)) = sv_incidents s \<and>
   sv_config (snd (heavy_restart env n m s)) = sv_config s \<and>
   sv_escalated (snd (heavy_restart env n m s)) = sv_escalated s"
  using heavy_restore_frame
  by (simp add: heavy_restart_def Let_def split: option.split prod.split sum.split)

lemma restart_module_frame [simp]:
  "sv_ctl (snd (restart_module env n m s)) = sv_ctl s"
  "sv_incidents (snd (restart_module env n m s)) = sv_incidents s"
  "sv_config (snd (restart_module env n m s)) = sv_config s"
  "sv_escalated (snd (restart_module env n m s)) = sv_escalated s"
  using heavy_restart_frame by (simp_all add: restart_module_def split: prod.split)

lemma open_incident_frame [simp]:
  "sv_incidents (snd (open_incident env m f exc s)) = sv_incidents s"
  "sv_config (snd (open_incident env m f exc s)) = sv_config s"
  "sv_registry (snd (open_incident env m f exc s)) = sv_registry s"
  "sv_escalated (snd (open_incident env m f exc s)) = sv_escalated s"
  by (simp_all add: open_incident_def Let_def case_prod_beta)

lemma open_incident_ctl [simp]:
  "sv_ctl (snd (open_incident env m f exc s)) =
     snd (freeze_cycle (en_ts env) (PStr (''supervisor: '' @ md_name m @ '' '' @ liveness_name f))
            ''supervisor'' (en_now env) (sv_ctl s))"
  by (simp add: open_incident_def Let_def case_prod_beta)

lemma open_incident_attempts:
  "in_attempts (fst (open_incident env m f exc s)) =
     (case sv_incidents s (md_name m) of None \<Rightarrow> 0 | Some i \<Rightarrow> in_attempts i)"
  by (simp add: open_incident_def Let_def case_prod_beta Incident_def split: option.split)

section \<open>The control file under a poll\<close>

definition own_entries :: "ctl_world \<Rightarrow> nat" where
  "own_entries w =
     (case ctl_stack w of None \<Rightarrow> 0 | Some st \<Rightarrow> length (filter (entry_from ''supervisor'') st))"

definition foreign_entries :: "ctl_world \<Rightarrow> pydict list option" where
  "foreign_entries w = map_option (filter (\<lambda>e. \<not> entry_from ''supervisor'' e)) (ctl_stack w)"

lemma own_entries_file_cong: "cw_file w = cw_file v \<Longrightarrow> own_entries w = own_entries v"
  by (simp add: own_entries_def ctl_stack_file_cong [of w v])

lemma foreign_entries_file_cong: "cw_file w = cw_file v \<Longrightarrow> foreign_entries w = foreign_entries v"
  by (simp add: foreign_entries_def ctl_stack_file_cong [of w v])

lemma read_control_entries [simp]:
  "own_entries (snd (read_control ts w)) = own_entries w"
  "foreign_entries (snd (read_control ts w)) = foreign_entries w"
  "ctl_stack (snd (read_control ts w)) = ctl_stack w"
  by (rule own_entries_file_cong foreign_entries_file_cong ctl_stack_file_cong, simp)+

lemma freeze_cycle_entries:
  assumes "ctl_stack w = Some st"
  shows "own_entries (snd (freeze_cycle ts r ''supervisor'' now w)) = Suc (own_entries w)"
    and "foreign_entries (snd (freeze_cycle ts r ''supervisor'' now w)) = foreign_entries w"
    and "ctl_stack (snd (freeze_cycle ts r ''supervisor'' now w)) \<noteq> None"
  using push_freeze_stack [OF assms, of ts r "''supervisor''" now] assms
  by (simp_all add: freeze_cycle_def own_entries_def foreign_entries_def entry_from_def freeze_entry_def)

lemma pop_own_entries:
  assumes "ctl_stack w = Some st"
  shows "own_entries (snd (pop_freeze ts (Some ''supervisor'') w)) = own_entries w - 1"
    and "foreign_entries (snd (pop_freeze ts (Some ''supervisor'') w)) = foreign_entries w"
  using pop_freeze_stack [OF assms, of ts "Some ''supervisor''"] assms
  by (simp_all add: own_entries_def foreign_entries_def length_filter_remove_last filter_remove_last_other)

lemma list_ex_own:
  "ctl_stack w = Some st \<Longrightarrow> list_ex (entry_from ''supervisor'') st \<longleftrightarrow> 0 < own_entries w"
  by (auto simp: own_entries_def list_ex_iff filter_empty_conv)

lemma lift_own_freeze_entries:
  assumes "ctl_stack (sv_ctl s) = Some st"
  shows "own_entries (sv_ctl (lift_own_freeze env s)) = own_entries (sv_ctl s) - 1"
    and "foreign_entries (sv_ctl (lift_own_freeze env s)) = foreign_entries (sv_ctl s)"
proof -
  have v: "cc_stack (fst (read_control (en_ts env) (sv_ctl s))) = st"
    using assms by (simp add: read_control_view)
  have r: "ctl_stack (snd (read_control (en_ts env) (sv_ctl s))) = Some st" using assms by simp
  show "own_entries (sv_ctl (lift_own_freeze env s)) = own_entries (sv_ctl s) - 1"
    using list_ex_own [OF assms] pop_own_entries(1) [OF r]
    by (simp add: lift_own_freeze_def case_prod_beta v)
  show "foreign_entries (sv_ctl (lift_own_freeze env s)) = foreign_entries (sv_ctl s)"
    using pop_own_entries(2) [OF r] by (simp add: lift_own_freeze_def case_prod_beta v)
qed

lemma lift_own_freeze_frame [simp]:
  "sv_incidents (lift_own_freeze env s) = sv_incidents s"
  "sv_config (lift_own_freeze env s) = sv_config s"
  "sv_escalated (lift_own_freeze env s) = sv_escalated s"
  by (simp_all add: lift_own_freeze_def case_prod_beta)

lemma close_incident_entries:
  assumes "ctl_stack (sv_ctl s) = Some st" and "sv_incidents s n \<noteq> None"
  shows "own_entries (sv_ctl (fst (close_incident env n i r s))) =
           own_entries (sv_ctl s) - (if sv_incidents (fst (close_incident env n i r s)) n = None then 1 else 0)"
    and "foreign_entries (sv_ctl (fst (close_incident env n i r s))) = foreign_entries (sv_ctl s)"
  using assms by (auto simp: close_incident_def Let_def case_prod_beta lift_own_freeze_entries)

lemma handle_fault_entries:
  assumes "ctl_stack (sv_ctl s) = Some st"
  shows "own_entries (sv_ctl (fst (handle_fault env m f exc s))) =
           own_entries (sv_ctl s) + (if sv_incidents (fst (handle_fault env m f exc s)) (md_name m) = None then 0 else 1)"
    and "foreign_entries (sv_ctl (fst (handle_fault env m f exc s))) = foreign_entries (sv_ctl s)"
proof -
  let ?n = "md_name m"
  obtain i1 s1 where o1: "open_incident env m f exc s = (i1, s1)" by (cases "open_incident env m f exc s")
  define s2 where "s2 = set_incident ?n (i1\<lparr>in_attempts := Suc (in_attempts i1)\<rparr>) s1"
  have ctl1: "sv_ctl s1 = snd (freeze_cycle (en_ts env) (PStr (''supervisor: '' @ ?n @ '' '' @ liveness_name f))
      ''supervisor'' (en_now env) (sv_ctl s))"
    using open_incident_ctl [of env m f exc s] o1 by simp
  note fz = freeze_cycle_entries [OF assms, of "en_ts env"
      "PStr (''supervisor: '' @ ?n @ '' '' @ liveness_name f)" "en_now env"]
  have own2: "own_entries (sv_ctl s2) = Suc (own_entries (sv_ctl s))"
    and for2: "foreign_entries (sv_ctl s2) = foreign_entries (sv_ctl s)"
    and inc2: "sv_incidents s2 ?n \<noteq> None"
    using fz by (simp_all add: s2_def ctl1)
  obtain st2 where st2: "ctl_stack (sv_ctl s2) = Some st2"
    using fz(3) by (auto simp: s2_def ctl1)
  have main: "own_entries (sv_ctl (fst (handle_fault env m f exc s))) =
      own_entries (sv_ctl s2) - (if sv_incidents (fst (handle_fault env m f exc s)) ?n = None then 1 else 0) \<and>
      foreign_entries (sv_ctl (fst (handle_fault env m f exc s))) = foreign_entries (sv_ctl s2)"
  proof (cases "map_of (sv_registry s2) ?n")
    case None
    then show ?thesis using inc2 by (simp add: handle_fault_def o1 Let_def s2_def)
  next
    case (Some cur)
    obtain rr s3 where r3: "restart_module env ?n cur s2 = (rr, s3)" by (cases "restart_module env ?n cur s2")
    have s3: "sv_ctl s3 = sv_ctl s2" "sv_incidents s3 = sv_incidents s2"
      using restart_module_frame [of env ?n cur s2] r3 by simp_all
    show ?thesis
    proof (cases "map_of (sv_registry s3) ?n")
      case None
      with Some r3 s3 inc2 show ?thesis by (simp add: handle_fault_def o1 Let_def s2_def)
    next
      case (Some after)
      show ?thesis
        unfolding handle_fault_def o1 Let_def prod.case s2_def [symmetric]
          \<open>map_of (sv_registry s2) ?n = Some cur\<close> option.case r3 Some
        using st2 inc2 s3 by (simp add: close_incident_entries [where st = st2])
    qed
  qed
  show "own_entries (sv_ctl (fst (handle_fault env m f exc s))) =
      own_entries (sv_ctl s) + (if sv_incidents (fst (handle_fault env m f exc s)) ?n = None then 0 else 1)"
    using main own2 by auto
  show "foreign_entries (sv_ctl (fst (handle_fault env m f exc s))) = foreign_entries (sv_ctl s)"
    using main for2 by simp
qed

lemma poll_modules_entries:
  "ctl_stack (sv_ctl s) = Some st \<Longrightarrow>
   own_entries (sv_ctl s) \<le> own_entries (sv_ctl (fst (poll_modules env u ms s))) \<and>
   foreign_entries (sv_ctl (fst (poll_modules env u ms s))) = foreign_entries (sv_ctl s)"
proof (induction env u ms s rule: poll_modules.induct)
  case (2 env u m ms s)
  obtain f exc where a: "assess (sv_config s) (sv_registry s) m = (f, exc)"
    by (cases "assess (sv_config s) (sv_registry s) m")
  consider "f = Alive" | "f \<noteq> Alive" "u \<and> f = Hung" | "f \<noteq> Alive" "\<not> (u \<and> f = Hung)" by blast
  then show ?case
  proof cases
    case 3
    with a show ?thesis using handle_fault_entries [OF "2.prems", of env m f exc] by auto
  qed (use 2 a in auto)
qed simp

lemma poll_once_entries:
  "own_entries (sv_ctl s) \<le> own_entries (sv_ctl (fst (poll_once env s))) \<and>
   foreign_entries (sv_ctl (fst (poll_once env s))) = foreign_entries (sv_ctl s)"
proof (cases "ctl_stack (sv_ctl s)")
  case None
  then have "fst (read_control (en_ts env) (sv_ctl s)) = fail_closed_state (en_ts env)"
    by (simp add: read_control_view)
  moreover have "\<not> list_all (entry_from ''development'') (cc_stack (fail_closed_state (en_ts env)))"
    by (simp add: fail_closed_state_def entry_from_def)
  ultimately show ?thesis by (simp add: poll_once_def case_prod_beta Let_def)
next
  case (Some st)
  define s2 where "s2 = s\<lparr>sv_poll_index := Suc (sv_poll_index s),
    sv_ctl := snd (read_control (en_ts env) (sv_ctl s))\<rparr>"
  have s2: "ctl_stack (sv_ctl s2) = Some st" "own_entries (sv_ctl s2) = own_entries (sv_ctl s)"
    "foreign_entries (sv_ctl s2) = foreign_entries (sv_ctl s)"
    using Some by (simp_all add: s2_def)
  show ?thesis
    using poll_modules_entries [OF s2(1)] s2
    by (simp add: poll_once_def case_prod_beta Let_def s2_def)
qed

section \<open>Attempts and escalation\<close>

definition within_budget :: "supervisor \<Rightarrow> bool" where
  "within_budget s \<longleftrightarrow> sv_escalated s \<or>
     (\<forall>n i. sv_incidents s n = Some i \<longrightarrow> int (in_attempts i) < sc_max_restart_attempts (sv_config s))"

lemma within_budgetI:
  "(\<And>n i. \<not> sv_escalated s \<Longrightarrow> sv_incidents s n = Some i \<Longrightarrow>
      int (in_attempts i) < sc_max_restart_attempts (sv_config s)) \<Longrightarrow> within_budget s"
  by (auto simp: within_budget_def)

text \<open>The result of a fault, by the restart's result: three ways to close the incident.\<close>

lemma handle_fault_cases:
  assumes "open_incident env m f exc s = (i1, s1)"
    and "s2 = set_incident (md_name m) (i1\<lparr>in_attempts := Suc (in_attempts i1)\<rparr>) s1"
    and "handle_fault env m f exc s = (s', out)" and "out \<noteq> PollRaised"
  obtains cur rr s3 after r4 where "map_of (sv_registry s2) (md_name m) = Some cur"
    and "restart_module env (md_name m) cur s2 = (rr, s3)"
    and "map_of (sv_registry s3) (md_name m) = Some after"
    and "(s', out) = close_incident env (md_name m) (i1\<lparr>in_attempts := Suc (in_attempts i1)\<rparr>)
           (rr_ok rr \<and> fst (assess (sv_config s3) (sv_registry s3) after) = Alive)
           (write_incident_record env r4 s3)"
proof -
  have h: "handle_fault env m f exc s = (s', out)" by (rule assms(3))
  show thesis
  proof (cases "map_of (sv_registry s2) (md_name m)")
    case None
    with h assms(4) show thesis by (simp add: handle_fault_def assms(1,2) Let_def)
  next
    case (Some cur)
    obtain rr s3 where r3: "restart_module env (md_name m) cur s2 = (rr, s3)"
      by (cases "restart_module env (md_name m) cur s2")
    show thesis
    proof (cases "map_of (sv_registry s3) (md_name m)")
      case None
      with Some r3 h assms(4) show thesis by (simp add: handle_fault_def assms(1,2) Let_def)
    next
      case (Some after)
      have "(s', out) = handle_fault env m f exc s" using h by simp
      then show thesis
        unfolding handle_fault_def assms(1) Let_def prod.case assms(2) [symmetric]
          \<open>map_of (sv_registry s2) (md_name m) = Some cur\<close> option.case r3 Some
        by (rule that [OF \<open>map_of (sv_registry s2) (md_name m) = Some cur\<close> r3 Some])
    qed
  qed
qed

lemma close_incident_budget:
  assumes "within_budget (drop_incident n s)" and "sv_incidents s n = Some i"
    and "close_incident env n i r s = (s', out)"
  shows "within_budget s' \<and> (out = PollStop \<longrightarrow> sv_escalated s') \<and> out \<noteq> PollRaised"
proof -
  let ?max = "sc_max_restart_attempts (sv_config s)"
  have others: "int (in_attempts j) < ?max"
    if "\<not> sv_escalated s" "k \<noteq> n" "sv_incidents s k = Some j" for k j
    using assms(1) that by (simp add: within_budget_def) (metis fun_upd_other)
  consider (recovered) "r" | (exhausted) "\<not> r" "?max \<le> int (in_attempts i)"
    | (again) "\<not> r" "int (in_attempts i) < ?max" by linarith
  then show ?thesis
  proof cases
    case recovered
    with assms(1,3) show ?thesis by (auto simp: close_incident_def Let_def within_budget_def)
  next
    case exhausted
    with assms(3) show ?thesis
      by (auto simp: close_incident_def Let_def case_prod_beta within_budget_def)
  next
    case again
    have "within_budget (sup_publish t p s)" for t p
    proof (rule within_budgetI)
      fix k j assume "\<not> sv_escalated (sup_publish t p s)" "sv_incidents (sup_publish t p s) k = Some j"
      then show "int (in_attempts j) < sc_max_restart_attempts (sv_config (sup_publish t p s))"
        using others again assms(2) by (cases "k = n") auto
    qed
    with again assms(3) show ?thesis by (auto simp: close_incident_def Let_def)
  qed
qed

lemma handle_fault_budget:
  assumes "within_budget s" and h: "handle_fault env m f exc s = (s', out)" and "out \<noteq> PollRaised"
  shows "within_budget s' \<and> (out = PollStop \<longrightarrow> sv_escalated s')"
proof -
  obtain i1 s1 where o1: "open_incident env m f exc s = (i1, s1)" by (cases "open_incident env m f exc s")
  let ?i = "i1\<lparr>in_attempts := Suc (in_attempts i1)\<rparr>"
  define s2 where "s2 = set_incident (md_name m) ?i s1"
  obtain cur rr s3 r4 r where r3: "restart_module env (md_name m) cur s2 = (rr, s3)"
    and c: "(s', out) = close_incident env (md_name m) ?i r (write_incident_record env r4 s3)"
    by (rule handle_fault_cases [OF o1 s2_def h assms(3)]) blast
  have "sv_incidents s1 = sv_incidents s" "sv_config s1 = sv_config s" "sv_escalated s1 = sv_escalated s"
    using open_incident_frame [of env m f exc s] o1 by simp_all
  moreover have "sv_incidents s3 = sv_incidents s2" "sv_config s3 = sv_config s2"
    "sv_escalated s3 = sv_escalated s2"
    using restart_module_frame [of env "md_name m" cur s2] r3 by simp_all
  ultimately have "sv_incidents s3 = (sv_incidents s)(md_name m \<mapsto> ?i)" "sv_config s3 = sv_config s"
    "sv_escalated s3 = sv_escalated s"
    by (simp_all add: s2_def)
  then have "within_budget (drop_incident (md_name m) (write_incident_record env r4 s3))"
    and "sv_incidents (write_incident_record env r4 s3) (md_name m) = Some ?i"
    using assms(1) by (auto simp: within_budget_def)
  from close_incident_budget [OF this c [symmetric]] show ?thesis by blast
qed

lemma poll_modules_budget:
  "within_budget s \<Longrightarrow> poll_modules env u ms s = (s', out) \<Longrightarrow> out \<noteq> PollRaised \<Longrightarrow>
   within_budget s' \<and> (out = PollStop \<longrightarrow> sv_escalated s')"
proof (induction env u ms s rule: poll_modules.induct)
  case (2 env u m ms s)
  obtain f exc where a: "assess (sv_config s) (sv_registry s) m = (f, exc)"
    by (cases "assess (sv_config s) (sv_registry s) m")
  have drop: "within_budget (drop_incident (md_name m) s)"
    using "2.prems"(1) by (auto simp: within_budget_def)
  consider "f = Alive" | "f \<noteq> Alive" "u \<and> f = Hung" | "f \<noteq> Alive" "\<not> (u \<and> f = Hung)" by blast
  then show ?case
  proof cases
    case 3
    with a "2.prems" show ?thesis using handle_fault_budget [of s env m f exc s' out] by auto
  qed (use 2 a drop in auto)
qed auto

lemma poll_once_budget:
  assumes "within_budget s" and "poll_once env s = (s', out)" and "out \<noteq> PollRaised"
  shows "within_budget s' \<and> (out = PollStop \<longrightarrow> sv_escalated s')"
proof -
  let ?s2 = "s\<lparr>sv_poll_index := Suc (sv_poll_index s), sv_ctl := snd (read_control (en_ts env) (sv_ctl s))\<rparr>"
  have b: "within_budget ?s2" using assms(1) by (auto simp: within_budget_def)
  with assms poll_modules_budget [OF b] show ?thesis
    by (auto simp: poll_once_def case_prod_beta Let_def split: if_splits)
qed

lemma supervise_budget:
  "within_budget s \<Longrightarrow> within_budget (fst (supervise es s)) \<and>
   (snd (supervise es s) \<longrightarrow> sv_escalated (fst (supervise es s)))"
proof (induction es s rule: supervise.induct)
  case (2 env raises es s)
  have crash: "sv_escalated (poll_crashed env t)" for t by (simp add: poll_crashed_def Let_def)
  obtain s' out where p: "poll_once env s = (s', out)" by (cases "poll_once env s")
  show ?case
  proof (cases out)
    case PollRaised
    with p crash "2.prems" show ?thesis by (auto simp: within_budget_def)
  next
    case PollStop
    with p crash "2.prems" poll_once_budget [OF "2.prems" p] show ?thesis
      by (auto simp: within_budget_def)
  next
    case PollContinue
    then have "within_budget s'" using poll_once_budget [OF "2.prems" p] by simp
    with 2 p PollContinue crash show ?thesis by (auto simp: within_budget_def)
  qed
qed auto

section \<open>A module that never recovers\<close>

definition polled :: "sup_env \<Rightarrow> supervisor \<Rightarrow> supervisor" where
  "polled env s = s\<lparr>sv_poll_index := Suc (sv_poll_index s),
     sv_ctl := snd (read_control (en_ts env) (sv_ctl s))\<rparr>"

lemma polled_frame [simp]:
  "sv_config (polled env s) = sv_config s" "sv_registry (polled env s) = sv_registry s"
  "sv_incidents (polled env s) = sv_incidents s" "ctl_stack (sv_ctl (polled env s)) = ctl_stack (sv_ctl s)"
  by (simp_all add: polled_def)

lemma poll_once_not_held:
  assumes "sc_enabled (sv_config s)"
    and "cc_frozen (fst (read_control (en_ts env) (sv_ctl s))) \<longrightarrow>
         cc_source (fst (read_control (en_ts env) (sv_ctl s))) = PStr ''supervisor''"
  shows "\<exists>u. poll_once env s = poll_modules env u (reg_all_modules (sv_registry s)) (polled env s)"
  using assms by (auto simp: poll_once_def case_prod_beta Let_def polled_def)

text \<open>
  The state after \<open>k\<close> failed attempts on module \<open>n\<close>, when nobody but the supervisor holds a
  freeze; \<open>P\<close> says what the failing restarts keep of the registry.
\<close>

definition failing :: "(registry \<Rightarrow> bool) \<Rightarrow> string \<Rightarrow> nat \<Rightarrow> supervisor \<Rightarrow> bool" where
  "failing P n k s \<longleftrightarrow>
     sc_enabled (sv_config s) \<and> P (sv_registry s) \<and>
     (case sv_incidents s n of None \<Rightarrow> k = 0 | Some i \<Rightarrow> in_attempts i = k) \<and>
     (\<exists>st. ctl_stack (sv_ctl s) = Some st \<and> list_all (entry_from ''supervisor'') st)"

lemma own_stack_not_held:
  assumes "ctl_stack w = Some st" and "list_all (entry_from ''supervisor'') st"
  shows "cc_frozen (fst (read_control ts w)) \<longrightarrow> cc_source (fst (read_control ts w)) = PStr ''supervisor''"
proof (cases "st = []")
  case False
  then have "entry_from ''supervisor'' (last st)" using assms(2) by (simp add: list_all_iff)
  then have "dget (last st) ''source'' (PStr ''operator'') = PStr ''supervisor''"
    by (simp add: entry_from_def dget_def split: option.splits)
  with False assms(1) show ?thesis by (simp add: read_control_view cc_source_state_of)
qed (use assms in \<open>simp add: read_control_view CycleControl_def\<close>)

lemma failing_step:
  assumes inv: "failing P n k s"
    and head: "\<And>r. P r \<Longrightarrow> \<exists>m ms. reg_all_modules r = m # ms \<and> md_name m = n \<and> map_of r n = Some m \<and>
                 fst (assess (sv_config s) r m) = Dead"
    and keeps: "\<And>t m. P (sv_registry t) \<Longrightarrow> map_of (sv_registry t) n = Some m \<Longrightarrow>
                 P (sv_registry (snd (restart_module env n m t)))"
    and p: "poll_once env s = (s', out)"
  shows "sv_config s' = sv_config s \<and>
    (if int (Suc k) < sc_max_restart_attempts (sv_config s)
     then out = PollContinue \<and> failing P n (Suc k) s'
     else out = PollStop \<and> sv_escalated s')"
proof -
  from inv obtain st where st: "ctl_stack (sv_ctl s) = Some st" "list_all (entry_from ''supervisor'') st"
    and en: "sc_enabled (sv_config s)" and P: "P (sv_registry s)"
    and att: "case sv_incidents s n of None \<Rightarrow> k = 0 | Some i \<Rightarrow> in_attempts i = k"
    by (auto simp: failing_def)
  define s2 where "s2 = polled env s"
  obtain m ms where ms: "reg_all_modules (sv_registry s) = m # ms" "md_name m = n"
    "map_of (sv_registry s) n = Some m" "fst (assess (sv_config s) (sv_registry s) m) = Dead"
    using head [OF P] by blast
  obtain exc where a: "assess (sv_config s) (sv_registry s) m = (Dead, exc)"
    using ms(4) by (cases "assess (sv_config s) (sv_registry s) m") auto
  have s2: "sv_config s2 = sv_config s" "sv_registry s2 = sv_registry s" "sv_incidents s2 = sv_incidents s"
    "ctl_stack (sv_ctl s2) = Some st"
    using st by (simp_all add: s2_def)
  obtain u where "poll_once env s = poll_modules env u (m # ms) s2"
    using poll_once_not_held [of s env] own_stack_not_held [OF st, of "en_ts env"] en ms(1)
    by (auto simp: s2_def)
  then have h: "handle_fault env m Dead exc s2 = (s', out)"
    using p a s2 by simp
  obtain i1 s3 where o1: "open_incident env m Dead exc s2 = (i1, s3)"
    by (cases "open_incident env m Dead exc s2")
  let ?i = "i1\<lparr>in_attempts := Suc (in_attempts i1)\<rparr>"
  define s4 where "s4 = set_incident n ?i s3"
  have k: "in_attempts i1 = k"
    using open_incident_attempts [of env m Dead exc s2] o1 att s2 ms(2)
    by (simp split: option.splits)
  have s3: "sv_config s3 = sv_config s" "sv_registry s3 = sv_registry s"
    using open_incident_frame [of env m Dead exc s2] o1 s2 by simp_all
  have ctl3: "ctl_stack (sv_ctl s3) = Some (st @
      [freeze_entry ''supervisor'' (PStr (''supervisor: '' @ n @ '' '' @ liveness_name Dead)) (en_now env)])"
    using open_incident_ctl [of env m Dead exc s2] o1 push_freeze_stack [OF s2(4)] ms(2)
    by (simp add: freeze_cycle_def)
  obtain rr s5 where r5: "restart_module env n m s4 = (rr, s5)" by (cases "restart_module env n m s4")
  have s5: "sv_ctl s5 = sv_ctl s4" "sv_incidents s5 = sv_incidents s4" "sv_config s5 = sv_config s4"
    using restart_module_frame [of env n m s4] r5 by simp_all
  have "P (sv_registry (snd (restart_module env n m s4)))"
    by (rule keeps) (simp_all add: s4_def s3 P ms)
  then have P5: "P (sv_registry s5)" by (simp add: r5)
  obtain m' ms' where m': "reg_all_modules (sv_registry s5) = m' # ms'" "map_of (sv_registry s5) n = Some m'"
    "fst (assess (sv_config s) (sv_registry s5) m') = Dead"
    using head [OF P5] by blast
  have cfg5: "sv_config s5 = sv_config s" by (simp add: s5 s4_def s3)
  obtain r4 where c: "(s', out) = close_incident env n ?i False (write_incident_record env r4 s5)"
    using h [symmetric] m' cfg5 s3 ms
    by (simp add: handle_fault_def o1 Let_def r5 flip: s4_def)
  show ?thesis
  proof (cases "int (Suc k) < sc_max_restart_attempts (sv_config s)")
    case True
    then have "s' = sup_publish ''supervisor.log'' [(''module'', PStr n),
         (''message'', PStr (''restart of '' @ squoted n @ '' failed ('' @ show_nat (in_attempts ?i) @ ''/'' @
            show_int (sc_max_restart_attempts (sv_config s)) @ ''); backing off''))]
         (write_incident_record env r4 s5)" and "out = PollContinue"
      using c by (simp_all add: close_incident_def Let_def cfg5 k)
    then show ?thesis
      using True P5 en st(2) ctl3
      by (simp add: failing_def cfg5 s5 s4_def k entry_from_def freeze_entry_def)
  next
    case False
    then show ?thesis using c by (simp add: close_incident_def Let_def case_prod_beta cfg5 k)
  qed
qed

lemma failing_escalates:
  assumes head: "\<And>r. P r \<Longrightarrow> \<exists>m ms. reg_all_modules r = m # ms \<and> md_name m = n \<and> map_of r n = Some m \<and>
                 fst (assess cfg r m) = Dead"
    and keeps: "\<And>env t m. env \<in> set envs \<Longrightarrow> P (sv_registry t) \<Longrightarrow> map_of (sv_registry t) n = Some m \<Longrightarrow>
                 P (sv_registry (snd (restart_module env n m t)))"
  shows "failing P n k s \<Longrightarrow> sv_config s = cfg \<Longrightarrow> envs \<noteq> [] \<Longrightarrow>
    sc_max_restart_attempts cfg \<le> int (k + length envs) \<Longrightarrow>
    \<exists>s'. supervise (map (\<lambda>e. (e, False)) envs) s = (s', True) \<and> sv_escalated s'"
  using keeps
proof (induction envs arbitrary: k s)
  case (Cons env envs)
  obtain s' out where p: "poll_once env s = (s', out)" by (cases "poll_once env s")
  have step: "sv_config s' = sv_config s \<and>
    (if int (Suc k) < sc_max_restart_attempts (sv_config s)
     then out = PollContinue \<and> failing P n (Suc k) s'
     else out = PollStop \<and> sv_escalated s')"
    by (rule failing_step [OF Cons.prems(1) _ _ p]) (use head Cons.prems(2,5) in auto)
  have en: "sc_enabled (sv_config s)" using Cons.prems(1) by (simp add: failing_def)
  show ?case
  proof (cases "int (Suc k) < sc_max_restart_attempts cfg")
    case True
    with step Cons.prems have "out = PollContinue" "failing P n (Suc k) s'" "sv_config s' = cfg"
      "envs \<noteq> []" by auto
    with Cons.IH [of "Suc k" s'] Cons.prems p en show ?thesis by simp
  next
    case False
    with step Cons.prems(2) p en show ?thesis by simp
  qed
qed simp

section \<open>What an escalation leaves\<close>

lemma records_frame [simp]:
  "sv_halts (sup_publish t p s) = sv_halts s" "sv_halts (write_incident_record env r s) = sv_halts s"
  "sv_halts (snd (sup_snapshot env l n i s)) = sv_halts s" "sv_halts (shutdown_all env s) = sv_halts s"
  "sv_halts (set_incident n j s) = sv_halts s" "sv_shutdowns (set_incident n j s) = sv_shutdowns s"
  by (simp_all add: sup_publish_def write_incident_record_def publish_incident_def sup_snapshot_def
      shutdown_all_def set_incident_def Let_def)

lemma open_incident_halts [simp]:
  "sv_halts (snd (open_incident env m f exc s)) = sv_halts s"
  "sv_shutdowns (snd (open_incident env m f exc s)) = sv_shutdowns s"
  by (simp_all add: open_incident_def Let_def case_prod_beta)

lemma heavy_restart_halts:
  "sv_halts (snd (heavy_restart env n m s)) = sv_halts s \<and>
   sv_shutdowns (snd (heavy_restart env n m s)) = sv_shutdowns s"
  by (simp add: heavy_restart_def heavy_restore_def Let_def split: option.split prod.split sum.split)

lemma restart_module_halts [simp]:
  "sv_halts (snd (restart_module env n m s)) = sv_halts s"
  "sv_shutdowns (snd (restart_module env n m s)) = sv_shutdowns s"
  using heavy_restart_halts by (simp_all add: restart_module_def split: prod.split)

lemma escalate_writes:
  "sv_halts (escalate env n a sid i msg s) = Suc (sv_halts s)"
  "sv_registry (escalate env n a sid i msg s) = sv_registry s"
  "\<exists>es. sv_escalation (escalate env n a sid i msg s) = write_escalation es (sv_escalation s) \<and>
        es_escalated es \<and> es_module es = PStr n \<and> es_attempts es = int a"
  by (simp_all add: escalate_def Let_def) (rule exI, rule conjI, rule refl, simp)

text \<open>The state after the process was told to halt over the module \<open>n\<close>.\<close>

definition halted :: "sup_env \<Rightarrow> string \<Rightarrow> nat \<Rightarrow> supervisor \<Rightarrow> supervisor \<Rightarrow> bool" where
  "halted env n a s s' \<longleftrightarrow>
     sv_escalated s' \<and> sv_halts s' = Suc (sv_halts s) \<and>
     (\<exists>es. sv_escalation s' = write_escalation es Absent \<and> es_escalated es \<and>
           es_module es = PStr n \<and> es_attempts es = int a) \<and>
     (\<exists>r. sv_registry s' = map (\<lambda>(k, m). (k, snd (en_shutdown env m))) r \<and>
          sv_shutdowns s' = sv_shutdowns s @ map md_name (shutdown_order (reg_all_modules r)))"

lemma close_incident_stop:
  assumes "close_incident env n i r s = (s', PollStop)"
  shows "halted env n (in_attempts i) s s' \<and> sc_max_restart_attempts (sv_config s) \<le> int (in_attempts i) \<and>
    sv_ctl s' = sv_ctl s"
proof -
  have r: "\<not> r" and max: "sc_max_restart_attempts (sv_config s) \<le> int (in_attempts i)"
    using assms by (auto simp: close_incident_def Let_def case_prod_beta split: if_splits)
  define t where "t = shutdown_all env (snd (sup_snapshot env (''supervisor-escalation:'' @ n) n (in_id i) s))"
  obtain sid where s': "s' = (escalate env n (in_attempts i) sid (in_id i) None t)\<lparr>sv_escalated := True\<rparr>"
    using assms r max by (auto simp: close_incident_def Let_def case_prod_beta t_def)
  have t: "sv_halts t = sv_halts s" "sv_ctl t = sv_ctl s"
    "sv_registry t = map (\<lambda>(k, m). (k, snd (en_shutdown env m))) (sv_registry s)"
    "sv_shutdowns t = sv_shutdowns s @ map md_name (shutdown_order (reg_all_modules (sv_registry s)))"
    by (simp_all add: t_def) (simp_all add: shutdown_all_def)
  obtain es where es: "sv_escalation (escalate env n (in_attempts i) sid (in_id i) None t) = write_escalation es (sv_escalation t)"
    "es_escalated es" "es_module es = PStr n" "es_attempts es = int (in_attempts i)"
    using escalate_writes(3) [of env n "in_attempts i" sid "in_id i" None t] by blast
  then have "\<exists>es. sv_escalation s' = write_escalation es Absent \<and> es_escalated es \<and>
           es_module es = PStr n \<and> es_attempts es = int (in_attempts i)"
    by (intro exI [of _ es]) (simp add: s' write_escalation_def write_json_atomic_def)
  then have "halted env n (in_attempts i) s s'"
    unfolding halted_def using t by (auto simp: s' escalate_writes)
  then show ?thesis using max t by (simp add: s')
qed

lemma handle_fault_stop:
  assumes h: "handle_fault env m f exc s = (s', PollStop)" and st: "ctl_stack (sv_ctl s) = Some st"
  shows "\<exists>a. halted env (md_name m) a s s' \<and> sc_max_restart_attempts (sv_config s) \<le> int a \<and>
     own_entries (sv_ctl s') = Suc (own_entries (sv_ctl s))"
proof -
  obtain i1 s1 where o1: "open_incident env m f exc s = (i1, s1)" by (cases "open_incident env m f exc s")
  let ?i = "i1\<lparr>in_attempts := Suc (in_attempts i1)\<rparr>"
  define s2 where "s2 = set_incident (md_name m) ?i s1"
  obtain cur rr s3 r4 r where r3: "restart_module env (md_name m) cur s2 = (rr, s3)"
    and c: "(s', PollStop) = close_incident env (md_name m) ?i r (write_incident_record env r4 s3)"
    by (rule handle_fault_cases [OF o1 s2_def h]) auto
  have s1: "sv_halts s1 = sv_halts s" "sv_shutdowns s1 = sv_shutdowns s" "sv_config s1 = sv_config s"
    using open_incident_halts [of env m f exc s] open_incident_frame(2) [of env m f exc s] o1 by simp_all
  have s2: "sv_halts s2 = sv_halts s" "sv_shutdowns s2 = sv_shutdowns s" "sv_config s2 = sv_config s"
    "sv_ctl s2 = sv_ctl s1"
    using s1 by (simp_all add: s2_def)
  have s3: "sv_halts s3 = sv_halts s" "sv_shutdowns s3 = sv_shutdowns s" "sv_config s3 = sv_config s"
    "sv_ctl s3 = sv_ctl s1"
    using restart_module_halts [of env "md_name m" cur s2] restart_module_frame [of env "md_name m" cur s2]
      r3 s2 by simp_all
  have ctl1: "sv_ctl s1 = snd (freeze_cycle (en_ts env)
      (PStr (''supervisor: '' @ md_name m @ '' '' @ liveness_name f)) ''supervisor'' (en_now env) (sv_ctl s))"
    using open_incident_ctl [of env m f exc s] o1 by simp
  note cl = close_incident_stop [OF c [symmetric]]
  have "own_entries (sv_ctl s') = Suc (own_entries (sv_ctl s))"
    using cl s3 freeze_cycle_entries(1) [OF st] by (simp add: ctl1)
  moreover have "halted env (md_name m) (in_attempts ?i) s s'"
    using cl s3 by (simp add: halted_def)
  ultimately show ?thesis using cl s3(3) by (intro exI [of _ "in_attempts ?i"]) simp
qed

lemma poll_modules_stop:
  "poll_modules env u ms s = (s', PollStop) \<Longrightarrow> ctl_stack (sv_ctl s) = Some st \<Longrightarrow>
   \<exists>n a. halted env n a s s' \<and> sc_max_restart_attempts (sv_config s) \<le> int a \<and>
     own_entries (sv_ctl s') = Suc (own_entries (sv_ctl s))"
proof (induction env u ms s rule: poll_modules.induct)
  case (2 env u m ms s)
  obtain f exc where a: "assess (sv_config s) (sv_registry s) m = (f, exc)"
    by (cases "assess (sv_config s) (sv_registry s) m")
  consider "f = Alive" | "f \<noteq> Alive" "u \<and> f = Hung" | "f \<noteq> Alive" "\<not> (u \<and> f = Hung)" by blast
  then show ?case
  proof cases
    case 1
    have "halted env n b (drop_incident (md_name m) s) s' \<Longrightarrow> halted env n b s s'" for n b
      by (simp add: halted_def drop_incident_def)
    with 1 a 2 show ?thesis by fastforce
  next
    case 3
    with a "2.prems" handle_fault_stop [of env m f exc s s' st] show ?thesis by auto
  qed (use a 2 in auto)
qed simp

lemma poll_once_stop:
  assumes "poll_once env s = (s', PollStop)"
  shows "\<exists>n a. halted env n a s s' \<and> sc_max_restart_attempts (sv_config s) \<le> int a \<and>
     0 < own_entries (sv_ctl s')"
proof -
  obtain u where p: "poll_modules env u (reg_all_modules (sv_registry s)) (polled env s) = (s', PollStop)"
    and held: "cc_frozen (fst (read_control (en_ts env) (sv_ctl s))) \<and>
       cc_source (fst (read_control (en_ts env) (sv_ctl s))) \<noteq> PStr ''supervisor'' \<longrightarrow>
       list_all (entry_from ''development'') (cc_stack (fst (read_control (en_ts env) (sv_ctl s))))"
    using assms by (auto simp: poll_once_def case_prod_beta Let_def polled_def split: if_splits)
  have "ctl_stack (sv_ctl s) \<noteq> None"
  proof
    assume "ctl_stack (sv_ctl s) = None"
    then have "fst (read_control (en_ts env) (sv_ctl s)) = fail_closed_state (en_ts env)"
      by (simp add: read_control_view)
    moreover have "\<not> list_all (entry_from ''development'') (cc_stack (fail_closed_state (en_ts env)))"
      by (simp add: fail_closed_state_def entry_from_def)
    ultimately show False using held by simp
  qed
  then obtain st where st: "ctl_stack (sv_ctl (polled env s)) = Some st" by auto
  have "halted env n a (polled env s) s' \<Longrightarrow> halted env n a s s'" for n a
    by (simp add: halted_def polled_def)
  with poll_modules_stop [OF p st] show ?thesis by fastforce
qed

section \<open>Runs of polls\<close>

definition poll_step :: "supervisor \<Rightarrow> sup_env \<Rightarrow> supervisor" where
  "poll_step s env = fst (poll_once env s)"

interpretation own_freeze: ranked_machine poll_step "\<lambda>_. True" "\<lambda>_. True" "\<lambda>s. own_entries (sv_ctl s)"
  by unfold_locales (simp_all add: poll_step_def poll_once_entries)

interpretation foreign_freeze: machine poll_step "\<lambda>_. True" "\<lambda>s. foreign_entries (sv_ctl s) = f"
  by unfold_locales (simp add: poll_step_def poll_once_entries)

lemma own_entry_reads_frozen:
  "0 < own_entries w \<Longrightarrow> cc_frozen (fst (read_control ts w))"
  by (cases "ctl_stack w") (auto simp: own_entries_def read_control_view)

section \<open>A concrete supervisor\<close>

definition sample_config :: supervisor_config where
  "sample_config = \<lparr>sc_enabled = True, sc_poll_interval_s = Fin 2, sc_heartbeat_timeout_s = Fin 60,
     sc_max_restart_attempts = 3, sc_restart_backoff_s = Fin 3, sc_per_module_timeout_s = [],
     sc_incident_log = \<lparr>ilc_enabled = True, ilc_path = ''incidents''\<rparr>, sc_selftest_timeout_s = Fin 10\<rparr>"

definition sample_module :: "string \<Rightarrow> task list \<Rightarrow> pymodule" where
  "sample_module n ts = \<lparr>md_name = n, md_tasks = ts, md_stopped = False, md_heartbeat_age = 1,
     md_external = False, md_carries = False, md_is_sleeping = False, md_version = 0\<rparr>"

text \<open>An environment whose light restart repairs a module, or leaves it as it is.\<close>

definition sample_env :: "bool \<Rightarrow> sup_env" where
  "sample_env repairs = \<lparr>en_now = ''now'', en_uuid = ''id'', en_ts = ''ts'', en_ms = 1,
     en_encrypted = False, en_tick = None, en_snapshot = \<lambda>_. None, en_shutdown = \<lambda>m. (True, m),
     en_restart = \<lambda>m. if repairs then (True, m\<lparr>md_tasks := [Running]\<rparr>) else (False, m),
     en_serialize = \<lambda>_. None, en_rebuild = \<lambda>_. None, en_initialize = \<lambda>m. (True, m),
     en_deserialize = \<lambda>_ m. m, en_rewire = \<lambda>r _. (True, r), en_restore = \<lambda>_ r. (True, r)\<rparr>"

definition sample_dead :: pymodule where
  "sample_dead = sample_module ''vision'' [Finished (Some ''boom'')]"

definition sample_supervisor :: "pymodule list \<Rightarrow> pydict list \<Rightarrow> supervisor" where
  "sample_supervisor ms st = \<lparr>sv_config = sample_config, sv_registry = map (\<lambda>m. (md_name m, m)) ms,
     sv_incidents = \<lambda>_. None, sv_escalated = False, sv_poll_index = 0, sv_ctl = sample_world st,
     sv_escalation = Absent, sv_log = [], sv_bus = [], sv_shutdowns = [], sv_halts = 0,
     sv_escalate_on_crash = False\<rparr>"

section \<open>A module no restart repairs\<close>

definition hopeless :: "string \<Rightarrow> pymodule \<Rightarrow> bool" where
  "hopeless n m \<longleftrightarrow> md_name m = n \<and> \<not> md_external m \<and> dead_task (md_stopped m) (md_tasks m) \<noteq> None"

definition hopeless_head :: "string \<Rightarrow> registry \<Rightarrow> bool" where
  "hopeless_head n r \<longleftrightarrow> (\<exists>m ms. r = (n, m) # ms \<and> hopeless n m)"

lemma hopeless_head_dead:
  "hopeless_head n r \<Longrightarrow> \<exists>m ms. reg_all_modules r = m # ms \<and> md_name m = n \<and> map_of r n = Some m \<and>
     fst (assess cfg r m) = Dead"
  by (auto simp: hopeless_head_def hopeless_def reg_all_modules_def assess_def)

lemma hopeless_head_restart:
  assumes "\<And>m. hopeless n m \<Longrightarrow> hopeless n (snd (en_restart env m))"
    and "hopeless_head n (sv_registry t)" and "map_of (sv_registry t) n = Some m"
  shows "hopeless_head n (sv_registry (snd (restart_module env n m t)))"
proof -
  from assms(2,3) obtain ms where r: "sv_registry t = (n, m) # ms" and h: "hopeless n m"
    by (auto simp: hopeless_head_def)
  then show ?thesis using assms(1) [OF h]
    by (auto simp: hopeless_head_def restart_module_def hopeless_def case_prod_beta)
qed

section \<open>Properties\<close>

text \<open>
  C8. Polling never touches a freeze the supervisor does not hold: over any sequence of polls,
  whatever the modules, restarts and snapshots do, the entries of every other source keep
  their number, order and content.
\<close>

theorem polls_keep_foreign_freezes:
  "foreign_entries (sv_ctl (run poll_step s envs)) = foreign_entries (sv_ctl s)"
  by (rule foreign_freeze.run_inv [OF refl]) (simp add: list_all_iff)

text \<open>
  The supervisor never lifts more freezes than it pushed after the state it starts from:
  once the file holds an entry of its own when a poll begins (a failed restart attempt leaves
  one), the cycle reads as frozen after every later sequence of polls, recoveries included.
\<close>

theorem leftover_own_freeze_stays:
  assumes "0 < own_entries (sv_ctl s)"
  shows "cc_frozen (fst (read_control ts (sv_ctl (run poll_step s envs))))"
proof (rule own_entry_reads_frozen)
  have "own_entries (sv_ctl s) \<le> own_entries (sv_ctl (run poll_step s envs))"
    by (rule own_freeze.run_rank) (simp_all add: list_all_iff)
  with assms show "0 < own_entries (sv_ctl (run poll_step s envs))" by simp
qed

theorem leftover_own_freeze_stays_witness:
  "let s = poll_step (sample_supervisor [sample_dead] []) (sample_env False);
       t = run poll_step s [sample_env True, sample_env True]
   in 0 < own_entries (sv_ctl s) \<and>
      sv_incidents t ''vision'' = None \<and> map_option md_tasks (map_of (sv_registry t) ''vision'') = Some [Running] \<and>
      cc_frozen (fst (read_control ''ts'' (sv_ctl t)))"
proof -
  let ?s = "poll_step (sample_supervisor [sample_dead] []) (sample_env False)"
  let ?t = "run poll_step ?s [sample_env True, sample_env True]"
  have a: "0 < own_entries (sv_ctl ?s)" by code_simp
  have b: "sv_incidents ?t ''vision'' = None" by code_simp
  have c: "map_option md_tasks (map_of (sv_registry ?t) ''vision'') = Some [Running]" by code_simp
  have d: "cc_frozen (fst (read_control ''ts'' (sv_ctl ?t)))"
    by (rule leftover_own_freeze_stays [OF a])
  from a b c d show ?thesis by (simp add: Let_def)
qed

text \<open>
  C13. Restart attempts are bounded: a supervision run that starts without open incidents keeps
  every incident below the configured maximum until it escalates, and the run ends by itself
  only having escalated.
\<close>

theorem restart_attempts_bounded:
  assumes "sv_incidents s = (\<lambda>_. None)" and "supervise es s = (s', stopped)"
  shows "(sv_escalated s' \<or>
      (\<forall>n i. sv_incidents s' n = Some i \<longrightarrow> int (in_attempts i) < sc_max_restart_attempts (sv_config s'))) \<and>
    (stopped \<longrightarrow> sv_escalated s')"
proof -
  have "within_budget s" using assms(1) by (simp add: within_budget_def)
  from supervise_budget [OF this, of es] assms(2) show ?thesis by (simp add: within_budget_def)
qed

theorem restart_attempts_bounded_witness:
  "\<exists>s'. supervise [(sample_env False, False)] (sample_supervisor [sample_dead] []) = (s', False) \<and>
     map_option in_attempts (sv_incidents s' ''vision'') = Some 1 \<and>
     (sv_escalated s' \<or>
      (\<forall>n i. sv_incidents s' n = Some i \<longrightarrow> int (in_attempts i) < sc_max_restart_attempts (sv_config s')))"
proof -
  let ?r = "supervise [(sample_env False, False)] (sample_supervisor [sample_dead] [])"
  have "\<not> snd ?r" by code_simp
  then have r: "?r = (fst ?r, False)" by (cases ?r) auto
  have "map_option in_attempts (sv_incidents (fst ?r) ''vision'') = Some 1" by code_simp
  with restart_attempts_bounded [OF _ r] r show ?thesis
    by (intro exI [of _ "fst ?r"]) (simp add: sample_supervisor_def)
qed



text \<open>
  When a poll stops the loop, the process is told to halt exactly once, the escalation file
  names an escalated module whose attempts reached the maximum, every module of the registry
  was shut down in the shutdown order, and the control file still holds the supervisor's
  freeze.
\<close>

theorem stopping_poll_halts_frozen:
  assumes "poll_once env s = (s', PollStop)"
  shows "\<exists>n a es r. sc_max_restart_attempts (sv_config s) \<le> int a \<and>
     sv_escalated s' \<and> sv_halts s' = Suc (sv_halts s) \<and>
     sv_escalation s' = Doc (PDict (escalation_to_dict es)) \<and> es_escalated es \<and>
     es_module es = PStr n \<and> es_attempts es = int a \<and>
     sv_registry s' = map (\<lambda>(k, m). (k, snd (en_shutdown env m))) r \<and>
     sv_shutdowns s' = sv_shutdowns s @ map md_name (shutdown_order (reg_all_modules r)) \<and>
     cc_frozen (fst (read_control ts (sv_ctl s')))"
  using poll_once_stop [OF assms] own_entry_reads_frozen [of "sv_ctl s'" ts]
  unfolding halted_def write_escalation_def write_json_atomic_def by blast

theorem stopping_poll_halts_frozen_witness:
  "let s = run poll_step (sample_supervisor [sample_dead] []) [sample_env False, sample_env False]
   in \<exists>s'. poll_once (sample_env False) s = (s', PollStop) \<and> sv_halts s' = Suc (sv_halts s) \<and>
        cc_frozen (fst (read_control ''ts'' (sv_ctl s')))"
proof -
  let ?s = "run poll_step (sample_supervisor [sample_dead] []) [sample_env False, sample_env False]"
  let ?r = "poll_once (sample_env False) ?s"
  have "snd ?r = PollStop" by code_simp
  then have r: "?r = (fst ?r, PollStop)" by (cases ?r) auto
  show ?thesis using stopping_poll_halts_frozen [OF r, of "''ts''"] r by (auto simp: Let_def)
qed

end
