(* ===== verification/MaturationGate.thy ===== *)
theory MaturationGate
  imports PyVal
begin

text \<open>
  Models \<open>kaine/lifecycle/maturation_gate.py\<close>: the thresholds and configuration as read from
  TOML, the three readiness conditions over the injected signals, the embodiment guard, the
  maturation decision and the payloads of the stage events. Everything there is pure; the one
  piece of process state, whether the retired key was warned about, is an argument.
\<close>

section \<open>Configuration\<close>

record regulation_thresholds =
  rt_endogenous_self_sustain :: bool
  rt_entrain_then_autonomy :: bool
  rt_hrv_variability_floor :: pyfloat
  rt_stimulus_source_prediction_error_ceiling :: pyfloat
  rt_return_to_baseline_seconds_ceiling :: pyfloat

definition thresholds_from_dict :: "pyval \<Rightarrow> py_exc + regulation_thresholds" where
  "thresholds_from_dict data =
     ebind (if truthy data then dict_of data else Inr []) (\<lambda>d.
     ebind (py_float (dget d ''hrv_variability_floor'' (PFloat (Fin (2 / 100))))) (\<lambda>hrv.
     ebind (py_float (dget d ''stimulus_source_prediction_error_ceiling'' (PFloat (Fin (3 / 10))))) (\<lambda>pe.
     ebind (py_float (dget d ''return_to_baseline_seconds_ceiling'' (PFloat (Fin 30)))) (\<lambda>rtb.
       Inr \<lparr>rt_endogenous_self_sustain = truthy (dget d ''endogenous_self_sustain'' (PBool True)),
            rt_entrain_then_autonomy = truthy (dget d ''entrain_then_autonomy'' (PBool True)),
            rt_hrv_variability_floor = hrv,
            rt_stimulus_source_prediction_error_ceiling = pe,
            rt_return_to_baseline_seconds_ceiling = rtb\<rparr>))))"

record maturation_config =
  mc_enabled :: bool
  mc_min_sleep_cycles :: int
  mc_min_consolidation_passes :: int
  mc_gate_cadence_seconds :: pyfloat
  mc_readout_max_age_cadences :: pyfloat
  mc_require_operator_ack_for_maturation :: bool
  mc_stimulus_source_ready_retry_seconds :: pyfloat
  mc_stimulus_source_check_seconds :: pyfloat
  mc_stimulus_source_loss_after_seconds :: pyfloat
  mc_stimulus_source_arm_timeout_seconds :: pyfloat
  mc_stimulus_source_presence_window_seconds :: pyfloat
  mc_regulation_thresholds :: regulation_thresholds

definition maturation_config_of :: "pydict \<Rightarrow> py_exc + maturation_config" where
  "maturation_config_of d =
     ebind (py_int (dget d ''min_sleep_cycles'' (PInt 5))) (\<lambda>sleeps.
     ebind (py_int (dget d ''min_consolidation_passes'' (PInt 3))) (\<lambda>passes.
     ebind (py_float (dget d ''gate_cadence_seconds'' (PFloat (Fin 60)))) (\<lambda>cadence.
     ebind (py_float (dget d ''readout_max_age_cadences'' (PFloat (Fin 3)))) (\<lambda>max_age.
     ebind (py_float (dget d ''stimulus_source_ready_retry_seconds'' (PFloat (Fin 5)))) (\<lambda>retry.
     ebind (py_float (dget d ''stimulus_source_check_seconds'' (PFloat (Fin 1)))) (\<lambda>check.
     ebind (py_float (dget d ''stimulus_source_loss_after_seconds'' (PFloat (Fin 5)))) (\<lambda>loss.
     ebind (py_float (dget d ''stimulus_source_arm_timeout_seconds'' (PFloat (Fin 120)))) (\<lambda>arm.
     ebind (py_float (dget d ''stimulus_source_presence_window_seconds'' (PFloat (Fin 3)))) (\<lambda>window.
     ebind (thresholds_from_dict (dget d ''regulation_thresholds'' PNone)) (\<lambda>thresholds.
       Inr \<lparr>mc_enabled = truthy (dget d ''enabled'' (PBool False)),
            mc_min_sleep_cycles = sleeps,
            mc_min_consolidation_passes = passes,
            mc_gate_cadence_seconds = cadence,
            mc_readout_max_age_cadences = max_age,
            mc_require_operator_ack_for_maturation =
              truthy (dget d ''require_operator_ack_for_maturation'' (PBool False)),
            mc_stimulus_source_ready_retry_seconds = retry,
            mc_stimulus_source_check_seconds = check,
            mc_stimulus_source_loss_after_seconds = loss,
            mc_stimulus_source_arm_timeout_seconds = arm,
            mc_stimulus_source_presence_window_seconds = window,
            mc_regulation_thresholds = thresholds\<rparr>))))))))))"

text \<open>The second component is whether the retired-key warning has fired.\<close>

definition maturation_config_from_dict ::
  "bool \<Rightarrow> pyval \<Rightarrow> (py_exc + maturation_config) \<times> bool" where
  "maturation_config_from_dict warned data =
     (case (if truthy data then dict_of data else Inr []) of
        Inl e \<Rightarrow> (Inl e, warned)
      | Inr d \<Rightarrow> (maturation_config_of d, warned \<or> map_of d ''min_lived_seconds'' \<noteq> None))"

record faculties =
  fa_sleep :: bool
  fa_world_model :: bool
  fa_embodiment :: bool

definition Faculties :: faculties where
  "Faculties = \<lparr>fa_sleep = True, fa_world_model = True, fa_embodiment = True\<rparr>"

section \<open>Readiness\<close>

record condition_result =
  cr_name :: string
  cr_met :: bool
  cr_detail :: string
  cr_applicable :: bool

definition condition :: "string \<Rightarrow> bool \<Rightarrow> string \<Rightarrow> condition_result" where
  "condition name met detail =
     \<lparr>cr_name = name, cr_met = met, cr_detail = detail, cr_applicable = True\<rparr>"

record readiness =
  rd_c1 :: condition_result
  rd_c2 :: condition_result
  rd_c3 :: condition_result

definition conditions_of :: "readiness \<Rightarrow> condition_result list" where
  "conditions_of r = [rd_c1 r, rd_c2 r, rd_c3 r]"

definition ready :: "readiness \<Rightarrow> bool" where
  "ready r \<longleftrightarrow> cr_met (rd_c1 r) \<and> cr_met (rd_c2 r) \<and> cr_met (rd_c3 r)"

definition unmet :: "readiness \<Rightarrow> string list" where
  "unmet r = map cr_name (filter (\<lambda>c. \<not> cr_met c) (conditions_of r))"

definition passed_markers :: "readiness \<Rightarrow> string list" where
  "passed_markers r = map cr_name (filter (\<lambda>c. cr_met c \<and> cr_applicable c) (conditions_of r))"

definition not_applicable :: "readiness \<Rightarrow> string list" where
  "not_applicable r = map cr_name (filter (\<lambda>c. \<not> cr_applicable c) (conditions_of r))"

fun num :: "pyval \<Rightarrow> py_exc + pyfloat option" where
  "num (PInt n) = ebind (fl_of_int n) (\<lambda>x. Inr (Some x))"
| "num (PFloat x) = Inr (Some x)"
| "num _ = Inr None"

definition C1 :: string where
  "C1 = ''C1_regulation_baseline''"

definition C2 :: string where
  "C2 = ''C2_reality_model_consolidated''"

definition C3 :: string where
  "C3 = ''C3_sensory_schedule_complete''"

definition below :: "pyfloat option \<Rightarrow> pyfloat \<Rightarrow> bool" where
  "below x lower = (case x of None \<Rightarrow> True | Some r \<Rightarrow> fl_less r lower)"

definition above :: "pyfloat option \<Rightarrow> pyfloat \<Rightarrow> bool" where
  "above x upper = (case x of None \<Rightarrow> True | Some r \<Rightarrow> fl_less upper r)"

definition evaluate_c1 ::
  "pydict option \<Rightarrow> regulation_thresholds \<Rightarrow> py_exc + condition_result" where
  "evaluate_c1 readout t =
     (case readout of
        None \<Rightarrow> Inr (condition C1 False ''readout absent/stale'')
      | Some d \<Rightarrow>
          if rt_endogenous_self_sustain t \<and> \<not> truthy (dget d ''endogenous_self_sustain'' PNone)
          then Inr (condition C1 False ''endogenous rhythm not self-sustaining'')
          else if rt_entrain_then_autonomy t \<and> \<not> truthy (dget d ''entrain_then_autonomy'' PNone)
          then Inr (condition C1 False ''entrain-then-autonomy not demonstrated'')
          else
            ebind (num (dget d ''hrv_variability'' PNone)) (\<lambda>hrv.
              if below hrv (rt_hrv_variability_floor t)
              then Inr (condition C1 False ''HRV-analog below floor'')
              else
                ebind (num (dget d ''stimulus_source_prediction_error'' PNone)) (\<lambda>pe.
                  if above pe (rt_stimulus_source_prediction_error_ceiling t)
                  then Inr (condition C1 False ''stimulus source prediction error above ceiling'')
                  else
                    ebind (num (dget d ''return_to_baseline_seconds'' PNone)) (\<lambda>rtb.
                      if above rtb (rt_return_to_baseline_seconds_ceiling t)
                      then Inr (condition C1 False ''return-to-baseline too slow'')
                      else Inr (condition C1 True ''all markers crossed'')))))"

definition show_int_opt :: "int option \<Rightarrow> string" where
  "show_int_opt x = (case x of None \<Rightarrow> ''None'' | Some n \<Rightarrow> show_int n)"

definition fewer :: "int option \<Rightarrow> int \<Rightarrow> bool" where
  "fewer x n = (case x of None \<Rightarrow> True | Some m \<Rightarrow> m < n)"

definition evaluate_c2 ::
  "int option \<Rightarrow> int option \<Rightarrow> maturation_config \<Rightarrow> faculties \<Rightarrow> condition_result" where
  "evaluate_c2 sleep_count consolidation_passes cfg fac =
     (let sleep_required = fa_sleep fac;
          consolidation_required = fa_sleep fac \<and> fa_world_model fac
      in if \<not> sleep_required \<and> \<not> consolidation_required
         then \<lparr>cr_name = C2, cr_met = True,
               cr_detail = ''not applicable: no sleep or consolidation faculty'', cr_applicable = False\<rparr>
         else let required_text =
                (if sleep_required \<and> consolidation_required then ''sleep + consolidation''
                 else if sleep_required then ''sleep'' else ''consolidation'')
              in if sleep_required \<and> fewer sleep_count (mc_min_sleep_cycles cfg)
                 then condition C2 False (''sleep cycles '' @ show_int_opt sleep_count @ '' < '' @
                        show_int (mc_min_sleep_cycles cfg) @ '' ('' @ required_text @ '' required)'')
                 else if consolidation_required \<and> fewer consolidation_passes (mc_min_consolidation_passes cfg)
                 then condition C2 False (''consolidation passes '' @ show_int_opt consolidation_passes @ '' < '' @
                        show_int (mc_min_consolidation_passes cfg) @ '' ('' @ required_text @ '' required)'')
                 else condition C2 True (required_text @ '' required; evidence present''))"

definition evaluate_c3 :: "(int \<times> int) option \<Rightarrow> condition_result" where
  "evaluate_c3 sensory_schedule =
     (case sensory_schedule of
        None \<Rightarrow> condition C3 False
          (''no sensory schedule reading: the hearing schedule runs only with the '' @
           ''local stimulus source, so an external stimulus provider cannot satisfy C3'')
      | Some (stage, final_stage) \<Rightarrow>
          if stage < final_stage
          then condition C3 False (''hearing stage '' @ show_int stage @ '' of '' @ show_int final_stage)
          else condition C3 True ''sensory schedule complete'')"

definition evaluate_readiness ::
  "pydict option \<Rightarrow> int option \<Rightarrow> int option \<Rightarrow> (int \<times> int) option \<Rightarrow> maturation_config \<Rightarrow>
   faculties \<Rightarrow> py_exc + readiness" where
  "evaluate_readiness readout sleep_count consolidation_passes sensory_schedule config fac =
     ebind (evaluate_c1 readout (mc_regulation_thresholds config)) (\<lambda>c1.
       Inr \<lparr>rd_c1 = c1, rd_c2 = evaluate_c2 sleep_count consolidation_passes config fac,
            rd_c3 = evaluate_c3 sensory_schedule\<rparr>)"

section \<open>The decision\<close>

definition embodiment_available :: "bool \<Rightarrow> bool \<Rightarrow> bool \<Rightarrow> bool" where
  "embodiment_available embodiment_enabled operator_approved reachable =
     (embodiment_enabled \<and> operator_approved \<and> reachable)"

datatype maturation_action = Developing | HoldAwaitingEmbodiment | HoldAwaitingAck | Maturation

record maturation_decision =
  dc_action :: maturation_action
  dc_reason :: string
  dc_readiness :: readiness

definition holding :: "maturation_decision \<Rightarrow> bool" where
  "holding d \<longleftrightarrow> dc_action d = HoldAwaitingEmbodiment \<or> dc_action d = HoldAwaitingAck"

fun join :: "string \<Rightarrow> string list \<Rightarrow> string" where
  "join sep [] = []"
| "join sep [x] = x"
| "join sep (x # y # xs) = x @ sep @ join sep (y # xs)"

definition decide_maturation ::
  "readiness \<Rightarrow> bool \<Rightarrow> bool \<Rightarrow> bool \<Rightarrow> faculties \<Rightarrow> maturation_decision" where
  "decide_maturation r embodiment_ready operator_ack require_operator_ack fac =
     (if \<not> ready r
      then \<lparr>dc_action = Developing, dc_reason = ''unmet: '' @ join '','' (unmet r), dc_readiness = r\<rparr>
      else if fa_embodiment fac \<and> \<not> embodiment_ready
      then \<lparr>dc_action = HoldAwaitingEmbodiment, dc_reason = ''awaiting_embodiment'', dc_readiness = r\<rparr>
      else if require_operator_ack \<and> \<not> operator_ack
      then \<lparr>dc_action = HoldAwaitingAck, dc_reason = ''awaiting_operator_ack'', dc_readiness = r\<rparr>
      else \<lparr>dc_action = Maturation,
            dc_reason = (if \<not> fa_embodiment fac then ''born_into_perceptual_world''
                         else ''ready_and_available''),
            dc_readiness = r\<rparr>)"

section \<open>Payloads\<close>

definition strings :: "string list \<Rightarrow> pyval" where
  "strings xs = PList (map PStr xs)"

definition development_started_payload :: "pyval \<Rightarrow> pydict" where
  "development_started_payload started =
     [(''stage'', PStr ''development''), (''development_started_at'', started)]"

definition development_no_stimulus_payload :: pydict where
  "development_no_stimulus_payload =
     [(''stage'', PStr ''development''), (''reason'', PStr ''no_stimulus_source_feed_configured'')]"

definition maturation_ready_payload :: "maturation_decision \<Rightarrow> pydict" where
  "maturation_ready_payload d =
     [(''reason'', PStr (dc_reason d)), (''passed_markers'', strings (passed_markers (dc_readiness d))),
      (''unmet'', strings (unmet (dc_readiness d)))]"

definition maturation_payload :: "readiness \<Rightarrow> pyval \<Rightarrow> pyval \<Rightarrow> faculties \<Rightarrow> pydict" where
  "maturation_payload r sleep_count lived_seconds fac =
     [(''stage'', PStr ''embodied''), (''passed_markers'', strings (passed_markers r)),
      (''not_applicable'', strings (not_applicable r)), (''sleep_count'', sleep_count),
      (''lived_seconds'', lived_seconds),
      (''world'', PStr (if fa_embodiment fac then ''embodied'' else ''perceptual'')),
      (''conditions'', PDict [(''c2_sleep_required'', PBool (fa_sleep fac)),
         (''c2_consolidation_required'', PBool (fa_sleep fac \<and> fa_world_model fac))])]"

section \<open>What readiness means\<close>

lemma condition_simps [simp]:
  "cr_met (condition n m d) = m" "cr_name (condition n m d) = n" "cr_applicable (condition n m d)"
  by (simp_all add: condition_def)

text \<open>The markers of C1, each present and on the right side of its threshold.\<close>

definition markers_crossed :: "pydict \<Rightarrow> regulation_thresholds \<Rightarrow> bool" where
  "markers_crossed d t \<longleftrightarrow>
     (rt_endogenous_self_sustain t \<longrightarrow> truthy (dget d ''endogenous_self_sustain'' PNone)) \<and>
     (rt_entrain_then_autonomy t \<longrightarrow> truthy (dget d ''entrain_then_autonomy'' PNone)) \<and>
     (case num (dget d ''hrv_variability'' PNone) of
        Inr (Some x) \<Rightarrow> \<not> fl_less x (rt_hrv_variability_floor t) | _ \<Rightarrow> False) \<and>
     (case num (dget d ''stimulus_source_prediction_error'' PNone) of
        Inr (Some x) \<Rightarrow> \<not> fl_less (rt_stimulus_source_prediction_error_ceiling t) x | _ \<Rightarrow> False) \<and>
     (case num (dget d ''return_to_baseline_seconds'' PNone) of
        Inr (Some x) \<Rightarrow> \<not> fl_less (rt_return_to_baseline_seconds_ceiling t) x | _ \<Rightarrow> False)"

lemma c1_chain:
  assumes "(if a then Inr (condition n False d1) else if b then Inr (condition n False d2)
     else ebind m1 (\<lambda>x. if below x b1 then Inr (condition n False d3)
       else ebind m2 (\<lambda>y. if above y b2 then Inr (condition n False d4)
         else ebind m3 (\<lambda>z. if above z b3 then Inr (condition n False d5)
           else Inr (condition n True d6))))) = Inr c"
  shows "cr_met c \<longleftrightarrow> \<not> a \<and> \<not> b \<and>
     (case m1 of Inr (Some x) \<Rightarrow> \<not> fl_less x b1 | _ \<Rightarrow> False) \<and>
     (case m2 of Inr (Some x) \<Rightarrow> \<not> fl_less b2 x | _ \<Rightarrow> False) \<and>
     (case m3 of Inr (Some x) \<Rightarrow> \<not> fl_less b3 x | _ \<Rightarrow> False)"
proof -
  consider "a" | "\<not> a" "b" | e where "\<not> a" "\<not> b" "m1 = Inl e" | x where "\<not> a" "\<not> b" "m1 = Inr x" by (cases m1) blast+
  then show ?thesis
  proof cases
    case (4 x)
    show ?thesis
    proof (cases "below x b1")
      case False
      with 4 assms have "ebind m2 (\<lambda>y. if above y b2 then Inr (condition n False d4)
         else ebind m3 (\<lambda>z. if above z b3 then Inr (condition n False d5)
           else Inr (condition n True d6))) = Inr c" by simp
      then show ?thesis using 4 False
        by (cases m2; cases m3) (auto simp: above_def below_def split: if_splits option.splits)
    qed (use 4 assms in \<open>auto simp: below_def split: option.splits\<close>)
  qed (use assms in auto)
qed

lemma c1_met_iff:
  assumes "evaluate_c1 readout t = Inr c"
  shows "cr_met c \<longleftrightarrow> (\<exists>d. readout = Some d \<and> markers_crossed d t)"
proof (cases readout)
  case None
  with assms show ?thesis by (auto simp: evaluate_c1_def)
next
  case (Some d)
  have "cr_met c \<longleftrightarrow> markers_crossed d t"
    using c1_chain [OF assms [unfolded evaluate_c1_def Some option.case]]
    unfolding markers_crossed_def by blast
  with Some show ?thesis by simp
qed

lemma c2_met_iff:
  "cr_met (evaluate_c2 n p cfg fac) \<longleftrightarrow>
     (fa_sleep fac \<longrightarrow> (\<exists>k. n = Some k \<and> mc_min_sleep_cycles cfg \<le> k)) \<and>
     (fa_sleep fac \<and> fa_world_model fac \<longrightarrow> (\<exists>k. p = Some k \<and> mc_min_consolidation_passes cfg \<le> k))"
  by (auto simp: evaluate_c2_def Let_def fewer_def split: option.splits)

lemma c3_met_iff: "cr_met (evaluate_c3 s) \<longleftrightarrow> (\<exists>st fs. s = Some (st, fs) \<and> fs \<le> st)"
  by (auto simp: evaluate_c3_def split: option.splits)

lemma ready_iff:
  assumes "evaluate_readiness ro n p s cfg fac = Inr r"
  shows "ready r \<longleftrightarrow>
    (\<exists>d. ro = Some d \<and> markers_crossed d (mc_regulation_thresholds cfg)) \<and>
    (fa_sleep fac \<longrightarrow> (\<exists>k. n = Some k \<and> mc_min_sleep_cycles cfg \<le> k)) \<and>
    (fa_sleep fac \<and> fa_world_model fac \<longrightarrow> (\<exists>k. p = Some k \<and> mc_min_consolidation_passes cfg \<le> k)) \<and>
    (\<exists>st fs. s = Some (st, fs) \<and> fs \<le> st)"
proof -
  from assms obtain c where c: "evaluate_c1 ro (mc_regulation_thresholds cfg) = Inr c"
    and r: "r = \<lparr>rd_c1 = c, rd_c2 = evaluate_c2 n p cfg fac, rd_c3 = evaluate_c3 s\<rparr>"
    by (auto simp: evaluate_readiness_def)
  show ?thesis by (simp add: r ready_def c1_met_iff [OF c] c2_met_iff c3_met_iff conj_assoc)
qed

lemma ready_unmet: "ready r \<longleftrightarrow> unmet r = []"
  by (auto simp: ready_def unmet_def conditions_of_def)

lemma decide_maturation_iff:
  "dc_action (decide_maturation r er ack req fac) = Maturation \<longleftrightarrow>
     ready r \<and> (fa_embodiment fac \<longrightarrow> er) \<and> (req \<longrightarrow> ack)"
  by (simp add: decide_maturation_def)

section \<open>Concrete signals\<close>

definition sample_maturation_config :: maturation_config where
  "sample_maturation_config =
     (case maturation_config_of [] of Inr c \<Rightarrow> c | Inl _ \<Rightarrow> undefined)"

lemma sample_maturation_config:
  "maturation_config_of [] = Inr sample_maturation_config"
  by (simp add: sample_maturation_config_def maturation_config_of_def thresholds_from_dict_def)

definition sample_readout :: "pyfloat \<Rightarrow> pydict" where
  "sample_readout x =
     [(''endogenous_self_sustain'', PBool True), (''entrain_then_autonomy'', PBool True),
      (''hrv_variability'', PFloat x), (''stimulus_source_prediction_error'', PFloat x),
      (''return_to_baseline_seconds'', PFloat x)]"

section \<open>Properties\<close>



text \<open>
  More evidence never takes readiness back: a readout that made the entity ready keeps it
  ready with more sleeps, more consolidation passes and a later hearing stage.
\<close>

theorem readiness_monotone:
  assumes "evaluate_readiness ro (Some n) (Some p) (Some (st, fs)) cfg fac = Inr r" and "ready r"
    and "n \<le> n'" and "p \<le> p'" and "st \<le> st'"
  shows "\<exists>r'. evaluate_readiness ro (Some n') (Some p') (Some (st', fs)) cfg fac = Inr r' \<and> ready r'"
proof -
  obtain c where c: "evaluate_c1 ro (mc_regulation_thresholds cfg) = Inr c"
    using assms(1) by (auto simp: evaluate_readiness_def)
  then obtain r' where r': "evaluate_readiness ro (Some n') (Some p') (Some (st', fs)) cfg fac = Inr r'"
    by (simp add: evaluate_readiness_def)
  have "ready r'"
    using assms(2-5) unfolding ready_iff [OF assms(1)] ready_iff [OF r'] by auto
  with r' show ?thesis by blast
qed

theorem readiness_monotone_witness:
  "\<exists>r'. evaluate_readiness (Some (sample_readout (Fin (1 / 10)))) (Some 9) (Some 4) (Some (3, 2))
      sample_maturation_config Faculties = Inr r' \<and> ready r'"
proof (rule readiness_monotone [where n = 5 and p = 3 and st = 2])
  let ?c = "condition C1 True ''all markers crossed''"
  let ?r = "\<lparr>rd_c1 = ?c, rd_c2 = evaluate_c2 (Some 5) (Some 3) sample_maturation_config Faculties,
    rd_c3 = evaluate_c3 (Some (2, 2))\<rparr>"
  show "evaluate_readiness (Some (sample_readout (Fin (1 / 10)))) (Some 5) (Some 3) (Some (2, 2))
      sample_maturation_config Faculties = Inr ?r"
    by (simp add: evaluate_readiness_def evaluate_c1_def sample_readout_def below_def above_def
        sample_maturation_config_def maturation_config_of_def thresholds_from_dict_def)
  show "ready ?r"
    by (simp add: ready_def c2_met_iff c3_met_iff sample_maturation_config_def
        maturation_config_of_def thresholds_from_dict_def)
qed simp_all

text \<open>
  The reading of the numeric markers is not fail-closed on NaN: a readout whose three numbers
  are NaN meets C1 under every threshold, since a comparison with NaN is false.
\<close>

theorem nan_markers_meet_c1:
  "\<exists>c. evaluate_c1 (Some (sample_readout NaN)) t = Inr c \<and> cr_met c"
  by (simp add: evaluate_c1_def sample_readout_def below_def above_def)

end
