(* ===== verification/Stage.thy ===== *)
theory Stage
  imports ControlState
begin

text \<open>
  Models \<open>kaine/lifecycle/stage.py\<close>: the persisted developmental stage, its defensive coercions,
  the boot resolution and the one-way maturation. A stage file is a \<open>jfile\<close>; a path whose
  existence cannot be checked is a flag beside it. The legacy field renames come from
  \<open>kaine/legacy_names.py\<close> and \<open>kaine/legacy_aliases.py\<close>. Whether the entity has lived before
  (a scan of other files) and the current time are arguments.
\<close>

section \<open>The stages\<close>

datatype dev_stage = Development | Embodied

instantiation dev_stage :: linorder
begin

definition less_eq_dev_stage :: "dev_stage \<Rightarrow> dev_stage \<Rightarrow> bool" where
  "less_eq_dev_stage a b \<longleftrightarrow> a = Development \<or> b = Embodied"

definition less_dev_stage :: "dev_stage \<Rightarrow> dev_stage \<Rightarrow> bool" where
  "less_dev_stage a b \<longleftrightarrow> a = Development \<and> b = Embodied"

instance
proof
  fix x y z :: dev_stage
  show "x < y \<longleftrightarrow> x \<le> y \<and> \<not> y \<le> x" and "x \<le> x" and "x \<le> y \<or> y \<le> x"
    by (cases x; cases y; simp add: less_eq_dev_stage_def less_dev_stage_def)+
  show "x \<le> z" if "x \<le> y" "y \<le> z"
    using that by (auto simp: less_eq_dev_stage_def)
  show "x = y" if "x \<le> y" "y \<le> x"
    using that by (auto simp: less_eq_dev_stage_def)
qed

end

fun stage_name :: "dev_stage \<Rightarrow> string" where
  "stage_name Development = ''development''"
| "stage_name Embodied = ''embodied''"

record stage_state =
  ss_stage :: dev_stage
  ss_development_started_at :: pyval
  ss_born_at :: pyval
  ss_lived_seconds :: real
  ss_sleep_count :: int
  ss_sleep_cursor :: "string option"
  ss_stimulus_source_t_at_maturation :: "real option"
  ss_stimulus_source_seed :: "int option"
  ss_stimulus_source_params_digest :: "string option"
  ss_maturation_bloom_ends_at :: "string option"
  ss_stimulus_source_seconds :: "real option"

definition StageState :: "dev_stage \<Rightarrow> stage_state" where
  "StageState st = \<lparr>ss_stage = st, ss_development_started_at = PNone, ss_born_at = PNone,
     ss_lived_seconds = 0, ss_sleep_count = 0, ss_sleep_cursor = None,
     ss_stimulus_source_t_at_maturation = None, ss_stimulus_source_seed = None,
     ss_stimulus_source_params_digest = None, ss_maturation_bloom_ends_at = None,
     ss_stimulus_source_seconds = None\<rparr>"

section \<open>Coercions\<close>

definition coerce_stage :: "pyval \<Rightarrow> py_exc + dev_stage" where
  "coerce_stage v =
     (case v of
        PStr s \<Rightarrow>
          (let t = rename_with legacy_stage_values s
           in if t = ''development'' then Inr Development
              else if t = ''embodied'' then Inr Embodied else Inl StageValueError)
      | _ \<Rightarrow> Inl StageValueError)"

text \<open>\<open>float(value)\<close> under \<open>except (TypeError, ValueError)\<close>, then finite and not negative.\<close>

definition coerce_seconds :: "pyval \<Rightarrow> py_exc + real option" where
  "coerce_seconds v =
     (case v of
        PBool _ \<Rightarrow> Inr None
      | _ \<Rightarrow>
        (case py_float v of
           Inl e \<Rightarrow> if e = TypeError \<or> e = ValueError then Inr None else Inl e
         | Inr (Fin r) \<Rightarrow> if r < 0 then Inr None else Inr (Some r)
         | Inr _ \<Rightarrow> Inr None))"

definition coerce_lived_seconds :: "pyval \<Rightarrow> py_exc + real" where
  "coerce_lived_seconds v =
     ebind (coerce_seconds v) (\<lambda>x. Inr (case x of None \<Rightarrow> 0 | Some r \<Rightarrow> r))"

definition coerce_stimulus_source_t_at_maturation :: "pyval \<Rightarrow> py_exc + real option" where
  "coerce_stimulus_source_t_at_maturation v = coerce_seconds v"

definition coerce_stimulus_source_seconds :: "pyval \<Rightarrow> py_exc + real option" where
  "coerce_stimulus_source_seconds v = coerce_seconds v"

fun coerce_sleep_count :: "pyval \<Rightarrow> int" where
  "coerce_sleep_count (PInt n) = (if n < 0 then 0 else n)"
| "coerce_sleep_count _ = 0"

text \<open>The pattern \<open>\d+-\d+\<close> over the whole string.\<close>

definition is_cursor :: "string \<Rightarrow> bool" where
  "is_cursor s \<longleftrightarrow>
     (let a = takeWhile is_digit s; r = dropWhile is_digit s
      in a \<noteq> [] \<and> r \<noteq> [] \<and> hd r = CHR ''-'' \<and> tl r \<noteq> [] \<and> list_all is_digit (tl r))"

fun coerce_sleep_cursor :: "pyval \<Rightarrow> string option" where
  "coerce_sleep_cursor (PStr s) = (if is_cursor s then Some s else None)"
| "coerce_sleep_cursor _ = None"

fun coerce_stimulus_source_seed :: "pyval \<Rightarrow> int option" where
  "coerce_stimulus_source_seed (PInt n) = Some n"
| "coerce_stimulus_source_seed _ = None"

definition is_hex :: "char \<Rightarrow> bool" where
  "is_hex c \<longleftrightarrow> is_digit c \<or> (let n = of_char c :: nat in 97 \<le> n \<and> n \<le> 102)"

definition is_digest :: "string \<Rightarrow> bool" where
  "is_digest s \<longleftrightarrow> length s = 64 \<and> list_all is_hex s"

fun coerce_stimulus_source_params_digest :: "pyval \<Rightarrow> string option" where
  "coerce_stimulus_source_params_digest (PStr s) = (if is_digest s then Some s else None)"
| "coerce_stimulus_source_params_digest _ = None"

fun coerce_maturation_bloom_ends_at :: "pyval \<Rightarrow> string option" where
  "coerce_maturation_bloom_ends_at (PStr s) = Some s"
| "coerce_maturation_bloom_ends_at _ = None"

section \<open>The record and its file\<close>

definition legacy_stage_fields :: "(string \<times> string) list" where
  "legacy_stage_fields =
     [(''gestation_started_at'', ''development_started_at''),
      (''womb_t_at_birth'', ''stimulus_source_t_at_maturation''),
      (''womb_seed'', ''stimulus_source_seed''),
      (''womb_params_digest'', ''stimulus_source_params_digest''),
      (''birth_bloom_ends_at'', ''maturation_bloom_ends_at''),
      (''hypnos_cursor'', ''sleep_cursor'')]"

fun map_stage_field :: "string \<times> pyval \<Rightarrow> string \<times> pyval" where
  "map_stage_field (k, PStr s) =
     (k, PStr (if k = ''stage'' then rename_with legacy_stage_values s else s))"
| "map_stage_field (k, v) = (k, v)"

definition map_stage_record :: "pydict \<Rightarrow> pydict" where
  "map_stage_record d =
     foldl (\<lambda>res (k, v). case map_of legacy_stage_fields k of
                None \<Rightarrow> res
              | Some k' \<Rightarrow> if k' \<in> set (map fst res) then res else res @ [(k', v)])
       (map map_stage_field (filter (\<lambda>(k, _). map_of legacy_stage_fields k = None) d)) d"

definition opt_val :: "('a \<Rightarrow> pyval) \<Rightarrow> 'a option \<Rightarrow> pyval" where
  "opt_val f x = (case x of None \<Rightarrow> PNone | Some y \<Rightarrow> f y)"

definition stage_to_dict :: "stage_state \<Rightarrow> pydict" where
  "stage_to_dict s =
     [(''stage'', PStr (stage_name (ss_stage s))),
      (''development_started_at'', ss_development_started_at s),
      (''born_at'', ss_born_at s),
      (''lived_seconds'', PFloat (Fin (ss_lived_seconds s))),
      (''sleep_count'', PInt (ss_sleep_count s)),
      (''sleep_cursor'', opt_val PStr (ss_sleep_cursor s)),
      (''stimulus_source_t_at_maturation'', opt_val (\<lambda>r. PFloat (Fin r)) (ss_stimulus_source_t_at_maturation s)),
      (''stimulus_source_seed'', opt_val PInt (ss_stimulus_source_seed s)),
      (''stimulus_source_params_digest'', opt_val PStr (ss_stimulus_source_params_digest s)),
      (''maturation_bloom_ends_at'', opt_val PStr (ss_maturation_bloom_ends_at s)),
      (''stimulus_source_seconds'', opt_val (\<lambda>r. PFloat (Fin r)) (ss_stimulus_source_seconds s))]"

definition stage_from_record :: "pydict \<Rightarrow> py_exc + stage_state" where
  "stage_from_record d =
     ebind (case map_of d ''stage'' of None \<Rightarrow> Inr Development | Some v \<Rightarrow> coerce_stage v) (\<lambda>st.
     ebind (coerce_lived_seconds (dget d ''lived_seconds'' (PFloat (Fin 0)))) (\<lambda>lived.
     ebind (coerce_stimulus_source_t_at_maturation (dget d ''stimulus_source_t_at_maturation'' PNone)) (\<lambda>tm.
     ebind (coerce_stimulus_source_seconds (dget d ''stimulus_source_seconds'' PNone)) (\<lambda>secs.
       Inr \<lparr>ss_stage = st,
            ss_development_started_at = dget d ''development_started_at'' PNone,
            ss_born_at = dget d ''born_at'' PNone,
            ss_lived_seconds = lived,
            ss_sleep_count = coerce_sleep_count (dget d ''sleep_count'' (PInt 0)),
            ss_sleep_cursor = coerce_sleep_cursor (dget d ''sleep_cursor'' PNone),
            ss_stimulus_source_t_at_maturation = tm,
            ss_stimulus_source_seed = coerce_stimulus_source_seed (dget d ''stimulus_source_seed'' PNone),
            ss_stimulus_source_params_digest =
              coerce_stimulus_source_params_digest (dget d ''stimulus_source_params_digest'' PNone),
            ss_maturation_bloom_ends_at =
              coerce_maturation_bloom_ends_at (dget d ''maturation_bloom_ends_at'' PNone),
            ss_stimulus_source_seconds = secs\<rparr>))))"

fun stage_from_dict :: "pyval \<Rightarrow> py_exc + stage_state" where
  "stage_from_dict PNone = stage_from_record (map_stage_record [])"
| "stage_from_dict (PDict d) = stage_from_record (map_stage_record d)"
| "stage_from_dict _ = Inl StageValueError"

definition read_stage :: "bool \<Rightarrow> jfile \<Rightarrow> py_exc + stage_state option" where
  "read_stage exists_fails target =
     (if exists_fails then Inr (Some (StageState Embodied))
      else case target of
             Absent \<Rightarrow> Inr None
           | Unreadable \<Rightarrow> Inr (Some (StageState Embodied))
           | Doc data \<Rightarrow>
               if \<not> is_dict data then Inl StageValueError
               else (case stage_from_dict data of
                       Inr s \<Rightarrow> Inr (Some s)
                     | Inl e \<Rightarrow> if e = ValueError \<or> e = TypeError then Inr (Some (StageState Embodied))
                               else Inl e))"

definition write_stage :: "stage_state \<Rightarrow> jfile \<Rightarrow> jfile" where
  "write_stage s target = write_json_atomic target (PDict (stage_to_dict s))"

section \<open>Boot and maturation\<close>

text \<open>\<open>now_iso or _now_iso()\<close>\<close>

definition or_now :: "string option \<Rightarrow> string \<Rightarrow> pyval" where
  "or_now now_iso clock = (case now_iso of Some t \<Rightarrow> PStr (if t = [] then clock else t) | None \<Rightarrow> PStr clock)"

definition resolve_boot_stage ::
  "bool \<Rightarrow> bool \<Rightarrow> jfile \<Rightarrow> string option \<Rightarrow> string \<Rightarrow> py_exc + stage_state" where
  "resolve_boot_stage has_prior_lived_history exists_fails path now_iso clock =
     ebind (read_stage exists_fails path) (\<lambda>existing.
       case existing of
         Some s \<Rightarrow> Inr s
       | None \<Rightarrow>
           if has_prior_lived_history then Inr (StageState Embodied)
           else Inr ((StageState Development)\<lparr>ss_development_started_at := or_now now_iso clock\<rparr>))"

definition is_developing :: "stage_state \<Rightarrow> bool" where
  "is_developing s \<longleftrightarrow> ss_stage s = Development"

definition is_embodied :: "stage_state \<Rightarrow> bool" where
  "is_embodied s \<longleftrightarrow> ss_stage s = Embodied"

definition advance_to_embodied :: "stage_state \<Rightarrow> string option \<Rightarrow> string \<Rightarrow> stage_state" where
  "advance_to_embodied s now_iso clock =
     (if is_embodied s then s else s\<lparr>ss_stage := Embodied, ss_born_at := or_now now_iso clock\<rparr>)"

definition maturation_is_new :: "stage_state \<Rightarrow> stage_state \<Rightarrow> bool" where
  "maturation_is_new before after \<longleftrightarrow> is_developing before \<and> is_embodied after"

definition record_maturation_stimulus_source ::
  "stage_state \<Rightarrow> real option \<Rightarrow> int option \<Rightarrow> string option \<Rightarrow> string option \<Rightarrow> py_exc + stage_state" where
  "record_maturation_stimulus_source s t seed digest bloom =
     (if \<not> is_embodied s then Inl ValueError
      else Inr (s\<lparr>ss_stimulus_source_t_at_maturation := t, ss_stimulus_source_seed := seed,
                  ss_stimulus_source_params_digest := digest, ss_maturation_bloom_ends_at := bloom\<rparr>))"

section \<open>Well-formed records\<close>

text \<open>What every coercion guarantees of the record it builds.\<close>

definition stage_wf :: "stage_state \<Rightarrow> bool" where
  "stage_wf s \<longleftrightarrow>
     0 \<le> ss_lived_seconds s \<and> 0 \<le> ss_sleep_count s \<and>
     (case ss_sleep_cursor s of None \<Rightarrow> True | Some c \<Rightarrow> is_cursor c) \<and>
     (case ss_stimulus_source_t_at_maturation s of None \<Rightarrow> True | Some t \<Rightarrow> 0 \<le> t) \<and>
     (case ss_stimulus_source_params_digest s of None \<Rightarrow> True | Some d \<Rightarrow> is_digest d) \<and>
     (case ss_stimulus_source_seconds s of None \<Rightarrow> True | Some t \<Rightarrow> 0 \<le> t)"

lemma coerce_seconds_nonneg: "coerce_seconds v = Inr (Some r) \<Longrightarrow> 0 \<le> r"
  by (auto simp: coerce_seconds_def split: pyval.splits sum.splits pyfloat.splits if_splits)

lemma coerce_lived_nonneg: "coerce_lived_seconds v = Inr r \<Longrightarrow> 0 \<le> r"
  by (auto simp: coerce_lived_seconds_def coerce_seconds_nonneg split: option.splits)

lemma coerce_sleep_count_nonneg: "0 \<le> coerce_sleep_count v"
  by (cases v rule: coerce_sleep_count.cases) auto

lemma coerce_cursor_ok: "coerce_sleep_cursor v = Some c \<Longrightarrow> is_cursor c"
  by (cases v rule: coerce_sleep_cursor.cases) (auto split: if_splits)

lemma coerce_digest_ok: "coerce_stimulus_source_params_digest v = Some c \<Longrightarrow> is_digest c"
  by (cases v rule: coerce_stimulus_source_params_digest.cases) (auto split: if_splits)

lemmas coercion_bounds = coerce_seconds_nonneg coerce_lived_nonneg coerce_sleep_count_nonneg
  coerce_cursor_ok coerce_digest_ok

lemma stage_from_record_wf: "stage_from_record d = Inr s \<Longrightarrow> stage_wf s"
  by (auto simp: stage_from_record_def stage_wf_def coercion_bounds coerce_stimulus_source_seconds_def
      coerce_stimulus_source_t_at_maturation_def split: option.splits)

lemma stage_from_dict_wf: "stage_from_dict v = Inr s \<Longrightarrow> stage_wf s"
  by (cases v rule: stage_from_dict.cases) (auto intro: stage_from_record_wf)

lemma StageState_wf [simp]: "stage_wf (StageState st)"
  by (simp add: StageState_def stage_wf_def)

lemma StageState_embodied [simp]: "is_embodied (StageState Embodied)"
  by (simp add: StageState_def is_embodied_def)

lemma read_stage_wf: "read_stage u f = Inr (Some s) \<Longrightarrow> stage_wf s"
  by (auto simp: read_stage_def split: if_splits jfile.splits sum.splits intro: stage_from_dict_wf)

section \<open>Reading back\<close>

lemma coerce_seconds_float [simp]: "0 \<le> r \<Longrightarrow> coerce_seconds (PFloat (Fin r)) = Inr (Some r)"
  and coerce_seconds_none [simp]: "coerce_seconds PNone = Inr None"
  by (simp_all add: coerce_seconds_def)

lemma map_stage_record_new:
  assumes "list_all (\<lambda>(k, _). map_of legacy_stage_fields k = None) d"
  shows "map_stage_record d = map map_stage_field d"
proof -
  have 1: "filter (\<lambda>(k, _). map_of legacy_stage_fields k = None) d = d"
    using assms by (simp add: list_all_iff filter_id_conv)
  have "foldl (\<lambda>res (k, v). case map_of legacy_stage_fields k of None \<Rightarrow> res
          | Some k' \<Rightarrow> if k' \<in> set (map fst res) then res else res @ [(k', v)]) res d = res" for res
    using assms by (induction d arbitrary: res) auto
  with 1 show ?thesis unfolding map_stage_record_def by simp
qed

lemma map_stage_field_other: "k \<noteq> ''stage'' \<Longrightarrow> map_stage_field (k, v) = (k, v)"
  by (cases v) auto

lemma map_stage_record_to_dict: "map_stage_record (stage_to_dict s) = stage_to_dict s"
proof -
  have "rename_with legacy_stage_values (stage_name st) = stage_name st" for st
    by (cases st) (simp_all add: rename_with_def legacy_stage_values_def)
  then have "map map_stage_field (stage_to_dict s) = stage_to_dict s"
    by (simp add: stage_to_dict_def map_stage_field_other)
  moreover have "list_all (\<lambda>(k, _). map_of legacy_stage_fields k = None) (stage_to_dict s)"
    by (simp add: stage_to_dict_def legacy_stage_fields_def)
  ultimately show ?thesis by (simp add: map_stage_record_new)
qed

lemma coerce_stage_name [simp]: "coerce_stage (PStr (stage_name st)) = Inr st"
  by (cases st) (simp_all add: coerce_stage_def rename_with_def legacy_stage_values_def)

lemma stage_from_to_dict:
  assumes "stage_wf s"
  shows "stage_from_dict (PDict (stage_to_dict s)) = Inr s"
proof -
  have secs: "coerce_seconds (opt_val (\<lambda>r. PFloat (Fin r)) x) = Inr x"
    if "case x of None \<Rightarrow> True | Some t \<Rightarrow> 0 \<le> t" for x
    using that by (cases x) (simp_all add: opt_val_def)
  have cur: "coerce_sleep_cursor (opt_val PStr x) = x" if "case x of None \<Rightarrow> True | Some t \<Rightarrow> is_cursor t" for x
    using that by (cases x) (simp_all add: opt_val_def)
  have dig: "coerce_stimulus_source_params_digest (opt_val PStr x) = x"
    if "case x of None \<Rightarrow> True | Some t \<Rightarrow> is_digest t" for x
    using that by (cases x) (simp_all add: opt_val_def)
  have bloom: "coerce_maturation_bloom_ends_at (opt_val PStr x) = x" for x
    by (cases x) (simp_all add: opt_val_def)
  have seed: "coerce_stimulus_source_seed (opt_val PInt x) = x" for x
    by (cases x) (simp_all add: opt_val_def)
  show ?thesis
    using assms unfolding stage_wf_def
    by (simp add: map_stage_record_to_dict)
      (simp add: stage_from_record_def stage_to_dict_def coerce_lived_seconds_def bloom seed secs cur dig
        coerce_stimulus_source_seconds_def coerce_stimulus_source_t_at_maturation_def)
qed

lemma read_written_stage: "stage_wf s \<Longrightarrow> read_stage False (write_stage s f) = Inr (Some s)"
  using stage_from_to_dict by (simp add: read_stage_def write_stage_def write_json_atomic_def)

section \<open>A life of the stage file\<close>

text \<open>
  What touches the file over an entity's life: a boot (with what it finds of a prior life and
  whether the path can be checked) that persists the resolved stage, the maturation, and the
  record of the stimulus source taken after it.
\<close>

datatype stage_op =
    StageBoot bool bool "string option" string
  | Mature "string option" string
  | RecordSource "real option" "int option" "string option" "string option"

fun stage_step :: "jfile \<Rightarrow> stage_op \<Rightarrow> jfile" where
  "stage_step f (StageBoot prior u now_iso clock) =
     (case resolve_boot_stage prior u f now_iso clock of Inl _ \<Rightarrow> f | Inr s \<Rightarrow> write_stage s f)"
| "stage_step f (Mature now_iso clock) =
     (case read_stage False f of
        Inr (Some s) \<Rightarrow> write_stage (advance_to_embodied s now_iso clock) f
      | _ \<Rightarrow> f)"
| "stage_step f (RecordSource t seed digest bloom) =
     (case read_stage False f of
        Inr (Some s) \<Rightarrow>
          (case record_maturation_stimulus_source s t seed digest bloom of
             Inl _ \<Rightarrow> f | Inr s' \<Rightarrow> write_stage s' f)
      | _ \<Rightarrow> f)"

definition clean_record :: "stage_op \<Rightarrow> bool" where
  "clean_record x = (case x of
     RecordSource t _ digest _ \<Rightarrow>
       (case t of None \<Rightarrow> True | Some r \<Rightarrow> 0 \<le> r) \<and> (case digest of None \<Rightarrow> True | Some d \<Rightarrow> is_digest d)
   | _ \<Rightarrow> True)"

definition reads_embodied :: "jfile \<Rightarrow> bool" where
  "reads_embodied f \<longleftrightarrow> (\<exists>s. read_stage False f = Inr (Some s) \<and> is_embodied s)"

lemma advance_wf: "stage_wf s \<Longrightarrow> stage_wf (advance_to_embodied s n c)"
  by (simp add: advance_to_embodied_def stage_wf_def)

lemma record_wf:
  "stage_wf s \<Longrightarrow> clean_record (RecordSource t seed digest bloom) \<Longrightarrow>
   record_maturation_stimulus_source s t seed digest bloom = Inr s' \<Longrightarrow> stage_wf s' \<and> is_embodied s'"
  by (auto simp: record_maturation_stimulus_source_def stage_wf_def clean_record_def is_embodied_def
      split: if_splits)

lemma written_embodied: "stage_wf s \<Longrightarrow> is_embodied s \<Longrightarrow> reads_embodied (write_stage s f)"
  by (auto simp: reads_embodied_def read_written_stage)

interpretation stage_life: machine stage_step clean_record reads_embodied
proof
  fix f x assume e: "reads_embodied f" and ok: "clean_record x"
  from e obtain s where s: "read_stage False f = Inr (Some s)" "is_embodied s"
    by (auto simp: reads_embodied_def)
  have wf: "stage_wf s" by (rule read_stage_wf [OF s(1)])
  show "reads_embodied (stage_step f x)"
  proof (cases x)
    case (StageBoot prior u now_iso clock)
    have "resolve_boot_stage prior u f now_iso clock = Inr (if u then StageState Embodied else s)"
      using s by (simp add: resolve_boot_stage_def) (simp add: read_stage_def)
    with StageBoot wf s(2) show ?thesis
      by (simp add: written_embodied)
  next
    case (Mature now_iso clock)
    with s wf show ?thesis
      by (simp add: written_embodied advance_wf) (simp add: written_embodied advance_to_embodied_def)
  next
    case (RecordSource t seed digest bloom)
    with s e record_wf [OF wf] ok show ?thesis
      by (auto split: sum.split intro: written_embodied)
  qed
qed

lemma developing_source:
  assumes "stage_from_dict (PDict d) = Inr s" and "is_developing s"
  shows "case map_of (map_stage_record d) ''stage'' of
    None \<Rightarrow> True | Some v \<Rightarrow> v = PStr ''development'' \<or> v = PStr ''gestation''"
  using assms
  by (auto simp: stage_from_record_def coerce_stage_def is_developing_def rename_with_def
      legacy_stage_values_def Let_def split: option.splits pyval.splits if_splits)

section \<open>Properties\<close>

text \<open>
  C32. Maturation is one way: once the stage file reads as embodied it reads as embodied after
  every sequence of boots, with any lived history and even when the path cannot be checked,
  maturations and recordings.
\<close>

theorem embodied_is_final:
  assumes "reads_embodied f" and "list_all clean_record ops"
  shows "reads_embodied (run stage_step f ops)"
  using assms by (rule stage_life.run_inv)

theorem embodied_is_final_witness:
  "reads_embodied (run stage_step Unreadable
     [StageBoot False False None ''now'', Mature None ''later'', RecordSource (Some 3) None None None,
      StageBoot False False None ''now''])"
  by (rule embodied_is_final)
    (simp_all add: reads_embodied_def read_stage_def clean_record_def)

text \<open>
  The boot fails safe: it resolves to the developmental phase only for a fresh entity without
  a stage file, or for a file that is readable, holds an object and says so (or leaves the
  stage out).
\<close>

theorem boot_develops_only_on_evidence:
  assumes "resolve_boot_stage prior exists_fails f now_iso clock = Inr s" and "is_developing s"
  shows "\<not> exists_fails \<and>
    (f = Absent \<and> \<not> prior \<or>
     (\<exists>d. f = Doc (PDict d) \<and>
        (case map_of (map_stage_record d) ''stage'' of
           None \<Rightarrow> True | Some v \<Rightarrow> v = PStr ''development'' \<or> v = PStr ''gestation'')))"
proof (cases f)
  case (Doc v)
  show ?thesis
  proof (cases v)
    case (PDict d)
    from assms Doc PDict have "\<not> exists_fails" "stage_from_dict (PDict d) = Inr s"
      by (auto simp: resolve_boot_stage_def read_stage_def is_developing_def StageState_def
          split: if_splits sum.splits)
    with developing_source [OF _ assms(2), of d] Doc PDict show ?thesis by auto
  qed (use assms Doc in \<open>auto simp: resolve_boot_stage_def read_stage_def is_developing_def StageState_def
        split: if_splits\<close>)
qed (use assms in \<open>auto simp: resolve_boot_stage_def read_stage_def is_developing_def StageState_def
      split: if_splits\<close>)

theorem boot_develops_only_on_evidence_witness:
  "\<exists>s. resolve_boot_stage True False (Doc (PDict [(''stage'', PStr ''gestation'')])) None ''now'' = Inr s \<and>
     is_developing s \<and> (Doc (PDict [(''stage'', PStr ''gestation'')]) \<noteq> Absent)"
proof -
  let ?f = "Doc (PDict [(''stage'', PStr ''gestation'')])"
  have r: "resolve_boot_stage True False ?f None ''now'' = Inr (StageState Development)"
    by code_simp
  have d: "is_developing (StageState Development)" by (simp add: is_developing_def StageState_def)
  show ?thesis using boot_develops_only_on_evidence [OF r d] r d by auto
qed

text \<open>
  Round trip: a record that the reader can produce is read back from the file it is written
  to exactly as it was, and every record the reader produces is of that kind.
\<close>

theorem stage_record_roundtrip:
  assumes "read_stage exists_fails f = Inr (Some s)"
  shows "read_stage False (write_stage s g) = Inr (Some s)"
  using read_written_stage [OF read_stage_wf [OF assms]] .

theorem stage_record_roundtrip_witness:
  "read_stage False (write_stage (StageState Embodied) Absent) = Inr (Some (StageState Embodied))"
  by (rule stage_record_roundtrip [where exists_fails = True and f = Absent]) (simp add: read_stage_def)

text \<open>
  Maturation is recorded at most once: advancing always gives an embodied record, a second
  advance changes nothing (the time of the first stays), and the event condition holds for the
  first advance of a developing record only.
\<close>

theorem maturation_is_one_shot:
  "is_embodied (advance_to_embodied s n c) \<and>
   advance_to_embodied (advance_to_embodied s n c) n' c' = advance_to_embodied s n c \<and>
   ss_stage s \<le> ss_stage (advance_to_embodied s n c) \<and>
   (maturation_is_new s (advance_to_embodied s n c) \<longleftrightarrow> is_developing s) \<and>
   \<not> maturation_is_new (advance_to_embodied s n c) (advance_to_embodied (advance_to_embodied s n c) n' c')"
  by (cases "ss_stage s")
    (simp_all add: advance_to_embodied_def is_embodied_def maturation_is_new_def is_developing_def
      less_eq_dev_stage_def)

text \<open>
  The reader's fail-safe has a hole: a stage file whose lived seconds are an integer too large
  for a float makes the boot raise OverflowError, whatever stage the file holds.
\<close>

theorem huge_lived_seconds_abort_boot:
  assumes "fl_limit \<le> \<bar>real_of_int n\<bar>"
  shows "resolve_boot_stage prior False
     (Doc (PDict [(''stage'', PStr (stage_name st)), (''lived_seconds'', PInt n)])) now_iso clock =
     Inl OverflowError"
proof -
  have "map_stage_record [(''stage'', PStr (stage_name st)), (''lived_seconds'', PInt n)] =
      [(''stage'', PStr (stage_name st)), (''lived_seconds'', PInt n)]"
    by (cases st) (simp_all add: map_stage_record_def legacy_stage_fields_def rename_with_def
        legacy_stage_values_def)
  then show ?thesis
    using assms by (simp add: resolve_boot_stage_def read_stage_def)
      (simp add: stage_from_record_def coerce_lived_seconds_def coerce_seconds_def fl_of_int_def)
qed

theorem huge_lived_seconds_abort_boot_witness:
  "resolve_boot_stage True False
     (Doc (PDict [(''stage'', PStr (stage_name Embodied)), (''lived_seconds'', PInt (2 ^ 1024))])) None ''now'' =
     Inl OverflowError"
proof (rule huge_lived_seconds_abort_boot)
  show "fl_limit \<le> \<bar>real_of_int (2 ^ 1024)\<bar>" by (simp add: fl_limit_def)
qed

end
