(* ===== verification/MaturationAck.thy ===== *)
theory MaturationAck
  imports Stage
begin

text \<open>
  Models \<open>kaine/lifecycle/maturation_ack.py\<close>: the request the gate writes and the
  acknowledgement the dashboard writes. A file read with an explicit encoding can also hold
  bytes that are no UTF-8, which raises UnicodeDecodeError, a ValueError that the reader's
  except clause does not name.
\<close>

datatype record_file = RAbsent | ROSError | RBadEncoding | RBadJson | RDoc pyval

record maturation_request =
  mq_request_id :: string
  mq_requested_at :: string
  mq_development_started_at :: pyval

record maturation_ack =
  mk_request_id :: string
  mk_acknowledged_at :: string

definition is_valid_request_id :: "pyval \<Rightarrow> bool" where
  "is_valid_request_id v =
     (case v of PStr s \<Rightarrow> length s = 32 \<and> list_all is_hex s | _ \<Rightarrow> False)"

definition read_json_object :: "record_file \<Rightarrow> py_exc + pydict option" where
  "read_json_object f =
     (case f of
        RBadEncoding \<Rightarrow> Inl ValueError
      | RDoc v \<Rightarrow> Inr (if is_dict v then Some (the_dict v) else None)
      | _ \<Rightarrow> Inr None)"

definition new_request :: "string \<Rightarrow> string \<Rightarrow> pyval \<Rightarrow> maturation_request" where
  "new_request uuid_hex now started =
     \<lparr>mq_request_id = uuid_hex, mq_requested_at = now, mq_development_started_at = started\<rparr>"

definition request_dict :: "maturation_request \<Rightarrow> pydict" where
  "request_dict r =
     [(''request_id'', PStr (mq_request_id r)), (''requested_at'', PStr (mq_requested_at r)),
      (''development_started_at'', mq_development_started_at r)]"

definition write_request :: "maturation_request \<Rightarrow> record_file \<Rightarrow> record_file" where
  "write_request r f = RDoc (PDict (request_dict r))"

definition read_request :: "record_file \<Rightarrow> py_exc + maturation_request option" where
  "read_request f =
     ebind (read_json_object f) (\<lambda>x. Inr (case x of
        None \<Rightarrow> None
      | Some raw \<Rightarrow>
          (let d = map_stage_record raw;
               rid = dget d ''request_id'' PNone;
               started = dget d ''development_started_at'' PNone
           in case (rid, dget d ''requested_at'' PNone) of
                (PStr i, PStr t) \<Rightarrow>
                  if \<not> is_valid_request_id rid then None
                  else (case started of
                          PNone \<Rightarrow> Some \<lparr>mq_request_id = i, mq_requested_at = t, mq_development_started_at = PNone\<rparr>
                        | PStr s \<Rightarrow> Some \<lparr>mq_request_id = i, mq_requested_at = t, mq_development_started_at = PStr s\<rparr>
                        | _ \<Rightarrow> None)
              | _ \<Rightarrow> None)))"

definition clear_request :: "record_file \<Rightarrow> record_file" where
  "clear_request f = RAbsent"

definition ack_dict :: "maturation_ack \<Rightarrow> pydict" where
  "ack_dict a = [(''request_id'', PStr (mk_request_id a)), (''acknowledged_at'', PStr (mk_acknowledged_at a))]"

definition write_ack :: "maturation_ack \<Rightarrow> record_file \<Rightarrow> record_file" where
  "write_ack a f = RDoc (PDict (ack_dict a))"

definition read_ack :: "record_file \<Rightarrow> py_exc + maturation_ack option" where
  "read_ack f =
     ebind (read_json_object f) (\<lambda>x. Inr (case x of
        None \<Rightarrow> None
      | Some d \<Rightarrow>
          (case (dget d ''request_id'' PNone, dget d ''acknowledged_at'' PNone) of
             (PStr i, PStr t) \<Rightarrow>
               if is_valid_request_id (PStr i)
               then Some \<lparr>mk_request_id = i, mk_acknowledged_at = t\<rparr> else None
           | _ \<Rightarrow> None)))"

definition clear_ack :: "record_file \<Rightarrow> record_file" where
  "clear_ack f = RAbsent"

definition is_acknowledged :: "maturation_request option \<Rightarrow> maturation_ack option \<Rightarrow> bool" where
  "is_acknowledged req ack =
     (case (req, ack) of (Some r, Some a) \<Rightarrow> mq_request_id r = mk_request_id a | _ \<Rightarrow> False)"

lemma read_write_ack:
  "is_valid_request_id (PStr (mk_request_id a)) \<Longrightarrow> read_ack (write_ack a f) = Inr (Some a)"
  by (simp add: read_ack_def write_ack_def read_json_object_def ack_dict_def)

lemma read_write_request:
  assumes "is_valid_request_id (PStr (mq_request_id r))"
    and "mq_development_started_at r = PNone \<or> (\<exists>s. mq_development_started_at r = PStr s)"
  shows "read_request (write_request r f) = Inr (Some r)"
proof -
  have "map_stage_record (request_dict r) = map map_stage_field (request_dict r)"
    by (rule map_stage_record_new) (simp add: request_dict_def legacy_stage_fields_def)
  also have "\<dots> = request_dict r"
    by (simp add: request_dict_def map_stage_field_other)
  finally show ?thesis
    using assms
    by (auto simp: read_request_def write_request_def read_json_object_def request_dict_def)
qed

section \<open>Properties\<close>

text \<open>
  An acknowledgement counts for the request it names only, and survives the trip through its
  file: after the dashboard writes an acknowledgement with a well-formed id, the gate takes
  it for the request with that id and for no other.
\<close>

theorem ack_matches_its_request:
  assumes "is_valid_request_id (PStr (mk_request_id a))"
  shows "\<exists>x. read_ack (write_ack a f) = Inr x \<and>
     (is_acknowledged (Some r) x \<longleftrightarrow> mq_request_id r = mk_request_id a) \<and>
     \<not> is_acknowledged None x \<and> \<not> is_acknowledged (Some r) None"
  using read_write_ack [OF assms] by (auto simp: is_acknowledged_def)

theorem ack_matches_its_request_witness:
  "let i = replicate 32 (CHR ''a''); j = replicate 32 (CHR ''b'')
   in \<exists>x. read_ack (write_ack \<lparr>mk_request_id = i, mk_acknowledged_at = ''t''\<rparr> RAbsent) = Inr x \<and>
        is_acknowledged (Some (new_request i ''t'' PNone)) x \<and> \<not> is_acknowledged (Some (new_request j ''t'' PNone)) x"
proof -
  let ?a = "\<lparr>mk_request_id = replicate 32 (CHR ''a''), mk_acknowledged_at = ''t''\<rparr>"
  have v: "is_valid_request_id (PStr (mk_request_id ?a))" by code_simp
  have d: "replicate 32 (CHR ''b'') \<noteq> replicate 32 (CHR ''a'')" by code_simp
  show ?thesis
    using ack_matches_its_request [OF v, of RAbsent "new_request (replicate 32 (CHR ''a'')) ''t'' PNone"]
      ack_matches_its_request [OF v, of RAbsent "new_request (replicate 32 (CHR ''b'')) ''t'' PNone"] d
    by (auto simp: Let_def new_request_def)
qed

end
