(* ===== verification/Clocks.thy ===== *)
theory Clocks
  imports ControlState
begin

text \<open>
  Models the clocks of the entity: \<open>kaine/entity_clock.py\<close> (subjective time),
  \<open>kaine/cycle/unfrozen_clock.py\<close> (wall time while the cycle is not frozen) and
  \<open>kaine/lifecycle/lived_time.py\<close> (the lived-time and tick accumulators). Time is a real; each
  reading of the monotonic clock is an argument, so two readings in one call are two
  arguments. Readings of the lived-time sources may be non-finite floats.
\<close>

section \<open>Subjective time\<close>

record entity_clock =
  ec_scale :: real
  ec_wall_origin :: real
  ec_origin :: real

definition entity_clock_init :: "real \<Rightarrow> real \<Rightarrow> real \<Rightarrow> py_exc + entity_clock" where
  "entity_clock_init scale origin wall =
     (if scale < 0 then Inl ValueError
      else Inr \<lparr>ec_scale = scale, ec_wall_origin = wall, ec_origin = origin\<rparr>)"

definition clock_now :: "entity_clock \<Rightarrow> real \<Rightarrow> real" where
  "clock_now c wall = ec_origin c + (wall - ec_wall_origin c) * ec_scale c"

text \<open>The setter reads the monotonic clock for \<open>now()\<close> and again for the new anchor.\<close>

definition set_scale :: "real \<Rightarrow> real \<Rightarrow> real \<Rightarrow> entity_clock \<Rightarrow> py_exc + entity_clock" where
  "set_scale v wall1 wall2 c =
     (if v < 0 then Inl ValueError
      else Inr \<lparr>ec_scale = v, ec_wall_origin = wall2, ec_origin = clock_now c wall1\<rparr>)"

definition clock_period :: "entity_clock \<Rightarrow> real \<Rightarrow> py_exc + real" where
  "clock_period c hz =
     (if hz \<le> 0 then Inl ValueError
      else if ec_scale c \<le> 0 then Inl ValueError
      else Inr (1 / (hz * ec_scale c)))"

text \<open>The real seconds \<open>sleep\<close> waits; \<open>None\<close> when it returns at once.\<close>

definition clock_sleep :: "entity_clock \<Rightarrow> real \<Rightarrow> real option" where
  "clock_sleep c subjective_s = (if ec_scale c \<le> 0 then None else Some (subjective_s / ec_scale c))"

text \<open>A change of scale that raises leaves the clock as it is.\<close>

fun rescale :: "entity_clock \<Rightarrow> real \<times> real \<times> real \<Rightarrow> entity_clock" where
  "rescale c (v, w1, w2) = (case set_scale v w1 w2 c of Inl _ \<Rightarrow> c | Inr c' \<Rightarrow> c')"

text \<open>The readings of a list of changes never go back from \<open>w\<close> on; the last one.\<close>

fun readings_from :: "real \<Rightarrow> (real \<times> real \<times> real) list \<Rightarrow> bool" where
  "readings_from w [] = True"
| "readings_from w ((v, w1, w2) # xs) = (w \<le> w1 \<and> w1 \<le> w2 \<and> readings_from w2 xs)"

fun last_reading :: "real \<Rightarrow> (real \<times> real \<times> real) list \<Rightarrow> real" where
  "last_reading w [] = w"
| "last_reading w ((v, w1, w2) # xs) = last_reading w2 xs"

lemma rescale_scale: "0 \<le> ec_scale c \<Longrightarrow> 0 \<le> ec_scale (rescale c x)"
  by (cases x) (auto simp: set_scale_def)

lemma clock_now_mono: "0 \<le> ec_scale c \<Longrightarrow> w \<le> w' \<Longrightarrow> clock_now c w \<le> clock_now c w'"
  by (simp add: clock_now_def mult_right_mono)

lemma clock_now_rescale:
  "0 \<le> ec_scale c \<Longrightarrow> w1 \<le> w2 \<Longrightarrow> clock_now c w1 \<le> clock_now (rescale c (v, w1, w2)) w2"
  by (auto simp: set_scale_def clock_now_mono) (simp add: clock_now_def)

lemma rescale_run_mono:
  "0 \<le> ec_scale c \<Longrightarrow> readings_from w xs \<Longrightarrow> last_reading w xs \<le> w' \<Longrightarrow>
   clock_now c w \<le> clock_now (run rescale c xs) w'"
proof (induction xs arbitrary: c w)
  case (Cons x xs)
  obtain v w1 w2 where x: "x = (v, w1, w2)" by (cases x)
  have "clock_now c w \<le> clock_now c w1" using Cons.prems x by (simp add: clock_now_mono)
  also have "\<dots> \<le> clock_now (rescale c x) w2"
    using Cons.prems x clock_now_rescale [of c w1 w2 v] by simp
  also have "\<dots> \<le> clock_now (run rescale (rescale c x) xs) w'"
    using Cons.prems x rescale_scale [of c x] by (intro Cons.IH) auto
  finally show ?case by simp
qed (simp add: clock_now_mono)

section \<open>Wall time while not frozen\<close>

record unfrozen_clock =
  uc_unknown_counts_as :: string
  uc_poll_s :: real
  uc_total :: real
  uc_last_t :: "real option"
  uc_last_counting :: bool
  uc_last_state :: "bool option"
  uc_seen_state :: bool
  uc_unknown_episodes :: nat
  uc_cached_state :: "bool option"
  uc_cached_at :: "real option"

definition unfrozen_clock_init :: "string \<Rightarrow> real \<Rightarrow> py_exc + unfrozen_clock" where
  "unfrozen_clock_init unknown_counts_as poll_s =
     (if unknown_counts_as \<notin> {''unfrozen'', ''frozen''} then Inl ValueError
      else Inr \<lparr>uc_unknown_counts_as = unknown_counts_as, uc_poll_s = poll_s, uc_total = 0,
                uc_last_t = None, uc_last_counting = False, uc_last_state = None,
                uc_seen_state = False, uc_unknown_episodes = 0, uc_cached_state = None,
                uc_cached_at = None\<rparr>)"

text \<open>\<open>read_frozen\<close> is what the source gives now, \<open>None\<close> for unknown or for a raise.\<close>

definition unfrozen_read ::
  "real \<Rightarrow> bool option \<Rightarrow> unfrozen_clock \<Rightarrow> bool option \<times> unfrozen_clock" where
  "unfrozen_read now read_frozen c =
     (case uc_cached_at c of
        Some t \<Rightarrow>
          if now - t < uc_poll_s c then (uc_cached_state c, c)
          else (read_frozen, c\<lparr>uc_cached_state := read_frozen, uc_cached_at := Some now\<rparr>)
      | None \<Rightarrow> (read_frozen, c\<lparr>uc_cached_state := read_frozen, uc_cached_at := Some now\<rparr>))"

definition state_counts :: "string \<Rightarrow> bool option \<Rightarrow> bool" where
  "state_counts unknown_counts_as state \<longleftrightarrow>
     state = Some False \<or> state = None \<and> unknown_counts_as = ''unfrozen''"

definition unfrozen_now ::
  "real \<Rightarrow> real \<Rightarrow> bool option \<Rightarrow> unfrozen_clock \<Rightarrow> real \<times> unfrozen_clock" where
  "unfrozen_now t t_read read_frozen c =
     (let (state, c1) = unfrozen_read t_read read_frozen c;
          c2 = (if state = None \<and> (\<not> uc_seen_state c1 \<or> uc_last_state c1 \<noteq> None)
                then c1\<lparr>uc_unknown_episodes := Suc (uc_unknown_episodes c1)\<rparr> else c1);
          c3 = c2\<lparr>uc_last_state := state, uc_seen_state := True\<rparr>;
          counting = state_counts (uc_unknown_counts_as c3) state;
          c4 = (case uc_last_t c3 of
                  None \<Rightarrow> c3
                | Some l \<Rightarrow> if uc_last_counting c3 \<and> counting \<and> t - l > 0
                           then c3\<lparr>uc_total := uc_total c3 + (t - l)\<rparr> else c3);
          c5 = c4\<lparr>uc_last_t := Some t, uc_last_counting := counting\<rparr>
      in (uc_total c5, c5))"

definition unfrozen_diagnostic :: "unfrozen_clock \<Rightarrow> pydict" where
  "unfrozen_diagnostic c =
     [(''unknown_counts_as'', PStr (uc_unknown_counts_as c)),
      (''unknown_episodes'', PInt (int (uc_unknown_episodes c))),
      (''in_unknown_episode'', PBool (uc_last_state c = None \<and> uc_seen_state c))]"

text \<open>A welfare clock observes the control file.\<close>

definition welfare_clock :: "real \<Rightarrow> py_exc + unfrozen_clock" where
  "welfare_clock poll_s = unfrozen_clock_init ''unfrozen'' poll_s"

fun observe_file :: "unfrozen_clock \<Rightarrow> real \<times> real \<times> ctl_world \<Rightarrow> unfrozen_clock" where
  "observe_file c (t, t_read, w) = snd (unfrozen_now t t_read (read_frozen_state w) c)"

text \<open>One observation, without the bookkeeping of episodes and the cache.\<close>

lemma unfrozen_now_simps:
  assumes "unfrozen_read t_read rf c = (state, c1)"
  shows "uc_total (snd (unfrozen_now t t_read rf c)) =
      uc_total c + (case uc_last_t c of None \<Rightarrow> 0 | Some l \<Rightarrow>
        if uc_last_counting c \<and> state_counts (uc_unknown_counts_as c) state \<and> l < t then t - l else 0)"
    and "uc_last_t (snd (unfrozen_now t t_read rf c)) = Some t"
    and "uc_last_counting (snd (unfrozen_now t t_read rf c)) = state_counts (uc_unknown_counts_as c) state"
    and "uc_unknown_counts_as (snd (unfrozen_now t t_read rf c)) = uc_unknown_counts_as c"
    and "uc_cached_state (snd (unfrozen_now t t_read rf c)) = state"
proof -
  have c1: "uc_total c1 = uc_total c" "uc_last_t c1 = uc_last_t c" "uc_last_counting c1 = uc_last_counting c"
    "uc_unknown_counts_as c1 = uc_unknown_counts_as c" "uc_cached_state c1 = state"
    using assms by (auto simp: unfrozen_read_def split: option.splits if_splits)
  show "uc_total (snd (unfrozen_now t t_read rf c)) =
      uc_total c + (case uc_last_t c of None \<Rightarrow> 0 | Some l \<Rightarrow>
        if uc_last_counting c \<and> state_counts (uc_unknown_counts_as c) state \<and> l < t then t - l else 0)"
    and "uc_last_t (snd (unfrozen_now t t_read rf c)) = Some t"
    and "uc_last_counting (snd (unfrozen_now t t_read rf c)) = state_counts (uc_unknown_counts_as c) state"
    and "uc_unknown_counts_as (snd (unfrozen_now t t_read rf c)) = uc_unknown_counts_as c"
    and "uc_cached_state (snd (unfrozen_now t t_read rf c)) = state"
    by (simp_all add: unfrozen_now_def assms Let_def c1 split: option.split)
qed

text \<open>While the file stays unreadable, whatever it was before the first observation.\<close>

definition counting_since :: "real \<Rightarrow> real \<Rightarrow> unfrozen_clock \<Rightarrow> bool" where
  "counting_since t0 total0 c \<longleftrightarrow>
     uc_unknown_counts_as c = ''unfrozen'' \<and> uc_cached_state c = None \<and> uc_last_counting c \<and>
     (\<exists>l. uc_last_t c = Some l \<and> t0 \<le> l \<and> uc_total c = total0 + (l - t0))"

lemma unknown_observation_counts:
  assumes "counting_since t0 total0 c" and "\<forall>l. uc_last_t c = Some l \<longrightarrow> l \<le> t"
  shows "counting_since t0 total0 (snd (unfrozen_now t t_read None c)) \<and>
    uc_last_t (snd (unfrozen_now t t_read None c)) = Some t"
proof -
  obtain state c1 where r: "unfrozen_read t_read None c = (state, c1)" by (cases "unfrozen_read t_read None c")
  have state: "state = None"
    using r assms(1) by (auto simp: unfrozen_read_def counting_since_def split: option.splits if_splits)
  show ?thesis
    using assms unfrozen_now_simps [OF r, of t]
    by (auto simp: counting_since_def state state_counts_def)
qed

text \<open>The total never falls and never grows faster than the wall clock.\<close>

lemma unfrozen_now_bounds:
  "uc_total c \<le> uc_total (snd (unfrozen_now t t_read rf c)) \<and>
   (case uc_last_t c of None \<Rightarrow> uc_total (snd (unfrozen_now t t_read rf c)) = uc_total c
    | Some l \<Rightarrow> l \<le> t \<longrightarrow> uc_total (snd (unfrozen_now t t_read rf c)) \<le> uc_total c + (t - l))"
proof -
  obtain state c1 where r: "unfrozen_read t_read rf c = (state, c1)" by (cases "unfrozen_read t_read rf c")
  show ?thesis unfolding unfrozen_now_simps(1) [OF r] by (auto split: option.split)
qed

interpretation unfrozen_total: ranked_machine observe_file "\<lambda>_. True" "\<lambda>_. True" uc_total
proof
  show "uc_total c \<le> uc_total (observe_file c x)" for c x
    by (cases x) (simp add: unfrozen_now_bounds)
qed simp

section \<open>Lived time\<close>

fun fl_sub :: "pyfloat \<Rightarrow> pyfloat \<Rightarrow> pyfloat" where
  "fl_sub (Fin a) (Fin b) = Fin (a - b)"
| "fl_sub NaN _ = NaN"
| "fl_sub _ NaN = NaN"
| "fl_sub PosInf PosInf = NaN"
| "fl_sub NegInf NegInf = NaN"
| "fl_sub PosInf _ = PosInf"
| "fl_sub NegInf _ = NegInf"
| "fl_sub (Fin _) PosInf = NegInf"
| "fl_sub (Fin _) NegInf = PosInf"

text \<open>\<open>delta if delta > 0 and math.isfinite(delta) else 0.0\<close>\<close>

fun counted :: "pyfloat \<Rightarrow> real" where
  "counted (Fin r) = (if r > 0 then r else 0)"
| "counted _ = 0"

lemma counted_nonneg [simp]: "0 \<le> counted x"
  by (cases x) simp_all

record lived_accumulator =
  la_has_clock :: bool
  la_has_paused :: bool
  la_clock_baseline :: "pyfloat option"
  la_paused_baseline :: "pyfloat option"

definition lived_init :: "bool \<Rightarrow> bool \<Rightarrow> lived_accumulator" where
  "lived_init has_clock has_paused = \<lparr>la_has_clock = has_clock, la_has_paused = has_paused,
     la_clock_baseline = None, la_paused_baseline = None\<rparr>"

definition set_paused_source :: "bool \<Rightarrow> lived_accumulator \<Rightarrow> lived_accumulator" where
  "set_paused_source has_paused a = a\<lparr>la_has_paused := has_paused, la_paused_baseline := None\<rparr>"

text \<open>
  \<open>now\<close> is the clock's reading, \<open>None\<close> when it returns None or raises; \<open>paused_reading\<close> the
  paused total, \<open>None\<close> when its source raises.
\<close>

definition lived_step ::
  "pyfloat option \<Rightarrow> pyfloat option \<Rightarrow> lived_accumulator \<Rightarrow> real \<times> lived_accumulator" where
  "lived_step now paused_reading a =
     (if \<not> la_has_clock a then (0, a)
      else case now of
        None \<Rightarrow> (0, a)
      | Some n \<Rightarrow>
          if la_has_paused a \<and> (case paused_reading of None \<Rightarrow> True | Some p \<Rightarrow> \<not> fl_finite p)
          then (0, a\<lparr>la_clock_baseline := None, la_paused_baseline := None\<rparr>)
          else
            (let paused = (if la_has_paused a then paused_reading else None)
             in case la_clock_baseline a of
                  None \<Rightarrow> (0, a\<lparr>la_clock_baseline := Some n,
                               la_paused_baseline := Some (case paused of None \<Rightarrow> Fin 0 | Some p \<Rightarrow> p)\<rparr>)
                | Some cb \<Rightarrow>
                    (let (delta, a1) =
                       (case paused of
                          None \<Rightarrow> (fl_sub n cb, a)
                        | Some p \<Rightarrow>
                            (let pb = (case la_paused_baseline a of None \<Rightarrow> p | Some b \<Rightarrow> b)
                             in (fl_sub (fl_sub n cb) (fl_sub p pb), a\<lparr>la_paused_baseline := Some p\<rparr>)));
                         a2 = a1\<lparr>la_clock_baseline := Some n\<rparr>
                     in (counted delta, a2))))"

fun lived_total :: "(pyfloat option \<times> pyfloat option) list \<Rightarrow> lived_accumulator \<Rightarrow> real" where
  "lived_total [] a = 0"
| "lived_total ((n, p) # rs) a = (let (d, a') = lived_step n p a in d + lived_total rs a')"

definition tick_step :: "int option \<Rightarrow> int option \<Rightarrow> int \<times> int option" where
  "tick_step tick_index baseline =
     (case tick_index of
        None \<Rightarrow> (0, baseline)
      | Some i \<Rightarrow>
          if i < 0 then (0, baseline)
          else (case baseline of
                  None \<Rightarrow> (0, Some i)
                | Some b \<Rightarrow> if i < b then (0, Some i) else (i - b, Some i)))"

lemma lived_step_nonneg: "0 \<le> fst (lived_step n p a)"
  by (simp add: lived_step_def Let_def case_prod_beta split: option.split)

lemma lived_total_nonneg: "0 \<le> lived_total rs a"
proof (induction rs a rule: lived_total.induct)
  case (2 n p rs a)
  obtain d a' where s: "lived_step n p a = (d, a')" by (cases "lived_step n p a")
  with 2 [of "(d, a')"] lived_step_nonneg [of n p a] show ?case by simp
qed simp

text \<open>Good readings: a finite clock that does not go back, a finite paused total that does not fall.\<close>

fun good_readings :: "real \<Rightarrow> real \<Rightarrow> (real \<times> real) list \<Rightarrow> bool" where
  "good_readings n p [] = True"
| "good_readings n p ((n', p') # rs) = (n \<le> n' \<and> p \<le> p' \<and> good_readings n' p' rs)"

definition readings :: "(real \<times> real) list \<Rightarrow> (pyfloat option \<times> pyfloat option) list" where
  "readings rs = map (\<lambda>(n, p). (Some (Fin n), Some (Fin p))) rs"

definition anchored :: "real \<Rightarrow> real \<Rightarrow> lived_accumulator \<Rightarrow> bool" where
  "anchored n p a \<longleftrightarrow> la_has_clock a \<and> la_has_paused a \<and>
     la_clock_baseline a = Some (Fin n) \<and> la_paused_baseline a = Some (Fin p)"

lemma lived_step_anchored:
  "anchored n p a \<Longrightarrow> \<exists>a'. lived_step (Some (Fin n')) (Some (Fin p')) a = (max 0 (n' - n - (p' - p)), a') \<and>
     anchored n' p' a'"
  by (auto simp: anchored_def lived_step_def Let_def max_def)

text \<open>What is counted, against the awake time between the first and the last reading.\<close>

lemma lived_total_bounds:
  "anchored n p a \<Longrightarrow> good_readings n p rs \<Longrightarrow>
   lived_total (readings rs) a \<le> fst (last ((n, p) # rs)) - n \<and>
   fst (last ((n, p) # rs)) - n - (snd (last ((n, p) # rs)) - p) \<le> lived_total (readings rs) a"
proof (induction rs arbitrary: n p a)
  case (Cons r rs)
  obtain n' p' where r: "r = (n', p')" by (cases r)
  obtain a' where s: "lived_step (Some (Fin n')) (Some (Fin p')) a = (max 0 (n' - n - (p' - p)), a')"
    and a': "anchored n' p' a'"
    using lived_step_anchored [OF Cons.prems(1)] by blast
  have t: "lived_total (readings (r # rs)) a = max 0 (n' - n - (p' - p)) + lived_total (readings rs) a'"
    by (simp add: readings_def r s)
  have g: "n \<le> n'" "p \<le> p'" "good_readings n' p' rs" using Cons.prems(2) r by simp_all
  have l: "last ((n, p) # r # rs) = last ((n', p') # rs)" by (simp add: r)
  show ?case
    unfolding t l using Cons.IH [OF a' g(3)] g(1,2) by (auto simp: max_def)
qed (simp add: readings_def)

lemma lived_total_exact:
  "anchored n p a \<Longrightarrow> good_readings n p rs \<Longrightarrow>
   (\<And>i. Suc i < length ((n, p) # rs) \<Longrightarrow>
      snd (((n, p) # rs) ! Suc i) - snd (((n, p) # rs) ! i) \<le> fst (((n, p) # rs) ! Suc i) - fst (((n, p) # rs) ! i)) \<Longrightarrow>
   lived_total (readings rs) a = fst (last ((n, p) # rs)) - n - (snd (last ((n, p) # rs)) - p)"
proof (induction rs arbitrary: n p a)
  case (Cons r rs)
  obtain n' p' where r: "r = (n', p')" by (cases r)
  obtain a' where s: "lived_step (Some (Fin n')) (Some (Fin p')) a = (max 0 (n' - n - (p' - p)), a')"
    and a': "anchored n' p' a'"
    using lived_step_anchored [OF Cons.prems(1)] by blast
  have g: "good_readings n' p' rs" using Cons.prems(2) r by simp
  have d: "0 \<le> n' - n - (p' - p)" using Cons.prems(3) [of 0] r by simp
  have "lived_total (readings rs) a' = fst (last ((n', p') # rs)) - n' - (snd (last ((n', p') # rs)) - p')"
  proof (rule Cons.IH [OF a' g])
    fix i assume "Suc i < length ((n', p') # rs)"
    then show "snd (((n', p') # rs) ! Suc i) - snd (((n', p') # rs) ! i)
        \<le> fst (((n', p') # rs) ! Suc i) - fst (((n', p') # rs) ! i)"
      using Cons.prems(3) [of "Suc i"] r by simp
  qed
  then show ?case using s d r by (simp add: readings_def max_def)
qed (simp add: readings_def)

section \<open>An unreadable control file\<close>

lemma unreadable_reads_unknown: "control_file_unreadable w \<longleftrightarrow> read_frozen_state w = None"
  by (auto simp: control_file_unreadable_def read_frozen_state_def split: sum.split)

lemma unreadable_run_counts:
  "counting_since t0 tot c \<Longrightarrow> uc_last_t c = Some l \<Longrightarrow> sorted (l # map fst obs) \<Longrightarrow> list_all (\<lambda>(_, _, w). control_file_unreadable w) obs \<Longrightarrow>
   uc_total (run observe_file c obs) = tot + (last (l # map fst obs) - t0)"
proof (induction obs arbitrary: c l)
  case Nil
  then show ?case by (simp add: counting_since_def)
next
  case (Cons x obs)
  obtain t tr w where x: "x = (t, tr, w)" by (cases x)
  have u: "read_frozen_state w = None" using Cons.prems(4) x unreadable_reads_unknown by simp
  have c': "counting_since t0 tot (observe_file c x)" "uc_last_t (observe_file c x) = Some t"
    using unknown_observation_counts [OF Cons.prems(1), of t tr] Cons.prems(2,3) x u by simp_all
  with Cons.IH [OF c'] Cons.prems(3,4) x show ?case by simp
qed

section \<open>Properties\<close>

text \<open>
  Subjective time never goes back: over any sequence of attempted scale changes, valid or
  refused, with a wall clock that does not go back, a later reading is never smaller, and a
  change made at one instant leaves the reading of that instant where it was.
\<close>

theorem subjective_time_never_goes_back:
  assumes "0 \<le> ec_scale c" and "readings_from w xs" and "last_reading w xs \<le> w'"
  shows "clock_now c w \<le> clock_now (run rescale c xs) w' \<and>
    clock_now (rescale (run rescale c xs) (v, w', w')) w' = clock_now (run rescale c xs) w'"
  using rescale_run_mono [OF assms] by (simp add: set_scale_def) (simp add: clock_now_def)

theorem subjective_time_never_goes_back_witness:
  "clock_now \<lparr>ec_scale = 1, ec_wall_origin = 0, ec_origin = 0\<rparr> 1 \<le>
   clock_now (run rescale \<lparr>ec_scale = 1, ec_wall_origin = 0, ec_origin = 0\<rparr> [(2, 3, 4), (- 1, 5, 5), (0, 6, 6)]) 9"
  by (rule subjective_time_never_goes_back [THEN conjunct1]) simp_all

text \<open>
  A control file that cannot be read never hides distress from the welfare timers: while every
  observation finds the file unreadable, the clock counts all wall time since its first
  observation, at any polling interval.
\<close>

theorem unreadable_file_never_hides_distress:
  assumes "welfare_clock poll_s = Inr c" and "sorted (t0 # map fst obs)"
    and "list_all (\<lambda>(_, _, w). control_file_unreadable w) ((t0, tr0, w0) # obs)"
  shows "uc_total (run observe_file c ((t0, tr0, w0) # obs)) = last (t0 # map fst obs) - t0"
proof -
  let ?c = "observe_file c (t0, tr0, w0)"
  have c: "uc_unknown_counts_as c = ''unfrozen'' \<and> uc_total c = 0 \<and> uc_last_t c = None \<and> uc_cached_at c = None"
    using assms(1) by (auto simp: welfare_clock_def unfrozen_clock_init_def)
  have u: "read_frozen_state w0 = None" using assms(3) unreadable_reads_unknown by simp
  obtain c1 where r: "unfrozen_read tr0 None c = (None, c1)"
    using c by (simp add: unfrozen_read_def)
  have s: "counting_since t0 0 ?c" "uc_last_t ?c = Some t0"
    using unfrozen_now_simps [OF r, of t0] c u by (simp_all add: counting_since_def state_counts_def)
  show ?thesis using unreadable_run_counts [OF s assms(2)] assms(3) by simp
qed

theorem unreadable_file_never_hides_distress_witness:
  "\<exists>c. welfare_clock (1 / 4) = Inr c \<and>
     uc_total (run observe_file c
       [(1, 1, \<lparr>cw_file = Unreadable, cw_audit = [], cw_logged = False, cw_errors = 0\<rparr>),
        (5, 5, \<lparr>cw_file = Doc PNone, cw_audit = [], cw_logged = False, cw_errors = 0\<rparr>)]) = 4"
proof -
  obtain c where c: "welfare_clock (1 / 4) = Inr c"
    by (simp add: welfare_clock_def unfrozen_clock_init_def)
  have "uc_total (run observe_file c
       ((1, 1, \<lparr>cw_file = Unreadable, cw_audit = [], cw_logged = False, cw_errors = 0\<rparr>) #
        [(5, 5, \<lparr>cw_file = Doc PNone, cw_audit = [], cw_logged = False, cw_errors = 0\<rparr>)])) = last (1 # map fst [(5::real, 5::real,
          \<lparr>cw_file = Doc PNone, cw_audit = [], cw_logged = False, cw_errors = 0\<rparr>)]) - 1"
    by (rule unreadable_file_never_hides_distress [OF c])
      (simp_all add: control_file_unreadable_def)
  with c show ?thesis by auto
qed

text \<open>
  Lived time counts awake time and nothing else: over readings that do not go back, the sum of
  the steps of a fresh accumulator is at most the clock's own span and at least the span less
  the paused time; it is exactly that difference when no pause is longer than the step it
  falls in.
\<close>

theorem lived_time_counts_awake_time:
  assumes "good_readings n p rs"
  shows "let total = lived_total ((Some (Fin n), Some (Fin p)) # readings rs) (lived_init True True);
             span = fst (last ((n, p) # rs)) - n; paused = snd (last ((n, p) # rs)) - p
         in total \<le> span \<and> span - paused \<le> total \<and>
            ((\<forall>i. Suc i < length ((n, p) # rs) \<longrightarrow>
                snd (((n, p) # rs) ! Suc i) - snd (((n, p) # rs) ! i) \<le>
                fst (((n, p) # rs) ! Suc i) - fst (((n, p) # rs) ! i)) \<longrightarrow> total = span - paused)"
proof -
  let ?a = "snd (lived_step (Some (Fin n)) (Some (Fin p)) (lived_init True True))"
  have a: "anchored n p ?a" "fst (lived_step (Some (Fin n)) (Some (Fin p)) (lived_init True True)) = 0"
    by (simp_all add: lived_init_def lived_step_def anchored_def)
  have t: "lived_total ((Some (Fin n), Some (Fin p)) # readings rs) (lived_init True True) =
      lived_total (readings rs) ?a"
    using a(2) by (simp add: case_prod_beta Let_def)
  show ?thesis
    unfolding t Let_def using lived_total_bounds [OF a(1) assms] lived_total_exact [OF a(1) assms] by blast
qed

theorem lived_time_counts_awake_time_witness:
  "lived_total ((Some (Fin 10), Some (Fin 0)) # readings [(14, 1), (20, 1)]) (lived_init True True) = 9"
  using lived_time_counts_awake_time [of 10 0 "[(14, 1), (20, 1)]"]
  by (simp add: Let_def nth_Cons' less_Suc_eq all_conj_distrib)

text \<open>
  A paused-time source that fails makes its span uncounted: the step returns nothing, and
  whatever came before, the next good step only anchors again.
\<close>

theorem failed_pause_source_reanchors:
  assumes "la_has_paused a"
  shows "fst (lived_step (Some n) None a) = 0 \<and>
    fst (lived_step (Some n') p' (snd (lived_step (Some n) None a))) = 0"
proof (cases "la_has_clock a")
  case True
  then show ?thesis using assms by (auto simp: lived_step_def Let_def split: option.split)
qed (simp add: lived_step_def)

theorem failed_pause_source_reanchors_witness:
  "fst (lived_step (Some (Fin 3)) (Some (Fin 1))
     (snd (lived_step (Some (Fin 2)) None (lived_init True True)))) = 0"
  by (rule failed_pause_source_reanchors [THEN conjunct2]) (simp add: lived_init_def)

end
