(* ===== verification/GateRunner.thy ===== *)
theory GateRunner
  imports MaturationGate MaturationAck Clocks BusSchema
begin

text \<open>
  Models \<open>kaine/lifecycle/gate_runner.py\<close>: the periodic maturation gate over the stage file of
  \<open>Stage\<close>, the conditions of \<open>MaturationGate\<close>, the acknowledgement files of \<open>MaturationAck\<close> and
  the lived-time accumulator of \<open>Clocks\<close>, with the two bus readers it uses from
  \<open>kaine/bus/client.py\<close>.

  Redis is an argument: \<open>xread\<close> gives the entries after a cursor, at most a count of them, each
  with its event or \<open>None\<close> when it does not decode; \<open>None\<close> as a whole is an error. What one
  evaluation reads and what may fail in it is a \<open>gate_env\<close>. A raise that leaves the
  evaluation is the second component of its result.
\<close>

section \<open>Counting sleeps\<close>

type_synonym entry = "string \<times> event option"
type_synonym xread = "string \<Rightarrow> nat \<Rightarrow> entry list option"

definition decoded :: "entry list \<Rightarrow> (string \<times> event) list" where
  "decoded es = List.map_filter (\<lambda>(i, e). map_option (\<lambda>x. (i, x)) e) es"

definition read_entries ::
  "xread \<Rightarrow> string \<Rightarrow> nat \<Rightarrow> py_exc + ((string \<times> event) list \<times> string option)" where
  "read_entries xr last_id count =
     (if last_id = ''$'' then Inl ValueError
      else case xr last_id count of
        None \<Rightarrow> Inl OtherException
      | Some es \<Rightarrow> Inr (decoded es, if es = [] then None else Some (fst (last es))))"

definition latest :: "entry list \<Rightarrow> (string \<times> event) option" where
  "latest newest = (case newest of [] \<Rightarrow> None | (i, e) # _ \<Rightarrow> map_option (\<lambda>x. (i, x)) e)"

definition counts_as_sleep :: "event \<Rightarrow> bool" where
  "counts_as_sleep e \<longleftrightarrow>
     ev_type e = ''sleep.sleep.completed'' \<and> ev_source e = ''sleep'' \<and>
     \<not> (dget (ev_payload e) ''aborted'' PNone = PBool True \<and>
        (dget (ev_payload e) ''trigger'' PNone = PStr ''state_cycle'' \<or>
         dget (ev_payload e) ''trigger'' PNone = PStr ''welfare_rest'') \<and>
        dget (ev_payload e) ''reason'' PNone = PStr ''CancelledError'' \<and>
        dget (ev_payload e) ''resumable'' PNone = PBool True)"

definition sleeps_in :: "(string \<times> event) list \<Rightarrow> int" where
  "sleeps_in es = int (length (filter (\<lambda>(_, e). counts_as_sleep e) es))"

text \<open>The \<open>while True\<close> loop; \<open>None\<close> when it does not end.\<close>

partial_function (option) count_loop ::
  "xread \<Rightarrow> string \<Rightarrow> int \<Rightarrow> (py_exc + (int \<times> string)) option" where
  "count_loop xr cursor tot =
     (case read_entries xr cursor 100 of
        Inl e \<Rightarrow> Some (Inl e)
      | Inr (es, last_scanned) \<Rightarrow>
          (case last_scanned of
             None \<Rightarrow> Some (Inr (tot + sleeps_in es, cursor))
           | Some c \<Rightarrow> count_loop xr c (tot + sleeps_in es)))"

declare count_loop.simps [code]

definition count_new_sleeps ::
  "entry list option \<Rightarrow> xread \<Rightarrow> stage_state \<Rightarrow> stage_state option" where
  "count_new_sleeps newest xr s =
     (case ss_sleep_cursor s of
        None \<Rightarrow>
          (case newest of
             None \<Rightarrow> Some s
           | Some es \<Rightarrow>
               Some (s\<lparr>ss_sleep_cursor := Some (case latest es of None \<Rightarrow> ''0-0'' | Some (i, _) \<Rightarrow> i)\<rparr>))
      | Some cursor \<Rightarrow>
          (case count_loop xr cursor (ss_sleep_count s) of
             None \<Rightarrow> None
           | Some (Inl _) \<Rightarrow> Some s
           | Some (Inr (tot, c)) \<Rightarrow> Some (s\<lparr>ss_sleep_count := tot, ss_sleep_cursor := Some c\<rparr>)))"

section \<open>State and environment\<close>

record gate_runner =
  gr_config :: maturation_config
  gr_modules :: "string list"
  gr_stage :: stage_state
  gr_staging_enabled :: bool
  gr_feed_configured :: bool
  gr_boot_ms :: "int option"
  gr_lived :: lived_accumulator
  gr_stage_written :: bool
  gr_embodiment_logged :: bool
  gr_ack_logged :: bool
  gr_deferred_logged :: bool
  gr_request :: "maturation_request option"
  gr_status :: pydict
  gr_stage_file :: jfile
  gr_request_file :: record_file
  gr_ack_file :: record_file
  gr_published :: "(string \<times> pydict) list"
  gr_vocal_dormant :: bool
  gr_embodiment_active :: bool
  gr_locus_locked :: bool
  gr_has_hook :: bool
  gr_hook_calls :: nat

record gate_env =
  ge_server_time :: "int option"
  ge_readout_time :: "int option"
  ge_clock :: "pyfloat option"
  ge_paused :: "pyfloat option"
  ge_source_seconds :: "pyfloat option option"
  ge_schedule :: "(int \<times> int) option"
  ge_newest :: "entry list option"
  ge_xread :: xread
  ge_xrange :: "int \<Rightarrow> entry list option"
  ge_passes :: "int option"
  ge_is_paused :: "bool option option"
  ge_embodiment :: "bool \<times> bool \<times> bool"
  ge_activates :: bool
  ge_persist_fails :: bool
  ge_stage_write_fails :: bool
  ge_request_write_fails :: bool
  ge_clear_request_fails :: bool
  ge_clear_ack_fails :: bool
  ge_unlock_fails :: bool
  ge_uuid :: string
  ge_now :: string

definition gr_publish :: "string \<Rightarrow> pydict \<Rightarrow> gate_runner \<Rightarrow> gate_runner" where
  "gr_publish typ payload g = g\<lparr>gr_published := gr_published g @ [(typ, payload)]\<rparr>"

definition faculties_of :: "gate_runner \<Rightarrow> faculties" where
  "faculties_of g = \<lparr>fa_sleep = ''sleep'' \<in> set (gr_modules g),
     fa_world_model = ''world_model'' \<in> set (gr_modules g),
     fa_embodiment = ''embodiment'' \<in> set (gr_modules g)\<rparr>"

definition consolidation_passes :: "gate_env \<Rightarrow> gate_runner \<Rightarrow> int option" where
  "consolidation_passes env g = (if ''world_model'' \<in> set (gr_modules g) then ge_passes env else None)"

definition embodiment_availability :: "gate_env \<Rightarrow> gate_runner \<Rightarrow> bool \<times> bool \<times> bool" where
  "embodiment_availability env g =
     (if ''embodiment'' \<in> set (gr_modules g) then ge_embodiment env else (False, False, False))"

section \<open>The steps of an evaluation\<close>

definition begin_boot :: "gate_env \<Rightarrow> gate_runner \<Rightarrow> gate_runner" where
  "begin_boot env g =
     (if gr_boot_ms g \<noteq> None then g else g\<lparr>gr_boot_ms := ge_server_time env\<rparr>)"

datatype blocked = NotDeveloping | BootNotAnchored | NoStimulusSourceFeed

definition blocked_reason :: "gate_runner \<Rightarrow> blocked option" where
  "blocked_reason g =
     (if \<not> gr_staging_enabled g \<or> \<not> is_developing (gr_stage g) then Some NotDeveloping
      else if gr_boot_ms g = None then Some BootNotAnchored
      else if \<not> gr_feed_configured g then Some NoStimulusSourceFeed
      else None)"

definition accumulate_lived_time :: "gate_env \<Rightarrow> gate_runner \<Rightarrow> gate_runner" where
  "accumulate_lived_time env g =
     (let (delta, acc) = lived_step (ge_clock env) (ge_paused env) (gr_lived g);
          g1 = g\<lparr>gr_lived := acc\<rparr>
      in if delta > 0
         then g1\<lparr>gr_stage := (gr_stage g1)\<lparr>ss_lived_seconds := ss_lived_seconds (gr_stage g1) + delta\<rparr>\<rparr>
         else g1)"

definition record_stimulus_source_seconds :: "gate_env \<Rightarrow> gate_runner \<Rightarrow> gate_runner" where
  "record_stimulus_source_seconds env g =
     (case ge_source_seconds env of
        Some (Some (Fin r)) \<Rightarrow>
          if r < 0 then g else g\<lparr>gr_stage := (gr_stage g)\<lparr>ss_stimulus_source_seconds := Some r\<rparr>\<rparr>
      | _ \<Rightarrow> g)"

definition count_sleeps :: "gate_env \<Rightarrow> gate_runner \<Rightarrow> gate_runner option" where
  "count_sleeps env g =
     map_option (\<lambda>s. g\<lparr>gr_stage := s\<rparr>) (count_new_sleeps (ge_newest env) (ge_xread env) (gr_stage g))"

definition persist_if_changed :: "gate_env \<Rightarrow> stage_state \<Rightarrow> gate_runner \<Rightarrow> gate_runner" where
  "persist_if_changed env before g =
     (if gr_stage g = before \<and> gr_stage_written g then g
      else if ge_persist_fails env then g
      else g\<lparr>gr_stage_file := write_stage (gr_stage g) (gr_stage_file g), gr_stage_written := True\<rparr>)"

fun fl_mul :: "pyfloat \<Rightarrow> pyfloat \<Rightarrow> pyfloat" where
  "fl_mul (Fin a) (Fin b) = fl_of_real (a * b)"
| "fl_mul NaN _ = NaN"
| "fl_mul _ NaN = NaN"
| "fl_mul x y =
     (if x = Fin 0 \<or> y = Fin 0 then NaN
      else if fl_less x (Fin 0) = fl_less y (Fin 0) then PosInf else NegInf)"

definition max_age_ms :: "maturation_config \<Rightarrow> pyfloat" where
  "max_age_ms cfg = fl_mul (fl_mul (mc_readout_max_age_cadences cfg) (mc_gate_cadence_seconds cfg)) (Fin 1000)"

definition is_readout :: "event \<Rightarrow> bool" where
  "is_readout e \<longleftrightarrow> ev_type e = ''development.readiness'' \<and> ev_source e = ''development''"

definition readiness_readout :: "gate_env \<Rightarrow> gate_runner \<Rightarrow> pydict option" where
  "readiness_readout env g =
     (case (gr_boot_ms g, ge_readout_time env, py_int (PFloat (max_age_ms (gr_config g)))) of
        (Some boot, Some now, Inr age) \<Rightarrow>
          (case ge_xrange env (max boot (now - age)) of
             None \<Rightarrow> None
           | Some es \<Rightarrow>
               (case List.find (\<lambda>(_, e). is_readout e) (rev (decoded es)) of
                  None \<Rightarrow> None
                | Some (_, e) \<Rightarrow>
                    Some (case dget (ev_payload e) ''readout'' PNone of PDict d \<Rightarrow> d | _ \<Rightarrow> ev_payload e)))
      | _ \<Rightarrow> None)"

definition drop_request :: "gate_env \<Rightarrow> gate_runner \<Rightarrow> gate_runner" where
  "drop_request env g =
     (if gr_request g = None then g
      else g\<lparr>gr_request_file := (if ge_clear_request_fails env then gr_request_file g
                                  else clear_request (gr_request_file g)),
             gr_request := None, gr_ack_logged := False\<rparr>)"

definition ask_for_ack :: "gate_env \<Rightarrow> gate_runner \<Rightarrow> gate_runner" where
  "ask_for_ack env g =
     (if gr_request g \<noteq> None \<or> ge_request_write_fails env then g
      else let req = new_request (ge_uuid env) (ge_now env) (ss_development_started_at (gr_stage g))
           in g\<lparr>gr_request_file := write_request req (gr_request_file g), gr_request := Some req\<rparr>)"

definition action_name :: "maturation_action \<Rightarrow> string" where
  "action_name a = (case a of Developing \<Rightarrow> ''developing'' | Maturation \<Rightarrow> ''maturation''
     | HoldAwaitingEmbodiment \<Rightarrow> ''hold_awaiting_embodiment'' | HoldAwaitingAck \<Rightarrow> ''hold_awaiting_ack'')"

definition gate_status ::
  "gate_env \<Rightarrow> gate_runner \<Rightarrow> readiness option \<Rightarrow> pydict option \<Rightarrow> maturation_decision option \<Rightarrow>
   int option \<Rightarrow> pydict" where
  "gate_status env g r readout d passes =
     (let fac = faculties_of g in
     [(''lived_seconds'', PFloat (Fin (ss_lived_seconds (gr_stage g)))),
      (''sensory_schedule'', case ge_schedule env of None \<Rightarrow> PNone
         | Some (a, b) \<Rightarrow> PDict [(''stage'', PInt a), (''final_stage'', PInt b)]),
      (''sleep_count'', PInt (ss_sleep_count (gr_stage g))),
      (''consolidation_passes'', opt_val PInt passes),
      (''world'', PStr (if fa_embodiment fac then ''embodied'' else ''perceptual'')),
      (''conditions'', PDict [(''c2_sleep_required'', PBool (fa_sleep fac)),
         (''c2_consolidation_required'', PBool (fa_sleep fac \<and> fa_world_model fac))]),
      (''readiness'', case r of None \<Rightarrow> PNone
         | Some x \<Rightarrow> PDict [(''ready'', PBool (ready x)), (''passed'', strings (passed_markers x)),
             (''not_applicable'', strings (not_applicable x)), (''unmet'', strings (unmet x))]),
      (''readout'', opt_val PDict readout),
      (''decision'', case d of None \<Rightarrow> PNone
         | Some x \<Rightarrow> PDict [(''action'', PStr (action_name (dc_action x))), (''reason'', PStr (dc_reason x))]),
      (''awaiting_ack'', PBool (case d of None \<Rightarrow> False | Some x \<Rightarrow> dc_action x = HoldAwaitingAck)),
      (''request_id'', opt_val (\<lambda>q. PStr (mq_request_id q)) (gr_request g))])"

definition set_status ::
  "gate_env \<Rightarrow> readiness option \<Rightarrow> pydict option \<Rightarrow> maturation_decision option \<Rightarrow> int option \<Rightarrow>
   gate_runner \<Rightarrow> gate_runner" where
  "set_status env r readout d passes g = g\<lparr>gr_status := gate_status env g r readout d passes\<rparr>"

section \<open>Maturation\<close>

definition wake_vocal :: "gate_runner \<Rightarrow> gate_runner" where
  "wake_vocal g = (if ''vocal'' \<in> set (gr_modules g) then g\<lparr>gr_vocal_dormant := False\<rparr> else g)"

definition activate_embodiment :: "gate_env \<Rightarrow> gate_runner \<Rightarrow> bool \<times> gate_runner" where
  "activate_embodiment env g =
     (if ''embodiment'' \<notin> set (gr_modules g) then (True, g)
      else if ge_activates env then (True, g\<lparr>gr_embodiment_active := True\<rparr>)
      else (False, g))"

definition clear_ack_files :: "gate_env \<Rightarrow> gate_runner \<Rightarrow> gate_runner" where
  "clear_ack_files env g =
     (let g1 = (if ge_clear_request_fails env then g
                else let g' = g\<lparr>gr_request_file := clear_request (gr_request_file g)\<rparr>
                     in if ge_clear_ack_fails env then g'
                        else g'\<lparr>gr_ack_file := clear_ack (gr_ack_file g')\<rparr>)
      in g1\<lparr>gr_request := None\<rparr>)"

definition hand_over :: "gate_env \<Rightarrow> gate_runner \<Rightarrow> gate_runner" where
  "hand_over env g =
     (let g1 = (if ge_unlock_fails env then g else g\<lparr>gr_locus_locked := False\<rparr>)
      in if gr_has_hook g1 then g1\<lparr>gr_hook_calls := Suc (gr_hook_calls g1)\<rparr> else g1)"

definition do_maturation ::
  "gate_env \<Rightarrow> readiness \<Rightarrow> int \<Rightarrow> real \<Rightarrow> faculties \<Rightarrow> gate_runner \<Rightarrow> gate_runner \<times> py_exc option" where
  "do_maturation env r sleep_count lived_seconds fac g =
     (let before = gr_stage g;
          (ok, g2) = activate_embodiment env (wake_vocal g)
      in if \<not> ok
         then (gr_publish ''stage.maturation.ready''
                 (maturation_ready_payload (decide_maturation r False False False Faculties)) g2, None)
         else
           (let after = advance_to_embodied before None (ge_now env)
            in if \<not> maturation_is_new before after then (g2, None)
               else if ge_stage_write_fails env then (g2, Some OtherException)
               else
                 (let g3 = g2\<lparr>gr_stage_file := write_stage after (gr_stage_file g2), gr_stage := after\<rparr>;
                      g4 = hand_over env (clear_ack_files env g3)
                  in (gr_publish ''stage.maturation''
                        (maturation_payload r (PInt sleep_count) (PFloat (Fin lived_seconds)) fac) g4, None))))"

text \<open>What a decision does; \<open>Developing\<close> cannot occur for a ready entity.\<close>

definition act_on ::
  "gate_env \<Rightarrow> readiness \<Rightarrow> maturation_decision \<Rightarrow> gate_runner \<Rightarrow> gate_runner \<times> py_exc option" where
  "act_on env r d g =
     (case dc_action d of
        Maturation \<Rightarrow> do_maturation env r (ss_sleep_count (gr_stage g)) (ss_lived_seconds (gr_stage g)) (faculties_of g) g
      | HoldAwaitingEmbodiment \<Rightarrow>
          (gr_publish ''stage.maturation.ready'' (maturation_ready_payload d)
             ((drop_request env g)\<lparr>gr_embodiment_logged := True\<rparr>), None)
      | HoldAwaitingAck \<Rightarrow>
          (gr_publish ''stage.maturation.ready'' (maturation_ready_payload d)
             ((ask_for_ack env g)\<lparr>gr_ack_logged := True\<rparr>), None)
      | Developing \<Rightarrow> (g, None))"

definition embodiment_ready :: "gate_env \<Rightarrow> gate_runner \<Rightarrow> bool" where
  "embodiment_ready env g =
     (if fa_embodiment (faculties_of g)
      then (case embodiment_availability env g of (a, b, c) \<Rightarrow> embodiment_available a b c)
      else True)"

definition frozen_now :: "gate_env \<Rightarrow> bool" where
  "frozen_now env = (case ge_is_paused env of None \<Rightarrow> False | Some None \<Rightarrow> True | Some (Some p) \<Rightarrow> p)"

definition decide_and_act ::
  "gate_env \<Rightarrow> readiness \<Rightarrow> pydict option \<Rightarrow> gate_runner \<Rightarrow> gate_runner \<times> py_exc option" where
  "decide_and_act env r readout g =
     (case read_ack (gr_ack_file g) of
        Inl e \<Rightarrow> (g, Some e)
      | Inr ack \<Rightarrow>
          (let d = decide_maturation r (embodiment_ready env g) (is_acknowledged (gr_request g) ack)
                     (mc_require_operator_ack_for_maturation (gr_config g)) (faculties_of g);
               (g1, raised) = act_on env r d g
           in case raised of
                Some e \<Rightarrow> (g1, Some e)
              | None \<Rightarrow> (if dc_action d = Developing then g1
                         else set_status env (Some r) readout (Some d) (consolidation_passes env g) g1, None)))"

definition judge :: "gate_env \<Rightarrow> gate_runner \<Rightarrow> gate_runner \<times> py_exc option" where
  "judge env g =
     (let readout = readiness_readout env g; passes = consolidation_passes env g
      in case evaluate_readiness readout (Some (ss_sleep_count (gr_stage g))) passes (ge_schedule env)
                (gr_config g) (faculties_of g) of
           Inl e \<Rightarrow> (g, Some e)
         | Inr r \<Rightarrow>
             if \<not> ready r
             then (set_status env (Some r) readout None passes (drop_request env g), None)
             else if frozen_now env
             then (set_status env (Some r) readout None passes (g\<lparr>gr_deferred_logged := True\<rparr>), None)
             else decide_and_act env r readout (g\<lparr>gr_deferred_logged := False\<rparr>))"

text \<open>\<open>None\<close> when the count of sleeps does not end.\<close>

definition gather :: "gate_env \<Rightarrow> gate_runner \<Rightarrow> gate_runner option" where
  "gather env g =
     map_option (persist_if_changed env (gr_stage g))
       (count_sleeps env (record_stimulus_source_seconds env (accumulate_lived_time env g)))"

definition evaluate_once :: "gate_env \<Rightarrow> gate_runner \<Rightarrow> (gate_runner \<times> py_exc option) option" where
  "evaluate_once env g =
     (if \<not> gr_staging_enabled g \<or> \<not> is_developing (gr_stage g)
      then Some (set_status env None None None None g, None)
      else
        (let g1 = begin_boot env g
         in case blocked_reason g1 of
              Some NoStimulusSourceFeed \<Rightarrow>
                Some (set_status env None None None None
                        (gr_publish ''stage.development.no_stimulus'' development_no_stimulus_payload g1), None)
            | Some _ \<Rightarrow> Some (set_status env None None None None g1, None)
            | None \<Rightarrow> map_option (judge env) (gather env g1)))"

text \<open>The end of a run: the time since the last tick, then a last count.\<close>

definition final_lived_time :: "gate_env \<Rightarrow> gate_runner \<Rightarrow> gate_runner" where
  "final_lived_time env g =
     (if blocked_reason g \<noteq> None then g
      else let g1 = record_stimulus_source_seconds env (accumulate_lived_time env g)
           in if ge_persist_fails env then g1
              else g1\<lparr>gr_stage_file := write_stage (gr_stage g1) (gr_stage_file g1), gr_stage_written := True\<rparr>)"

definition final_sleep_count :: "gate_env \<Rightarrow> gate_runner \<Rightarrow> gate_runner option" where
  "final_sleep_count env g =
     (if blocked_reason g \<noteq> None then Some g
      else map_option (\<lambda>g'. if gr_stage g' \<noteq> gr_stage g then persist_if_changed env (gr_stage g) g' else g')
             (count_sleeps env g))"

text \<open>
  The loop, one environment per cadence: an evaluation that raises is logged and the loop goes
  on. The last environment is that of the shutdown.
\<close>

fun gate_loop :: "gate_env list \<Rightarrow> gate_runner \<Rightarrow> gate_runner option" where
  "gate_loop [] g = Some g"
| "gate_loop (env # envs) g =
     (case evaluate_once env g of None \<Rightarrow> None | Some (g', _) \<Rightarrow> gate_loop envs g')"

definition gate_run :: "gate_env list \<Rightarrow> gate_env \<Rightarrow> gate_runner \<Rightarrow> gate_runner option" where
  "gate_run envs final g =
     (if \<not> gr_staging_enabled g \<or> \<not> is_developing (gr_stage g) then Some g
      else case gate_loop envs g of
             None \<Rightarrow> None
           | Some g' \<Rightarrow> final_sleep_count final (final_lived_time final g'))"

section \<open>The count of sleeps\<close>

definition entries_after :: "string \<Rightarrow> entry list \<Rightarrow> entry list" where
  "entries_after c strm = filter (\<lambda>e. entry_id_sort_key c < entry_id_sort_key (fst e)) strm"

text \<open>
  What the gate relies on of Redis: the entries of a stream have increasing ids, and a read
  returns the first entries after the cursor, up to the count.
\<close>

definition redis_stream :: "xread \<Rightarrow> entry list \<Rightarrow> bool" where
  "redis_stream xr strm \<longleftrightarrow>
     sorted_wrt (\<lambda>a b. entry_id_sort_key (fst a) < entry_id_sort_key (fst b)) strm \<and>
     (\<forall>e \<in> set strm. fst e \<noteq> ''$'') \<and> (\<forall>c n. xr c n = Some (take n (entries_after c strm)))"

lemma decoded_append [simp]: "decoded (xs @ ys) = decoded xs @ decoded ys"
  by (simp add: decoded_def map_filter_def)

lemma sleeps_append [simp]: "sleeps_in (xs @ ys) = sleeps_in xs + sleeps_in ys"
  by (simp add: sleeps_in_def)

lemma filter_above_sorted:
  assumes "sorted_wrt (\<lambda>a b. k a < (k b :: 'k :: linorder)) (xs @ [x] @ ys)"
  shows "filter (\<lambda>e. k x < k e) (xs @ [x] @ ys) = ys"
proof -
  have "\<forall>e \<in> set xs. \<not> k x < k e" and "\<forall>e \<in> set ys. k x < k e"
    using assms by (auto simp: sorted_wrt_append)
  then show ?thesis by simp
qed

lemma after_last:
  assumes s: "sorted_wrt (\<lambda>a b. entry_id_sort_key (fst a) < entry_id_sort_key (fst b)) strm"
    and z: "entries_after c strm = xs @ [x] @ ys"
  shows "entries_after (fst x) strm = ys"
proof -
  have "x \<in> set (entries_after c strm)" by (simp add: z)
  then have cx: "entry_id_sort_key c < entry_id_sort_key (fst x)" by (simp add: entries_after_def)
  have "entries_after (fst x) strm = filter (\<lambda>e. entry_id_sort_key (fst x) < entry_id_sort_key (fst e)) (entries_after c strm)"
    unfolding entries_after_def filter_filter by (rule filter_cong [OF refl]) (use cx in auto)
  also have "\<dots> = ys"
    unfolding z
  proof (rule filter_above_sorted)
    have "sorted_wrt (\<lambda>a b. entry_id_sort_key (fst a) < entry_id_sort_key (fst b)) (entries_after c strm)"
      unfolding entries_after_def using s by (rule sorted_wrt_filter)
    then show "sorted_wrt (\<lambda>a b. entry_id_sort_key (fst a) < entry_id_sort_key (fst b)) (xs @ [x] @ ys)"
      by (simp add: z)
  qed
  finally show ?thesis .
qed

lemma last_split: "zs \<noteq> [] \<Longrightarrow> zs @ ys = butlast zs @ [last zs] @ ys"
  by simp

lemma count_loop_result:
  assumes xr: "redis_stream xr strm" and c: "c \<noteq> ''$''"
  shows "count_loop xr c tot =
    Some (Inr (tot + sleeps_in (decoded (entries_after c strm)),
               if entries_after c strm = [] then c else fst (last (entries_after c strm))))"
  using c
proof (induction "length (entries_after c strm)" arbitrary: c tot rule: less_induct)
  case less
  define zs where "zs = take 100 (entries_after c strm)"
  have rd: "read_entries xr c 100 = Inr (decoded zs, if zs = [] then None else Some (fst (last zs)))"
    using xr less.prems by (simp add: read_entries_def redis_stream_def zs_def)
  show ?case
  proof (cases "entries_after c strm = []")
    case True
    then have "zs = []" by (simp add: zs_def)
    with True rd show ?thesis by (subst count_loop.simps) (simp add: decoded_def sleeps_in_def map_filter_def)
  next
    case False
    then have zs: "zs \<noteq> []" by (simp add: zs_def)
    let ?c = "fst (last zs)" and ?rest = "drop 100 (entries_after c strm)"
    have split: "entries_after c strm = zs @ ?rest" by (simp add: zs_def)
    have a: "entries_after ?c strm = ?rest"
    proof (rule after_last)
      show "entries_after c strm = butlast zs @ [last zs] @ ?rest"
        using split last_split [OF zs, of ?rest] by (rule trans)
    qed (use xr in \<open>simp add: redis_stream_def\<close>)
    have "last zs \<in> set zs" using zs by simp
    then have "last zs \<in> set strm" unfolding zs_def entries_after_def by (auto dest: in_set_takeD)
    then have d: "?c \<noteq> ''$''" using xr by (simp add: redis_stream_def)
    have "count_loop xr c tot = count_loop xr ?c (tot + sleeps_in (decoded zs))"
      by (subst count_loop.simps) (simp add: rd zs)
    also have "\<dots> = Some (Inr (tot + sleeps_in (decoded zs) + sleeps_in (decoded ?rest),
        if ?rest = [] then ?c else fst (last ?rest)))"
      using less.hyps [OF _ d] False unfolding a by simp
    also have "tot + sleeps_in (decoded zs) + sleeps_in (decoded ?rest) = tot + sleeps_in (decoded (entries_after c strm))"
      by (subst (2) split) simp
    also have "(if ?rest = [] then ?c else fst (last ?rest)) = fst (last (entries_after c strm))"
      by (subst (2) split) (use zs in \<open>simp add: last_append\<close>)
    finally show ?thesis using False by simp
  qed
qed

text \<open>Reading again after more entries arrived counts those only.\<close>

lemma entries_after_append:
  assumes "sorted_wrt (\<lambda>a b. entry_id_sort_key (fst a) < entry_id_sort_key (fst b)) (strm @ new)"
    and "entries_after c strm \<noteq> []"
  shows "entries_after c (strm @ new) = entries_after c strm @ new \<and>
    entries_after (fst (last (entries_after c strm))) (strm @ new) = new"
proof -
  let ?a = "entries_after c strm"
  have "last ?a \<in> set ?a" using assms(2) by simp
  then have l: "last ?a \<in> set strm" "entry_id_sort_key c < entry_id_sort_key (fst (last ?a))"
    by (simp_all add: entries_after_def)
  have "\<forall>e \<in> set new. entry_id_sort_key (fst (last ?a)) < entry_id_sort_key (fst e)"
    using assms(1) l(1) by (simp add: sorted_wrt_append)
  then have "entries_after c new = new"
    using l(2) by (auto simp: entries_after_def intro!: filter_True)
  then have e: "entries_after c (strm @ new) = ?a @ new" by (simp add: entries_after_def)
  moreover have "entries_after (fst (last ?a)) (strm @ new) = new"
  proof (rule after_last [OF assms(1)])
    show "entries_after c (strm @ new) = butlast ?a @ [last ?a] @ new"
      unfolding e by (rule last_split [OF assms(2)])
  qed
  ultimately show ?thesis by simp
qed

lemma count_twice:
  assumes xr: "redis_stream xr strm" and xr': "redis_stream xr' (strm @ new)" and c: "c \<noteq> ''$''"
    and s: "ss_sleep_cursor s = Some c"
  shows "\<exists>s1 s2. count_new_sleeps n xr s = Some s1 \<and> count_new_sleeps n' xr' s1 = Some s2 \<and>
    count_new_sleeps n' xr' s = Some s2 \<and>
    ss_sleep_count s1 = ss_sleep_count s + sleeps_in (decoded (entries_after c strm)) \<and>
    ss_sleep_count s2 = ss_sleep_count s + sleeps_in (decoded (entries_after c (strm @ new)))"
proof -
  let ?a = "entries_after c strm"
  let ?c = "if ?a = [] then c else fst (last ?a)"
  define s1 where "s1 = s\<lparr>ss_sleep_count := ss_sleep_count s + sleeps_in (decoded ?a), ss_sleep_cursor := Some ?c\<rparr>"
  have 1: "count_new_sleeps n xr s = Some s1"
    using count_loop_result [OF xr c] s by (simp add: count_new_sleeps_def s1_def)
  have "last ?a \<in> set strm" if "?a \<noteq> []"
    using last_in_set [OF that] by (auto simp: entries_after_def)
  then have d: "?c \<noteq> ''$''" using c xr by (auto simp: redis_stream_def)
  have srt: "sorted_wrt (\<lambda>a b. entry_id_sort_key (fst a) < entry_id_sort_key (fst b)) (strm @ new)"
    using xr' by (simp add: redis_stream_def)
  define r2 where "r2 = entries_after ?c (strm @ new)"
  have split: "entries_after c (strm @ new) = ?a @ r2"
  proof (cases "?a = []")
    case True
    then show ?thesis by (simp add: r2_def)
  next
    case False
    with entries_after_append [OF srt False] show ?thesis by (simp add: r2_def)
  qed
  define s2 where "s2 = s\<lparr>ss_sleep_count := ss_sleep_count s + sleeps_in (decoded (?a @ r2)),
      ss_sleep_cursor := Some (if ?a @ r2 = [] then c else fst (last (?a @ r2)))\<rparr>"
  have 2: "count_new_sleeps n' xr' s1 = Some s2"
    using count_loop_result [OF xr' d, of "ss_sleep_count s1"]
    by (simp add: count_new_sleeps_def s1_def s2_def flip: r2_def)
  have 3: "count_new_sleeps n' xr' s = Some s2"
    using count_loop_result [OF xr' c] s by (simp add: count_new_sleeps_def s2_def split)
  show ?thesis using 1 2 3 by (intro exI [of _ s1] exI [of _ s2]) (simp add: s1_def s2_def split)
qed

section \<open>What an evaluation can do\<close>

definition maturations :: "gate_runner \<Rightarrow> nat" where
  "maturations g = length (filter (\<lambda>(t, _). t = ''stage.maturation'') (gr_published g))"

text \<open>Two states between which no maturation happened.\<close>

definition quiet :: "gate_runner \<Rightarrow> gate_runner \<Rightarrow> bool" where
  "quiet g g' \<longleftrightarrow> ss_stage (gr_stage g') = ss_stage (gr_stage g) \<and> maturations g' = maturations g \<and>
     gr_hook_calls g' = gr_hook_calls g \<and> gr_staging_enabled g' = gr_staging_enabled g"

lemma quiet_refl [simp]: "quiet g g"
  by (simp add: quiet_def)

lemma quiet_trans: "quiet a b \<Longrightarrow> quiet b c \<Longrightarrow> quiet a c"
  by (simp add: quiet_def)

lemma maturations_publish [simp]:
  "maturations (gr_publish t p g) = maturations g + (if t = ''stage.maturation'' then 1 else 0)"
  by (simp add: maturations_def gr_publish_def)

lemma publish_frame [simp]:
  "gr_stage (gr_publish t p g) = gr_stage g" "gr_hook_calls (gr_publish t p g) = gr_hook_calls g"
  "gr_staging_enabled (gr_publish t p g) = gr_staging_enabled g"
  "gr_stage_file (gr_publish t p g) = gr_stage_file g"
  "gr_vocal_dormant (gr_publish t p g) = gr_vocal_dormant g"
  by (simp_all add: gr_publish_def)

lemma quiet_publish: "t \<noteq> ''stage.maturation'' \<Longrightarrow> quiet g (gr_publish t p g)"
  by (simp add: quiet_def)

lemma quiet_steps:
  "quiet g (set_status env a b c d g)" "quiet g (drop_request env g)" "quiet g (ask_for_ack env g)"
  "quiet g (begin_boot env g)" "quiet g (wake_vocal g)" "quiet g (snd (activate_embodiment env g))"
  "quiet g (g\<lparr>gr_deferred_logged := x\<rparr>)" "quiet g (g\<lparr>gr_embodiment_logged := x\<rparr>)"
  "quiet g (g\<lparr>gr_ack_logged := x\<rparr>)" "quiet g (persist_if_changed env before g)"
  "quiet g (record_stimulus_source_seconds env g)" "quiet g (accumulate_lived_time env g)"
  by (simp_all add: quiet_def maturations_def set_status_def drop_request_def ask_for_ack_def begin_boot_def
      wake_vocal_def activate_embodiment_def persist_if_changed_def record_stimulus_source_seconds_def
      accumulate_lived_time_def Let_def case_prod_beta split: option.split pyfloat.split)

lemma count_new_sleeps_stage: "count_new_sleeps n xr s = Some s' \<Longrightarrow> ss_stage s' = ss_stage s"
  by (auto simp: count_new_sleeps_def split: option.splits sum.splits)

lemma quiet_count: "count_sleeps env g = Some g' \<Longrightarrow> quiet g g'"
  by (auto simp: count_sleeps_def quiet_def maturations_def dest: count_new_sleeps_stage)

text \<open>What gathering the evidence leaves alone.\<close>

lemma gather_frame:
  assumes "gather env g = Some g'"
  shows "quiet g g' \<and> gr_request g' = gr_request g \<and> gr_ack_file g' = gr_ack_file g \<and>
    gr_config g' = gr_config g \<and> gr_modules g' = gr_modules g"
proof -
  let ?h = "record_stimulus_source_seconds env (accumulate_lived_time env g)"
  obtain h where h: "count_sleeps env ?h = Some h" and g': "g' = persist_if_changed env (gr_stage g) h"
    using assms by (auto simp: gather_def)
  have "quiet g ?h" using quiet_steps(11,12) quiet_trans by blast
  then have "quiet g g'" unfolding g' using quiet_count [OF h] quiet_steps(10) quiet_trans by blast
  moreover have "gr_request ?h = gr_request g \<and> gr_ack_file ?h = gr_ack_file g \<and>
      gr_config ?h = gr_config g \<and> gr_modules ?h = gr_modules g"
    by (simp add: record_stimulus_source_seconds_def accumulate_lived_time_def Let_def case_prod_beta
        split: option.split pyfloat.split)
  moreover have "gr_request h = gr_request ?h \<and> gr_ack_file h = gr_ack_file ?h \<and>
      gr_config h = gr_config ?h \<and> gr_modules h = gr_modules ?h"
    using h by (auto simp: count_sleeps_def)
  ultimately show ?thesis by (simp add: g' persist_if_changed_def)
qed

text \<open>The one transition that is not quiet.\<close>

definition matured :: "gate_env \<Rightarrow> gate_runner \<Rightarrow> gate_runner \<Rightarrow> bool" where
  "matured env g g' \<longleftrightarrow>
     is_embodied (gr_stage g') \<and> maturations g' = Suc (maturations g) \<and>
     gr_hook_calls g' = gr_hook_calls g + (if gr_has_hook g then 1 else 0) \<and>
     gr_staging_enabled g' = gr_staging_enabled g \<and>
     gr_stage_file g' = Doc (PDict (stage_to_dict (gr_stage g'))) \<and>
     (''embodiment'' \<in> set (gr_modules g) \<longrightarrow> ge_activates env)"

lemma do_maturation_cases:
  assumes "do_maturation env r n l fac g = (g', ex)" and "is_developing (gr_stage g)"
  shows "quiet g g' \<or> ex = None \<and> matured env g g'"
proof -
  define g2 where "g2 = snd (activate_embodiment env (wake_vocal g))"
  have q: "quiet g g2" unfolding g2_def using quiet_steps(5,6) quiet_trans by blast
  have hook: "gr_has_hook g2 = gr_has_hook g" and act: "fst (activate_embodiment env (wake_vocal g)) \<Longrightarrow>
      ''embodiment'' \<in> set (gr_modules g) \<longrightarrow> ge_activates env"
    by (auto simp: g2_def activate_embodiment_def wake_vocal_def split: if_splits)
  let ?after = "advance_to_embodied (gr_stage g) None (ge_now env)"
  have new: "maturation_is_new (gr_stage g) ?after" "is_embodied ?after"
    using assms(2) by (simp_all add: maturation_is_new_def advance_to_embodied_def is_embodied_def)
  consider (failed) "\<not> fst (activate_embodiment env (wake_vocal g))"
    | (raised) "fst (activate_embodiment env (wake_vocal g))" "ge_stage_write_fails env"
    | (written) "fst (activate_embodiment env (wake_vocal g))" "\<not> ge_stage_write_fails env" by blast
  then show ?thesis
  proof cases
    case failed
    with assms(1) have "g' = gr_publish ''stage.maturation.ready''
        (maturation_ready_payload (decide_maturation r False False False Faculties)) g2"
      by (auto simp: do_maturation_def case_prod_beta Let_def g2_def)
    then show ?thesis using quiet_trans [OF q] quiet_publish by auto
  next
    case raised
    with assms(1) new have "g' = g2" by (auto simp: do_maturation_def case_prod_beta Let_def g2_def)
    with q show ?thesis by simp
  next
    case written
    define g3 where "g3 = g2\<lparr>gr_stage_file := write_stage ?after (gr_stage_file g2), gr_stage := ?after\<rparr>"
    define g4 where "g4 = hand_over env (clear_ack_files env g3)"
    have g': "g' = gr_publish ''stage.maturation'' (maturation_payload r (PInt n) (PFloat (Fin l)) fac) g4" "ex = None"
      using written assms(1) new by (auto simp: do_maturation_def case_prod_beta Let_def g4_def g3_def g2_def)
    have "gr_stage g4 = ?after" "gr_stage_file g4 = Doc (PDict (stage_to_dict ?after))"
      "maturations g4 = maturations g2" "gr_staging_enabled g4 = gr_staging_enabled g2"
      "gr_hook_calls g4 = gr_hook_calls g2 + (if gr_has_hook g2 then 1 else 0)"
      by (simp_all add: g4_def g3_def hand_over_def clear_ack_files_def maturations_def Let_def
          write_stage_def write_json_atomic_def)
    then show ?thesis
      using q new act [OF written(1)] by (simp add: g' matured_def quiet_def hook)
  qed
qed

text \<open>The acknowledgement, when required: the request stood before, and the file names it.\<close>

definition acknowledged :: "gate_runner \<Rightarrow> bool" where
  "acknowledged g \<longleftrightarrow>
     (\<exists>req a. gr_request g = Some req \<and> read_ack (gr_ack_file g) = Inr (Some a) \<and>
        mq_request_id req = mk_request_id a)"

lemma act_on_quiet:
  assumes "act_on env r d g = (g', ex)" and "dc_action d \<noteq> Maturation"
  shows "quiet g g'"
proof -
  have p: "quiet h (gr_publish ''stage.maturation.ready'' (maturation_ready_payload d) h)" for h
    by (rule quiet_publish) simp
  have e: "quiet g (gr_publish ''stage.maturation.ready'' (maturation_ready_payload d)
      ((drop_request env g)\<lparr>gr_embodiment_logged := True\<rparr>))"
    by (rule quiet_trans [OF quiet_steps(2)], rule quiet_trans [OF quiet_steps(8) p])
  have a: "quiet g (gr_publish ''stage.maturation.ready'' (maturation_ready_payload d)
      ((ask_for_ack env g)\<lparr>gr_ack_logged := True\<rparr>))"
    by (rule quiet_trans [OF quiet_steps(3)], rule quiet_trans [OF quiet_steps(9) p])
  show ?thesis using assms e a by (cases "dc_action d") (auto simp: act_on_def)
qed

lemma decide_and_act_cases:
  assumes "decide_and_act env r ro g = (g', ex)" and dev: "is_developing (gr_stage g)"
  shows "quiet g g' \<or> matured env g g' \<and> ready r \<and>
    (fa_embodiment (faculties_of g) \<longrightarrow> embodiment_ready env g) \<and>
    (mc_require_operator_ack_for_maturation (gr_config g) \<longrightarrow> acknowledged g)"
proof (cases "read_ack (gr_ack_file g)")
  case (Inl e)
  with assms(1) show ?thesis by (simp add: decide_and_act_def)
next
  case (Inr ack)
  define d where "d = decide_maturation r (embodiment_ready env g) (is_acknowledged (gr_request g) ack)
      (mc_require_operator_ack_for_maturation (gr_config g)) (faculties_of g)"
  obtain g1 raised where a: "act_on env r d g = (g1, raised)" by (cases "act_on env r d g")
  have g': "g' = g1 \<or> g' = set_status env (Some r) ro (Some d) (consolidation_passes env g) g1"
    using assms(1) Inr a by (auto simp: decide_and_act_def Let_def split: option.splits if_splits simp flip: d_def)
  have "quiet g1 g'" using g' quiet_steps(1) by auto
  show ?thesis
  proof (cases "dc_action d = Maturation")
    case False
    with act_on_quiet [OF a] \<open>quiet g1 g'\<close> quiet_trans show ?thesis by blast
  next
    case True
    then have dm: "do_maturation env r (ss_sleep_count (gr_stage g)) (ss_lived_seconds (gr_stage g))
        (faculties_of g) g = (g1, raised)" using a by (simp add: act_on_def)
    have ev: "ready r \<and> (fa_embodiment (faculties_of g) \<longrightarrow> embodiment_ready env g) \<and>
        (mc_require_operator_ack_for_maturation (gr_config g) \<longrightarrow> is_acknowledged (gr_request g) ack)"
      using True unfolding d_def decide_maturation_iff .
    have ack: "is_acknowledged (gr_request g) ack \<Longrightarrow> acknowledged g"
      using Inr by (auto simp: is_acknowledged_def acknowledged_def split: option.splits)
    show ?thesis
      using do_maturation_cases [OF dm dev]
    proof
      assume "quiet g g1"
      with \<open>quiet g1 g'\<close> quiet_trans show ?thesis by blast
    next
      assume m: "raised = None \<and> matured env g g1"
      have "gr_stage g' = gr_stage g1 \<and> gr_stage_file g' = gr_stage_file g1"
        using g' by (auto simp: set_status_def)
      then have "matured env g g'" using m \<open>quiet g1 g'\<close> by (auto simp: matured_def quiet_def)
      then show ?thesis using ev ack by blast
    qed
  qed
qed

text \<open>The evidence in the state after gathering, when an evaluation matures.\<close>

definition evidence :: "gate_env \<Rightarrow> gate_runner \<Rightarrow> bool" where
  "evidence env g \<longleftrightarrow>
     (\<exists>d. readiness_readout env g = Some d \<and> markers_crossed d (mc_regulation_thresholds (gr_config g))) \<and>
     (''sleep'' \<in> set (gr_modules g) \<longrightarrow> mc_min_sleep_cycles (gr_config g) \<le> ss_sleep_count (gr_stage g)) \<and>
     (''sleep'' \<in> set (gr_modules g) \<and> ''world_model'' \<in> set (gr_modules g) \<longrightarrow>
        (\<exists>p. ge_passes env = Some p \<and> mc_min_consolidation_passes (gr_config g) \<le> p)) \<and>
     (\<exists>st fs. ge_schedule env = Some (st, fs) \<and> fs \<le> st) \<and>
     \<not> frozen_now env \<and>
     (''embodiment'' \<in> set (gr_modules g) \<longrightarrow> ge_embodiment env = (True, True, True) \<and> ge_activates env) \<and>
     (mc_require_operator_ack_for_maturation (gr_config g) \<longrightarrow> acknowledged g)"

lemma judge_cases:
  assumes "judge env g = (g', ex)" and dev: "is_developing (gr_stage g)"
  shows "quiet g g' \<or> matured env g g' \<and> evidence env g"
proof -
  let ?e = "evaluate_readiness (readiness_readout env g) (Some (ss_sleep_count (gr_stage g)))
      (consolidation_passes env g) (ge_schedule env) (gr_config g) (faculties_of g)"
  show ?thesis
  proof (cases ?e)
    case (Inl e)
    with assms(1) show ?thesis by (simp add: judge_def Let_def)
  next
    case (Inr r)
    show ?thesis
    proof (cases "ready r \<and> \<not> frozen_now env")
      case False
      then have "quiet g g'"
        using assms(1) Inr quiet_trans [OF quiet_steps(2) [of g env] quiet_steps(1)]
          quiet_trans [OF quiet_steps(7) [of g True] quiet_steps(1)]
        by (auto simp: judge_def Let_def split: if_splits)
      then show ?thesis by simp
    next
      case True
      define h where "h = g\<lparr>gr_deferred_logged := False\<rparr>"
      have d: "decide_and_act env r (readiness_readout env g) h = (g', ex)"
        using assms(1) Inr True by (simp add: judge_def Let_def h_def)
      have h: "quiet g h" "gr_stage h = gr_stage g" "gr_modules h = gr_modules g" "gr_config h = gr_config g"
        "acknowledged h = acknowledged g" "gr_has_hook h = gr_has_hook g"
        "faculties_of h = faculties_of g" "embodiment_ready env h = embodiment_ready env g"
        by (simp_all add: h_def quiet_steps acknowledged_def faculties_of_def embodiment_ready_def
            embodiment_availability_def)
      consider "quiet h g'" | "matured env h g'" "fa_embodiment (faculties_of h) \<longrightarrow> embodiment_ready env h"
        "mc_require_operator_ack_for_maturation (gr_config h) \<longrightarrow> acknowledged h"
        using decide_and_act_cases [OF d] dev h by auto
      then show ?thesis
      proof cases
        case 1
        with h(1) quiet_trans show ?thesis by blast
      next
        case 2
        have m: "matured env g g'" using 2(1) h by (simp add: matured_def quiet_def)
        have "evidence env g"
          unfolding evidence_def
          using True 2 h m ready_iff [OF Inr]
          by (auto simp: matured_def faculties_of_def consolidation_passes_def embodiment_ready_def
              embodiment_availability_def embodiment_available_def split: prod.splits if_splits)
        with m show ?thesis by simp
      qed
    qed
  qed
qed

lemma evaluate_cases:
  assumes "evaluate_once env g = Some (g', ex)"
  shows "quiet g g' \<or> is_developing (gr_stage g) \<and> maturations g' = Suc (maturations g) \<and>
    (\<exists>h. gather env (begin_boot env g) = Some h \<and> gr_request h = gr_request g \<and>
         gr_ack_file h = gr_ack_file g \<and> matured env h g' \<and> evidence env h)"
proof -
  define g1 where "g1 = begin_boot env g"
  have q1: "quiet g g1" by (simp add: g1_def quiet_steps)
  show ?thesis
  proof (cases "blocked_reason g1 = None \<and> is_developing (gr_stage g)")
    case False
    have ns: "''stage.development.no_stimulus'' \<noteq> ''stage.maturation''" by simp
    have dev: "is_developing (gr_stage g1) = is_developing (gr_stage g)" "gr_staging_enabled g1 = gr_staging_enabled g"
      using q1 by (simp_all add: quiet_def is_developing_def)
    have "quiet g (set_status env None None None None (gr_publish ''stage.development.no_stimulus'' p g1))" for p
      by (rule quiet_trans [OF q1], rule quiet_trans [OF quiet_publish [OF ns] quiet_steps(1)])
    then have "quiet g g'"
      using assms False q1 quiet_steps(1) dev
      unfolding evaluate_once_def Let_def g1_def [symmetric]
      by (auto split: if_splits option.splits blocked.splits intro: quiet_trans simp: blocked_reason_def)
    then show ?thesis by simp
  next
    case True
    then have st: "gr_staging_enabled g1" "is_developing (gr_stage g1)"
      by (auto simp: blocked_reason_def split: if_splits)
    have "gr_staging_enabled g" using st(1) q1 by (simp add: quiet_def)
    then obtain h where h: "gather env g1 = Some h" and j: "judge env h = (g', ex)"
      using assms True unfolding evaluate_once_def Let_def g1_def [symmetric] by auto
    have f: "quiet g1 h" "gr_request h = gr_request g1" "gr_ack_file h = gr_ack_file g1"
      using gather_frame [OF h] by simp_all
    have b: "gr_request g1 = gr_request g" "gr_ack_file g1 = gr_ack_file g"
      by (simp_all add: g1_def begin_boot_def)
    have dh: "is_developing (gr_stage h)" using st(2) f(1) by (simp add: quiet_def is_developing_def)
    show ?thesis
      using judge_cases [OF j dh]
    proof
      assume "quiet h g'"
      with q1 f(1) quiet_trans show ?thesis by blast
    next
      assume m: "matured env h g' \<and> evidence env h"
      then have "maturations g' = Suc (maturations g)"
        using q1 f(1) by (simp add: matured_def quiet_def)
      with m h f b True show ?thesis by (auto simp: g1_def)
    qed
  qed
qed

lemma evaluate_developing_only:
  "evaluate_once env g = Some (g', ex) \<Longrightarrow> \<not> is_developing (gr_stage g) \<Longrightarrow> quiet g g'"
  using evaluate_cases by blast

definition matured_count :: "nat \<Rightarrow> nat \<Rightarrow> gate_runner \<Rightarrow> bool" where
  "matured_count m k g \<longleftrightarrow>
     (if is_embodied (gr_stage g) then maturations g = Suc m \<and> gr_hook_calls g \<le> Suc k
      else maturations g = m \<and> gr_hook_calls g = k)"

lemma evaluate_matured_count:
  assumes "evaluate_once env g = Some (g', ex)" and "matured_count m k g"
  shows "matured_count m k g'"
proof -
  have emb: "is_embodied (gr_stage g) \<longleftrightarrow> \<not> is_developing (gr_stage g)"
    by (cases "ss_stage (gr_stage g)") (simp_all add: is_embodied_def is_developing_def)
  from evaluate_cases [OF assms(1)] show ?thesis
  proof
    assume "quiet g g'"
    with assms(2) show ?thesis by (simp add: matured_count_def quiet_def is_embodied_def)
  next
    assume a: "is_developing (gr_stage g) \<and> maturations g' = Suc (maturations g) \<and>
      (\<exists>h. gather env (begin_boot env g) = Some h \<and> gr_request h = gr_request g \<and>
         gr_ack_file h = gr_ack_file g \<and> matured env h g' \<and> evidence env h)"
    then obtain h where h: "gather env (begin_boot env g) = Some h" "matured env h g'" by blast
    have "quiet g h" using gather_frame [OF h(1)] quiet_steps(4) quiet_trans by blast
    then have "gr_hook_calls g' \<le> Suc (gr_hook_calls g)" using h(2) by (simp add: matured_def quiet_def)
    then show ?thesis using a emb assms(2) h(2) by (auto simp: matured_count_def matured_def)
  qed
qed

lemma gate_loop_matured_count:
  "gate_loop envs g = Some g' \<Longrightarrow> matured_count m k g \<Longrightarrow> matured_count m k g'"
  by (induction envs g rule: gate_loop.induct)
    (auto split: option.splits dest: evaluate_matured_count)

section \<open>A concrete runner\<close>

definition no_reading :: xread where
  "no_reading c n = Some []"

definition readout_entry :: entry where
  "readout_entry = (''5-0'', Some \<lparr>ev_source = ''development'', ev_type = ''development.readiness'',
     ev_payload = [(''readout'', PDict (sample_readout (Fin (1 / 10))))], ev_salience = 0,
     ev_timestamp = 0, ev_parent = None\<rparr>)"

definition sample_gate_env :: "bool \<Rightarrow> gate_env" where
  "sample_gate_env activates = \<lparr>ge_server_time = Some 1, ge_readout_time = Some 5, ge_clock = Some (Fin 0),
     ge_paused = Some (Fin 0), ge_source_seconds = None, ge_schedule = Some (2, 2), ge_newest = Some [],
     ge_xread = no_reading, ge_xrange = \<lambda>_. Some [readout_entry], ge_passes = Some 3,
     ge_is_paused = Some (Some False), ge_embodiment = (True, True, True), ge_activates = activates,
     ge_persist_fails = False, ge_stage_write_fails = False, ge_request_write_fails = False,
     ge_clear_request_fails = False, ge_clear_ack_fails = False, ge_unlock_fails = False,
     ge_uuid = replicate 32 (CHR ''a''), ge_now = ''now''\<rparr>"

definition sample_gate :: "string list \<Rightarrow> gate_runner" where
  "sample_gate modules = \<lparr>gr_config = sample_maturation_config, gr_modules = modules,
     gr_stage = (StageState Development)\<lparr>ss_sleep_count := 6, ss_sleep_cursor := Some ''1-0''\<rparr>,
     gr_staging_enabled = True, gr_feed_configured = True, gr_boot_ms = None, gr_lived = lived_init True True,
     gr_stage_written = False, gr_embodiment_logged = False, gr_ack_logged = False,
     gr_deferred_logged = False, gr_request = None, gr_status = [], gr_stage_file = Absent,
     gr_request_file = RAbsent, gr_ack_file = RAbsent, gr_published = [], gr_vocal_dormant = True,
     gr_embodiment_active = False, gr_locus_locked = True, gr_has_hook = True, gr_hook_calls = 0\<rparr>"

lemma no_reading_stream: "redis_stream no_reading []"
  by (simp add: redis_stream_def no_reading_def entries_after_def)

lemma count_loop_no_reading: "c \<noteq> ''$'' \<Longrightarrow> count_loop no_reading c tot = Some (Inr (tot, c))"
  using count_loop_result [OF no_reading_stream, of c tot]
  by (simp add: entries_after_def decoded_def sleeps_in_def map_filter_def)

definition gathered_gate :: "string list \<Rightarrow> gate_runner" where
  "gathered_gate modules = (sample_gate modules)\<lparr>gr_boot_ms := Some 1,
     gr_lived := \<lparr>la_has_clock = True, la_has_paused = True, la_clock_baseline = Some (Fin 0),
       la_paused_baseline = Some (Fin 0)\<rparr>,
     gr_stage_file := write_stage (gr_stage (sample_gate modules)) Absent, gr_stage_written := True\<rparr>"

lemma sample_gather:
  "gather (sample_gate_env a) (begin_boot (sample_gate_env a) (sample_gate ms)) = Some (gathered_gate ms)"
  by (simp add: gather_def begin_boot_def sample_gate_env_def sample_gate_def gathered_gate_def
      accumulate_lived_time_def lived_init_def lived_step_def record_stimulus_source_seconds_def
      count_sleeps_def count_new_sleeps_def count_loop_no_reading persist_if_changed_def)

lemma fl_of_real_small [simp]: "\<bar>r\<bar> \<le> 2 ^ 64 \<Longrightarrow> fl_of_real r = Fin r"
proof -
  assume "\<bar>r\<bar> \<le> 2 ^ 64"
  moreover have "(2::real) ^ 64 < fl_limit" by (simp add: fl_limit_def)
  ultimately show ?thesis by (simp add: fl_of_real_def abs_le_iff)
qed

lemma sample_config_values:
  "mc_min_sleep_cycles sample_maturation_config = 5"
  "mc_min_consolidation_passes sample_maturation_config = 3"
  "mc_require_operator_ack_for_maturation sample_maturation_config = False"
  "mc_readout_max_age_cadences sample_maturation_config = Fin 3"
  "mc_gate_cadence_seconds sample_maturation_config = Fin 60"
  "mc_regulation_thresholds sample_maturation_config = \<lparr>rt_endogenous_self_sustain = True,
     rt_entrain_then_autonomy = True, rt_hrv_variability_floor = Fin (2 / 100),
     rt_stimulus_source_prediction_error_ceiling = Fin (3 / 10),
     rt_return_to_baseline_seconds_ceiling = Fin 30\<rparr>"
  by (simp_all add: sample_maturation_config_def maturation_config_of_def thresholds_from_dict_def)

lemma sample_readout_read:
  "readiness_readout (sample_gate_env a) (gathered_gate ms) = Some (sample_readout (Fin (1 / 10)))"
  by (simp add: readiness_readout_def gathered_gate_def sample_gate_def sample_gate_env_def max_age_ms_def
      sample_config_values readout_entry_def decoded_def map_filter_def is_readout_def)

lemma sample_judge:
  "\<exists>r. evaluate_readiness (Some (sample_readout (Fin (1 / 10)))) (Some 6) p (Some (2, 2))
     sample_maturation_config \<lparr>fa_sleep = True, fa_world_model = False, fa_embodiment = e\<rparr> = Inr r \<and> ready r"
proof -
  let ?f = "\<lparr>fa_sleep = True, fa_world_model = False, fa_embodiment = e\<rparr>"
  have "\<exists>c. evaluate_c1 (Some (sample_readout (Fin (1 / 10)))) (mc_regulation_thresholds sample_maturation_config) = Inr c"
    by (simp add: evaluate_c1_def sample_readout_def)
  then obtain r where r: "evaluate_readiness (Some (sample_readout (Fin (1 / 10)))) (Some 6) p (Some (2, 2))
     sample_maturation_config ?f = Inr r"
    by (auto simp: evaluate_readiness_def)
  have "ready r"
    by (simp add: ready_iff [OF r] markers_crossed_def sample_readout_def sample_config_values)
  with r show ?thesis by blast
qed

lemma sample_evaluation:
  "\<exists>r. ready r \<and> evaluate_once (sample_gate_env a) (sample_gate [''sleep'', ''vocal'', ''embodiment'']) =
     Some (decide_and_act (sample_gate_env a) r (Some (sample_readout (Fin (1 / 10))))
            (gathered_gate [''sleep'', ''vocal'', ''embodiment'']))"
proof -
  let ?ms = "[''sleep'', ''vocal'', ''embodiment'']"
  obtain r where r: "evaluate_readiness (Some (sample_readout (Fin (1 / 10)))) (Some 6) None (Some (2, 2))
     sample_maturation_config \<lparr>fa_sleep = True, fa_world_model = False, fa_embodiment = True\<rparr> = Inr r" "ready r"
    using sample_judge by blast
  let ?g = "gathered_gate ?ms" and ?e = "sample_gate_env a"
  have g: "ss_sleep_count (gr_stage ?g) = 6" "gr_config ?g = sample_maturation_config"
    "faculties_of ?g = \<lparr>fa_sleep = True, fa_world_model = False, fa_embodiment = True\<rparr>"
    "consolidation_passes ?e ?g = None" "ge_schedule ?e = Some (2, 2)" "\<not> frozen_now ?e"
    "?g\<lparr>gr_deferred_logged := False\<rparr> = ?g"
    by (simp_all add: gathered_gate_def sample_gate_def faculties_of_def consolidation_passes_def
        sample_gate_env_def frozen_now_def)
  have j: "judge ?e ?g = decide_and_act ?e r (Some (sample_readout (Fin (1 / 10)))) ?g"
    unfolding judge_def Let_def sample_readout_read g r(1) by (simp add: r(2) g)
  have s: "gr_staging_enabled (sample_gate ?ms)" "is_developing (gr_stage (sample_gate ?ms))"
    "blocked_reason (begin_boot ?e (sample_gate ?ms)) = None"
    by (simp_all add: sample_gate_def is_developing_def StageState_def blocked_reason_def begin_boot_def
        sample_gate_env_def)
  show ?thesis
    using r(2) s by (intro exI [of _ r]) (simp add: evaluate_once_def Let_def sample_gather j)
qed

lemma sample_act:
  assumes "ready r"
  shows "decide_and_act (sample_gate_env a) r ro (gathered_gate [''sleep'', ''vocal'', ''embodiment'']) = (g', ex) \<Longrightarrow>
    ex = None \<and> gr_vocal_dormant g' = False \<and> is_embodied (gr_stage g') = a"
  using assms
  by (cases a) (auto simp: decide_and_act_def gathered_gate_def sample_gate_def read_ack_def read_json_object_def
      decide_maturation_def embodiment_ready_def faculties_of_def embodiment_availability_def
      embodiment_available_def sample_config_values act_on_def do_maturation_def activate_embodiment_def
      wake_vocal_def sample_gate_env_def set_status_def gr_publish_def maturation_is_new_def is_developing_def
      StageState_def advance_to_embodied_def is_embodied_def hand_over_def clear_ack_files_def Let_def)

section \<open>Properties\<close>





text \<open>
  C34. Every sleep completion is counted exactly once: on a stream that only grows, counting now and
  again after new entries arrived gives the same stage as one count of the longer stream, and
  the total grows by the completions after the cursor; cancelled rests that resume do not
  count. The counting loop ends.
\<close>

theorem sleeps_counted_exactly_once:
  assumes "redis_stream xr strm" and "redis_stream xr' (strm @ new)"
    and "ss_sleep_cursor s = Some c" and "c \<noteq> ''$''"
  shows "\<exists>s1 s2. count_new_sleeps n xr s = Some s1 \<and> count_new_sleeps n' xr' s1 = Some s2 \<and>
    count_new_sleeps n' xr' s = Some s2 \<and>
    ss_sleep_count s1 = ss_sleep_count s + sleeps_in (decoded (entries_after c strm)) \<and>
    ss_sleep_count s2 = ss_sleep_count s + sleeps_in (decoded (entries_after c (strm @ new)))"
  using assms(1,2,4,3) by (rule count_twice)

definition sleep_entry :: "string \<Rightarrow> entry" where
  "sleep_entry i = (i, Some \<lparr>ev_source = ''sleep'', ev_type = ''sleep.sleep.completed'', ev_payload = [],
     ev_salience = 0, ev_timestamp = 0, ev_parent = None\<rparr>)"

theorem sleeps_counted_exactly_once_witness:
  "let strm = [sleep_entry ''1-0'', sleep_entry ''2-0'']; new = [(''3-0'', None), sleep_entry ''10-0''];
       s = (StageState Development)\<lparr>ss_sleep_cursor := Some ''1-0''\<rparr>
   in \<exists>s1 s2. count_new_sleeps None (\<lambda>c n. Some (take n (entries_after c strm))) s = Some s1 \<and>
        count_new_sleeps None (\<lambda>c n. Some (take n (entries_after c (strm @ new)))) s1 = Some s2 \<and>
        ss_sleep_count s1 = 1 \<and> ss_sleep_count s2 = 2"
proof -
  let ?strm = "[sleep_entry ''1-0'', sleep_entry ''2-0'']"
  let ?new = "[(''3-0'', None), sleep_entry ''10-0'']"
  let ?s = "(StageState Development)\<lparr>ss_sleep_cursor := Some ''1-0''\<rparr>"
  have keys: "entry_id_sort_key ''1-0'' = (0, 1, 0, [])" "entry_id_sort_key ''2-0'' = (0, 2, 0, [])"
    "entry_id_sort_key ''3-0'' = (0, 3, 0, [])" "entry_id_sort_key ''10-0'' = (0, 10, 0, [])"
    by code_simp+
  have 1: "redis_stream (\<lambda>c n. Some (take n (entries_after c ?strm))) ?strm"
    and 2: "redis_stream (\<lambda>c n. Some (take n (entries_after c (?strm @ ?new)))) (?strm @ ?new)"
    by (simp_all add: redis_stream_def sleep_entry_def keys)
  have c: "sleeps_in (decoded (entries_after ''1-0'' ?strm)) = 1"
    "sleeps_in (decoded (entries_after ''1-0'' (?strm @ ?new))) = 2"
    by (simp_all add: entries_after_def sleep_entry_def keys decoded_def map_filter_def sleeps_in_def
        counts_as_sleep_def)
  have s: "ss_sleep_cursor ?s = Some ''1-0''" "ss_sleep_count ?s = 0"
    by (simp_all add: StageState_def)
  show ?thesis
    using sleeps_counted_exactly_once [OF 1 2 s(1), of None None] s(2) c unfolding Let_def by auto
qed

text \<open>
  A fresh gate whose newest sleep entry does not decode is not anchored at the end of the
  stream: it starts at the beginning, and its next count takes in the completions from before.
\<close>

theorem undecodable_tail_counts_history:
  assumes "ss_sleep_cursor s = None" and "redis_stream xr strm"
  shows "\<exists>s1 s2. count_new_sleeps (Some [(i, None)]) xr s = Some s1 \<and> ss_sleep_cursor s1 = Some ''0-0'' \<and>
    count_new_sleeps n xr s1 = Some s2 \<and>
    ss_sleep_count s2 = ss_sleep_count s + sleeps_in (decoded (entries_after ''0-0'' strm))"
proof -
  define s1 where "s1 = s\<lparr>ss_sleep_cursor := Some ''0-0''\<rparr>"
  have "count_new_sleeps (Some [(i, None)]) xr s = Some s1"
    using assms(1) by (simp add: count_new_sleeps_def latest_def s1_def)
  moreover have "\<exists>s2. count_new_sleeps n xr s1 = Some s2 \<and>
      ss_sleep_count s2 = ss_sleep_count s + sleeps_in (decoded (entries_after ''0-0'' strm))"
    using count_loop_result [OF assms(2), of "''0-0''"] by (simp add: count_new_sleeps_def s1_def)
  ultimately show ?thesis by (auto simp: s1_def)
qed

theorem undecodable_tail_counts_history_witness:
  "\<exists>s1 s2. count_new_sleeps (Some [(''9-0'', None)]) no_reading (StageState Development) = Some s1 \<and>
     count_new_sleeps None no_reading s1 = Some s2 \<and> ss_sleep_cursor s1 = Some ''0-0''"
  using undecodable_tail_counts_history [OF _ no_reading_stream, of "StageState Development" "''9-0''" None]
  by (auto simp: StageState_def)

text \<open>
  A maturation deferred because the embodiment did not activate leaves the vocal module awake:
  the stage stays developing and nothing puts the vocal module back to dormant.
\<close>

theorem deferred_maturation_leaves_vocal_awake:
  assumes "do_maturation env r n l fac g = (g', raised)" and "''vocal'' \<in> set (gr_modules g)"
    and "''embodiment'' \<in> set (gr_modules g)" and "\<not> ge_activates env"
  shows "gr_stage g' = gr_stage g \<and> \<not> gr_vocal_dormant g' \<and> raised = None"
  using assms by (auto simp: do_maturation_def activate_embodiment_def wake_vocal_def Let_def)

theorem deferred_maturation_leaves_vocal_awake_witness:
  "\<exists>g'. do_maturation (sample_gate_env False)
      \<lparr>rd_c1 = condition C1 True '''', rd_c2 = condition C2 True '''', rd_c3 = condition C3 True ''''\<rparr> 6 0 Faculties (sample_gate [''vocal'', ''embodiment'']) = (g', None) \<and>
     is_developing (gr_stage g') \<and> \<not> gr_vocal_dormant g'"
proof -
  obtain g' raised where d: "do_maturation (sample_gate_env False)
      \<lparr>rd_c1 = condition C1 True '''', rd_c2 = condition C2 True '''', rd_c3 = condition C3 True ''''\<rparr> 6 0 Faculties
      (sample_gate [''vocal'', ''embodiment'']) = (g', raised)" by fastforce
  have "gr_stage g' = gr_stage (sample_gate [''vocal'', ''embodiment'']) \<and> \<not> gr_vocal_dormant g' \<and> raised = None"
    by (rule deferred_maturation_leaves_vocal_awake [OF d]) (simp_all add: sample_gate_def sample_gate_env_def)
  with d show ?thesis by (auto simp: sample_gate_def is_developing_def StageState_def)
qed

end
