(* ===== verification/TimeScale.thy ===== *)
theory TimeScale
  imports PyVal
begin

text \<open>
  Models \<open>kaine/cycle/time_scale_controller.py\<close>: the validated settings and the controller that
  lowers the time scale under sustained overload and raises it under sustained headroom. The
  state is on reals (every sample with a non-finite argument is refused before it reaches the
  state); \<open>None\<close> as the time of the last change stands for minus infinity.
\<close>

record time_scale_settings =
  ts_ceiling :: real
  ts_floor :: real
  ts_target :: real
  ts_high :: real
  ts_low :: real
  ts_dwell_s :: real
  ts_window_s :: real
  ts_max_up_factor :: real

definition positive_finite :: "pyfloat \<Rightarrow> py_exc + real" where
  "positive_finite x = (case x of Fin r \<Rightarrow> if r \<le> 0 then Inl ValueError else Inr r | _ \<Rightarrow> Inl ValueError)"

definition time_scale_settings_init ::
  "pyfloat \<Rightarrow> pyfloat \<Rightarrow> pyfloat \<Rightarrow> pyfloat \<Rightarrow> pyfloat \<Rightarrow> pyfloat \<Rightarrow> pyfloat \<Rightarrow> pyfloat \<Rightarrow>
   py_exc + time_scale_settings" where
  "time_scale_settings_init ceiling' floor' target high low dwell_s window_s max_up =
     ebind (positive_finite ceiling') (\<lambda>c.
     ebind (positive_finite floor') (\<lambda>f.
     if f > c then Inl ValueError else
     ebind (positive_finite target) (\<lambda>t.
     ebind (positive_finite high) (\<lambda>h.
     ebind (positive_finite low) (\<lambda>l.
     if \<not> (l < t \<and> t < h) then Inl ValueError else
     ebind (positive_finite dwell_s) (\<lambda>d.
     ebind (positive_finite window_s) (\<lambda>w.
     case max_up of
       Fin m \<Rightarrow> if m \<le> 1 then Inl ValueError
                else Inr \<lparr>ts_ceiling = c, ts_floor = f, ts_target = t, ts_high = h, ts_low = l,
                          ts_dwell_s = d, ts_window_s = w, ts_max_up_factor = m\<rparr>
     | _ \<Rightarrow> Inl ValueError)))))))"

record scale_change =
  ch_old :: real
  ch_new :: real
  ch_reason :: string
  ch_utilization :: real

record controller =
  tc_settings :: time_scale_settings
  tc_initial_scale :: real
  tc_ema :: "real option"
  tc_last_sample_time :: "real option"
  tc_overload_since :: "real option"
  tc_headroom_since :: "real option"
  tc_last_change_time :: "real option"

definition controller_init :: "time_scale_settings \<Rightarrow> pyfloat \<Rightarrow> py_exc + controller" where
  "controller_init settings initial_scale =
     (case initial_scale of
        Fin r \<Rightarrow> Inr \<lparr>tc_settings = settings, tc_initial_scale = r, tc_ema = None,
                     tc_last_sample_time = None, tc_overload_since = None,
                     tc_headroom_since = None, tc_last_change_time = None\<rparr>
      | _ \<Rightarrow> Inl ValueError)"

definition clamp_scale :: "time_scale_settings \<Rightarrow> real \<Rightarrow> real" where
  "clamp_scale s x = (if x < ts_floor s then ts_floor s else if x > ts_ceiling s then ts_ceiling s else x)"

definition apply_change ::
  "real \<Rightarrow> real \<Rightarrow> string \<Rightarrow> real \<Rightarrow> real \<Rightarrow> controller \<Rightarrow> scale_change option \<times> controller" where
  "apply_change new_scale old_scale reason now utilization c =
     (let new = clamp_scale (tc_settings c) new_scale
      in (Some \<lparr>ch_old = old_scale, ch_new = new, ch_reason = reason, ch_utilization = utilization\<rparr>,
          c\<lparr>tc_last_change_time := Some now, tc_overload_since := None, tc_headroom_since := None,
            tc_ema := (case tc_ema c of
                         None \<Rightarrow> None
                       | Some e \<Rightarrow> if old_scale \<noteq> 0 then Some (e * new / old_scale) else Some e)\<rparr>))"

text \<open>The exponential moving average after a sample \<open>u\<close> at \<open>now\<close>.\<close>

definition next_ema :: "real \<Rightarrow> real \<Rightarrow> controller \<Rightarrow> real" where
  "next_ema u now c =
     (case tc_ema c of
        None \<Rightarrow> u
      | Some e \<Rightarrow>
          (let dt = (case tc_last_sample_time c of None \<Rightarrow> 0 | Some t \<Rightarrow> if now - t < 0 then 0 else now - t);
               alpha = 1 - exp (- dt / ts_window_s (tc_settings c))
           in e + alpha * (u - e)))"

definition since :: "bool \<Rightarrow> real option \<Rightarrow> real \<Rightarrow> real option" where
  "since holds s now = (if holds then (case s of None \<Rightarrow> Some now | Some t \<Rightarrow> Some t) else None)"

definition sampled :: "real \<Rightarrow> real \<Rightarrow> controller \<Rightarrow> controller" where
  "sampled u now c =
     (let ema = next_ema u now c; s = tc_settings c
      in c\<lparr>tc_ema := Some ema, tc_last_sample_time := Some now,
           tc_overload_since := since (ema > ts_high s) (tc_overload_since c) now,
           tc_headroom_since := since (ema < ts_low s) (tc_headroom_since c) now\<rparr>)"

definition lasted :: "real option \<Rightarrow> real \<Rightarrow> real \<Rightarrow> bool" where
  "lasted s d now = (case s of None \<Rightarrow> False | Some t \<Rightarrow> now - t \<ge> d)"

definition scale_up :: "real \<Rightarrow> real \<Rightarrow> real \<Rightarrow> controller \<Rightarrow> scale_change option \<times> controller" where
  "scale_up ema now current c =
     (let s = tc_settings c
      in if lasted (tc_headroom_since c) (3 * ts_dwell_s s) now
         then let new = (if ema = 0 then min (current * ts_max_up_factor s) (ts_ceiling s)
                         else min (min (current * ts_max_up_factor s) (current * ts_target s / ema)) (ts_ceiling s))
              in if new > current + 1 / 10 ^ 9 then apply_change new current ''headroom'' now ema c else (None, c)
         else (None, c))"

definition decide_scale :: "real \<Rightarrow> real \<Rightarrow> real \<Rightarrow> controller \<Rightarrow> scale_change option \<times> controller" where
  "decide_scale ema now current c =
     (let s = tc_settings c
      in if (case tc_last_change_time c of None \<Rightarrow> False | Some t \<Rightarrow> now - t < ts_dwell_s s) then (None, c)
         else if lasted (tc_overload_since c) (ts_dwell_s s) now \<and>
                 clamp_scale s (current * ts_target s / ema) < current - 1 / 10 ^ 9
         then apply_change (clamp_scale s (current * ts_target s / ema)) current ''overload'' now ema c
         else scale_up ema now current c)"

definition observe ::
  "pyfloat \<Rightarrow> pyfloat \<Rightarrow> pyfloat \<Rightarrow> pyfloat \<Rightarrow> controller \<Rightarrow> scale_change option \<times> controller" where
  "observe busy_ms period_ms now_wall_s current_scale c =
     (case (busy_ms, period_ms, now_wall_s, current_scale) of
        (Fin busy, Fin period, Fin now, Fin current) \<Rightarrow>
          if period \<le> 0 \<or> busy < 0 \<or> current \<le> 0 then (None, c)
          else (let c1 = sampled (busy / period) now c
                in decide_scale (next_ema (busy / period) now c) now current c1)
      | _ \<Rightarrow> (None, c))"

section \<open>Settings and state\<close>

definition settings_ok :: "time_scale_settings \<Rightarrow> bool" where
  "settings_ok s \<longleftrightarrow> 0 < ts_floor s \<and> ts_floor s \<le> ts_ceiling s \<and> 0 < ts_low s \<and> ts_low s < ts_target s \<and>
     ts_target s < ts_high s \<and> 0 < ts_dwell_s s \<and> 0 < ts_window_s s \<and> 1 < ts_max_up_factor s"

lemma positive_finite_Inr [simp]: "positive_finite x = Inr r \<longleftrightarrow> x = Fin r \<and> 0 < r"
  by (cases x) (auto simp: positive_finite_def)

lemma settings_init_ok: "time_scale_settings_init a b d e f g h i = Inr s \<Longrightarrow> settings_ok s"
  by (cases i) (auto simp: time_scale_settings_init_def settings_ok_def split: if_splits)

definition controller_ok :: "controller \<Rightarrow> bool" where
  "controller_ok c \<longleftrightarrow> settings_ok (tc_settings c) \<and> (case tc_ema c of None \<Rightarrow> True | Some e \<Rightarrow> 0 \<le> e)"

lemma next_ema_nonneg:
  assumes "controller_ok c" and "0 \<le> u"
  shows "0 \<le> next_ema u now c"
proof (cases "tc_ema c")
  case (Some e)
  define dt where "dt = (case tc_last_sample_time c of None \<Rightarrow> 0 | Some t \<Rightarrow> if now - t < 0 then 0 else now - t)"
  define x where "x = exp (- dt / ts_window_s (tc_settings c))"
  have "0 \<le> dt" by (simp add: dt_def split: option.split)
  then have "x \<le> 1" and "0 \<le> x"
    using assms(1) by (simp_all add: x_def controller_ok_def settings_ok_def)
  moreover have "0 \<le> e" using assms(1) Some by (simp add: controller_ok_def)
  moreover have "next_ema u now c = x * e + (1 - x) * u"
    unfolding next_ema_def Some option.case Let_def dt_def [symmetric] x_def [symmetric]
    by (simp add: algebra_simps)
  ultimately show ?thesis using assms(2) by simp
qed (simp add: next_ema_def assms(2))

lemma clamp_bounds: "settings_ok s \<Longrightarrow> ts_floor s \<le> clamp_scale s x \<and> clamp_scale s x \<le> ts_ceiling s"
  by (auto simp: clamp_scale_def settings_ok_def)

lemma clamp_idem [simp]: "settings_ok s \<Longrightarrow> clamp_scale s (clamp_scale s x) = clamp_scale s x"
  using clamp_bounds [of s x] by (simp add: clamp_scale_def [of s "clamp_scale s x"])

lemma apply_change_settings [simp]:
  "tc_settings (snd (apply_change n old r now u c)) = tc_settings c"
  "tc_last_change_time (snd (apply_change n old r now u c)) = Some now"
  by (simp_all add: apply_change_def Let_def)

lemma apply_change_ok: "controller_ok c \<Longrightarrow> 0 < old \<Longrightarrow> controller_ok (snd (apply_change n old r now u c))"
  using clamp_bounds [of "tc_settings c" n]
  by (auto simp: apply_change_def Let_def controller_ok_def settings_ok_def split: option.splits)

lemma sampled_ok: "controller_ok c \<Longrightarrow> 0 \<le> u \<Longrightarrow> controller_ok (sampled u now c)"
  using next_ema_nonneg [of c u now] by (simp add: sampled_def Let_def controller_ok_def)

lemma sampled_settings [simp]:
  "tc_settings (sampled u now c) = tc_settings c"
  "tc_last_change_time (sampled u now c) = tc_last_change_time c"
  "tc_ema (sampled u now c) = Some (next_ema u now c)"
  by (simp_all add: sampled_def Let_def)

text \<open>The two ways a decision changes the scale, and what each guarantees.\<close>

lemma decide_cases:
  assumes "decide_scale ema now current c = (Some ch, c')"
  obtains (overload) "ch_reason ch = ''overload''" "lasted (tc_overload_since c) (ts_dwell_s (tc_settings c)) now"
      "apply_change (clamp_scale (tc_settings c) (current * ts_target (tc_settings c) / ema)) current ''overload'' now ema c = (Some ch, c')"
      "clamp_scale (tc_settings c) (current * ts_target (tc_settings c) / ema) < current - 1 / 10 ^ 9"
  | (headroom) new where "ch_reason ch = ''headroom''" "lasted (tc_headroom_since c) (3 * ts_dwell_s (tc_settings c)) now"
      "apply_change new current ''headroom'' now ema c = (Some ch, c')"
      "current + 1 / 10 ^ 9 < new" "new \<le> current * ts_max_up_factor (tc_settings c)" "new \<le> ts_ceiling (tc_settings c)"
proof -
  have r: "ch_reason ch = r" if "apply_change n old r now u c = (Some ch, c')" for n old r u
    using that by (auto simp: apply_change_def Let_def)
  from assms consider
    "lasted (tc_overload_since c) (ts_dwell_s (tc_settings c)) now \<and>
       clamp_scale (tc_settings c) (current * ts_target (tc_settings c) / ema) < current - 1 / 10 ^ 9 \<and>
       apply_change (clamp_scale (tc_settings c) (current * ts_target (tc_settings c) / ema)) current ''overload'' now ema c = (Some ch, c')"
    | "scale_up ema now current c = (Some ch, c')"
    unfolding decide_scale_def Let_def by (auto split: if_splits)
  then show thesis
  proof cases
    case 1
    then show thesis using overload r by blast
  next
    case 2
    define new where "new = (if ema = 0 then min (current * ts_max_up_factor (tc_settings c)) (ts_ceiling (tc_settings c))
        else min (min (current * ts_max_up_factor (tc_settings c)) (current * ts_target (tc_settings c) / ema))
               (ts_ceiling (tc_settings c)))"
    have "lasted (tc_headroom_since c) (3 * ts_dwell_s (tc_settings c)) now"
      and "current + 1 / 10 ^ 9 < new" and "apply_change new current ''headroom'' now ema c = (Some ch, c')"
      using 2 unfolding scale_up_def Let_def new_def [symmetric] by (auto split: if_splits)
    moreover have "new \<le> current * ts_max_up_factor (tc_settings c)" "new \<le> ts_ceiling (tc_settings c)"
      unfolding new_def by (auto simp: min_le_iff_disj)
    ultimately show thesis using headroom r by blast
  qed
qed

lemma decide_none: "decide_scale ema now current c = (None, c') \<Longrightarrow> c' = c"
  by (auto simp: decide_scale_def scale_up_def apply_change_def Let_def split: if_splits)

lemma observe_some:
  assumes "observe b p n s c = (Some ch, c')"
  obtains busy period now current where "b = Fin busy" "p = Fin period" "n = Fin now" "s = Fin current"
    "0 < period" "0 \<le> busy" "0 < current"
    "decide_scale (next_ema (busy / period) now c) now current (sampled (busy / period) now c) = (Some ch, c')"
  using assms by (cases b; cases p; cases n; cases s) (auto simp: observe_def Let_def split: if_splits)

definition observe_step :: "controller \<Rightarrow> pyfloat \<times> pyfloat \<times> pyfloat \<times> pyfloat \<Rightarrow> controller" where
  "observe_step c x = (case x of (b, p, n, s) \<Rightarrow> snd (observe b p n s c))"

lemma decide_ok:
  assumes "controller_ok c" and "0 < current"
  shows "controller_ok (snd (decide_scale ema now current c)) \<and>
    tc_settings (snd (decide_scale ema now current c)) = tc_settings c"
proof -
  obtain ch c' where d: "decide_scale ema now current c = (ch, c')" by (cases "decide_scale ema now current c")
  show ?thesis
  proof (cases ch)
    case None
    then show ?thesis using d decide_none [of ema now current c c'] assms(1) by simp
  next
    case (Some x)
    with d have d': "decide_scale ema now current c = (Some x, c')" by simp
    show ?thesis using d'
    proof (cases rule: decide_cases)
      case overload
      with d' assms apply_change_ok [OF assms] show ?thesis by (metis apply_change_settings(1) snd_conv)
    next
      case (headroom new)
      with d' assms apply_change_ok [OF assms] show ?thesis by (metis apply_change_settings(1) snd_conv)
    qed
  qed
qed

lemma scale_observe_ok:
  assumes "controller_ok c"
  shows "controller_ok (snd (observe b p n s c)) \<and> tc_settings (snd (observe b p n s c)) = tc_settings c"
proof -
  have "controller_ok (snd (decide_scale e now current (sampled (busy / period) now c))) \<and>
      tc_settings (snd (decide_scale e now current (sampled (busy / period) now c))) = tc_settings c"
    if "0 < period" "0 \<le> busy" "0 < current" for busy period now current e
    using decide_ok [OF sampled_ok [OF assms] that(3)] that by simp
  then show ?thesis
    using assms by (cases b; cases p; cases n; cases s) (auto simp: observe_def Let_def)
qed

interpretation controller: machine observe_step "\<lambda>_. True" "\<lambda>c. controller_ok c \<and> tc_settings c = s"
  by unfold_locales (auto simp: observe_step_def scale_observe_ok)

text \<open>A sample before \<open>t\<close> seconds.\<close>

definition sample_before :: "real \<Rightarrow> pyfloat \<times> pyfloat \<times> pyfloat \<times> pyfloat \<Rightarrow> bool" where
  "sample_before t x = (case x of (_, _, Fin now, _) \<Rightarrow> now < t | _ \<Rightarrow> True)"

lemma observe_dwell:
  assumes "tc_last_change_time c = Some t0" and "sample_before (t0 + ts_dwell_s (tc_settings c)) (b, p, n, s)"
  shows "fst (observe b p n s c) = None \<and> tc_last_change_time (snd (observe b p n s c)) = Some t0 \<and>
    tc_settings (snd (observe b p n s c)) = tc_settings c"
  using assms
  by (cases b; cases p; cases n; cases s) (auto simp: observe_def decide_scale_def sample_before_def Let_def)

interpretation dwelling: machine observe_step "sample_before (t0 + ts_dwell_s s)"
  "\<lambda>c. tc_last_change_time c = Some t0 \<and> tc_settings c = s"
  by unfold_locales (auto simp: observe_step_def dest: observe_dwell)

section \<open>A concrete controller\<close>

definition sample_settings :: time_scale_settings where
  "sample_settings = \<lparr>ts_ceiling = 2, ts_floor = 1 / 10, ts_target = 85 / 100, ts_high = 95 / 100,
     ts_low = 6 / 10, ts_dwell_s = 10, ts_window_s = 30, ts_max_up_factor = 125 / 100\<rparr>"

definition sample_controller :: controller where
  "sample_controller = \<lparr>tc_settings = sample_settings, tc_initial_scale = 1, tc_ema = None,
     tc_last_sample_time = None, tc_overload_since = None, tc_headroom_since = None,
     tc_last_change_time = None\<rparr>"

text \<open>After one sample with twice the target utilization.\<close>

definition busy_controller :: controller where
  "busy_controller = sample_controller\<lparr>tc_ema := Some (17 / 10), tc_last_sample_time := Some 0,
     tc_overload_since := Some 0\<rparr>"

lemma sample_settings_init:
  "time_scale_settings_init (Fin 2) (Fin (1 / 10)) (Fin (85 / 100)) (Fin (95 / 100)) (Fin (6 / 10)) (Fin 10)
     (Fin 30) (Fin (125 / 100)) = Inr sample_settings"
  by (simp add: time_scale_settings_init_def positive_finite_def sample_settings_def)

lemma sample_controller_init: "controller_init sample_settings (Fin 1) = Inr sample_controller"
  by (simp add: controller_init_def sample_controller_def)

lemma busy_controller_step:
  "observe_step sample_controller (Fin 170, Fin 100, Fin 0, Fin 1) = busy_controller"
  by (simp add: observe_step_def observe_def sampled_def next_ema_def decide_scale_def scale_up_def since_def
      lasted_def Let_def busy_controller_def sample_controller_def sample_settings_def)

definition relieved_controller :: controller where
  "relieved_controller = busy_controller\<lparr>tc_last_change_time := Some 10, tc_overload_since := None,
     tc_last_sample_time := Some 10, tc_ema := Some (85 / 100)\<rparr>"

definition relief :: scale_change where
  "relief = \<lparr>ch_old = 1, ch_new = 1 / 2, ch_reason = ''overload'', ch_utilization = 17 / 10\<rparr>"

lemma busy_controller_change:
  "observe (Fin 170) (Fin 100) (Fin 10) (Fin 1) busy_controller = (Some relief, relieved_controller)"
  by (simp add: observe_def sampled_def next_ema_def decide_scale_def since_def lasted_def Let_def
      clamp_scale_def apply_change_def relief_def relieved_controller_def busy_controller_def
      sample_controller_def sample_settings_def)

section \<open>Properties\<close>

text \<open>
  Every change of the time scale stays between the floor and the ceiling, starts from the
  scale it was given, lowers it when the reason is overload and raises it, by at most the
  maximal factor or to the floor, when the reason is headroom; this holds after any history
  of samples of a controller built on valid settings.
\<close>

theorem scale_change_bounds:
  assumes "time_scale_settings_init a1 a2 a3 a4 a5 a6 a7 a8 = Inr st" and "controller_init st x = Inr c0"
    and "observe b p n (Fin current) (run observe_step c0 samples) = (Some ch, c')"
  shows "ch_old ch = current \<and> ts_floor st \<le> ch_new ch \<and> ch_new ch \<le> ts_ceiling st \<and>
    (ch_reason ch = ''overload'' \<and> ch_new ch < current \<or>
     ch_reason ch = ''headroom'' \<and> current < ch_new ch \<and>
       ch_new ch \<le> max (ts_floor st) (current * ts_max_up_factor st))"
proof -
  have "controller_ok c0 \<and> tc_settings c0 = st"
    using settings_init_ok [OF assms(1)] assms(2) by (auto simp: controller_init_def controller_ok_def split: pyfloat.splits)
  then have c: "controller_ok (run observe_step c0 samples) \<and> tc_settings (run observe_step c0 samples) = st"
    by (rule controller.run_inv) (simp add: list_all_iff)
  then have st: "settings_ok st" by (auto simp: controller_ok_def)
  from assms(3) obtain busy period now where pos: "0 < current"
    and d: "decide_scale (next_ema (busy / period) now (run observe_step c0 samples)) now current
        (sampled (busy / period) now (run observe_step c0 samples)) = (Some ch, c')"
    by (rule observe_some) auto
  from d show ?thesis
  proof (cases rule: decide_cases)
    case overload
    with c st clamp_bounds [OF st] show ?thesis by (auto simp: apply_change_def Let_def)
  next
    case (headroom new)
    have "clamp_scale st new = max (ts_floor st) new"
      using headroom c by (auto simp: clamp_scale_def)
    with headroom c st clamp_bounds [OF st, of new] show ?thesis by (auto simp: apply_change_def Let_def)
  qed
qed

theorem scale_change_bounds_witness:
  "observe (Fin 170) (Fin 100) (Fin 10) (Fin 1)
     (run observe_step sample_controller [(Fin 170, Fin 100, Fin 0, Fin 1)]) = (Some relief, relieved_controller) \<and>
   ts_floor sample_settings \<le> ch_new relief \<and> ch_new relief < 1"
proof -
  have o: "observe (Fin 170) (Fin 100) (Fin 10) (Fin 1)
      (run observe_step sample_controller [(Fin 170, Fin 100, Fin 0, Fin 1)]) = (Some relief, relieved_controller)"
    by (simp add: busy_controller_step busy_controller_change)
  show ?thesis
    using scale_change_bounds [OF sample_settings_init sample_controller_init o] o by (auto simp: relief_def)
qed

text \<open>
  Two changes are at least the dwell time apart: after a change, whatever samples arrive before
  the dwell has passed, no sample before its end changes the scale.
\<close>

theorem changes_are_a_dwell_apart:
  assumes "observe b p (Fin t0) s c = (Some ch, c1)"
    and "list_all (sample_before (t0 + ts_dwell_s (tc_settings c1))) samples"
    and "sample_before (t0 + ts_dwell_s (tc_settings c1)) (b', p', n', s')"
  shows "fst (observe b' p' n' s' (run observe_step c1 samples)) = None"
proof -
  have "tc_last_change_time c1 = Some t0"
    using assms(1)
  proof (rule observe_some)
    fix busy period now current
    assume n: "Fin t0 = Fin now" and d: "decide_scale (next_ema (busy / period) now c) now current
      (sampled (busy / period) now c) = (Some ch, c1)"
    show "tc_last_change_time c1 = Some t0"
      using d n by (cases rule: decide_cases) (metis apply_change_settings(2) pyfloat.inject snd_conv)+
  qed
  then have "tc_last_change_time (run observe_step c1 samples) = Some t0 \<and>
      tc_settings (run observe_step c1 samples) = tc_settings c1"
    by (intro dwelling.run_inv [OF _ assms(2)]) simp
  then show ?thesis using observe_dwell assms(3) by metis
qed

theorem changes_are_a_dwell_apart_witness:
  "fst (observe (Fin 300) (Fin 100) (Fin 19) (Fin (1 / 2))
     (run observe_step relieved_controller [(Fin 300, Fin 100, Fin 11, Fin (1 / 2)), (Fin 300, Fin 100, NaN, Fin 1)])) = None"
proof (rule changes_are_a_dwell_apart [OF busy_controller_change])
  have d: "ts_dwell_s (tc_settings relieved_controller) = 10"
    by (simp add: relieved_controller_def busy_controller_def sample_controller_def sample_settings_def)
  show "list_all (sample_before (10 + ts_dwell_s (tc_settings relieved_controller)))
      [(Fin 300, Fin 100, Fin 11, Fin (1 / 2)), (Fin 300, Fin 100, NaN, Fin 1)]"
    and "sample_before (10 + ts_dwell_s (tc_settings relieved_controller)) (Fin 300, Fin 100, Fin 19, Fin (1 / 2))"
    by (simp_all add: sample_before_def d)
qed

text \<open>
  An overload correction that is not clamped lands on the target: the utilization carried on
  under the new scale is exactly the target utilization.
\<close>

theorem overload_lands_on_target:
  assumes "decide_scale e now current c = (Some ch, c')" and "ch_reason ch = ''overload''"
    and "tc_ema c = Some e" and "0 < e" and "0 < current" and "settings_ok (tc_settings c)"
    and "ts_floor (tc_settings c) \<le> current * ts_target (tc_settings c) / e"
    and "current * ts_target (tc_settings c) / e \<le> ts_ceiling (tc_settings c)"
  shows "tc_ema c' = Some (ts_target (tc_settings c))"
  using assms(1)
proof (cases rule: decide_cases)
  case overload
  have "clamp_scale (tc_settings c) (current * ts_target (tc_settings c) / e) = current * ts_target (tc_settings c) / e"
    using assms(7,8) by (simp add: clamp_scale_def)
  with overload(3) assms(3-6) show ?thesis by (auto simp: apply_change_def Let_def)
next
  case headroom
  with assms(2) show ?thesis by simp
qed

theorem overload_lands_on_target_witness:
  "\<exists>ch c'. decide_scale (17 / 10) 10 1 busy_controller = (Some ch, c') \<and> tc_ema c' = Some (85 / 100)"
proof -
  let ?d = "decide_scale (17 / 10) 10 1 busy_controller"
  note defs = decide_scale_def lasted_def Let_def clamp_scale_def apply_change_def busy_controller_def
    sample_controller_def sample_settings_def
  have "fst ?d = Some relief" by (simp add: defs relief_def)
  then have d: "?d = (Some relief, snd ?d)" by (cases ?d) simp
  have s: "tc_settings busy_controller = sample_settings" "tc_ema busy_controller = Some (17 / 10)"
    by (simp_all add: busy_controller_def sample_controller_def)
  have "tc_ema (snd ?d) = Some (ts_target (tc_settings busy_controller))"
    by (rule overload_lands_on_target [OF d _ s(2)])
      (simp_all add: s(1) relief_def settings_ok_def sample_settings_def)
  then show ?thesis using d s(1) by (auto simp: sample_settings_def)
qed

end
