(* ===== verification/AccessRate.thy ===== *)
theory AccessRate
  imports BusSchema
begin

text \<open>
  Models \<open>kaine/cycle/access_rate.py\<close>: the tonic and phasic access drives and the effective
  experiential rate. The configuration is read from TOML with the checks of the source; the
  controller works on reals. The salience of a bus event is a real in the unit interval
  (\<open>BusSchema\<close>), so the source's guard against a missing one has no case here.
\<close>

section \<open>Configuration\<close>

record access_rate_config =
  ac_enabled :: bool
  ac_salience_floor :: real
  ac_phasic_decay_s :: real
  ac_baseline_arousal :: real

text \<open>A key read as a float: no bool, a number, finite, and within its bounds.\<close>

definition section_float :: "pyval \<Rightarrow> (real \<Rightarrow> bool) \<Rightarrow> py_exc + real" where
  "section_float v inside =
     (case v of
        PBool _ \<Rightarrow> Inl ValueError
      | _ \<Rightarrow>
        (case py_float v of
           Inl e \<Rightarrow> if e = TypeError \<or> e = ValueError then Inl ValueError else Inl e
         | Inr (Fin r) \<Rightarrow> if inside r then Inr r else Inl ValueError
         | Inr _ \<Rightarrow> Inl ValueError))"

fun section_bool :: "pyval \<Rightarrow> py_exc + bool" where
  "section_bool (PBool b) = Inr b"
| "section_bool _ = Inl ValueError"

definition access_rate_from_section :: "pydict \<Rightarrow> real \<Rightarrow> py_exc + access_rate_config" where
  "access_rate_from_section sec default_baseline =
     (if sec = []
      then Inr \<lparr>ac_enabled = True, ac_salience_floor = 1 / 2, ac_phasic_decay_s = 1,
                ac_baseline_arousal = default_baseline\<rparr>
      else if \<not> list_all (\<lambda>(k, _). k \<in> {''enabled'', ''salience_floor'', ''phasic_decay_s'', ''baseline_arousal''}) sec
      then Inl ValueError
      else
        ebind (section_bool (dget sec ''enabled'' (PBool True))) (\<lambda>enabled.
        ebind (section_float (dget sec ''salience_floor'' (PFloat (Fin (1 / 2)))) (\<lambda>r. 0 \<le> r \<and> r < 1)) (\<lambda>lower.
        ebind (section_float (dget sec ''phasic_decay_s'' (PFloat (Fin 1))) (\<lambda>r. 0 < r)) (\<lambda>decay.
        ebind (section_float (dget sec ''baseline_arousal'' (PFloat (Fin default_baseline))) (\<lambda>r. 0 \<le> r \<and> r < 1)) (\<lambda>base.
          Inr \<lparr>ac_enabled = enabled, ac_salience_floor = lower, ac_phasic_decay_s = decay,
               ac_baseline_arousal = base\<rparr>)))))"

section \<open>Drives\<close>

definition clamp01 :: "real \<Rightarrow> real" where
  "clamp01 x = max 0 (min 1 x)"

text \<open>Both maps have one shape: nothing or non-finite gives zero, a degenerate bound gives zero.\<close>

definition normalised :: "pyfloat option \<Rightarrow> real \<Rightarrow> real" where
  "normalised x lower =
     (case x of
        Some (Fin r) \<Rightarrow> if lower \<ge> 1 then 0 else clamp01 ((r - lower) / (1 - lower))
      | _ \<Rightarrow> 0)"

definition tonic_drive :: "pyfloat option \<Rightarrow> real \<Rightarrow> real" where
  "tonic_drive arousal baseline = normalised arousal baseline"

definition phasic_input :: "pyfloat option \<Rightarrow> real \<Rightarrow> real" where
  "phasic_input max_salience lower = normalised max_salience lower"

definition excluded_sources :: "string list" where
  "excluded_sources = [''cycle'', ''workspace'']"

definition is_report :: "event \<Rightarrow> bool" where
  "is_report e \<longleftrightarrow> ev_source e \<notin> set excluded_sources \<and>
     map_of (ev_payload e) ''alert'' = Some (PBool True)"

fun max_report_salience_from :: "real option \<Rightarrow> (string \<times> event) list \<Rightarrow> real option" where
  "max_report_salience_from best [] = best"
| "max_report_salience_from best ((_, e) # es) =
     max_report_salience_from
       (if is_report e \<and> (case best of None \<Rightarrow> True | Some b \<Rightarrow> ev_salience e > b)
        then Some (ev_salience e) else best) es"

definition max_report_salience :: "(string \<times> event) list \<Rightarrow> real option" where
  "max_report_salience es = max_report_salience_from None es"

section \<open>The controller\<close>

record access_rate =
  ar_config :: access_rate_config
  ar_drive :: real
  ar_phasic :: real

definition access_rate_init :: "access_rate_config \<Rightarrow> access_rate" where
  "access_rate_init cfg = \<lparr>ar_config = cfg, ar_drive = 0, ar_phasic = 0\<rparr>"

definition effective_rate :: "real \<Rightarrow> real \<Rightarrow> real \<Rightarrow> real" where
  "effective_rate resting_hz ceiling_hz drive =
     (let eff = (if resting_hz \<ge> ceiling_hz then resting_hz
                 else resting_hz + (ceiling_hz - resting_hz) * drive);
          lo = min resting_hz ceiling_hz; hi = max resting_hz ceiling_hz
      in max lo (min eff hi))"

definition access_step ::
  "(string \<times> event) list \<Rightarrow> pyfloat option \<Rightarrow> real \<Rightarrow> real \<Rightarrow> real \<Rightarrow> access_rate \<Rightarrow>
   (real \<times> real) \<times> access_rate" where
  "access_step events arousal dt_s resting_hz ceiling_hz a =
     (if \<not> ac_enabled (ar_config a)
      then ((0, resting_hz), a\<lparr>ar_phasic := 0, ar_drive := 0\<rparr>)
      else
        (let decayed = ar_phasic a * exp (- max dt_s 0 / ac_phasic_decay_s (ar_config a));
             input_val = phasic_input (map_option Fin (max_report_salience events)) (ac_salience_floor (ar_config a));
             phasic = max input_val decayed;
             drive = max (tonic_drive arousal (ac_baseline_arousal (ar_config a))) phasic
         in ((drive, effective_rate resting_hz ceiling_hz drive), a\<lparr>ar_phasic := phasic, ar_drive := drive\<rparr>)))"

section \<open>Bounds\<close>

lemma normalised_bounds: "0 \<le> normalised x l \<and> normalised x l \<le> 1"
  by (auto simp: normalised_def clamp01_def split: option.split pyfloat.split)

definition access_ok :: "access_rate \<Rightarrow> bool" where
  "access_ok a \<longleftrightarrow> 0 < ac_phasic_decay_s (ar_config a) \<and> 0 \<le> ar_phasic a \<and> ar_phasic a \<le> 1"

lemma access_clamp_mono: "x \<le> y \<Longrightarrow> clamp01 x \<le> clamp01 y"
  by (auto simp: clamp01_def)

lemma decay_le:
  fixes d p t :: real
  assumes "0 < d" and "0 \<le> p"
  shows "0 \<le> p * exp (- max t 0 / d) \<and> p * exp (- max t 0 / d) \<le> p"
proof -
  have "- max t 0 / d \<le> 0" using assms(1) by (auto simp: divide_le_0_iff)
  then have "exp (- max t 0 / d) \<le> 1" by simp
  with assms(2) show ?thesis using mult_left_mono [of "exp (- max t 0 / d)" 1 p] by simp
qed

lemma effective_rate_bounds:
  "min r c \<le> effective_rate r c d \<and> effective_rate r c d \<le> max r c"
  by (auto simp: effective_rate_def Let_def)

lemma access_step_bounds:
  assumes "access_ok a"
  shows "access_ok (snd (access_step es ar t r c a)) \<and>
    0 \<le> fst (fst (access_step es ar t r c a)) \<and> fst (fst (access_step es ar t r c a)) \<le> 1"
proof -
  have "ar_phasic a * exp (- max t 0 / ac_phasic_decay_s (ar_config a)) \<le> 1"
    and "0 \<le> ar_phasic a * exp (- max t 0 / ac_phasic_decay_s (ar_config a))"
    using decay_le [of "ac_phasic_decay_s (ar_config a)" "ar_phasic a" t] assms by (auto simp: access_ok_def)
  with assms normalised_bounds show ?thesis
    unfolding access_step_def access_ok_def Let_def phasic_input_def tonic_drive_def
    by (simp add: le_max_iff_disj)
qed

type_synonym access_input = "(string \<times> event) list \<times> pyfloat option \<times> real \<times> real \<times> real"

definition access_run_step :: "access_rate \<Rightarrow> access_input \<Rightarrow> access_rate" where
  "access_run_step a x = (case x of (es, ar, t, r, c) \<Rightarrow> snd (access_step es ar t r c a))"

interpretation access: machine access_run_step "\<lambda>_. True" access_ok
  by unfold_locales (auto simp: access_run_step_def access_step_bounds)

lemma section_float_inside: "section_float v P = Inr r \<Longrightarrow> P r"
  by (cases v) (auto simp: section_float_def simp del: py_float.simps split: sum.splits pyfloat.splits if_splits)

lemma access_section_ok:
  "access_rate_from_section sec b = Inr cfg \<Longrightarrow> 0 < ac_phasic_decay_s cfg"
  by (auto simp: access_rate_from_section_def dest!: section_float_inside split: if_splits)

lemma max_report_from_spec:
  "(\<forall>b. best = Some b \<longrightarrow> (\<exists>m. max_report_salience_from best es = Some m \<and> b \<le> m)) \<and>
   (\<forall>e \<in> set es. is_report (snd e) \<longrightarrow> (\<exists>m. max_report_salience_from best es = Some m \<and> ev_salience (snd e) \<le> m))"
proof (induction best es rule: max_report_salience_from.induct)
  case (2 best i e es)
  then show ?case by (cases best) (auto split: if_splits intro: order_trans)
qed simp

section \<open>Properties\<close>

text \<open>
  The access drive is a number between 0 and 1 and the effective rate lies between the resting
  rate and the processing rate, after any history of ticks of a controller configured from
  its section, whatever the events, arousal readings (missing and non-finite ones included)
  and time steps were; without drive the rate is the resting one.
\<close>

theorem access_rate_bounds:
  assumes "access_rate_from_section sec base = Inr cfg"
    and "access_step es ar t resting ceil (run access_run_step (access_rate_init cfg) inputs) = ((drive, rate), a')"
  shows "0 \<le> drive \<and> drive \<le> 1 \<and>
    (resting \<le> ceil \<longrightarrow> resting \<le> rate \<and> rate \<le> ceil) \<and> (resting > ceil \<longrightarrow> rate = resting) \<and>
    (drive = 0 \<longrightarrow> rate = resting)"
proof -
  let ?a = "run access_run_step (access_rate_init cfg) inputs"
  have "access_ok (access_rate_init cfg)"
    using access_section_ok [OF assms(1)] by (simp add: access_ok_def access_rate_init_def)
  then have a: "access_ok ?a" by (rule access.run_inv) (simp add: list_all_iff)
  have d: "0 \<le> drive \<and> drive \<le> 1" using access_step_bounds [OF a, of es ar t resting ceil] assms(2) by simp
  have r: "rate = resting \<and> drive = 0 \<or> rate = effective_rate resting ceil drive"
    using assms(2) by (auto simp: access_step_def Let_def split: if_splits)
  have e: "drive = 0 \<longrightarrow> effective_rate resting ceil drive = resting"
    "resting > ceil \<longrightarrow> effective_rate resting ceil drive = resting"
    by (auto simp: effective_rate_def Let_def)
  show ?thesis using d r e effective_rate_bounds [of resting ceil drive] by auto
qed

theorem access_rate_bounds_witness:
  "\<exists>cfg drive rate a'. access_rate_from_section [(''phasic_decay_s'', PInt 2)] (3 / 10) = Inr cfg \<and>
     access_step [] (Some (Fin 1)) 1 2 10 (run access_run_step (access_rate_init cfg) []) = ((drive, rate), a') \<and>
     drive \<le> 1 \<and> 2 \<le> rate \<and> rate \<le> 10"
proof -
  let ?s = "access_rate_from_section [(''phasic_decay_s'', PInt 2)] (3 / 10)"
  have "\<exists>cfg. ?s = Inr cfg" by (simp add: access_rate_from_section_def section_float_def)
  then obtain cfg where c: "?s = Inr cfg" ..
  obtain drive rate a' where s: "access_step [] (Some (Fin 1)) 1 2 10
      (run access_run_step (access_rate_init cfg) []) = ((drive, rate), a')"
    by (metis prod.collapse)
  show ?thesis using access_rate_bounds [OF c s] c s by auto
qed

text \<open>
  An alert opens access at once: when a module reports an alert of salience s, the drive of
  that tick is at least s normalised above the salience floor, whatever the other events; the
  cycle's and the workspace's own events never count.
\<close>

theorem alert_opens_access:
  assumes "ac_enabled (ar_config a)" and "(i, e) \<in> set es" and "is_report e"
    and "0 \<le> ac_salience_floor (ar_config a)" and "ac_salience_floor (ar_config a) < 1"
  shows "clamp01 ((ev_salience e - ac_salience_floor (ar_config a)) / (1 - ac_salience_floor (ar_config a)))
     \<le> fst (fst (access_step es ar t r c a))"
proof -
  let ?l = "ac_salience_floor (ar_config a)"
  obtain m where m: "max_report_salience es = Some m" "ev_salience e \<le> m"
    using max_report_from_spec [of None es] assms(2,3) by (force simp: max_report_salience_def)
  have "clamp01 ((ev_salience e - ?l) / (1 - ?l)) \<le> clamp01 ((m - ?l) / (1 - ?l))"
    using m(2) assms(5) by (intro access_clamp_mono divide_right_mono) auto
  also have "\<dots> = phasic_input (map_option Fin (max_report_salience es)) ?l"
    using assms(5) by (simp add: phasic_input_def normalised_def m(1))
  also have "\<dots> \<le> fst (fst (access_step es ar t r c a))"
    using assms(1) by (simp add: access_step_def Let_def le_max_iff_disj)
  finally show ?thesis .
qed

theorem alert_opens_access_witness:
  "1 \<le> fst (fst (access_step
     [(''1-0'', \<lparr>ev_source = ''vision'', ev_type = ''alarm'', ev_payload = [(''alert'', PBool True)],
                ev_salience = 1, ev_timestamp = 0, ev_parent = None\<rparr>)] None 1 2 10
     (access_rate_init \<lparr>ac_enabled = True, ac_salience_floor = 1 / 2, ac_phasic_decay_s = 1,
        ac_baseline_arousal = 0\<rparr>)))"
proof -
  let ?e = "\<lparr>ev_source = ''vision'', ev_type = ''alarm'', ev_payload = [(''alert'', PBool True)],
                ev_salience = 1, ev_timestamp = 0, ev_parent = None\<rparr>"
  let ?a = "access_rate_init \<lparr>ac_enabled = True, ac_salience_floor = 1 / 2, ac_phasic_decay_s = 1,
        ac_baseline_arousal = 0\<rparr>"
  have "clamp01 ((ev_salience ?e - ac_salience_floor (ar_config ?a)) / (1 - ac_salience_floor (ar_config ?a)))
     \<le> fst (fst (access_step [(''1-0'', ?e)] None 1 2 10 ?a))"
    by (rule alert_opens_access [where i = "''1-0''"])
      (simp_all add: access_rate_init_def is_report_def excluded_sources_def)
  then show ?thesis by (simp add: access_rate_init_def clamp01_def)
qed

end
