(* ===== verification/ForkTiming.thy ===== *)
theory ForkTiming
  imports Clocks
begin

text \<open>
  Models \<open>kaine/lifecycle/timing_profile.py\<close> (the parse and validate boundary of a fork's
  subjective-time profile) and \<open>kaine/cycle/fork_timing.py\<close> (its application to the clock of
  \<open>Clocks\<close>, the rate setters of \<open>kaine/cycle/engine.py\<close> and the vision knob). A snapshot is its
  metadata value. The vision sink is present or not, its setter an argument that may raise.
\<close>

section \<open>The profile\<close>

record timing_profile =
  fp_time_scale :: pyfloat
  fp_processing_rate_hz :: "pyfloat option"
  fp_experiential_rate_hz :: "pyfloat option"
  fp_vision_sample_hz :: "pyfloat option"

definition coerce_positive :: "pyval \<Rightarrow> py_exc + pyfloat" where
  "coerce_positive v =
     (case py_float v of
        Inl e \<Rightarrow> if e = TypeError \<or> e = ValueError then Inl InvalidForkTimingProfile else Inl e
      | Inr x \<Rightarrow>
          if x = NaN then Inl InvalidForkTimingProfile
          else if \<not> fl_less (Fin 0) x then Inl InvalidForkTimingProfile
          else Inr x)"

definition coerce_positive_opt :: "pyval \<Rightarrow> py_exc + pyfloat option" where
  "coerce_positive_opt v = (if v = PNone then Inr None else ebind (coerce_positive v) (\<lambda>x. Inr (Some x)))"

definition field :: "string \<Rightarrow> pyfloat option \<Rightarrow> pydict" where
  "field k x = (case x of None \<Rightarrow> [] | Some r \<Rightarrow> [(k, PFloat r)])"

definition to_metadata :: "timing_profile \<Rightarrow> pydict" where
  "to_metadata p =
     (''time_scale'', PFloat (fp_time_scale p))
     # field ''processing_rate_hz'' (fp_processing_rate_hz p)
     @ field ''experiential_rate_hz'' (fp_experiential_rate_hz p)
     @ field ''vision_sample_hz'' (fp_vision_sample_hz p)"

text \<open>An argument left out is \<open>PNone\<close>.\<close>

definition build_timing_metadata :: "pyval \<Rightarrow> pyval \<Rightarrow> pyval \<Rightarrow> pyval \<Rightarrow> py_exc + pydict" where
  "build_timing_metadata time_scale processing experiential vision =
     ebind (coerce_positive_opt time_scale) (\<lambda>ts.
     ebind (coerce_positive_opt processing) (\<lambda>pr.
     ebind (coerce_positive_opt experiential) (\<lambda>er.
     ebind (coerce_positive_opt vision) (\<lambda>vs.
       let timing = field ''time_scale'' ts @ field ''processing_rate_hz'' pr
                    @ field ''experiential_rate_hz'' er @ field ''vision_sample_hz'' vs
       in if timing \<noteq> [] \<and> ts = None then Inl InvalidForkTimingProfile
          else Inr (if timing = [] then [] else [(''timing'', PDict timing)])))))"

definition parse_timing :: "pydict \<Rightarrow> py_exc + timing_profile option" where
  "parse_timing raw =
     (if raw = [] then Inr None
      else case map_of raw ''time_scale'' of
        None \<Rightarrow> Inl InvalidForkTimingProfile
      | Some v \<Rightarrow>
          ebind (coerce_positive v) (\<lambda>ts.
          ebind (coerce_positive_opt (dget raw ''processing_rate_hz'' PNone)) (\<lambda>pr.
          ebind (coerce_positive_opt (dget raw ''experiential_rate_hz'' PNone)) (\<lambda>er.
          ebind (coerce_positive_opt (dget raw ''vision_sample_hz'' PNone)) (\<lambda>vs.
            Inr (Some \<lparr>fp_time_scale = ts, fp_processing_rate_hz = pr,
                       fp_experiential_rate_hz = er, fp_vision_sample_hz = vs\<rparr>))))))"

definition fork_timing_profile :: "pyval \<Rightarrow> py_exc + timing_profile option" where
  "fork_timing_profile metadata =
     (case metadata of
        PDict d \<Rightarrow>
          (case dget d ''timing'' PNone of
             PNone \<Rightarrow> Inr None
           | PDict raw \<Rightarrow> parse_timing raw
           | _ \<Rightarrow> Inl InvalidForkTimingProfile)
      | _ \<Rightarrow> Inl InvalidForkTimingProfile)"

section \<open>Applying it\<close>

record cycle_rates =
  cr_processing_rate :: pyfloat
  cr_experiential_rate :: pyfloat
  cr_effective_experiential_rate :: pyfloat
  cr_has_access_rate :: bool
  cr_vision_sample_hz :: "pyfloat option"

definition set_processing_rate :: "pyfloat \<Rightarrow> cycle_rates \<Rightarrow> py_exc + cycle_rates" where
  "set_processing_rate hz r =
     (if fl_less hz (Fin 0) \<or> hz = Fin 0 then Inl ValueError else Inr (r\<lparr>cr_processing_rate := hz\<rparr>))"

definition set_experiential_rate :: "pyfloat \<Rightarrow> cycle_rates \<Rightarrow> py_exc + cycle_rates" where
  "set_experiential_rate hz r =
     (if fl_less hz (Fin 0) \<or> hz = Fin 0 then Inl ValueError
      else (let r1 = r\<lparr>cr_experiential_rate := hz\<rparr>
            in Inr (if \<not> cr_has_access_rate r1 then r1\<lparr>cr_effective_experiential_rate := hz\<rparr> else r1)))"

definition with_rate :: "pyfloat option \<Rightarrow> (pyfloat \<Rightarrow> 's \<Rightarrow> py_exc + 's) \<Rightarrow> 's \<Rightarrow> py_exc + 's" where
  "with_rate x f s = (case x of None \<Rightarrow> Inr s | Some hz \<Rightarrow> f hz s)"

definition fl_val :: "pyfloat option \<Rightarrow> pyval" where
  "fl_val x = (case x of None \<Rightarrow> PNone | Some r \<Rightarrow> PFloat r)"

definition apply_vision_rate ::
  "pyfloat option \<Rightarrow> (pyfloat \<Rightarrow> bool) option \<Rightarrow> cycle_rates \<Rightarrow> py_exc + (pydict \<times> cycle_rates)" where
  "apply_vision_rate vision sink r =
     (case vision of
        None \<Rightarrow> Inr ([(''vision_sample_hz'', PNone)], r)
      | Some hz \<Rightarrow>
          (case sink of
             None \<Rightarrow> Inr ([(''vision_sample_hz'', PNone), (''vision_sample_hz_unapplied'', PFloat hz)], r)
           | Some ok \<Rightarrow>
               if ok hz then Inr ([(''vision_sample_hz'', PFloat hz)], r\<lparr>cr_vision_sample_hz := Some hz\<rparr>)
               else Inl OtherException))"

text \<open>
  The clock takes finite scales only: an infinite one leaves the reals this model of the clock
  is on, and is \<open>OtherException\<close> here, as is a vision setter that raises.
\<close>

definition apply_fork_timing_profile ::
  "timing_profile option \<Rightarrow> real \<Rightarrow> real \<Rightarrow> (pyfloat \<Rightarrow> bool) option \<Rightarrow> entity_clock \<Rightarrow> cycle_rates \<Rightarrow>
   py_exc + (pydict \<times> entity_clock \<times> cycle_rates)" where
  "apply_fork_timing_profile profile wall1 wall2 vision_sink clock rates =
     (case profile of
        None \<Rightarrow> Inr ([(''applied'', PBool False), (''time_scale'', PNone), (''processing_rate_hz'', PNone),
                     (''experiential_rate_hz'', PNone), (''vision_sample_hz'', PNone)], clock, rates)
      | Some p \<Rightarrow>
          (case fp_time_scale p of
             Fin s \<Rightarrow>
               ebind (set_scale s wall1 wall2 clock) (\<lambda>clock'.
               ebind (with_rate (fp_processing_rate_hz p) set_processing_rate rates) (\<lambda>r1.
               ebind (with_rate (fp_experiential_rate_hz p) set_experiential_rate r1) (\<lambda>r2.
               ebind (apply_vision_rate (fp_vision_sample_hz p) vision_sink r2) (\<lambda>(fields, r3).
                 Inr ([(''applied'', PBool True), (''time_scale'', PFloat (Fin s)),
                       (''processing_rate_hz'', fl_val (fp_processing_rate_hz p)),
                       (''experiential_rate_hz'', fl_val (fp_experiential_rate_hz p))] @ fields, clock', r3)))))
           | _ \<Rightarrow> Inl OtherException))"

section \<open>Valid profiles\<close>

definition positive :: "pyfloat \<Rightarrow> bool" where
  "positive x \<longleftrightarrow> fl_less (Fin 0) x"

definition profile_ok :: "timing_profile \<Rightarrow> bool" where
  "profile_ok p \<longleftrightarrow> positive (fp_time_scale p) \<and>
     (\<forall>x \<in> set_option (fp_processing_rate_hz p). positive x) \<and>
     (\<forall>x \<in> set_option (fp_experiential_rate_hz p). positive x) \<and>
     (\<forall>x \<in> set_option (fp_vision_sample_hz p). positive x)"

lemma coerce_positive_ok: "coerce_positive v = Inr x \<Longrightarrow> positive x"
  by (auto simp: coerce_positive_def positive_def split: sum.splits if_splits)

lemma coerce_positive_float [simp]: "positive x \<Longrightarrow> coerce_positive (PFloat x) = Inr x"
  by (cases x) (auto simp: coerce_positive_def positive_def)

lemma coerce_positive_opt_ok: "coerce_positive_opt v = Inr x \<Longrightarrow> \<forall>r \<in> set_option x. positive r"
  by (auto simp: coerce_positive_opt_def coerce_positive_ok split: if_splits)

lemma coerce_positive_opt_val:
  "\<forall>r \<in> set_option x. positive r \<Longrightarrow> coerce_positive_opt (fl_val x) = Inr x"
  by (cases x) (simp_all add: coerce_positive_opt_def fl_val_def)

lemma parse_timing_ok: "parse_timing raw = Inr (Some p) \<Longrightarrow> profile_ok p"
  using coerce_positive_ok coerce_positive_opt_ok
  by (auto simp: parse_timing_def profile_ok_def split: if_splits option.splits)

lemma dget_field:
  "dget (field k x @ d) k' v = (if k = k' \<and> x \<noteq> None then fl_val x else dget d k' v)"
  by (auto simp: field_def fl_val_def split: option.split)

lemma dget_field_end: "dget (field k x) k' PNone = (if k = k' then fl_val x else PNone)"
  by (auto simp: field_def fl_val_def split: option.split)

lemma parse_to_metadata: "profile_ok p \<Longrightarrow> parse_timing (to_metadata p) = Inr (Some p)"
proof -
  assume p: "profile_ok p"
  have d: "dget (to_metadata p) ''processing_rate_hz'' PNone = fl_val (fp_processing_rate_hz p)"
    "dget (to_metadata p) ''experiential_rate_hz'' PNone = fl_val (fp_experiential_rate_hz p)"
    "dget (to_metadata p) ''vision_sample_hz'' PNone = fl_val (fp_vision_sample_hz p)"
    by (simp_all add: to_metadata_def dget_field dget_field_end fl_val_def)
  have "map_of (to_metadata p) ''time_scale'' = Some (PFloat (fp_time_scale p))"
    and "to_metadata p \<noteq> []" by (simp_all add: to_metadata_def)
  with p d show ?thesis by (simp add: parse_timing_def profile_ok_def coerce_positive_opt_val)
qed

section \<open>Properties\<close>

text \<open>
  Round trip: every profile the parser accepts renders to a metadata dictionary that parses
  back to it, and everything it accepts is strictly positive.
\<close>

theorem timing_profile_roundtrip:
  assumes "fork_timing_profile metadata = Inr (Some p)"
  shows "fork_timing_profile (PDict [(''timing'', PDict (to_metadata p))]) = Inr (Some p) \<and> profile_ok p"
proof -
  have "profile_ok p"
    using assms by (auto simp: fork_timing_profile_def split: pyval.splits intro: parse_timing_ok)
  then show ?thesis by (simp add: fork_timing_profile_def parse_to_metadata)
qed

theorem timing_profile_roundtrip_witness:
  "\<exists>p. fork_timing_profile (PDict [(''timing'', PDict [(''time_scale'', PInt 2)])]) = Inr (Some p) \<and>
     fork_timing_profile (PDict [(''timing'', PDict (to_metadata p))]) = Inr (Some p)"
proof -
  have "fork_timing_profile (PDict [(''timing'', PDict [(''time_scale'', PInt 2)])]) =
    Inr (Some \<lparr>fp_time_scale = Fin 2, fp_processing_rate_hz = None, fp_experiential_rate_hz = None,
               fp_vision_sample_hz = None\<rparr>)"
    by (simp add: fork_timing_profile_def parse_timing_def coerce_positive_def coerce_positive_opt_def)
  with timing_profile_roundtrip [OF this] show ?thesis by blast
qed

text \<open>
  Applying a profile never moves subjective time: with both clock readings at one instant the
  subjective reading of that instant is the same before and after, the new scale is the
  profile's, and a fork without a profile changes neither clock nor rates.
\<close>

theorem applying_profile_keeps_subjective_now:
  assumes "apply_fork_timing_profile profile w w sink clock rates = Inr (summary, clock', rates')"
  shows "clock_now clock' w = clock_now clock w \<and>
    (case profile of
       None \<Rightarrow> clock' = clock \<and> rates' = rates
     | Some p \<Rightarrow> fp_time_scale p = Fin (ec_scale clock') \<and> 0 \<le> ec_scale clock' \<and>
         (\<forall>hz. fp_processing_rate_hz p = Some hz \<longrightarrow> cr_processing_rate rates' = hz))"
proof (cases profile)
  case None
  with assms show ?thesis by (simp add: apply_fork_timing_profile_def)
next
  case (Some p)
  obtain s where s: "fp_time_scale p = Fin s"
    using assms Some by (auto simp: apply_fork_timing_profile_def split: pyfloat.splits)
  from assms Some s obtain r1 r2 where c: "set_scale s w w clock = Inr clock'"
    and r1: "with_rate (fp_processing_rate_hz p) set_processing_rate rates = Inr r1"
    and r2: "with_rate (fp_experiential_rate_hz p) set_experiential_rate r1 = Inr r2"
    and v: "\<exists>fields. apply_vision_rate (fp_vision_sample_hz p) sink r2 = Inr (fields, rates')"
    by (auto simp: apply_fork_timing_profile_def)
  have r': "cr_processing_rate rates' = cr_processing_rate r2"
    using v by (auto simp: apply_vision_rate_def split: option.splits if_splits)
  have p1: "\<forall>hz. fp_processing_rate_hz p = Some hz \<longrightarrow> cr_processing_rate r1 = hz"
    using r1 by (auto simp: with_rate_def set_processing_rate_def split: if_splits)
  have p2: "cr_processing_rate r2 = cr_processing_rate r1"
    using r2 by (auto simp: with_rate_def set_experiential_rate_def Let_def split: if_splits option.splits)
  show ?thesis
    using c p1 p2 r' s Some by (auto simp: set_scale_def clock_now_def split: if_splits)
qed

theorem applying_profile_keeps_subjective_now_witness:
  "\<exists>summary clock' rates'. apply_fork_timing_profile
      (Some \<lparr>fp_time_scale = Fin 2, fp_processing_rate_hz = Some (Fin 20), fp_experiential_rate_hz = None,
             fp_vision_sample_hz = None\<rparr>) 5 5 None \<lparr>ec_scale = 1, ec_wall_origin = 0, ec_origin = 0\<rparr>
      \<lparr>cr_processing_rate = Fin 10, cr_experiential_rate = Fin 3, cr_effective_experiential_rate = Fin 3,
       cr_has_access_rate = False, cr_vision_sample_hz = None\<rparr> = Inr (summary, clock', rates') \<and>
     clock_now clock' 5 = 5 \<and> cr_processing_rate rates' = Fin 20"
proof -
  let ?a = "apply_fork_timing_profile
      (Some \<lparr>fp_time_scale = Fin 2, fp_processing_rate_hz = Some (Fin 20), fp_experiential_rate_hz = None,
             fp_vision_sample_hz = None\<rparr>) 5 5 None \<lparr>ec_scale = 1, ec_wall_origin = 0, ec_origin = 0\<rparr>
      \<lparr>cr_processing_rate = Fin 10, cr_experiential_rate = Fin 3, cr_effective_experiential_rate = Fin 3,
       cr_has_access_rate = False, cr_vision_sample_hz = None\<rparr>"
  have "\<exists>x. ?a = Inr x"
    by (simp add: apply_fork_timing_profile_def set_scale_def with_rate_def set_processing_rate_def apply_vision_rate_def)
  then obtain summary clock' rates' where a: "?a = Inr (summary, clock', rates')" by auto
  show ?thesis using applying_profile_keeps_subjective_now [OF a] a by (auto simp: clock_now_def)
qed

text \<open>
  The parser does not refuse infinity: an infinite time scale is accepted as a runnable
  profile, both when it is packed and when it is parsed.
\<close>

theorem infinite_time_scale_is_accepted:
  "\<exists>p m. build_timing_metadata (PFloat PosInf) PNone PNone PNone = Inr m \<and>
     fork_timing_profile (PDict m) = Inr (Some p) \<and> fp_time_scale p = PosInf"
  by (simp add: build_timing_metadata_def coerce_positive_opt_def coerce_positive_def field_def
      fork_timing_profile_def parse_timing_def)

end
