(* ===== verification/Salience.thy ===== *)
theory Salience
  imports BusSchema "HOL-Library.Multiset"
begin

text \<open>
  Models the salience of a candidate: \<open>kaine/workspace/novelty.py\<close> (the novelty window),
  \<open>kaine/workspace/strategies.py\<close> (the goal and affect factors) and
  \<open>kaine/workspace/salience.py\<close> (the product form with arousal contrast). The fingerprint of an
  event (a hash of its JSON form), the affect modulator and the readings of drives and learning
  progress are arguments. Scores are reals.
\<close>

section \<open>Novelty\<close>

text \<open>The window of the last fingerprints, oldest first, and how often each occurs in it.\<close>

record 'f novelty_tracker =
  nt_window :: nat
  nt_fps :: "'f list"
  nt_counts :: "'f \<Rightarrow> nat"

definition novelty_init :: "int \<Rightarrow> py_exc + 'f novelty_tracker" where
  "novelty_init window =
     (if window \<le> 0 then Inl ValueError
      else Inr \<lparr>nt_window = nat window, nt_fps = [], nt_counts = \<lambda>_. 0\<rparr>)"

definition novelty_observe :: "'f \<Rightarrow> 'f novelty_tracker \<Rightarrow> real \<times> 'f novelty_tracker" where
  "novelty_observe fp t =
     (let prior_count = nt_counts t fp;
          t1 = (if length (nt_fps t) = nt_window t
                then (case nt_fps t of
                        [] \<Rightarrow> t
                      | evicted # rest \<Rightarrow>
                          t\<lparr>nt_fps := rest, nt_counts := (nt_counts t)(evicted := nt_counts t evicted - 1)\<rparr>)
                else t);
          t2 = t1\<lparr>nt_fps := nt_fps t1 @ [fp], nt_counts := (nt_counts t1)(fp := nt_counts t1 fp + 1)\<rparr>
      in (max 0 (1 - real prior_count / real (nt_window t)), t2))"

definition novelty_reset :: "'f novelty_tracker \<Rightarrow> 'f novelty_tracker" where
  "novelty_reset t = t\<lparr>nt_fps := [], nt_counts := \<lambda>_. 0\<rparr>"

section \<open>Goal and affect factors\<close>

definition clamp01 :: "real \<Rightarrow> real" where
  "clamp01 x = (if x < 0 then 0 else if x > 1 then 1 else x)"

definition static_factor :: "real \<Rightarrow> py_exc + real" where
  "static_factor dflt = (if 0 \<le> dflt \<and> dflt \<le> 1 then Inr dflt else Inl ValueError)"

definition drives_known :: "string list" where
  "drives_known = [''curiosity'', ''boredom'', ''social_drive'', ''restlessness'']"

definition scaffolding_drive_sources :: "(string \<times> string list) list" where
  "scaffolding_drive_sources = [(''action_selection'', [''restlessness''])]"

text \<open>The per-drive source table, as the list of (drive, source) pairs.\<close>

definition build_drive_sources :: "(string \<times> string list) list \<Rightarrow> py_exc + (string \<times> string) list" where
  "build_drive_sources tags_by_source =
     (if list_all (\<lambda>(_, tags). list_all (\<lambda>t. t \<in> set drives_known) tags) tags_by_source
      then Inr (concat (map (\<lambda>(source, tags). map (\<lambda>t. (t, source)) tags)
                 (tags_by_source @ scaffolding_drive_sources)))
      else Inl ValueError)"

definition drive_above :: "string \<times> real \<Rightarrow> string \<times> real \<Rightarrow> bool" where
  "drive_above a b \<longleftrightarrow> snd a > snd b \<or> snd a = snd b \<and> fst a > fst b"

fun dominant_from :: "string \<times> real \<Rightarrow> (string \<times> real) list \<Rightarrow> string \<times> real" where
  "dominant_from best [] = best"
| "dominant_from best (d # ds) = dominant_from (if drive_above d best then d else best) ds"

definition dominant_drive :: "(string \<times> real) list \<Rightarrow> (string \<times> real) option" where
  "dominant_drive drives = (case drives of [] \<Rightarrow> None | d # ds \<Rightarrow> Some (dominant_from d ds))"

definition drive_relevance ::
  "real \<Rightarrow> (string \<times> string) list \<Rightarrow> (string \<times> real) list \<Rightarrow> string \<Rightarrow> real" where
  "drive_relevance attenuation drive_sources drives source =
     (case dominant_drive drives of
        None \<Rightarrow> 1
      | Some (drive, level) \<Rightarrow>
          if level \<le> 0 then 1
          else let relevance = (if (drive, source) \<in> set drive_sources then 1 else 0)
               in clamp01 (1 - level * (1 - relevance) * attenuation))"

text \<open>A reading that is missing, not a number or not finite is \<open>None\<close>.\<close>

definition interest_relevance :: "real \<Rightarrow> real \<Rightarrow> real option \<Rightarrow> real option \<Rightarrow> real" where
  "interest_relevance gain lower curiosity lp =
     (let d = (case curiosity of None \<Rightarrow> 0 | Some c \<Rightarrow> clamp01 c)
      in if d = 0 then 1
         else case lp of
           None \<Rightarrow> 1
         | Some p \<Rightarrow>
             let q = clamp01 p
             in if q \<le> lower then 1
                else let lp_plus = (q - lower) / (1 - lower)
                     in if lp_plus = 0 then 1 else 1 + gain * d * lp_plus)"

section \<open>The score\<close>

definition sigmoid :: "real \<Rightarrow> real" where
  "sigmoid x = (if 0 \<le> x then 1 / (1 + exp (- x)) else exp x / (1 + exp x))"

definition arousal_contrast :: "real \<Rightarrow> real \<Rightarrow> real" where
  "arousal_contrast p gain =
     (let q = clamp01 p
      in if gain \<le> 1 / 10 ^ 9 then q
         else let lo = sigmoid (- (gain / 2)); hi = sigmoid (gain / 2)
              in clamp01 ((sigmoid (gain * (q - 1 / 2)) - lo) / (hi - lo)))"

text \<open>
  One event scored: the goal factor as read (\<open>None\<close> when it is no finite number), the affect
  factor and the contrast gain of the modulator.
\<close>

definition salience_score ::
  "real \<Rightarrow> 'f \<Rightarrow> real option \<Rightarrow> real \<Rightarrow> real \<Rightarrow> 'f novelty_tracker \<Rightarrow> real \<times> 'f novelty_tracker" where
  "salience_score salience fp raw_goal affect gain t =
     (let intensity = clamp01 salience;
          (nov, t') = novelty_observe fp t;
          novelty = clamp01 nov;
          goal = (case raw_goal of Some g \<Rightarrow> if g \<ge> 0 then g else 0 | None \<Rightarrow> 0);
          priority = clamp01 (intensity * novelty * goal)
      in (clamp01 (clamp01 affect * arousal_contrast priority gain), t'))"

section \<open>Bounds and monotonicity\<close>

lemma clamp01_bounds [simp]: "0 \<le> clamp01 x" "clamp01 x \<le> 1"
  by (simp_all add: clamp01_def)

lemma clamp01_id [simp]: "0 \<le> x \<Longrightarrow> x \<le> 1 \<Longrightarrow> clamp01 x = x"
  by (simp add: clamp01_def)

lemma clamp01_mono: "x \<le> y \<Longrightarrow> clamp01 x \<le> clamp01 y"
  by (simp add: clamp01_def)

lemma sigmoid_alt: "sigmoid x = 1 / (1 + exp (- x))"
  by (simp add: sigmoid_def exp_minus divide_simps)

lemma sigmoid_strict_mono: "x < y \<Longrightarrow> sigmoid x < sigmoid y"
  unfolding sigmoid_alt by (intro divide_strict_left_mono mult_pos_pos) (simp_all add: add_pos_pos)

lemma sigmoid_mono: "x \<le> y \<Longrightarrow> sigmoid x \<le> sigmoid y"
  using sigmoid_strict_mono [of x y] by (cases "x = y") auto

lemma arousal_contrast_bounds: "0 \<le> arousal_contrast p g \<and> arousal_contrast p g \<le> 1"
  by (simp add: arousal_contrast_def Let_def)

lemma arousal_contrast_mono: "p \<le> q \<Longrightarrow> arousal_contrast p g \<le> arousal_contrast q g"
proof -
  assume pq: "p \<le> q"
  show ?thesis
  proof (cases "g \<le> 1 / 10 ^ 9")
    case True
    then show ?thesis using clamp01_mono [OF pq] by (simp add: arousal_contrast_def Let_def)
  next
    case False
    then have g: "0 < g" by (simp add: not_le less_trans [of 0 "1 / 10 ^ 9"])
    then have "sigmoid (- (g / 2)) < sigmoid (g / 2)" by (intro sigmoid_strict_mono) simp
    moreover have "sigmoid (g * (clamp01 p - 1 / 2)) \<le> sigmoid (g * (clamp01 q - 1 / 2))"
      using g clamp01_mono [OF pq] by (intro sigmoid_mono mult_left_mono) auto
    ultimately have "(sigmoid (g * (clamp01 p - 1 / 2)) - sigmoid (- (g / 2))) / (sigmoid (g / 2) - sigmoid (- (g / 2)))
        \<le> (sigmoid (g * (clamp01 q - 1 / 2)) - sigmoid (- (g / 2))) / (sigmoid (g / 2) - sigmoid (- (g / 2)))"
      by (intro divide_right_mono) auto
    then show ?thesis using False by (simp add: arousal_contrast_def Let_def clamp01_mono)
  qed
qed

lemma arousal_contrast_ends: "arousal_contrast 0 g = 0 \<and> arousal_contrast 1 g = 1"
proof (cases "g \<le> 1 / 10 ^ 9")
  case False
  then have "0 < g" by (simp add: not_le less_trans [of 0 "1 / 10 ^ 9"])
  then have "sigmoid (- (g / 2)) < sigmoid (g / 2)" by (intro sigmoid_strict_mono) simp
  then show ?thesis using False by (simp add: arousal_contrast_def Let_def)
qed (simp add: arousal_contrast_def)

section \<open>The window\<close>

text \<open>The counter is in step with the window, and the window is bounded.\<close>

definition novelty_ok :: "'f novelty_tracker \<Rightarrow> bool" where
  "novelty_ok t \<longleftrightarrow> 0 < nt_window t \<and> length (nt_fps t) \<le> nt_window t \<and>
     nt_counts t = (\<lambda>f. count (mset (nt_fps t)) f)"

lemma novelty_observe_ok:
  assumes "novelty_ok t"
  shows "novelty_ok (snd (novelty_observe fp t))"
proof (cases "length (nt_fps t) = nt_window t")
  case True
  then obtain e rest where "nt_fps t = e # rest"
    using assms by (cases "nt_fps t") (auto simp: novelty_ok_def)
  with True assms show ?thesis
    by (simp add: novelty_ok_def novelty_observe_def Let_def fun_eq_iff)
next
  case False
  with assms show ?thesis by (simp add: novelty_ok_def novelty_observe_def Let_def fun_eq_iff)
qed

lemma novelty_observe_value:
  "novelty_ok t \<Longrightarrow>
   fst (novelty_observe fp t) = 1 - real (count (mset (nt_fps t)) fp) / real (nt_window t)"
proof -
  assume t: "novelty_ok t"
  then have "count (mset (nt_fps t)) fp \<le> nt_window t"
    using size_filter_mset_lesseq [of "\<lambda>y. y = fp" "mset (nt_fps t)"]
    by (simp add: novelty_ok_def count_conv_size_mset)
  with t show ?thesis by (simp add: novelty_observe_def Let_def novelty_ok_def)
qed

definition novelty_step :: "'f novelty_tracker \<Rightarrow> 'f \<Rightarrow> 'f novelty_tracker" where
  "novelty_step t fp = snd (novelty_observe fp t)"

text \<open>The window holds the last fingerprints observed.\<close>

definition last_n :: "nat \<Rightarrow> 'a list \<Rightarrow> 'a list" where
  "last_n n xs = drop (length xs - n) xs"

lemma novelty_step_window:
  "novelty_ok t \<Longrightarrow> nt_fps t = last_n (nt_window t) xs \<Longrightarrow>
   nt_fps (novelty_step t fp) = last_n (nt_window t) (xs @ [fp]) \<and> nt_window (novelty_step t fp) = nt_window t"
proof -
  assume t: "novelty_ok t" and w: "nt_fps t = last_n (nt_window t) xs"
  show ?thesis
  proof (cases "length (nt_fps t) = nt_window t")
    case True
    then obtain e rest where r: "nt_fps t = e # rest"
      using t by (cases "nt_fps t") (auto simp: novelty_ok_def)
    have l: "nt_window t \<le> length xs" using True w by (simp add: last_n_def)
    have "rest = drop (Suc (length xs - nt_window t)) xs"
      using r w by (simp add: last_n_def drop_Suc flip: tl_drop)
    then show ?thesis
      using True r l t by (simp add: novelty_step_def novelty_observe_def Let_def last_n_def Suc_diff_le)
  next
    case False
    then have "length xs < nt_window t" using w t by (auto simp: last_n_def novelty_ok_def)
    then show ?thesis
      using False w by (simp add: novelty_step_def novelty_observe_def Let_def last_n_def)
  qed
qed

interpretation novelty: machine novelty_step "\<lambda>_. True" novelty_ok
  by unfold_locales (simp add: novelty_step_def novelty_observe_ok)

lemma novelty_run_window:
  "novelty_ok t \<Longrightarrow> nt_fps t = last_n (nt_window t) xs \<Longrightarrow>
   nt_fps (run novelty_step t ys) = last_n (nt_window t) (xs @ ys) \<and>
   nt_window (run novelty_step t ys) = nt_window t"
proof (induction ys arbitrary: t xs)
  case (Cons y ys)
  have "novelty_ok (novelty_step t y)" using Cons.prems(1) by (simp add: novelty_step_def novelty_observe_ok)
  with Cons.IH [of "novelty_step t y" "xs @ [y]"] novelty_step_window [OF Cons.prems] show ?case by simp
qed simp

section \<open>The goal factors\<close>

lemma dominant_from_mem: "dominant_from b ds \<in> insert b (set ds)"
  by (induction b ds rule: dominant_from.induct) auto

lemma dominant_drive_mem: "dominant_drive ds = Some d \<Longrightarrow> d \<in> set ds"
  using dominant_from_mem by (fastforce simp: dominant_drive_def split: list.splits)

lemma drive_relevance_bounds:
  assumes "0 \<le> a" and "a \<le> 1" and "\<forall>d \<in> set drives. snd d \<le> 1"
  shows "1 - a \<le> drive_relevance a table drives src \<and> drive_relevance a table drives src \<le> 1"
proof (cases "dominant_drive drives")
  case None
  then show ?thesis using assms by (simp add: drive_relevance_def)
next
  case (Some d)
  obtain n l where d: "d = (n, l)" by (cases d)
  have "l \<le> 1" using dominant_drive_mem [OF Some] assms(3) d by force
  then have "0 < l \<Longrightarrow> l * a \<le> 1 * a" using assms(1) by (intro mult_right_mono) auto
  then show ?thesis using Some d assms(1,2) by (auto simp: drive_relevance_def Let_def clamp01_def)
qed

lemma interest_bounds:
  assumes "0 \<le> gain" and "0 \<le> lower" and "lower < 1"
  shows "1 \<le> interest_relevance gain lower c p \<and> interest_relevance gain lower c p \<le> 1 + gain"
proof -
  have f: "0 \<le> gain * clamp01 x * ((clamp01 y - lower) / (1 - lower)) \<and>
      gain * clamp01 x * ((clamp01 y - lower) / (1 - lower)) \<le> gain"
    if "lower < clamp01 y" for x y
  proof -
    have q: "0 \<le> (clamp01 y - lower) / (1 - lower)" "(clamp01 y - lower) / (1 - lower) \<le> 1"
      using assms that by (simp_all add: divide_simps)
    have "clamp01 x * ((clamp01 y - lower) / (1 - lower)) \<le> 1 * 1"
      using q by (intro mult_mono) auto
    then have "gain * (clamp01 x * ((clamp01 y - lower) / (1 - lower))) \<le> gain * 1"
      using assms(1) by (intro mult_left_mono) auto
    moreover have "0 \<le> gain * (clamp01 x * ((clamp01 y - lower) / (1 - lower)))"
      using q assms(1) by (intro mult_nonneg_nonneg) auto
    ultimately show ?thesis by (simp only: mult.assoc mult_1_right)
  qed
  show ?thesis
    using assms(1) f by (auto simp: interest_relevance_def Let_def split: option.split)
qed

section \<open>Properties\<close>

text \<open>
  Novelty counts recurrence within the window: after any observations, the novelty of an event
  is one minus the share of the last window of events that had its fingerprint; so an event
  not seen in the window is fully novel, and the value is between 0 and 1.
\<close>

theorem novelty_is_share_of_window:
  assumes "novelty_init window = Inr t"
  shows "fst (novelty_observe fp (run novelty_step t seen)) =
    1 - real (count (mset (last_n (nat window) seen)) fp) / real_of_int window"
proof -
  have t: "novelty_ok t" "nt_window t = nat window" "nt_fps t = last_n (nt_window t) []" "0 < window"
    using assms by (auto simp: novelty_init_def novelty_ok_def last_n_def split: if_splits)
  have "novelty_ok (run novelty_step t seen)"
    by (rule novelty.run_inv [OF t(1)]) (simp add: list_all_iff)
  from novelty_observe_value [OF this] novelty_run_window [OF t(1,3), of seen] t(2,4)
  show ?thesis by simp
qed

theorem novelty_is_share_of_window_witness:
  "\<exists>t. novelty_init 2 = Inr t \<and> fst (novelty_observe ''a'' (run novelty_step t [''a'', ''b'', ''a''])) = 1 / 2"
proof -
  obtain t :: "string novelty_tracker" where t: "novelty_init 2 = Inr t" by (simp add: novelty_init_def)
  show ?thesis
    using novelty_is_share_of_window [OF t, of "''a''" "[''a'', ''b'', ''a'']"] t
    by (auto simp: last_n_def)
qed

text \<open>
  The salience score is between 0 and 1 and monotone in the event's intensity: with the same
  window, goal, affect and contrast gain, a more intense event never scores lower; the
  contrast keeps the ends of the scale, and an event of zero intensity scores zero.
\<close>

theorem salience_bounded_and_monotone:
  "0 \<le> fst (salience_score s fp goal affect gain t) \<and> fst (salience_score s fp goal affect gain t) \<le> 1 \<and>
   (s \<le> s' \<longrightarrow> fst (salience_score s fp goal affect gain t) \<le> fst (salience_score s' fp goal affect gain t)) \<and>
   fst (salience_score 0 fp goal affect gain t) = 0"
proof -
  let ?n = "clamp01 (fst (novelty_observe fp t))"
  let ?g = "case goal of Some g \<Rightarrow> if g \<ge> 0 then g else 0 | None \<Rightarrow> (0::real)"
  have g: "0 \<le> ?g" by (simp split: option.split)
  have e: "fst (salience_score x fp goal affect gain t) =
      clamp01 (clamp01 affect * arousal_contrast (clamp01 (clamp01 x * ?n * ?g)) gain)" for x
    by (simp add: salience_score_def case_prod_beta Let_def)
  have "s \<le> s' \<Longrightarrow> clamp01 s * ?n * ?g \<le> clamp01 s' * ?n * ?g"
    using g by (intro mult_right_mono clamp01_mono) auto
  then have "s \<le> s' \<Longrightarrow> clamp01 affect * arousal_contrast (clamp01 (clamp01 s * ?n * ?g)) gain \<le>
      clamp01 affect * arousal_contrast (clamp01 (clamp01 s' * ?n * ?g)) gain"
    by (intro mult_left_mono arousal_contrast_mono clamp01_mono) auto
  then show ?thesis
    unfolding e using arousal_contrast_ends [of gain] by (auto intro: clamp01_mono)
qed

theorem salience_bounded_and_monotone_witness:
  "(1 / 2 :: real) \<le> 1 \<and>
   (\<forall>t. fst (salience_score (1 / 2) ''a'' (Some 1) 1 4 t) \<le> fst (salience_score 1 ''a'' (Some 1) 1 4 t))"
  using salience_bounded_and_monotone [of "1 / 2" "''a''" "Some 1" 1 4 _ 1] by simp

text \<open>
  The goal factors stay around one: the drive factor lies between one minus the attenuation and
  one, and is one for a source that serves the dominant drive; the interest factor lies
  between one and one plus its gain.
\<close>

theorem goal_factor_bounds:
  assumes "0 \<le> a" and "a \<le> 1" and "list_all (\<lambda>(_, l). l \<le> 1) drives"
    and "0 \<le> gain" and "0 \<le> lower" and "lower < 1"
  shows "1 - a \<le> drive_relevance a table drives src \<and> drive_relevance a table drives src \<le> 1 \<and>
    (\<forall>d. dominant_drive drives = Some d \<and> (fst d, src) \<in> set table \<longrightarrow> drive_relevance a table drives src = 1) \<and>
    1 \<le> interest_relevance gain lower c p \<and> interest_relevance gain lower c p \<le> 1 + gain"
proof -
  have "\<forall>d \<in> set drives. snd d \<le> 1" using assms(3) by (auto simp: list_all_iff)
  from drive_relevance_bounds [OF assms(1,2) this, of table src] interest_bounds [OF assms(4-6), of c p]
  show ?thesis by (auto simp: drive_relevance_def Let_def)
qed

theorem goal_factor_bounds_witness:
  "1 / 2 \<le> drive_relevance (1 / 2) [(''curiosity'', ''vision'')] [(''curiosity'', 4 / 5), (''boredom'', 1)] ''vision'' \<and>
   interest_relevance (1 / 2) (1 / 5) (Some 1) (Some 2) \<le> 1 + 1 / 2"
  using goal_factor_bounds [of "1 / 2" "[(''curiosity'', 4 / 5), (''boredom'', 1)]" "1 / 2" "1 / 5"
      "[(''curiosity'', ''vision'')]" "''vision''" "Some 1" "Some 2"]
  by simp

end
