(* ===== verification/Coherence.thy ===== *)
theory Coherence
  imports BusSchema
begin

text \<open>
  Models \<open>kaine/workspace/coherence.py\<close> (phase-locking values over sliding windows and the bounded
  multiplier they give) and \<open>kaine/workspace/regulation_bias.py\<close> (the decaying tier-1 bias on one
  source). Phases and factors are reals; a reported phase may be missing or non-finite. The
  interface \<open>selection_gain\<close> is what the selection of \<open>Workspace\<close> relies on of a multiplier.
\<close>

section \<open>Phase locking\<close>

definition suffix_of :: "nat \<Rightarrow> 'a list \<Rightarrow> 'a list" where
  "suffix_of n xs = drop (length xs - n) xs"

definition clip01 :: "real \<Rightarrow> real" where
  "clip01 x = (if x < 0 then 0 else if x > 1 then 1 else x)"

definition phase_locking_value :: "real list \<Rightarrow> real list \<Rightarrow> real" where
  "phase_locking_value phases_a phases_b =
     (let n = min (length phases_a) (length phases_b)
      in if n = 0 then 0
         else (let ds = map2 (\<lambda>a b. a - b) (suffix_of n phases_a) (suffix_of n phases_b);
                   re = sum_list (map cos ds); im = sum_list (map sin ds)
               in clip01 (sqrt (re\<^sup>2 + im\<^sup>2) / real n)))"

text \<open>The unordered pairs \<open>i < j\<close> of a list.\<close>

fun unordered_pairs :: "'a list \<Rightarrow> ('a \<times> 'a) list" where
  "unordered_pairs [] = []"
| "unordered_pairs (x # xs) = map (\<lambda>y. (x, y)) xs @ unordered_pairs xs"

definition mean_pairwise_plv :: "real list list \<Rightarrow> real" where
  "mean_pairwise_plv windows =
     (let ps = unordered_pairs windows
      in if ps = [] then 1
         else sum_list (map (\<lambda>(a, b). phase_locking_value a b) ps) / real (length ps))"

section \<open>The scorer\<close>

record coherence_scorer =
  co_window :: nat
  co_floor :: real
  co_ceiling :: real
  co_buffers :: "string \<Rightarrow> (real \<times> bool) list"

definition coherence_init :: "int \<Rightarrow> real \<Rightarrow> real \<Rightarrow> py_exc + coherence_scorer" where
  "coherence_init plv_window lower upper =
     (if plv_window < 10 then Inl ValueError
      else if \<not> (0 \<le> lower \<and> lower \<le> upper) then Inl ValueError
      else if upper \<le> 0 then Inl ValueError
      else Inr \<lparr>co_window = nat plv_window, co_floor = lower, co_ceiling = upper, co_buffers = \<lambda>_. []\<rparr>)"

definition neutral_phase :: real where
  "neutral_phase = 0"

text \<open>A bounded deque keeps its last \<open>maxlen\<close> elements.\<close>

definition deque_append :: "nat \<Rightarrow> 'a \<Rightarrow> 'a list \<Rightarrow> 'a list" where
  "deque_append maxlen x xs = suffix_of maxlen (xs @ [x])"

definition observe_phase :: "string \<times> pyfloat option \<Rightarrow> coherence_scorer \<Rightarrow> coherence_scorer" where
  "observe_phase sp c =
     (let (source, ph) = sp;
          buf = co_buffers c source;
          (v, input_finite) = (case ph of Some (Fin r) \<Rightarrow> (r, True) | _ \<Rightarrow> (neutral_phase, False));
          fresh = (buf \<noteq> [] \<and> input_finite \<and> v \<noteq> fst (last buf))
      in c\<lparr>co_buffers := (co_buffers c)(source := deque_append (co_window c) (v, fresh) buf)\<rparr>)"

definition observe_phases :: "(string \<times> pyfloat option) list \<Rightarrow> coherence_scorer \<Rightarrow> coherence_scorer" where
  "observe_phases phases c = foldl (\<lambda>s x. observe_phase x s) c phases"

definition neutral_plv :: "coherence_scorer \<Rightarrow> real" where
  "neutral_plv c =
     (if co_ceiling c = co_floor c then 1
      else clip01 ((1 - co_floor c) / (co_ceiling c - co_floor c)))"

definition jointly_fresh :: "(real \<times> bool) list \<Rightarrow> (real \<times> bool) list \<Rightarrow> (real \<times> real) list" where
  "jointly_fresh a b =
     (let n = min (length a) (length b)
      in map (\<lambda>((va, _), (vb, _)). (va, vb))
           (filter (\<lambda>((_, fa), (_, fb)). fa \<and> fb) (zip (suffix_of n a) (suffix_of n b))))"

definition pair_plv :: "coherence_scorer \<Rightarrow> string \<Rightarrow> string \<Rightarrow> real option" where
  "pair_plv c a b =
     (if co_buffers c a = [] \<or> co_buffers c b = [] then None
      else let ps = jointly_fresh (co_buffers c a) (co_buffers c b)
           in if length ps < 3 then None
              else Some (phase_locking_value (map fst ps) (map snd ps)))"

definition pair_or_neutral :: "coherence_scorer \<Rightarrow> string \<Rightarrow> string \<Rightarrow> real" where
  "pair_or_neutral c a b = (case pair_plv c a b of None \<Rightarrow> neutral_plv c | Some p \<Rightarrow> p)"

definition mean :: "real list \<Rightarrow> real" where
  "mean xs = sum_list xs / real (length xs)"

definition plv :: "coherence_scorer \<Rightarrow> string list \<Rightarrow> real" where
  "plv c sources =
     (let ps = unordered_pairs sources
      in if ps = [] then neutral_plv c else mean (map (\<lambda>(a, b). pair_or_neutral c a b) ps))"

definition factor_from_plv :: "coherence_scorer \<Rightarrow> real \<Rightarrow> real" where
  "factor_from_plv c p = co_floor c + (co_ceiling c - co_floor c) * clip01 p"

definition factor :: "coherence_scorer \<Rightarrow> string list \<Rightarrow> real" where
  "factor c sources = factor_from_plv c (plv c sources)"

definition factor_for_source :: "coherence_scorer \<Rightarrow> string \<Rightarrow> string list \<Rightarrow> real" where
  "factor_for_source c source cohort =
     (let others = filter (\<lambda>s. s \<noteq> source) cohort
      in if others = [] then factor_from_plv c (neutral_plv c)
         else factor_from_plv c (mean (map (pair_or_neutral c source) others)))"

section \<open>The regulation bias\<close>

record regulation_bias =
  rb_source :: "string option"
  rb_bias :: real
  rb_decay_s :: real
  rb_t1 :: real

definition regulation_init :: regulation_bias where
  "regulation_init = \<lparr>rb_source = None, rb_bias = 0, rb_decay_s = 1, rb_t1 = 0\<rparr>"

text \<open>\<open>tier == 1\<close>, which True and 1.0 satisfy too.\<close>

fun equals_one :: "pyval \<Rightarrow> bool" where
  "equals_one (PInt n) = (n = 1)"
| "equals_one (PBool b) = b"
| "equals_one (PFloat x) = (x = Fin 1)"
| "equals_one _ = False"

text \<open>An int or float that is no bool, and finite; \<open>isfinite\<close> of a huge int raises.\<close>

fun finite_number :: "pyval \<Rightarrow> py_exc + real option" where
  "finite_number (PInt n) = ebind (fl_of_int n) (\<lambda>x. Inr (case x of Fin r \<Rightarrow> Some r | _ \<Rightarrow> None))"
| "finite_number (PFloat x) = Inr (case x of Fin r \<Rightarrow> Some r | _ \<Rightarrow> None)"
| "finite_number _ = Inr None"

text \<open>One event with the clock's reading should it be adopted.\<close>

definition observe_regulation :: "event \<Rightarrow> real \<Rightarrow> regulation_bias \<Rightarrow> py_exc + regulation_bias" where
  "observe_regulation e now rb =
     (if ev_source e \<noteq> ''affect'' then Inr rb
      else if ev_type e = ''affect.state''
      then Inr (if dget (ev_payload e) ''reset'' PNone = PBool True then regulation_init else rb)
      else if ev_type e \<noteq> ''affect.regulation'' then Inr rb
      else if \<not> equals_one (dget (ev_payload e) ''tier'' PNone) then Inr rb
      else case dget (ev_payload e) ''source'' PNone of
        PStr source \<Rightarrow>
          if source = [] then Inr rb
          else ebind (finite_number (dget (ev_payload e) ''bias'' PNone)) (\<lambda>b.
            case b of
              Some bias \<Rightarrow>
                if \<not> (0 \<le> bias \<and> bias \<le> 1) then Inr rb
                else ebind (finite_number (dget (ev_payload e) ''decay_s'' PNone)) (\<lambda>d.
                  case d of
                    Some decay \<Rightarrow>
                      if decay \<le> 0 then Inr rb
                      else Inr \<lparr>rb_source = Some source, rb_bias = bias, rb_decay_s = decay, rb_t1 = now\<rparr>
                  | None \<Rightarrow> Inr rb)
            | None \<Rightarrow> Inr rb)
      | _ \<Rightarrow> Inr rb)"

text \<open>The events in order; a raise leaves what the earlier ones set.\<close>

fun observe_regulations ::
  "((string \<times> event) \<times> real) list \<Rightarrow> regulation_bias \<Rightarrow> regulation_bias \<times> py_exc option" where
  "observe_regulations [] rb = (rb, None)"
| "observe_regulations (((_, e), now) # es) rb =
     (case observe_regulation e now rb of
        Inl x \<Rightarrow> (rb, Some x)
      | Inr rb' \<Rightarrow> observe_regulations es rb')"

definition current_bias :: "regulation_bias \<Rightarrow> real \<Rightarrow> real" where
  "current_bias rb now =
     (case rb_source rb of
        None \<Rightarrow> 0
      | Some _ \<Rightarrow> rb_bias rb * exp (- max 0 (now - rb_t1 rb) / rb_decay_s rb))"

definition bias_factor_for_source :: "regulation_bias \<Rightarrow> real \<Rightarrow> string \<Rightarrow> real" where
  "bias_factor_for_source rb now source = (if rb_source rb = Some source then 1 - current_bias rb now else 1)"

definition describe_bias :: "regulation_bias \<Rightarrow> real \<Rightarrow> (string \<times> real) option" where
  "describe_bias rb now =
     (case rb_source rb of
        None \<Rightarrow> None
      | Some s \<Rightarrow> let b = current_bias rb now in if b \<le> 0 then None else Some (s, 1 - b))"

section \<open>Bounds\<close>

lemma clip01_bounds [simp]: "0 \<le> clip01 x" "clip01 x \<le> 1"
  by (simp_all add: clip01_def)

lemma clip01_id [simp]: "0 \<le> x \<Longrightarrow> x \<le> 1 \<Longrightarrow> clip01 x = x"
  by (simp add: clip01_def)

lemma plv_bounds: "0 \<le> phase_locking_value a b \<and> phase_locking_value a b \<le> 1"
  by (simp add: phase_locking_value_def Let_def)

lemma length_suffix [simp]: "n \<le> length xs \<Longrightarrow> length (suffix_of n xs) = n"
  by (simp add: suffix_of_def)

lemma suffix_whole [simp]: "length xs \<le> n \<Longrightarrow> suffix_of n xs = xs"
  by (simp add: suffix_of_def)

lemma sum_list_uminus: "sum_list (map (\<lambda>x. - f x) xs) = - sum_list (map f xs :: real list)"
  by (induction xs) auto

lemma plv_symmetric: "phase_locking_value a b = phase_locking_value b a"
proof -
  let ?n = "min (length a) (length b)"
  let ?d = "map2 (\<lambda>a b. a - b) (suffix_of ?n a) (suffix_of ?n b)"
  have d: "map2 (\<lambda>a b. a - b) (suffix_of ?n b) (suffix_of ?n a) = map uminus ?d"
    by (rule nth_equalityI) (auto simp: suffix_of_def)
  have "sum_list (map cos (map uminus ?d)) = sum_list (map cos ?d)"
    and "sum_list (map sin (map uminus ?d)) = - sum_list (map sin ?d)"
    by (simp_all add: o_def sum_list_uminus)
  then show ?thesis
    unfolding phase_locking_value_def Let_def min.commute [of "length b"] d by simp
qed

text \<open>Two series at a constant distance are fully locked.\<close>

lemma plv_locked:
  assumes "a \<noteq> []"
  shows "phase_locking_value a (map (\<lambda>x. x - t) a) = 1"
proof -
  have d: "map2 (\<lambda>a b. a - b) a (map (\<lambda>x. x - t) a) = replicate (length a) t"
    by (rule nth_equalityI) auto
  have "(real (length a) * cos t)\<^sup>2 + (real (length a) * sin t)\<^sup>2 =
      (real (length a))\<^sup>2 * ((sin t)\<^sup>2 + (cos t)\<^sup>2)"
    by (simp only: power_mult_distrib algebra_simps)
  then have "sqrt ((real (length a) * cos t)\<^sup>2 + (real (length a) * sin t)\<^sup>2) = real (length a)"
    by (simp only: sin_cos_squared_add mult_1_right real_sqrt_abs)
  then show ?thesis
    using assms by (simp add: phase_locking_value_def Let_def d sum_list_replicate)
qed

lemma neutral_plv_bounds: "0 \<le> neutral_plv c \<and> neutral_plv c \<le> 1"
  by (simp add: neutral_plv_def)

lemma pair_or_neutral_bounds: "0 \<le> pair_or_neutral c a b \<and> pair_or_neutral c a b \<le> 1"
  by (auto simp: pair_or_neutral_def pair_plv_def Let_def plv_bounds neutral_plv_bounds split: option.split)

lemma mean_bounds:
  assumes "xs \<noteq> []" and "\<forall>x \<in> set xs. l \<le> x \<and> x \<le> u"
  shows "l \<le> mean xs \<and> mean xs \<le> u"
proof -
  have "real (length xs) * l \<le> sum_list xs \<and> sum_list xs \<le> real (length xs) * u"
    using assms(2) by (induction xs) (auto simp: algebra_simps)
  with assms(1) show ?thesis by (simp add: mean_def field_simps)
qed

definition coherence_ok :: "coherence_scorer \<Rightarrow> bool" where
  "coherence_ok c \<longleftrightarrow> 0 \<le> co_floor c \<and> co_floor c \<le> co_ceiling c \<and> 0 < co_ceiling c \<and>
     (\<forall>s. length (co_buffers c s) \<le> co_window c)"

lemma factor_from_plv_bounds:
  "coherence_ok c \<Longrightarrow> co_floor c \<le> factor_from_plv c p \<and> factor_from_plv c p \<le> co_ceiling c"
proof -
  assume c: "coherence_ok c"
  then have "(co_ceiling c - co_floor c) * clip01 p \<le> (co_ceiling c - co_floor c) * 1"
    by (intro mult_left_mono) (auto simp: coherence_ok_def)
  with c show ?thesis by (simp add: factor_from_plv_def coherence_ok_def)
qed

lemma factor_for_source_bounds:
  "coherence_ok c \<Longrightarrow> co_floor c \<le> factor_for_source c s cohort \<and> factor_for_source c s cohort \<le> co_ceiling c"
  by (simp add: factor_for_source_def Let_def factor_from_plv_bounds)

text \<open>Without enough fresh phases the layer is neutral.\<close>

lemma neutral_factor:
  assumes "coherence_ok c" and "co_floor c \<le> 1" and "1 \<le> co_ceiling c"
  shows "factor_from_plv c (neutral_plv c) = 1"
proof (cases "co_ceiling c = co_floor c")
  case True
  with assms show ?thesis by (simp add: factor_from_plv_def)
next
  case False
  with assms have "(1 - co_floor c) / (co_ceiling c - co_floor c) \<le> 1" "0 \<le> (1 - co_floor c) / (co_ceiling c - co_floor c)"
    by (simp_all add: divide_simps coherence_ok_def)
  with False show ?thesis by (simp add: factor_from_plv_def neutral_plv_def)
qed

lemma mean_replicate: "xs \<noteq> [] \<Longrightarrow> \<forall>x \<in> set xs. x = k \<Longrightarrow> mean xs = k"
  using mean_bounds [of xs k k] by auto

lemma no_fresh_factor:
  assumes "coherence_ok c" and "co_floor c \<le> 1" and "1 \<le> co_ceiling c"
    and "\<forall>s' \<in> set cohort. pair_plv c s s' = None"
  shows "factor_for_source c s cohort = 1"
proof (cases "filter (\<lambda>x. x \<noteq> s) cohort = []")
  case True
  then show ?thesis using neutral_factor [OF assms(1-3)] by (simp add: factor_for_source_def)
next
  case False
  have "mean (map (pair_or_neutral c s) (filter (\<lambda>x. x \<noteq> s) cohort)) = neutral_plv c"
    using False assms(4) by (intro mean_replicate) (auto simp: pair_or_neutral_def)
  then show ?thesis using neutral_factor [OF assms(1-3)] False by (simp add: factor_for_source_def)
qed

lemma coherence_init_ok: "coherence_init w l u = Inr c \<Longrightarrow> coherence_ok c"
  by (auto simp: coherence_init_def coherence_ok_def split: if_splits)

lemma observe_phase_ok: "coherence_ok c \<Longrightarrow> coherence_ok (observe_phase sp c)"
  by (auto simp: observe_phase_def coherence_ok_def Let_def deque_append_def suffix_of_def split: prod.splits)

lemma observe_phases_ok: "coherence_ok c \<Longrightarrow> coherence_ok (observe_phases ps c)"
  unfolding observe_phases_def by (induction ps arbitrary: c) (auto simp: observe_phase_ok)

lemma observe_phases_bounds:
  "co_window (observe_phases ps c) = co_window c \<and> co_floor (observe_phases ps c) = co_floor c \<and>
   co_ceiling (observe_phases ps c) = co_ceiling c"
  unfolding observe_phases_def
  by (induction ps arbitrary: c) (auto simp: observe_phase_def Let_def split: prod.splits)

section \<open>What a selection relies on\<close>

text \<open>A multiplier per source and cohort, within bounds that are not negative.\<close>

locale selection_gain =
  fixes ok :: "'c \<Rightarrow> bool"
    and gain :: "'c \<Rightarrow> string \<Rightarrow> string list \<Rightarrow> real"
    and lo :: "'c \<Rightarrow> real"
    and hi :: "'c \<Rightarrow> real"
  assumes gain_bounds: "ok c \<Longrightarrow> lo c \<le> gain c s cohort \<and> gain c s cohort \<le> hi c"
    and lo_nonneg: "ok c \<Longrightarrow> 0 \<le> lo c"
begin

lemma unit_gain: "ok c \<Longrightarrow> lo c = 1 \<Longrightarrow> hi c = 1 \<Longrightarrow> gain c s cohort = 1"
  using gain_bounds [of c s cohort] by simp

lemma scaled_bounds:
  "ok c \<Longrightarrow> 0 \<le> v \<Longrightarrow> lo c * v \<le> v * gain c s cohort \<and> v * gain c s cohort \<le> hi c * v"
  using gain_bounds [of c s cohort] by (simp add: mult.commute mult_left_mono)

lemma order_kept:
  assumes "ok c" and "0 \<le> v" and "0 \<le> v'" and "hi c * v < lo c * v'"
  shows "v * gain c s cohort < v' * gain c s' cohort'"
  using scaled_bounds [OF assms(1,2), of s cohort] scaled_bounds [OF assms(1,3), of s' cohort'] assms(4)
  by linarith

end

interpretation coherence_gain: selection_gain coherence_ok factor_for_source co_floor co_ceiling
  by unfold_locales (auto simp: factor_for_source_bounds coherence_ok_def)

section \<open>The bias over time\<close>

definition bias_ok :: "regulation_bias \<Rightarrow> bool" where
  "bias_ok rb \<longleftrightarrow> 0 \<le> rb_bias rb \<and> rb_bias rb \<le> 1 \<and> 0 < rb_decay_s rb"

text \<open>What an observation leaves: the state as it was, the initial one, or a valid target.\<close>

lemma finite_number_cases:
  obtains "finite_number v = Inr None" | x where "finite_number v = Inr (Some x)" | e where "finite_number v = Inl e"
  by (cases "finite_number v") (metis option.exhaust)+

lemma observe_regulation_cases:
  assumes "observe_regulation e now rb = Inr rb'"
  shows "rb' = rb \<or> rb' = regulation_init \<or> bias_ok rb'"
proof -
  let ?vb = "dget (ev_payload e) ''bias'' PNone" and ?vd = "dget (ev_payload e) ''decay_s'' PNone"
  show ?thesis
    using assms
    by (cases rule: finite_number_cases [of ?vb]; cases rule: finite_number_cases [of ?vd];
        cases "dget (ev_payload e) ''source'' PNone")
      (auto simp: observe_regulation_def bias_ok_def split: if_split_asm)
qed

lemma observe_regulation_ok: "bias_ok rb \<Longrightarrow> observe_regulation e now rb = Inr rb' \<Longrightarrow> bias_ok rb'"
  by (drule observe_regulation_cases) (auto simp: bias_ok_def regulation_init_def)

definition regulation_step :: "regulation_bias \<Rightarrow> ((string \<times> event) \<times> real) list \<Rightarrow> regulation_bias" where
  "regulation_step rb es = fst (observe_regulations es rb)"

lemma observe_regulations_ok: "bias_ok rb \<Longrightarrow> bias_ok (fst (observe_regulations es rb))"
  by (induction es rb rule: observe_regulations.induct)
    (auto split: sum.split dest: observe_regulation_ok)

interpretation regulation: machine regulation_step "\<lambda>_. True" bias_ok
  by unfold_locales (simp add: regulation_step_def observe_regulations_ok)

lemma current_bias_decays:
  assumes "bias_ok rb" and "t \<le> t'"
  shows "0 \<le> current_bias rb t' \<and> current_bias rb t' \<le> current_bias rb t \<and> current_bias rb t \<le> rb_bias rb"
proof -
  have d: "0 < rb_decay_s rb" and b: "0 \<le> rb_bias rb" using assms(1) by (simp_all add: bias_ok_def)
  have "- max 0 (t' - rb_t1 rb) \<le> - max 0 (t - rb_t1 rb)" using assms(2) by simp
  then have "- max 0 (t' - rb_t1 rb) / rb_decay_s rb \<le> - max 0 (t - rb_t1 rb) / rb_decay_s rb"
    using d by (intro divide_right_mono) auto
  then have "exp (- max 0 (t' - rb_t1 rb) / rb_decay_s rb) \<le> exp (- max 0 (t - rb_t1 rb) / rb_decay_s rb)"
    by simp
  moreover have "- max 0 (t - rb_t1 rb) / rb_decay_s rb \<le> 0" using d by (auto simp: divide_le_0_iff)
  then have "rb_bias rb * exp (- max 0 (t - rb_t1 rb) / rb_decay_s rb) \<le> rb_bias rb * 1"
    using b by (intro mult_left_mono) auto
  ultimately show ?thesis
    using b by (auto simp: current_bias_def intro: mult_left_mono split: option.split)
qed

section \<open>Properties\<close>

text \<open>
  Coherence never runs away: after any observations of phases (missing and non-finite ones
  included) of a scorer built on valid bounds, every window is bounded, the multiplier of
  every source in every cohort stays between the floor and the ceiling, and it is exactly one
  for a source without enough fresh phases in common with its cohort, when one lies within
  the bounds.
\<close>

theorem coherence_factor_bounded:
  assumes "coherence_init w l u = Inr c"
  shows "let c' = observe_phases phases c in
    (\<forall>s. length (co_buffers c' s) \<le> nat w) \<and>
    l \<le> factor_for_source c' s cohort \<and> factor_for_source c' s cohort \<le> u \<and>
    ((\<forall>s' \<in> set cohort. pair_plv c' s s' = None) \<and> l \<le> 1 \<and> 1 \<le> u \<longrightarrow> factor_for_source c' s cohort = 1)"
proof -
  let ?c = "observe_phases phases c"
  have ok: "coherence_ok ?c" using coherence_init_ok [OF assms] observe_phases_ok by blast
  have f: "co_window ?c = nat w" "co_floor ?c = l" "co_ceiling ?c = u"
    using assms observe_phases_bounds [of phases c] by (auto simp: coherence_init_def split: if_splits)
  show ?thesis
    using ok f coherence_gain.gain_bounds [OF ok, of s cohort] no_fresh_factor [OF ok]
    by (auto simp: Let_def coherence_ok_def)
qed

theorem coherence_factor_bounded_witness:
  "\<exists>c. coherence_init 10 (1 / 2) 2 = Inr c \<and>
     factor_for_source (observe_phases [(''vision'', Some (Fin 1)), (''touch'', None)] c) ''vision'' [''vision'', ''touch''] \<le> 2"
proof -
  obtain c where c: "coherence_init 10 (1 / 2) 2 = Inr c" by (simp add: coherence_init_def)
  show ?thesis
    using coherence_factor_bounded [OF c, of "[(''vision'', Some (Fin 1)), (''touch'', None)]" "''vision''"
        "[''vision'', ''touch'']"] c by (auto simp: Let_def)
qed

text \<open>
  The phase-locking value is a symmetric measure in the unit interval, and it is one for two
  series that keep a constant phase difference.
\<close>

theorem phase_locking_measure:
  assumes "a \<noteq> []"
  shows "0 \<le> phase_locking_value a b \<and> phase_locking_value a b \<le> 1 \<and>
    phase_locking_value a b = phase_locking_value b a \<and> phase_locking_value a (map (\<lambda>x. x - t) a) = 1"
  using plv_bounds plv_symmetric plv_locked [OF assms] by blast

theorem phase_locking_measure_witness:
  "phase_locking_value [1, 2, 5] (map (\<lambda>x. x - 3) [1, 2, 5]) = 1"
  using phase_locking_measure [of "[1, 2, 5]" "[]" 3] by simp

text \<open>
  The regulation bias only attenuates, only its held source, and fades: after any batches of
  events, raising ones included, the factor of a source is between 0 and 1, it is 1 for every
  other source, and it never falls as time passes without new events.
\<close>

theorem regulation_only_attenuates:
  assumes "t \<le> t'"
  shows "let rb = run regulation_step regulation_init batches in
    0 \<le> bias_factor_for_source rb t s \<and> bias_factor_for_source rb t s \<le> bias_factor_for_source rb t' s \<and>
    bias_factor_for_source rb t' s \<le> 1 \<and>
    (rb_source rb \<noteq> Some s \<longrightarrow> bias_factor_for_source rb t s = 1)"
proof -
  let ?rb = "run regulation_step regulation_init batches"
  have "bias_ok ?rb"
    by (rule regulation.run_inv) (simp_all add: list_all_iff bias_ok_def regulation_init_def)
  with current_bias_decays [OF this assms] show ?thesis
    by (auto simp: Let_def bias_factor_for_source_def bias_ok_def)
qed

theorem regulation_only_attenuates_witness:
  "let rb = run regulation_step regulation_init
      [[((''1-0'', \<lparr>ev_source = ''affect'', ev_type = ''affect.regulation'',
          ev_payload = [(''tier'', PInt 1), (''source'', PStr ''vision''), (''bias'', PFloat (Fin (1 / 2))),
                        (''decay_s'', PInt 2)], ev_salience = 0, ev_timestamp = 0, ev_parent = None\<rparr>), 3)]]
   in rb_source rb = Some ''vision'' \<and> bias_factor_for_source rb 3 ''vision'' \<le> bias_factor_for_source rb 8 ''vision''"
proof -
  let ?b = "[[((''1-0'', \<lparr>ev_source = ''affect'', ev_type = ''affect.regulation'',
          ev_payload = [(''tier'', PInt 1), (''source'', PStr ''vision''), (''bias'', PFloat (Fin (1 / 2))),
                        (''decay_s'', PInt 2)], ev_salience = 0, ev_timestamp = 0, ev_parent = None\<rparr>), 3 :: real)]]"
  have "rb_source (run regulation_step regulation_init ?b) = Some ''vision''"
    by (simp add: regulation_step_def observe_regulation_def)
  with regulation_only_attenuates [of 3 8 ?b "''vision''"] show ?thesis by (simp add: Let_def)
qed

end
