(* ===== verification/Feedback.thy ===== *)
theory Feedback
  imports Coherence
begin

text \<open>
  Models \<open>kaine/cycle/types.py\<close> (the snapshot of a tick) and \<open>kaine/workspace/feedback.py\<close>: the
  settings of the workspace feedback, and the controller that moves the gains of the three
  processors. The controller runs without its optional content level. The random generator is
  an argument (\<open>sample2\<close>, which draws two elements of a pool). Times and gains are reals; a
  refractory time of minus infinity is \<open>None\<close>.
\<close>

section \<open>Snapshots\<close>

record snapshot =
  sn_tick :: int
  sn_selected :: "(string \<times> event) list"
  sn_inhibited :: bool
  sn_experiential :: bool
  sn_scores :: "(string \<times> real) list"
  sn_metadata :: pydict
  sn_published_at :: "real option"

section \<open>Settings\<close>

definition FEEDBACK_ARMS :: "string list" where
  "FEEDBACK_ARMS = [''off'', ''head_only'', ''head_gain'', ''full'', ''matched_random'']"

definition PROCESSORS :: "string list" where
  "PROCESSORS = [''vision'', ''audition'', ''interoception'']"

definition report_type :: "string \<Rightarrow> string option" where
  "report_type = map_of [(''vision'', ''vision.report''), (''audition'', ''audition.perception''),
     (''interoception'', ''interoception.report'')]"

definition FEEDBACK_KEY :: string where
  "FEEDBACK_KEY = ''workspace_feedback''"

definition ALLOWED_KEYS :: "string list" where
  "ALLOWED_KEYS = [''enabled'', ''arm'', ''pi_min'', ''pi_max'', ''disagreement_threshold'',
     ''conflict_error_ratio'', ''gain_step'', ''gain_relax_s'', ''refractory_s'', ''head_learning_rate'']"

record feedback_settings =
  fs_arm :: string
  fs_pi_min :: real
  fs_pi_max :: real
  fs_disagreement_threshold :: real
  fs_conflict_error_ratio :: real
  fs_gain_step :: real
  fs_gain_relax_s :: real
  fs_refractory_s :: real
  fs_head_learning_rate :: real

definition gain_active :: "feedback_settings \<Rightarrow> bool" where
  "gain_active s \<longleftrightarrow> fs_arm s \<in> {''head_gain'', ''full'', ''matched_random''}"

text \<open>A number that is finite; the overflow of a huge integer is caught and reported alike.\<close>

definition setting_float :: "pyval \<Rightarrow> py_exc + real" where
  "setting_float v = (case finite_number v of Inr (Some r) \<Rightarrow> Inr r | _ \<Rightarrow> Inl ValueError)"

text \<open>The lower-case stripped arm; the text of a value that is no string is never an arm.\<close>

definition arm_name :: "pyval \<Rightarrow> string" where
  "arm_name v = (case v of PStr s \<Rightarrow> map lower_char (py_strip s) | _ \<Rightarrow> [])"

definition feedback_from_section :: "pyval \<Rightarrow> py_exc + feedback_settings option" where
  "feedback_from_section section =
     (case section of
        PNone \<Rightarrow> Inr None
      | PDict d \<Rightarrow>
          if \<not> list_all (\<lambda>(k, _). k \<in> set ALLOWED_KEYS) d then Inl ValueError
          else (case dget d ''enabled'' (PBool False) of
            PBool enabled \<Rightarrow>
              let arm = arm_name (dget d ''arm'' (PStr ''full'')) in
              if arm \<notin> set FEEDBACK_ARMS then Inl ValueError
              else
                ebind (setting_float (dget d ''pi_min'' (PFloat (Fin (8 / 10))))) (\<lambda>pmin.
                ebind (setting_float (dget d ''pi_max'' (PFloat (Fin (125 / 100))))) (\<lambda>pmax.
                ebind (setting_float (dget d ''disagreement_threshold'' (PFloat (Fin 2)))) (\<lambda>dt.
                ebind (setting_float (dget d ''conflict_error_ratio'' (PFloat (Fin 2)))) (\<lambda>cr.
                ebind (setting_float (dget d ''gain_step'' (PFloat (Fin (1 / 10))))) (\<lambda>gs.
                ebind (setting_float (dget d ''gain_relax_s'' (PFloat (Fin 10)))) (\<lambda>gr.
                ebind (setting_float (dget d ''refractory_s'' (PFloat (Fin 10)))) (\<lambda>rs.
                ebind (setting_float (dget d ''head_learning_rate'' (PFloat (Fin (1 / 1000))))) (\<lambda>lr.
                if \<not> (0 < pmin \<and> pmin \<le> 1) then Inl ValueError
                else if \<not> (1 \<le> pmax) then Inl ValueError
                else if dt \<le> 0 then Inl ValueError
                else if cr \<le> 0 then Inl ValueError
                else if gs \<le> 0 then Inl ValueError
                else if gr \<le> 0 then Inl ValueError
                else if rs < 0 then Inl ValueError
                else if lr \<le> 0 then Inl ValueError
                else if \<not> enabled \<or> arm = ''off'' then Inr None
                else Inr (Some \<lparr>fs_arm = arm, fs_pi_min = pmin, fs_pi_max = pmax,
                  fs_disagreement_threshold = dt, fs_conflict_error_ratio = cr, fs_gain_step = gs,
                  fs_gain_relax_s = gr, fs_refractory_s = rs, fs_head_learning_rate = lr\<rparr>)))))))))
          | _ \<Rightarrow> Inl ValueError)
      | _ \<Rightarrow> Inl ValueError)"

section \<open>The controller\<close>

record 'r controller =
  fc_settings :: feedback_settings
  fc_rng :: "'r option"
  fc_gains :: "string \<Rightarrow> real"
  fc_last_time :: "real option"
  fc_refractory :: "string \<Rightarrow> real option"
  fc_seen :: "string set"
  fc_sequence :: "real list option"

text \<open>The seed is already the generator it starts.\<close>

definition controller_init :: "feedback_settings \<Rightarrow> 'r option \<Rightarrow> py_exc + 'r controller" where
  "controller_init s seed =
     (if fs_arm s = ''matched_random'' \<and> seed = None then Inl ValueError
      else Inr \<lparr>fc_settings = s, fc_rng = (if fs_arm s = ''matched_random'' then seed else None),
                fc_gains = \<lambda>_. 1, fc_last_time = None, fc_refractory = \<lambda>_. None, fc_seen = {},
                fc_sequence = None\<rparr>)"

text \<open>Restoring one processor's gain; a value that is unusable or out of bounds is skipped.\<close>

definition load_gain :: "pydict \<Rightarrow> string \<Rightarrow> 'r controller \<Rightarrow> py_exc + 'r controller" where
  "load_gain gains p c =
     ebind (finite_number (dget gains p PNone)) (\<lambda>v.
       Inr (case v of
         Some g \<Rightarrow>
           if fs_pi_min (fc_settings c) \<le> g \<and> g \<le> fs_pi_max (fc_settings c)
           then c\<lparr>fc_gains := (fc_gains c)(p := g)\<rparr> else c
       | None \<Rightarrow> c))"

text \<open>In the order of the processors; a raise leaves the ones restored before.\<close>

fun load_gains :: "pydict \<Rightarrow> string list \<Rightarrow> 'r controller \<Rightarrow> 'r controller \<times> py_exc option" where
  "load_gains gains [] c = (c, None)"
| "load_gains gains (p # ps) c =
     (case load_gain gains p c of
        Inl e \<Rightarrow> (c, Some e)
      | Inr c' \<Rightarrow> load_gains gains ps c')"

definition load_controller :: "pydict \<Rightarrow> 'r controller \<Rightarrow> 'r controller \<times> py_exc option" where
  "load_controller state c =
     (case dget state ''gains'' PNone of
        PDict gains \<Rightarrow> load_gains gains PROCESSORS c
      | _ \<Rightarrow> (c, None))"

definition gains_pyval :: "'r controller \<Rightarrow> pyval" where
  "gains_pyval c = PDict (map (\<lambda>p. (p, PFloat (Fin (fc_gains c p)))) PROCESSORS)"

definition controller_state :: "'r controller \<Rightarrow> pydict" where
  "controller_state c = [(''gains'', gains_pyval c)]"

text \<open>\<open>all\<close> over the values stops at the first that is not usable: \<open>None\<close>.\<close>

fun usable_floats :: "pyval list \<Rightarrow> py_exc + real list option" where
  "usable_floats [] = Inr (Some [])"
| "usable_floats (v # vs) =
     ebind (finite_number v) (\<lambda>x. case x of
       None \<Rightarrow> Inr None
     | Some r \<Rightarrow> ebind (usable_floats vs) (\<lambda>rs. Inr (map_option ((#) r) rs)))"

definition note_seen :: "event \<Rightarrow> 'r controller \<Rightarrow> 'r controller" where
  "note_seen e c =
     (if ev_source e \<in> set PROCESSORS \<and> report_type (ev_source e) = Some (ev_type e)
      then c\<lparr>fc_seen := insert (ev_source e) (fc_seen c)\<rparr> else c)"

definition note_sequence :: "event \<Rightarrow> 'r controller \<Rightarrow> py_exc + 'r controller" where
  "note_sequence e c =
     (if ev_source e = ''sequence'' \<and> ev_type e = ''sequence.report''
      then (case dget (ev_payload e) ''predicted_next_feature_vector'' PNone of
              PList vs \<Rightarrow>
                if length vs = 24
                then ebind (usable_floats vs) (\<lambda>rs.
                  Inr (case rs of Some xs \<Rightarrow> c\<lparr>fc_sequence := Some xs\<rparr> | None \<Rightarrow> c))
                else Inr c
            | _ \<Rightarrow> Inr c)
      else Inr c)"

fun observe_candidates :: "(string \<times> event) list \<Rightarrow> 'r controller \<Rightarrow> 'r controller \<times> py_exc option" where
  "observe_candidates [] c = (c, None)"
| "observe_candidates ((_, e) # es) c =
     (case note_sequence e (note_seen e c) of
        Inl x \<Rightarrow> (note_seen e c, Some x)
      | Inr c' \<Rightarrow> observe_candidates es c')"

section \<open>Gains\<close>

definition relax :: "real \<Rightarrow> 'r controller \<Rightarrow> 'r controller" where
  "relax now c =
     (case fc_last_time c of
        None \<Rightarrow> c\<lparr>fc_last_time := Some now\<rparr>
      | Some last_t \<Rightarrow>
          if now - last_t \<le> 0 then c
          else (let f = exp (- (now - last_t) / fs_gain_relax_s (fc_settings c))
                in c\<lparr>fc_gains := (\<lambda>p. if p \<in> set PROCESSORS then 1 + (fc_gains c p - 1) * f else fc_gains c p),
                     fc_last_time := Some now\<rparr>))"

definition shift_gain :: "string \<Rightarrow> string \<Rightarrow> 'r controller \<Rightarrow> real \<times> 'r controller" where
  "shift_gain up down c =
     (let s = fc_settings c;
          d0 = min (fs_gain_step s) (min (fs_pi_max s - fc_gains c up) (fc_gains c down - fs_pi_min s));
          d = max 0 d0;
          g1 = (fc_gains c)(up := fc_gains c up + d)
      in (d, c\<lparr>fc_gains := g1(down := g1 down - d)\<rparr>))"

section \<open>Broadcasts\<close>

text \<open>The workspace writes a finite float, or no threshold at all.\<close>

definition access_threshold :: "pydict \<Rightarrow> real option" where
  "access_threshold m = (case dget m ''access_threshold'' PNone of PFloat (Fin t) \<Rightarrow> Some t | _ \<Rightarrow> None)"

definition candidate_score :: "snapshot \<Rightarrow> string \<times> event \<Rightarrow> real" where
  "candidate_score sn x = (case map_of (sn_scores sn) (fst x) of Some v \<Rightarrow> v | None \<Rightarrow> ev_salience (snd x))"

text \<open>The first accessed report of each processor.\<close>

definition is_accessed :: "snapshot \<Rightarrow> string \<Rightarrow> string \<times> event \<Rightarrow> bool" where
  "is_accessed sn p x \<longleftrightarrow>
     ev_source (snd x) = p \<and> report_type p = Some (ev_type (snd x)) \<and>
     (case access_threshold (sn_metadata sn) of None \<Rightarrow> True | Some t \<Rightarrow> candidate_score sn x \<ge> t)"

definition accessed :: "snapshot \<Rightarrow> string \<Rightarrow> event option" where
  "accessed sn p = map_option snd (find (is_accessed sn p) (sn_selected sn))"

record eligibility =
  el_pwe :: real
  el_ratio :: real
  el_disagreement :: "real option"

definition eligible_of :: "'r controller \<Rightarrow> snapshot \<Rightarrow> string \<Rightarrow> py_exc + eligibility option" where
  "eligible_of c sn p =
     (case accessed sn p of
        None \<Rightarrow> Inr None
      | Some e \<Rightarrow>
          (case dget (ev_payload e) FEEDBACK_KEY PNone of
             PDict fb \<Rightarrow>
               ebind (finite_number (dget fb ''error_ratio'' PNone)) (\<lambda>ratio. case ratio of
                 None \<Rightarrow> Inr None
               | Some r \<Rightarrow>
                   if r < 0 then Inr None
                   else ebind (finite_number (dget fb ''gain'' PNone)) (\<lambda>reported.
                     ebind (finite_number (dget fb ''disagreement'' PNone)) (\<lambda>dis.
                       let g = (case reported of Some x \<Rightarrow> x | None \<Rightarrow> fc_gains c p)
                       in Inr (Some \<lparr>el_pwe = g * r, el_ratio = r, el_disagreement = dis\<rparr>))))
           | _ \<Rightarrow> Inr None))"

fun eligibles :: "'r controller \<Rightarrow> snapshot \<Rightarrow> string list \<Rightarrow> py_exc + (string \<times> eligibility) list" where
  "eligibles c sn [] = Inr []"
| "eligibles c sn (p # ps) =
     ebind (eligible_of c sn p) (\<lambda>o1. ebind (eligibles c sn ps) (\<lambda>xs.
       Inr (case o1 of None \<Rightarrow> xs | Some i \<Rightarrow> (p, i) # xs)))"

text \<open>\<open>min\<close> and \<open>max\<close> with a key: the first extremal element.\<close>

fun min_by :: "('a \<Rightarrow> real) \<Rightarrow> 'a \<Rightarrow> 'a list \<Rightarrow> 'a" where
  "min_by f b [] = b"
| "min_by f b (x # xs) = min_by f (if f x < f b then x else b) xs"

fun max_by :: "('a \<Rightarrow> real) \<Rightarrow> 'a \<Rightarrow> 'a list \<Rightarrow> 'a" where
  "max_by f b [] = b"
| "max_by f b (x # xs) = max_by f (if f x > f b then x else b) xs"

record episode =
  ep_kind :: string
  ep_conflicting :: "string option"
  ep_toward :: "string option"
  ep_away :: "string option"
  ep_delta :: real

definition off_refractory :: "'r controller \<Rightarrow> real \<Rightarrow> string \<Rightarrow> bool" where
  "off_refractory c now p = (case fc_refractory c p of None \<Rightarrow> True | Some t \<Rightarrow> now \<ge> t)"

definition set_refractory :: "string \<Rightarrow> real \<Rightarrow> 'r controller \<Rightarrow> 'r controller" where
  "set_refractory p now c =
     c\<lparr>fc_refractory := (fc_refractory c)(p := Some (now + fs_refractory_s (fc_settings c)))\<rparr>"

text \<open>The \<open>head_gain\<close> arm: one move, from the worst eligible processor to the best.\<close>

definition precision_move ::
  "real \<Rightarrow> (string \<times> eligibility) list \<Rightarrow> 'r controller \<Rightarrow> episode list \<times> 'r controller" where
  "precision_move now el c =
     (case el of
        a # b # rest \<Rightarrow>
          let key = (\<lambda>x. el_pwe (snd x));
              winner = fst (min_by key a (b # rest));
              loser = fst (max_by key a (b # rest))
          in if winner \<noteq> loser \<and> off_refractory c now loser
             then let (d, c') = shift_gain winner loser c
                  in ([\<lparr>ep_kind = ''precision'', ep_conflicting = None, ep_toward = Some winner,
                        ep_away = Some loser, ep_delta = d\<rparr>], set_refractory loser now c')
             else ([], c)
      | _ \<Rightarrow> ([], c))"

definition in_conflict :: "'r controller \<Rightarrow> real \<Rightarrow> string \<times> eligibility \<Rightarrow> bool" where
  "in_conflict c now x \<longleftrightarrow>
     (case el_disagreement (snd x) of
        None \<Rightarrow> False
      | Some d \<Rightarrow> d \<ge> fs_disagreement_threshold (fc_settings c)) \<and>
     el_ratio (snd x) \<ge> fs_conflict_error_ratio (fc_settings c) \<and> off_refractory c now (fst x)"

text \<open>The pool of the random arm.\<close>

definition random_pool :: "'r controller \<Rightarrow> string list" where
  "random_pool c = (if 2 \<le> card (fc_seen c) then sorted_list_of_set (fc_seen c) else PROCESSORS)"

text \<open>One eligible processor of the \<open>full\<close> and \<open>matched_random\<close> arms.\<close>

definition conflict_move ::
  "('r option \<Rightarrow> string list \<Rightarrow> (string \<times> string) \<times> 'r option) \<Rightarrow> real \<Rightarrow> (string \<times> eligibility) list \<Rightarrow>
   string \<times> eligibility \<Rightarrow> 'r controller \<Rightarrow> episode list \<times> 'r controller" where
  "conflict_move sample2 now el x c =
     (if \<not> in_conflict c now x then ([], c)
      else let j = fst x;
               c1 = set_refractory j now c
           in case filter (\<lambda>y. fst y \<noteq> j) el of
                [] \<Rightarrow> ([\<lparr>ep_kind = ''conflict'', ep_conflicting = Some j, ep_toward = None,
                        ep_away = None, ep_delta = 0\<rparr>], c1)
              | a # rest \<Rightarrow>
                  if fs_arm (fc_settings c) = ''full''
                  then let winner = fst (min_by (\<lambda>y. el_pwe (snd y)) a rest);
                           (d, c2) = shift_gain winner j c1
                       in ([\<lparr>ep_kind = ''conflict'', ep_conflicting = Some j, ep_toward = Some winner,
                             ep_away = Some j, ep_delta = d\<rparr>], c2)
                  else let ((toward, away), rng) = sample2 (fc_rng c1) (random_pool c1);
                           (d, c2) = shift_gain toward away (c1\<lparr>fc_rng := rng\<rparr>)
                       in ([\<lparr>ep_kind = ''random'', ep_conflicting = Some j, ep_toward = Some toward,
                             ep_away = Some away, ep_delta = d\<rparr>], c2))"

fun conflict_moves ::
  "('r option \<Rightarrow> string list \<Rightarrow> (string \<times> string) \<times> 'r option) \<Rightarrow> real \<Rightarrow> (string \<times> eligibility) list \<Rightarrow>
   (string \<times> eligibility) list \<Rightarrow> 'r controller \<Rightarrow> episode list \<times> 'r controller" where
  "conflict_moves sample2 now el [] c = ([], c)"
| "conflict_moves sample2 now el (x # xs) c =
     (let (es, c1) = conflict_move sample2 now el x c;
          (es', c2) = conflict_moves sample2 now el xs c1
      in (es @ es', c2))"

definition moves ::
  "('r option \<Rightarrow> string list \<Rightarrow> (string \<times> string) \<times> 'r option) \<Rightarrow> real \<Rightarrow> (string \<times> eligibility) list \<Rightarrow>
   'r controller \<Rightarrow> episode list \<times> 'r controller" where
  "moves sample2 now el c =
     (if \<not> gain_active (fc_settings c) then ([], c)
      else if fs_arm (fc_settings c) = ''head_gain'' then precision_move now el c
      else conflict_moves sample2 now el el c)"

definition opt_str :: "string option \<Rightarrow> pyval" where
  "opt_str o1 = (case o1 of None \<Rightarrow> PNone | Some s \<Rightarrow> PStr s)"

definition episode_pyval :: "episode \<Rightarrow> pyval" where
  "episode_pyval ep = PDict [(''kind'', PStr (ep_kind ep)), (''conflicting'', opt_str (ep_conflicting ep)),
     (''toward'', opt_str (ep_toward ep)), (''away'', opt_str (ep_away ep)), (''delta'', PFloat (Fin (ep_delta ep)))]"

definition report_pyval :: "episode list \<Rightarrow> 'r controller \<Rightarrow> pyval" where
  "report_pyval eps c = PDict [(''arm'', PStr (fs_arm (fc_settings c))), (''gains'', gains_pyval c),
     (''sequence_prediction'',
        case fc_sequence c of None \<Rightarrow> PNone | Some xs \<Rightarrow> PList (map (\<lambda>x. PFloat (Fin x)) xs)),
     (''episodes'', PList (map episode_pyval eps))]"

text \<open>The episodes are returned next to the report they are part of.\<close>

definition on_broadcast ::
  "('r option \<Rightarrow> string list \<Rightarrow> (string \<times> string) \<times> 'r option) \<Rightarrow> real \<Rightarrow> snapshot \<Rightarrow> 'r controller \<Rightarrow>
   (py_exc + (pyval \<times> episode list) option) \<times> 'r controller" where
  "on_broadcast sample2 now sn c =
     (let c1 = relax now c in
      if sn_inhibited sn then (Inr None, c1)
      else case eligibles c1 sn PROCESSORS of
        Inl e \<Rightarrow> (Inl e, c1)
      | Inr el \<Rightarrow>
          let (eps, c2) = moves sample2 now el c1
          in (Inr (Some (report_pyval eps c2, eps)), c2))"

section \<open>What an operation keeps\<close>

definition settings_ok :: "feedback_settings \<Rightarrow> bool" where
  "settings_ok s \<longleftrightarrow> 0 < fs_pi_min s \<and> fs_pi_min s \<le> 1 \<and> 1 \<le> fs_pi_max s \<and> 0 < fs_gain_step s \<and>
     0 < fs_gain_relax_s s \<and> 0 \<le> fs_refractory_s s"

definition gains_bounded :: "'r controller \<Rightarrow> bool" where
  "gains_bounded c \<longleftrightarrow> (\<forall>p \<in> set PROCESSORS.
     fs_pi_min (fc_settings c) \<le> fc_gains c p \<and> fc_gains c p \<le> fs_pi_max (fc_settings c))"

definition gain_sum :: "'r controller \<Rightarrow> real" where
  "gain_sum c = sum_list (map (fc_gains c) PROCESSORS)"

definition controller_ok :: "feedback_settings \<Rightarrow> 'r controller \<Rightarrow> bool" where
  "controller_ok s c \<longleftrightarrow> settings_ok s \<and> fc_settings c = s \<and> gains_bounded c \<and>
     fc_seen c \<subseteq> set PROCESSORS"

text \<open>What \<open>random.sample(pool, 2)\<close> promises.\<close>

definition sample2_ok :: "('r option \<Rightarrow> string list \<Rightarrow> (string \<times> string) \<times> 'r option) \<Rightarrow> bool" where
  "sample2_ok sample2 \<longleftrightarrow> (\<forall>r pool. 2 \<le> length pool \<and> distinct pool \<longrightarrow>
     (case sample2 r pool of ((a, b), _) \<Rightarrow> a \<noteq> b \<and> a \<in> set pool \<and> b \<in> set pool))"

lemma processors: "set PROCESSORS = {''vision'', ''audition'', ''interoception''}"
  by (simp add: PROCESSORS_def)

lemma gain_sum_unfold:
  "gain_sum c = fc_gains c ''vision'' + fc_gains c ''audition'' + fc_gains c ''interoception''"
  by (simp add: gain_sum_def PROCESSORS_def)

lemma exp_unit: "0 < (k :: real) \<Longrightarrow> 0 \<le> d \<Longrightarrow> 0 < exp (- d / k) \<and> exp (- d / k) \<le> 1"
  by (simp add: divide_nonneg_pos)

text \<open>Moving towards one by a factor stays within bounds around one.\<close>

lemma toward_one:
  assumes "0 \<le> f" "f \<le> (1 :: real)" "lo \<le> 1" "1 \<le> hi" "lo \<le> g" "g \<le> hi"
  shows "lo \<le> 1 + (g - 1) * f \<and> 1 + (g - 1) * f \<le> hi"
proof -
  have "1 + (g - 1) * f = (1 - f) * 1 + f * g" by (simp add: algebra_simps)
  moreover have "(1 - f) * lo + f * lo \<le> (1 - f) * 1 + f * g"
    using assms by (intro add_mono mult_left_mono) auto
  moreover have "(1 - f) * 1 + f * g \<le> (1 - f) * hi + f * hi"
    using assms by (intro add_mono mult_left_mono) auto
  ultimately show ?thesis by (simp add: algebra_simps)
qed

lemma relax_settings [simp]: "fc_settings (relax now c) = fc_settings c" "fc_refractory (relax now c) = fc_refractory c"
    "fc_seen (relax now c) = fc_seen c" "fc_rng (relax now c) = fc_rng c"
  by (simp_all add: relax_def Let_def split: option.split)

lemma relax_bounded:
  assumes "settings_ok (fc_settings c)" and "gains_bounded c"
  shows "gains_bounded (relax now c)"
  using assms exp_unit [of "fs_gain_relax_s (fc_settings c)" "now - the (fc_last_time c)"]
  by (auto simp: relax_def gains_bounded_def settings_ok_def Let_def toward_one split: option.split)

lemma relax_sum: "gain_sum c = 3 \<Longrightarrow> gain_sum (relax now c) = 3"
proof -
  assume c: "gain_sum c = 3"
  have "(a - 1) * f + ((b - 1) * f + (d - 1) * f) = (a + b + d - 3) * f" for a b d f :: real
    by (simp add: algebra_simps)
  with c show ?thesis by (auto simp: relax_def gain_sum_unfold processors Let_def split: option.split)
qed

lemma shift_settings: "shift_gain u w c = (d, c') \<Longrightarrow>
    fc_settings c' = fc_settings c \<and> fc_refractory c' = fc_refractory c \<and> fc_seen c' = fc_seen c \<and> fc_rng c' = fc_rng c"
  by (auto simp: shift_gain_def Let_def)

lemma shift_fields:
  assumes "shift_gain u w c = (d, c')" and "u \<noteq> w"
  shows "d = max 0 (min (fs_gain_step (fc_settings c))
      (min (fs_pi_max (fc_settings c) - fc_gains c u) (fc_gains c w - fs_pi_min (fc_settings c))))"
    and "fc_gains c' = (fc_gains c)(u := fc_gains c u + d, w := fc_gains c w - d)"
  using assms unfolding shift_gain_def Let_def by (auto simp del: max.bounded_iff min.bounded_iff)

lemma clipped_step: "0 \<le> a \<Longrightarrow> 0 \<le> b \<Longrightarrow> max 0 (min s (min a b)) \<le> a \<and> max 0 (min s (min a b)) \<le> (b :: real)"
  by (simp add: min_def max_def)

lemma shift_bounded:
  assumes "gains_bounded c" and "u \<in> set PROCESSORS" and "w \<in> set PROCESSORS" and "u \<noteq> w"
    and "shift_gain u w c = (d, c')"
  shows "gains_bounded c'"
proof -
  let ?s = "fc_settings c"
  note f = shift_fields [OF assms(5,4)]
  have b: "fs_pi_min ?s \<le> fc_gains c p" "fc_gains c p \<le> fs_pi_max ?s" if "p \<in> set PROCESSORS" for p
    using assms(1) that by (simp_all add: gains_bounded_def)
  have d0: "0 \<le> d" by (simp add: f(1))
  have d1: "d \<le> fs_pi_max ?s - fc_gains c u" and d2: "d \<le> fc_gains c w - fs_pi_min ?s"
    using clipped_step [of "fs_pi_max ?s - fc_gains c u" "fc_gains c w - fs_pi_min ?s" "fs_gain_step ?s"]
      b(2) [OF assms(2)] b(1) [OF assms(3)] by (simp_all add: f(1))
  have u: "fc_gains c' u = fc_gains c u + d" and w: "fc_gains c' w = fc_gains c w - d"
    and o: "p \<noteq> u \<Longrightarrow> p \<noteq> w \<Longrightarrow> fc_gains c' p = fc_gains c p" for p
    using assms(4) by (simp_all add: f(2))
  have "fs_pi_min ?s \<le> fc_gains c' u \<and> fc_gains c' u \<le> fs_pi_max ?s"
    unfolding u using d0 d1 b [OF assms(2)] by linarith
  moreover have "fs_pi_min ?s \<le> fc_gains c' w \<and> fc_gains c' w \<le> fs_pi_max ?s"
    unfolding w using d0 d2 b [OF assms(3)] by linarith
  ultimately have "fs_pi_min ?s \<le> fc_gains c' p \<and> fc_gains c' p \<le> fs_pi_max ?s" if "p \<in> set PROCESSORS" for p
    using b [OF that] o [of p] by metis
  moreover have "fc_settings c' = ?s" using shift_settings [OF assms(5)] by simp
  ultimately show ?thesis unfolding gains_bounded_def by simp
qed

lemma shift_sum:
  fixes c :: "'a controller"
  assumes "u \<in> set PROCESSORS" and "w \<in> set PROCESSORS" and "u \<noteq> w" and "shift_gain u w c = (d, c')"
  shows "gain_sum c' = gain_sum c"
proof -
  have "sum (fc_gains c') (set PROCESSORS) = sum (fc_gains c) (set PROCESSORS)"
  proof -
    let ?R = "set PROCESSORS - {u} - {w}"
    have s: "sum f (set PROCESSORS) = f u + (f w + sum f ?R)" for f :: "string \<Rightarrow> real"
      using assms(1-3) by (subst sum.remove [of _ u], simp, simp, subst sum.remove [of _ w]) auto
    have "sum (fc_gains c') ?R = sum (fc_gains c) ?R"
      by (rule sum.cong) (auto simp: shift_fields(2) [OF assms(4,3)])
    then show ?thesis unfolding s using assms(3) by (simp add: shift_fields(2) [OF assms(4,3)])
  qed
  moreover have "gain_sum x = sum (fc_gains x) (set PROCESSORS)" for x :: "'a controller"
    unfolding gain_sum_def by (rule sum_list_distinct_conv_sum_set) (simp add: PROCESSORS_def)
  ultimately show ?thesis by simp
qed

text \<open>Everything but the load keeps the sum too.\<close>

definition balanced :: "feedback_settings \<Rightarrow> 'r controller \<Rightarrow> bool" where
  "balanced s c \<longleftrightarrow> controller_ok s c \<and> gain_sum c = 3"

lemma relax_ok: "controller_ok s c \<Longrightarrow> controller_ok s (relax now c)"
  by (auto simp: controller_ok_def relax_bounded)

lemma shift_ok:
  "controller_ok s c \<Longrightarrow> u \<in> set PROCESSORS \<Longrightarrow> w \<in> set PROCESSORS \<Longrightarrow> u \<noteq> w \<Longrightarrow>
   shift_gain u w c = (d, c') \<Longrightarrow> controller_ok s c' \<and> gain_sum c' = gain_sum c"
  using shift_settings [of u w c d c'] shift_sum [of u w c d c']
  by (auto simp: controller_ok_def shift_bounded)

lemma set_refractory_ok [simp]:
  "controller_ok s (set_refractory j now c) = controller_ok s c"
  "gain_sum (set_refractory j now c) = gain_sum c"
  "controller_ok s (c\<lparr>fc_rng := r\<rparr>) = controller_ok s c" "gain_sum (c\<lparr>fc_rng := r\<rparr>) = gain_sum c"
  by (auto simp: controller_ok_def gains_bounded_def gain_sum_def set_refractory_def)

lemma min_by_mem: "min_by f b xs \<in> insert b (set xs)"
proof (induction xs arbitrary: b)
  case (Cons x xs)
  show ?case using Cons [of x] Cons [of b] by auto
qed simp

lemma max_by_mem: "max_by f b xs \<in> insert b (set xs)"
proof (induction xs arbitrary: b)
  case (Cons x xs)
  show ?case using Cons [of x] Cons [of b] by auto
qed simp

lemma eligibles_processors:
  "eligibles c sn ps = Inr el \<Longrightarrow> fst ` set el \<subseteq> set ps"
proof (induction ps arbitrary: el)
  case (Cons p ps)
  then obtain o1 xs where "eligible_of c sn p = Inr o1" and "eligibles c sn ps = Inr xs"
    and "el = (case o1 of None \<Rightarrow> xs | Some i \<Rightarrow> (p, i) # xs)" by auto
  with Cons.IH show ?case by (fastforce split: option.splits)
qed simp

text \<open>
  A property of the controller that no relaxation, no move between two processors and no later
  refractory time disturbs is kept by every broadcast.
\<close>

locale broadcast_kept =
  fixes sample2 :: "'r option \<Rightarrow> string list \<Rightarrow> (string \<times> string) \<times> 'r option"
    and kept :: "real \<Rightarrow> 'r controller \<Rightarrow> bool"
  assumes sample_ok: "kept now c \<Longrightarrow> sample2_ok sample2"
    and seen_kept: "kept now c \<Longrightarrow> fc_seen c \<subseteq> set PROCESSORS"
    and relax_kept: "kept now c \<Longrightarrow> kept now (relax now c)"
    and rng_kept: "kept now c \<Longrightarrow> kept now (c\<lparr>fc_rng := r\<rparr>)"
    and shift_kept: "kept now c \<Longrightarrow> u \<in> set PROCESSORS \<Longrightarrow> w \<in> set PROCESSORS \<Longrightarrow> u \<noteq> w \<Longrightarrow>
      shift_gain u w c = (d, c') \<Longrightarrow> kept now c'"
    and refractory_kept: "kept now c \<Longrightarrow> off_refractory c now j \<Longrightarrow> kept now (set_refractory j now c)"
begin

lemma precision_kept:
  assumes "kept now c" and "fst ` set el \<subseteq> set PROCESSORS" and "precision_move now el c = (eps, c')"
  shows "kept now c'"
proof (cases "\<exists>a b rest. el = a # b # rest")
  case True
  then obtain a b rest where el: "el = a # b # rest" by blast
  let ?k = "\<lambda>x. el_pwe (snd x)"
  let ?w = "fst (min_by ?k a (b # rest))" and ?l = "fst (max_by ?k a (b # rest))"
  have "?w \<in> set PROCESSORS" "?l \<in> set PROCESSORS"
    using min_by_mem [of ?k a "b # rest"] max_by_mem [of ?k a "b # rest"] assms(2) unfolding el
    by (metis image_eqI list.simps(15) subsetD)+
  moreover have "off_refractory c2 now j = off_refractory c now j" if "shift_gain x y c = (d, c2)" for x y d c2 j
    using shift_settings [OF that] by (simp add: off_refractory_def)
  ultimately show ?thesis
    using assms(1,3) shift_kept [OF assms(1), of ?w ?l] refractory_kept
    unfolding el precision_move_def by (auto simp: Let_def simp del: min_by.simps max_by.simps split: prod.splits if_splits)
next
  case False
  with assms show ?thesis
    by (cases el rule: list.exhaust [case_names Nil Cons]; cases "tl el") (auto simp: precision_move_def)
qed

lemma pool_ok: "kept now c \<Longrightarrow> 2 \<le> length (random_pool c) \<and> distinct (random_pool c) \<and> set (random_pool c) \<subseteq> set PROCESSORS"
  using seen_kept [of now c] finite_subset [of "fc_seen c" "set PROCESSORS"]
  by (auto simp: random_pool_def) (simp_all add: PROCESSORS_def)

lemma conflict_kept:
  assumes "kept now c" and "fst ` set el \<subseteq> set PROCESSORS" and "x \<in> set el"
    and "conflict_move sample2 now el x c = (eps, c')"
  shows "kept now c'"
proof (cases "in_conflict c now x")
  case False
  with assms show ?thesis by (simp add: conflict_move_def)
next
  case True
  define c1 where "c1 = set_refractory (fst x) now c"
  have k1: "kept now c1"
    using True assms(1) refractory_kept by (simp add: c1_def in_conflict_def)
  have j: "fst x \<in> set PROCESSORS" using assms(2,3) by auto
  show ?thesis
  proof (cases "filter (\<lambda>y. fst y \<noteq> fst x) el")
    case Nil
    with True assms(4) k1 show ?thesis by (simp add: conflict_move_def c1_def Let_def)
  next
    case (Cons a rest)
    show ?thesis
    proof (cases "fs_arm (fc_settings c) = ''full''")
      case full: True
      let ?w = "fst (min_by (\<lambda>y. el_pwe (snd y)) a rest)"
      have "min_by (\<lambda>y. el_pwe (snd y)) a rest \<in> set (filter (\<lambda>y. fst y \<noteq> fst x) el)"
        unfolding Cons using min_by_mem by simp
      then have "?w \<in> set PROCESSORS" "?w \<noteq> fst x" using assms(2) by auto
      moreover obtain d where "shift_gain ?w (fst x) c1 = (d, c')"
        using True full Cons assms(4) by (auto simp: conflict_move_def Let_def c1_def split: prod.splits)
      ultimately show ?thesis using shift_kept [OF k1] j by blast
    next
      case random: False
      obtain a' b' r where s: "sample2 (fc_rng c1) (random_pool c1) = ((a', b'), r)"
        by (metis prod.exhaust)
      have p: "2 \<le> length (random_pool c1) \<and> distinct (random_pool c1)"
        and ps: "set (random_pool c1) \<subseteq> set PROCESSORS" using pool_ok [OF k1] by blast+
      have "case sample2 (fc_rng c1) (random_pool c1) of ((a, b), _) \<Rightarrow>
          a \<noteq> b \<and> a \<in> set (random_pool c1) \<and> b \<in> set (random_pool c1)"
        by (rule sample_ok [OF k1, unfolded sample2_ok_def, rule_format, OF p])
      then have "a' \<noteq> b' \<and> a' \<in> set PROCESSORS \<and> b' \<in> set PROCESSORS" using s ps by auto
      moreover obtain d where "shift_gain a' b' (c1\<lparr>fc_rng := r\<rparr>) = (d, c')"
        using True random Cons assms(4) s by (auto simp: conflict_move_def Let_def c1_def split: prod.splits)
      ultimately show ?thesis using shift_kept [OF rng_kept [OF k1]] by blast
    qed
  qed
qed

lemma conflicts_kept:
  "kept now c \<Longrightarrow> fst ` set el \<subseteq> set PROCESSORS \<Longrightarrow> set xs \<subseteq> set el \<Longrightarrow>
   conflict_moves sample2 now el xs c = (eps, c') \<Longrightarrow> kept now c'"
proof (induction xs arbitrary: c eps c')
  case (Cons x xs)
  obtain es c1 where m: "conflict_move sample2 now el x c = (es, c1)" by fastforce
  obtain es' c2 where ms: "conflict_moves sample2 now el xs c1 = (es', c2)" by fastforce
  have "kept now c1" using conflict_kept [OF Cons.prems(1,2) _ m] Cons.prems(3) by simp
  moreover have "c' = c2" using m ms Cons.prems(4) by simp
  ultimately show ?case using Cons.IH [OF _ Cons.prems(2) _ ms] Cons.prems(3) by simp
qed simp

lemma moves_kept:
  "kept now c \<Longrightarrow> fst ` set el \<subseteq> set PROCESSORS \<Longrightarrow> moves sample2 now el c = (eps, c') \<Longrightarrow> kept now c'"
  using precision_kept [of now c el eps c'] conflicts_kept [of now c el el eps c']
  by (auto simp: moves_def split: if_splits)

lemma broadcast_kept:
  assumes "kept now c" and "on_broadcast sample2 now sn c = (r, c')"
  shows "kept now c'"
proof (cases "sn_inhibited sn")
  case True
  with assms relax_kept show ?thesis by (auto simp: on_broadcast_def Let_def)
next
  case False
  show ?thesis
  proof (cases "eligibles (relax now c) sn PROCESSORS")
    case (Inl e)
    with False assms relax_kept show ?thesis by (auto simp: on_broadcast_def Let_def)
  next
    case (Inr el)
    obtain eps c2 where m: "moves sample2 now el (relax now c) = (eps, c2)" by fastforce
    with False Inr assms(2) have "c' = c2" by (simp add: on_broadcast_def Let_def)
    with moves_kept [OF relax_kept [OF assms(1)] eligibles_processors [OF Inr] m] show ?thesis by simp
  qed
qed

lemma step_kept: "kept now c \<Longrightarrow> kept now (snd (on_broadcast sample2 now sn c))"
  using broadcast_kept by (metis prod.collapse)

end

lemma off_refractory_relax [simp]: "off_refractory (relax now c) t j = off_refractory c t j"
  by (simp add: off_refractory_def)

interpretation bounded_gains: broadcast_kept sample2 "\<lambda>now c. sample2_ok sample2 \<and> controller_ok s c" for sample2 s
  by unfold_locales (auto simp: relax_ok dest: shift_ok, auto simp: controller_ok_def)

interpretation balanced_gains: broadcast_kept sample2 "\<lambda>now c. sample2_ok sample2 \<and> balanced s c" for sample2 s
  by unfold_locales (auto simp: balanced_def relax_ok relax_sum dest: shift_ok, auto simp: controller_ok_def)

text \<open>A processor that may not trigger a move before \<open>T\<close>.\<close>

definition blocked :: "feedback_settings \<Rightarrow> real \<Rightarrow> string \<Rightarrow> 'r controller \<Rightarrow> bool" where
  "blocked s T p c \<longleftrightarrow> controller_ok s c \<and> (\<exists>t \<ge> T. fc_refractory c p = Some t)"

lemma set_refractory_blocked:
  assumes "blocked s T p c" and "off_refractory c now j"
  shows "blocked s T p (set_refractory j now c)"
proof -
  have "0 \<le> fs_refractory_s (fc_settings c)" using assms(1) by (auto simp: blocked_def controller_ok_def settings_ok_def)
  with assms show ?thesis
    by (auto simp: blocked_def off_refractory_def) (auto simp: set_refractory_def split: if_splits)
qed

interpretation refractory: broadcast_kept sample2 "\<lambda>now c. sample2_ok sample2 \<and> blocked s T p c" for sample2 s T p
proof
  fix now c u w d and c' :: "'a controller"
  assume "sample2_ok sample2 \<and> blocked s T p c" "u \<in> set PROCESSORS" "w \<in> set PROCESSORS" "u \<noteq> w"
    "shift_gain u w c = (d, c')"
  then show "sample2_ok sample2 \<and> blocked s T p c'"
    using shift_ok [of s c u w d c'] shift_settings [of u w c d c'] by (auto simp: blocked_def)
qed (auto simp: set_refractory_blocked, auto simp: blocked_def relax_ok, auto simp: controller_ok_def)

section \<open>Runs of the controller\<close>

datatype feedback_op =
    Observe "(string \<times> event) list"
  | Relax real
  | Broadcast real snapshot
  | Load pydict

fun feedback_step ::
  "('r option \<Rightarrow> string list \<Rightarrow> (string \<times> string) \<times> 'r option) \<Rightarrow> 'r controller \<Rightarrow> feedback_op \<Rightarrow> 'r controller" where
  "feedback_step sample2 c (Observe es) = fst (observe_candidates es c)"
| "feedback_step sample2 c (Relax now) = relax now c"
| "feedback_step sample2 c (Broadcast now sn) = snd (on_broadcast sample2 now sn c)"
| "feedback_step sample2 c (Load d) = fst (load_controller d c)"

fun is_load :: "feedback_op \<Rightarrow> bool" where
  "is_load (Load _) = True"
| "is_load _ = False"

lemma observe_fields:
  "fc_settings (fst (observe_candidates es c)) = fc_settings c \<and> fc_gains (fst (observe_candidates es c)) = fc_gains c \<and>
   fc_refractory (fst (observe_candidates es c)) = fc_refractory c \<and>
   (fc_seen c \<subseteq> set PROCESSORS \<longrightarrow> fc_seen (fst (observe_candidates es c)) \<subseteq> set PROCESSORS)"
proof (induction es arbitrary: c)
  case (Cons x es)
  obtain i e where x: "x = (i, e)" by fastforce
  have n: "fc_settings (note_seen e c) = fc_settings c" "fc_gains (note_seen e c) = fc_gains c"
    "fc_refractory (note_seen e c) = fc_refractory c"
    "fc_seen c \<subseteq> set PROCESSORS \<Longrightarrow> fc_seen (note_seen e c) \<subseteq> set PROCESSORS"
    by (auto simp: note_seen_def)
  show ?case
  proof (cases "note_sequence e (note_seen e c)")
    case (Inl y)
    with n x show ?thesis by simp
  next
    case (Inr c')
    then have "fc_settings c' = fc_settings (note_seen e c)" "fc_gains c' = fc_gains (note_seen e c)"
      "fc_refractory c' = fc_refractory (note_seen e c)" "fc_seen c' = fc_seen (note_seen e c)"
      by (auto simp: note_sequence_def split: if_splits pyval.splits option.splits)
    with n x Inr Cons.IH [of c'] show ?thesis by simp
  qed
qed simp

lemma observe_ok:
  "controller_ok s c \<Longrightarrow> controller_ok s (fst (observe_candidates es c)) \<and> gain_sum (fst (observe_candidates es c)) = gain_sum c"
  using observe_fields [of es c] by (auto simp: controller_ok_def gains_bounded_def gain_sum_def)

lemma load_gain_ok:
  assumes "controller_ok s c" and "load_gain d p c = Inr c'"
  shows "controller_ok s c' \<and> fc_refractory c' = fc_refractory c"
  using assms
  by (cases rule: finite_number_cases [of "dget d p PNone"])
    (auto simp: load_gain_def controller_ok_def gains_bounded_def split: if_split_asm)

lemma load_gains_ok:
  "controller_ok s c \<Longrightarrow> controller_ok s (fst (load_gains d ps c)) \<and> fc_refractory (fst (load_gains d ps c)) = fc_refractory c"
  by (induction d ps c rule: load_gains.induct) (auto split: sum.splits dest: load_gain_ok)

lemma load_controller_ok:
  "controller_ok s c \<Longrightarrow> controller_ok s (fst (load_controller d c)) \<and> fc_refractory (fst (load_controller d c)) = fc_refractory c"
  by (auto simp: load_controller_def load_gains_ok split: pyval.split)

interpretation controller: machine "feedback_step sample2" "\<lambda>_. True" "\<lambda>c. sample2_ok sample2 \<and> controller_ok s c"
  for sample2 s
proof
  fix c :: "'a controller" and x
  assume c: "sample2_ok sample2 \<and> controller_ok s c"
  show "sample2_ok sample2 \<and> controller_ok s (feedback_step sample2 c x)"
  proof (cases x)
    case (Broadcast now sn)
    then show ?thesis using bounded_gains.step_kept [OF c] by simp
  qed (use c in \<open>auto simp: observe_ok relax_ok load_controller_ok\<close>)
qed

interpretation balance: machine "feedback_step sample2" "\<lambda>x. \<not> is_load x" "\<lambda>c. sample2_ok sample2 \<and> balanced s c"
  for sample2 s
proof
  fix c :: "'a controller" and x
  assume c: "sample2_ok sample2 \<and> balanced s c" and x: "\<not> is_load x"
  show "sample2_ok sample2 \<and> balanced s (feedback_step sample2 c x)"
  proof (cases x)
    case (Broadcast now sn)
    then show ?thesis using balanced_gains.step_kept [OF c] by simp
  qed (use c x in \<open>auto simp: balanced_def observe_ok relax_ok relax_sum\<close>)
qed

interpretation refractory_run: machine "feedback_step sample2" "\<lambda>_. True" "\<lambda>c. sample2_ok sample2 \<and> blocked s T p c"
  for sample2 s T p
proof
  fix c :: "'a controller" and x
  assume c: "sample2_ok sample2 \<and> blocked s T p c"
  show "sample2_ok sample2 \<and> blocked s T p (feedback_step sample2 c x)"
  proof (cases x)
    case (Broadcast now sn)
    then show ?thesis using refractory.step_kept [OF c] by simp
  qed (use c in \<open>auto simp: blocked_def observe_ok relax_ok load_controller_ok observe_fields\<close>)
qed

section \<open>Settings and episodes\<close>

lemma init_ok:
  assumes "controller_init s seed = Inr c" and "settings_ok s"
  shows "balanced s c \<and> (\<forall>p. fc_refractory c p = None)"
  using assms by (auto simp: controller_init_def balanced_def controller_ok_def gains_bounded_def gain_sum_unfold
      settings_ok_def split: if_splits)

lemma from_section_ok: "feedback_from_section v = Inr (Some s) \<Longrightarrow> settings_ok s \<and> fs_arm s \<in> set FEEDBACK_ARMS \<and> fs_arm s \<noteq> ''off''"
  by (auto simp: feedback_from_section_def settings_ok_def Let_def split: pyval.splits if_split_asm bool.splits)

text \<open>What a disabled section makes of the settings.\<close>

definition hide_settings :: "py_exc + feedback_settings option \<Rightarrow> py_exc + feedback_settings option" where
  "hide_settings r = (case r of Inl e \<Rightarrow> Inl e | Inr _ \<Rightarrow> Inr None)"

lemma hide_simps [simp]:
  "hide_settings (Inl e) = Inl e" "hide_settings (Inr x) = Inr None"
  "hide_settings (ebind m f) = ebind m (\<lambda>x. hide_settings (f x))"
  "hide_settings (if b then r else r') = (if b then hide_settings r else hide_settings r')"
  by (simp_all add: hide_settings_def) (cases m; simp)

text \<open>The processor whose refractory time an episode starts.\<close>

definition charged :: "episode \<Rightarrow> string option" where
  "charged ep = (case ep_conflicting ep of Some j \<Rightarrow> Some j | None \<Rightarrow> ep_away ep)"

lemma precision_charged:
  assumes "precision_move now el c = (eps, c')" and "ep \<in> set eps"
  shows "\<exists>p. charged ep = Some p \<and> off_refractory c now p \<and>
    fc_refractory c' p = Some (now + fs_refractory_s (fc_settings c))"
proof -
  obtain a b rest where el: "el = a # b # rest"
    using assms by (auto simp: precision_move_def split: list.splits)
  let ?k = "\<lambda>x. el_pwe (snd x)"
  define win where "win = fst (min_by ?k a (b # rest))"
  define lose where "lose = fst (max_by ?k a (b # rest))"
  obtain d c2 where s: "shift_gain win lose c = (d, c2)" by fastforce
  have m: "precision_move now el c =
      (if win \<noteq> lose \<and> off_refractory c now lose
       then ([\<lparr>ep_kind = ''precision'', ep_conflicting = None, ep_toward = Some win, ep_away = Some lose,
               ep_delta = d\<rparr>], set_refractory lose now c2)
       else ([], c))"
    by (simp add: precision_move_def el s Let_def win_def [symmetric] lose_def [symmetric]
        del: min_by.simps max_by.simps)
  show ?thesis
    using assms shift_settings [OF s] unfolding m
    by (auto simp: charged_def set_refractory_def split: if_splits)
qed

lemma conflict_charged:
  assumes "conflict_move sample2 now el x c = (eps, c')"
  shows "fc_settings c' = fc_settings c \<and>
    (\<forall>ep \<in> set eps. charged ep = Some (fst x) \<and> off_refractory c now (fst x)) \<and>
    fc_refractory c' = (if eps = [] then fc_refractory c
      else (fc_refractory c)(fst x := Some (now + fs_refractory_s (fc_settings c))))"
  using assms
  by (auto simp: conflict_move_def charged_def Let_def set_refractory_def shift_gain_def in_conflict_def
      split: list.splits if_splits prod.splits)

text \<open>Who is blocked until \<open>T\<close> is charged from \<open>T\<close> on only, and who is charged is blocked.\<close>

lemma off_blocked: "off_refractory c now p \<Longrightarrow> blocked s T p c \<Longrightarrow> T \<le> now"
  by (auto simp: off_refractory_def blocked_def)

lemma precision_after:
  fixes c c' :: "'a controller" and sample2 :: "'a option \<Rightarrow> string list \<Rightarrow> (string \<times> string) \<times> 'a option"
  assumes "sample2_ok sample2" and "controller_ok s c" and "fst ` set el \<subseteq> set PROCESSORS"
    and "precision_move now el c = (eps, c')" and "ep \<in> set eps" and "charged ep = Some p"
  shows "(blocked s T p c \<longrightarrow> T \<le> now) \<and> blocked s (now + fs_refractory_s s) p c'"
proof -
  have "controller_ok s c'" using bounded_gains.precision_kept [of sample2 s c el now eps c'] assms by auto
  then show ?thesis
    using precision_charged [OF assms(4,5)] assms(2,6) off_blocked [of c now p s T]
    by (auto simp: blocked_def controller_ok_def)
qed

lemma conflict_after:
  assumes "sample2_ok sample2" and "controller_ok s c" and "fst ` set el \<subseteq> set PROCESSORS" and "x \<in> set el"
    and "conflict_move sample2 now el x c = (eps, c')" and "ep \<in> set eps" and "charged ep = Some p"
  shows "(blocked s T p c \<longrightarrow> T \<le> now) \<and> blocked s (now + fs_refractory_s s) p c'"
proof -
  have ok: "controller_ok s c'"
    using bounded_gains.conflict_kept [of sample2 s c el x now eps c'] assms by auto
  have "p = fst x" "off_refractory c now p" "fc_refractory c' p = Some (now + fs_refractory_s (fc_settings c))"
    using conflict_charged [OF assms(5)] assms(6,7) by auto
  then show ?thesis using ok assms(2) off_blocked [of c now p s T] by (auto simp: blocked_def controller_ok_def)
qed

lemma conflicts_after:
  assumes "sample2_ok sample2" and "fst ` set el \<subseteq> set PROCESSORS"
  shows "controller_ok s c \<Longrightarrow> set xs \<subseteq> set el \<Longrightarrow> conflict_moves sample2 now el xs c = (eps, c') \<Longrightarrow>
    ep \<in> set eps \<Longrightarrow> charged ep = Some p \<Longrightarrow>
    (blocked s T p c \<longrightarrow> T \<le> now) \<and> blocked s (now + fs_refractory_s s) p c'"
proof (induction xs arbitrary: c eps c')
  case (Cons x xs)
  obtain es c1 where m: "conflict_move sample2 now el x c = (es, c1)" by fastforce
  obtain es' c2 where ms: "conflict_moves sample2 now el xs c1 = (es', c2)" by fastforce
  have x: "x \<in> set el" and xs: "set xs \<subseteq> set el" and e: "eps = es @ es'" and c2: "c' = c2"
    using Cons.prems(2,3) m ms by simp_all
  have ok: "controller_ok s c1"
    using bounded_gains.conflict_kept [of sample2 s c el x now es c1] assms Cons.prems(1) x m by simp
  have b: "blocked s T p c \<longrightarrow> blocked s T p c1" for T
    using refractory.conflict_kept [of sample2 s T p c el x now es c1] assms x m by simp
  show ?case
  proof (cases "ep \<in> set es")
    case True
    have "(blocked s T p c \<longrightarrow> T \<le> now) \<and> blocked s (now + fs_refractory_s s) p c1"
      by (rule conflict_after [OF assms(1) Cons.prems(1) assms(2) x m True Cons.prems(5)])
    moreover have "blocked s (now + fs_refractory_s s) p c1 \<longrightarrow> blocked s (now + fs_refractory_s s) p c2"
      using refractory.conflicts_kept [of sample2 s _ p c1 el xs now es' c2] assms xs ms by simp
    ultimately show ?thesis using c2 by simp
  next
    case False
    then have "ep \<in> set es'" using Cons.prems(4) e by simp
    from Cons.IH [OF ok xs ms this Cons.prems(5)] b [of T] c2 show ?thesis by auto
  qed
qed simp

lemma moves_after:
  assumes "sample2_ok sample2" and "controller_ok s c" and "fst ` set el \<subseteq> set PROCESSORS"
    and "moves sample2 now el c = (eps, c')" and "ep \<in> set eps" and "charged ep = Some p"
  shows "(blocked s T p c \<longrightarrow> T \<le> now) \<and> blocked s (now + fs_refractory_s s) p c'"
  using assms precision_after [OF assms(1-3) _ assms(5,6)]
    conflicts_after [OF assms(1,3,2) order_refl _ assms(5,6)]
  by (auto simp: moves_def split: if_splits)

lemma broadcast_after:
  assumes "sample2_ok sample2" and "controller_ok s c"
    and "on_broadcast sample2 now sn c = (Inr (Some (r, eps)), c')" and "ep \<in> set eps" and "charged ep = Some p"
  shows "(blocked s T p c \<longrightarrow> T \<le> now) \<and> blocked s (now + fs_refractory_s s) p c'"
proof -
  have "\<not> sn_inhibited sn" using assms(3) by (auto simp: on_broadcast_def Let_def)
  then obtain el where el: "eligibles (relax now c) sn PROCESSORS = Inr el"
    and m: "moves sample2 now el (relax now c) = (eps, c')"
    using assms(3) by (auto simp: on_broadcast_def Let_def split: sum.splits prod.splits)
  have "blocked s T p c \<longrightarrow> blocked s T p (relax now c)"
    using relax_ok by (auto simp: blocked_def)
  with moves_after [OF assms(1) relax_ok [OF assms(2)] eligibles_processors [OF el] m assms(4,5), of T]
  show ?thesis by blast
qed

text \<open>A generator, settings and a broadcast in which two processors report, one in conflict.\<close>

definition sample_first :: "unit option \<Rightarrow> string list \<Rightarrow> (string \<times> string) \<times> unit option" where
  "sample_first r pool = ((hd pool, hd (tl pool)), r)"

definition full_settings :: feedback_settings where
  "full_settings = \<lparr>fs_arm = ''full'', fs_pi_min = 8 / 10, fs_pi_max = 125 / 100,
     fs_disagreement_threshold = 2, fs_conflict_error_ratio = 2, fs_gain_step = 1 / 10,
     fs_gain_relax_s = 10, fs_refractory_s = 10, fs_head_learning_rate = 1 / 1000\<rparr>"

definition start_controller :: "feedback_settings \<Rightarrow> 'r controller" where
  "start_controller s = \<lparr>fc_settings = s, fc_rng = None, fc_gains = \<lambda>_. 1, fc_last_time = None,
     fc_refractory = \<lambda>_. None, fc_seen = {}, fc_sequence = None\<rparr>"

definition report_event :: "string \<Rightarrow> string \<Rightarrow> int \<Rightarrow> event" where
  "report_event src typ ratio = \<lparr>ev_source = src, ev_type = typ,
     ev_payload = [(''workspace_feedback'', PDict [(''error_ratio'', PInt ratio), (''disagreement'', PInt 3)])],
     ev_salience = 1, ev_timestamp = 0, ev_parent = None\<rparr>"

definition conflict_snapshot :: "int \<Rightarrow> snapshot" where
  "conflict_snapshot i = \<lparr>sn_tick = i, sn_selected = [(''a:1-0'', report_event ''vision'' ''vision.report'' 3),
       (''b:1-0'', report_event ''audition'' ''audition.perception'' 1)],
     sn_inhibited = False, sn_experiential = True, sn_scores = [], sn_metadata = [], sn_published_at = None\<rparr>"

lemma sample_first_ok: "sample2_ok sample_first"
proof (unfold sample2_ok_def, intro allI impI)
  fix r and pool :: "string list"
  assume "2 \<le> length pool \<and> distinct pool"
  then obtain a b ps where "pool = a # b # ps" "distinct pool"
    by (metis Suc_le_length_iff numeral_2_eq_2)
  then show "case sample_first r pool of ((a, b), _) \<Rightarrow> a \<noteq> b \<and> a \<in> set pool \<and> b \<in> set pool"
    by (simp add: sample_first_def)
qed

definition first_result :: "(py_exc + (pyval \<times> episode list) option) \<times> unit controller" where
  "first_result = on_broadcast sample_first 0 (conflict_snapshot 0) (start_controller full_settings)"

lemma first_episode:
  "\<exists>r c1 ep. first_result = (Inr (Some (r, [ep])), c1) \<and> charged ep = Some ''vision''"
  by (simp add: first_result_def on_broadcast_def relax_def start_controller_def conflict_snapshot_def
      PROCESSORS_def eligible_of_def accessed_def is_accessed_def report_type_def report_event_def
      access_threshold_def FEEDBACK_KEY_def moves_def gain_active_def full_settings_def conflict_move_def
      in_conflict_def off_refractory_def set_refractory_def shift_gain_def charged_def Let_def)

section \<open>Properties\<close>

text \<open>
  The gains stay within their bounds and their mean stays at one: a controller built from
  a configuration that validates keeps both through any observations, relaxations and
  broadcasts of every arm, at any clock readings.
\<close>

theorem gains_stay_balanced:
  assumes "feedback_from_section section = Inr (Some s)" and "controller_init s seed = Inr c"
    and "sample2_ok sample2" and "list_all (\<lambda>x. \<not> is_load x) ops"
  shows "let c' = run (feedback_step sample2) c ops in
    gain_sum c' = 3 \<and> (\<forall>p \<in> set PROCESSORS. fs_pi_min s \<le> fc_gains c' p \<and> fc_gains c' p \<le> fs_pi_max s)"
proof -
  have "balanced s c" using init_ok [OF assms(2)] from_section_ok [OF assms(1)] by blast
  then have "balanced s (run (feedback_step sample2) c ops)"
    using balance.run_inv [of sample2 s c ops] assms(3,4) by blast
  then show ?thesis by (auto simp: balanced_def controller_ok_def gains_bounded_def Let_def)
qed

theorem gains_stay_balanced_witness:
  "\<exists>s. feedback_from_section (PDict [(''enabled'', PBool True)]) = Inr (Some s) \<and>
     (let c = run (feedback_step sample_first) (start_controller s) [Relax 0, Broadcast 5 (conflict_snapshot 0), Relax 9]
      in gain_sum c = 3)"
proof -
  have s: "feedback_from_section (PDict [(''enabled'', PBool True)]) = Inr (Some full_settings)"
    by (simp add: feedback_from_section_def ALLOWED_KEYS_def FEEDBACK_ARMS_def arm_name_def setting_float_def
        full_settings_def py_strip_def is_space_def lower_char_def)
  have "controller_init full_settings None = Inr (start_controller full_settings)"
    by (simp add: controller_init_def start_controller_def full_settings_def)
  from gains_stay_balanced [OF s this sample_first_ok, of "[Relax 0, Broadcast 5 (conflict_snapshot 0), Relax 9]"] s
  show ?thesis by (auto simp: Let_def)
qed

text \<open>
  A processor is not moved in quick succession: whatever happens between two broadcasts, the
  restoring of gains included, episodes that charge the same processor are at least the
  refractory time apart.
\<close>

theorem episodes_are_refractory_apart:
  assumes "sample2_ok sample2" and "controller_ok s c"
    and "on_broadcast sample2 now sn c = (Inr (Some (r, eps)), c1)" and "ep \<in> set eps" and "charged ep = Some p"
    and "on_broadcast sample2 now' sn' (run (feedback_step sample2) c1 ops) = (Inr (Some (r', eps')), c2)"
    and "ep' \<in> set eps'" and "charged ep' = Some p"
  shows "now + fs_refractory_s s \<le> now'"
proof -
  let ?T = "now + fs_refractory_s s"
  have "blocked s ?T p c1" using broadcast_after [OF assms(1-5)] by blast
  then have "blocked s ?T p (run (feedback_step sample2) c1 ops)"
    using refractory_run.run_inv [of sample2 s ?T p c1 ops] assms(1) by (simp add: list_all_iff)
  moreover from this have "controller_ok s (run (feedback_step sample2) c1 ops)" by (simp add: blocked_def)
  ultimately show ?thesis using broadcast_after [OF assms(1) _ assms(6-8)] by blast
qed

theorem episodes_are_refractory_apart_witness:
  "\<exists>r ep c1. first_result = (Inr (Some (r, [ep])), c1) \<and> charged ep = Some ''vision'' \<and>
     (\<forall>ops sn' r' eps' c2. on_broadcast sample_first 9 sn' (run (feedback_step sample_first) c1 ops) =
        (Inr (Some (r', eps')), c2) \<longrightarrow> (\<forall>ep' \<in> set eps'. charged ep' \<noteq> Some ''vision''))"
proof -
  obtain r ep c1 where f: "first_result = (Inr (Some (r, [ep])), c1)" "charged ep = Some ''vision''"
    using first_episode by blast
  have ok: "controller_ok full_settings (start_controller full_settings)"
    by (simp add: controller_ok_def gains_bounded_def settings_ok_def start_controller_def full_settings_def)
  have "charged ep' \<noteq> Some ''vision''"
    if "on_broadcast sample_first 9 sn' (run (feedback_step sample_first) c1 ops) = (Inr (Some (r', eps')), c2)"
      and "ep' \<in> set eps'" for ops sn' r' eps' c2 ep'
    using episodes_are_refractory_apart [OF sample_first_ok ok f(1) [unfolded first_result_def] _ f(2) that]
    by (auto simp: full_settings_def)
  with f show ?thesis by blast
qed

text \<open>
  A disabled section is checked as an enabled one and refused for the same reasons, and settings
  come only from a section with known keys whose values are finite and within their
  constraints, for an arm that is not off.
\<close>

theorem feedback_section_validated:
  assumes "dget d ''enabled'' (PBool False) = PBool False"
  shows "let r = feedback_from_section (PDict (dset d ''enabled'' (PBool True)))
    in feedback_from_section (PDict d) = (case r of Inl e \<Rightarrow> Inl e | Inr _ \<Rightarrow> Inr None) \<and>
      (\<forall>s. r = Inr (Some s) \<longrightarrow> fst ` set d \<subseteq> set ALLOWED_KEYS \<and> settings_ok s \<and>
        fs_arm s \<in> {''head_only'', ''head_gain'', ''full'', ''matched_random''})"
proof -
  let ?d = "dset d ''enabled'' (PBool True)"
  have e: "''enabled'' \<in> set ALLOWED_KEYS" by (simp add: ALLOWED_KEYS_def)
  have k: "list_all (\<lambda>(k, _). k \<in> set ALLOWED_KEYS) xs \<longleftrightarrow> fst ` set xs \<subseteq> set ALLOWED_KEYS" for xs :: pydict
    by (auto simp: list_all_iff)
  have kd: "list_all (\<lambda>(k, _). k \<in> set ALLOWED_KEYS) ?d \<longleftrightarrow> fst ` set d \<subseteq> set ALLOWED_KEYS"
    unfolding k using keys_dset [of d "''enabled''" "PBool True"] e by simp
  have "feedback_from_section (PDict d) = hide_settings (feedback_from_section (PDict ?d))"
    using assms k [of d] kd by (simp add: feedback_from_section_def Let_def cong: if_cong)
  moreover have "fst ` set d \<subseteq> set ALLOWED_KEYS" if "feedback_from_section (PDict ?d) = Inr (Some s)" for s
    using that kd by (auto simp: feedback_from_section_def split: if_split_asm)
  ultimately show ?thesis
    using from_section_ok [of "PDict ?d"] by (auto simp: Let_def hide_settings_def FEEDBACK_ARMS_def)
qed

theorem feedback_section_validated_witness:
  "feedback_from_section (PDict [(''enabled'', PBool False), (''pi_min'', PInt 2)]) = Inl ValueError \<and>
   feedback_from_section (PDict [(''pi_max'', PInt 2)]) = Inr None"
proof -
  have "feedback_from_section (PDict [(''enabled'', PBool True), (''pi_min'', PInt 2)]) = Inl ValueError"
    and "\<exists>s. feedback_from_section (PDict [(''pi_max'', PInt 2), (''enabled'', PBool True)]) = Inr (Some s)"
    by (simp_all add: feedback_from_section_def ALLOWED_KEYS_def FEEDBACK_ARMS_def arm_name_def setting_float_def
        py_strip_def is_space_def lower_char_def)
  then show ?thesis
    using feedback_section_validated [of "[(''enabled'', PBool False), (''pi_min'', PInt 2)]"]
      feedback_section_validated [of "[(''pi_max'', PInt 2)]"] by (auto simp: Let_def)
qed

text \<open>
  Restoring a preserved state keeps the bounds and may lose the balance: a state that names one
  gain only, or whose other gains lie outside bounds that were narrowed since, leaves a
  mean other than one, from which only the relaxation returns.
\<close>

theorem restored_gains_can_unbalance:
  assumes "settings_ok s" and "fs_pi_max s = 1 + d" and "0 < d"
  shows "let c = fst (load_controller [(''gains'', PDict [(''vision'', PFloat (Fin (1 + d)))])] (start_controller s))
    in controller_ok s c \<and> gain_sum c = 3 + d"
proof -
  let ?st = "[(''gains'', PDict [(''vision'', PFloat (Fin (1 + d)))])]"
  have "controller_ok s (start_controller s)"
    using assms(1) by (auto simp: controller_ok_def gains_bounded_def settings_ok_def start_controller_def)
  then have "controller_ok s (fst (load_controller ?st (start_controller s)))"
    using load_controller_ok by blast
  moreover have "gain_sum (fst (load_controller ?st (start_controller s))) = 3 + d"
    using assms by (simp add: load_controller_def PROCESSORS_def load_gain_def start_controller_def
        gain_sum_unfold settings_ok_def)
  ultimately show ?thesis by (simp add: Let_def)
qed

theorem restored_gains_can_unbalance_witness:
  "gain_sum (fst (load_controller [(''gains'', PDict [(''vision'', PFloat (Fin (1 + 1 / 4)))])]
     (start_controller full_settings :: unit controller))) = 3 + 1 / 4"
proof -
  have "settings_ok full_settings" "fs_pi_max full_settings = 1 + 1 / 4"
    by (simp_all add: settings_ok_def full_settings_def)
  from restored_gains_can_unbalance [OF this, where 'a = unit] show ?thesis by (simp add: Let_def)
qed

end
