(* ===== verification/Workspace.thy ===== *)
theory Workspace
  imports Feedback "HOL-Library.AList" "HOL-Library.Multiset"
begin

text \<open>
  Models \<open>kaine/workspace/core.py\<close>: the constructor and setters of the workspace, the selection of
  the coalition of a tick on its three arms, the paired selection with the coherence layer forced
  off, and the comparison of the two. The salience strategy is an argument with a state of
  its own (\<open>score\<close>, which may raise), and so are the two draws of the random generators and the
  readings of the clock (\<open>env\<close>). Scores are reals.
\<close>

section \<open>State\<close>

definition ARMS :: "string list" where
  "ARMS = [''competitive'', ''matched'', ''pooled'']"

record ('s, 'r) workspace =
  ws_strategy :: 's
  ws_top_k :: nat
  ws_threshold :: real
  ws_coherence :: "coherence_scorer option"
  ws_arm :: string
  ws_rng :: "'r option"
  ws_bias :: "regulation_bias option"
  ws_feedback :: "'r controller option"

definition workspace_init ::
  "'s \<Rightarrow> int \<Rightarrow> real \<Rightarrow> coherence_scorer option \<Rightarrow> string \<Rightarrow> 'r option \<Rightarrow> regulation_bias option \<Rightarrow>
   'r controller option \<Rightarrow> py_exc + ('s, 'r) workspace" where
  "workspace_init strategy top_k threshold coherence arm arm_seed bias feedback =
     (if top_k \<le> 0 then Inl ValueError
      else if \<not> (0 \<le> threshold \<and> threshold \<le> 1) then Inl ValueError
      else if arm \<notin> set ARMS then Inl ValueError
      else if arm \<noteq> ''competitive'' \<and> coherence \<noteq> None then Inl ValueError
      else if arm = ''matched'' \<and> arm_seed = None then Inl ValueError
      else if feedback \<noteq> None \<and> arm \<noteq> ''competitive'' then Inl ValueError
      else if feedback \<noteq> None \<and> coherence \<noteq> None then Inl ValueError
      else Inr \<lparr>ws_strategy = strategy, ws_top_k = nat top_k, ws_threshold = threshold,
                ws_coherence = coherence, ws_arm = arm,
                ws_rng = (if arm = ''matched'' then arm_seed else None), ws_bias = bias,
                ws_feedback = feedback\<rparr>)"

definition set_top_k :: "int \<Rightarrow> ('s, 'r) workspace \<Rightarrow> py_exc + ('s, 'r) workspace" where
  "set_top_k k w = (if k \<le> 0 then Inl ValueError else Inr (w\<lparr>ws_top_k := nat k\<rparr>))"

definition set_publication_threshold :: "real \<Rightarrow> ('s, 'r) workspace \<Rightarrow> py_exc + ('s, 'r) workspace" where
  "set_publication_threshold t w =
     (if \<not> (0 \<le> t \<and> t \<le> 1) then Inl ValueError else Inr (w\<lparr>ws_threshold := t\<rparr>))"

text \<open>What a selection reads of its context.\<close>

record tick_context =
  cx_tick :: int
  cx_experiential :: "bool option"
  cx_phases :: "(string \<times> pyfloat option) list option"

text \<open>The arguments that stand for code outside: the strategy, the draws and the clock readings.\<close>

record ('s, 'r) outside =
  out_score :: "'s \<Rightarrow> event \<Rightarrow> (py_exc + real) \<times> 's"
  out_sample :: "'r option \<Rightarrow> nat \<Rightarrow> nat \<Rightarrow> nat list \<times> 'r option"
  out_sample2 :: "'r option \<Rightarrow> string list \<Rightarrow> (string \<times> string) \<times> 'r option"
  out_now :: real
  out_now2 :: real
  out_feedback_now :: real

type_synonym candidates = "(string \<times> event) list"
type_synonym scored = "(real \<times> string \<times> event) list"
type_synonym scores = "(string \<times> real) list"

section \<open>Scoring\<close>

fun unique_ids :: "string set \<Rightarrow> candidates \<Rightarrow> bool" where
  "unique_ids seen [] = True"
| "unique_ids seen ((i, _) # es) = (i \<notin> seen \<and> unique_ids (insert i seen) es)"

text \<open>A strategy that raises scores zero; the scores table is filled in the same order.\<close>

fun score_all ::
  "('s \<Rightarrow> event \<Rightarrow> (py_exc + real) \<times> 's) \<Rightarrow> candidates \<Rightarrow> 's \<Rightarrow> scores \<Rightarrow> scored \<times> scores \<times> 's" where
  "score_all f [] s tab = ([], tab, s)"
| "score_all f ((i, e) # es) s tab =
     (let (r, s1) = f s e;
          v = (case r of Inl _ \<Rightarrow> 0 | Inr x \<Rightarrow> x);
          (xs, tab', s2) = score_all f es s1 (AList.update i v tab)
      in ((v, i, e) # xs, tab', s2))"

text \<open>Every candidate's value multiplied, in the list and in the table.\<close>

fun scale_all :: "(event \<Rightarrow> real option) \<Rightarrow> scored \<Rightarrow> scores \<Rightarrow> scored \<times> scores" where
  "scale_all f [] tab = ([], tab)"
| "scale_all f ((v, i, e) # xs) tab =
     (case f e of
        None \<Rightarrow> let (ys, tab') = scale_all f xs tab in ((v, i, e) # ys, tab')
      | Some g \<Rightarrow> let (ys, tab') = scale_all f xs (AList.update i (v * g) tab) in ((v * g, i, e) # ys, tab'))"

definition sources_of :: "scored \<Rightarrow> string list" where
  "sources_of xs = sorted_list_of_set ((\<lambda>(_, _, e). ev_source e) ` set xs)"

text \<open>The bias applied to the held source, with the clock's reading.\<close>

definition apply_regulation_bias ::
  "regulation_bias option \<Rightarrow> real \<Rightarrow> scored \<Rightarrow> scores \<Rightarrow> pydict \<Rightarrow> scored \<times> scores \<times> pydict" where
  "apply_regulation_bias bias now xs tab meta =
     (case bias of
        None \<Rightarrow> (xs, tab, meta)
      | Some rb \<Rightarrow>
          (case describe_bias rb now of
             None \<Rightarrow> (xs, tab, meta)
           | Some (source, g) \<Rightarrow>
               let (ys, tab') = scale_all (\<lambda>e. if ev_source e \<noteq> source then None else Some g) xs tab
               in (ys, tab', dset meta ''regulation_bias''
                    (PDict [(''source'', PStr source), (''factor'', PFloat (Fin g))]))))"

section \<open>Composition\<close>

text \<open>\<open>sorted(key=score, reverse=True)\<close> is stable: equal scores keep their order.\<close>

definition ranked :: "scored \<Rightarrow> scored" where
  "ranked xs = sort_key (\<lambda>(v, _, _). - v) xs"

definition snapshot_of ::
  "('s, 'r) workspace \<Rightarrow> int \<Rightarrow> scored \<Rightarrow> bool \<Rightarrow> scores \<Rightarrow> pydict \<Rightarrow> snapshot" where
  "snapshot_of w tick chosen inhibited tab meta =
     \<lparr>sn_tick = tick, sn_selected = map (\<lambda>(_, i, e). (i, e)) chosen, sn_inhibited = inhibited,
      sn_experiential = False, sn_scores = tab,
      sn_metadata = dset (dset (dset meta ''access_threshold'' (PFloat (Fin (ws_threshold w))))
         ''arm'' (PStr (ws_arm w))) ''coalition_capacity'' (PInt (int (ws_top_k w))),
      sn_published_at = None\<rparr>"

definition compose ::
  "('s, 'r) outside \<Rightarrow> ('s, 'r) workspace \<Rightarrow> int \<Rightarrow> scored \<Rightarrow> scores \<Rightarrow> pydict \<Rightarrow> bool \<Rightarrow>
   snapshot \<times> ('s, 'r) workspace" where
  "compose env w tick xs tab meta draw =
     (if ws_arm w = ''matched'' \<and> draw
      then let (picks, rng) = out_sample env (ws_rng w) (length xs) (min (ws_top_k w) (length xs));
               chosen = ranked (map ((!) xs) (sort picks));
               inhibited = \<not> list_ex (\<lambda>(v, _, _). v \<ge> ws_threshold w) chosen
           in (snapshot_of w tick chosen inhibited tab meta, w\<lparr>ws_rng := rng\<rparr>)
      else let chosen = take (ws_top_k w) (ranked xs);
               top_score = (case chosen of [] \<Rightarrow> 0 | (v, _) # _ \<Rightarrow> v)
           in (snapshot_of w tick chosen (top_score < ws_threshold w) tab meta, w))"

definition empty_snapshot :: "('s, 'r) workspace \<Rightarrow> int \<Rightarrow> snapshot" where
  "empty_snapshot w tick =
     \<lparr>sn_tick = tick, sn_selected = [], sn_inhibited = True, sn_experiential = False, sn_scores = [],
      sn_metadata = [(''arm'', PStr (ws_arm w)), (''coalition_capacity'', PInt (int (ws_top_k w)))],
      sn_published_at = None\<rparr>"

definition pooled :: "('s, 'r) workspace \<Rightarrow> int \<Rightarrow> candidates \<Rightarrow> snapshot" where
  "pooled w tick es =
     \<lparr>sn_tick = tick, sn_selected = es, sn_inhibited = False, sn_experiential = False,
      sn_scores = map (\<lambda>(i, e). (i, ev_salience e)) es, sn_metadata = [(''arm'', PStr (ws_arm w))],
      sn_published_at = None\<rparr>"

section \<open>Selection\<close>

definition observe_context :: "tick_context \<Rightarrow> coherence_scorer \<Rightarrow> coherence_scorer" where
  "observe_context cx c = (case cx_phases cx of None \<Rightarrow> c | Some ps \<Rightarrow> observe_phases ps c)"

definition observe_ws :: "tick_context \<Rightarrow> ('s, 'r) workspace \<Rightarrow> ('s, 'r) workspace" where
  "observe_ws cx w = w\<lparr>ws_coherence := map_option (observe_context cx) (ws_coherence w)\<rparr>"

definition coherence_layer ::
  "coherence_scorer option \<Rightarrow> scored \<Rightarrow> scores \<Rightarrow> scored \<times> scores \<times> pydict" where
  "coherence_layer oc xs tab =
     (case oc of
        None \<Rightarrow> (xs, tab, [])
      | Some c \<Rightarrow>
          let cohort = sources_of xs;
              (ys, tab') = scale_all (\<lambda>e. Some (factor_for_source c (ev_source e) cohort)) xs tab
          in (ys, tab', [(''coherence'', PFloat (Fin (plv c cohort)))]))"

definition experiential :: "tick_context \<Rightarrow> bool" where
  "experiential cx \<longleftrightarrow> cx_experiential cx = Some True"

text \<open>The feedback of a broadcast; a raise leaves what the controller already changed.\<close>

definition attach_feedback ::
  "('s, 'r) outside \<Rightarrow> tick_context \<Rightarrow> snapshot \<Rightarrow> ('s, 'r) workspace \<Rightarrow>
   (py_exc + snapshot) \<times> ('s, 'r) workspace" where
  "attach_feedback env cx sn w =
     (case ws_feedback w of
        None \<Rightarrow> (Inr sn, w)
      | Some c \<Rightarrow>
          if \<not> experiential cx then (Inr sn, w)
          else (case on_broadcast (out_sample2 env) (out_feedback_now env) sn c of
                  (r, c') \<Rightarrow>
                    (case r of
                       Inl e \<Rightarrow> (Inl e, w\<lparr>ws_feedback := Some c'\<rparr>)
                     | Inr None \<Rightarrow> (Inr sn, w\<lparr>ws_feedback := Some c'\<rparr>)
                     | Inr (Some (fb, _)) \<Rightarrow>
                         (Inr (sn\<lparr>sn_metadata := dset (sn_metadata sn) FEEDBACK_KEY fb\<rparr>),
                          w\<lparr>ws_feedback := Some c'\<rparr>))))"

definition select_scored ::
  "('s, 'r) outside \<Rightarrow> tick_context \<Rightarrow> candidates \<Rightarrow> ('s, 'r) workspace \<Rightarrow> snapshot \<times> ('s, 'r) workspace" where
  "select_scored env cx es w =
     (let (xs, tab, s) = score_all (out_score env) es (ws_strategy w) [];
          w1 = observe_ws cx (w\<lparr>ws_strategy := s\<rparr>);
          (xs1, tab1, meta1) = coherence_layer (ws_coherence w1) xs tab;
          (xs2, tab2, meta2) = apply_regulation_bias (ws_bias w1) (out_now env) xs1 tab1 meta1
      in compose env w1 (cx_tick cx) xs2 tab2 meta2 (experiential cx))"

definition select ::
  "('s, 'r) outside \<Rightarrow> tick_context \<Rightarrow> candidates \<Rightarrow> ('s, 'r) workspace \<Rightarrow>
   (py_exc + snapshot) \<times> ('s, 'r) workspace" where
  "select env cx es w =
     (if \<not> unique_ids {} es then (Inl ValueError, w)
      else if ws_arm w = ''pooled'' then (Inr (pooled w (cx_tick cx) es), w)
      else if ws_arm w = ''matched'' \<and> cx_experiential cx = None then (Inl ValueError, w)
      else
        (case (case ws_feedback w of
                 None \<Rightarrow> (w, None)
               | Some c \<Rightarrow> (case observe_candidates es c of (c', x) \<Rightarrow> (w\<lparr>ws_feedback := Some c'\<rparr>, x))) of
           (w1, Some x) \<Rightarrow> (Inl x, w1)
         | (w1, None) \<Rightarrow>
             if es = [] then (Inr (empty_snapshot w1 (cx_tick cx)), observe_ws cx w1)
             else (case select_scored env cx es w1 of (sn, w2) \<Rightarrow> attach_feedback env cx sn w2)))"

definition select_dual ::
  "('s, 'r) outside \<Rightarrow> tick_context \<Rightarrow> candidates \<Rightarrow> ('s, 'r) workspace \<Rightarrow>
   (py_exc + snapshot \<times> snapshot option) \<times> ('s, 'r) workspace" where
  "select_dual env cx es w =
     (case ws_coherence w of
        None \<Rightarrow>
          (case select env cx es w of
             (Inl e, w1) \<Rightarrow> (Inl e, w1)
           | (Inr sn, w1) \<Rightarrow> (Inr (sn, None), w1))
      | Some _ \<Rightarrow>
          if \<not> unique_ids {} es then (Inl ValueError, w)
          else if es = []
          then (Inr (empty_snapshot w (cx_tick cx), Some (empty_snapshot w (cx_tick cx))), observe_ws cx w)
          else
            (let (xs, tab, s) = score_all (out_score env) es (ws_strategy w) [];
                 w1 = observe_ws cx (w\<lparr>ws_strategy := s\<rparr>);
                 (on1, tabon1, meta1) = coherence_layer (ws_coherence w1) xs tab;
                 (on2, tabon2, meta2) = apply_regulation_bias (ws_bias w1) (out_now env) on1 tabon1 meta1;
                 (off2, taboff2, metaoff) = apply_regulation_bias (ws_bias w1) (out_now2 env) xs tab [];
                 (primary, w2) = compose env w1 (cx_tick cx) on2 tabon2 meta2 False;
                 (counterfactual, w3) = compose env w2 (cx_tick cx) off2 taboff2 metaoff False
             in (Inr (primary, Some counterfactual), w3)))"

section \<open>Comparing two selections\<close>

record selection_delta =
  sd_divergence :: real
  sd_ranking :: real
  sd_inhibited_on :: bool
  sd_inhibited_off :: bool
  sd_flip :: bool
  sd_top_on :: real
  sd_top_off :: real
  sd_top_delta :: real
  sd_candidates :: nat

text \<open>\<open>{id: i for i, id in enumerate(ids)}\<close>: the last position of an id.\<close>

fun rank_of :: "nat \<Rightarrow> string list \<Rightarrow> string \<Rightarrow> nat option" where
  "rank_of n [] x = None"
| "rank_of n (y # ys) x = (case rank_of (Suc n) ys x of Some i \<Rightarrow> Some i | None \<Rightarrow> if y = x then Some n else None)"

definition rank_shift :: "string list \<Rightarrow> string list \<Rightarrow> string \<Rightarrow> real" where
  "rank_shift on off x =
     (case (rank_of 0 on x, rank_of 0 off x) of
        (Some i, Some j) \<Rightarrow> \<bar>real i - real j\<bar>
      | _ \<Rightarrow> 0)"

definition top_score :: "scores \<Rightarrow> real" where
  "top_score tab = (case map snd tab of [] \<Rightarrow> 0 | v # vs \<Rightarrow> foldl max v vs)"

definition selection_delta :: "snapshot \<Rightarrow> snapshot \<Rightarrow> selection_delta" where
  "selection_delta on off =
     (let on_ids = map fst (sn_selected on); off_ids = map fst (sn_selected off);
          union = set on_ids \<union> set off_ids; shared = set on_ids \<inter> set off_ids;
          k = max (max (length on_ids) (length off_ids)) 1;
          on_top = top_score (sn_scores on); off_top = top_score (sn_scores off)
      in \<lparr>sd_divergence = (if union = {} then 0 else real (card union - card shared) / real (card union)),
          sd_ranking = (if shared = {} then 0
             else (\<Sum>x\<in>shared. rank_shift on_ids off_ids x) / real (card shared * k)),
          sd_inhibited_on = sn_inhibited on, sd_inhibited_off = sn_inhibited off,
          sd_flip = (sn_inhibited on \<noteq> sn_inhibited off),
          sd_top_on = on_top, sd_top_off = off_top, sd_top_delta = on_top - off_top,
          sd_candidates = length (sn_scores on)\<rparr>)"

section \<open>The score table follows the scored list\<close>

definition table_of :: "scored \<Rightarrow> scores" where
  "table_of xs = map (\<lambda>(v, i, _). (i, v)) xs"

definition ids :: "scored \<Rightarrow> string list" where
  "ids xs = map (\<lambda>(_, i, _). i) xs"

lemma table_simps [simp]: "table_of [] = []" "table_of ((v, i, e) # xs) = (i, v) # table_of xs"
  "ids [] = []" "ids ((v, i, e) # xs) = i # ids xs" "map fst (table_of xs) = ids xs"
  by (auto simp: table_of_def ids_def split_def)

lemma update_new: "i \<notin> fst ` set tab \<Longrightarrow> AList.update i v tab = tab @ [(i, v)]"
  by (induction tab) auto

lemma update_middle: "i \<notin> fst ` set pre \<Longrightarrow> AList.update i v (pre @ (i, w) # post) = pre @ (i, v) # post"
  by (induction pre) auto

lemma unique_ids_iff: "unique_ids seen es \<longleftrightarrow> distinct (map fst es) \<and> fst ` set es \<inter> seen = {}"
  by (induction seen es rule: unique_ids.induct) auto

text \<open>The values the strategy gives, a raise counting as zero.\<close>

fun strategy_scores :: "('s \<Rightarrow> event \<Rightarrow> (py_exc + real) \<times> 's) \<Rightarrow> candidates \<Rightarrow> 's \<Rightarrow> real list \<times> 's" where
  "strategy_scores f [] s = ([], s)"
| "strategy_scores f ((i, e) # es) s =
     (let (r, s1) = f s e; (vs, s2) = strategy_scores f es s1
      in ((case r of Inl _ \<Rightarrow> 0 | Inr x \<Rightarrow> x) # vs, s2))"

lemma length_strategy_scores [simp]: "length (fst (strategy_scores f es s)) = length es"
  by (induction f es s rule: strategy_scores.induct) (auto simp: Let_def split: prod.split)

lemma score_all_eq:
  "distinct (map fst es) \<Longrightarrow> fst ` set es \<inter> fst ` set tab = {} \<Longrightarrow>
   score_all f es s tab =
     (zip (fst (strategy_scores f es s)) es, tab @ table_of (zip (fst (strategy_scores f es s)) es),
      snd (strategy_scores f es s))"
proof (induction f es s tab rule: score_all.induct)
  case (2 f i e es s tab)
  obtain r s1 where r: "f s e = (r, s1)" by fastforce
  obtain vs s2 where vs: "strategy_scores f es s1 = (vs, s2)" by fastforce
  let ?v = "case r of Inl _ \<Rightarrow> 0 | Inr x \<Rightarrow> x"
  have u: "AList.update i ?v tab = tab @ [(i, ?v)]" using "2.prems" by (intro update_new) auto
  have "fst ` set es \<inter> fst ` set (tab @ [(i, ?v)]) = {}" using "2.prems" by auto
  with "2.IH" [OF r [symmetric] refl refl] "2.prems" show ?case by (simp add: r vs u Let_def)
qed simp

definition scale1 :: "(event \<Rightarrow> real option) \<Rightarrow> real \<times> string \<times> event \<Rightarrow> real \<times> string \<times> event" where
  "scale1 f x = (case x of (v, i, e) \<Rightarrow> (case f e of None \<Rightarrow> v | Some g \<Rightarrow> v * g, i, e))"

lemma scale_all_pre:
  "distinct (map fst pre @ ids xs) \<Longrightarrow>
   scale_all f xs (pre @ table_of xs) = (map (scale1 f) xs, pre @ table_of (map (scale1 f) xs))"
proof (induction xs arbitrary: pre)
  case (Cons x xs)
  obtain v i e where x: "x = (v, i, e)" by (cases x)
  define v' where "v' = (case f e of None \<Rightarrow> v | Some g \<Rightarrow> v * g)"
  have i: "i \<notin> fst ` set pre" using Cons.prems x by auto
  have d: "distinct (map fst (pre @ [(i, v')]) @ ids xs)" using Cons.prems x by simp
  from Cons.IH [OF d] i show ?case
    by (auto simp: x scale1_def v'_def update_middle split: option.splits)
qed simp

lemma scale_all_eq [simp]:
  "distinct (ids xs) \<Longrightarrow> scale_all f xs (table_of xs) = (map (scale1 f) xs, table_of (map (scale1 f) xs))"
  using scale_all_pre [of "[]" xs f] by simp

lemma ids_scale1 [simp]: "ids (map (scale1 f) xs) = ids xs"
  by (auto simp: ids_def scale1_def)

lemma ids_zip [simp]: "length vs = length es \<Longrightarrow> ids (zip vs es) = map fst es"
  by (induction vs es rule: list_induct2) (auto simp: ids_def)

section \<open>The adjusted scores in closed form\<close>

definition coherence_gain_of :: "coherence_scorer option \<Rightarrow> string list \<Rightarrow> event \<Rightarrow> real" where
  "coherence_gain_of oc cohort e = (case oc of None \<Rightarrow> 1 | Some c \<Rightarrow> factor_for_source c (ev_source e) cohort)"

definition bias_gain_of :: "regulation_bias option \<Rightarrow> real \<Rightarrow> event \<Rightarrow> real" where
  "bias_gain_of ob now e = (case ob of None \<Rightarrow> 1 | Some rb \<Rightarrow>
     (case describe_bias rb now of None \<Rightarrow> 1 | Some (s, g) \<Rightarrow> if ev_source e = s then g else 1))"

definition gain1 :: "(event \<Rightarrow> real) \<Rightarrow> real \<times> string \<times> event \<Rightarrow> real \<times> string \<times> event" where
  "gain1 g x = (case x of (v, i, e) \<Rightarrow> (v * g e, i, e))"

lemma scale1_gain: "map (scale1 f) xs = map (gain1 (\<lambda>e. case f e of None \<Rightarrow> 1 | Some g \<Rightarrow> g)) xs"
  by (auto simp: scale1_def gain1_def split: option.split)

lemma gain1_one [simp]: "map (gain1 (\<lambda>_. 1)) xs = xs"
  by (simp add: gain1_def map_idI split: prod.split)

lemma ids_gain1 [simp]: "ids (map (gain1 g) xs) = ids xs"
  by (auto simp: ids_def gain1_def)

lemma sources_gain1 [simp]: "sources_of (map (gain1 g) xs) = sources_of xs"
  by (simp add: sources_of_def image_image gain1_def split_def)

lemma coherence_gain_simps [simp]:
  "coherence_gain_of None cohort = (\<lambda>_. 1)"
  "coherence_gain_of (Some c) cohort = (\<lambda>e. factor_for_source c (ev_source e) cohort)"
  by (simp_all add: coherence_gain_of_def fun_eq_iff)

lemma bias_gain_simps [simp]:
  "bias_gain_of None now = (\<lambda>_. 1)"
  "describe_bias rb now = None \<Longrightarrow> bias_gain_of (Some rb) now = (\<lambda>_. 1)"
  "describe_bias rb now = Some (s, g) \<Longrightarrow> bias_gain_of (Some rb) now = (\<lambda>e. if ev_source e = s then g else 1)"
  by (simp_all add: bias_gain_of_def fun_eq_iff)

definition coherence_meta :: "coherence_scorer option \<Rightarrow> string list \<Rightarrow> pydict" where
  "coherence_meta oc cohort = (case oc of None \<Rightarrow> [] | Some c \<Rightarrow> [(''coherence'', PFloat (Fin (plv c cohort)))])"

definition bias_meta :: "regulation_bias option \<Rightarrow> real \<Rightarrow> pydict \<Rightarrow> pydict" where
  "bias_meta ob now meta = (case ob of None \<Rightarrow> meta | Some rb \<Rightarrow>
     (case describe_bias rb now of None \<Rightarrow> meta
      | Some (s, g) \<Rightarrow> dset meta ''regulation_bias'' (PDict [(''source'', PStr s), (''factor'', PFloat (Fin g))])))"

lemma coherence_layer_eq:
  assumes "distinct (ids xs)"
  shows "coherence_layer oc xs (table_of xs) =
    (map (gain1 (coherence_gain_of oc (sources_of xs))) xs,
     table_of (map (gain1 (coherence_gain_of oc (sources_of xs))) xs), coherence_meta oc (sources_of xs))"
  using assms by (cases oc) (simp_all add: coherence_layer_def coherence_meta_def scale1_gain Let_def)

lemma if_option: "(case if \<not> b then None else Some g of None \<Rightarrow> 1 | Some g \<Rightarrow> g) = (if b then (g :: real) else 1)"
  by simp

lemma regulation_bias_eq:
  assumes "distinct (ids xs)"
  shows "apply_regulation_bias ob now xs (table_of xs) meta =
    (map (gain1 (bias_gain_of ob now)) xs, table_of (map (gain1 (bias_gain_of ob now)) xs), bias_meta ob now meta)"
proof (cases ob)
  case None
  then show ?thesis by (simp add: apply_regulation_bias_def bias_meta_def)
next
  case (Some rb)
  show ?thesis
  proof (cases "describe_bias rb now")
    case None
    with Some show ?thesis by (simp add: apply_regulation_bias_def bias_meta_def)
  next
    case (Some sg)
    obtain s g where "sg = (s, g)" by fastforce
    then show ?thesis using \<open>ob = Some rb\<close> Some assms
      by (simp add: apply_regulation_bias_def bias_meta_def scale1_gain if_option Let_def)
  qed
qed

section \<open>Rank in a stable sort\<close>

text \<open>Position \<open>q\<close> comes before \<open>p\<close>: a smaller key, or the same key earlier.\<close>

definition comes_before :: "('a \<Rightarrow> real) \<Rightarrow> 'a list \<Rightarrow> nat \<Rightarrow> nat \<Rightarrow> bool" where
  "comes_before g xs q p \<longleftrightarrow> g (xs ! q) < g (xs ! p) \<or> g (xs ! q) = g (xs ! p) \<and> q < p"

definition order_of :: "('a \<Rightarrow> real) \<Rightarrow> 'a list \<Rightarrow> nat list" where
  "order_of g xs = sort_key (\<lambda>i. (g (xs ! i), i)) [0..<length xs]"

lemma order_of_props [simp]: "set (order_of g xs) = {0..<length xs}" "distinct (order_of g xs)"
    "length (order_of g xs) = length xs" "mset (order_of g xs) = mset [0..<length xs]"
  by (simp_all add: order_of_def)

lemma order_of_sorted: "sorted (map (\<lambda>i. (g (xs ! i), i)) (order_of g xs))"
  unfolding order_of_def by (rule sorted_sort_key)

lemma sort_by_order: "sort_key g xs = map ((!) xs) (order_of g xs)"
proof (rule properties_for_sort_key)
  have "mset (map ((!) xs) (order_of g xs)) = mset (map ((!) xs) [0..<length xs])"
    by (simp only: mset_map order_of_props)
  then show "mset (map ((!) xs) (order_of g xs)) = mset xs" by (simp only: map_nth)
next
  have "sorted_wrt (\<lambda>i j. (g (xs ! i), i) \<le> (g (xs ! j), j)) (order_of g xs)"
    using order_of_sorted [of g xs] by (simp add: sorted_wrt_map)
  then have "sorted_wrt (\<lambda>i j. g (xs ! i) \<le> g (xs ! j)) (order_of g xs)"
    by (rule sorted_wrt_mono_rel [rotated]) (auto simp: less_eq_prod_def)
  then show "sorted (map g (map ((!) xs) (order_of g xs)))" by (simp add: sorted_wrt_map o_def)
next
  fix k
  let ?P = "\<lambda>i. g k = g (xs ! i)"
  have "sorted (filter ?P (order_of g xs))"
  proof -
    have "sorted (map (\<lambda>i. (g (xs ! i), i)) (filter ?P (order_of g xs)))"
      using order_of_sorted [of g xs] by (rule sorted_filter)
    moreover have "map (\<lambda>i. (g (xs ! i), i)) (filter ?P (order_of g xs)) = map (Pair (g k)) (filter ?P (order_of g xs))"
      by simp
    ultimately show ?thesis by (simp add: sorted_wrt_map less_eq_prod_def)
  qed
  then have "filter ?P (order_of g xs) = filter ?P [0..<length xs]"
    by (intro sorted_distinct_set_unique) (auto intro: sorted_filter [of id, simplified])
  then have "map ((!) xs) (filter ?P (order_of g xs)) = map ((!) xs) (filter ?P [0..<length xs])" by simp
  then show "filter (\<lambda>x. g k = g x) (map ((!) xs) (order_of g xs)) = filter (\<lambda>x. g k = g x) xs"
    by (subst (2) map_nth [of xs, symmetric]) (simp add: filter_map o_def)
qed

lemma strict_position:
  fixes h :: "'b \<Rightarrow> 'c :: linorder"
  assumes "sorted (map h ys)" and "distinct ys" and "inj_on h (set ys)" and "j < length ys"
  shows "{i \<in> set ys. h i < h (ys ! j)} = set (take j ys)"
proof -
  have lt: "h (ys ! a) < h (ys ! b) \<longleftrightarrow> a < b" if "a < length ys" "b < length ys" for a b
  proof
    assume "a < b"
    then have "h (ys ! a) \<le> h (ys ! b)" using assms(1) that by (auto simp: sorted_iff_nth_mono)
    moreover have "h (ys ! a) \<noteq> h (ys ! b)"
      using assms(2,3) that \<open>a < b\<close> by (metis inj_onD nth_eq_iff_index_eq nth_mem less_irrefl)
    ultimately show "h (ys ! a) < h (ys ! b)" by simp
  next
    assume l: "h (ys ! a) < h (ys ! b)"
    show "a < b"
    proof (rule ccontr)
      assume "\<not> a < b"
      then have "h (ys ! b) \<le> h (ys ! a)" using assms(1) that by (auto simp: sorted_iff_nth_mono)
      with l show False by simp
    qed
  qed
  have t: "set (take j ys) = (!) ys ` {0..<j}" using nth_image [of j ys] assms(4) by simp
  show ?thesis
  proof (intro set_eqI iffI)
    fix i assume "i \<in> {i \<in> set ys. h i < h (ys ! j)}"
    then obtain a where "a < length ys" "i = ys ! a" "h (ys ! a) < h (ys ! j)" by (auto simp: in_set_conv_nth)
    then show "i \<in> set (take j ys)" using lt [of a j] assms(4) by (auto simp: t)
  next
    fix i assume "i \<in> set (take j ys)"
    then obtain a where "a < j" "i = ys ! a" by (auto simp: t)
    then show "i \<in> {i \<in> set ys. h i < h (ys ! j)}" using lt [of a j] assms(4) by auto
  qed
qed

lemma stable_rank:
  assumes "distinct xs" and "p < length xs"
  shows "xs ! p \<in> set (take k (sort_key g xs)) \<longleftrightarrow> card {q. q < length xs \<and> comes_before g xs q p} < k"
proof -
  let ?ys = "order_of g xs" and ?h = "\<lambda>i. (g (xs ! i), i)"
  obtain j where j: "j < length xs" "?ys ! j = p"
    using assms(2) order_of_props(1) [of g xs] by (metis atLeastLessThan_iff in_set_conv_nth le0 order_of_props(3))
  have "{q. q < length xs \<and> comes_before g xs q p} = {i \<in> set ?ys. ?h i < ?h (?ys ! j)}"
    by (auto simp: comes_before_def j(2) less_prod_def)
  also have "\<dots> = set (take j ?ys)"
    using order_of_sorted [of g xs] j by (intro strict_position) (auto simp: inj_on_def)
  finally have c: "card {q. q < length xs \<and> comes_before g xs q p} = j"
    using j by (simp add: distinct_card)
  have "xs ! p \<in> set (take k (sort_key g xs)) \<longleftrightarrow> p \<in> set (take k ?ys)"
  proof -
    have "i \<in> set (take k ?ys) \<Longrightarrow> i < length xs" for i
      using in_set_takeD [of i k ?ys] order_of_props(1) [of g xs] by auto
    then show ?thesis using assms nth_eq_iff_index_eq [OF assms(1)]
      by (auto simp: sort_by_order take_map)
  qed
  also have "\<dots> \<longleftrightarrow> j < k"
  proof
    assume "p \<in> set (take k ?ys)"
    then obtain a where "a < k" "a < length xs" "?ys ! a = p" by (auto simp: in_set_conv_nth)
    then show "j < k" using j nth_eq_iff_index_eq [of ?ys a j] by simp
  next
    assume "j < k"
    then show "p \<in> set (take k ?ys)" using j by (auto simp: in_set_conv_nth)
  qed
  finally show ?thesis using c by simp
qed

section \<open>What a selection computes\<close>

definition adjusted ::
  "coherence_scorer option \<Rightarrow> regulation_bias option \<Rightarrow> real \<Rightarrow> scored \<Rightarrow> scored" where
  "adjusted oc ob now xs =
     map (gain1 (bias_gain_of ob now)) (map (gain1 (coherence_gain_of oc (sources_of xs))) xs)"

definition adjusted_meta ::
  "coherence_scorer option \<Rightarrow> regulation_bias option \<Rightarrow> real \<Rightarrow> scored \<Rightarrow> pydict" where
  "adjusted_meta oc ob now xs = bias_meta ob now (coherence_meta oc (sources_of xs))"

lemma layers_eq:
  assumes "distinct (ids xs)"
  shows "(case coherence_layer oc xs (table_of xs) of (xs1, tab1, meta1) \<Rightarrow>
      apply_regulation_bias ob now xs1 tab1 meta1) =
    (adjusted oc ob now xs, table_of (adjusted oc ob now xs), adjusted_meta oc ob now xs)"
  using assms by (simp add: coherence_layer_eq regulation_bias_eq adjusted_def adjusted_meta_def)

lemma ids_adjusted [simp]: "ids (adjusted oc ob now xs) = ids xs" "length (adjusted oc ob now xs) = length xs"
  by (simp_all add: adjusted_def del: map_map)

lemma events_adjusted [simp]: "map snd (adjusted oc ob now xs) = map snd xs"
  by (auto simp: adjusted_def gain1_def)

definition raw_scored :: "('s, 'r) outside \<Rightarrow> candidates \<Rightarrow> 's \<Rightarrow> scored" where
  "raw_scored env es s = zip (fst (strategy_scores (out_score env) es s)) es"

lemma raw_scored_simps [simp]: "length (raw_scored env es s) = length es" "ids (raw_scored env es s) = map fst es"
    "map snd (raw_scored env es s) = es"
  by (simp_all add: raw_scored_def)

definition after_scoring :: "('s, 'r) outside \<Rightarrow> tick_context \<Rightarrow> candidates \<Rightarrow> ('s, 'r) workspace \<Rightarrow> ('s, 'r) workspace" where
  "after_scoring env cx es w = observe_ws cx (w\<lparr>ws_strategy := snd (strategy_scores (out_score env) es (ws_strategy w))\<rparr>)"

lemma after_scoring_simps [simp]:
  "ws_coherence (after_scoring env cx es w) = map_option (observe_context cx) (ws_coherence w)"
  "ws_bias (after_scoring env cx es w) = ws_bias w" "ws_arm (after_scoring env cx es w) = ws_arm w"
  "ws_top_k (after_scoring env cx es w) = ws_top_k w" "ws_threshold (after_scoring env cx es w) = ws_threshold w"
  "ws_feedback (after_scoring env cx es w) = ws_feedback w" "ws_rng (after_scoring env cx es w) = ws_rng w"
  by (simp_all add: after_scoring_def observe_ws_def)

lemma select_scored_eq:
  assumes "unique_ids {} es"
  shows "select_scored env cx es w =
    (let xs = raw_scored env es (ws_strategy w); oc = map_option (observe_context cx) (ws_coherence w);
         zs = adjusted oc (ws_bias w) (out_now env) xs
     in compose env (after_scoring env cx es w) (cx_tick cx) zs (table_of zs)
          (adjusted_meta oc (ws_bias w) (out_now env) xs) (experiential cx))"
proof -
  have d: "distinct (map fst es)" using assms by (simp add: unique_ids_iff)
  have s: "score_all (out_score env) es (ws_strategy w) [] =
      (raw_scored env es (ws_strategy w), table_of (raw_scored env es (ws_strategy w)),
       snd (strategy_scores (out_score env) es (ws_strategy w)))"
    using score_all_eq [OF d, of "[]" "out_score env" "ws_strategy w"] by (simp add: raw_scored_def)
  let ?xs = "raw_scored env es (ws_strategy w)" and ?oc = "map_option (observe_context cx) (ws_coherence w)"
  have "distinct (ids ?xs)" using d by simp
  from layers_eq [OF this, where oc = ?oc and ob = "ws_bias w" and now = "out_now env"] show ?thesis
    by (simp add: select_scored_def s after_scoring_def [symmetric] Let_def split: prod.splits)
qed

lemma attach_feedback_fields:
  "attach_feedback env cx sn w = (Inr sn', w') \<Longrightarrow>
   sn_selected sn' = sn_selected sn \<and> sn_scores sn' = sn_scores sn \<and> sn_inhibited sn' = sn_inhibited sn \<and>
   sn_tick sn' = sn_tick sn"
  by (auto simp: attach_feedback_def split: option.splits if_splits prod.splits sum.splits)

section \<open>The top of the ranking\<close>

text \<open>
  The abstract specification of a selection: the score table lists the candidates in their order,
  the coalition has \<open>k\<close> members if there are as many candidates, a candidate is a member
  exactly when fewer than \<open>k\<close> outrank it (a higher score, or the same score earlier), members come
  by falling score, and the broadcast is inhibited exactly when every score is below the threshold.
\<close>

definition outranks :: "scores \<Rightarrow> nat \<Rightarrow> nat \<Rightarrow> bool" where
  "outranks tab q p \<longleftrightarrow> snd (tab ! q) > snd (tab ! p) \<or> snd (tab ! q) = snd (tab ! p) \<and> q < p"

definition selects_top :: "nat \<Rightarrow> real \<Rightarrow> candidates \<Rightarrow> snapshot \<Rightarrow> bool" where
  "selects_top k t es sn \<longleftrightarrow>
     map fst (sn_scores sn) = map fst es \<and> length (sn_selected sn) = min k (length es) \<and>
     (\<forall>p < length es. es ! p \<in> set (sn_selected sn) \<longleftrightarrow>
        card {q. q < length es \<and> outranks (sn_scores sn) q p} < k) \<and>
     sorted (map (\<lambda>x. - the (map_of (sn_scores sn) (fst x))) (sn_selected sn)) \<and>
     (sn_inhibited sn \<longleftrightarrow> (\<forall>p < length es. snd (sn_scores sn ! p) < t))"

definition neg_score :: "real \<times> string \<times> event \<Rightarrow> real" where
  "neg_score x = - fst x"

lemma ranked_alt: "ranked xs = sort_key neg_score xs"
proof -
  have "neg_score = (\<lambda>(v, _, _). - v)" by (simp add: neg_score_def split_def fun_eq_iff)
  then show ?thesis by (simp add: ranked_def)
qed

lemma table_nth [simp]: "p < length xs \<Longrightarrow> table_of xs ! p = (fst (snd (xs ! p)), fst (xs ! p))"
  by (simp add: table_of_def split_def)

lemma length_table [simp]: "length (table_of xs) = length xs"
  by (simp add: table_of_def)

lemma length_ranked [simp]: "length (ranked xs) = length xs" "set (ranked xs) = set xs"
  by (simp_all add: ranked_alt)

lemma sorted_ranked: "sorted (map neg_score (ranked xs))"
  by (simp add: ranked_alt)

lemma distinct_of_ids:
  assumes "distinct (ids xs)"
  shows "distinct xs" "inj_on snd (set xs)"
proof -
  have d: "distinct xs" "inj_on (\<lambda>(_, i, _). i) (set xs)"
    using assms unfolding ids_def by (simp_all only: distinct_map)
  then show "distinct xs" by blast
  show "inj_on snd (set xs)"
  proof (rule inj_onI)
    fix x y assume "x \<in> set xs" "y \<in> set xs" "snd x = snd y"
    then show "x = y" using inj_onD [OF d(2), of x y] by (simp add: split_def)
  qed
qed

lemma map_of_table:
  assumes "distinct (ids xs)" and "x \<in> set xs"
  shows "map_of (table_of xs) (fst (snd x)) = Some (fst x)"
  using assms by (intro map_of_is_SomeI) (auto simp: table_of_def split_def image_iff ids_def o_def intro: bexI)

lemma top_inhibited:
  assumes "0 < k" and "xs \<noteq> []"
  shows "(case take k (ranked xs) of [] \<Rightarrow> 0 | (v, _) # _ \<Rightarrow> v) < t \<longleftrightarrow> (\<forall>p < length xs. fst (xs ! p) < t)"
proof -
  obtain y ys where y: "ranked xs = y # ys" using assms(2) length_ranked(1) [of xs] by (cases "ranked xs") auto
  have "\<forall>x \<in> set xs. fst x \<le> fst y"
    using sorted_ranked [of xs] length_ranked(2) [of xs] by (auto simp: y neg_score_def)
  moreover have "y \<in> set xs" using length_ranked(2) [of xs] y by auto
  ultimately have "fst y < t \<longleftrightarrow> (\<forall>x \<in> set xs. fst x < t)" by force
  then show ?thesis using assms(1) y by (cases k) (auto simp: all_set_conv_all_nth split: prod.split)
qed

lemma compose_selects_top:
  assumes "distinct (ids zs)" and "0 < ws_top_k w" and "zs \<noteq> []" and "\<not> (ws_arm w = ''matched'' \<and> draw)"
    and "compose env w tick zs (table_of zs) meta draw = (sn, w')"
  shows "selects_top (ws_top_k w) (ws_threshold w) (map snd zs) sn"
proof -
  let ?c = "take (ws_top_k w) (ranked zs)"
  have sn: "sn_selected sn = map snd ?c" "sn_scores sn = table_of zs"
    "sn_inhibited sn = ((case ?c of [] \<Rightarrow> 0 | (v, _) # _ \<Rightarrow> v) < ws_threshold w)"
    using assms(4,5) by (auto simp: compose_def snapshot_of_def Let_def split_def)
  note d = distinct_of_ids [OF assms(1)]
  have sub: "set ?c \<subseteq> set zs" using set_take_subset [of "ws_top_k w" "ranked zs"] by simp
  have mem: "map snd zs ! p \<in> set (map snd ?c) \<longleftrightarrow> zs ! p \<in> set ?c" if "p < length zs" for p
    using that d(2) sub by (auto simp: inj_on_def subset_eq) (metis nth_mem prod.collapse snd_conv)+
  have "zs ! p \<in> set ?c \<longleftrightarrow> card {q. q < length zs \<and> outranks (table_of zs) q p} < ws_top_k w" if "p < length zs" for p
  proof -
    have "{q. q < length zs \<and> comes_before neg_score zs q p} = {q. q < length zs \<and> outranks (table_of zs) q p}"
      using that by (auto simp: comes_before_def outranks_def neg_score_def)
    then show ?thesis using stable_rank [OF d(1) that, of "ws_top_k w" neg_score] by (simp add: ranked_alt)
  qed
  moreover have "sorted (map (\<lambda>x. - the (map_of (table_of zs) (fst x))) (map snd ?c))"
  proof -
    have "map (\<lambda>x. - the (map_of (table_of zs) (fst x))) (map snd ?c) = map neg_score ?c"
      using sub map_of_table [OF assms(1)] by (auto simp: neg_score_def)
    moreover have "sorted (map neg_score ?c)"
      using sorted_ranked [of zs] by (simp add: take_map [symmetric] sorted_wrt_take)
    ultimately show ?thesis by (simp only:)
  qed
  moreover have "map fst (table_of zs) = map fst (map snd zs)" by (simp add: ids_def split_def)
  ultimately show ?thesis
    unfolding selects_top_def using top_inhibited [OF assms(2,3)] mem by (simp add: sn min.commute)
qed

text \<open>What the feedback controller sees first; everything else of the workspace stays.\<close>

definition note_candidates :: "candidates \<Rightarrow> ('s, 'r) workspace \<Rightarrow> ('s, 'r) workspace \<times> py_exc option" where
  "note_candidates es w =
     (case ws_feedback w of
        None \<Rightarrow> (w, None)
      | Some c \<Rightarrow> (case observe_candidates es c of (c', x) \<Rightarrow> (w\<lparr>ws_feedback := Some c'\<rparr>, x)))"

lemma note_candidates_fields:
  "note_candidates es w = (w1, x) \<Longrightarrow>
   ws_strategy w1 = ws_strategy w \<and> ws_top_k w1 = ws_top_k w \<and> ws_threshold w1 = ws_threshold w \<and>
   ws_coherence w1 = ws_coherence w \<and> ws_arm w1 = ws_arm w \<and> ws_rng w1 = ws_rng w \<and> ws_bias w1 = ws_bias w"
  by (auto simp: note_candidates_def split: option.splits prod.splits)

lemma select_cases:
  assumes "select env cx es w = (Inr sn, w')" and "ws_arm w \<noteq> ''pooled''"
  obtains (empty) w1 where "es = []" "note_candidates es w = (w1, None)"
      "sn = empty_snapshot w1 (cx_tick cx)" "w' = observe_ws cx w1"
  | (scored) w1 sn0 w2 where "es \<noteq> []" "unique_ids {} es" "note_candidates es w = (w1, None)"
      "select_scored env cx es w1 = (sn0, w2)" "attach_feedback env cx sn0 w2 = (Inr sn, w')"
proof -
  obtain w1 x where n: "note_candidates es w = (w1, x)" by fastforce
  from assms have u: "unique_ids {} es" and m: "\<not> (ws_arm w = ''matched'' \<and> cx_experiential cx = None)"
    by (auto simp: select_def split: if_splits)
  then have s: "select env cx es w =
      (case (w1, x) of (w1, Some x) \<Rightarrow> (Inl x, w1)
       | (w1, None) \<Rightarrow> if es = [] then (Inr (empty_snapshot w1 (cx_tick cx)), observe_ws cx w1)
           else (case select_scored env cx es w1 of (sn, w2) \<Rightarrow> attach_feedback env cx sn w2))"
    using assms(2) unfolding select_def note_candidates_def [symmetric] n by auto
  with assms(1) have x: "x = None" by (cases x) auto
  show ?thesis
  proof (cases "es = []")
    case True
    with s x assms(1) n show ?thesis by (intro empty [of w1]) auto
  next
    case False
    obtain sn0 w2 where c: "select_scored env cx es w1 = (sn0, w2)" by fastforce
    with s x assms(1) False have "attach_feedback env cx sn0 w2 = (Inr sn, w')" by simp
    with False u n x c show ?thesis by (intro scored [of w1 sn0 w2]) auto
  qed
qed

section \<open>Properties\<close>

text \<open>
  C29. On the competitive arm, with or without coherence, regulation bias and feedback, a selection
  meets its specification: the coalition is the top of the ranking by the published scores with
  ties in order of arrival, and the broadcast is inhibited exactly when no candidate reaches
  the threshold.
\<close>

theorem competitive_selection_is_top_k:
  assumes "select env cx es w = (Inr sn, w')" and "ws_arm w = ''competitive''" and "0 < ws_top_k w"
  shows "selects_top (ws_top_k w) (ws_threshold w) es sn"
proof -
  have "ws_arm w \<noteq> ''pooled''" using assms(2) by simp
  with assms(1) show ?thesis
  proof (cases rule: select_cases)
    case (empty w1)
    then show ?thesis by (simp add: selects_top_def empty_snapshot_def)
  next
    case (scored w1 sn0 w2)
    note f = note_candidates_fields [OF scored(3)]
    define zs where "zs = adjusted (map_option (observe_context cx) (ws_coherence w1)) (ws_bias w1) (out_now env)
        (raw_scored env es (ws_strategy w1))"
    obtain meta where c: "compose env (after_scoring env cx es w1) (cx_tick cx) zs (table_of zs) meta
        (experiential cx) = (sn0, w2)"
      using scored(4) by (auto simp: select_scored_eq [OF scored(2)] zs_def Let_def)
    have ids: "ids zs = map fst es" and ev: "map snd zs = es" by (simp_all add: zs_def)
    have "distinct (ids zs)" "zs \<noteq> []"
      using scored(1,2) ids ev by (auto simp: unique_ids_iff)
    from compose_selects_top [OF this(1) _ this(2) _ c] f assms(2,3) ev
    have "selects_top (ws_top_k w) (ws_threshold w) es sn0" by simp
    with attach_feedback_fields [OF scored(5)] show ?thesis by (simp add: selects_top_def)
  qed
qed

text \<open>A small world: the strategy gives an event its salience, the draws are the first ones.\<close>

definition sample_outside :: "real \<Rightarrow> (unit, unit) outside" where
  "sample_outside now2 = \<lparr>out_score = (\<lambda>s e. (Inr (ev_salience e), s)), out_sample = (\<lambda>r n k. ([0..<k], r)),
     out_sample2 = sample_first, out_now = 0, out_now2 = now2, out_feedback_now = 0\<rparr>"

definition sample_tick :: tick_context where
  "sample_tick = \<lparr>cx_tick = 1, cx_experiential = Some True, cx_phases = None\<rparr>"

definition sample_event :: "string \<Rightarrow> real \<Rightarrow> event" where
  "sample_event s v = \<lparr>ev_source = s, ev_type = ''t'', ev_payload = [], ev_salience = v, ev_timestamp = 0, ev_parent = None\<rparr>"

definition sample_candidates :: candidates where
  "sample_candidates = [(''a:1-0'', sample_event ''vision'' (1 / 4)), (''b:1-0'', sample_event ''touch'' (3 / 4)),
     (''a:2-0'', sample_event ''vision'' (3 / 4))]"

definition sample_workspace :: "coherence_scorer option \<Rightarrow> string \<Rightarrow> regulation_bias option \<Rightarrow> (unit, unit) workspace" where
  "sample_workspace oc arm ob = \<lparr>ws_strategy = (), ws_top_k = 1, ws_threshold = 1 / 2, ws_coherence = oc,
     ws_arm = arm, ws_rng = Some (), ws_bias = ob, ws_feedback = None\<rparr>"

theorem competitive_selection_is_top_k_witness:
  "\<exists>sn w'. select (sample_outside 0) sample_tick sample_candidates (sample_workspace None ''competitive'' None) = (Inr sn, w') \<and>
     selects_top 1 (1 / 2) sample_candidates sn \<and> map fst (sn_selected sn) = [''b:1-0'']"
proof -
  obtain sn w' where s: "select (sample_outside 0) sample_tick sample_candidates
      (sample_workspace None ''competitive'' None) = (Inr sn, w')" "map fst (sn_selected sn) = [''b:1-0'']"
    by (simp add: select_def sample_outside_def sample_tick_def sample_candidates_def sample_workspace_def
        sample_event_def select_scored_def observe_ws_def coherence_layer_def apply_regulation_bias_def
        compose_def attach_feedback_def snapshot_of_def ranked_def Let_def)
  from competitive_selection_is_top_k [OF s(1)] s show ?thesis by (simp add: sample_workspace_def)
qed

lemma compose_no_draw:
  "ws_arm w \<noteq> ''matched'' \<or> \<not> draw \<Longrightarrow> compose env w tick xs tab meta draw =
     (let chosen = take (ws_top_k w) (ranked xs)
      in (snapshot_of w tick chosen ((case chosen of [] \<Rightarrow> 0 | (v, _) # _ \<Rightarrow> v) < ws_threshold w) tab meta, w))"
  by (auto simp: compose_def Let_def)

lemma snapshot_of_cong:
  "ws_top_k w = ws_top_k w' \<Longrightarrow> ws_threshold w = ws_threshold w' \<Longrightarrow> ws_arm w = ws_arm w' \<Longrightarrow>
   snapshot_of w = snapshot_of w'"
  by (simp add: snapshot_of_def fun_eq_iff)

text \<open>Without feedback, on the competitive arm, the whole selection is one composition.\<close>

lemma plain_select_eq:
  assumes "ws_arm w = ''competitive''" and "ws_feedback w = None" and "unique_ids {} es" and "es \<noteq> []"
  shows "select env cx es w =
    (let xs = raw_scored env es (ws_strategy w); oc = map_option (observe_context cx) (ws_coherence w);
         zs = adjusted oc (ws_bias w) (out_now env) xs; chosen = take (ws_top_k w) (ranked zs)
     in (Inr (snapshot_of w (cx_tick cx) chosen ((case chosen of [] \<Rightarrow> 0 | (v, _) # _ \<Rightarrow> v) < ws_threshold w)
           (table_of zs) (adjusted_meta oc (ws_bias w) (out_now env) xs)), after_scoring env cx es w))"
  using assms snapshot_of_cong [of "after_scoring env cx es w" w]
  by (simp add: select_def select_scored_eq compose_no_draw attach_feedback_def Let_def)

lemma dual_select_eq:
  assumes "ws_coherence w = Some c" and "ws_arm w = ''competitive''" and "unique_ids {} es" and "es \<noteq> []"
  shows "select_dual env cx es w =
    (let xs = raw_scored env es (ws_strategy w); oc = Some (observe_context cx c);
         on = adjusted oc (ws_bias w) (out_now env) xs; off = adjusted None (ws_bias w) (out_now2 env) xs;
         snap = (\<lambda>zs meta. let chosen = take (ws_top_k w) (ranked zs)
            in snapshot_of w (cx_tick cx) chosen ((case chosen of [] \<Rightarrow> 0 | (v, _) # _ \<Rightarrow> v) < ws_threshold w) (table_of zs) meta)
     in (Inr (snap on (adjusted_meta oc (ws_bias w) (out_now env) xs),
              Some (snap off (adjusted_meta None (ws_bias w) (out_now2 env) xs))), after_scoring env cx es w))"
proof -
  let ?xs = "raw_scored env es (ws_strategy w)"
  have d: "distinct (map fst es)" "distinct (ids ?xs)" using assms(3) by (simp_all add: unique_ids_iff)
  have s: "score_all (out_score env) es (ws_strategy w) [] =
      (?xs, table_of ?xs, snd (strategy_scores (out_score env) es (ws_strategy w)))"
    using score_all_eq [OF d(1), of "[]" "out_score env" "ws_strategy w"] by (simp add: raw_scored_def)
  show ?thesis
    using assms d snapshot_of_cong [of "after_scoring env cx es w" w]
      layers_eq [OF d(2), where oc = "Some (observe_context cx c)" and ob = "ws_bias w" and now = "out_now env"]
      layers_eq [OF d(2), where oc = None and ob = "ws_bias w" and now = "out_now2 env"]
    by (simp add: select_dual_def s after_scoring_def [symmetric] compose_no_draw Let_def
        coherence_layer_def [of None] split: prod.splits)
qed

text \<open>
  C28. The paired selection is faithful: its primary and the state it leaves are those of the plain
  selection, and its counterfactual is what the same workspace without the coherence layer
  would select of the same candidates at the second reading of the clock; without the layer
  there is no counterfactual.
\<close>

theorem dual_selection_matches_select:
  assumes "ws_arm w = ''competitive''" and "ws_feedback w = None"
    and "select_dual env cx es w = (Inr (primary, counterfactual), w')"
  shows "select env cx es w = (Inr primary, w') \<and>
    (case counterfactual of
       None \<Rightarrow> ws_coherence w = None
     | Some off \<Rightarrow> fst (select (env\<lparr>out_now := out_now2 env\<rparr>) cx es (w\<lparr>ws_coherence := None\<rparr>)) = Inr off)"
proof (cases "ws_coherence w")
  case None
  with assms(3) show ?thesis by (auto simp: select_dual_def split: sum.splits prod.splits)
next
  case (Some c)
  with assms(3) have u: "unique_ids {} es" by (auto simp: select_dual_def split: if_splits)
  show ?thesis
  proof (cases "es = []")
    case True
    with Some assms show ?thesis by (auto simp: select_dual_def select_def empty_snapshot_def)
  next
    case False
    let ?e = "env\<lparr>out_now := out_now2 env\<rparr>" and ?w = "w\<lparr>ws_coherence := None\<rparr>"
    have "snapshot_of ?w = snapshot_of w" by (rule snapshot_of_cong) simp_all
    moreover have "raw_scored ?e es s = raw_scored env es s" for s by (simp add: raw_scored_def)
    ultimately have "fst (select ?e cx es ?w) = Inr (the counterfactual) \<and> counterfactual \<noteq> None"
      using assms(3) plain_select_eq [of ?w es ?e cx] dual_select_eq [OF Some assms(1) u False, of env cx] assms(1,2) u False
      by (auto simp: Let_def)
    moreover have "select env cx es w = (Inr primary, w')"
      using assms(3) plain_select_eq [OF assms(1,2) u False, of env cx] dual_select_eq [OF Some assms(1) u False, of env cx] Some
      by (auto simp: Let_def)
    ultimately show ?thesis by (auto split: option.split)
  qed
qed

definition neutral_scorer :: coherence_scorer where
  "neutral_scorer = \<lparr>co_window = 10, co_floor = 1, co_ceiling = 1, co_buffers = \<lambda>_. []\<rparr>"

theorem dual_selection_matches_select_witness:
  "\<exists>a b w'. select_dual (sample_outside 0) sample_tick sample_candidates
      (sample_workspace (Some neutral_scorer) ''competitive'' None) = (Inr (a, Some b), w') \<and>
     select (sample_outside 0) sample_tick sample_candidates
       (sample_workspace (Some neutral_scorer) ''competitive'' None) = (Inr a, w')"
proof -
  let ?w = "sample_workspace (Some neutral_scorer) ''competitive'' None"
  have "unique_ids {} sample_candidates" "sample_candidates \<noteq> []" by (simp_all add: sample_candidates_def)
  then obtain a b w' where d: "select_dual (sample_outside 0) sample_tick sample_candidates ?w = (Inr (a, Some b), w')"
    using dual_select_eq [of ?w neutral_scorer sample_candidates "sample_outside 0" sample_tick]
    by (auto simp: sample_workspace_def Let_def)
  have "ws_arm ?w = ''competitive''" "ws_feedback ?w = None" by (simp_all add: sample_workspace_def)
  from dual_selection_matches_select [OF this d] d show ?thesis by blast
qed

text \<open>
  A coherence layer whose multiplier is bounded to one is the layer switched off: it changes
  no score, no member of the coalition and no inhibition.
\<close>

theorem neutral_coherence_selects_alike:
  assumes "ws_arm w = ''competitive''" and "ws_feedback w = None" and "unique_ids {} es"
    and "coherence_ok c" and "co_floor c = 1" and "co_ceiling c = 1"
  shows "\<exists>on off. fst (select env cx es (w\<lparr>ws_coherence := Some c\<rparr>)) = Inr on \<and>
    fst (select env cx es (w\<lparr>ws_coherence := None\<rparr>)) = Inr off \<and>
    sn_selected on = sn_selected off \<and> sn_scores on = sn_scores off \<and> sn_inhibited on = sn_inhibited off"
proof (cases "es = []")
  case True
  with assms(1,2) show ?thesis by (simp add: select_def empty_snapshot_def)
next
  case False
  let ?c = "observe_context cx c"
  have "coherence_ok ?c" "co_floor ?c = 1" "co_ceiling ?c = 1"
    using assms(4-6) observe_phases_ok observe_phases_bounds by (auto simp: observe_context_def split: option.split)
  then have "factor_for_source ?c s cohort = 1" for s cohort by (rule coherence_gain.unit_gain)
  then have a: "adjusted (Some ?c) (ws_bias w) (out_now env) xs = adjusted None (ws_bias w) (out_now env) xs" for xs
    by (simp add: adjusted_def)
  show ?thesis
    using plain_select_eq [of "w\<lparr>ws_coherence := Some c\<rparr>" es env cx] plain_select_eq [of "w\<lparr>ws_coherence := None\<rparr>" es env cx]
      assms(1-3) False by (simp add: Let_def a snapshot_of_def)
qed

theorem neutral_coherence_selects_alike_witness:
  "\<exists>on off. fst (select (sample_outside 0) sample_tick sample_candidates
       (sample_workspace (Some neutral_scorer) ''competitive'' None)) = Inr on \<and>
     fst (select (sample_outside 0) sample_tick sample_candidates (sample_workspace None ''competitive'' None)) = Inr off \<and>
     sn_selected on = sn_selected off"
proof -
  have "ws_arm (sample_workspace None ''competitive'' None) = ''competitive''"
    "ws_feedback (sample_workspace None ''competitive'' None) = None"
    "unique_ids {} sample_candidates" "coherence_ok neutral_scorer" "co_floor neutral_scorer = 1" "co_ceiling neutral_scorer = 1"
    by (simp_all add: sample_workspace_def sample_candidates_def neutral_scorer_def coherence_ok_def)
  from neutral_coherence_selects_alike [OF this, of "sample_outside 0" sample_tick] show ?thesis
    by (auto simp: sample_workspace_def)
qed

text \<open>What \<open>random.sample(range(n), k)\<close> promises.\<close>

definition sample_ok :: "('r option \<Rightarrow> nat \<Rightarrow> nat \<Rightarrow> nat list \<times> 'r option) \<Rightarrow> bool" where
  "sample_ok f \<longleftrightarrow> (\<forall>r n k. k \<le> n \<longrightarrow>
     length (fst (f r n k)) = k \<and> distinct (fst (f r n k)) \<and> set (fst (f r n k)) \<subseteq> {0..<n})"

lemma first_sample_ok: "sample_ok (\<lambda>r n k. ([0..<k], r))"
  by (simp add: sample_ok_def)

text \<open>
  The matched arm draws its coalition blindly: on a broadcast tick the members are the candidates
  at the drawn positions, whatever their scores, as many as the competitive arm would take, by
  falling score, and the broadcast is inhibited exactly when no member reaches the threshold.
\<close>

theorem matched_draw_ignores_scores:
  assumes "select env cx es w = (Inr sn, w')" and "ws_arm w = ''matched''" and "cx_experiential cx = Some True"
    and "sample_ok (out_sample env)" and "ws_feedback w = None" and "es \<noteq> []"
  shows "let k = min (ws_top_k w) (length es); picks = fst (out_sample env (ws_rng w) (length es) k)
    in set (sn_selected sn) = (!) es ` set picks \<and> length (sn_selected sn) = k \<and> distinct (sn_selected sn) \<and>
      sorted (map (\<lambda>x. - the (map_of (sn_scores sn) (fst x))) (sn_selected sn)) \<and>
      (sn_inhibited sn \<longleftrightarrow> (\<forall>x \<in> set (sn_selected sn). the (map_of (sn_scores sn) (fst x)) < ws_threshold w))"
proof -
  have u: "unique_ids {} es" using assms(1) by (auto simp: select_def split: if_splits)
  let ?k = "min (ws_top_k w) (length es)"
  define oc where "oc = map_option (observe_context cx) (ws_coherence w)"
  define xs where "xs = raw_scored env es (ws_strategy w)"
  define zs where "zs = adjusted oc (ws_bias w) (out_now env) xs"
  obtain picks rng where p: "out_sample env (ws_rng w) (length es) ?k = (picks, rng)" by fastforce
  let ?c = "ranked (map ((!) zs) (sort picks))"
  have len: "length zs = length es" and ev: "map snd zs = es" and ids: "ids zs = map fst es"
    by (simp_all add: zs_def xs_def)
  have dz: "distinct (ids zs)" using u ids by (simp add: unique_ids_iff)
  have "select_scored env cx es w = (snapshot_of w (cx_tick cx) ?c (\<not> list_ex (\<lambda>(v, _, _). v \<ge> ws_threshold w) ?c)
      (table_of zs) (adjusted_meta oc (ws_bias w) (out_now env) xs), (after_scoring env cx es w)\<lparr>ws_rng := rng\<rparr>)"
    using assms(2,3) p len snapshot_of_cong [of "after_scoring env cx es w" w]
    by (simp add: select_scored_eq [OF u] compose_def experiential_def zs_def oc_def xs_def Let_def)
  then have "Inr sn = (Inr (snapshot_of w (cx_tick cx) ?c (\<not> list_ex (\<lambda>(v, _, _). v \<ge> ws_threshold w) ?c)
      (table_of zs) (adjusted_meta oc (ws_bias w) (out_now env) xs)) :: py_exc + snapshot)"
    using assms u by (simp add: select_def attach_feedback_def)
  then have sn: "sn_selected sn = map snd ?c" "sn_scores sn = table_of zs"
    "sn_inhibited sn = (\<not> list_ex (\<lambda>(v, _, _). v \<ge> ws_threshold w) ?c)"
    by (simp_all add: snapshot_of_def split_def)
  have s: "length picks = ?k" "distinct picks" "set picks \<subseteq> {0..<length es}"
    using assms(4) p unfolding sample_ok_def by (metis fst_conv min.cobounded2)+
  have sub: "set ?c \<subseteq> set zs" using s(3) len by auto
  have "set (map snd ?c) = (\<lambda>i. map snd zs ! i) ` set picks"
    using s(3) len by (auto simp: image_image subset_eq)
  then have "set (sn_selected sn) = (!) es ` set picks" by (simp add: sn ev)
  moreover have "length (sn_selected sn) = ?k" using s(1) by (simp add: sn)
  moreover have "distinct (sn_selected sn)"
  proof (rule card_distinct)
    have "inj_on ((!) es) (set picks)"
      using u s(3) by (intro inj_on_nth) (auto simp: unique_ids_iff dest: distinct_map [THEN iffD1])
    then show "card (set (sn_selected sn)) = length (sn_selected sn)"
      using calculation s(1,2) by (simp add: card_image distinct_card)
  qed
  moreover have t: "the (map_of (sn_scores sn) (fst (snd x))) = fst x" if "x \<in> set ?c" for x
    using map_of_table [OF dz subsetD [OF sub that]] by (simp add: sn)
  then have "map (\<lambda>x. - the (map_of (sn_scores sn) (fst x))) (map snd ?c) = map neg_score ?c"
    by (auto simp: neg_score_def simp del: length_ranked)
  then have "sorted (map (\<lambda>x. - the (map_of (sn_scores sn) (fst x))) (sn_selected sn))"
    using sorted_ranked by (simp only: sn)
  moreover have "sn_inhibited sn \<longleftrightarrow> (\<forall>x \<in> set (sn_selected sn). the (map_of (sn_scores sn) (fst x)) < ws_threshold w)"
    using t by (auto simp: sn(1,3) list_ex_iff split_def not_le simp del: length_ranked)
  ultimately show ?thesis using p by (simp add: Let_def)
qed

theorem matched_draw_ignores_scores_witness:
  "\<exists>sn w'. select (sample_outside 0) sample_tick sample_candidates (sample_workspace None ''matched'' None) = (Inr sn, w') \<and>
     set (sn_selected sn) = {sample_candidates ! 0} \<and> sn_inhibited sn"
proof -
  let ?e = "sample_outside 0" and ?w = "sample_workspace None ''matched'' None"
  obtain sn w' where s: "select ?e sample_tick sample_candidates ?w = (Inr sn, w')"
      "sn_scores sn = [(''a:1-0'', 1 / 4), (''b:1-0'', 3 / 4), (''a:2-0'', 3 / 4)]"
    by (simp add: select_def sample_outside_def sample_tick_def sample_candidates_def sample_workspace_def
        sample_event_def select_scored_def observe_ws_def coherence_layer_def apply_regulation_bias_def
        compose_def attach_feedback_def snapshot_of_def ranked_def Let_def experiential_def)
  have "ws_arm ?w = ''matched''" "cx_experiential sample_tick = Some True" "sample_ok (out_sample ?e)"
    "ws_feedback ?w = None" "sample_candidates \<noteq> []"
    by (simp_all add: sample_workspace_def sample_tick_def sample_outside_def first_sample_ok sample_candidates_def)
  from matched_draw_ignores_scores [OF s(1) this] s show ?thesis
    by (auto simp: Let_def sample_workspace_def sample_outside_def sample_candidates_def)
qed

text \<open>
  The pooled arm gates nothing: every candidate is a member in order of arrival, its score is its
  salience, the broadcast is never inhibited and carries no access threshold, and the
  workspace does not change.
\<close>

theorem pooled_arm_gates_nothing:
  assumes "ws_arm w = ''pooled''" and "unique_ids {} es"
  shows "\<exists>sn. select env cx es w = (Inr sn, w) \<and> sn_selected sn = es \<and> \<not> sn_inhibited sn \<and>
    access_threshold (sn_metadata sn) = None \<and> (\<forall>x \<in> set es. map_of (sn_scores sn) (fst x) = Some (ev_salience (snd x)))"
proof -
  have "distinct (map fst (sn_scores (pooled w (cx_tick cx) es)))"
    using assms(2) by (simp add: pooled_def unique_ids_iff split_def o_def)
  then have "map_of (sn_scores (pooled w (cx_tick cx) es)) (fst x) = Some (ev_salience (snd x))" if "x \<in> set es" for x
    using that by (intro map_of_is_SomeI) (auto simp: pooled_def image_iff split_def intro!: bexI [of _ x])
  with assms show ?thesis
    by (simp add: select_def) (simp add: pooled_def access_threshold_def)
qed

theorem pooled_arm_gates_nothing_witness:
  "\<exists>sn. select (sample_outside 0) sample_tick sample_candidates (sample_workspace None ''pooled'' None) =
     (Inr sn, sample_workspace None ''pooled'' None) \<and> sn_selected sn = sample_candidates"
proof -
  have "ws_arm (sample_workspace None ''pooled'' None) = ''pooled''" "unique_ids {} sample_candidates"
    by (simp_all add: sample_workspace_def sample_candidates_def)
  from pooled_arm_gates_nothing [OF this, of "sample_outside 0" sample_tick] show ?thesis by blast
qed

section \<open>The comparison\<close>

lemma rank_of_bounds: "rank_of n xs x = Some i \<Longrightarrow> n \<le> i \<and> i < n + length xs"
  by (induction n xs x arbitrary: i rule: rank_of.induct) (fastforce split: option.splits if_splits)+

lemma rank_shift_bounds: "0 \<le> rank_shift on off x \<and> rank_shift on off x \<le> real (max (length on) (length off))"
proof (cases "rank_of 0 on x"; cases "rank_of 0 off x")
  fix i j assume i: "rank_of 0 on x = Some i" and j: "rank_of 0 off x = Some j"
  have "i < length on" "j < length off" using rank_of_bounds [OF i] rank_of_bounds [OF j] by simp_all
  then have "\<bar>real i - real j\<bar> \<le> real (max (length on) (length off))" by simp
  with i j show ?thesis by (simp add: rank_shift_def)
qed (simp_all add: rank_shift_def)

lemma rank_shift_self [simp]: "rank_shift xs xs x = 0"
  by (simp add: rank_shift_def split: option.split)

text \<open>
  The comparison is a pair of measures in the unit interval, the divergence one exactly when
  two coalitions of some member are disjoint, and a selection does not diverge from itself.
\<close>

theorem selection_delta_measures:
  "let d = selection_delta on off; s = selection_delta on on
   in 0 \<le> sd_divergence d \<and> sd_divergence d \<le> 1 \<and> 0 \<le> sd_ranking d \<and> sd_ranking d \<le> 1 \<and>
      (sd_divergence d = 1 \<longleftrightarrow> (sn_selected on \<noteq> [] \<or> sn_selected off \<noteq> []) \<and>
         fst ` set (sn_selected on) \<inter> fst ` set (sn_selected off) = {}) \<and>
      sd_divergence s = 0 \<and> sd_ranking s = 0 \<and> \<not> sd_flip s \<and> sd_top_delta s = 0"
proof -
  let ?A = "fst ` set (sn_selected on)" and ?B = "fst ` set (sn_selected off)"
  let ?on = "map fst (sn_selected on)" and ?off = "map fst (sn_selected off)"
  let ?k = "max (max (length ?on) (length ?off)) 1"
  have le: "card (?A \<inter> ?B) \<le> card (?A \<union> ?B)" by (rule card_mono) auto
  have pos: "?A \<union> ?B \<noteq> {} \<Longrightarrow> 0 < card (?A \<union> ?B)" by (simp add: card_gt_0_iff)
  have sum: "(\<Sum>x\<in>?A \<inter> ?B. rank_shift ?on ?off x) \<le> real (card (?A \<inter> ?B) * ?k)"
  proof -
    have "real (max (length ?on) (length ?off)) \<le> real ?k" by simp
    then have "rank_shift ?on ?off x \<le> real ?k" for x
      using rank_shift_bounds [of ?on ?off x] by linarith
    then have "(\<Sum>x\<in>?A \<inter> ?B. rank_shift ?on ?off x) \<le> of_nat (card (?A \<inter> ?B)) * real ?k"
      by (intro sum_bounded_above) blast
    then show ?thesis by (simp only: of_nat_mult)
  qed
  have pos2: "?A \<inter> ?B \<noteq> {} \<Longrightarrow> 0 < real (card (?A \<inter> ?B) * ?k)" by (simp add: card_gt_0_iff)
  have r: "0 \<le> sd_ranking (selection_delta on off)" "sd_ranking (selection_delta on off) \<le> 1"
    using sum pos2 rank_shift_bounds
    by (auto simp: selection_delta_def Let_def divide_le_eq_1 sum_nonneg)
  have d: "sd_divergence (selection_delta on off) =
      (if ?A \<union> ?B = {} then 0 else (real (card (?A \<union> ?B)) - real (card (?A \<inter> ?B))) / real (card (?A \<union> ?B)))"
    using le by (simp add: selection_delta_def Let_def of_nat_diff)
  have "0 \<le> sd_divergence (selection_delta on off)" "sd_divergence (selection_delta on off) \<le> 1"
    unfolding d using le pos by (auto simp: divide_le_eq_1)
  moreover have "sd_divergence (selection_delta on off) = 1 \<longleftrightarrow>
      (sn_selected on \<noteq> [] \<or> sn_selected off \<noteq> []) \<and> ?A \<inter> ?B = {}"
    unfolding d using pos by (auto simp: card_eq_0_iff)
  ultimately show ?thesis using r by (simp add: Let_def) (simp add: selection_delta_def Let_def)
qed

text \<open>
  The paired selection reads the clock of the regulation bias twice: with a neutral coherence layer
  and an active bias that fades between the readings, its two score tables differ although
  the layer changes nothing.
\<close>

definition fading_bias :: regulation_bias where
  "fading_bias = \<lparr>rb_source = Some ''touch'', rb_bias = 1 / 2, rb_decay_s = 1, rb_t1 = 0\<rparr>"

theorem dual_reads_the_clock_twice:
  "\<exists>on off w'. select_dual (sample_outside 1) sample_tick sample_candidates
     (sample_workspace (Some neutral_scorer) ''competitive'' (Some fading_bias)) = (Inr (on, Some off), w') \<and>
     sn_scores on \<noteq> sn_scores off"
proof -
  let ?w = "sample_workspace (Some neutral_scorer) ''competitive'' (Some fading_bias)"
  have b: "describe_bias fading_bias 0 = Some (''touch'', 1 / 2)"
    "describe_bias fading_bias 1 = Some (''touch'', 1 - exp (- 1) / 2)"
    by (simp_all add: describe_bias_def fading_bias_def current_bias_def Let_def not_le)
  note g = bias_gain_simps(3) [OF b(1)] bias_gain_simps(3) [OF b(2)]
  have f: "factor_for_source neutral_scorer s cohort = 1" for s cohort
    by (rule coherence_gain.unit_gain) (simp_all add: neutral_scorer_def coherence_ok_def)
  have u: "unique_ids {} sample_candidates" "sample_candidates \<noteq> []" by (simp_all add: sample_candidates_def)
  have x: "exp (- 1 :: real) \<noteq> 1" by simp
  show ?thesis
    using dual_select_eq [of ?w neutral_scorer sample_candidates "sample_outside 1" sample_tick] u x
    by (simp add: sample_workspace_def sample_outside_def sample_tick_def Let_def observe_context_def snapshot_of_def
        adjusted_def f g raw_scored_def sample_candidates_def sample_event_def gain1_def)
qed

section \<open>The configuration of a workspace\<close>

text \<open>What the constructor checks.\<close>

definition workspace_ok :: "('s, 'r) workspace \<Rightarrow> bool" where
  "workspace_ok w \<longleftrightarrow> 0 < ws_top_k w \<and> 0 \<le> ws_threshold w \<and> ws_threshold w \<le> 1 \<and> ws_arm w \<in> set ARMS \<and>
     (ws_arm w \<noteq> ''competitive'' \<longrightarrow> ws_coherence w = None \<and> ws_feedback w = None) \<and>
     (ws_feedback w \<noteq> None \<longrightarrow> ws_coherence w = None)"

lemma if_Inr: "(if b then Inl e else r) = Inr w \<Longrightarrow> (\<not> b \<Longrightarrow> r = Inr w \<Longrightarrow> P) \<Longrightarrow> P"
  by (simp split: if_split_asm)

lemma workspace_init_ok: "workspace_init s k t oc arm seed ob fb = Inr w \<Longrightarrow> workspace_ok w"
  unfolding workspace_init_def by (elim if_Inr, drule Inr_inject, erule subst, unfold workspace_ok_def, simp) blast

definition same_config :: "('s, 'r) workspace \<Rightarrow> ('s, 'r) workspace \<Rightarrow> bool" where
  "same_config w w' \<longleftrightarrow> ws_top_k w' = ws_top_k w \<and> ws_threshold w' = ws_threshold w \<and> ws_arm w' = ws_arm w \<and>
     (ws_coherence w' = None \<longleftrightarrow> ws_coherence w = None) \<and> (ws_feedback w' = None \<longleftrightarrow> ws_feedback w = None) \<and>
     ws_bias w' = ws_bias w"

lemma same_config_simps [simp]: "same_config w w" "same_config w (observe_ws cx w') = same_config w w'"
    "same_config w (w'\<lparr>ws_strategy := s\<rparr>) = same_config w w'" "same_config w (w'\<lparr>ws_rng := r\<rparr>) = same_config w w'"
  by (auto simp: same_config_def observe_ws_def)

lemma same_config_trans: "same_config w w1 \<Longrightarrow> same_config w1 w2 \<Longrightarrow> same_config w w2"
  by (simp add: same_config_def)

lemma note_candidates_config: "note_candidates es w = (w1, x) \<Longrightarrow> same_config w w1"
  by (auto simp: note_candidates_def same_config_def split: option.splits prod.splits)

lemma compose_config: "compose env w tick xs tab meta draw = (sn, w') \<Longrightarrow> same_config w w'"
  by (auto simp: compose_def same_config_def Let_def split: if_splits prod.splits)

lemma select_scored_config: "select_scored env cx es w = (sn, w') \<Longrightarrow> same_config w w'"
  by (auto simp: select_scored_def Let_def split: prod.splits dest!: compose_config)
    (auto simp: same_config_def observe_ws_def)

lemma attach_config: "attach_feedback env cx sn w = (r, w') \<Longrightarrow> same_config w w'"
  by (auto simp: attach_feedback_def same_config_def split: option.splits if_splits prod.splits sum.splits)

lemma select_config: "same_config w (snd (select env cx es w))"
proof -
  obtain w1 x where n: "note_candidates es w = (w1, x)" by fastforce
  obtain sn w2 where s: "select_scored env cx es w1 = (sn, w2)" by fastforce
  obtain r w3 where a: "attach_feedback env cx sn w2 = (r, w3)" by fastforce
  note c = note_candidates_config [OF n] same_config_trans [OF note_candidates_config [OF n]]
    same_config_trans [OF select_scored_config [OF s] attach_config [OF a]]
  show ?thesis
    using c(1) c(2) [OF c(3)] unfolding select_def note_candidates_def [symmetric] n
    by (auto simp: s a split: option.split)
qed

datatype workspace_op = SetTopK int | SetThreshold real | Select tick_context candidates

fun workspace_step :: "('s, 'r) outside \<Rightarrow> ('s, 'r) workspace \<Rightarrow> workspace_op \<Rightarrow> ('s, 'r) workspace" where
  "workspace_step env w (SetTopK k) = (case set_top_k k w of Inl _ \<Rightarrow> w | Inr w' \<Rightarrow> w')"
| "workspace_step env w (SetThreshold t) = (case set_publication_threshold t w of Inl _ \<Rightarrow> w | Inr w' \<Rightarrow> w')"
| "workspace_step env w (Select cx es) = snd (select env cx es w)"

lemma ok_same_config: "workspace_ok w \<Longrightarrow> same_config w w' \<Longrightarrow> workspace_ok w'"
  by (auto simp: workspace_ok_def same_config_def)

interpretation workspace_life: machine "workspace_step env" "\<lambda>_. True" workspace_ok for env
proof
  fix w :: "('a, 'b) workspace" and x
  assume w: "workspace_ok w"
  show "workspace_ok (workspace_step env w x)"
  proof (cases x)
    case (SetTopK k)
    with w show ?thesis by (simp add: set_top_k_def workspace_ok_def)
  next
    case (SetThreshold t)
    with w show ?thesis by (simp add: set_publication_threshold_def workspace_ok_def)
  next
    case (Select cx es)
    with ok_same_config [OF w select_config] show ?thesis by simp
  qed
qed

text \<open>
  The configuration stays valid: whatever is selected and set on a constructed workspace, refused
  settings and raising selections included, the coalition size stays positive, the threshold in the
  unit interval, and the coherence layer and the feedback stay off together with each other and
  on every arm but the competitive one.
\<close>

theorem workspace_stays_configured:
  assumes "workspace_init s k t oc arm seed ob fb = Inr w"
  shows "let w' = run (workspace_step env) w ops in
    0 < ws_top_k w' \<and> 0 \<le> ws_threshold w' \<and> ws_threshold w' \<le> 1 \<and>
    (ws_arm w' \<noteq> ''competitive'' \<longrightarrow> ws_coherence w' = None \<and> ws_feedback w' = None) \<and>
    (ws_feedback w' \<noteq> None \<longrightarrow> ws_coherence w' = None)"
  using workspace_life.run_inv [OF workspace_init_ok [OF assms], of ops env]
  by (simp add: workspace_ok_def Let_def list_all_iff)

theorem workspace_stays_configured_witness:
  "\<exists>w. workspace_init () 2 (1 / 2) None ''competitive'' (None :: unit option) None None = Inr w \<and>
     0 < ws_top_k (run (workspace_step (sample_outside 0)) w [SetTopK 0, SetThreshold 2, Select sample_tick sample_candidates])"
proof -
  obtain w where w: "workspace_init () 2 (1 / 2) None ''competitive'' (None :: unit option) None None = Inr w"
    by (simp add: workspace_init_def ARMS_def)
  from workspace_stays_configured [OF w, of "sample_outside 0" "[SetTopK 0, SetThreshold 2, Select sample_tick sample_candidates]"]
  show ?thesis using w by (auto simp: Let_def)
qed

end
