(* ===== verification/CycleTiming.thy ===== *)
theory CycleTiming
  imports Clocks TimeScale AccessRate
begin

text \<open>
  Models the clockwork of \<open>kaine/cycle/engine.py\<close>: the two rates and every path that changes them
  (the setters, the control event, the interoceptive advisory, adaptive access), the promotion of a
  tick to an experiential one, pausing and the accounts of paused and unawake time, the logical clock,
  the pacing report and the automatic change of the time scale. Rates are floats, since a control event
  can carry any float; readings of the monotonic clock are arguments. The tick itself is in the theory
  \<open>CycleEngine\<close>.
\<close>

section \<open>Arithmetic of floats\<close>

text \<open>IEEE arithmetic without rounding; the divisors of the code are never zero.\<close>

fun fl_neg :: "pyfloat \<Rightarrow> pyfloat" where
  "fl_neg (Fin a) = Fin (- a)"
| "fl_neg PosInf = NegInf"
| "fl_neg NegInf = PosInf"
| "fl_neg NaN = NaN"

fun fl_add :: "pyfloat \<Rightarrow> pyfloat \<Rightarrow> pyfloat" where
  "fl_add (Fin a) (Fin b) = Fin (a + b)"
| "fl_add NaN _ = NaN"
| "fl_add _ NaN = NaN"
| "fl_add PosInf NegInf = NaN"
| "fl_add NegInf PosInf = NaN"
| "fl_add (Fin _) y = y"
| "fl_add x _ = x"

definition fl_signed_inf :: "bool \<Rightarrow> pyfloat" where
  "fl_signed_inf neg = (if neg then NegInf else PosInf)"

fun fl_mul :: "pyfloat \<Rightarrow> pyfloat \<Rightarrow> pyfloat" where
  "fl_mul (Fin a) (Fin b) = Fin (a * b)"
| "fl_mul NaN _ = NaN"
| "fl_mul _ NaN = NaN"
| "fl_mul (Fin a) y = (if a = 0 then NaN else fl_signed_inf ((a < 0) \<noteq> (y = NegInf)))"
| "fl_mul x (Fin b) = (if b = 0 then NaN else fl_signed_inf ((b < 0) \<noteq> (x = NegInf)))"
| "fl_mul x y = fl_signed_inf ((x = NegInf) \<noteq> (y = NegInf))"

fun fl_div :: "pyfloat \<Rightarrow> pyfloat \<Rightarrow> pyfloat" where
  "fl_div (Fin a) (Fin b) = Fin (a / b)"
| "fl_div NaN _ = NaN"
| "fl_div _ NaN = NaN"
| "fl_div (Fin _) _ = Fin 0"
| "fl_div x (Fin b) = fl_signed_inf ((b < 0) \<noteq> (x = NegInf))"
| "fl_div _ _ = NaN"

definition fl_le :: "pyfloat \<Rightarrow> pyfloat \<Rightarrow> bool" where
  "fl_le x y \<longleftrightarrow> fl_less x y \<or> (x = y \<and> x \<noteq> NaN)"

lemma fl_le_Fin [simp]: "fl_le (Fin a) (Fin b) \<longleftrightarrow> a \<le> b"
  by (auto simp: fl_le_def)

lemma fl_le_NaN [simp]: "\<not> fl_le NaN x" "\<not> fl_le x NaN"
  by (cases x; simp add: fl_le_def)+

text \<open>Python's two-argument \<open>max\<close> and \<open>min\<close>: the first argument stays unless the second beats it.\<close>

definition py_max :: "pyfloat \<Rightarrow> pyfloat \<Rightarrow> pyfloat" where
  "py_max x y = (if fl_less x y then y else x)"

definition py_min :: "pyfloat \<Rightarrow> pyfloat \<Rightarrow> pyfloat" where
  "py_min x y = (if fl_less y x then y else x)"

lemma py_max_Fin [simp]: "py_max (Fin a) (Fin b) = Fin (max a b)"
  and py_min_Fin [simp]: "py_min (Fin a) (Fin b) = Fin (min a b)"
  by (auto simp: py_max_def py_min_def)

section \<open>The state\<close>

definition MIN_PROCESSING_RATE_HZ :: real where "MIN_PROCESSING_RATE_HZ = 1 / 2"

definition MAX_PROCESSING_RATE_HZ :: real where "MAX_PROCESSING_RATE_HZ = 20"

definition REDUCE_RATE_FACTOR :: real where "REDUCE_RATE_FACTOR = 8 / 10"

definition PACING_WINDOW_TICKS :: nat where "PACING_WINDOW_TICKS = 32"

text \<open>
  \<open>cy_logical\<close> is the logical clock, in subjective microseconds since the epoch and with the tick it
  was last moved at; \<open>cy_prev\<close> the start and the budget of the tick before. \<open>cy_fired\<close> records the hooks.
\<close>

record cycle =
  cy_processing :: pyfloat
  cy_period :: pyfloat
  cy_experiential :: pyfloat
  cy_effective :: pyfloat
  cy_access :: "access_rate option"
  cy_drive :: real
  cy_acc :: pyfloat
  cy_clock :: entity_clock
  cy_scale_controller :: "controller option"
  cy_scale_changes :: nat
  cy_tick :: nat
  cy_logical :: "int \<times> nat option"
  cy_running :: bool
  cy_paused_total :: real
  cy_paused_at :: "real option"
  cy_unawake_total :: real
  cy_unawake_since :: "real option"
  cy_stopped :: bool
  cy_prev :: "(real \<times> pyfloat) option"
  cy_recent :: "(real \<times> pyfloat \<times> pyfloat) list"
  cy_overruns :: nat
  cy_maintenance :: bool
  cy_fired :: "string list"

definition not_positive :: "pyfloat \<Rightarrow> bool" where
  "not_positive hz \<longleftrightarrow> fl_le hz (Fin 0)"

lemma not_positive_Fin [simp]: "not_positive (Fin a) \<longleftrightarrow> a \<le> 0" "\<not> not_positive NaN"
  by (simp_all add: not_positive_def)

text \<open>In deterministic mode there is no automatic change of scale.\<close>

definition cycle_init ::
  "pyfloat \<Rightarrow> pyfloat option \<Rightarrow> entity_clock \<Rightarrow> access_rate option \<Rightarrow> controller option \<Rightarrow> bool \<Rightarrow> py_exc + cycle" where
  "cycle_init processing experiential clock access ctl deterministic =
     (if not_positive processing then Inl ValueError
      else if (case experiential of None \<Rightarrow> False | Some e \<Rightarrow> not_positive e) then Inl ValueError
      else let e = (case experiential of None \<Rightarrow> processing | Some e \<Rightarrow> e) in
        Inr \<lparr>cy_processing = processing, cy_period = fl_div (Fin 1) processing, cy_experiential = e, cy_effective = e,
             cy_access = access, cy_drive = 0, cy_acc = Fin 0, cy_clock = clock,
             cy_scale_controller = (if deterministic then None else ctl), cy_scale_changes = 0,
             cy_tick = 0, cy_logical = (0, None), cy_running = True, cy_paused_total = 0, cy_paused_at = None,
             cy_unawake_total = 0, cy_unawake_since = None, cy_stopped = False, cy_prev = None, cy_recent = [],
             cy_overruns = 0, cy_maintenance = False, cy_fired = []\<rparr>)"

section \<open>Rates\<close>

definition apply_processing_rate :: "pyfloat \<Rightarrow> cycle \<Rightarrow> cycle" where
  "apply_processing_rate hz c = c\<lparr>cy_processing := hz, cy_period := fl_div (Fin 1) hz\<rparr>"

definition set_processing :: "pyfloat \<Rightarrow> cycle \<Rightarrow> py_exc + cycle" where
  "set_processing hz c = (if not_positive hz then Inl ValueError else Inr (apply_processing_rate hz c))"

definition apply_experiential :: "pyfloat \<Rightarrow> cycle \<Rightarrow> cycle" where
  "apply_experiential hz c =
     (let c1 = c\<lparr>cy_experiential := hz\<rparr> in if cy_access c1 = None then c1\<lparr>cy_effective := hz\<rparr> else c1)"

definition set_experiential :: "pyfloat \<Rightarrow> cycle \<Rightarrow> py_exc + cycle" where
  "set_experiential hz c = (if not_positive hz then Inl ValueError else Inr (apply_experiential hz c))"

text \<open>
  A \<open>cycle.set_rates\<close> payload. A rate that is no number is rejected, one that overflows raises; what was
  applied before a rejection stays. The second component says that the rates event is published.
\<close>

definition reject_bad :: "pyval \<Rightarrow> (pyfloat \<Rightarrow> cycle) \<Rightarrow> cycle \<Rightarrow> (py_exc + bool) \<times> cycle" where
  "reject_bad v f c =
     (case py_float v of
        Inl e \<Rightarrow> if e = TypeError \<or> e = ValueError then (Inr False, c) else (Inl e, c)
      | Inr hz \<Rightarrow> if not_positive hz then (Inr False, c) else (Inr True, f hz))"

definition apply_rate_control_event :: "pydict \<Rightarrow> cycle \<Rightarrow> (py_exc + bool) \<times> cycle" where
  "apply_rate_control_event payload c =
     (case (case map_of payload ''processing_rate_hz'' of
              None \<Rightarrow> (Inr True, c)
            | Some v \<Rightarrow> reject_bad v (\<lambda>hz. apply_processing_rate hz c) c) of
        (Inr True, c1) \<Rightarrow>
          (case map_of payload ''experiential_rate_hz'' of
             None \<Rightarrow> (Inr (map_of payload ''processing_rate_hz'' \<noteq> None), c1)
           | Some v \<Rightarrow> reject_bad v (\<lambda>hz. apply_experiential hz c1) c1)
      | r \<Rightarrow> r)"

text \<open>The control events of a batch; the first raise leaves the consumer.\<close>

fun control_events :: "event list \<Rightarrow> cycle \<Rightarrow> py_exc option \<times> cycle" where
  "control_events [] c = (None, c)"
| "control_events (e # es) c =
     (if ev_type e \<noteq> ''cycle.set_rates'' then control_events es c
      else case apply_rate_control_event (ev_payload e) c of
        (Inl x, c1) \<Rightarrow> (Some x, c1)
      | (Inr _, c1) \<Rightarrow> control_events es c1)"

text \<open>One advisory of \<open>interoception.regulation\<close>; the shedding of a module is the registry's.\<close>

definition reduced_rate :: "pyfloat \<Rightarrow> pyfloat" where
  "reduced_rate hz = py_max (Fin MIN_PROCESSING_RATE_HZ) (py_min (Fin MAX_PROCESSING_RATE_HZ) (fl_mul hz (Fin REDUCE_RATE_FACTOR)))"

definition regulate :: "event \<Rightarrow> cycle \<Rightarrow> cycle" where
  "regulate e c =
     (if ev_type e \<noteq> ''interoception.regulation'' then c
      else case dget (ev_payload e) ''action'' PNone of
        PStr a \<Rightarrow>
          if a = ''reduce_rate'' then apply_processing_rate (reduced_rate (cy_processing c)) c
          else if a = ''request_maintenance'' then c\<lparr>cy_maintenance := True\<rparr>
          else c
      | _ \<Rightarrow> c)"

section \<open>Adaptive access\<close>

text \<open>The controller of the theory \<open>AccessRate\<close> over floats.\<close>

definition access_decayed :: "pyfloat \<Rightarrow> access_rate \<Rightarrow> real option" where
  "access_decayed dt a =
     (case py_max dt (Fin 0) of
        Fin d \<Rightarrow> Some (ar_phasic a * exp (- d / ac_phasic_decay_s (ar_config a)))
      | NaN \<Rightarrow> None
      | _ \<Rightarrow> Some 0)"

definition effective_fl :: "pyfloat \<Rightarrow> pyfloat \<Rightarrow> real \<Rightarrow> pyfloat" where
  "effective_fl resting cap drive =
     (let eff = (if fl_le cap resting then resting
                 else fl_add resting (fl_mul (fl_add cap (fl_neg resting)) (Fin drive)))
      in py_max (py_min resting cap) (py_min eff (py_max resting cap)))"

definition access_step_fl ::
  "(string \<times> event) list \<Rightarrow> pyfloat option \<Rightarrow> pyfloat \<Rightarrow> pyfloat \<Rightarrow> pyfloat \<Rightarrow> access_rate \<Rightarrow> (real \<times> pyfloat) \<times> access_rate" where
  "access_step_fl events arousal dt resting cap a =
     (if \<not> ac_enabled (ar_config a) then ((0, resting), a\<lparr>ar_phasic := 0, ar_drive := 0\<rparr>)
      else
        (let input_val = phasic_input (map_option Fin (max_report_salience events)) (ac_salience_floor (ar_config a));
             phasic = (case access_decayed dt a of None \<Rightarrow> input_val | Some d \<Rightarrow> max input_val d);
             drive = max (tonic_drive arousal (ac_baseline_arousal (ar_config a))) phasic
         in ((drive, effective_fl resting cap drive), a\<lparr>ar_phasic := phasic, ar_drive := drive\<rparr>)))"

text \<open>Without a controller the rate is the configured one.\<close>

definition update_access_rate :: "pyfloat option \<Rightarrow> (string \<times> event) list \<Rightarrow> cycle \<Rightarrow> cycle" where
  "update_access_rate arousal events c =
     (case cy_access c of
        None \<Rightarrow> c\<lparr>cy_effective := cy_experiential c, cy_drive := 0\<rparr>
      | Some a \<Rightarrow>
          (case access_step_fl events arousal (cy_period c) (cy_experiential c) (cy_processing c) a of
             ((drive, eff), a') \<Rightarrow> c\<lparr>cy_access := Some a', cy_drive := drive, cy_effective := eff\<rparr>))"

definition advance_experiential :: "cycle \<Rightarrow> bool \<times> cycle" where
  "advance_experiential c =
     (let acc = fl_add (cy_acc c) (fl_div (cy_effective c) (cy_processing c)) in
      if fl_le (Fin 1) acc
      then (let acc1 = fl_add acc (Fin (- 1)) in
            (True, c\<lparr>cy_acc := (if fl_less (Fin 1) acc1 then Fin 1 else acc1)\<rparr>))
      else (False, c\<lparr>cy_acc := acc\<rparr>))"

section \<open>Pausing and unawake time\<close>

definition now_at :: "real \<Rightarrow> cycle \<Rightarrow> real" where
  "now_at wall c = clock_now (cy_clock c) wall"

text \<open>\<open>asleep\<close> is the answer of the sleep source, \<open>None\<close> without one or when it raises.\<close>

definition is_asleep :: "bool option \<Rightarrow> bool" where
  "is_asleep answer = (answer = Some True)"

definition refresh_unawake :: "bool option \<Rightarrow> real \<Rightarrow> cycle \<Rightarrow> cycle" where
  "refresh_unawake asleep wall c =
     (let now = now_at wall c; excluded = (\<not> cy_running c \<or> is_asleep asleep) in
      case cy_unawake_since c of
        None \<Rightarrow> if excluded then c\<lparr>cy_unawake_since := Some now\<rparr> else c
      | Some t \<Rightarrow>
          if excluded then c
          else c\<lparr>cy_unawake_total := cy_unawake_total c + max 0 (now - t), cy_unawake_since := None\<rparr>)"

definition unawake_subjective_seconds :: "bool option \<Rightarrow> real \<Rightarrow> real \<Rightarrow> cycle \<Rightarrow> real \<times> cycle" where
  "unawake_subjective_seconds asleep wall1 wall2 c =
     (let c1 = refresh_unawake asleep wall1 c in
      (cy_unawake_total c1 + (case cy_unawake_since c1 of None \<Rightarrow> 0 | Some t \<Rightarrow> max 0 (now_at wall2 c1 - t)), c1))"

definition paused_subjective_seconds :: "real \<Rightarrow> cycle \<Rightarrow> real" where
  "paused_subjective_seconds wall c =
     cy_paused_total c + (case cy_paused_at c of None \<Rightarrow> 0 | Some t \<Rightarrow> max 0 (now_at wall c - t))"

definition fire :: "string \<Rightarrow> cycle \<Rightarrow> cycle" where
  "fire event c = c\<lparr>cy_fired := cy_fired c @ [event]\<rparr>"

definition pause :: "bool option \<Rightarrow> real \<Rightarrow> real \<Rightarrow> cycle \<Rightarrow> cycle" where
  "pause asleep wall1 wall2 c =
     (if \<not> cy_running c then c
      else (let c1 = (fire ''pause'' c)\<lparr>cy_running := False\<rparr>;
                c2 = refresh_unawake asleep wall2 (c1\<lparr>cy_paused_at := Some (now_at wall1 c1)\<rparr>)
            in c2\<lparr>cy_prev := None\<rparr>))"

definition resume :: "bool option \<Rightarrow> real \<Rightarrow> real \<Rightarrow> cycle \<Rightarrow> cycle" where
  "resume asleep wall1 wall2 c =
     (if cy_running c then c
      else (let c1 = (case cy_paused_at c of
                        None \<Rightarrow> c
                      | Some t \<Rightarrow> c\<lparr>cy_paused_total := cy_paused_total c + max 0 (now_at wall1 c - t), cy_paused_at := None\<rparr>);
                c2 = refresh_unawake asleep wall2 (fire ''resume'' (c1\<lparr>cy_running := True\<rparr>))
            in c2\<lparr>cy_prev := None\<rparr>))"

text \<open>A shutdown lets the loop go on, so it can see that it is stopped; a pause in progress is not closed.\<close>

definition shutdown :: "cycle \<Rightarrow> cycle" where
  "shutdown c = fire ''shutdown'' (c\<lparr>cy_stopped := True, cy_running := True\<rparr>)"

section \<open>Logical time\<close>

text \<open>\<open>timedelta(seconds=x)\<close>: whole microseconds, a half rounded to the even one.\<close>

definition round_half_even :: "real \<Rightarrow> int" where
  "round_half_even x =
     (let f = \<lfloor>x\<rfloor>; d = x - of_int f
      in if d < 1 / 2 then f else if d > 1 / 2 then f + 1 else if even f then f else f + 1)"

definition timedelta :: "pyfloat \<Rightarrow> py_exc + int" where
  "timedelta s = (case s of Fin x \<Rightarrow> Inr (round_half_even (x * 1000000)) | NaN \<Rightarrow> Inl ValueError | _ \<Rightarrow> Inl OverflowError)"

text \<open>Microseconds since the epoch; each new tick moves the clock by the period in force.\<close>

definition logical_now :: "cycle \<Rightarrow> (py_exc + int) \<times> cycle" where
  "logical_now c =
     (case cy_logical c of
        (t, None) \<Rightarrow> (Inr 0, c\<lparr>cy_logical := (0, Some (cy_tick c))\<rparr>)
      | (t, Some k) \<Rightarrow>
          if cy_tick c \<noteq> k
          then (case timedelta (fl_mul (Fin (real (cy_tick c) - real k)) (cy_period c)) of
                  Inl e \<Rightarrow> (Inl e, c)
                | Inr d \<Rightarrow> (Inr (t + d), c\<lparr>cy_logical := (t + d, Some (cy_tick c))\<rparr>))
          else (Inr t, c))"

section \<open>Pacing\<close>

definition tick_budget_ms :: "cycle \<Rightarrow> pyfloat" where
  "tick_budget_ms c =
     (if ec_scale (cy_clock c) > 0
      then fl_mul (fl_div (Fin 1) (fl_mul (cy_processing c) (Fin (ec_scale (cy_clock c))))) (Fin 1000)
      else fl_mul (cy_period c) (Fin 1000))"

text \<open>The start of a tick: its budget and its slip against the tick before.\<close>

definition tick_start :: "real \<Rightarrow> cycle \<Rightarrow> (pyfloat \<times> pyfloat) \<times> cycle" where
  "tick_start wall c =
     (let budget = tick_budget_ms c;
          slip = (case cy_prev c of
                    None \<Rightarrow> Fin 0
                  | Some (start, target) \<Rightarrow> py_max (Fin 0) (fl_add (Fin ((wall - start) * 1000)) (fl_neg target)))
      in ((budget, slip), c\<lparr>cy_prev := Some (wall, budget)\<rparr>))"

text \<open>\<open>deque(maxlen=n).append\<close>\<close>

definition push_recent :: "'a \<Rightarrow> 'a list \<Rightarrow> 'a list" where
  "push_recent x xs = (let ys = xs @ [x] in drop (length ys - PACING_WINDOW_TICKS) ys)"

definition tick_end :: "real \<Rightarrow> pyfloat \<Rightarrow> pyfloat \<Rightarrow> cycle \<Rightarrow> cycle" where
  "tick_end wall_ms budget slip c =
     c\<lparr>cy_recent := push_recent (wall_ms, budget, slip) (cy_recent c),
       cy_overruns := (if fl_less budget (Fin wall_ms) then Suc (cy_overruns c) else cy_overruns c)\<rparr>"

text \<open>The wait before the next tick, \<open>None\<close> when the loop goes on at once.\<close>

definition pacing_wait :: "pyfloat \<Rightarrow> real \<Rightarrow> pyfloat option" where
  "pacing_wait budget wall_ms =
     (let r = py_max (Fin 0) (fl_div (fl_add budget (Fin (- wall_ms))) (Fin 1000))
      in if fl_less (Fin 0) r then Some r else None)"

text \<open>
  The automatic change of the time scale after a tick. \<open>w1\<close> is the reading the controller is given,
  \<open>w2\<close>, \<open>w3\<close> those of the clock's own re-anchoring.
\<close>

definition adapt_time_scale :: "real \<Rightarrow> real \<Rightarrow> real \<Rightarrow> real \<Rightarrow> cycle \<Rightarrow> scale_change option \<times> cycle" where
  "adapt_time_scale busy_ms w1 w2 w3 c =
     (case cy_scale_controller c of
        None \<Rightarrow> (None, c)
      | Some ctl \<Rightarrow>
          if ec_scale (cy_clock c) > 0 \<and> cy_running c
          then (case observe (Fin busy_ms) (tick_budget_ms c) (Fin w1) (Fin (ec_scale (cy_clock c))) ctl of
             (None, ctl') \<Rightarrow> (None, c\<lparr>cy_scale_controller := Some ctl'\<rparr>)
           | (Some ch, ctl') \<Rightarrow>
               (Some ch, c\<lparr>cy_scale_controller := Some ctl',
                           cy_clock := rescale (cy_clock c) (ch_new ch, w2, w3),
                           cy_scale_changes := Suc (cy_scale_changes c)\<rparr>))
          else (None, c))"

section \<open>Rates stay usable\<close>

text \<open>Over finite rates the controller is the one of the theory \<open>AccessRate\<close>.\<close>

lemma effective_fl_Fin [simp]: "effective_fl (Fin r) (Fin k) d = Fin (effective_rate r k d)"
  by (simp add: effective_fl_def effective_rate_def Let_def)

lemma access_step_fl_Fin:
  "access_step_fl es ar (Fin t) (Fin r) (Fin k) a =
     (case access_step es ar t r k a of ((d, eff), a') \<Rightarrow> ((d, Fin eff), a'))"
  by (simp add: access_step_fl_def access_step_def access_decayed_def Let_def)

text \<open>No rate is zero or negative, and the cached period is the inverse of the rate.\<close>

definition rates_ok :: "cycle \<Rightarrow> bool" where
  "rates_ok c \<longleftrightarrow> \<not> not_positive (cy_processing c) \<and> \<not> not_positive (cy_experiential c) \<and>
     cy_period c = fl_div (Fin 1) (cy_processing c)"

lemma cycle_init_rates: "cycle_init p e clk a ctl det = Inr c \<Longrightarrow> rates_ok c"
  by (auto simp: cycle_init_def rates_ok_def Let_def split: if_splits option.splits)

lemma reduced_rate_cases:
  "reduced_rate hz = Fin (case hz of Fin r \<Rightarrow> max MIN_PROCESSING_RATE_HZ (min MAX_PROCESSING_RATE_HZ (r * REDUCE_RATE_FACTOR))
     | NegInf \<Rightarrow> MIN_PROCESSING_RATE_HZ | _ \<Rightarrow> MAX_PROCESSING_RATE_HZ)"
  by (cases hz) (simp_all add: reduced_rate_def REDUCE_RATE_FACTOR_def MIN_PROCESSING_RATE_HZ_def
      MAX_PROCESSING_RATE_HZ_def fl_signed_inf_def py_min_def py_max_def)

lemma reduced_rate_bounds:
  "\<exists>r. reduced_rate hz = Fin r \<and> MIN_PROCESSING_RATE_HZ \<le> r \<and> r \<le> MAX_PROCESSING_RATE_HZ"
  unfolding reduced_rate_cases by (auto simp: MIN_PROCESSING_RATE_HZ_def MAX_PROCESSING_RATE_HZ_def split: pyfloat.splits)

lemma apply_rates_ok [intro]:
  "rates_ok c \<Longrightarrow> \<not> not_positive hz \<Longrightarrow> rates_ok (apply_processing_rate hz c)"
  "rates_ok c \<Longrightarrow> \<not> not_positive hz \<Longrightarrow> rates_ok (apply_experiential hz c)"
  by (simp_all add: rates_ok_def apply_processing_rate_def apply_experiential_def Let_def)

lemma reject_bad_ok:
  assumes "reject_bad v f c = (r, c')" "rates_ok c" "\<And>hz. \<not> not_positive hz \<Longrightarrow> rates_ok (f hz)"
  shows "rates_ok c'"
  using assms by (auto simp: reject_bad_def split: sum.splits if_splits)

lemma rate_control_ok: "rates_ok c \<Longrightarrow> rates_ok (snd (apply_rate_control_event d c))"
proof -
  assume c: "rates_ok c"
  define first where "first = (case map_of d ''processing_rate_hz'' of None \<Rightarrow> (Inr True, c)
    | Some v \<Rightarrow> reject_bad v (\<lambda>hz. apply_processing_rate hz c) c)"
  obtain r c1 where f: "first = (r, c1)" by fastforce
  have c1: "rates_ok c1"
    using f c by (auto simp: first_def split: option.splits dest: reject_bad_ok)
  obtain r2 c2 where "apply_rate_control_event d c = (r2, c2)" by fastforce
  then have "rates_ok c2"
    using f c1 unfolding apply_rate_control_event_def first_def [symmetric]
    by (auto split: option.splits sum.splits bool.splits dest: reject_bad_ok)
  then show ?thesis using \<open>apply_rate_control_event d c = (r2, c2)\<close> by simp
qed

lemma control_events_ok: "rates_ok c \<Longrightarrow> rates_ok (snd (control_events es c))"
proof (induction es arbitrary: c)
  case (Cons e es)
  obtain r c1 where a: "apply_rate_control_event (ev_payload e) c = (r, c1)" by fastforce
  have "rates_ok c1" using rate_control_ok [OF Cons.prems, of "ev_payload e"] a by simp
  with Cons a show ?case by (auto split: sum.splits)
qed simp

text \<open>The operations that move a rate.\<close>

datatype rate_op =
    SetProcessing pyfloat
  | SetExperiential pyfloat
  | Control "event list"
  | Regulate event
  | Access "pyfloat option" "(string \<times> event) list"

definition keep_or :: "cycle \<Rightarrow> py_exc + cycle \<Rightarrow> cycle" where
  "keep_or c r = (case r of Inl _ \<Rightarrow> c | Inr c' \<Rightarrow> c')"

fun rate_step :: "cycle \<Rightarrow> rate_op \<Rightarrow> cycle" where
  "rate_step c (SetProcessing hz) = keep_or c (set_processing hz c)"
| "rate_step c (SetExperiential hz) = keep_or c (set_experiential hz c)"
| "rate_step c (Control es) = snd (control_events es c)"
| "rate_step c (Regulate e) = regulate e c"
| "rate_step c (Access a es) = update_access_rate a es c"

lemma regulate_ok: "rates_ok c \<Longrightarrow> rates_ok (regulate e c)"
proof -
  assume c: "rates_ok c"
  obtain r where "reduced_rate (cy_processing c) = Fin r" "0 < r"
    using reduced_rate_bounds [of "cy_processing c"] by (auto simp: MIN_PROCESSING_RATE_HZ_def)
  then have "\<not> not_positive (reduced_rate (cy_processing c))" by simp
  then show ?thesis using c by (auto simp: regulate_def rates_ok_def apply_processing_rate_def split: pyval.splits)
qed

lemma rate_step_ok: "rates_ok c \<Longrightarrow> rates_ok (rate_step c x)"
proof (cases x)
  case (Access a es)
  then show "rates_ok c \<Longrightarrow> ?thesis"
    by (auto simp: update_access_rate_def rates_ok_def split: option.splits prod.splits)
qed (auto simp: keep_or_def set_processing_def set_experiential_def control_events_ok regulate_ok)

interpretation rates: machine rate_step "\<lambda>_. True" rates_ok
  by unfold_locales (rule rate_step_ok)


definition plain_clock :: entity_clock where
  "plain_clock = \<lparr>ec_scale = 1, ec_wall_origin = 0, ec_origin = 0\<rparr>"

definition plain_cycle :: "real \<Rightarrow> real \<Rightarrow> cycle" where
  "plain_cycle p e = \<lparr>cy_processing = Fin p, cy_period = Fin (1 / p), cy_experiential = Fin e, cy_effective = Fin e,
     cy_access = None, cy_drive = 0, cy_acc = Fin 0, cy_clock = plain_clock, cy_scale_controller = None, cy_scale_changes = 0,
     cy_tick = 0, cy_logical = (0, None), cy_running = True, cy_paused_total = 0, cy_paused_at = None,
     cy_unawake_total = 0, cy_unawake_since = None, cy_stopped = False, cy_prev = None, cy_recent = [],
     cy_overruns = 0, cy_maintenance = False, cy_fired = []\<rparr>"

lemma plain_cycle_init:
  "0 < p \<Longrightarrow> 0 < e \<Longrightarrow> cycle_init (Fin p) (Some (Fin e)) plain_clock None None False = Inr (plain_cycle p e)"
  by (simp add: cycle_init_def plain_cycle_def Let_def)

definition control_event :: "pydict \<Rightarrow> event" where
  "control_event d = \<lparr>ev_source = ''cycle'', ev_type = ''cycle.set_rates'', ev_payload = d, ev_salience = 0,
     ev_timestamp = 0, ev_parent = None\<rparr>"


section \<open>Broadcasts follow the rate\<close>

text \<open>A tick's part in the promotion: the access update, then the accumulator.\<close>

type_synonym promote_input = "pyfloat option \<times> (string \<times> event) list"

definition promote :: "promote_input \<Rightarrow> cycle \<Rightarrow> bool \<times> cycle" where
  "promote x c = advance_experiential (update_access_rate (fst x) (snd x) c)"

fun promoted :: "promote_input list \<Rightarrow> cycle \<Rightarrow> nat" where
  "promoted [] c = 0"
| "promoted (x # xs) c = (case promote x c of (b, c') \<Rightarrow> (if b then 1 else 0) + promoted xs c')"

text \<open>The effective rate of each tick, as a share of the processing rate.\<close>

definition share_of :: "cycle \<Rightarrow> real" where
  "share_of c = (case fl_div (cy_effective c) (cy_processing c) of Fin r \<Rightarrow> r | _ \<Rightarrow> 0)"

fun shares :: "promote_input list \<Rightarrow> cycle \<Rightarrow> real list" where
  "shares [] c = []"
| "shares (x # xs) c = share_of (update_access_rate (fst x) (snd x) c) # shares xs (snd (promote x c))"

definition resting :: "real \<Rightarrow> real \<Rightarrow> real \<Rightarrow> cycle \<Rightarrow> bool" where
  "resting p e a c \<longleftrightarrow> cy_processing c = Fin p \<and> cy_experiential c = Fin e \<and> cy_period c = Fin (1 / p) \<and>
     cy_acc c = Fin a \<and> 0 \<le> a \<and> a < 1 \<and> (\<forall>x. cy_access c = Some x \<longrightarrow> access_ok x)"

lemma update_access_resting:
  assumes "resting p e a c" "0 < e" "e \<le> p"
  shows "resting p e a (update_access_rate ar es c) \<and>
    (\<exists>r. cy_effective (update_access_rate ar es c) = Fin r \<and> e \<le> r \<and> r \<le> p)"
proof (cases "cy_access c")
  case None
  with assms show ?thesis by (auto simp: update_access_rate_def resting_def)
next
  case (Some x)
  obtain d f x' where s: "access_step es ar (1 / p) e p x = ((d, f), x')" by (metis prod.exhaust)
  have x: "access_ok x" using assms(1) Some by (simp add: resting_def)
  then have "access_ok x'" using access_step_bounds [of x es ar "1 / p" e p] s by simp
  moreover have "e \<le> f \<and> f \<le> p"
  proof (cases "ac_enabled (ar_config x)")
    case True
    then have "f = effective_rate e p d" using s by (auto simp: access_step_def Let_def)
    then show ?thesis using effective_rate_bounds [of e p d] assms(3) by simp
  next
    case False
    then show ?thesis using s assms(3) by (simp add: access_step_def)
  qed
  ultimately show ?thesis
    using assms(1) Some s by (auto simp: update_access_rate_def resting_def access_step_fl_Fin)
qed

lemma advance_resting:
  assumes "resting p e a c" "cy_effective c = Fin r" "0 < p" "0 \<le> r" "r \<le> p"
  shows "\<exists>a'. resting p e a' (snd (advance_experiential c)) \<and>
    a + share_of c = (if fst (advance_experiential c) then 1 else 0) + a'"
proof -
  have q: "share_of c = r / p" "0 \<le> r / p" "r / p \<le> 1"
    using assms by (auto simp: resting_def share_of_def)
  moreover have "a < 1" using assms(1) by (simp add: resting_def)
  ultimately have q2: "a + r / p < 2" by linarith
  show ?thesis
  proof (cases "1 \<le> a + r / p")
    case True
    then show ?thesis using assms q q2
      by (intro exI [of _ "a + r / p - 1"]) (auto simp: advance_experiential_def resting_def Let_def)
  next
    case False
    then show ?thesis using assms q
      by (intro exI [of _ "a + r / p"]) (auto simp: advance_experiential_def resting_def Let_def)
  qed
qed

lemma promoted_sum:
  assumes "resting p e a c" "0 < e" "e \<le> p"
  shows "\<exists>a'. 0 \<le> a' \<and> a' < 1 \<and> a + sum_list (shares xs c) = real (promoted xs c) + a' \<and>
    (\<forall>r \<in> set (shares xs c). e / p \<le> r \<and> r \<le> 1)"
  using assms(1)
proof (induction xs arbitrary: a c)
  case Nil
  then show ?case by (auto simp: resting_def)
next
  case (Cons x xs)
  let ?u = "update_access_rate (fst x) (snd x) c"
  obtain r where u: "resting p e a ?u" "cy_effective ?u = Fin r" "e \<le> r" "r \<le> p"
    using update_access_resting [OF Cons.prems assms(2,3)] by blast
  have p: "0 < p" using assms by simp
  have sh: "share_of ?u = r / p" using u by (simp add: share_of_def resting_def)
  obtain a1 where a1: "resting p e a1 (snd (promote x c))"
    "a + share_of ?u = (if fst (promote x c) then 1 else 0) + a1"
    using advance_resting [OF u(1,2) p] u(3,4) assms(2) by (auto simp: promote_def)
  from Cons.IH [OF a1(1)] obtain a2 where "0 \<le> a2" "a2 < 1"
    "a1 + sum_list (shares xs (snd (promote x c))) = real (promoted xs (snd (promote x c))) + a2"
    "\<forall>r \<in> set (shares xs (snd (promote x c))). e / p \<le> r \<and> r \<le> 1" by blast
  moreover have "e / p \<le> r / p" "r / p \<le> 1" using u(3,4) p by (simp_all add: divide_right_mono)
  ultimately show ?case using a1(2) sh by (intro exI [of _ a2]) (auto split: prod.splits)
qed

text \<open>
  Access follows the rate: with a resting rate up to the processing rate, whatever the arousal and the
  reports, the number of experiential ticks among any run of ticks is exactly the sum of the effective
  rates over the processing rate, the carry included and rounded down; no fraction of a broadcast is
  lost or made up, and every tick's share is between the resting one and one.
\<close>

theorem broadcasts_follow_rate:
  assumes "resting p e a c" and "0 < e" and "e \<le> p"
  shows "int (promoted xs c) = \<lfloor>a + sum_list (shares xs c)\<rfloor> \<and> (\<forall>r \<in> set (shares xs c). e / p \<le> r \<and> r \<le> 1)"
proof -
  from promoted_sum [OF assms] obtain a' where "0 \<le> a'" "a' < 1"
    "a + sum_list (shares xs c) = real (promoted xs c) + a'" "\<forall>r \<in> set (shares xs c). e / p \<le> r \<and> r \<le> 1" by blast
  then show ?thesis by linarith
qed

lemma broadcasts_follow_rate_witness:
  "int (promoted [(None, []), (None, []), (None, []), (None, [])] (plain_cycle 2 1)) =
     \<lfloor>sum_list (shares [(None, []), (None, []), (None, []), (None, [])] (plain_cycle 2 1))\<rfloor> \<and>
   shares [(None, [])] (plain_cycle 2 1) = [1 / 2]"
proof
  have "resting 2 1 0 (plain_cycle 2 1)" by (simp add: resting_def plain_cycle_def)
  from broadcasts_follow_rate [OF this, of "[(None, []), (None, []), (None, []), (None, [])]"]
  show "int (promoted [(None, []), (None, []), (None, []), (None, [])] (plain_cycle 2 1)) =
     \<lfloor>sum_list (shares [(None, []), (None, []), (None, []), (None, [])] (plain_cycle 2 1))\<rfloor>" by simp
  show "shares [(None, [])] (plain_cycle 2 1) = [1 / 2]"
    by (simp add: update_access_rate_def plain_cycle_def share_of_def)
qed

section \<open>Time not awake\<close>

text \<open>What the loop and its owner do to the account, each with its readings of the clock.\<close>

datatype awake_op =
    Refresh "bool option" real
  | Pause "bool option" real real
  | Resume "bool option" real real

fun awake_step :: "cycle \<Rightarrow> awake_op \<Rightarrow> cycle" where
  "awake_step c (Refresh s w) = refresh_unawake s w c"
| "awake_step c (Pause s w1 w2) = pause s w1 w2 c"
| "awake_step c (Resume s w1 w2) = resume s w1 w2 c"

text \<open>The readings go on from \<open>w\<close>.\<close>

fun op_readings :: "awake_op \<Rightarrow> real list" where
  "op_readings (Refresh s w) = [w]"
| "op_readings (Pause s w1 w2) = [w1, w2]"
| "op_readings (Resume s w1 w2) = [w1, w2]"

definition readings_of :: "awake_op list \<Rightarrow> real list" where
  "readings_of xs = concat (map op_readings xs)"

text \<open>
  The reference account: between two refreshes the whole span counts when the first one found the entity
  frozen or asleep, and nothing of it otherwise. \<open>running\<close> is the state of the pause event, \<open>out\<close> what
  the last refresh found and \<open>t\<close> when.
\<close>

fun excluded_time :: "(real \<Rightarrow> real) \<Rightarrow> awake_op list \<Rightarrow> bool \<Rightarrow> bool \<Rightarrow> real \<Rightarrow> real" where
  "excluded_time now [] running out t = 0"
| "excluded_time now (Refresh s w # xs) running out t =
     (if out then now w - t else 0) + excluded_time now xs running (\<not> running \<or> is_asleep s) (now w)"
| "excluded_time now (Pause s w1 w2 # xs) running out t =
     (if running then (if out then now w2 - t else 0) + excluded_time now xs False True (now w2)
      else excluded_time now xs running out t)"
| "excluded_time now (Resume s w1 w2 # xs) running out t =
     (if running then excluded_time now xs running out t
      else (if out then now w2 - t else 0) + excluded_time now xs True (is_asleep s) (now w2))"

text \<open>The time the account holds when the reference has reached \<open>t\<close>.\<close>

definition account :: "real \<Rightarrow> cycle \<Rightarrow> real" where
  "account t c = cy_unawake_total c + (case cy_unawake_since c of None \<Rightarrow> 0 | Some s \<Rightarrow> t - s)"

definition accounted :: "entity_clock \<Rightarrow> real \<Rightarrow> bool \<Rightarrow> bool \<Rightarrow> cycle \<Rightarrow> bool" where
  "accounted k t running out c \<longleftrightarrow> cy_clock c = k \<and> cy_running c = running \<and> (cy_unawake_since c \<noteq> None) = out \<and>
     (\<forall>s. cy_unawake_since c = Some s \<longrightarrow> s \<le> t)"

lemma refresh_account:
  assumes "accounted k t running out c" "t \<le> clock_now k w"
  shows "accounted k (clock_now k w) running (\<not> running \<or> is_asleep s) (refresh_unawake s w c) \<and>
    account (clock_now k w) (refresh_unawake s w c) = account t c + (if out then clock_now k w - t else 0)"
  using assms by (auto simp: accounted_def account_def refresh_unawake_def now_at_def Let_def split: option.splits)

lemma sorted_clock:
  assumes "0 \<le> ec_scale k" "w \<le> v"
  shows "clock_now k w \<le> clock_now k v"
  using assms by (rule clock_now_mono)

text \<open>The account and the reference agree after every run, at the moment \<open>t'\<close> of the last refresh.\<close>

lemma account_run:
  assumes "accounted k t running ot c" "0 \<le> ec_scale k" "sorted (readings_of xs)"
    "\<forall>w \<in> set (readings_of xs). t \<le> clock_now k w"
  shows "\<exists>t' running' out'. accounted k t' running' out' (run awake_step c xs) \<and> t \<le> t' \<and>
    account t' (run awake_step c xs) = account t c + excluded_time (clock_now k) xs running ot t \<and>
    0 \<le> excluded_time (clock_now k) xs running ot t \<and> excluded_time (clock_now k) xs running ot t \<le> t' - t \<and>
    (\<forall>v. (\<forall>w \<in> set (readings_of xs). w \<le> v) \<longrightarrow> t \<le> clock_now k v \<longrightarrow> t' \<le> clock_now k v) \<and>
    (\<forall>s w. excluded_time (clock_now k) (xs @ [Refresh s w]) running ot t =
       excluded_time (clock_now k) xs running ot t + (if out' then clock_now k w - t' else 0))"
  using assms(1,3,4)
proof (induction xs arbitrary: t running ot c)
  case Nil
  then show ?case by auto
next
  case (Cons x xs)
  let ?now = "clock_now k"
  have sorted: "sorted (readings_of xs)" and later: "\<forall>w \<in> set (op_readings x). \<forall>v \<in> set (readings_of xs). w \<le> v"
    using Cons.prems(2) by (auto simp: readings_of_def sorted_append)
  have skip: ?case if skipped: "awake_step c x = c"
    "\<And>ys. excluded_time ?now (x # ys) running ot t = excluded_time ?now ys running ot t"
  proof -
    have "\<forall>w \<in> set (readings_of xs). t \<le> ?now w" using Cons.prems(3) by (simp add: readings_of_def)
    from Cons.IH [OF Cons.prems(1) sorted this] obtain t' r' o' where ih:
      "accounted k t' r' o' (run awake_step c xs)" "t \<le> t'"
      "account t' (run awake_step c xs) = account t c + excluded_time ?now xs running ot t"
      "0 \<le> excluded_time ?now xs running ot t" "excluded_time ?now xs running ot t \<le> t' - t"
      "\<forall>v. (\<forall>w \<in> set (readings_of xs). w \<le> v) \<longrightarrow> t \<le> ?now v \<longrightarrow> t' \<le> ?now v"
      "\<forall>s u. excluded_time ?now (xs @ [Refresh s u]) running ot t =
         excluded_time ?now xs running ot t + (if o' then ?now u - t' else 0)" by blast
    have last: "t' \<le> ?now v" if "\<forall>u \<in> set (readings_of (x # xs)). u \<le> v" "t \<le> ?now v" for v
      using ih(6) [rule_format, of v] that by (simp add: readings_of_def)
    show ?thesis
      using ih(1-5,7) last skipped by (intro exI [of _ t'] exI [of _ r'] exI [of _ o']) simp
  qed
  have move: ?case if step: "accounted k (?now w) running' out' (awake_step c x)"
      "account (?now w) (awake_step c x) = account t c + (if ot then ?now w - t else 0)" "w \<in> set (op_readings x)"
      "\<And>ys. excluded_time ?now (x # ys) running ot t = (if ot then ?now w - t else 0) + excluded_time ?now ys running' out' (?now w)"
    for w running' out'
  proof -
    have tw: "t \<le> ?now w" using Cons.prems(3) step(3) by (auto simp: readings_of_def)
    have "\<forall>v \<in> set (readings_of xs). ?now w \<le> ?now v"
      using later step(3) sorted_clock [OF assms(2)] by blast
    from Cons.IH [OF step(1) sorted this] obtain t' r' o' where ih:
      "accounted k t' r' o' (run awake_step (awake_step c x) xs)" "?now w \<le> t'"
      "account t' (run awake_step (awake_step c x) xs) = account (?now w) (awake_step c x) + excluded_time ?now xs running' out' (?now w)"
      "0 \<le> excluded_time ?now xs running' out' (?now w)" "excluded_time ?now xs running' out' (?now w) \<le> t' - ?now w"
      "\<forall>v. (\<forall>w \<in> set (readings_of xs). w \<le> v) \<longrightarrow> ?now w \<le> ?now v \<longrightarrow> t' \<le> ?now v"
      "\<forall>s u. excluded_time ?now (xs @ [Refresh s u]) running' out' (?now w) =
         excluded_time ?now xs running' out' (?now w) + (if o' then ?now u - t' else 0)" by blast
    have last: "t' \<le> ?now v" if "\<forall>u \<in> set (readings_of (x # xs)). u \<le> v" for v
      using ih(6) that step(3) sorted_clock [OF assms(2), of w v] by (auto simp: readings_of_def)
    have "account t' (run awake_step c (x # xs)) = account t c + excluded_time ?now (x # xs) running ot t"
      using ih(3) step(2,4) by simp
    moreover have "0 \<le> excluded_time ?now (x # xs) running ot t \<and> excluded_time ?now (x # xs) running ot t \<le> t' - t"
      using ih(2,4,5) step(4) tw by (cases ot) simp_all
    moreover have "excluded_time ?now ((x # xs) @ [Refresh s u]) running ot t =
        excluded_time ?now (x # xs) running ot t + (if o' then ?now u - t' else 0)" for s u
      using ih(7) step(4) [of xs] step(4) [of "xs @ [Refresh s u]"] by simp
    moreover have "accounted k t' r' o' (run awake_step c (x # xs))" "t \<le> t'" using ih(1,2) tw by simp_all
    ultimately show ?thesis using last by (intro exI conjI allI impI) (assumption | blast)+
  qed
  note a = Cons.prems(1) [unfolded accounted_def]
  show ?case
  proof (cases x)
    case (Refresh s w)
    with refresh_account [OF Cons.prems(1), of w s] Cons.prems(3) show ?thesis
      by (intro move [of w running "\<not> running \<or> is_asleep s"]) (auto simp: readings_of_def)
  next
    case (Pause s w1 w2)
    show ?thesis
    proof (cases running)
      case False
      with Pause a show ?thesis by (intro skip) (simp_all add: pause_def)
    next
      case True
      let ?c = "(fire ''pause'' c)\<lparr>cy_running := False, cy_paused_at := Some (now_at w1 ((fire ''pause'' c)\<lparr>cy_running := False\<rparr>))\<rparr>"
      have "accounted k t False ot ?c" "account t ?c = account t c" using Cons.prems(1) by (simp_all add: accounted_def account_def fire_def)
      with refresh_account [of k t False ot ?c w2 s] Pause True a Cons.prems(3) show ?thesis
        by (intro move [of w2 False True])
          (auto simp: readings_of_def pause_def Let_def accounted_def account_def)
    qed
  next
    case (Resume s w1 w2)
    show ?thesis
    proof (cases running)
      case True
      with Resume a show ?thesis by (intro skip) (simp_all add: resume_def)
    next
      case False
      let ?c = "fire ''resume'' ((case cy_paused_at c of None \<Rightarrow> c
        | Some t \<Rightarrow> c\<lparr>cy_paused_total := cy_paused_total c + max 0 (now_at w1 c - t), cy_paused_at := None\<rparr>)\<lparr>cy_running := True\<rparr>)"
      have "accounted k t True ot ?c" "account t ?c = account t c"
        using Cons.prems(1) by (auto simp: accounted_def account_def fire_def split: option.splits)
      with refresh_account [of k t True ot ?c w2 s] Resume False a Cons.prems(3) show ?thesis
        by (intro move [of w2 True "is_asleep s"])
          (auto simp: readings_of_def resume_def Let_def accounted_def account_def)
    qed
  qed
qed

text \<open>
  Unawake time is exact: over any run of pauses, resumes and refreshes with readings that do not go
  back, the seconds the cycle reports as not awake are those of the reference account, in which the
  time frozen and the time asleep count once where they overlap; they are never negative and never
  more than the subjective time that has passed.
\<close>

theorem unawake_time_is_exact:
  assumes "cy_unawake_since c = None" and "cy_unawake_total c = 0" and "cy_running c"
    and "0 \<le> ec_scale (cy_clock c)" and "sorted (w0 # readings_of xs @ [w1, w2])"
  shows "let now = clock_now (cy_clock c);
      spent = fst (unawake_subjective_seconds s w1 w2 (run awake_step c xs))
    in spent = excluded_time now (xs @ [Refresh s w1, Refresh s w2]) True False (now w0) \<and>
       0 \<le> spent \<and> spent \<le> now w2 - now w0"
proof -
  let ?k = "cy_clock c" and ?ys = "xs @ [Refresh s w1]"
  have acc: "accounted ?k (clock_now ?k w0) True False c" and zero: "account (clock_now ?k w0) c = 0"
    using assms(1-3) by (simp_all add: accounted_def account_def)
  have r: "readings_of ?ys = readings_of xs @ [w1]" by (simp add: readings_of_def)
  have ord: "\<forall>w \<in> set (readings_of ?ys). clock_now ?k w0 \<le> clock_now ?k w"
    using assms(4,5) sorted_clock unfolding r by auto
  have "sorted (readings_of ?ys)" using assms(5) unfolding r by (simp add: sorted_append)
  from account_run [OF acc assms(4) this ord] obtain t' r' o' where
    a: "accounted ?k t' r' o' (run awake_step c ?ys)" "clock_now ?k w0 \<le> t'"
      "account t' (run awake_step c ?ys) = account (clock_now ?k w0) c + excluded_time (clock_now ?k) ?ys True False (clock_now ?k w0)"
      "0 \<le> excluded_time (clock_now ?k) ?ys True False (clock_now ?k w0)"
      "excluded_time (clock_now ?k) ?ys True False (clock_now ?k w0) \<le> t' - clock_now ?k w0"
      "\<forall>v. (\<forall>w \<in> set (readings_of ?ys). w \<le> v) \<longrightarrow> clock_now ?k w0 \<le> clock_now ?k v \<longrightarrow> t' \<le> clock_now ?k v"
      "\<forall>s w. excluded_time (clock_now ?k) (?ys @ [Refresh s w]) True False (clock_now ?k w0) =
         excluded_time (clock_now ?k) ?ys True False (clock_now ?k w0) + (if o' then clock_now ?k w - t' else 0)" by blast
  have t': "t' \<le> clock_now ?k w2"
    using a(6) assms(4,5) sorted_clock [of ?k w0 w2] unfolding r by (auto simp: sorted_append)
  have "fst (unawake_subjective_seconds s w1 w2 (run awake_step c xs)) =
      account t' (run awake_step c ?ys) + (if o' then clock_now ?k w2 - t' else 0)"
    using a(1) t' by (auto simp: unawake_subjective_seconds_def Let_def accounted_def account_def now_at_def split: option.splits)
  then show ?thesis using a(2-5) a(7) [rule_format, of s w2] t' zero by (simp add: Let_def)
qed

lemma unawake_time_is_exact_witness:
  "fst (unawake_subjective_seconds (Some False) 9 9
     (run awake_step (plain_cycle 10 3) [Refresh (Some True) 1, Pause (Some True) 2 2, Refresh (Some False) 4, Resume None 6 6])) = 5"
proof -
  have c: "cy_unawake_since (plain_cycle 10 3) = None" "cy_unawake_total (plain_cycle 10 3) = 0"
    "cy_running (plain_cycle 10 3)" "0 \<le> ec_scale (cy_clock (plain_cycle 10 3))"
    by (simp_all add: plain_cycle_def plain_clock_def)
  have "clock_now (cy_clock (plain_cycle 10 3)) = (\<lambda>w. w)"
    by (rule ext) (simp add: plain_cycle_def plain_clock_def clock_now_def)
  with unawake_time_is_exact [OF c, of 0 "[Refresh (Some True) 1, Pause (Some True) 2 2, Refresh (Some False) 4, Resume None 6 6]" 9 9 "Some False"]
  show ?thesis by (simp add: readings_of_def Let_def is_asleep_def)
qed

section \<open>Logical time\<close>

text \<open>A tick of a deterministic run: a rate may change, the index moves on, the clock is read.\<close>

definition logical_step :: "pyfloat option \<Rightarrow> cycle \<Rightarrow> (py_exc + int) \<times> cycle" where
  "logical_step hz c =
     logical_now ((case hz of None \<Rightarrow> c | Some h \<Rightarrow> apply_processing_rate h c)\<lparr>cy_tick := Suc (cy_tick c)\<rparr>)"

fun logical_times :: "pyfloat option list \<Rightarrow> cycle \<Rightarrow> (py_exc + int) list" where
  "logical_times [] c = []"
| "logical_times (x # xs) c = (case logical_step x c of (t, c') \<Rightarrow> t # logical_times xs c')"

text \<open>The reference: the sum of the periods in force, each in whole microseconds.\<close>

definition period_us :: "real \<Rightarrow> int" where
  "period_us hz = round_half_even (1 / hz * 1000000)"

fun period_sums :: "int \<Rightarrow> real \<Rightarrow> pyfloat option list \<Rightarrow> int list" where
  "period_sums t p [] = []"
| "period_sums t p (x # xs) =
     (let p' = (case x of Some (Fin r) \<Rightarrow> r | _ \<Rightarrow> p) in (t + period_us p') # period_sums (t + period_us p') p' xs)"

definition positive_rates :: "pyfloat option list \<Rightarrow> bool" where
  "positive_rates xs \<longleftrightarrow> (\<forall>x \<in> set xs. x = None \<or> (\<exists>r. x = Some (Fin r) \<and> 0 < r))"

lemma logical_times_sums:
  assumes "cy_logical c = (t, Some (cy_tick c))" "cy_processing c = Fin p" "cy_period c = Fin (1 / p)" "positive_rates xs"
  shows "logical_times xs c = map Inr (period_sums t p xs)"
  using assms
proof (induction xs arbitrary: c t p)
  case (Cons x xs)
  define q where "q = (case x of Some (Fin r) \<Rightarrow> r | _ \<Rightarrow> p)"
  define c1 where "c1 = (case x of None \<Rightarrow> c | Some h \<Rightarrow> apply_processing_rate h c)\<lparr>cy_tick := Suc (cy_tick c)\<rparr>"
  have c1: "cy_processing c1 = Fin q" "cy_period c1 = Fin (1 / q)" "cy_logical c1 = (t, Some (cy_tick c))" "cy_tick c1 = Suc (cy_tick c)"
    using Cons.prems by (auto simp: c1_def q_def positive_rates_def apply_processing_rate_def)
  then have "logical_step x c = (Inr (t + period_us q), c1\<lparr>cy_logical := (t + period_us q, Some (cy_tick c1))\<rparr>)"
    by (simp add: logical_step_def c1_def [symmetric] logical_now_def Let_def timedelta_def period_us_def)
  moreover have "positive_rates xs" using Cons.prems(4) by (simp add: positive_rates_def)
  ultimately show ?case
    using Cons.IH [of "c1\<lparr>cy_logical := (t + period_us q, Some (cy_tick c1))\<rparr>" "t + period_us q" q] c1
    by (simp add: q_def [symmetric] Let_def)
qed simp

lemma period_us_nonneg: "0 < p \<Longrightarrow> 0 \<le> period_us p"
proof -
  assume "0 < p"
  then have "0 \<le> \<lfloor>1 / p * 1000000\<rfloor>" by simp
  then show ?thesis by (auto simp: period_us_def round_half_even_def Let_def simp del: zero_le_floor)
qed

lemma period_sums_sorted: "0 < p \<Longrightarrow> positive_rates xs \<Longrightarrow> sorted (t # period_sums t p xs)"
proof (induction xs arbitrary: t p)
  case (Cons x xs)
  define q where "q = (case x of Some (Fin r) \<Rightarrow> r | _ \<Rightarrow> p)"
  have q: "0 < q" "positive_rates xs" using Cons.prems by (auto simp: q_def positive_rates_def)
  then have "sorted ((t + period_us q) # period_sums (t + period_us q) q xs)" by (rule Cons.IH)
  moreover have "t \<le> t + period_us q" using period_us_nonneg [OF q(1)] by simp
  ultimately show ?case using order_trans [of t "t + period_us q"] by (auto simp: Let_def q_def [symmetric])
qed simp

text \<open>
  Logical time is reproducible: in a deterministic run the stamps of successive ticks are the running
  sums of the periods in force, in whole microseconds, so they never go back, a later change of the
  rate moves no earlier stamp, and they depend neither on the time scale nor on any real clock.
\<close>

theorem logical_time_is_the_sum_of_periods:
  assumes "cy_logical c = (t, Some (cy_tick c))" and "cy_processing c = Fin p" and "cy_period c = Fin (1 / p)"
    and "0 < p" and "positive_rates xs"
  shows "logical_times xs c = map Inr (period_sums t p xs) \<and> sorted (t # period_sums t p xs) \<and>
    logical_times xs (c\<lparr>cy_clock := k\<rparr>) = logical_times xs c"
  using logical_times_sums [of c t p xs] logical_times_sums [of "c\<lparr>cy_clock := k\<rparr>" t p xs] assms period_sums_sorted
  by simp

lemma logical_time_is_the_sum_of_periods_witness:
  "logical_times [None, Some (Fin 2), None] (snd (logical_now (plain_cycle 10 3))) = map Inr [100000, 600000, 1100000]"
proof -
  have "cy_logical (snd (logical_now (plain_cycle 10 3))) = (0, Some (cy_tick (snd (logical_now (plain_cycle 10 3)))))"
    "cy_processing (snd (logical_now (plain_cycle 10 3))) = Fin 10" "cy_period (snd (logical_now (plain_cycle 10 3))) = Fin (1 / 10)"
    "positive_rates [None, Some (Fin 2), None]"
    by (simp_all add: logical_now_def plain_cycle_def positive_rates_def)
  from logical_time_is_the_sum_of_periods [OF this(1-3) _ this(4)] show ?thesis
    by (simp add: Let_def period_us_def round_half_even_def)
qed

section \<open>Corners of the rate control\<close>

text \<open>
  Corners of the rate control: a rate of NaN passes the check for a positive one, and the loop then never
  waits between ticks; an integer too large for a float raises out of the control consumer, past its
  handler, and so out of the loop; and a payload with a good processing rate and a bad experiential one
  reports a rejection though the first is in force.
\<close>

theorem rate_control_corners:
  "apply_rate_control_event [(''processing_rate_hz'', PFloat NaN)] c = (Inr True, apply_processing_rate NaN c) \<and>
   pacing_wait (tick_budget_ms (apply_processing_rate NaN c)) wall_ms = None \<and>
   fst (control_events [control_event [(''processing_rate_hz'', PInt (10 ^ 400))]] c) = Some OverflowError \<and>
   apply_rate_control_event [(''processing_rate_hz'', PInt 5), (''experiential_rate_hz'', PInt 0)] c =
     (Inr False, apply_processing_rate (Fin 5) c)"
proof -
  have "fl_limit \<le> 2 ^ 1024" by (simp add: fl_limit_def)
  also have "(2 :: real) ^ 1024 \<le> 10 ^ 400" by simp
  finally have big: "fl_of_int (10 ^ 400) = Inl OverflowError" by (simp add: fl_of_int_def)
  show ?thesis
    using big by (simp add: apply_rate_control_event_def reject_bad_def control_event_def apply_processing_rate_def
        tick_budget_ms_def pacing_wait_def py_max_def)
qed

text \<open>An advisory to reduce the rate raises one that is below the floor.\<close>

lemma reduce_rate_can_raise: "reduced_rate (Fin (1 / 10)) = Fin (1 / 2)"
  by (simp add: reduced_rate_def MIN_PROCESSING_RATE_HZ_def MAX_PROCESSING_RATE_HZ_def REDUCE_RATE_FACTOR_def)

end
