(* ===== verification/ActionSelection.thy ===== *)
theory ActionSelection
  imports Feedback
begin

text \<open>
  Models \<open>kaine/security/intent_signing.py\<close> (the signer and the verification of act intents),
  \<open>kaine/workspace/action_selection.py\<close> (intents, the default policy, the action selection with its
  inhibition gate) and the three policies of \<open>drive_policy.py\<close>, \<open>report_policy.py\<close> and
  \<open>stimulus_policy.py\<close>. The keyed hash over the canonical form of the signed fields is an argument
  (\<open>mac\<close>, \<open>None\<close> when the fields cannot be serialised), as are the clock readings, Python's \<open>str\<close> of
  a payload value and the wording of a report. The interface \<open>speak_guard\<close> is what the policies share.
\<close>

section \<open>Intents\<close>

definition SPEAK :: string where "SPEAK = ''speak''"

definition THINK :: string where "THINK = ''think''"

definition ACT :: string where "ACT = ''act''"

definition REST :: string where "REST = ''rest''"

definition OWN_SPEECH_SOURCE :: string where "OWN_SPEECH_SOURCE = ''language''"

definition OWN_EXTERNAL_SPEECH_TYPE :: string where "OWN_EXTERNAL_SPEECH_TYPE = ''external_speech''"

definition OWN_INTERNAL_SPEECH_TYPE :: string where "OWN_INTERNAL_SPEECH_TYPE = ''internal_speech''"

definition INTENT_TYPES :: "string \<Rightarrow> string option" where
  "INTENT_TYPES = map_of [(SPEAK, ''intent.speak''), (THINK, ''intent.think''), (ACT, ''intent.act''), (REST, ''intent.rest'')]"

record intent =
  it_kind :: string
  it_about :: string
  it_entry_id :: "string option"
  it_effector :: "string option"
  it_params :: pydict
  it_run_id :: "string option"
  it_seq :: "int option"
  it_sig :: "string option"
  it_interrupt :: bool
  it_origin :: "string option"
  it_proposal_id :: "string option"
  it_about_kind :: "string option"
  it_about_values :: "pydict option"

definition Intent :: "string \<Rightarrow> string \<Rightarrow> string \<Rightarrow> string \<Rightarrow> intent" where
  "Intent kind about eid about_kind =
     \<lparr>it_kind = kind, it_about = about, it_entry_id = (if eid = [] then None else Some eid),
      it_effector = None, it_params = [], it_run_id = None, it_seq = None, it_sig = None,
      it_interrupt = False, it_origin = None, it_proposal_id = None, it_about_kind = Some about_kind,
      it_about_values = None\<rparr>"

definition field_if :: "string \<Rightarrow> pyval option \<Rightarrow> pydict" where
  "field_if k v = (case v of None \<Rightarrow> [] | Some x \<Rightarrow> [(k, x)])"

definition to_event_payload :: "intent \<Rightarrow> pydict" where
  "to_event_payload i =
     [(''kind'', PStr (it_kind i)), (''about'', PStr (it_about i))] @
     field_if ''origin'' (map_option PStr (it_origin i)) @
     field_if ''about_kind'' (map_option PStr (it_about_kind i)) @
     field_if ''about_values'' (map_option PDict (it_about_values i)) @
     field_if ''proposal_id'' (map_option PStr (it_proposal_id i)) @
     field_if ''entry_id'' (map_option PStr (it_entry_id i)) @
     field_if ''interrupt'' (if it_interrupt i then Some (PBool True) else None) @
     field_if ''effector'' (map_option PStr (it_effector i)) @
     field_if ''params'' (if it_params i = [] then None else Some (PDict (it_params i))) @
     field_if ''run_id'' (map_option PStr (it_run_id i)) @
     field_if ''seq'' (map_option PInt (it_seq i)) @
     field_if ''sig'' (map_option PStr (it_sig i))"

section \<open>Signing\<close>

text \<open>
  The signed fields in the order of the canonical form: kind, effector, params, run id, sequence
  number. The params are whatever the payload carries.
\<close>

type_synonym signed_fields = "string \<times> string \<times> pyval \<times> string \<times> int"
type_synonym 'k mac = "'k \<Rightarrow> signed_fields \<Rightarrow> string option"

definition ascii :: "string \<Rightarrow> bool" where
  "ascii s \<longleftrightarrow> list_all (\<lambda>c. (of_char c :: nat) < 128) s"

text \<open>
  \<open>hmac.compare_digest\<close> of two strings raises TypeError unless both are ASCII; the
  computation of the expected signature is guarded, the comparison is not.
\<close>

definition compare_digest :: "string \<Rightarrow> string \<Rightarrow> py_exc + bool" where
  "compare_digest a b = (if ascii a \<and> ascii b then Inr (a = b) else Inl TypeError)"

definition verify_intent_signature :: "'k mac \<Rightarrow> 'k \<Rightarrow> signed_fields \<Rightarrow> pyval \<Rightarrow> py_exc + bool" where
  "verify_intent_signature mac secret signed signature =
     (case signature of
        PStr s \<Rightarrow>
          if s = [] then Inr False
          else (case mac secret signed of None \<Rightarrow> Inr False | Some expected \<Rightarrow> compare_digest expected s)
      | _ \<Rightarrow> Inr False)"

record 'k signer =
  sg_secret :: 'k
  sg_run_id :: string
  sg_seq :: nat

text \<open>The counter moves even when the signature cannot be computed.\<close>

definition sign :: "'k mac \<Rightarrow> string \<Rightarrow> string \<Rightarrow> pyval \<Rightarrow> 'k signer \<Rightarrow> (py_exc + string \<times> nat \<times> string) \<times> 'k signer" where
  "sign mac kind effector params s =
     (let n = sg_seq s; s' = s\<lparr>sg_seq := Suc n\<rparr>
      in case mac (sg_secret s) (kind, effector, params, sg_run_id s, int n) of
           None \<Rightarrow> (Inl TypeError, s')
         | Some g \<Rightarrow> (Inr (sg_run_id s, n, g), s'))"

section \<open>The default policy\<close>

text \<open>
  A guard that is in flight since a reading of the clock; \<open>None\<close> stands for minus infinity (and for
  the reset value of the drive policy, which is read as the present when met).
\<close>

record default_policy =
  dp_in_flight :: bool
  dp_armed_at :: "real option"
  dp_operator_sources :: "string list"

definition OPERATOR_SOURCES :: "string list" where
  "OPERATOR_SOURCES = [''live_mic'', ''microphone'', ''remote'']"

definition GUARD_TIMEOUT_S :: real where "GUARD_TIMEOUT_S = 48"

definition DefaultPolicy :: "string list option \<Rightarrow> default_policy" where
  "DefaultPolicy sources = \<lparr>dp_in_flight = False, dp_armed_at = None,
     dp_operator_sources = (case sources of None \<Rightarrow> OPERATOR_SOURCES | Some xs \<Rightarrow> xs)\<rparr>"

definition mark_realized :: "default_policy \<Rightarrow> default_policy" where
  "mark_realized p = p\<lparr>dp_in_flight := False, dp_armed_at := None\<rparr>"

definition note_external_intent :: "string \<Rightarrow> real \<Rightarrow> default_policy \<Rightarrow> default_policy" where
  "note_external_intent kind now p =
     (if kind \<noteq> SPEAK then p else p\<lparr>dp_in_flight := True, dp_armed_at := Some now\<rparr>)"

definition is_own_speech :: "event \<Rightarrow> bool" where
  "is_own_speech e \<longleftrightarrow> ev_source e = OWN_SPEECH_SOURCE"

text \<open>\<open>label not in sources\<close>: a label that cannot be hashed raises.\<close>

definition known_source :: "string list \<Rightarrow> pyval \<Rightarrow> py_exc + bool" where
  "known_source sources v =
     (case v of PStr s \<Rightarrow> Inr (s \<in> set sources) | PList _ \<Rightarrow> Inl TypeError | PDict _ \<Rightarrow> Inl TypeError | _ \<Rightarrow> Inr False)"

definition user_utterance :: "(pyval \<Rightarrow> string) \<Rightarrow> string list \<Rightarrow> event \<Rightarrow> py_exc + string option" where
  "user_utterance py_str sources e =
     (if ev_source e \<noteq> ''audition'' \<or> ev_type e \<noteq> ''audition.transcription'' then Inr None
      else let label = dget (ev_payload e) ''source_label'' PNone in
        ebind (if label = PNone then Inr True else known_source sources label) (\<lambda>ok.
          if \<not> ok then Inr None
          else let t = dget (ev_payload e) ''text'' PNone;
                   text = py_strip (if truthy t then py_str t else [])
               in Inr (if text = [] then None else Some text)))"

fun user_response_intent :: "(pyval \<Rightarrow> string) \<Rightarrow> string list \<Rightarrow> (string \<times> event) list \<Rightarrow> py_exc + intent option" where
  "user_response_intent py_str sources [] = Inr None"
| "user_response_intent py_str sources ((i, e) # es) =
     (if is_own_speech e then user_response_intent py_str sources es
      else ebind (user_utterance py_str sources e) (\<lambda>t. case t of
             Some text \<Rightarrow> Inr (Some (Intent SPEAK text i ''heard''))
           | None \<Rightarrow> user_response_intent py_str sources es))"

definition heard_own :: "string \<Rightarrow> snapshot \<Rightarrow> bool" where
  "heard_own typ sn \<longleftrightarrow> list_ex (\<lambda>(_, e). is_own_speech e \<and> ev_type e = typ) (sn_selected sn)"

definition expired :: "real \<Rightarrow> real option \<Rightarrow> bool" where
  "expired now armed \<longleftrightarrow> (case armed of None \<Rightarrow> True | Some t \<Rightarrow> now - t \<ge> GUARD_TIMEOUT_S)"

definition release_guard :: "real \<Rightarrow> snapshot \<Rightarrow> default_policy \<Rightarrow> default_policy" where
  "release_guard now sn p =
     (let p1 = (if heard_own OWN_EXTERNAL_SPEECH_TYPE sn then mark_realized p else p)
      in if dp_in_flight p1 \<and> expired now (dp_armed_at p1) then mark_realized p1 else p1)"

text \<open>The clock is read at the timeout and again when the guard is armed.\<close>

definition default_call ::
  "(pyval \<Rightarrow> string) \<Rightarrow> real \<Rightarrow> real \<Rightarrow> snapshot \<Rightarrow> default_policy \<Rightarrow> (py_exc + intent list) \<times> default_policy" where
  "default_call py_str now now_armed sn p =
     (let p1 = release_guard now sn p
      in if dp_in_flight p1 then (Inr [], p1)
         else case user_response_intent py_str (dp_operator_sources p1) (sn_selected sn) of
           Inl x \<Rightarrow> (Inl x, p1)
         | Inr None \<Rightarrow> (Inr [], p1)
         | Inr (Some i) \<Rightarrow> (Inr [i], p1\<lparr>dp_in_flight := True, dp_armed_at := Some now_armed\<rparr>))"

section \<open>Drive-led intents\<close>

definition STRONG_DRIVE_BAND :: real where "STRONG_DRIVE_BAND = 8 / 10"

definition FELT_DRIVE_PHRASES :: "string \<Rightarrow> (string \<times> string) option" where
  "FELT_DRIVE_PHRASES = map_of
     [(''social_drive'', (''I feel a pull towards company.'', ''I feel a strong pull towards company.'')),
      (''curiosity'', (''I feel curious.'', ''I feel absorbed in what I am learning.'')),
      (''boredom'', (''I feel bored.'', ''I feel heavily bored.'')),
      (''restlessness'', (''I feel restless.'', ''I feel very restless.''))]"

text \<open>The overflow of a huge integer is caught and reads as the moderate phrase.\<close>

definition felt_drive_phrase :: "string \<Rightarrow> pyval \<Rightarrow> string" where
  "felt_drive_phrase drive v =
     (case FELT_DRIVE_PHRASES drive of
        None \<Rightarrow> ''I feel a pull I cannot name.''
      | Some (moderate, strong) \<Rightarrow>
          (case finite_number v of
             Inr (Some x) \<Rightarrow> if x \<ge> STRONG_DRIVE_BAND then strong else moderate
           | _ \<Rightarrow> moderate))"

definition DRIVE_INTENT_KINDS :: "string \<Rightarrow> string option" where
  "DRIVE_INTENT_KINDS = map_of [(''social_drive'', SPEAK), (''curiosity'', THINK), (''boredom'', THINK), (''restlessness'', THINK)]"

definition drive_name :: "event \<Rightarrow> string option" where
  "drive_name e =
     (if ev_source e = ''affect'' \<and> ev_type e = ''affect.drive''
      then (case dget (ev_payload e) ''drive'' PNone of
              PStr n \<Rightarrow> if DRIVE_INTENT_KINDS n = None then None else Some n
            | _ \<Rightarrow> None)
      else None)"

definition felt_intent :: "string \<Rightarrow> string \<Rightarrow> string \<times> event \<Rightarrow> intent" where
  "felt_intent kind name x = Intent kind (felt_drive_phrase name (dget (ev_payload (snd x)) ''value'' PNone)) (fst x) ''felt''"

fun social_drive_speak :: "(string \<times> event) list \<Rightarrow> intent option" where
  "social_drive_speak [] = None"
| "social_drive_speak (x # xs) =
     (if \<not> is_own_speech (snd x) \<and> drive_name (snd x) = Some ''social_drive''
      then Some (felt_intent SPEAK ''social_drive'' x) else social_drive_speak xs)"

fun deliberative_drive_think :: "(string \<times> event) list \<Rightarrow> intent option" where
  "deliberative_drive_think [] = None"
| "deliberative_drive_think (x # xs) =
     (case (if is_own_speech (snd x) then None else drive_name (snd x)) of
        Some n \<Rightarrow> if DRIVE_INTENT_KINDS n = Some THINK then Some (felt_intent THINK n x) else deliberative_drive_think xs
      | None \<Rightarrow> deliberative_drive_think xs)"

record drive_policy =
  vp_speak :: bool
  vp_speak_at :: "real option"
  vp_think :: bool
  vp_think_at :: "real option"
  vp_operator_sources :: "string list"

text \<open>A guard without a time is stamped now; one past the timeout is released.\<close>

definition guard_timeout :: "real \<Rightarrow> bool \<times> real option \<Rightarrow> bool \<times> real option" where
  "guard_timeout now g =
     (case g of
        (False, t) \<Rightarrow> (False, t)
      | (True, None) \<Rightarrow> (True, Some now)
      | (True, Some t) \<Rightarrow> if now - t \<ge> GUARD_TIMEOUT_S then (False, None) else (True, Some t))"

definition drive_clear_guards :: "real \<Rightarrow> snapshot \<Rightarrow> drive_policy \<Rightarrow> drive_policy" where
  "drive_clear_guards now sn p =
     (let (s, sat) = guard_timeout now (vp_speak p, vp_speak_at p);
          (t, tat) = guard_timeout now (vp_think p, vp_think_at p);
          p1 = p\<lparr>vp_speak := s, vp_speak_at := sat, vp_think := t, vp_think_at := tat\<rparr>;
          p2 = (if heard_own OWN_EXTERNAL_SPEECH_TYPE sn then p1\<lparr>vp_speak := False, vp_speak_at := None\<rparr> else p1)
      in if heard_own OWN_INTERNAL_SPEECH_TYPE sn then p2\<lparr>vp_think := False, vp_think_at := None\<rparr> else p2)"

definition drive_mark_realized :: "drive_policy \<Rightarrow> drive_policy" where
  "drive_mark_realized p = p\<lparr>vp_speak := False, vp_speak_at := None\<rparr>"

definition drive_mark_think_realized :: "drive_policy \<Rightarrow> drive_policy" where
  "drive_mark_think_realized p = p\<lparr>vp_think := False, vp_think_at := None\<rparr>"

definition drive_note_external :: "string \<Rightarrow> real \<Rightarrow> drive_policy \<Rightarrow> drive_policy" where
  "drive_note_external kind now p =
     (if kind = SPEAK then p\<lparr>vp_speak := True, vp_speak_at := Some now\<rparr>
      else if kind = THINK then p\<lparr>vp_think := True, vp_think_at := Some now\<rparr> else p)"

definition the_list :: "'a option \<Rightarrow> 'a list" where
  "the_list x = (case x of None \<Rightarrow> [] | Some a \<Rightarrow> [a])"

text \<open>A raising utterance leaves the policy with its guards cleared and nothing formed.\<close>

definition drive_call ::
  "(pyval \<Rightarrow> string) \<Rightarrow> real \<Rightarrow> real \<Rightarrow> snapshot \<Rightarrow> drive_policy \<Rightarrow> (py_exc + intent list) \<times> drive_policy" where
  "drive_call py_str now now_armed sn p =
     (let p1 = drive_clear_guards now sn p
      in case (if vp_speak p1 then Inr None
               else ebind (user_response_intent py_str (vp_operator_sources p1) (sn_selected sn)) (\<lambda>r.
                 Inr (case r of Some i \<Rightarrow> Some i | None \<Rightarrow> social_drive_speak (sn_selected sn)))) of
           Inl x \<Rightarrow> (Inl x, p1)
         | Inr speak \<Rightarrow>
             let p2 = (case speak of None \<Rightarrow> p1 | Some _ \<Rightarrow> p1\<lparr>vp_speak := True, vp_speak_at := Some now_armed\<rparr>);
                 thought = (if vp_think p2 then None else deliberative_drive_think (sn_selected sn));
                 p3 = (case thought of None \<Rightarrow> p2 | Some _ \<Rightarrow> p2\<lparr>vp_think := True, vp_think_at := Some now_armed\<rparr>)
             in (Inr (the_list speak @ the_list thought), p3))"

section \<open>Self-initiated reports\<close>

record report_policy =
  rp_report :: real
  rp_think :: real
  rp_interrupt :: "real option"
  rp_speak_refractory :: real
  rp_think_refractory :: real
  rp_sig_expiry :: "real option"
  rp_felt :: bool
  rp_speak_flight :: bool
  rp_think_flight :: bool
  rp_speak_armed :: "real option"
  rp_think_armed :: "real option"
  rp_last_speak :: "real option"
  rp_last_think :: "real option"
  rp_last_sig :: "(string \<times> string) option"
  rp_sig_set :: "real option"

definition report_init ::
  "real \<Rightarrow> real \<Rightarrow> real option \<Rightarrow> real \<Rightarrow> real \<Rightarrow> real option \<Rightarrow> string \<Rightarrow> py_exc + report_policy" where
  "report_init report think interrupt speak_refr think_refr expiry style =
     (if style \<noteq> ''numeric'' \<and> style \<noteq> ''felt'' then Inl ValueError
      else if \<not> (0 \<le> think \<and> think \<le> report \<and> report \<le> 1) then Inl ValueError
      else if (case interrupt of None \<Rightarrow> False | Some i \<Rightarrow> \<not> (report < i \<and> i \<le> 1)) then Inl ValueError
      else if speak_refr < 0 \<or> think_refr < 0 then Inl ValueError
      else Inr \<lparr>rp_report = report, rp_think = think, rp_interrupt = interrupt,
             rp_speak_refractory = speak_refr, rp_think_refractory = think_refr, rp_sig_expiry = expiry,
             rp_felt = (style = ''felt''), rp_speak_flight = False, rp_think_flight = False,
             rp_speak_armed = None, rp_think_armed = None, rp_last_speak = None, rp_last_think = None,
             rp_last_sig = None, rp_sig_set = None\<rparr>)"

text \<open>\<open>now - t\<close> for a time that may be minus infinity, compared with a finite span.\<close>

definition elapsed_at_least :: "real \<Rightarrow> real \<Rightarrow> real option \<Rightarrow> bool" where
  "elapsed_at_least d now t = (case t of None \<Rightarrow> True | Some x \<Rightarrow> now - x \<ge> d)"

definition sig_blocks :: "report_policy \<Rightarrow> string \<times> string \<Rightarrow> real \<Rightarrow> bool" where
  "sig_blocks p sg now =
     (if Some sg \<noteq> rp_last_sig p then False
      else case rp_sig_expiry p of
        None \<Rightarrow> True
      | Some x \<Rightarrow> \<not> elapsed_at_least x now (rp_sig_set p))"

definition report_mark_realized :: "report_policy \<Rightarrow> report_policy" where
  "report_mark_realized p = p\<lparr>rp_speak_flight := False, rp_speak_armed := None\<rparr>"

definition report_mark_think_realized :: "report_policy \<Rightarrow> report_policy" where
  "report_mark_think_realized p = p\<lparr>rp_think_flight := False, rp_think_armed := None\<rparr>"

definition report_note_external :: "string \<Rightarrow> real \<Rightarrow> real \<Rightarrow> report_policy \<Rightarrow> report_policy" where
  "report_note_external kind now guard_now p =
     (if kind = SPEAK
      then p\<lparr>rp_speak_flight := True, rp_last_speak := Some now, rp_speak_armed := Some guard_now\<rparr>
      else if kind = THINK
      then p\<lparr>rp_think_flight := True, rp_last_think := Some now, rp_think_armed := Some guard_now\<rparr>
      else p)"

definition report_clear_guards :: "real \<Rightarrow> snapshot \<Rightarrow> report_policy \<Rightarrow> report_policy" where
  "report_clear_guards guard_now sn p =
     (let p1 = (if heard_own OWN_EXTERNAL_SPEECH_TYPE sn then report_mark_realized p else p);
          p2 = (if heard_own OWN_INTERNAL_SPEECH_TYPE sn then report_mark_think_realized p1 else p1);
          p3 = (if rp_speak_flight p2 \<and> expired guard_now (rp_speak_armed p2) then report_mark_realized p2 else p2)
      in if rp_think_flight p3 \<and> expired guard_now (rp_think_armed p3) then report_mark_think_realized p3 else p3)"

text \<open>\<open>wording\<close> gives the text of a report and, for the felt style, its values.\<close>

definition report_intent ::
  "(event \<Rightarrow> real \<Rightarrow> string \<times> pydict option) \<Rightarrow> string \<Rightarrow> bool \<Rightarrow> string \<times> event \<Rightarrow> real \<Rightarrow> intent" where
  "report_intent wording kind interrupt x surprise =
     (let (about, vals) = wording (snd x) surprise
      in (Intent kind about (fst x) ''event'')\<lparr>it_interrupt := interrupt, it_about_values := vals\<rparr>)"

definition score_in :: "snapshot \<Rightarrow> string \<times> event \<Rightarrow> real" where
  "score_in sn x = (case map_of (sn_scores sn) (fst x) of None \<Rightarrow> 0 | Some v \<Rightarrow> v)"

text \<open>The event a report is about: the best of the coalition, the entity's own speech left out.\<close>

definition report_lead :: "snapshot \<Rightarrow> (string \<times> event) option" where
  "report_lead sn =
     (case filter (\<lambda>x. \<not> is_own_speech (snd x)) (sn_selected sn) of
        [] \<Rightarrow> None
      | c # cs \<Rightarrow> Some (max_by (score_in sn) c cs))"

text \<open>The clock of the refractory times and the clock of the guards are read separately.\<close>

definition report_call ::
  "(event \<Rightarrow> real \<Rightarrow> string \<times> pydict option) \<Rightarrow> real \<Rightarrow> real \<Rightarrow> real \<Rightarrow> snapshot \<Rightarrow> report_policy \<Rightarrow>
   intent list \<times> report_policy" where
  "report_call wording now guard_now guard_armed sn p =
     (if sn_inhibited sn then ([], p)
      else
        let p1 = report_clear_guards guard_now sn p in
        case report_lead sn of
          None \<Rightarrow> ([], p1)
        | Some lead \<Rightarrow>
            let surprise = score_in sn lead;
                sg = (ev_source (snd lead), ev_type (snd lead));
                spoken = p1\<lparr>rp_speak_flight := True, rp_last_speak := Some now, rp_speak_armed := Some guard_armed,
                            rp_last_sig := Some sg, rp_sig_set := Some now\<rparr>
            in if (case rp_interrupt p1 of None \<Rightarrow> False | Some i \<Rightarrow> rp_speak_flight p1 \<and> surprise \<ge> i)
                  \<and> \<not> sig_blocks p1 sg now
               then ([report_intent wording SPEAK True lead surprise], spoken)
               else if surprise \<ge> rp_report p1 \<and> \<not> rp_speak_flight p1
                  \<and> elapsed_at_least (rp_speak_refractory p1) now (rp_last_speak p1) \<and> \<not> sig_blocks p1 sg now
               then ([report_intent wording SPEAK False lead surprise], spoken)
               else if surprise \<ge> rp_think p1 \<and> \<not> rp_think_flight p1
                  \<and> elapsed_at_least (rp_think_refractory p1) now (rp_last_think p1)
               then ([report_intent wording THINK False lead surprise],
                     p1\<lparr>rp_think_flight := True, rp_think_armed := Some guard_armed, rp_last_think := Some now\<rparr>)
               else ([], p1))"

section \<open>The drive-led act\<close>

text \<open>The wrapper's own state: the time of its last act.\<close>

record 'p stimulus_source =
  st_inner :: 'p
  st_min_interval :: real
  st_last_act :: "real option"

text \<open>Readings of the surroundings: development, readiness, the allowed actions, the draw.\<close>

record stimulus_env =
  se_developing :: "bool option"
  se_ready :: "bool option"
  se_allowed :: "string list"
  se_draw :: "nat \<Rightarrow> nat"
  se_now :: real

text \<open>A drive that cannot be hashed raises.\<close>

definition stimulus_intent :: "stimulus_env \<Rightarrow> snapshot \<Rightarrow> 'p stimulus_source \<Rightarrow>
   (py_exc + intent option) \<times> 'p stimulus_source" where
  "stimulus_intent env sn s =
     (if sn_inhibited sn then (Inr None, s)
      else if se_developing env = Some True then (Inr None, s)
      else case sn_selected sn of
        [] \<Rightarrow> (Inr None, s)
      | c # cs \<Rightarrow>
          let lead = max_by (score_in sn) c cs; e = snd lead in
          if ev_source e \<noteq> ''affect'' \<or> ev_type e \<noteq> ''affect.drive'' then (Inr None, s)
          else case dget (ev_payload e) ''drive'' PNone of
            PStr drive \<Rightarrow>
              if drive \<noteq> ''boredom'' \<and> drive \<noteq> ''restlessness'' then (Inr None, s)
              else if \<not> elapsed_at_least (st_min_interval s) (se_now env) (st_last_act s) then (Inr None, s)
              else if se_ready env = Some False then (Inr None, s)
              else let allowed = filter (\<lambda>a. a \<noteq> ''pause'') (se_allowed env) in
                if allowed = [] then (Inr None, s)
                else (Inr (Some ((Intent ACT drive (fst lead) ''felt'')
                        \<lparr>it_effector := Some ''stimulus'',
                         it_params := [(''action'', PStr (allowed ! se_draw env (length allowed)))],
                         it_origin := Some ''stimulus_stage_m''\<rparr>)),
                      s\<lparr>st_last_act := Some (se_now env)\<rparr>)
          | PList _ \<Rightarrow> (Inl TypeError, s)
          | PDict _ \<Rightarrow> (Inl TypeError, s)
          | _ \<Rightarrow> (Inr None, s))"

definition stimulus_call ::
  "(snapshot \<Rightarrow> 'p \<Rightarrow> (py_exc + intent list) \<times> 'p) \<Rightarrow> stimulus_env \<Rightarrow> snapshot \<Rightarrow> 'p stimulus_source \<Rightarrow>
   (py_exc + intent list) \<times> 'p stimulus_source" where
  "stimulus_call inner env sn s =
     (case inner sn (st_inner s) of
        (Inl x, p) \<Rightarrow> (Inl x, s\<lparr>st_inner := p\<rparr>)
      | (Inr is, p) \<Rightarrow>
          (case stimulus_intent env sn (s\<lparr>st_inner := p\<rparr>) of
             (Inl x, s') \<Rightarrow> (Inl x, s')
           | (Inr oi, s') \<Rightarrow> (Inr (is @ the_list oi), s')))"

section \<open>Action selection\<close>

record ('p, 'k) action_selection =
  as_policy :: 'p
  as_signer :: "'k signer option"

text \<open>Only act intents are signed; a raise of the signer propagates.\<close>

definition sign_intent :: "'k mac \<Rightarrow> intent \<Rightarrow> 'k signer option \<Rightarrow> (py_exc + intent) \<times> 'k signer option" where
  "sign_intent mac i os =
     (case os of
        None \<Rightarrow> (Inr i, None)
      | Some s \<Rightarrow>
          if it_kind i \<noteq> ACT then (Inr i, os)
          else (case sign mac (it_kind i) (case it_effector i of None \<Rightarrow> [] | Some e \<Rightarrow> e) (PDict (it_params i)) s of
            (Inl x, s') \<Rightarrow> (Inl x, Some s')
          | (Inr (r, n, g), s') \<Rightarrow>
              (Inr (i\<lparr>it_run_id := Some r, it_seq := Some (int n), it_sig := Some g\<rparr>), Some s')))"

fun sign_intents :: "'k mac \<Rightarrow> intent list \<Rightarrow> 'k signer option \<Rightarrow> (py_exc + intent list) \<times> 'k signer option" where
  "sign_intents mac [] os = (Inr [], os)"
| "sign_intents mac (i # is) os =
     (case sign_intent mac i os of
        (Inl x, os1) \<Rightarrow> (Inl x, os1)
      | (Inr j, os1) \<Rightarrow>
          (case sign_intents mac is os1 of
             (Inl x, os2) \<Rightarrow> (Inl x, os2)
           | (Inr js, os2) \<Rightarrow> (Inr (j # js), os2)))"

text \<open>
  The inhibition gate comes first: the policy is not called, only its optional hook observes the
  inhibited snapshot (\<open>hook\<close>). A raising policy forms no intents.
\<close>

definition as_select ::
  "'k mac \<Rightarrow> (snapshot \<Rightarrow> 'p \<Rightarrow> 'p) \<Rightarrow> (snapshot \<Rightarrow> 'p \<Rightarrow> (py_exc + intent list) \<times> 'p) \<Rightarrow> snapshot \<Rightarrow>
   ('p, 'k) action_selection \<Rightarrow> (py_exc + intent list) \<times> ('p, 'k) action_selection" where
  "as_select mac hook call sn a =
     (if sn_inhibited sn then (Inr [], a\<lparr>as_policy := hook sn (as_policy a)\<rparr>)
      else case call sn (as_policy a) of
        (Inl _, p) \<Rightarrow> (Inr [], a\<lparr>as_policy := p\<rparr>)
      | (Inr is, p) \<Rightarrow>
          (case sign_intents mac is (as_signer a) of
             (r, os) \<Rightarrow> (r, \<lparr>as_policy = p, as_signer = os\<rparr>)))"

section \<open>One utterance at a time\<close>

definition plain_speak :: "intent \<Rightarrow> bool" where
  "plain_speak i \<longleftrightarrow> it_kind i = SPEAK \<and> \<not> it_interrupt i"

text \<open>The plain utterances of a run of calls, and whether one was released on the way.\<close>

fun spoken :: "('t \<Rightarrow> snapshot \<Rightarrow> 'p \<Rightarrow> (py_exc + intent list) \<times> 'p) \<Rightarrow> ('t \<times> snapshot) list \<Rightarrow> 'p \<Rightarrow> intent list" where
  "spoken call [] p = []"
| "spoken call ((t, sn) # xs) p =
     (case call t sn p of
        (Inl _, p') \<Rightarrow> spoken call xs p'
      | (Inr is, p') \<Rightarrow> filter plain_speak is @ spoken call xs p')"

fun never_released :: "('t \<Rightarrow> snapshot \<Rightarrow> 'p \<Rightarrow> 'r \<times> 'p) \<Rightarrow> ('p \<Rightarrow> bool) \<Rightarrow> ('t \<Rightarrow> snapshot \<Rightarrow> 'p \<Rightarrow> bool) \<Rightarrow>
  ('t \<times> snapshot) list \<Rightarrow> 'p \<Rightarrow> bool" where
  "never_released call busy released [] p = True"
| "never_released call busy released ((t, sn) # xs) p \<longleftrightarrow>
     \<not> (busy p \<and> released t sn p) \<and> never_released call busy released xs (snd (call t sn p))"

text \<open>
  The contract of a policy with a speak guard: \<open>call\<close> is given its readings of the clock and the
  snapshot, \<open>busy\<close> is the guard, \<open>released\<close> says that the readings and the snapshot end the
  utterance in flight.
\<close>

locale speak_guard =
  fixes call :: "'t \<Rightarrow> snapshot \<Rightarrow> 'p \<Rightarrow> (py_exc + intent list) \<times> 'p"
    and busy :: "'p \<Rightarrow> bool"
    and released :: "'t \<Rightarrow> snapshot \<Rightarrow> 'p \<Rightarrow> bool"
  assumes one_speak: "call t sn p = (Inr is, p') \<Longrightarrow> length (filter plain_speak is) \<le> 1"
    and speak_arms: "call t sn p = (Inr is, p') \<Longrightarrow> i \<in> set is \<Longrightarrow> plain_speak i \<Longrightarrow> busy p'"
    and busy_silent: "busy p \<Longrightarrow> \<not> released t sn p \<Longrightarrow> call t sn p = (Inr is, p') \<Longrightarrow> i \<in> set is \<Longrightarrow> \<not> plain_speak i"
    and busy_stays: "busy p \<Longrightarrow> \<not> released t sn p \<Longrightarrow> call t sn p = (r, p') \<Longrightarrow> busy p'"
begin

lemma busy_run_silent: "busy p \<Longrightarrow> never_released call busy released xs p \<Longrightarrow> spoken call xs p = []"
proof (induction xs arbitrary: p)
  case (Cons x xs)
  obtain t sn where x: "x = (t, sn)" by fastforce
  obtain r p' where c: "call t sn p = (r, p')" by fastforce
  have n: "\<not> released t sn p" and "never_released call busy released xs p'" using Cons.prems x c by auto
  moreover have "busy p'" using busy_stays [OF Cons.prems(1) n c] .
  ultimately have s: "spoken call xs p' = []" using Cons.IH by blast
  show ?case
  proof (cases r)
    case (Inr "is")
    with busy_silent [OF Cons.prems(1) n] c have "filter plain_speak is = []" by (auto simp: filter_empty_conv)
    with x c Inr s show ?thesis by simp
  qed (use x c s in simp)
qed simp

lemma one_utterance: "never_released call busy released xs p \<Longrightarrow> length (spoken call xs p) \<le> 1"
proof (induction xs arbitrary: p)
  case (Cons x xs)
  obtain t sn where x: "x = (t, sn)" by fastforce
  obtain r p' where c: "call t sn p = (r, p')" by fastforce
  have n: "never_released call busy released xs p'" using Cons.prems x c by simp
  show ?case
  proof (cases r)
    case (Inl e)
    with x c Cons.IH [OF n] show ?thesis by simp
  next
    case (Inr "is")
    show ?thesis
    proof (cases "filter plain_speak is = []")
      case True
      with x c Inr Cons.IH [OF n] show ?thesis by simp
    next
      case False
      then obtain i where "i \<in> set is" "plain_speak i" by (auto simp: filter_empty_conv)
      with speak_arms c Inr have "busy p'" by blast
      with busy_run_silent n have "spoken call xs p' = []" by blast
      with one_speak c Inr x show ?thesis by simp
    qed
  qed
qed simp

end

lemma kinds_distinct [simp]: "SPEAK \<noteq> THINK" "THINK \<noteq> SPEAK" "SPEAK \<noteq> ACT" "ACT \<noteq> SPEAK" "THINK \<noteq> ACT" "ACT \<noteq> THINK"
  by (simp_all add: SPEAK_def THINK_def ACT_def)

lemma Intent_fields [simp]: "it_kind (Intent k a i b) = k" "it_interrupt (Intent k a i b) = False"
  by (simp_all add: Intent_def)

definition default_released :: "real \<times> real \<Rightarrow> snapshot \<Rightarrow> default_policy \<Rightarrow> bool" where
  "default_released t sn p \<longleftrightarrow> heard_own OWN_EXTERNAL_SPEECH_TYPE sn \<or> expired (fst t) (dp_armed_at p)"

interpretation default_guard: speak_guard "\<lambda>t. default_call py_str (fst t) (snd t)" dp_in_flight default_released for py_str
  by unfold_locales
    (auto simp: default_call_def release_guard_def mark_realized_def default_released_def Let_def plain_speak_def
      split: sum.splits option.splits if_splits)

lemma social_intent: "social_drive_speak xs = Some i \<Longrightarrow> it_kind i = SPEAK \<and> \<not> it_interrupt i"
  by (induction xs rule: social_drive_speak.induct) (auto simp: felt_intent_def split: if_splits)

lemma response_intent: "user_response_intent py_str src xs = Inr (Some i) \<Longrightarrow> it_kind i = SPEAK \<and> \<not> it_interrupt i"
  by (induction py_str src xs rule: user_response_intent.induct) (auto split: if_splits option.splits)

lemma thought_intent: "deliberative_drive_think xs = Some i \<Longrightarrow> it_kind i = THINK"
  by (induction xs rule: deliberative_drive_think.induct) (auto simp: felt_intent_def split: if_splits option.splits)

definition drive_released :: "real \<times> real \<Rightarrow> snapshot \<Rightarrow> drive_policy \<Rightarrow> bool" where
  "drive_released t sn p \<longleftrightarrow> heard_own OWN_EXTERNAL_SPEECH_TYPE sn \<or>
     (\<exists>a. vp_speak_at p = Some a \<and> fst t - a \<ge> GUARD_TIMEOUT_S)"

lemma drive_clear_speak:
  "vp_speak (drive_clear_guards now sn p) \<longleftrightarrow> vp_speak p \<and> \<not> heard_own OWN_EXTERNAL_SPEECH_TYPE sn \<and>
     (\<forall>a. vp_speak_at p = Some a \<longrightarrow> now - a < GUARD_TIMEOUT_S)"
  by (auto simp: drive_clear_guards_def Let_def guard_timeout_def split: prod.splits bool.splits option.splits if_splits)

lemma the_list_simps [simp]: "the_list None = []" "the_list (Some x) = [x]"
  by (simp_all add: the_list_def)

text \<open>What a call of the drive policy forms: at most one utterance and one thought.\<close>

lemma drive_call_cases:
  assumes "drive_call py_str now armed sn p = (r, p')"
  shows "(\<exists>x. r = Inl x \<and> p' = drive_clear_guards now sn p) \<or>
    (\<exists>s th. r = Inr (the_list s @ the_list th) \<and>
      vp_speak p' = (vp_speak (drive_clear_guards now sn p) \<or> s \<noteq> None) \<and>
      (vp_speak (drive_clear_guards now sn p) \<longrightarrow> s = None) \<and>
      (\<forall>i. s = Some i \<longrightarrow> plain_speak i) \<and> (\<forall>i. th = Some i \<longrightarrow> it_kind i = THINK))"
proof -
  define p1 where "p1 = drive_clear_guards now sn p"
  define m where "m = (if vp_speak p1 then Inr None
               else ebind (user_response_intent py_str (vp_operator_sources p1) (sn_selected sn)) (\<lambda>r.
                 Inr (case r of Some i \<Rightarrow> Some i | None \<Rightarrow> social_drive_speak (sn_selected sn))))"
  show ?thesis
  proof (cases m)
    case (Inl x)
    then have "r = Inl x" "p' = p1"
      using assms by (simp_all add: drive_call_def Let_def p1_def [symmetric] m_def [symmetric])
    then show ?thesis by (simp add: p1_def)
  next
    case (Inr s)
    have "(vp_speak p1 \<longrightarrow> s = None) \<and> (\<forall>i. s = Some i \<longrightarrow> plain_speak i)"
      using Inr response_intent social_intent unfolding m_def plain_speak_def
      by (auto split: if_splits option.splits)
    moreover define p2 where "p2 = (case s of None \<Rightarrow> p1 | Some _ \<Rightarrow> p1\<lparr>vp_speak := True, vp_speak_at := Some armed\<rparr>)"
    moreover define th where "th = (if vp_think p2 then None else deliberative_drive_think (sn_selected sn))"
    moreover have "\<forall>i. th = Some i \<longrightarrow> it_kind i = THINK" using thought_intent by (simp add: th_def)
    moreover have "r = Inr (the_list s @ the_list th)"
      "p' = (case th of None \<Rightarrow> p2 | Some _ \<Rightarrow> p2\<lparr>vp_think := True, vp_think_at := Some armed\<rparr>)"
      using assms Inr by (simp_all add: drive_call_def Let_def p1_def [symmetric] m_def [symmetric] p2_def [symmetric] th_def)
    moreover from calculation have "vp_speak p' = (vp_speak p1 \<or> s \<noteq> None)" by (simp split: option.splits)
    ultimately show ?thesis unfolding p1_def [symmetric] by (intro disjI2 exI [of _ s] exI [of _ th]) blast
  qed
qed

lemma drive_call_Inr:
  assumes "drive_call py_str now armed sn p = (Inr is, p')"
  obtains s th where "is = the_list s @ the_list th"
    "vp_speak p' = (vp_speak (drive_clear_guards now sn p) \<or> s \<noteq> None)"
    "vp_speak (drive_clear_guards now sn p) \<Longrightarrow> s = None"
    "\<And>i. s = Some i \<Longrightarrow> plain_speak i" "\<And>i. th = Some i \<Longrightarrow> \<not> plain_speak i"
proof -
  from drive_call_cases [OF assms] obtain s th where "is = the_list s @ the_list th"
    "vp_speak p' = (vp_speak (drive_clear_guards now sn p) \<or> s \<noteq> None)"
    "vp_speak (drive_clear_guards now sn p) \<longrightarrow> s = None"
    "\<forall>i. s = Some i \<longrightarrow> plain_speak i" "\<forall>i. th = Some i \<longrightarrow> it_kind i = THINK" by blast
  then show ?thesis by (intro that [of s th]) (auto simp: plain_speak_def)
qed

interpretation drive_guard: speak_guard "\<lambda>t. drive_call py_str (fst t) (snd t)" vp_speak drive_released for py_str
proof
  fix t sn p "is" and p' :: drive_policy
  assume "drive_call py_str (fst t) (snd t) sn p = (Inr is, p')"
  then show "length (filter plain_speak is) \<le> 1"
  proof (cases rule: drive_call_Inr)
    case (1 s th)
    then show ?thesis by (cases s; cases th) auto
  qed
next
  fix t sn p "is" i and p' :: drive_policy
  assume "drive_call py_str (fst t) (snd t) sn p = (Inr is, p')" and i: "i \<in> set is" "plain_speak i"
  then show "vp_speak p'"
  proof (cases rule: drive_call_Inr)
    case (1 s th)
    with i show ?thesis by (cases s; cases th) auto
  qed
next
  fix t sn p "is" i and p' :: drive_policy
  assume b: "vp_speak p" "\<not> drive_released t sn p" and "drive_call py_str (fst t) (snd t) sn p = (Inr is, p')"
    and i: "i \<in> set is"
  then have "vp_speak (drive_clear_guards (fst t) sn p)" by (auto simp: drive_clear_speak drive_released_def not_le)
  with \<open>drive_call py_str (fst t) (snd t) sn p = (Inr is, p')\<close> show "\<not> plain_speak i"
  proof (cases rule: drive_call_Inr)
    case (1 s th)
    with \<open>vp_speak (drive_clear_guards (fst t) sn p)\<close> i show ?thesis by (cases th) auto
  qed
next
  fix t sn p r and p' :: drive_policy
  assume "vp_speak p" "\<not> drive_released t sn p" and c: "drive_call py_str (fst t) (snd t) sn p = (r, p')"
  then have "vp_speak (drive_clear_guards (fst t) sn p)" by (auto simp: drive_clear_speak drive_released_def not_le)
  with drive_call_cases [OF c] show "vp_speak p'" by blast
qed

lemma report_intent_fields [simp]:
  "it_kind (report_intent w k b x s) = k" "it_interrupt (report_intent w k b x s) = b"
  "it_entry_id (report_intent w k b x s) = (if fst x = [] then None else Some (fst x))"
  by (simp_all add: report_intent_def Intent_def split: prod.splits)

lemma max_by_ge: "y \<in> insert b (set xs) \<Longrightarrow> f y \<le> f (max_by f b xs)"
proof (induction xs arbitrary: b y)
  case (Cons x xs)
  let ?b = "if f x > f b then x else b"
  have "f ?b \<le> f (max_by f ?b xs)" using Cons.IH [of ?b ?b] by simp
  moreover have "f x \<le> f ?b" "f b \<le> f ?b" by auto
  ultimately have "f x \<le> f (max_by f ?b xs)" "f b \<le> f (max_by f ?b xs)" by linarith+
  then show ?case using Cons.prems Cons.IH [of y ?b] by auto
qed simp

lemma report_lead_best:
  assumes "report_lead sn = Some x"
  shows "x \<in> set (sn_selected sn)" "\<not> is_own_speech (snd x)"
    "\<And>y. y \<in> set (sn_selected sn) \<Longrightarrow> \<not> is_own_speech (snd y) \<Longrightarrow> score_in sn y \<le> score_in sn x"
proof -
  obtain c cs where f: "filter (\<lambda>x. \<not> is_own_speech (snd x)) (sn_selected sn) = c # cs"
    and x: "x = max_by (score_in sn) c cs"
    using assms by (auto simp: report_lead_def split: list.splits)
  have "x \<in> set (c # cs)" using max_by_mem [of "score_in sn" c cs] unfolding x by simp
  then have "x \<in> set (filter (\<lambda>x. \<not> is_own_speech (snd x)) (sn_selected sn))" by (simp only: f)
  then show "x \<in> set (sn_selected sn)" "\<not> is_own_speech (snd x)" by simp_all
  fix y assume "y \<in> set (sn_selected sn)" "\<not> is_own_speech (snd y)"
  then have "y \<in> set (filter (\<lambda>x. \<not> is_own_speech (snd x)) (sn_selected sn))" by simp
  then have "y \<in> set (c # cs)" by (simp only: f)
  then show "score_in sn y \<le> score_in sn x" using max_by_ge [of y c cs "score_in sn"] unfolding x by simp
qed

lemma report_clear_fields [simp]:
  "rp_interrupt (report_clear_guards g sn p) = rp_interrupt p" "rp_report (report_clear_guards g sn p) = rp_report p"
  "rp_think (report_clear_guards g sn p) = rp_think p" "rp_last_speak (report_clear_guards g sn p) = rp_last_speak p"
  "rp_last_think (report_clear_guards g sn p) = rp_last_think p"
  "rp_speak_refractory (report_clear_guards g sn p) = rp_speak_refractory p"
  "rp_think_refractory (report_clear_guards g sn p) = rp_think_refractory p"
  "rp_sig_expiry (report_clear_guards g sn p) = rp_sig_expiry p"
  by (simp_all add: report_clear_guards_def report_mark_realized_def report_mark_think_realized_def Let_def)

lemma report_clear_speak:
  "rp_speak_flight (report_clear_guards g sn p) \<longleftrightarrow>
     rp_speak_flight p \<and> \<not> heard_own OWN_EXTERNAL_SPEECH_TYPE sn \<and> \<not> expired g (rp_speak_armed p)"
  by (auto simp: report_clear_guards_def report_mark_realized_def report_mark_think_realized_def Let_def)

text \<open>The four outcomes of a call of the report policy.\<close>

lemma report_call_cases [consumes 1, case_names silent interrupt speak think]:
  assumes "report_call w now g ga sn p = (is, p')"
  obtains "is = []" "p' = (if sn_inhibited sn then p else report_clear_guards g sn p)"
  | x b where "\<not> sn_inhibited sn" "report_lead sn = Some x" "is = [report_intent w SPEAK True x (score_in sn x)]"
      "rp_interrupt p = Some b" "b \<le> score_in sn x" "rp_speak_flight (report_clear_guards g sn p)"
      "p' = (report_clear_guards g sn p)\<lparr>rp_speak_flight := True, rp_last_speak := Some now, rp_speak_armed := Some ga,
              rp_last_sig := Some (ev_source (snd x), ev_type (snd x)), rp_sig_set := Some now\<rparr>"
  | x where "\<not> sn_inhibited sn" "report_lead sn = Some x" "is = [report_intent w SPEAK False x (score_in sn x)]"
      "rp_report p \<le> score_in sn x" "\<not> rp_speak_flight (report_clear_guards g sn p)"
      "elapsed_at_least (rp_speak_refractory p) now (rp_last_speak p)"
      "p' = (report_clear_guards g sn p)\<lparr>rp_speak_flight := True, rp_last_speak := Some now, rp_speak_armed := Some ga,
              rp_last_sig := Some (ev_source (snd x), ev_type (snd x)), rp_sig_set := Some now\<rparr>"
  | x where "\<not> sn_inhibited sn" "report_lead sn = Some x" "is = [report_intent w THINK False x (score_in sn x)]"
      "rp_think p \<le> score_in sn x" "\<not> rp_think_flight (report_clear_guards g sn p)"
      "elapsed_at_least (rp_think_refractory p) now (rp_last_think p)"
      "p' = (report_clear_guards g sn p)\<lparr>rp_think_flight := True, rp_think_armed := Some ga, rp_last_think := Some now\<rparr>"
proof (cases "sn_inhibited sn")
  case True
  then show ?thesis using assms that(1) by (simp add: report_call_def)
next
  case False
  note n = this
  define p1 where "p1 = report_clear_guards g sn p"
  show ?thesis
  proof (cases "report_lead sn")
    case None
    then show ?thesis using assms that(1) n by (simp add: report_call_def)
  next
    case (Some x)
    let ?s = "score_in sn x" and ?sg = "(ev_source (snd x), ev_type (snd x))"
    let ?said = "p1\<lparr>rp_speak_flight := True, rp_last_speak := Some now, rp_speak_armed := Some ga,
      rp_last_sig := Some ?sg, rp_sig_set := Some now\<rparr>"
    define cut where "cut \<longleftrightarrow>
      (case rp_interrupt p1 of None \<Rightarrow> False | Some i \<Rightarrow> rp_speak_flight p1 \<and> ?s \<ge> i) \<and> \<not> sig_blocks p1 ?sg now"
    define say where "say \<longleftrightarrow> ?s \<ge> rp_report p1 \<and> \<not> rp_speak_flight p1
      \<and> elapsed_at_least (rp_speak_refractory p1) now (rp_last_speak p1) \<and> \<not> sig_blocks p1 ?sg now"
    define mull where "mull \<longleftrightarrow> ?s \<ge> rp_think p1 \<and> \<not> rp_think_flight p1
      \<and> elapsed_at_least (rp_think_refractory p1) now (rp_last_think p1)"
    have call: "(is, p') = (if cut then ([report_intent w SPEAK True x ?s], ?said)
      else if say then ([report_intent w SPEAK False x ?s], ?said)
      else if mull then ([report_intent w THINK False x ?s],
        p1\<lparr>rp_think_flight := True, rp_think_armed := Some ga, rp_last_think := Some now\<rparr>)
      else ([], p1))"
      using assms n Some unfolding report_call_def Let_def p1_def cut_def say_def mull_def by simp
    consider "cut" | "\<not> cut" "say" | "\<not> cut" "\<not> say" "mull" | "\<not> cut" "\<not> say" "\<not> mull" by blast
    then show ?thesis
    proof cases
      case 1
      then obtain b where "rp_interrupt p1 = Some b" "rp_speak_flight p1" "b \<le> ?s"
        by (auto simp: cut_def split: option.splits)
      then show ?thesis using call 1 n Some by (intro that(2) [of x b]) (simp_all add: p1_def)
    next
      case 2
      then show ?thesis using call n Some by (intro that(3) [of x]) (simp_all add: p1_def say_def)
    next
      case 3
      then show ?thesis using call n Some by (intro that(4) [of x]) (simp_all add: p1_def mull_def)
    next
      case 4
      then show ?thesis using call n by (intro that(1)) (simp_all add: p1_def)
    qed
  qed
qed

definition report_released :: "real \<times> real \<times> real \<Rightarrow> snapshot \<Rightarrow> report_policy \<Rightarrow> bool" where
  "report_released t sn p \<longleftrightarrow> heard_own OWN_EXTERNAL_SPEECH_TYPE sn \<or> expired (fst (snd t)) (rp_speak_armed p)"

text \<open>The report policy never raises; its calls in the form the other policies have.\<close>

definition report_step ::
  "(event \<Rightarrow> real \<Rightarrow> string \<times> pydict option) \<Rightarrow> real \<times> real \<times> real \<Rightarrow> snapshot \<Rightarrow> report_policy \<Rightarrow>
   (py_exc + intent list) \<times> report_policy" where
  "report_step w t sn p = (case report_call w (fst t) (fst (snd t)) (snd (snd t)) sn p of (is, p') \<Rightarrow> (Inr is, p'))"

lemma report_step_iff [simp]:
  "report_step w t sn p = (r, p') \<longleftrightarrow> (\<exists>is. r = Inr is \<and> report_call w (fst t) (fst (snd t)) (snd (snd t)) sn p = (is, p'))"
  by (auto simp: report_step_def split: prod.splits)

interpretation report_guard: speak_guard "report_step w" rp_speak_flight report_released for w
proof
  fix t sn p "is" and p' :: report_policy
  assume "report_step w t sn p = (Inr is, p')"
  then have "report_call w (fst t) (fst (snd t)) (snd (snd t)) sn p = (is, p')" by simp
  then show "length (filter plain_speak is) \<le> 1" by (cases rule: report_call_cases) simp_all
next
  fix t sn p "is" i and p' :: report_policy
  assume "report_step w t sn p = (Inr is, p')" and i: "i \<in> set is" "plain_speak i"
  then have "report_call w (fst t) (fst (snd t)) (snd (snd t)) sn p = (is, p')" by simp
  then show "rp_speak_flight p'" using i by (cases rule: report_call_cases) (simp_all add: plain_speak_def)
next
  fix t sn p "is" i and p' :: report_policy
  assume b: "rp_speak_flight p" "\<not> report_released t sn p" and "report_step w t sn p = (Inr is, p')" and i: "i \<in> set is"
  then have "report_call w (fst t) (fst (snd t)) (snd (snd t)) sn p = (is, p')" by simp
  moreover have "rp_speak_flight (report_clear_guards (fst (snd t)) sn p)"
    using b by (simp add: report_clear_speak report_released_def)
  ultimately show "\<not> plain_speak i" using i by (cases rule: report_call_cases) (simp_all add: plain_speak_def)
next
  fix t sn p r and p' :: report_policy
  assume b: "rp_speak_flight p" "\<not> report_released t sn p" and "report_step w t sn p = (r, p')"
  then obtain "is" where "report_call w (fst t) (fst (snd t)) (snd (snd t)) sn p = (is, p')" by auto
  moreover have "rp_speak_flight (report_clear_guards (fst (snd t)) sn p)"
    using b by (simp add: report_clear_speak report_released_def)
  ultimately show "rp_speak_flight p'" using b by (cases rule: report_call_cases) simp_all
qed

section \<open>Reports are apart\<close>

text \<open>The times, on the clock of the refractory spans, of the plain reports of a run.\<close>

fun report_times ::
  "(event \<Rightarrow> real \<Rightarrow> string \<times> pydict option) \<Rightarrow> ((real \<times> real \<times> real) \<times> snapshot) list \<Rightarrow> report_policy \<Rightarrow> real list" where
  "report_times w [] p = []"
| "report_times w (((now, g, ga), sn) # xs) p =
     (case report_call w now g ga sn p of
        (is, p') \<Rightarrow> (if list_ex plain_speak is then [now] else []) @ report_times w xs p')"

lemma report_call_keeps:
  assumes "report_call w now g ga sn p = (is, p')"
  shows "rp_speak_refractory p' = rp_speak_refractory p"
    "rp_last_speak p' = rp_last_speak p \<or> rp_last_speak p' = Some now"
    "list_ex plain_speak is \<Longrightarrow> elapsed_at_least (rp_speak_refractory p) now (rp_last_speak p) \<and> rp_last_speak p' = Some now"
  using assms by (cases rule: report_call_cases; simp add: plain_speak_def)+

lemma report_times_apart:
  assumes "sorted (map (fst \<circ> fst) xs)" "0 \<le> rp_speak_refractory p"
    "\<forall>l. rp_last_speak p = Some l \<longrightarrow> (\<forall>x \<in> set xs. l \<le> fst (fst x))"
  shows "sorted_wrt (\<lambda>a b. rp_speak_refractory p \<le> b - a) (report_times w xs p) \<and>
    (\<forall>t \<in> set (report_times w xs p). elapsed_at_least (rp_speak_refractory p) t (rp_last_speak p))"
  using assms
proof (induction xs arbitrary: p)
  case (Cons x xs)
  obtain now g ga sn where x: "x = ((now, g, ga), sn)" by (metis prod.exhaust)
  obtain "is" p' where c: "report_call w now g ga sn p = (is, p')" by fastforce
  note k = report_call_keeps [OF c]
  let ?d = "rp_speak_refractory p"
  have "\<forall>l. rp_last_speak p' = Some l \<longrightarrow> (\<forall>y \<in> set xs. l \<le> fst (fst y))"
    using k(2) Cons.prems(1,3) x by auto
  then have later: "sorted_wrt (\<lambda>a b. ?d \<le> b - a) (report_times w xs p')"
    "\<forall>t \<in> set (report_times w xs p'). elapsed_at_least ?d t (rp_last_speak p')"
    using Cons.IH [of p'] Cons.prems(1,2) k(1) by simp_all
  have further: "elapsed_at_least ?d t (rp_last_speak p)" if "elapsed_at_least ?d t (rp_last_speak p')" for t
    using that k(2) Cons.prems(3) x by (fastforce simp: elapsed_at_least_def split: option.splits)
  show ?case
  proof (cases "list_ex plain_speak is")
    case True
    with k(3) have "elapsed_at_least ?d now (rp_last_speak p)" "rp_last_speak p' = Some now" by simp_all
    with True later further show ?thesis by (auto simp: x c elapsed_at_least_def)
  next
    case False
    with later further show ?thesis by (simp add: x c)
  qed
qed simp

text \<open>
  The self-initiated reports are refractory: with a clock that does not go back, any two plain
  reports of a run from a fresh policy are at least the speaking refractory span apart, whatever
  is selected, however surprising it is, and whether interrupting reports fall between.
\<close>

theorem reports_are_refractory_apart:
  assumes "report_init report think interrupt speak_refr think_refr expiry style = Inr p"
    and "sorted (map (fst \<circ> fst) xs)"
  shows "sorted_wrt (\<lambda>a b. speak_refr \<le> b - a) (report_times w xs p)"
proof -
  from assms(1) have "rp_speak_refractory p = speak_refr" "0 \<le> speak_refr" "rp_last_speak p = None"
    by (auto simp: report_init_def not_less split: if_splits)
  with report_times_apart [OF assms(2), of p w] show ?thesis by simp
qed

definition sn_surprise :: "real \<Rightarrow> snapshot" where
  "sn_surprise s = \<lparr>sn_tick = 1,
     sn_selected = [(''1-0'', \<lparr>ev_source = ''vision'', ev_type = ''vision.seen'', ev_payload = [], ev_salience = s,
                       ev_timestamp = 0, ev_parent = None\<rparr>)],
     sn_inhibited = False, sn_experiential = True, sn_scores = [(''1-0'', s)], sn_metadata = [], sn_published_at = None\<rparr>"

definition fresh_report :: report_policy where
  "fresh_report = \<lparr>rp_report = 6 / 10, rp_think = 45 / 100, rp_interrupt = None, rp_speak_refractory = 8,
     rp_think_refractory = 3, rp_sig_expiry = None, rp_felt = False, rp_speak_flight = False, rp_think_flight = False,
     rp_speak_armed = None, rp_think_armed = None, rp_last_speak = None, rp_last_think = None, rp_last_sig = None,
     rp_sig_set = None\<rparr>"

lemma fresh_report_init: "report_init (6 / 10) (45 / 100) None 8 3 None ''numeric'' = Inr fresh_report"
  by (simp add: report_init_def fresh_report_def)

lemma reports_are_refractory_apart_witness:
  "sorted_wrt (\<lambda>a b. 8 \<le> b - a)
     (report_times (\<lambda>_ _. ([], None)) [((0, 0, 0), sn_surprise 1), ((4, 4, 4), sn_surprise 1)] fresh_report)"
  by (rule reports_are_refractory_apart [OF fresh_report_init]) simp

text \<open>
  What a report is about: a call that forms an intent forms exactly this one, on an open snapshot,
  about a selected event that is not the entity's own speech and that no other such event outscores.
  A plain report has reached the report bar with no utterance in flight, an interrupting one the
  interrupt bar with one in flight, a thought the thinking bar.
\<close>

theorem reports_respect_their_bars:
  assumes "report_call w now g ga sn p = (is, p')" and "i \<in> set is"
  shows "is = [i] \<and> \<not> sn_inhibited sn \<and>
    (\<exists>x \<in> set (sn_selected sn). \<not> is_own_speech (snd x) \<and>
       (\<forall>y \<in> set (sn_selected sn). is_own_speech (snd y) \<or> score_in sn y \<le> score_in sn x) \<and>
       (plain_speak i \<and> rp_report p \<le> score_in sn x \<and> elapsed_at_least (rp_speak_refractory p) now (rp_last_speak p)
          \<and> (rp_speak_flight p \<longrightarrow> report_released (now, g, ga) sn p) \<or>
        it_kind i = SPEAK \<and> it_interrupt i \<and> rp_speak_flight p \<and> (\<exists>b. rp_interrupt p = Some b \<and> b \<le> score_in sn x) \<or>
        it_kind i = THINK \<and> rp_think p \<le> score_in sn x \<and> elapsed_at_least (rp_think_refractory p) now (rp_last_think p)))"
  using assms(1)
proof (cases rule: report_call_cases)
  case silent
  then show ?thesis using assms(2) by simp
next
  case (interrupt x b)
  then show ?thesis using assms(2) report_lead_best [of sn x]
    by (intro conjI bexI [of _ x]) (auto simp: report_clear_speak)
next
  case (speak x)
  then show ?thesis using assms(2) report_lead_best [of sn x]
    by (intro conjI bexI [of _ x]) (auto simp: report_clear_speak plain_speak_def report_released_def)
next
  case (think x)
  then show ?thesis using assms(2) report_lead_best [of sn x]
    by (intro conjI bexI [of _ x]) auto
qed

lemma reports_respect_their_bars_witness:
  "(report_intent (\<lambda>_ _. ([], None)) SPEAK False (hd (sn_selected (sn_surprise 1))) 1) \<in>
     set (fst (report_call (\<lambda>_ _. ([], None)) 0 0 0 (sn_surprise 1) fresh_report)) \<and>
   (\<exists>x \<in> set (sn_selected (sn_surprise 1)). rp_report fresh_report \<le> score_in (sn_surprise 1) x)"
proof -
  let ?i = "report_intent (\<lambda>_ _. ([], None)) SPEAK False (hd (sn_selected (sn_surprise 1))) 1"
  have c: "fst (report_call (\<lambda>_ _. ([], None)) 0 0 0 (sn_surprise 1) fresh_report) = [?i]"
    by (simp add: report_call_def sn_surprise_def fresh_report_def report_clear_guards_def heard_own_def
        report_lead_def is_own_speech_def OWN_SPEECH_SOURCE_def score_in_def Let_def elapsed_at_least_def sig_blocks_def)
  obtain p' where "report_call (\<lambda>_ _. ([], None)) 0 0 0 (sn_surprise 1) fresh_report = ([?i], p')"
    using c by (metis prod.collapse)
  from reports_respect_their_bars [OF this, of ?i] c show ?thesis
    by (auto simp: fresh_report_def sn_surprise_def score_in_def)
qed

text \<open>
  C37. One utterance at a time, for each of the three policies: over a run in which the utterance in
  flight is never released (the organ's own speech is not selected and the guard does not time
  out), at most one plain utterance is formed, however many calls are made and whatever they see.
\<close>

theorem one_utterance_at_a_time:
  assumes "never_released (\<lambda>t. default_call py_str (fst t) (snd t)) dp_in_flight default_released xs d"
    and "never_released (\<lambda>t. drive_call py_str (fst t) (snd t)) vp_speak drive_released zs v"
    and "never_released (report_step w) rp_speak_flight report_released ys r"
  shows "length (spoken (\<lambda>t. default_call py_str (fst t) (snd t)) xs d) \<le> 1 \<and>
    length (spoken (\<lambda>t. drive_call py_str (fst t) (snd t)) zs v) \<le> 1 \<and>
    length (spoken (report_step w) ys r) \<le> 1"
  using default_guard.one_utterance [OF assms(1)] drive_guard.one_utterance [OF assms(2)]
    report_guard.one_utterance [OF assms(3)] by simp_all

definition sn_heard :: snapshot where
  "sn_heard = (sn_surprise 1)\<lparr>sn_selected := [(''2-0'', \<lparr>ev_source = ''audition'', ev_type = ''audition.transcription'',
     ev_payload = [(''text'', PStr ''hello'')], ev_salience = 1, ev_timestamp = 0, ev_parent = None\<rparr>)]\<rparr>"

lemma one_utterance_at_a_time_witness:
  "length (spoken (\<lambda>t. default_call (\<lambda>_. ''hello'') (fst t) (snd t)) [((0, 0), sn_heard), ((1, 1), sn_heard)] (DefaultPolicy None)) \<le> 1 \<and>
   fst (default_call (\<lambda>_. ''hello'') 0 0 sn_heard (DefaultPolicy None)) \<noteq> Inr []"
proof
  have not_own: "\<not> heard_own t sn_heard" for t
    by (simp add: heard_own_def sn_heard_def is_own_speech_def OWN_SPEECH_SOURCE_def)
  have s: "fst (default_call (\<lambda>_. ''hello'') t a sn_heard p) = Inr [Intent SPEAK ''hello'' ''2-0'' ''heard'']"
    "dp_in_flight (snd (default_call (\<lambda>_. ''hello'') t a sn_heard p))"
    "dp_armed_at (snd (default_call (\<lambda>_. ''hello'') t a sn_heard p)) = Some a"
    if "\<not> dp_in_flight p" for t a p
    using that not_own
    by (simp_all add: default_call_def release_guard_def Let_def sn_heard_def is_own_speech_def OWN_SPEECH_SOURCE_def
        user_utterance_def py_strip_def is_space_def)
  show "fst (default_call (\<lambda>_. ''hello'') 0 0 sn_heard (DefaultPolicy None)) \<noteq> Inr []"
    by (simp add: s DefaultPolicy_def)
  have "never_released (\<lambda>t. default_call (\<lambda>_. ''hello'') (fst t) (snd t)) dp_in_flight default_released
      [((0, 0), sn_heard), ((1, 1), sn_heard)] (DefaultPolicy None)"
    using not_own by (simp add: s DefaultPolicy_def default_released_def expired_def GUARD_TIMEOUT_S_def)
  from one_utterance_at_a_time [OF this never_released.simps(1) [THEN iffD2, OF TrueI] never_released.simps(1) [THEN iffD2, OF TrueI]]
  show "length (spoken (\<lambda>t. default_call (\<lambda>_. ''hello'') (fst t) (snd t)) [((0, 0), sn_heard), ((1, 1), sn_heard)] (DefaultPolicy None)) \<le> 1"
    by blast
qed

section \<open>Signed acts\<close>

text \<open>The intents of a run of selections; a selection that raises forms none.\<close>

fun selections ::
  "'k mac \<Rightarrow> (snapshot \<Rightarrow> 'p \<Rightarrow> 'p) \<Rightarrow> (snapshot \<Rightarrow> 'p \<Rightarrow> (py_exc + intent list) \<times> 'p) \<Rightarrow> snapshot list \<Rightarrow>
   ('p, 'k) action_selection \<Rightarrow> intent list" where
  "selections mac hook call [] a = []"
| "selections mac hook call (sn # sns) a =
     (case as_select mac hook call sn a of
        (Inl _, a') \<Rightarrow> selections mac hook call sns a'
      | (Inr is, a') \<Rightarrow> is @ selections mac hook call sns a')"

definition effector_name :: "intent \<Rightarrow> string" where
  "effector_name i = (case it_effector i of None \<Rightarrow> [] | Some e \<Rightarrow> e)"

definition is_act :: "intent \<Rightarrow> bool" where
  "is_act i \<longleftrightarrow> it_kind i = ACT"

text \<open>An act signed under a secret and run id with a sequence number in a range.\<close>

definition signed_in :: "'k mac \<Rightarrow> 'k \<Rightarrow> string \<Rightarrow> nat \<Rightarrow> nat \<Rightarrow> intent \<Rightarrow> bool" where
  "signed_in mac secret rid lo hi i \<longleftrightarrow>
     (\<exists>n g. it_run_id i = Some rid \<and> it_seq i = Some (int n) \<and> it_sig i = Some g \<and> lo \<le> n \<and> n < hi \<and>
        mac secret (ACT, effector_name i, PDict (it_params i), rid, int n) = Some g)"

lemma signed_in_mono: "signed_in mac k rid lo hi i \<Longrightarrow> lo' \<le> lo \<Longrightarrow> hi \<le> hi' \<Longrightarrow> signed_in mac k rid lo' hi' i"
  unfolding signed_in_def by (elim exE conjE) (intro exI conjI; (assumption | linarith))

definition seqs :: "intent list \<Rightarrow> int list" where
  "seqs is = map (\<lambda>i. case it_seq i of None \<Rightarrow> 0 | Some n \<Rightarrow> n) (filter is_act is)"

lemma seqs_append [simp]: "seqs (xs @ ys) = seqs xs @ seqs ys"
  by (simp add: seqs_def)

text \<open>What signing leaves of a signer: its secret and run id, and a counter that did not go back.\<close>

definition signer_le :: "'k signer \<Rightarrow> 'k signer \<Rightarrow> bool" where
  "signer_le s s' \<longleftrightarrow> sg_secret s' = sg_secret s \<and> sg_run_id s' = sg_run_id s \<and> sg_seq s \<le> sg_seq s'"

lemma signer_le_refl [simp]: "signer_le s s"
  and signer_le_trans: "signer_le s t \<Longrightarrow> signer_le t u \<Longrightarrow> signer_le s u"
  by (simp_all add: signer_le_def)

definition signed_between :: "'k mac \<Rightarrow> 'k signer \<Rightarrow> 'k signer \<Rightarrow> intent list \<Rightarrow> bool" where
  "signed_between mac s s' is \<longleftrightarrow> sorted_wrt (<) (seqs is) \<and>
     (\<forall>j \<in> set is. is_act j \<longrightarrow> signed_in mac (sg_secret s) (sg_run_id s) (sg_seq s) (sg_seq s') j)"

lemma signed_between_Nil [simp]: "signed_between mac s s' []"
  by (simp add: signed_between_def seqs_def)

lemma signed_between_seqs:
  "signed_between mac s s' is \<Longrightarrow> n \<in> set (seqs is) \<Longrightarrow> int (sg_seq s) \<le> n \<and> n < int (sg_seq s')"
  by (fastforce simp: signed_between_def seqs_def signed_in_def)

lemma signed_between_append:
  assumes "signed_between mac s t is" "signed_between mac t u js" "signer_le s t" "signer_le t u"
  shows "signed_between mac s u (is @ js)"
proof -
  have "signed_in mac (sg_secret s) (sg_run_id s) (sg_seq s) (sg_seq u) i"
    if "i \<in> set is \<union> set js" "is_act i" for i
    using that assms signed_in_mono [of mac "sg_secret s" "sg_run_id s" _ _ i "sg_seq s" "sg_seq u"]
    unfolding signed_between_def signer_le_def by fastforce
  moreover have "sorted_wrt (<) (seqs (is @ js))"
    using assms(1,2) signed_between_seqs [OF assms(1)] signed_between_seqs [OF assms(2)]
    by (fastforce simp: signed_between_def sorted_wrt_append)
  ultimately show ?thesis by (auto simp: signed_between_def)
qed

lemma sign_intent_Some:
  assumes "sign_intent mac i (Some s) = (r, os')"
  shows "\<exists>s'. os' = Some s' \<and> signer_le s s' \<and> (\<forall>j. r = Inr j \<longrightarrow> signed_between mac s s' [j])"
proof (cases "it_kind i = ACT")
  case False
  with assms show ?thesis by (auto simp: sign_intent_def signed_between_def seqs_def is_act_def)
next
  case True
  let ?g = "mac (sg_secret s) (ACT, effector_name i, PDict (it_params i), sg_run_id s, int (sg_seq s))"
  show ?thesis
  proof (cases ?g)
    case None
    with True assms show ?thesis by (auto simp: sign_intent_def sign_def effector_name_def signer_le_def)
  next
    case (Some g)
    with True assms have "os' = Some (s\<lparr>sg_seq := Suc (sg_seq s)\<rparr>)"
      "r = Inr (i\<lparr>it_run_id := Some (sg_run_id s), it_seq := Some (int (sg_seq s)), it_sig := Some g\<rparr>)"
      by (simp_all add: sign_intent_def sign_def effector_name_def Let_def)
    with Some show ?thesis
      by (auto simp: signer_le_def signed_between_def seqs_def signed_in_def effector_name_def)
  qed
qed

text \<open>The acts of a batch are signed in order, the counter never going back.\<close>

lemma sign_intents_Some:
  "sign_intents mac is (Some s) = (r, os') \<Longrightarrow>
     \<exists>s'. os' = Some s' \<and> signer_le s s' \<and> (\<forall>js. r = Inr js \<longrightarrow> signed_between mac s s' js)"
proof (induction "is" arbitrary: s r os')
  case Nil
  then show ?case by auto
next
  case (Cons i "is")
  obtain r1 os1 where c1: "sign_intent mac i (Some s) = (r1, os1)" by fastforce
  from sign_intent_Some [OF c1] obtain s1 where s1: "os1 = Some s1" "signer_le s s1"
    "\<forall>j. r1 = Inr j \<longrightarrow> signed_between mac s s1 [j]" by blast
  show ?case
  proof (cases r1)
    case (Inl e)
    with Cons.prems c1 s1 show ?thesis by auto
  next
    case (Inr j)
    obtain r2 os2 where c2: "sign_intents mac is (Some s1) = (r2, os2)" by fastforce
    from Cons.IH [OF this] obtain s2 where s2: "os2 = Some s2" "signer_le s1 s2"
      "\<forall>js. r2 = Inr js \<longrightarrow> signed_between mac s1 s2 js" by blast
    have "os' = Some s2" and r: "r = (case r2 of Inl e \<Rightarrow> Inl e | Inr js \<Rightarrow> Inr (j # js))"
      using Cons.prems c1 c2 Inr s1(1) s2(1) by (auto split: sum.splits)
    moreover have "signed_between mac s s2 js" if q: "r = Inr js" for js
    proof -
      obtain ks where "r2 = Inr ks" "js = [j] @ ks" using q r by (cases r2) auto
      with s1 s2 Inr signed_between_append [of mac s s1 "[j]" s2 ks] show ?thesis by simp
    qed
    ultimately show ?thesis using s1(2) s2(2) signer_le_trans by blast
  qed
qed

lemma as_select_Some:
  assumes "as_select mac hook call sn a = (r, a')" "as_signer a = Some s"
  shows "\<exists>s'. as_signer a' = Some s' \<and> signer_le s s' \<and> (\<forall>js. r = Inr js \<longrightarrow> signed_between mac s s' js)"
proof (cases "sn_inhibited sn")
  case True
  with assms show ?thesis by (auto simp: as_select_def)
next
  case False
  obtain q p where c: "call sn (as_policy a) = (q, p)" by fastforce
  show ?thesis
  proof (cases q)
    case (Inl e)
    with False c assms show ?thesis by (auto simp: as_select_def)
  next
    case (Inr "is")
    obtain r1 os1 where "sign_intents mac is (Some s) = (r1, os1)" by fastforce
    with False c Inr assms sign_intents_Some [OF this] show ?thesis by (auto simp: as_select_def)
  qed
qed

lemma selections_signed:
  "as_signer a = Some s \<Longrightarrow> \<exists>s'. signer_le s s' \<and> signed_between mac s s' (selections mac hook call sns a)"
proof (induction sns arbitrary: a s)
  case Nil
  then show ?case by (auto intro: exI [of _ s])
next
  case (Cons sn sns)
  obtain r a1 where c: "as_select mac hook call sn a = (r, a1)" by fastforce
  from as_select_Some [OF c Cons.prems] obtain s1 where s1: "as_signer a1 = Some s1" "signer_le s s1"
    "\<forall>js. r = Inr js \<longrightarrow> signed_between mac s s1 js" by blast
  from Cons.IH [OF s1(1)] obtain s2 where s2: "signer_le s1 s2"
    "signed_between mac s1 s2 (selections mac hook call sns a1)" by blast
  have "signed_between mac s s2 (selections mac hook call (sn # sns) a)"
    using signed_between_append [OF _ s2(2) s1(2) s2(1)] signed_between_append [of mac s s1 "[]", OF _ s2(2) s1(2) s2(1)] c s1(3)
    by (cases r) auto
  then show ?case using signer_le_trans [OF s1(2) s2(1)] by blast
qed

end
