(* ===== verification/CycleEngine.thy ===== *)
theory CycleEngine
  imports CycleTiming Workspace ActionSelection "HOL-Library.List_Lexorder" "HOL-Library.Char_ord" "HOL-Library.Product_Lexorder" "HOL-Library.Sublist"
begin

text \<open>
  Models the tick and the loop of \<open>kaine/cycle/engine.py\<close>: reading the streams of the active modules
  from their cursors, the canonical order of the candidates, the selection, the broadcast, the intents
  and their outcomes, the tick record, and \<open>run_forever\<close>. What the outside answers in one tick is a
  \<open>tick_io\<close>: the streams, the bus, the clocks, the arousal and the phases. The policy is a record of its
  operations. Observers that only record are left out, but for the pair of the oscillatory ablation.
\<close>

section \<open>State\<close>

text \<open>What the cycle puts on the bus.\<close>

datatype outgoing =
    Broadcast snapshot bool
  | IntentEvent event
  | OutcomeEvent event
  | TickEvent event
  | RatesEvent event
  | ScaleEvent event

record 'p policy =
  po_call :: "snapshot \<Rightarrow> 'p \<Rightarrow> (py_exc + intent list) \<times> 'p"
  po_inhibited :: "snapshot \<Rightarrow> 'p \<Rightarrow> 'p"
  po_realized :: "'p \<Rightarrow> 'p"
  po_think_realized :: "'p \<Rightarrow> 'p"
  po_outcomes :: "snapshot \<Rightarrow> 'p \<Rightarrow> (py_exc + pydict list) \<times> 'p"

record ('s, 'r, 'p, 'k) engine =
  en_cycle :: cycle
  en_deterministic :: bool
  en_seed_tail :: bool
  en_collect_phases :: bool
  en_record_ablation :: bool
  en_cursors :: "string \<Rightarrow> string option"
  en_control_cursor :: string
  en_interoception_cursor :: string
  en_errors :: "string \<Rightarrow> nat"
  en_workspace :: "('s, 'r) workspace"
  en_actions :: "('p, 'k) action_selection option"
  en_out :: "outgoing list"
  en_recorded :: "(snapshot \<times> snapshot) list"

text \<open>
  One tick's answers. \<open>io_read\<close> gives for a stream and a cursor the decodable entries and the last id
  scanned; \<open>io_block\<close> is the consolidated read, when the bus has one. \<open>io_stamp\<close> and \<open>io_publish\<close> are
  indexed by the number of messages sent before.
\<close>

type_synonym entries = "(string \<times> event) list"
type_synonym read_result = "entries \<times> string option"

record ('s, 'r) tick_io =
  io_streams :: "string list"
  io_tail :: "string \<Rightarrow> string"
  io_read :: "string \<Rightarrow> string \<Rightarrow> py_exc + read_result"
  io_block :: "((string \<times> string) list \<Rightarrow> py_exc + (string \<Rightarrow> read_result)) option"
  io_arousal :: "pyfloat option"
  io_phases :: "(string \<times> pyfloat option) list"
  io_affect :: "candidates \<Rightarrow> 's \<Rightarrow> 's"
  io_outside :: "('s, 'r) outside"
  io_asleep :: "bool option"
  io_wall_refresh :: real
  io_wall_start :: real
  io_wall_end :: real
  io_stamp :: "nat \<Rightarrow> int"
  io_publish :: "nat \<Rightarrow> bool"

section \<open>Sending\<close>

text \<open>The stamp of an event: logical in deterministic mode; then it may raise, and nothing is sent.\<close>

definition stamp :: "('s, 'r) tick_io \<Rightarrow> ('s, 'r, 'p, 'k) engine \<Rightarrow> (py_exc + int) \<times> ('s, 'r, 'p, 'k) engine" where
  "stamp io s =
     (if en_deterministic s
      then (case logical_now (en_cycle s) of (r, c) \<Rightarrow> (r, s\<lparr>en_cycle := c\<rparr>))
      else (Inr (io_stamp io (length (en_out s))), s))"

definition put_out :: "('s, 'r) tick_io \<Rightarrow> outgoing \<Rightarrow> ('s, 'r, 'p, 'k) engine \<Rightarrow> bool \<times> ('s, 'r, 'p, 'k) engine" where
  "put_out io m s =
     (if io_publish io (length (en_out s)) then (True, s\<lparr>en_out := en_out s @ [m]\<rparr>) else (False, s))"

definition send ::
  "('s, 'r) tick_io \<Rightarrow> (event \<Rightarrow> outgoing) \<Rightarrow> string \<Rightarrow> string \<Rightarrow> pydict \<Rightarrow> real \<Rightarrow> ('s, 'r, 'p, 'k) engine \<Rightarrow>
   ('s, 'r, 'p, 'k) engine" where
  "send io wrap source typ payload salience s =
     (case stamp io s of
        (Inl _, s1) \<Rightarrow> s1
      | (Inr t, s1) \<Rightarrow>
          snd (put_out io (wrap \<lparr>ev_source = source, ev_type = typ, ev_payload = payload, ev_salience = salience,
                 ev_timestamp = t, ev_parent = None\<rparr>) s1))"

section \<open>Reading\<close>

definition safe_read ::
  "('s, 'r) tick_io \<Rightarrow> string \<Rightarrow> ('s, 'r, 'p, 'k) engine \<Rightarrow> read_result \<times> ('s, 'r, 'p, 'k) engine" where
  "safe_read io stream s =
     (case io_read io stream (case en_cursors s stream of None \<Rightarrow> ''0'' | Some c \<Rightarrow> c) of
        Inl _ \<Rightarrow> (([], None), s\<lparr>en_errors := (en_errors s)(stream := Suc (en_errors s stream))\<rparr>)
      | Inr r \<Rightarrow> (r, s))"

fun read_each ::
  "('s, 'r) tick_io \<Rightarrow> string list \<Rightarrow> ('s, 'r, 'p, 'k) engine \<Rightarrow> read_result list \<times> ('s, 'r, 'p, 'k) engine" where
  "read_each io [] s = ([], s)"
| "read_each io (x # xs) s =
     (case safe_read io x s of (r, s1) \<Rightarrow> (case read_each io xs s1 of (rs, s2) \<Rightarrow> (r # rs, s2)))"

text \<open>The consolidated read, with the per-stream reads as its fallback.\<close>

definition cursor_of :: "('s, 'r, 'p, 'k) engine \<Rightarrow> string \<Rightarrow> string" where
  "cursor_of s stream = (case en_cursors s stream of None \<Rightarrow> ''0'' | Some c \<Rightarrow> c)"

definition read_streams ::
  "('s, 'r) tick_io \<Rightarrow> string list \<Rightarrow> ('s, 'r, 'p, 'k) engine \<Rightarrow> read_result list \<times> ('s, 'r, 'p, 'k) engine" where
  "read_streams io streams s =
     (case io_block io of
        None \<Rightarrow> read_each io streams s
      | Some f \<Rightarrow>
          (case f (map (\<lambda>x. (x, cursor_of s x)) streams) of
             Inl _ \<Rightarrow>
               read_each io streams
                 (s\<lparr>en_errors := (en_errors s)(''__consolidated__'' := Suc (en_errors s ''__consolidated__''))\<rparr>)
           | Inr g \<Rightarrow> (map g streams, s)))"

fun seed_cursors :: "('s, 'r) tick_io \<Rightarrow> string list \<Rightarrow> ('s, 'r, 'p, 'k) engine \<Rightarrow> ('s, 'r, 'p, 'k) engine" where
  "seed_cursors io [] s = s"
| "seed_cursors io (x # xs) s =
     seed_cursors io xs
       (case en_cursors s x of
          Some _ \<Rightarrow> s
        | None \<Rightarrow> s\<lparr>en_cursors := (en_cursors s)(x \<mapsto> (if en_seed_tail s then io_tail io x else ''0''))\<rparr>)"

text \<open>The cursor moves to the last id scanned, decodable or not.\<close>

fun advance_cursors :: "(string \<times> read_result) list \<Rightarrow> ('s, 'r, 'p, 'k) engine \<Rightarrow> ('s, 'r, 'p, 'k) engine" where
  "advance_cursors [] s = s"
| "advance_cursors ((x, _, l) # rs) s =
     advance_cursors rs
       (case l of None \<Rightarrow> s | Some i \<Rightarrow> if i = [] then s else s\<lparr>en_cursors := (en_cursors s)(x \<mapsto> i)\<rparr>)"

type_synonym gathered = "(string \<times> string \<times> event) list"

definition gathered_of :: "(string \<times> read_result) list \<Rightarrow> gathered" where
  "gathered_of rs = concat (map (\<lambda>(x, es, _). map (\<lambda>(i, e). (x, i, e)) es) rs)"

definition modules_seen :: "(string \<times> read_result) list \<Rightarrow> nat" where
  "modules_seen rs = length (filter (\<lambda>(_, es, _). es \<noteq> []) rs)"

definition gather_tick ::
  "('s, 'r) tick_io \<Rightarrow> ('s, 'r, 'p, 'k) engine \<Rightarrow> (gathered \<times> nat) \<times> ('s, 'r, 'p, 'k) engine" where
  "gather_tick io s =
     (if io_streams io = [] then (([], 0), s)
      else case read_streams io (io_streams io) (seed_cursors io (io_streams io) s) of
        (rs, s1) \<Rightarrow>
          let pairs = zip (io_streams io) rs
          in ((gathered_of pairs, modules_seen pairs), advance_cursors pairs s1))"

section \<open>The order of the candidates\<close>

definition order_key :: "string \<times> string \<times> event \<Rightarrow> string \<times> string \<times> (int \<times> int \<times> int \<times> string) \<times> string" where
  "order_key x = (case x of (stream, i, e) \<Rightarrow> (ev_source e, ev_type e, entry_id_sort_key i, stream))"

definition canonical :: "gathered \<Rightarrow> candidates" where
  "canonical g = map (\<lambda>(stream, i, e). (stream_entry_key stream i, e)) (if length g > 1 then sort_key order_key g else g)"

section \<open>Selection and action\<close>

text \<open>The organ's own output releases the guards, selected or not.\<close>

definition observe_own_output :: "'p policy \<Rightarrow> event \<Rightarrow> ('p, 'k) action_selection \<Rightarrow> ('p, 'k) action_selection" where
  "observe_own_output po e a =
     (if ev_source e \<noteq> OWN_SPEECH_SOURCE then a
      else if ev_type e = OWN_EXTERNAL_SPEECH_TYPE then a\<lparr>as_policy := po_realized po (as_policy a)\<rparr>
      else if ev_type e = OWN_INTERNAL_SPEECH_TYPE then a\<lparr>as_policy := po_think_realized po (as_policy a)\<rparr>
      else a)"

definition forward_own_output :: "'p policy \<Rightarrow> candidates \<Rightarrow> ('s, 'r, 'p, 'k) engine \<Rightarrow> ('s, 'r, 'p, 'k) engine" where
  "forward_own_output po es s =
     s\<lparr>en_actions := map_option (\<lambda>a. fold (\<lambda>(_, e). observe_own_output po e) es a) (en_actions s)\<rparr>"

definition intent_payload_event :: "intent \<Rightarrow> (string \<times> pydict) option" where
  "intent_payload_event i = map_option (\<lambda>t. (t, to_event_payload i)) (INTENT_TYPES (it_kind i))"

definition publish_intent :: "('s, 'r) tick_io \<Rightarrow> intent \<Rightarrow> ('s, 'r, 'p, 'k) engine \<Rightarrow> ('s, 'r, 'p, 'k) engine" where
  "publish_intent io i s =
     (case intent_payload_event i of
        None \<Rightarrow> s
      | Some (t, d) \<Rightarrow> send io IntentEvent ''action_selection'' t d (1 / 2) s)"

definition publish_outcome :: "('s, 'r) tick_io \<Rightarrow> pydict \<Rightarrow> ('s, 'r, 'p, 'k) engine \<Rightarrow> ('s, 'r, 'p, 'k) engine" where
  "publish_outcome io d s = send io OutcomeEvent ''action_selection_feedback'' ''action_selection.proposal_outcome'' d 0 s"

definition run_action_selection ::
  "'k mac \<Rightarrow> 'p policy \<Rightarrow> ('s, 'r) tick_io \<Rightarrow> snapshot \<Rightarrow> ('s, 'r, 'p, 'k) engine \<Rightarrow> ('s, 'r, 'p, 'k) engine" where
  "run_action_selection mac po io sn s =
     (case en_actions s of
        None \<Rightarrow> s
      | Some a \<Rightarrow>
          (case as_select mac (po_inhibited po) (po_call po) sn a of
             (Inl _, a1) \<Rightarrow> s\<lparr>en_actions := Some a1\<rparr>
           | (Inr is, a1) \<Rightarrow>
               let s1 = fold (publish_intent io) is (s\<lparr>en_actions := Some a1\<rparr>) in
               (case po_outcomes po sn (as_policy a1) of
                  (Inl _, p) \<Rightarrow> s1\<lparr>en_actions := Some (a1\<lparr>as_policy := p\<rparr>)\<rparr>
                | (Inr ds, p) \<Rightarrow> fold (publish_outcome io) ds (s1\<lparr>en_actions := Some (a1\<lparr>as_policy := p\<rparr>)\<rparr>))))"

text \<open>The selection of a tick: a raising workspace gives no snapshot.\<close>

definition select_tick ::
  "('s, 'r) tick_io \<Rightarrow> bool \<Rightarrow> candidates \<Rightarrow> ('s, 'r, 'p, 'k) engine \<Rightarrow>
   (snapshot option \<times> snapshot option) \<times> ('s, 'r, 'p, 'k) engine" where
  "select_tick io is_experiential es s =
     (let cx = \<lparr>cx_tick = int (cy_tick (en_cycle s)), cx_experiential = Some is_experiential,
                cx_phases = (if en_collect_phases s then Some (io_phases io) else None)\<rparr> in
      if en_record_ablation s \<and> is_experiential
      then (case select_dual (io_outside io) cx es (en_workspace s) of
              (Inl _, w) \<Rightarrow> ((None, None), s\<lparr>en_workspace := w\<rparr>)
            | (Inr (sn, cf), w) \<Rightarrow> ((Some sn, cf), s\<lparr>en_workspace := w\<rparr>))
      else (case select (io_outside io) cx es (en_workspace s) of
              (Inl _, w) \<Rightarrow> ((None, None), s\<lparr>en_workspace := w\<rparr>)
            | (Inr sn, w) \<Rightarrow> ((Some sn, None), s\<lparr>en_workspace := w\<rparr>)))"

text \<open>The broadcast of an experiential tick, and action selection only after it went out.\<close>

definition broadcast_tick ::
  "'k mac \<Rightarrow> 'p policy \<Rightarrow> ('s, 'r) tick_io \<Rightarrow> bool \<Rightarrow> snapshot option \<Rightarrow> ('s, 'r, 'p, 'k) engine \<Rightarrow> ('s, 'r, 'p, 'k) engine" where
  "broadcast_tick mac po io is_experiential osn s =
     (case osn of
        None \<Rightarrow> s
      | Some sn \<Rightarrow>
          if \<not> is_experiential then s
          else (case put_out io (Broadcast sn is_experiential) s of
                  (True, s1) \<Rightarrow> run_action_selection mac po io sn s1
                | (False, s1) \<Rightarrow> s1))"

definition tick_payload :: "real \<Rightarrow> pyfloat \<Rightarrow> pyfloat \<Rightarrow> bool \<Rightarrow> bool \<Rightarrow> cycle \<Rightarrow> pydict" where
  "tick_payload wall_ms budget slip is_experiential err c =
     [(''tick_index'', PInt (int (cy_tick c))), (''wall_duration_ms'', PFloat (Fin wall_ms)),
      (''target_duration_ms'', PFloat budget), (''slip_ms'', PFloat slip), (''is_experiential'', PBool is_experiential),
      (''error'', PBool err), (''processing_rate_hz'', PFloat (cy_processing c)),
      (''experiential_rate_hz'', PFloat (cy_effective c)), (''access_drive'', PFloat (Fin (cy_drive c))),
      (''time_scale'', PFloat (Fin (ec_scale (cy_clock c))))]"

record tick_result =
  tr_tick :: nat
  tr_wall_ms :: real
  tr_target_ms :: pyfloat
  tr_slip_ms :: pyfloat
  tr_experiential :: bool
  tr_modules_seen :: nat
  tr_events :: nat
  tr_error :: bool

definition on_cycle :: "(cycle \<Rightarrow> cycle) \<Rightarrow> ('s, 'r, 'p, 'k) engine \<Rightarrow> ('s, 'r, 'p, 'k) engine" where
  "on_cycle f s = s\<lparr>en_cycle := f (en_cycle s)\<rparr>"

text \<open>The phases of a tick: its start, the affect snapshot, the promotion, the ablation pair, its end.\<close>

definition open_tick :: "('s, 'r) tick_io \<Rightarrow> ('s, 'r, 'p, 'k) engine \<Rightarrow> (pyfloat \<times> pyfloat) \<times> ('s, 'r, 'p, 'k) engine" where
  "open_tick io s =
     (case tick_start (io_wall_start io) (refresh_unawake (io_asleep io) (io_wall_refresh io) (en_cycle s)) of
        (bs, c) \<Rightarrow> (bs, s\<lparr>en_cycle := c\<rparr>))"

definition observe_affect :: "('s, 'r) tick_io \<Rightarrow> candidates \<Rightarrow> ('s, 'r, 'p, 'k) engine \<Rightarrow> ('s, 'r, 'p, 'k) engine" where
  "observe_affect io es s =
     s\<lparr>en_workspace := (en_workspace s)\<lparr>ws_strategy := io_affect io es (ws_strategy (en_workspace s))\<rparr>\<rparr>"

definition promote_tick :: "('s, 'r) tick_io \<Rightarrow> candidates \<Rightarrow> ('s, 'r, 'p, 'k) engine \<Rightarrow> bool \<times> ('s, 'r, 'p, 'k) engine" where
  "promote_tick io es s =
     (case promote (io_arousal io, es) (en_cycle s) of (b, c) \<Rightarrow> (b, s\<lparr>en_cycle := c\<rparr>))"

definition record_ablation ::
  "snapshot option \<Rightarrow> snapshot option \<Rightarrow> ('s, 'r, 'p, 'k) engine \<Rightarrow> ('s, 'r, 'p, 'k) engine" where
  "record_ablation osn ocf s =
     (case (osn, ocf) of
        (Some sn, Some cf) \<Rightarrow> if en_record_ablation s then s\<lparr>en_recorded := en_recorded s @ [(sn, cf)]\<rparr> else s
      | _ \<Rightarrow> s)"

definition close_tick ::
  "('s, 'r) tick_io \<Rightarrow> pyfloat \<Rightarrow> pyfloat \<Rightarrow> bool \<Rightarrow> bool \<Rightarrow> ('s, 'r, 'p, 'k) engine \<Rightarrow> ('s, 'r, 'p, 'k) engine" where
  "close_tick io budget slip is_experiential err s =
     (let wall_ms = (io_wall_end io - io_wall_start io) * 1000;
          s1 = on_cycle (tick_end wall_ms budget slip) s;
          s2 = send io TickEvent ''cycle'' ''cycle.tick'' (tick_payload wall_ms budget slip is_experiential err (en_cycle s1))
                 (if err then 1 / 2 else 5 / 100) s1
      in on_cycle (\<lambda>c. c\<lparr>cy_tick := Suc (cy_tick c)\<rparr>) s2)"

definition tick ::
  "'k mac \<Rightarrow> 'p policy \<Rightarrow> ('s, 'r) tick_io \<Rightarrow> ('s, 'r, 'p, 'k) engine \<Rightarrow> tick_result \<times> ('s, 'r, 'p, 'k) engine" where
  "tick mac po io s =
     (case open_tick io s of ((budget, slip), s1) \<Rightarrow>
      case gather_tick io s1 of ((g, seen), s2) \<Rightarrow>
      case promote_tick io (canonical g) (observe_affect io (canonical g) (forward_own_output po (canonical g) s2)) of
        (is_experiential, s3) \<Rightarrow>
      case select_tick io is_experiential (canonical g) s3 of ((osn, ocf), s4) \<Rightarrow>
        let s5 = record_ablation osn ocf (broadcast_tick mac po io is_experiential osn s4)
        in (\<lparr>tr_tick = cy_tick (en_cycle s5), tr_wall_ms = (io_wall_end io - io_wall_start io) * 1000,
             tr_target_ms = budget, tr_slip_ms = slip, tr_experiential = is_experiential, tr_modules_seen = seen,
             tr_events = length (canonical g), tr_error = (osn = None)\<rparr>,
            close_tick io budget slip is_experiential (osn = None) s5))"

section \<open>The loop\<close>

text \<open>One round of \<open>run_forever\<close>: what the control and the interoception stream give, and the readings.\<close>

record ('s, 'r) round_io =
  ro_tick :: "('s, 'r) tick_io"
  ro_control :: "string \<Rightarrow> py_exc + read_result"
  ro_control_tail :: string
  ro_interoception :: "string \<Rightarrow> py_exc + read_result"
  ro_interoception_tail :: string
  ro_begin :: real
  ro_busy_end :: real
  ro_observe :: real
  ro_anchor :: "real \<times> real"

definition moved_cursor :: "string \<Rightarrow> string option \<Rightarrow> string" where
  "moved_cursor cursor l = (case l of None \<Rightarrow> cursor | Some i \<Rightarrow> if i = [] then cursor else i)"

definition seeded :: "bool \<Rightarrow> string \<Rightarrow> string \<Rightarrow> string" where
  "seeded seed tail cursor = (if cursor = ''0'' \<and> seed then tail else cursor)"

text \<open>Applied rates are announced; the first raise leaves the consumer.\<close>

fun control_batch ::
  "('s, 'r) tick_io \<Rightarrow> event list \<Rightarrow> ('s, 'r, 'p, 'k) engine \<Rightarrow> py_exc option \<times> ('s, 'r, 'p, 'k) engine" where
  "control_batch io [] s = (None, s)"
| "control_batch io (e # es) s =
     (if ev_type e \<noteq> ''cycle.set_rates'' then control_batch io es s
      else case apply_rate_control_event (ev_payload e) (en_cycle s) of
        (Inl x, c) \<Rightarrow> (Some x, s\<lparr>en_cycle := c\<rparr>)
      | (Inr applied, c) \<Rightarrow>
          control_batch io es
            (if applied
             then send io RatesEvent ''cycle'' ''cycle.rates''
                    [(''processing_rate_hz'', PFloat (cy_processing c)), (''experiential_rate_hz'', PFloat (cy_experiential c))]
                    (1 / 10) (s\<lparr>en_cycle := c\<rparr>)
             else s\<lparr>en_cycle := c\<rparr>))"

definition consume_control ::
  "('s, 'r) round_io \<Rightarrow> ('s, 'r, 'p, 'k) engine \<Rightarrow> py_exc option \<times> ('s, 'r, 'p, 'k) engine" where
  "consume_control ro s =
     (let s1 = s\<lparr>en_control_cursor := seeded (en_seed_tail s) (ro_control_tail ro) (en_control_cursor s)\<rparr> in
      case ro_control ro (en_control_cursor s1) of
        Inl _ \<Rightarrow> (None, s1)
      | Inr (es, l) \<Rightarrow>
          control_batch (ro_tick ro) (map snd es) (s1\<lparr>en_control_cursor := moved_cursor (en_control_cursor s1) l\<rparr>))"

definition consume_interoception :: "('s, 'r) round_io \<Rightarrow> ('s, 'r, 'p, 'k) engine \<Rightarrow> ('s, 'r, 'p, 'k) engine" where
  "consume_interoception ro s =
     (let s1 = s\<lparr>en_interoception_cursor := seeded (en_seed_tail s) (ro_interoception_tail ro) (en_interoception_cursor s)\<rparr> in
      case ro_interoception ro (en_interoception_cursor s1) of
        Inl _ \<Rightarrow> s1
      | Inr (es, l) \<Rightarrow>
          on_cycle (fold (\<lambda>(_, e). regulate e) es)
            (s1\<lparr>en_interoception_cursor := moved_cursor (en_interoception_cursor s1) l\<rparr>))"

definition scale_payload :: "scale_change \<Rightarrow> TimeScale.controller \<Rightarrow> pydict" where
  "scale_payload ch ctl =
     [(''from'', PFloat (Fin (ch_old ch))), (''to'', PFloat (Fin (ch_new ch))), (''reason'', PStr (ch_reason ch)),
      (''utilization'', PFloat (Fin (ch_utilization ch))), (''window_s'', PFloat (Fin (ts_window_s (tc_settings ctl))))]"

definition adapt_scale :: "('s, 'r) round_io \<Rightarrow> ('s, 'r, 'p, 'k) engine \<Rightarrow> ('s, 'r, 'p, 'k) engine" where
  "adapt_scale ro s =
     (let busy = max 0 ((ro_busy_end ro - ro_begin ro) * 1000) in
      case adapt_time_scale busy (ro_observe ro) (fst (ro_anchor ro)) (snd (ro_anchor ro)) (en_cycle s) of
        (och, c) \<Rightarrow>
          (case (och, cy_scale_controller c) of
             (Some ch, Some ctl) \<Rightarrow>
               send (ro_tick ro) ScaleEvent ''cycle'' ''cycle.time_scale'' (scale_payload ch ctl) (1 / 10) (s\<lparr>en_cycle := c\<rparr>)
           | _ \<Rightarrow> s\<lparr>en_cycle := c\<rparr>))"

datatype round_result =
    Stopped
  | Waiting
  | Crashed py_exc
  | Ticked tick_result "pyfloat option"

text \<open>While paused the loop waits on the pause event and does nothing at all.\<close>

definition loop_round ::
  "'k mac \<Rightarrow> 'p policy \<Rightarrow> ('s, 'r) round_io \<Rightarrow> ('s, 'r, 'p, 'k) engine \<Rightarrow> round_result \<times> ('s, 'r, 'p, 'k) engine" where
  "loop_round mac po ro s =
     (if cy_stopped (en_cycle s) then (Stopped, s)
      else if \<not> cy_running (en_cycle s) then (Waiting, s)
      else case consume_control ro s of
        (Some x, s1) \<Rightarrow> (Crashed x, s1)
      | (None, s1) \<Rightarrow>
          (case tick mac po (ro_tick ro) (consume_interoception ro s1) of
             (res, s2) \<Rightarrow> (Ticked res (pacing_wait (tr_target_ms res) (tr_wall_ms res)), adapt_scale ro s2)))"

section \<open>The canonical order\<close>

lemma canonical_alt: "canonical g = map (\<lambda>(stream, i, e). (stream_entry_key stream i, e)) (sort_key order_key g)"
proof -
  have "sort_key order_key g = g" if "\<not> 1 < length g"
  proof (cases g)
    case (Cons x xs)
    with that have "xs = []" by (cases xs) simp_all
    with Cons show ?thesis by simp
  qed simp
  then show ?thesis by (simp add: canonical_def)
qed

lemma sort_key_of_mset:
  fixes f :: "'a \<Rightarrow> 'b :: linorder"
  assumes "mset xs = mset ys" "distinct (map f xs)"
  shows "sort_key f xs = sort_key f ys"
proof (rule map_inj_on)
  let ?a = "sort_key f xs" and ?b = "sort_key f ys"
  have sets: "set xs = set ys" using assms(1) by (metis set_mset_mset)
  then show "inj_on f (set ?a \<union> set ?b)" using assms(2) by (simp add: distinct_map)
  have "mset (map f ys) = mset (map f xs)" using assms(1) by simp
  then have "distinct (map f ys)" using assms(2) by (metis mset_eq_imp_distinct_iff)
  then have "sorted (map f ?a)" "distinct (map f ?a)" "sorted (map f ?b)" "distinct (map f ?b)"
    using assms(2) by (simp_all add: distinct_map)
  then show "map f ?a = map f ?b"
    by (rule sorted_distinct_set_unique) (simp add: sets)
qed


definition plain_event :: "string \<Rightarrow> event" where
  "plain_event src = \<lparr>ev_source = src, ev_type = ''t'', ev_payload = [], ev_salience = 1, ev_timestamp = 0, ev_parent = None\<rparr>"


section \<open>What a step sends\<close>

text \<open>The messages of a step satisfy \<open>P\<close>; the cursors and the switches stay.\<close>

definition extends :: "(outgoing \<Rightarrow> bool) \<Rightarrow> ('s, 'r, 'p, 'k) engine \<Rightarrow> ('s, 'r, 'p, 'k) engine \<Rightarrow> bool" where
  "extends P s s' \<longleftrightarrow> (\<exists>ms. en_out s' = en_out s @ ms \<and> list_all P ms) \<and> en_cursors s' = en_cursors s \<and>
     en_seed_tail s' = en_seed_tail s"

lemma extends_refl [simp]: "extends P s s"
  by (simp add: extends_def)

lemma extends_trans: "extends P s t \<Longrightarrow> extends P t u \<Longrightarrow> extends P s u"
  by (fastforce simp: extends_def)

lemma extends_mono: "extends P s t \<Longrightarrow> (\<And>m. P m \<Longrightarrow> Q m) \<Longrightarrow> extends Q s t"
  by (auto simp: extends_def list_all_iff)

lemma extends_update [simp]:
  "extends P s (s\<lparr>en_actions := a\<rparr>)" "extends P s (s\<lparr>en_cycle := c\<rparr>)" "extends P s (s\<lparr>en_workspace := w\<rparr>)"
  "extends P s (s\<lparr>en_recorded := r\<rparr>)"
  by (simp_all add: extends_def)

lemma stamp_quiet: "stamp io s = (r, s') \<Longrightarrow> extends P s s'"
  by (auto simp: stamp_def split: if_splits prod.splits)

lemma put_out_extends: "P m \<Longrightarrow> extends P s (snd (put_out io m s))"
  by (auto simp: put_out_def extends_def)

lemma send_extends:
  assumes "\<And>e. P (wrap e)"
  shows "extends P s (send io wrap src typ d x s)"
proof -
  obtain r s1 where r: "stamp io s = (r, s1)" by fastforce
  note q = stamp_quiet [OF r, of P]
  show ?thesis
  proof (cases r)
    case (Inl e)
    with r q show ?thesis by (simp add: send_def)
  next
    case (Inr t)
    with r extends_trans [OF q put_out_extends] assms show ?thesis by (simp add: send_def)
  qed
qed

lemma fold_extends: "(\<And>x s. x \<in> set xs \<Longrightarrow> extends P s (f x s)) \<Longrightarrow> extends P s (fold f xs s)"
proof (induction xs arbitrary: s)
  case (Cons x xs)
  have "extends P s (f x s)" "extends P (f x s) (fold f xs (f x s))" using Cons by simp_all
  then show ?case by (simp add: extends_trans)
qed simp

definition is_intent :: "outgoing \<Rightarrow> bool" where
  "is_intent m \<longleftrightarrow> (\<exists>e. m = IntentEvent e)"

definition is_broadcast :: "outgoing \<Rightarrow> bool" where
  "is_broadcast m \<longleftrightarrow> (\<exists>sn b. m = Broadcast sn b)"

lemma not_broadcast [simp]:
  "\<not> is_broadcast (IntentEvent e)" "\<not> is_broadcast (OutcomeEvent e)" "\<not> is_broadcast (TickEvent e)"
  "\<not> is_intent (OutcomeEvent e)" "\<not> is_intent (TickEvent e)" "\<not> is_intent (Broadcast sn b)" "is_intent (IntentEvent e)"
  by (simp_all add: is_broadcast_def is_intent_def)

lemma publish_intent_extends: "extends (\<lambda>m. \<not> is_broadcast m) s (publish_intent io i s)"
  by (auto simp: publish_intent_def split: option.splits intro: send_extends)

lemma publish_outcome_extends: "extends (\<lambda>m. \<not> is_broadcast m \<and> \<not> is_intent m) s (publish_outcome io d s)"
  by (simp add: publish_outcome_def send_extends)

lemma as_select_inhibited: "sn_inhibited sn \<Longrightarrow> as_select mac h f sn a = (Inr [], a\<lparr>as_policy := h sn (as_policy a)\<rparr>)"
  by (simp add: as_select_def)

lemma run_action_extends:
  "extends (\<lambda>m. \<not> is_broadcast m \<and> (is_intent m \<longrightarrow> \<not> sn_inhibited sn)) s (run_action_selection mac po io sn s)"
proof (cases "en_actions s")
  case None
  then show ?thesis by (simp add: run_action_selection_def)
next
  case (Some a)
  let ?P = "\<lambda>m. \<not> is_broadcast m \<and> (is_intent m \<longrightarrow> \<not> sn_inhibited sn)"
  obtain r a1 where sel: "as_select mac (po_inhibited po) (po_call po) sn a = (r, a1)" by fastforce
  show ?thesis
  proof (cases r)
    case (Inl e)
    with Some sel show ?thesis by (simp add: run_action_selection_def)
  next
    case (Inr "is")
    define s1 where "s1 = fold (publish_intent io) is (s\<lparr>en_actions := Some a1\<rparr>)"
    have "extends ?P (s\<lparr>en_actions := Some a1\<rparr>) s1"
    proof (cases "sn_inhibited sn")
      case True
      with sel Inr have "is = []" by (simp add: as_select_inhibited)
      then show ?thesis by (simp add: s1_def)
    next
      case False
      then show ?thesis unfolding s1_def
        by (intro fold_extends extends_mono [OF publish_intent_extends]) auto
    qed
    then have one: "extends ?P s s1" by (rule extends_trans [OF extends_update(1)])
    obtain q p where o: "po_outcomes po sn (as_policy a1) = (q, p)" by fastforce
    have two: "extends ?P s (s1\<lparr>en_actions := x\<rparr>)" for x by (rule extends_trans [OF one extends_update(1)])
    have three: "extends ?P s (fold (publish_outcome io) ds (s1\<lparr>en_actions := x\<rparr>))" for ds x
      by (rule extends_trans [OF two fold_extends]) (rule extends_mono [OF publish_outcome_extends], auto)
    show ?thesis using Some sel Inr o two three
      by (cases q) (simp_all add: run_action_selection_def s1_def [symmetric] Let_def)
  qed
qed

lemma reading_out [simp]:
  "en_out (snd (safe_read io x s)) = en_out s" "en_out (snd (read_each io xs s)) = en_out s"
  "en_out (snd (read_streams io xs s)) = en_out s" "en_out (seed_cursors io xs s) = en_out s"
  "en_out (advance_cursors rs s) = en_out s" "en_out (snd (gather_tick io s)) = en_out s"
proof -
  show one: "en_out (snd (safe_read io x s)) = en_out s" for x s by (simp add: safe_read_def split: sum.splits)
  show each: "en_out (snd (read_each io xs s)) = en_out s" for xs s
  proof (induction xs arbitrary: s)
    case (Cons x xs)
    obtain r s1 where r: "safe_read io x s = (r, s1)" by fastforce
    obtain rs s2 where rs: "read_each io xs s1 = (rs, s2)" by fastforce
    show ?case using one [of x s] Cons.IH [of s1] r rs by simp
  qed simp
  show str: "en_out (snd (read_streams io xs s)) = en_out s" for xs s
    by (simp add: read_streams_def each split: option.splits sum.splits)
  show seed: "en_out (seed_cursors io xs s) = en_out s" for xs s
    by (induction xs arbitrary: s) (simp_all split: option.splits)
  show adv: "en_out (advance_cursors rs s) = en_out s" for rs s
    by (induction rs s rule: advance_cursors.induct) (simp_all split: option.splits)
  obtain rs s1 where "read_streams io (io_streams io) (seed_cursors io (io_streams io) s) = (rs, s1)" by fastforce
  then show "en_out (snd (gather_tick io s)) = en_out s"
    using str [of "io_streams io" "seed_cursors io (io_streams io) s"] seed [of "io_streams io" s]
    by (simp add: gather_tick_def adv Let_def)
qed

lemma select_tick_extends: "select_tick io b es s = (r, s') \<Longrightarrow> extends P s s'"
  by (auto simp: select_tick_def Let_def split: if_splits prod.splits sum.splits)

lemma broadcast_tick_messages:
  "\<exists>ms. en_out (broadcast_tick mac po io b osn s) = en_out s @ ms \<and>
     (\<forall>e. IntentEvent e \<in> set ms \<longrightarrow> (\<exists>sn rest. ms = Broadcast sn True # rest \<and> \<not> sn_inhibited sn \<and> b))"
proof (cases osn)
  case None
  then show ?thesis by (simp add: broadcast_tick_def)
next
  case (Some sn)
  show ?thesis
  proof (cases "b \<and> io_publish io (length (en_out s))")
    case False
    with Some show ?thesis by (auto simp: broadcast_tick_def put_out_def)
  next
    case True
    let ?s1 = "s\<lparr>en_out := en_out s @ [Broadcast sn True]\<rparr>"
    from run_action_extends [of sn ?s1 mac po io] obtain ms where
      "en_out (run_action_selection mac po io sn ?s1) = en_out ?s1 @ ms"
      "list_all (\<lambda>m. \<not> is_broadcast m \<and> (is_intent m \<longrightarrow> \<not> sn_inhibited sn)) ms" by (auto simp: extends_def)
    with True Some show ?thesis
      by (intro exI [of _ "Broadcast sn True # ms"]) (auto simp: broadcast_tick_def put_out_def list_all_iff)
  qed
qed

lemma close_tick_messages:
  "\<exists>ts. en_out (close_tick io budget slip b err s) = en_out s @ ts \<and> list_all (\<lambda>m. \<not> is_intent m) ts"
proof -
  let ?s = "on_cycle (tick_end ((io_wall_end io - io_wall_start io) * 1000) budget slip) s"
  have "extends (\<lambda>m. \<not> is_intent m) ?s (send io TickEvent src ty d x ?s)" for src ty d x
    by (rule send_extends) simp
  then have "\<exists>ts. en_out (send io TickEvent src ty d x ?s) = en_out s @ ts \<and> list_all (\<lambda>m. \<not> is_intent m) ts" for src ty d x
    by (simp add: extends_def on_cycle_def)
  then show ?thesis unfolding close_tick_def Let_def on_cycle_def [of "\<lambda>c. c\<lparr>cy_tick := Suc (cy_tick c)\<rparr>"] by simp
qed

text \<open>
  C4. Intents follow open broadcasts only: in whatever state a tick starts and whatever the bus, the
  workspace and the policy do, an intent leaves the cycle only in an experiential tick, after the
  broadcast of this tick went out, and only if the broadcast coalition is not inhibited.
\<close>

theorem intents_follow_open_broadcasts:
  assumes "tick mac po io s = (r, s')"
  shows "\<exists>ms. en_out s' = en_out s @ ms \<and> (\<forall>e. IntentEvent e \<in> set ms \<longrightarrow>
    tr_experiential r \<and> (\<exists>sn rest. ms = Broadcast sn True # rest \<and> \<not> sn_inhibited sn))"
proof -
  obtain budget slip s1 where st: "open_tick io s = ((budget, slip), s1)" by (metis prod.exhaust)
  obtain g seen s2 where g: "gather_tick io s1 = ((g, seen), s2)" by (metis prod.exhaust)
  obtain b s3 where b: "promote_tick io (canonical g) (observe_affect io (canonical g) (forward_own_output po (canonical g) s2)) = (b, s3)"
    by fastforce
  obtain osn ocf s4 where sel: "select_tick io b (canonical g) s3 = ((osn, ocf), s4)" by (metis prod.exhaust)
  define s5 where "s5 = broadcast_tick mac po io b osn s4"
  have r: "tr_experiential r = b" and s': "s' = close_tick io budget slip b (osn = None) (record_ablation osn ocf s5)"
    using assms by (auto simp: tick_def st g b sel Let_def s5_def)
  have "en_out s4 = en_out s3"
    using select_tick_extends [OF sel, of "\<lambda>_. False"] by (auto simp: extends_def list_all_iff)
  also have "\<dots> = en_out s2"
    using b by (auto simp: promote_tick_def observe_affect_def forward_own_output_def split: prod.splits)
  also have "\<dots> = en_out s"
    using reading_out(6) [of io s1] g st by (auto simp: open_tick_def split: prod.splits)
  finally have out4: "en_out s4 = en_out s" .
  note messages = broadcast_tick_messages [of mac po io b osn s4, folded s5_def, unfolded out4]
  then obtain ms where ms: "en_out s5 = en_out s @ ms"
    "\<forall>e. IntentEvent e \<in> set ms \<longrightarrow> (\<exists>sn rest. ms = Broadcast sn True # rest \<and> \<not> sn_inhibited sn \<and> b)"
    by (elim exE conjE) (rule that)
  from close_tick_messages [of io budget slip b "osn = None" "record_ablation osn ocf s5"]
  obtain ts where ts: "en_out s' = en_out s5 @ ts" "list_all (\<lambda>m. \<not> is_intent m) ts"
    unfolding s' by (auto simp: record_ablation_def split: option.splits if_splits)
  show ?thesis
  proof (intro exI [of _ "ms @ ts"] conjI allI impI)
    show "en_out s' = en_out s @ ms @ ts" using ms(1) ts(1) by simp
  next
    fix e assume "IntentEvent e \<in> set (ms @ ts)"
    then have "IntentEvent e \<in> set ms" using ts(2) by (auto simp: list_all_iff is_intent_def)
    then obtain sn rest where "ms = Broadcast sn True # rest" "\<not> sn_inhibited sn" b using ms(2) by blast
    then show "tr_experiential r" "\<exists>sn rest. ms @ ts = Broadcast sn True # rest \<and> \<not> sn_inhibited sn" using r by simp_all
  qed
qed

definition quiet_policy :: "unit policy" where
  "quiet_policy = \<lparr>po_call = (\<lambda>_ p. (Inr [], p)), po_inhibited = (\<lambda>_ p. p), po_realized = (\<lambda>p. p),
     po_think_realized = (\<lambda>p. p), po_outcomes = (\<lambda>_ p. (Inr [], p))\<rparr>"

definition speaking_policy :: "unit policy" where
  "speaking_policy = quiet_policy\<lparr>po_call := (\<lambda>sn p. (Inr [Intent SPEAK ''hello'' [] ''heard''], p))\<rparr>"

definition sample_tick_io :: "(unit, unit) tick_io" where
  "sample_tick_io = \<lparr>io_streams = [''b.out''], io_tail = (\<lambda>_. ''0-0''),
     io_read = (\<lambda>x c. Inr (if c = ''0'' then ([(''1-0'', plain_event ''b'')], Some ''1-0'') else ([], None))), io_block = None,
     io_arousal = None, io_phases = [], io_affect = (\<lambda>_ s. s), io_outside = sample_outside 0, io_asleep = None,
     io_wall_refresh = 0, io_wall_start = 0, io_wall_end = 0, io_stamp = (\<lambda>_. 0), io_publish = (\<lambda>_. True)\<rparr>"

definition sample_engine :: "('p, 'k) action_selection option \<Rightarrow> (unit, unit, 'p, 'k) engine" where
  "sample_engine a = \<lparr>en_cycle = plain_cycle 10 10, en_deterministic = False, en_seed_tail = False, en_collect_phases = False,
     en_record_ablation = False, en_cursors = Map.empty, en_control_cursor = ''0'', en_interoception_cursor = ''0'',
     en_errors = (\<lambda>_. 0), en_workspace = sample_workspace None ''competitive'' None,
     en_actions = a, en_out = [], en_recorded = []\<rparr>"

definition unsigned :: "(unit, unit) action_selection option" where
  "unsigned = Some \<lparr>as_policy = (), as_signer = None\<rparr>"

text \<open>One tick of the sample engine: the event is read, selected and broadcast, and the policy speaks.\<close>

lemma sample_open: "open_tick sample_tick_io (sample_engine a) =
  ((Fin 100, Fin 0), sample_engine a\<lparr>en_cycle := (plain_cycle 10 10)\<lparr>cy_prev := Some (0, Fin 100)\<rparr>\<rparr>)"
  by (simp add: open_tick_def tick_start_def refresh_unawake_def is_asleep_def Let_def tick_budget_ms_def
      sample_tick_io_def sample_engine_def plain_cycle_def plain_clock_def)

lemma sample_read_in: "gather_tick sample_tick_io (sample_engine a\<lparr>en_cycle := c\<rparr>) =
  (([(''b.out'', ''1-0'', plain_event ''b'')], 1), sample_engine a\<lparr>en_cycle := c, en_cursors := [''b.out'' \<mapsto> ''1-0'']\<rparr>)"
  by (simp add: gather_tick_def read_streams_def safe_read_def gathered_of_def modules_seen_def
      sample_tick_io_def sample_engine_def Let_def)

lemma sample_canonical: "canonical [(''b.out'', ''1-0'', plain_event ''b'')] = [(stream_entry_key ''b.out'' ''1-0'', plain_event ''b'')]"
  by (simp add: canonical_def)

lemma sample_select:
  "\<exists>sn. select (sample_outside 0) cx [(i, plain_event ''b'')] (sample_workspace None ''competitive'' None) =
     (Inr sn, sample_workspace None ''competitive'' None) \<and> \<not> sn_inhibited sn"
  by (simp add: select_def select_scored_def sample_workspace_def sample_outside_def observe_ws_def coherence_layer_def
      apply_regulation_bias_def compose_def ranked_def snapshot_of_def attach_feedback_def plain_event_def Let_def)

lemma sample_promote:
  "promote_tick sample_tick_io es (sample_engine a\<lparr>en_cycle := (plain_cycle 10 10)\<lparr>cy_prev := p\<rparr>, en_cursors := k\<rparr>) =
     (True, sample_engine a\<lparr>en_cycle := (plain_cycle 10 10)\<lparr>cy_prev := p, cy_acc := Fin 0\<rparr>, en_cursors := k\<rparr>)"
  by (simp add: promote_tick_def promote_def update_access_rate_def advance_experiential_def sample_engine_def plain_cycle_def Let_def)

lemma sample_quiet:
  "forward_own_output po [(i, plain_event ''b'')] (sample_engine a\<lparr>en_cycle := c, en_cursors := k\<rparr>) = sample_engine a\<lparr>en_cycle := c, en_cursors := k\<rparr>"
  "observe_affect sample_tick_io es (sample_engine a\<lparr>en_cycle := c, en_cursors := k\<rparr>) = sample_engine a\<lparr>en_cycle := c, en_cursors := k\<rparr>"
  by (simp_all add: forward_own_output_def observe_affect_def sample_engine_def observe_own_output_def plain_event_def
      OWN_SPEECH_SOURCE_def sample_tick_io_def option.map_ident)

lemma sample_tick:
  "\<exists>sn r. \<not> sn_inhibited sn \<and> tick mac po sample_tick_io (sample_engine a) =
     (r, close_tick sample_tick_io (Fin 100) (Fin 0) True False (broadcast_tick mac po sample_tick_io True (Some sn)
       (sample_engine a\<lparr>en_cycle := (plain_cycle 10 10)\<lparr>cy_prev := Some (0, Fin 100), cy_acc := Fin 0\<rparr>,
          en_cursors := [''b.out'' \<mapsto> ''1-0'']\<rparr>)))"
proof -
  let ?es = "[(stream_entry_key ''b.out'' ''1-0'', plain_event ''b'')]"
  let ?s3 = "sample_engine a\<lparr>en_cycle := (plain_cycle 10 10)\<lparr>cy_prev := Some (0, Fin 100), cy_acc := Fin 0\<rparr>,
    en_cursors := [''b.out'' \<mapsto> ''1-0'']\<rparr>"
  obtain sn where sn: "select (sample_outside 0) \<lparr>cx_tick = 0, cx_experiential = Some True, cx_phases = None\<rparr> ?es
      (sample_workspace None ''competitive'' None) = (Inr sn, sample_workspace None ''competitive'' None)" "\<not> sn_inhibited sn"
    using sample_select by blast
  have sel: "select_tick sample_tick_io True ?es ?s3 = ((Some sn, None), ?s3)"
    using sn(1) by (simp add: select_tick_def sample_engine_def sample_tick_io_def plain_cycle_def Let_def)
  obtain r s' where t: "tick mac po sample_tick_io (sample_engine a) = (r, s')" by fastforce
  then have "s' = close_tick sample_tick_io (Fin 100) (Fin 0) True False (broadcast_tick mac po sample_tick_io True (Some sn) ?s3)"
    by (auto simp: tick_def sample_open sample_read_in sample_canonical sample_quiet sample_promote sel record_ablation_def Let_def)
  with t sn(2) show ?thesis by blast
qed

lemma intents_follow_open_broadcasts_witness:
  "\<exists>sn e rest. en_out (snd (tick (\<lambda>_ _. None) speaking_policy sample_tick_io (sample_engine unsigned))) = Broadcast sn True # rest \<and>
     IntentEvent e \<in> set rest \<and> \<not> sn_inhibited sn"
proof -
  let ?c = "(plain_cycle 10 10)\<lparr>cy_prev := Some (0, Fin 100), cy_acc := Fin 0\<rparr>"
  let ?s3 = "sample_engine unsigned\<lparr>en_cycle := ?c, en_cursors := [''b.out'' \<mapsto> ''1-0'']\<rparr>"
  obtain sn r where sn: "\<not> sn_inhibited sn" and t: "tick (\<lambda>_ _. None) speaking_policy sample_tick_io (sample_engine unsigned) =
      (r, close_tick sample_tick_io (Fin 100) (Fin 0) True False
        (broadcast_tick (\<lambda>_ _. None) speaking_policy sample_tick_io True (Some sn) ?s3))"
    using sample_tick [of "\<lambda>_ _. None" speaking_policy unsigned] by blast
  define s5 where "s5 = broadcast_tick (\<lambda>_ _. None) speaking_policy sample_tick_io True (Some sn) ?s3"
  let ?s' = "close_tick sample_tick_io (Fin 100) (Fin 0) True False s5"
  note t = t [folded s5_def]
  have "\<exists>e. IntentEvent e \<in> set (en_out s5)"
    using sn by (simp add: s5_def broadcast_tick_def put_out_def sample_tick_io_def sample_engine_def unsigned_def
        run_action_selection_def as_select_def speaking_policy_def quiet_policy_def sign_intent_def publish_intent_def
        intent_payload_event_def INTENT_TYPES_def send_def stamp_def SPEAK_def Intent_def Let_def)
  then have "\<exists>e. IntentEvent e \<in> set (en_out ?s')"
    using close_tick_messages [of sample_tick_io "Fin 100" "Fin 0" True False s5] by auto
  then obtain e where e: "IntentEvent e \<in> set (en_out ?s')" by blast
  obtain ms where ms: "en_out ?s' = ms"
    "\<forall>e. IntentEvent e \<in> set ms \<longrightarrow> tr_experiential r \<and> (\<exists>sn rest. ms = Broadcast sn True # rest \<and> \<not> sn_inhibited sn)"
    using intents_follow_open_broadcasts [OF t] by (auto simp: sample_engine_def)
  then obtain sn' rest where "en_out ?s' = Broadcast sn' True # rest" "\<not> sn_inhibited sn'" using e by blast
  with e t show ?thesis by auto
qed

section \<open>Every event is a candidate once\<close>

text \<open>A stream as it lies on the bus: identifiers and what decodes; what is read from a cursor on.\<close>

type_synonym stream_log = "(string \<times> event option) list"

fun readable :: "stream_log \<Rightarrow> entries" where
  "readable [] = []"
| "readable ((i, None) # xs) = readable xs"
| "readable ((i, Some e) # xs) = (i, e) # readable xs"

definition unread :: "string \<Rightarrow> stream_log \<Rightarrow> stream_log" where
  "unread c log0 = (if c = ''0'' then log0 else tl (dropWhile (\<lambda>p. fst p \<noteq> c) log0))"

definition batch :: "nat \<Rightarrow> string \<Rightarrow> stream_log \<Rightarrow> read_result" where
  "batch n c log0 = (let b = take n (unread c log0) in (readable b, if b = [] then None else Some (fst (last b))))"

text \<open>The bus serves a stream: each read gives the next batch of the log or raises.\<close>

definition serves :: "nat \<Rightarrow> string \<Rightarrow> stream_log \<Rightarrow> ('s, 'r) tick_io \<Rightarrow> bool" where
  "serves n x log0 io \<longleftrightarrow> x \<in> set (io_streams io) \<and> distinct (io_streams io) \<and>
     (\<forall>c. io_read io x c = Inr (batch n c log0) \<or> (\<exists>e. io_read io x c = Inl e)) \<and>
     (\<forall>f cs c g. io_block io = Some f \<longrightarrow> (x, c) \<in> set cs \<longrightarrow> f cs = Inr g \<longrightarrow> g x = batch n c log0)"

lemma readable_append [simp]: "readable (xs @ ys) = readable xs @ readable ys"
  by (induction xs rule: readable.induct) auto

text \<open>The cursor of a stream whose entries up to \<open>seen\<close> have been read.\<close>

definition cursor_after :: "stream_log \<Rightarrow> string" where
  "cursor_after seen = (if seen = [] then ''0'' else fst (last seen))"

definition well_named :: "stream_log \<Rightarrow> bool" where
  "well_named log0 \<longleftrightarrow> distinct (map fst log0) \<and> ''0'' \<notin> fst ` set log0 \<and> [] \<notin> fst ` set log0"

lemma unread_after:
  assumes "well_named (seen @ rest)"
  shows "unread (cursor_after seen) (seen @ rest) = rest"
proof (cases seen rule: rev_cases)
  case Nil
  then show ?thesis by (simp add: unread_def cursor_after_def)
next
  case (snoc xs x)
  have "fst x \<noteq> ''0''" "\<forall>p \<in> set xs. fst p \<noteq> fst x"
    using assms snoc by (auto simp: well_named_def image_iff)
  then have "dropWhile (\<lambda>p. fst p \<noteq> fst x) (xs @ x # rest) = x # rest" by (subst dropWhile_append2) auto
  with snoc \<open>fst x \<noteq> ''0''\<close> show ?thesis by (simp add: unread_def cursor_after_def)
qed

lemma cursor_after_batch:
  "cursor_after (seen @ b) = (if b = [] then cursor_after seen else fst (last b))"
  by (simp add: cursor_after_def)

lemma safe_read_cursors [simp]: "en_cursors (snd (safe_read io x s)) = en_cursors s"
  by (simp add: safe_read_def split: sum.splits)

lemma read_each_results:
  "read_each io xs s = (rs, s') \<Longrightarrow> en_cursors s' = en_cursors s \<and> length rs = length xs \<and>
     (\<forall>k < length xs. io_read io (xs ! k) (cursor_of s (xs ! k)) = Inr (rs ! k) \<or>
        (\<exists>e. io_read io (xs ! k) (cursor_of s (xs ! k)) = Inl e) \<and> rs ! k = ([], None))"
proof (induction xs arbitrary: s rs s')
  case (Cons x xs)
  obtain r s1 where r: "safe_read io x s = (r, s1)" by fastforce
  obtain qs where q: "read_each io xs s1 = (qs, s')" "rs = r # qs" using Cons.prems r by (auto split: prod.splits)
  have s1: "en_cursors s1 = en_cursors s" using safe_read_cursors [of io x s] r by simp
  then have "cursor_of s1 = cursor_of s" by (simp add: fun_eq_iff cursor_of_def)
  moreover have "io_read io x (cursor_of s x) = Inr r \<or> (\<exists>e. io_read io x (cursor_of s x) = Inl e) \<and> r = ([], None)"
    using r by (auto simp: safe_read_def cursor_of_def [symmetric] split: sum.splits)
  ultimately show ?case using Cons.IH [OF q(1)] q(2) s1 by (auto simp: nth_Cons split: nat.splits)
qed simp

lemma advance_other: "x \<notin> fst ` set rs \<Longrightarrow> en_cursors (advance_cursors rs s) x = en_cursors s x"
  by (induction rs s rule: advance_cursors.induct) (auto split: option.splits)

lemma advance_one:
  "distinct (map fst rs) \<Longrightarrow> (x, es, l) \<in> set rs \<Longrightarrow>
     en_cursors (advance_cursors rs s) x = (case l of None \<Rightarrow> en_cursors s x | Some i \<Rightarrow> if i = [] then en_cursors s x else Some i)"
  by (induction rs s rule: advance_cursors.induct) (auto simp: advance_other image_iff split: option.splits)

definition of_stream :: "string \<Rightarrow> gathered \<Rightarrow> entries" where
  "of_stream x g = map snd (filter (\<lambda>p. fst p = x) g)"

lemma of_stream_append [simp]: "of_stream x (g @ h) = of_stream x g @ of_stream x h"
  by (simp add: of_stream_def)

lemma of_stream_tagged: "of_stream x (map (Pair y) es) = (if y = x then es else [])"
  by (induction es) (auto simp: of_stream_def)

lemma gathered_other: "x \<notin> fst ` set rs \<Longrightarrow> of_stream x (gathered_of rs) = []"
  by (induction rs) (auto simp: gathered_of_def of_stream_tagged, simp add: of_stream_def)

lemma gathered_one:
  "distinct (map fst rs) \<Longrightarrow> (x, es, l) \<in> set rs \<Longrightarrow> of_stream x (gathered_of rs) = es"
proof (induction rs)
  case (Cons r rs)
  obtain y fs k where r: "r = (y, fs, k)" by (metis prod.exhaust)
  have step: "of_stream x (gathered_of (r # rs)) = (if y = x then fs else []) @ of_stream x (gathered_of rs)"
    by (simp add: gathered_of_def r of_stream_tagged)
  show ?case
  proof (cases "y = x")
    case True
    then have "x \<notin> fst ` set rs" using Cons.prems(1) r by (auto simp: image_iff)
    with True Cons.prems(2) r have "fs = es" by (force simp: image_iff)
    with True step gathered_other [OF \<open>x \<notin> fst ` set rs\<close>] show ?thesis by simp
  next
    case False
    with Cons r step show ?thesis by auto
  qed
qed simp

lemma seed_cursors_cursor:
  "\<not> en_seed_tail s \<Longrightarrow> cursor_of (seed_cursors io xs s) = cursor_of s \<and> en_seed_tail (seed_cursors io xs s) = en_seed_tail s"
  by (induction xs arbitrary: s) (auto simp: cursor_of_def fun_eq_iff split: option.splits)

lemma read_streams_results:
  assumes "read_streams io xs s = (rs, s')"
  shows "cursor_of s' = cursor_of s \<and> length rs = length xs \<and>
    (\<forall>k < length xs. io_read io (xs ! k) (cursor_of s (xs ! k)) = Inr (rs ! k) \<or> rs ! k = ([], None) \<or>
      (\<exists>f g. io_block io = Some f \<and> f (map (\<lambda>x. (x, cursor_of s x)) xs) = Inr g \<and> rs ! k = g (xs ! k)))"
proof -
  have each: ?thesis if "read_each io xs t = (rs, s')" "en_cursors t = en_cursors s" for t
  proof -
    have "cursor_of t = cursor_of s" "cursor_of s' = cursor_of t"
      using that read_each_results [OF that(1)] by (simp_all add: fun_eq_iff cursor_of_def)
    with read_each_results [OF that(1)] show ?thesis by auto
  qed
  show ?thesis
  proof (cases "io_block io")
    case None
    with assms each [of s] show ?thesis by (simp add: read_streams_def)
  next
    case (Some f)
    show ?thesis
    proof (cases "f (map (\<lambda>x. (x, cursor_of s x)) xs)")
      case (Inl e)
      let ?t = "s\<lparr>en_errors := (en_errors s)(''__consolidated__'' := Suc (en_errors s ''__consolidated__''))\<rparr>"
      from Inl assms Some show ?thesis by (intro each [of ?t]) (auto simp: read_streams_def)
    next
      case (Inr g)
      with assms Some show ?thesis by (auto simp: read_streams_def)
    qed
  qed
qed

lemma gather_serves:
  assumes "serves n x log0 io" "\<not> en_seed_tail s" "gather_tick io s = ((g, k), s')"
  shows "\<exists>es l. ((es, l) = batch n (cursor_of s x) log0 \<or> (es, l) = ([], None)) \<and> of_stream x g = es \<and>
    cursor_of s' x = (case l of None \<Rightarrow> cursor_of s x | Some i \<Rightarrow> if i = [] then cursor_of s x else i)"
proof -
  let ?xs = "io_streams io" and ?t = "seed_cursors io (io_streams io) s"
  obtain rs s1 where rs: "read_streams io ?xs ?t = (rs, s1)" by fastforce
  note seed = seed_cursors_cursor [OF assms(2), of io ?xs]
  from assms(1) obtain j where j: "j < length ?xs" "?xs ! j = x" by (auto simp: serves_def in_set_conv_nth)
  note res = read_streams_results [OF rs]
  have mem: "(x, cursor_of s x) \<in> set (map (\<lambda>x. (x, cursor_of s x)) ?xs)" using assms(1) by (auto simp: serves_def)
  have b: "rs ! j = batch n (cursor_of s x) log0 \<or> rs ! j = ([], None)"
  proof -
    from res j seed consider "io_read io x (cursor_of s x) = Inr (rs ! j)" | "rs ! j = ([], None)"
      | f g where "io_block io = Some f" "f (map (\<lambda>x. (x, cursor_of s x)) ?xs) = Inr g" "rs ! j = g x" by auto
    then show ?thesis
    proof cases
      case 1
      with assms(1) show ?thesis by (auto simp: serves_def dest: spec [of _ "cursor_of s x"])
    next
      case 3
      from assms(1) have "f cs = Inr g \<Longrightarrow> (x, c) \<in> set cs \<Longrightarrow> g x = batch n c log0" for cs c
        using 3(1) by (simp add: serves_def)
      from this [OF 3(2) mem] 3(3) show ?thesis by simp
    qed simp
  qed
  have "(x, rs ! j) \<in> set (zip ?xs rs)" using j res by (auto simp: in_set_zip)
  moreover have "distinct (map fst (zip ?xs rs))" using assms(1) res by (simp add: serves_def)
  moreover obtain es l where esl: "rs ! j = (es, l)" by fastforce
  ultimately have "of_stream x (gathered_of (zip ?xs rs)) = es"
    "en_cursors (advance_cursors (zip ?xs rs) s1) x =
      (case l of None \<Rightarrow> en_cursors s1 x | Some i \<Rightarrow> if i = [] then en_cursors s1 x else Some i)"
    by (simp_all add: gathered_one advance_one)
  moreover have "?xs \<noteq> []" using j by auto
  then have "g = gathered_of (zip ?xs rs)" "s' = advance_cursors (zip ?xs rs) s1"
    using assms(3) rs by (auto simp: gather_tick_def Let_def)
  ultimately have g: "of_stream x g = es"
    "en_cursors s' x = (case l of None \<Rightarrow> en_cursors s1 x | Some i \<Rightarrow> if i = [] then en_cursors s1 x else Some i)"
    by simp_all
  have "cursor_of s' x = (case l of None \<Rightarrow> cursor_of s1 x | Some i \<Rightarrow> if i = [] then cursor_of s1 x else i)"
    using g(2) by (simp add: cursor_of_def split: option.splits)
  moreover have c1: "cursor_of s1 x = cursor_of s x" using res seed by simp
  ultimately have "cursor_of s' x = (case l of None \<Rightarrow> cursor_of s x | Some i \<Rightarrow> if i = [] then cursor_of s x else i)"
    unfolding c1 by simp
  with b esl g(1) show ?thesis by (intro exI [of _ es] exI [of _ l]) auto
qed

text \<open>The candidates of one stream over a run of ticks, and the rest of the tick keeps the cursors.\<close>

fun stream_reads ::
  "'k mac \<Rightarrow> 'p policy \<Rightarrow> string \<Rightarrow> ('s, 'r) tick_io list \<Rightarrow> ('s, 'r, 'p, 'k) engine \<Rightarrow> entries \<times> ('s, 'r, 'p, 'k) engine" where
  "stream_reads mac po x [] s = ([], s)"
| "stream_reads mac po x (io # ios) s =
     (case gather_tick io (snd (open_tick io s)) of
        ((g, _), _) \<Rightarrow> (case stream_reads mac po x ios (snd (tick mac po io s)) of (es, s') \<Rightarrow> (of_stream x g @ es, s')))"

lemma extends_on_cycle [simp]: "extends P s (on_cycle f s)"
  by (simp add: on_cycle_def)

lemma broadcast_extends: "extends (\<lambda>_. True) s (broadcast_tick mac po io b osn s)"
proof (cases osn)
  case None
  then show ?thesis by (simp add: broadcast_tick_def)
next
  case (Some sn)
  obtain ok s1 where p: "put_out io (Broadcast sn b) s = (ok, s1)" by fastforce
  have one: "extends (\<lambda>_. True) s s1" using put_out_extends [of "\<lambda>_. True" "Broadcast sn b" s io] p by simp
  have "extends (\<lambda>_. True) s1 (run_action_selection mac po io sn s1)"
    by (rule extends_mono [OF run_action_extends]) simp
  with one p Some show ?thesis by (cases ok) (auto simp: broadcast_tick_def intro: extends_trans)
qed

lemma close_extends: "extends (\<lambda>_. True) s (close_tick io budget slip b err s)"
  unfolding close_tick_def Let_def
  by (rule extends_trans [OF extends_on_cycle extends_trans [OF send_extends extends_on_cycle]]) simp

lemma tick_cursors:
  "en_cursors (snd (tick mac po io s)) = en_cursors (snd (gather_tick io (snd (open_tick io s)))) \<and>
   en_seed_tail (snd (tick mac po io s)) = en_seed_tail (snd (gather_tick io (snd (open_tick io s))))"
proof -
  obtain budget slip s1 where st: "open_tick io s = ((budget, slip), s1)" by (metis prod.exhaust)
  obtain g seen s2 where g: "gather_tick io s1 = ((g, seen), s2)" by (metis prod.exhaust)
  obtain b s3 where b: "promote_tick io (canonical g) (observe_affect io (canonical g) (forward_own_output po (canonical g) s2)) = (b, s3)"
    by fastforce
  obtain osn ocf s4 where sel: "select_tick io b (canonical g) s3 = ((osn, ocf), s4)" by (metis prod.exhaust)
  define s5 where "s5 = broadcast_tick mac po io b osn s4"
  have t: "snd (tick mac po io s) = close_tick io budget slip b (osn = None) (record_ablation osn ocf s5)"
    by (simp add: tick_def st g b sel Let_def s5_def)
  have "en_cursors s3 = en_cursors s2 \<and> en_seed_tail s3 = en_seed_tail s2"
    using b by (auto simp: promote_tick_def observe_affect_def forward_own_output_def split: prod.splits)
  moreover have "en_cursors s4 = en_cursors s3 \<and> en_seed_tail s4 = en_seed_tail s3"
    using select_tick_extends [OF sel] by (auto simp: extends_def)
  moreover have "en_cursors s5 = en_cursors s4 \<and> en_seed_tail s5 = en_seed_tail s4"
    using broadcast_extends [of s4 mac po io b osn] by (simp add: extends_def s5_def)
  moreover have "en_cursors (record_ablation osn ocf s5) = en_cursors s5 \<and> en_seed_tail (record_ablation osn ocf s5) = en_seed_tail s5"
    by (simp add: record_ablation_def split: option.splits)
  ultimately show ?thesis
    using close_extends [of "record_ablation osn ocf s5" io budget slip b "osn = None"] by (simp add: extends_def st g t)
qed

lemma gather_seed: "en_seed_tail (snd (gather_tick io s)) = en_seed_tail s"
proof -
  have each: "en_seed_tail (snd (read_each io xs t)) = en_seed_tail t" for xs and t :: "('a, 'b, 'c, 'd) engine"
  proof (induction xs arbitrary: t)
    case (Cons x xs)
    obtain r t1 where "safe_read io x t = (r, t1)" by fastforce
    moreover from this have "en_seed_tail t1 = en_seed_tail t" by (auto simp: safe_read_def split: sum.splits)
    ultimately show ?case using Cons.IH [of t1] by (cases "read_each io xs t1") simp
  qed simp
  have str: "en_seed_tail (snd (read_streams io xs t)) = en_seed_tail t" for xs and t :: "('a, 'b, 'c, 'd) engine"
    by (simp add: read_streams_def each split: option.splits sum.splits)
  have seed: "en_seed_tail (seed_cursors io xs t) = en_seed_tail t" for xs and t :: "('a, 'b, 'c, 'd) engine"
    by (induction xs arbitrary: t) (simp_all split: option.splits)
  have adv: "en_seed_tail (advance_cursors rs t) = en_seed_tail t" for rs and t :: "('a, 'b, 'c, 'd) engine"
    by (induction rs t rule: advance_cursors.induct) (simp_all split: option.splits)
  obtain rs s1 where "read_streams io (io_streams io) (seed_cursors io (io_streams io) s) = (rs, s1)" by fastforce
  then show ?thesis
    using str [of "io_streams io" "seed_cursors io (io_streams io) s"] seed [of "io_streams io" s]
    by (simp add: gather_tick_def adv Let_def)
qed

lemma tick_read:
  assumes "serves n x (seen @ rest) io" "\<not> en_seed_tail s" "cursor_of s x = cursor_after seen" "well_named (seen @ rest)"
    "gather_tick io (snd (open_tick io s)) = ((g, k), s2)"
  shows "\<exists>b rest'. rest = b @ rest' \<and> of_stream x g = readable b \<and>
    cursor_of (snd (tick mac po io s)) x = cursor_after (seen @ b) \<and> \<not> en_seed_tail (snd (tick mac po io s))"
proof -
  let ?s1 = "snd (open_tick io s)"
  have s1: "cursor_of ?s1 = cursor_of s" "en_seed_tail ?s1 = en_seed_tail s"
    by (auto simp: open_tick_def cursor_of_def fun_eq_iff split: prod.splits)
  obtain es l where gs: "(es, l) = batch n (cursor_of s x) (seen @ rest) \<or> (es, l) = ([], None)" "of_stream x g = es"
    "cursor_of s2 x = (case l of None \<Rightarrow> cursor_of s x | Some i \<Rightarrow> if i = [] then cursor_of s x else i)"
    using gather_serves [OF assms(1) _ assms(5), unfolded s1, OF assms(2)] by (elim exE conjE) (rule that)
  have cur: "cursor_of (snd (tick mac po io s)) = cursor_of s2"
    using tick_cursors [of mac po io s] assms(5) by (simp add: cursor_of_def fun_eq_iff)
  have sd: "\<not> en_seed_tail (snd (tick mac po io s))"
    using tick_cursors [of mac po io s] gather_seed [of io ?s1] s1(2) assms(2) by simp
  have un: "unread (cursor_of s x) (seen @ rest) = rest" using unread_after [OF assms(4)] assms(3) by simp
  show ?thesis
  proof (cases "(es, l) = ([], None)")
    case True
    with gs cur sd assms(3) show ?thesis by (intro exI [of _ "[]"] exI [of _ rest]) simp
  next
    case False
    with gs(1) have "(es, l) = batch n (cursor_of s x) (seen @ rest)" by blast
    with un have b: "es = readable (take n rest)" "l = (if take n rest = [] then None else Some (fst (last (take n rest))))"
      by (simp_all add: batch_def Let_def)
    have ne: "fst (last (take n rest)) \<noteq> []" if "take n rest \<noteq> []"
    proof -
      have "last (take n rest) \<in> set rest" using last_in_set [OF that] by (rule in_set_takeD)
      then have "fst (last (take n rest)) \<in> fst ` set (seen @ rest)" by simp
      then show ?thesis using assms(4) unfolding well_named_def by metis
    qed
    have "cursor_of s2 x = cursor_after (seen @ take n rest)"
      using gs(3) b(2) ne assms(3) by (simp add: cursor_after_batch split: if_splits)
    with b gs(2) cur sd show ?thesis by (intro exI [of _ "take n rest"] exI [of _ "drop n rest"]) simp
  qed
qed

text \<open>The logs of successive ticks: each is served by its tick and extends the one before.\<close>

fun served :: "nat \<Rightarrow> string \<Rightarrow> stream_log \<Rightarrow> (stream_log \<times> ('s, 'r) tick_io) list \<Rightarrow> bool" where
  "served n x log0 [] = True"
| "served n x log0 ((log1, io) # rest) \<longleftrightarrow> prefix log0 log1 \<and> well_named log1 \<and> serves n x log1 io \<and> served n x log1 rest"

definition last_log :: "stream_log \<Rightarrow> (stream_log \<times> ('s, 'r) tick_io) list \<Rightarrow> stream_log" where
  "last_log log0 xs = (if xs = [] then log0 else fst (last xs))"

lemma stream_reads_prefix:
  assumes "served n x (seen @ rest) xs" "\<not> en_seed_tail s" "cursor_of s x = cursor_after seen" "well_named (seen @ rest)"
  shows "\<exists>b rest'. last_log (seen @ rest) xs = seen @ b @ rest' \<and> fst (stream_reads mac po x (map snd xs) s) = readable b \<and>
    cursor_of (snd (stream_reads mac po x (map snd xs) s)) x = cursor_after (seen @ b) \<and> well_named (last_log (seen @ rest) xs)"
  using assms
proof (induction xs arbitrary: seen rest s)
  case Nil
  then show ?case by (intro exI [of _ "[]"] exI [of _ rest]) (simp add: last_log_def)
next
  case (Cons y ys)
  obtain log1 io where y: "y = (log1, io)" by fastforce
  from Cons.prems(1) y obtain more where log1: "log1 = seen @ rest @ more" by (auto simp: prefix_def)
  have sv: "serves n x (seen @ (rest @ more)) io" "well_named (seen @ (rest @ more))" "served n x log1 ys"
    using Cons.prems(1) y log1 by simp_all
  obtain g k s2 where g: "gather_tick io (snd (open_tick io s)) = ((g, k), s2)" by (metis prod.exhaust)
  from tick_read [OF sv(1) Cons.prems(2,3) sv(2) g, of mac po] obtain b rest' where b: "rest @ more = b @ rest'"
    "of_stream x g = readable b" "cursor_of (snd (tick mac po io s)) x = cursor_after (seen @ b)"
    "\<not> en_seed_tail (snd (tick mac po io s))" by blast
  have "served n x ((seen @ b) @ rest') ys" "well_named ((seen @ b) @ rest')" using sv log1 b(1) by simp_all
  from Cons.IH [OF this(1) b(4,3) this(2)] obtain b' rest'' where ih:
    "last_log ((seen @ b) @ rest') ys = (seen @ b) @ b' @ rest''"
    "fst (stream_reads mac po x (map snd ys) (snd (tick mac po io s))) = readable b'"
    "cursor_of (snd (stream_reads mac po x (map snd ys) (snd (tick mac po io s)))) x = cursor_after ((seen @ b) @ b')"
    "well_named (last_log ((seen @ b) @ rest') ys)" by blast
  have "last_log (seen @ rest) (y # ys) = last_log ((seen @ b) @ rest') ys"
    using b(1) log1 y by (simp add: last_log_def)
  then show ?case using ih b(2) y g
    by - (rule exI [of _ "b @ b'"], rule exI [of _ rest''],
      cases "stream_reads mac po x (map snd ys) (snd (tick mac po io s))", simp)
qed



end
