(* ===== verification/AuditLog.thy ===== *)
theory AuditLog
  imports PyVal
begin

text \<open>
  Models \<open>kaine/modules/effectors/audit_log.py\<close>: the hash-chained log of the effectors' actions.
  The file is the list of its lines, blank, no JSON, or a JSON value. The digest of the previous
  hash and the canonical form of a record is an argument (\<open>hash\<close>), as is Python's \<open>str\<close> of a value
  that is no string. Keys stand in the order the code writes them: the file sorts them, and the
  canonical form does not depend on their order. A line cut short by a crash is a line that is no JSON.
\<close>

section \<open>Records and the chain\<close>

definition GENESIS_HASH :: string where
  "GENESIS_HASH = replicate 64 CHR ''0''"

definition HASH_FIELDS :: "string list" where
  "HASH_FIELDS = [''prev_hash'', ''this_hash'']"

definition FORBIDDEN_KEYS :: "string list" where
  "FORBIDDEN_KEYS = [''content'', ''body'', ''stdout'']"

type_synonym link_hash = "string \<Rightarrow> pydict \<Rightarrow> string"

datatype line = Blank | NotJson | Json pyval

definition core_of :: "pydict \<Rightarrow> pydict" where
  "core_of d = filter (\<lambda>(k, _). k \<notin> set HASH_FIELDS) d"

definition sanitize :: "pydict \<Rightarrow> pydict" where
  "sanitize summary = filter (\<lambda>(k, _). k \<notin> set FORBIDDEN_KEYS) summary"

text \<open>An absent file is \<open>None\<close>. Any failure to read the tail falls back to the genesis link.\<close>

definition last_line :: "line list \<Rightarrow> line option" where
  "last_line ls = find (\<lambda>l. l \<noteq> Blank) (rev ls)"

definition str_of :: "(pyval \<Rightarrow> string) \<Rightarrow> pyval \<Rightarrow> string" where
  "str_of py_str v = (case v of PStr s \<Rightarrow> s | _ \<Rightarrow> py_str v)"

definition last_hash :: "(pyval \<Rightarrow> string) \<Rightarrow> line list option \<Rightarrow> string" where
  "last_hash py_str file =
     (case file of
        None \<Rightarrow> GENESIS_HASH
      | Some ls \<Rightarrow>
          (case last_line ls of
             Some (Json (PDict d)) \<Rightarrow>
               (case map_of d ''this_hash'' of None \<Rightarrow> GENESIS_HASH | Some v \<Rightarrow> str_of py_str v)
           | _ \<Rightarrow> GENESIS_HASH))"

record audit_entry =
  ae_timestamp :: pyfloat
  ae_effector :: string
  ae_request :: pydict
  ae_success :: bool
  ae_elapsed :: pyfloat
  ae_error :: "string option"
  ae_blocked :: bool
  ae_rejected :: bool

definition entry_core :: "audit_entry \<Rightarrow> pydict" where
  "entry_core e =
     [(''timestamp'', PFloat (ae_timestamp e)), (''effector'', PStr (ae_effector e)),
      (''request'', PDict (sanitize (ae_request e))), (''success'', PBool (ae_success e)),
      (''elapsed_ms'', PFloat (ae_elapsed e)),
      (''error'', case ae_error e of None \<Rightarrow> PNone | Some s \<Rightarrow> PStr s),
      (''blocked'', PBool (ae_blocked e)), (''provenance_rejected'', PBool (ae_rejected e))]"

definition chained :: "link_hash \<Rightarrow> string \<Rightarrow> pydict \<Rightarrow> pydict" where
  "chained hash prev core = core @ [(''prev_hash'', PStr prev), (''this_hash'', PStr (hash prev core))]"

definition append_entry :: "link_hash \<Rightarrow> (pyval \<Rightarrow> string) \<Rightarrow> audit_entry \<Rightarrow> line list option \<Rightarrow> line list option" where
  "append_entry hash py_str e file =
     Some ((case file of None \<Rightarrow> [] | Some ls \<Rightarrow> ls) @
       [Json (PDict (chained hash (last_hash py_str file) (entry_core e)))])"

section \<open>Verification\<close>

datatype chain_result = ChainOk | Broken nat string

text \<open>A line that is JSON but no object raises AttributeError.\<close>

fun verify_from :: "link_hash \<Rightarrow> string \<Rightarrow> nat \<Rightarrow> line list \<Rightarrow> py_exc + chain_result" where
  "verify_from hash prev idx [] = Inr ChainOk"
| "verify_from hash prev idx (Blank # ls) = verify_from hash prev idx ls"
| "verify_from hash prev idx (NotJson # ls) = Inr (Broken idx ''record is not valid JSON'')"
| "verify_from hash prev idx (Json v # ls) =
     (case v of
        PDict d \<Rightarrow>
          if dget d ''prev_hash'' PNone \<noteq> PStr prev
          then Inr (Broken idx ''prev_hash breaks the chain (reordered or truncated history)'')
          else if dget d ''this_hash'' PNone \<noteq> PStr (hash prev (core_of d))
          then Inr (Broken idx ''this_hash does not match record contents (edited)'')
          else verify_from hash (hash prev (core_of d)) (Suc idx) ls
      | _ \<Rightarrow> Inl OtherException)"

definition verify :: "link_hash \<Rightarrow> line list option \<Rightarrow> py_exc + chain_result" where
  "verify hash file = (case file of None \<Rightarrow> Inr ChainOk | Some ls \<Rightarrow> verify_from hash GENESIS_HASH 0 ls)"

section \<open>An intact chain\<close>

text \<open>The substance of the records, and the hash the chain has reached after them.\<close>

fun cores :: "line list \<Rightarrow> pydict list" where
  "cores [] = []"
| "cores (Json (PDict d) # ls) = core_of d # cores ls"
| "cores (_ # ls) = cores ls"

fun chain_end :: "link_hash \<Rightarrow> string \<Rightarrow> pydict list \<Rightarrow> string" where
  "chain_end hash prev [] = prev"
| "chain_end hash prev (c # cs) = chain_end hash (hash prev c) cs"

lemma chain_end_append [simp]: "chain_end hash prev (xs @ ys) = chain_end hash (chain_end hash prev xs) ys"
  by (induction xs arbitrary: prev) auto

lemma cores_append [simp]: "cores (xs @ ys) = cores xs @ cores ys"
proof (induction xs)
  case (Cons x xs)
  then show ?case
  proof (cases x)
    case (Json v)
    with Cons show ?thesis by (cases v) simp_all
  qed simp_all
qed simp

text \<open>The chain condition without the index of the report.\<close>

fun chain_ok :: "link_hash \<Rightarrow> string \<Rightarrow> line list \<Rightarrow> bool" where
  "chain_ok hash prev [] = True"
| "chain_ok hash prev (Blank # ls) = chain_ok hash prev ls"
| "chain_ok hash prev (NotJson # ls) = False"
| "chain_ok hash prev (Json v # ls) =
     (case v of
        PDict d \<Rightarrow> dget d ''prev_hash'' PNone = PStr prev \<and> dget d ''this_hash'' PNone = PStr (hash prev (core_of d)) \<and>
          chain_ok hash (hash prev (core_of d)) ls
      | _ \<Rightarrow> False)"

lemma verify_from_ok: "verify_from hash prev i ls = Inr ChainOk \<longleftrightarrow> chain_ok hash prev ls"
  by (induction hash prev i ls rule: verify_from.induct) (simp_all split: pyval.splits)

lemma chain_ok_append:
  "chain_ok hash prev (xs @ ys) \<longleftrightarrow> chain_ok hash prev xs \<and> chain_ok hash (chain_end hash prev (cores xs)) ys"
  by (induction hash prev xs rule: chain_ok.induct) (simp_all split: pyval.splits)

lemma verify_ok_iff [simp]:
  "verify hash None = Inr ChainOk" "verify hash (Some ls) = Inr ChainOk \<longleftrightarrow> chain_ok hash GENESIS_HASH ls"
  by (simp_all add: verify_def verify_from_ok)

lemma last_line_snoc [simp]: "last_line (ls @ [l]) = (if l = Blank then last_line ls else Some l)"
  by (simp add: last_line_def)

text \<open>In an intact log the last hash on file is the end of the chain.\<close>

lemma last_hash_chain_end:
  "chain_ok hash GENESIS_HASH ls \<Longrightarrow>
     last_hash py_str (Some ls) = chain_end hash GENESIS_HASH (cores ls)"
proof (induction ls rule: rev_induct)
  case (snoc l ls)
  note v = snoc.prems [unfolded chain_ok_append]
  then have verified: "chain_ok hash GENESIS_HASH ls" by blast
  show ?case
  proof (cases l)
    case Blank
    with snoc.IH [OF verified] show ?thesis by (simp add: last_hash_def)
  next
    case NotJson
    with v show ?thesis by simp
  next
    case (Json w)
    with v obtain d where w: "w = PDict d" by (cases w) auto
    have "dget d ''this_hash'' PNone = PStr (hash (chain_end hash GENESIS_HASH (cores ls)) (core_of d))"
      using v Json w by (simp split: if_splits)
    then show ?thesis using Json w
      by (simp add: last_hash_def dget_def str_of_def split: option.splits)
  qed
qed (simp add: last_hash_def last_line_def)

lemma core_of_chained [simp]: "core_of (chained hash prev (entry_core e)) = entry_core e"
  by (simp add: chained_def core_of_def entry_core_def HASH_FIELDS_def)

lemma chained_fields [simp]:
  "dget (chained hash prev (entry_core e)) ''prev_hash'' PNone = PStr prev"
  "dget (chained hash prev (entry_core e)) ''this_hash'' PNone = PStr (hash prev (entry_core e))"
  by (simp_all add: chained_def entry_core_def)

text \<open>
  Appending keeps an intact log intact: a record appended to a log that verifies (an absent one
  does) leaves a log that verifies, so a log that was only ever appended to verifies.
\<close>

theorem appends_keep_chain_intact:
  assumes "verify hash log0 = Inr ChainOk"
  shows "verify hash (run (\<lambda>f e. append_entry hash py_str e f) log0 es) = Inr ChainOk"
  using assms
proof (induction es arbitrary: log0)
  case (Cons e es)
  have "verify hash (append_entry hash py_str e log0) = Inr ChainOk"
  proof (cases log0)
    case None
    then show ?thesis by (simp add: append_entry_def last_hash_def)
  next
    case (Some ls)
    with Cons.prems have "chain_ok hash GENESIS_HASH ls" by simp
    with last_hash_chain_end [OF this] Some show ?thesis
      by (simp add: append_entry_def chain_ok_append)
  qed
  with Cons.IH show ?case by simp
qed simp

definition sample_entry :: audit_entry where
  "sample_entry = \<lparr>ae_timestamp = Fin 0, ae_effector = ''notify'', ae_request = [(''title'', PStr ''t''), (''body'', PStr ''b'')],
     ae_success = True, ae_elapsed = Fin 1, ae_error = None, ae_blocked = False, ae_rejected = False\<rparr>"

lemma appends_keep_chain_intact_witness:
  "verify (\<lambda>p c. CHR ''h'' # p) (run (\<lambda>f e. append_entry (\<lambda>p c. CHR ''h'' # p) (\<lambda>_. []) e f) None [sample_entry, sample_entry]) = Inr ChainOk"
  by (rule appends_keep_chain_intact) simp

section \<open>Tampering\<close>

text \<open>The pairs a chain hashes.\<close>

fun chain_links :: "link_hash \<Rightarrow> string \<Rightarrow> pydict list \<Rightarrow> (string \<times> pydict) set" where
  "chain_links hash prev [] = {}"
| "chain_links hash prev (c # cs) = insert (prev, c) (chain_links hash (hash prev c) cs)"

lemma chain_links_append:
  "chain_links hash prev (xs @ ys) = chain_links hash prev xs \<union> chain_links hash (chain_end hash prev xs) ys"
  by (induction xs arbitrary: prev) auto

text \<open>Two chains with the same end are the same, as far as their own links do not collide.\<close>

lemma chains_agree:
  assumes "inj_on (case_prod hash) (chain_links hash g xs \<union> chain_links hash g ys)"
    and "\<And>p c. (p, c) \<in> chain_links hash g xs \<union> chain_links hash g ys \<Longrightarrow> hash p c \<noteq> g"
    and "chain_end hash g xs = chain_end hash g ys"
  shows "xs = ys"
  using assms
proof (induction xs arbitrary: ys rule: rev_induct)
  case Nil
  show ?case
  proof (cases ys rule: rev_cases)
    case (snoc zs z)
    with Nil.prems(2) [of "chain_end hash g zs" z] Nil.prems(3) show ?thesis by (simp add: chain_links_append)
  qed simp
next
  case (snoc x xs)
  show ?case
  proof (cases ys rule: rev_cases)
    case Nil
    with snoc.prems(2) [of "chain_end hash g xs" x] snoc.prems(3) show ?thesis by (simp add: chain_links_append)
  next
    case ys: (snoc zs z)
    let ?L = "chain_links hash g (xs @ [x]) \<union> chain_links hash g ys"
    have "(chain_end hash g xs, x) \<in> ?L" "(chain_end hash g zs, z) \<in> ?L"
      using ys by (simp_all add: chain_links_append)
    moreover have "case_prod hash (chain_end hash g xs, x) = case_prod hash (chain_end hash g zs, z)"
      using snoc.prems(3) ys by simp
    ultimately have eq: "(chain_end hash g xs, x) = (chain_end hash g zs, z)"
      using snoc.prems(1) by (meson inj_onD)
    have "xs = zs"
    proof (rule snoc.IH)
      show "inj_on (case_prod hash) (chain_links hash g xs \<union> chain_links hash g zs)"
        using snoc.prems(1) by (rule inj_on_subset) (auto simp: ys chain_links_append)
      show "hash p c \<noteq> g" if "(p, c) \<in> chain_links hash g xs \<union> chain_links hash g zs" for p c
        using that snoc.prems(2) [of p c] by (auto simp: ys chain_links_append)
      show "chain_end hash g xs = chain_end hash g zs" using eq by simp
    qed
    with eq ys show ?thesis by simp
  qed
qed

text \<open>
  C36. Tampering is detected: against a log that verifies and whose last hash is known, another log that
  also verifies and ends in the same hash has the same records. So a log in which a record before the
  last was edited, moved, removed or inserted does not verify, as long as the digest does not collide
  on the records at hand (and never yields the genesis constant).
\<close>

theorem tampering_is_detected:
  assumes "verify hash (Some xs) = Inr ChainOk" and "last_hash py_str (Some ys) = last_hash py_str (Some xs)"
    and "inj_on (case_prod hash) (chain_links hash GENESIS_HASH (cores xs) \<union> chain_links hash GENESIS_HASH (cores ys))"
    and "\<And>p c. (p, c) \<in> chain_links hash GENESIS_HASH (cores xs) \<union> chain_links hash GENESIS_HASH (cores ys) \<Longrightarrow> hash p c \<noteq> GENESIS_HASH"
    and "cores ys \<noteq> cores xs"
  shows "verify hash (Some ys) \<noteq> Inr ChainOk"
proof
  assume "verify hash (Some ys) = Inr ChainOk"
  with assms(1,2) have "chain_end hash GENESIS_HASH (cores ys) = chain_end hash GENESIS_HASH (cores xs)"
    by (simp add: last_hash_chain_end)
  with chains_agree [OF assms(3,4)] assms(5) show False by simp
qed

text \<open>What the chain does not show: a log cut at its tail still verifies.\<close>

lemma truncation_is_not_detected: "verify hash (Some (xs @ ys)) = Inr ChainOk \<Longrightarrow> verify hash (Some xs) = Inr ChainOk"
  by (simp add: chain_ok_append)

definition sample_log :: "bool \<Rightarrow> line list" where
  "sample_log b =
     [Json (PDict [(''success'', PBool b), (''prev_hash'', PStr GENESIS_HASH), (''this_hash'', PStr ''a'')]),
      Json (PDict [(''success'', PBool True), (''prev_hash'', PStr ''a''), (''this_hash'', PStr ''b'')])]"

definition sample_hash :: link_hash where
  "sample_hash p c =
     (if p = GENESIS_HASH \<and> c = [(''success'', PBool True)] then ''a''
      else if p = ''a'' then ''b'' else if p = ''c'' then ''d'' else ''c'')"

lemma tampering_is_detected_witness:
  "verify sample_hash (Some (sample_log True)) = Inr ChainOk \<and> verify sample_hash (Some (sample_log False)) \<noteq> Inr ChainOk"
proof
  have g: "GENESIS_HASH \<noteq> ''a''" "''a'' \<noteq> GENESIS_HASH" "''b'' \<noteq> GENESIS_HASH" "''c'' \<noteq> GENESIS_HASH" "''d'' \<noteq> GENESIS_HASH" "GENESIS_HASH \<noteq> ''c''"
    by (simp_all add: GENESIS_HASH_def eval_nat_numeral)
  have c: "cores (sample_log b) = [[(''success'', PBool b)], [(''success'', PBool True)]]" for b
    by (simp add: sample_log_def core_of_def HASH_FIELDS_def)
  have l: "last_hash (\<lambda>_. []) (Some (sample_log b)) = ''b''" for b
    by (simp add: last_hash_def sample_log_def last_line_def str_of_def)
  show v: "verify sample_hash (Some (sample_log True)) = Inr ChainOk"
    by (simp add: sample_log_def core_of_def HASH_FIELDS_def sample_hash_def g)
  show "verify sample_hash (Some (sample_log False)) \<noteq> Inr ChainOk"
    by (rule tampering_is_detected [OF v, of "\<lambda>_. []"])
      (use l in \<open>auto simp: c sample_hash_def g inj_on_def\<close>)
qed

end
