(* ===== verification/Effectors.thy ===== *)
theory Effectors
  imports AuditLog ActionSelection "HOL-Library.Sublist"
begin

text \<open>
  Models \<open>kaine/modules/effectors/module.py\<close>, \<open>effectors.py\<close> and \<open>whitelist.py\<close>: the provenance
  boundary of act intents, the operator's effector whitelist, and the file, notification and shell
  effectors. What an act does to the world is the list of its attempts (\<open>effect\<close>); what the world
  answers (path resolution, files, processes, clocks, whether the log and the bus take a record) is
  one \<open>act_io\<close> per intent. Regular-expression matching, the keyed hash of signatures and a registered
  effector are arguments. Texts of exceptions are reduced to the class of the exception.
\<close>

section \<open>Requests\<close>

datatype request =
    FileWriteRequest pyval pyval
  | NotifyRequest pyval pyval pyval
  | ShellRequest pyval pyval
  | StimulusRequest pyval

datatype request_type = FileWriteT | NotifyT | ShellT | StimulusT

text \<open>A dataclass called with keyword arguments: an unknown or a missing one is a TypeError.\<close>

definition kwargs_ok :: "string list \<Rightarrow> string list \<Rightarrow> pydict \<Rightarrow> bool" where
  "kwargs_ok required optional d \<longleftrightarrow>
     list_all (\<lambda>(k, _). k \<in> set (required @ optional)) d \<and> list_all (\<lambda>k. k \<in> set (map fst d)) required"

definition arg :: "pydict \<Rightarrow> string \<Rightarrow> pyval" where
  "arg d k = dget d k PNone"

fun make_request :: "request_type \<Rightarrow> pydict \<Rightarrow> py_exc + request" where
  "make_request FileWriteT d =
     (if kwargs_ok [''name'', ''content''] [] d then Inr (FileWriteRequest (arg d ''name'') (arg d ''content'')) else Inl TypeError)"
| "make_request NotifyT d =
     (if kwargs_ok [''title'', ''body''] [''urgency''] d
      then Inr (NotifyRequest (arg d ''title'') (arg d ''body'') (dget d ''urgency'' (PStr ''normal''))) else Inl TypeError)"
| "make_request ShellT d =
     (if kwargs_ok [''command''] [''args''] d then Inr (ShellRequest (arg d ''command'') (dget d ''args'' (PList []))) else Inl TypeError)"
| "make_request StimulusT d =
     (if kwargs_ok [''action''] [] d then Inr (StimulusRequest (arg d ''action'')) else Inl TypeError)"

text \<open>The request without its content.\<close>

fun summarize_request :: "request \<Rightarrow> pydict" where
  "summarize_request (FileWriteRequest n c) = [(''name'', n)]"
| "summarize_request (NotifyRequest t b u) = [(''title'', t), (''urgency'', u)]"
| "summarize_request (ShellRequest c xs) = [(''command'', c), (''args'', xs)]"
| "summarize_request (StimulusRequest a) = [(''action'', a)]"

definition REQUEST_TYPES :: "string \<Rightarrow> request_type option" where
  "REQUEST_TYPES = [''file_write'' \<mapsto> FileWriteT, ''notify'' \<mapsto> NotifyT, ''shell'' \<mapsto> ShellT]"

section \<open>The command whitelist\<close>

record whitelist_entry =
  we_command :: string
  we_patterns :: "string list"
  we_cwd :: "string option"

type_synonym whitelist = "(string \<times> whitelist_entry) list"

definition forbidden_char :: "char \<Rightarrow> bool" where
  "forbidden_char c \<longleftrightarrow> (of_char c :: nat) \<in> {32, 9, 10, 59, 38, 124, 96}"

fun whitelist_add :: "whitelist_entry list \<Rightarrow> whitelist \<Rightarrow> py_exc + whitelist" where
  "whitelist_add [] w = Inr w"
| "whitelist_add (e # es) w =
     (if we_command e = [] \<or> list_ex forbidden_char (we_command e) then Inl ValueError
      else if map_of w (we_command e) \<noteq> None then Inl ValueError
      else whitelist_add es (w @ [(we_command e, e)]))"

definition CommandWhitelist :: "whitelist_entry list \<Rightarrow> py_exc + whitelist" where
  "CommandWhitelist es = whitelist_add es []"

text \<open>\<open>re.fullmatch\<close> raises for a pattern that is none and for an argument that is no string.\<close>

fun match_args :: "(string \<Rightarrow> string \<Rightarrow> py_exc + bool) \<Rightarrow> string list \<Rightarrow> pyval list \<Rightarrow> py_exc + bool" where
  "match_args fullmatch (p # ps) (PStr a # as) =
     ebind (fullmatch p a) (\<lambda>ok. if ok then match_args fullmatch ps as else Inr False)"
| "match_args fullmatch (p # ps) (_ # as) = Inl TypeError"
| "match_args fullmatch _ _ = Inr True"

definition whitelist_match ::
  "(string \<Rightarrow> string \<Rightarrow> py_exc + bool) \<Rightarrow> whitelist \<Rightarrow> pyval \<Rightarrow> pyval list \<Rightarrow> py_exc + whitelist_entry option" where
  "whitelist_match fullmatch w command args =
     (case command of
        PStr c \<Rightarrow>
          (case map_of w c of
             None \<Rightarrow> Inr None
           | Some e \<Rightarrow>
               if length args \<noteq> length (we_patterns e) then Inr None
               else ebind (match_args fullmatch (we_patterns e) args) (\<lambda>ok. Inr (if ok then Some e else None)))
      | PList _ \<Rightarrow> Inl TypeError
      | PDict _ \<Rightarrow> Inl TypeError
      | _ \<Rightarrow> Inr None)"

section \<open>Effectors\<close>

type_synonym path = "string list"

datatype 'x effector =
    FileWriteEffector string nat
  | NotifyEffector string "string option"
  | ShellEffector whitelist
  | Registered 'x

datatype 'x effect =
    Write path string
  | Exec string "pyval list" "string option"
  | LogLine string
  | External 'x request

record action_result =
  ar_success :: bool
  ar_elapsed :: real
  ar_error :: "string option"

record act_io =
  io_elapsed :: real
  io_sandbox :: "string \<Rightarrow> path"
  io_resolve :: "string \<Rightarrow> string \<Rightarrow> py_exc + path"
  io_mkdir :: bool
  io_parent :: bool
  io_write :: bool
  io_which :: "string \<Rightarrow> bool"
  io_exit :: "int option"
  io_timeout :: bool
  io_fullmatch :: "string \<Rightarrow> string \<Rightarrow> py_exc + bool"
  io_external :: "py_exc + action_result"
  io_time :: real
  io_log :: bool
  io_bus :: bool

fun exc_name :: "py_exc \<Rightarrow> string" where
  "exc_name ValueError = ''ValueError''"
| "exc_name TypeError = ''TypeError''"
| "exc_name KeyError = ''KeyError''"
| "exc_name LookupError = ''LookupError''"
| "exc_name OverflowError = ''OverflowError''"
| "exc_name RuntimeError = ''RuntimeError''"
| "exc_name _ = ''Exception''"

definition fail :: "act_io \<Rightarrow> py_exc \<Rightarrow> action_result" where
  "fail io e = \<lparr>ar_success = False, ar_elapsed = io_elapsed io, ar_error = Some (exc_name e)\<rparr>"

definition done_if :: "act_io \<Rightarrow> bool \<Rightarrow> py_exc \<Rightarrow> action_result" where
  "done_if io ok e = (if ok then \<lparr>ar_success = True, ar_elapsed = io_elapsed io, ar_error = None\<rparr> else fail io e)"

text \<open>The length of the UTF-8 form; a character here is a code point below 256.\<close>

definition utf8_size :: "string \<Rightarrow> nat" where
  "utf8_size s = sum_list (map (\<lambda>c. if (of_char c :: nat) < 128 then 1 else 2) s)"

definition resolve_sandbox_path :: "act_io \<Rightarrow> string \<Rightarrow> pyval \<Rightarrow> py_exc + path" where
  "resolve_sandbox_path io sandbox name =
     (if \<not> truthy name then Inl ValueError
      else case name of
        PStr s \<Rightarrow>
          if hd s = CHR ''/'' then Inl ValueError
          else ebind (io_resolve io sandbox s) (\<lambda>candidate.
            if prefix (io_sandbox io sandbox) candidate then Inr candidate else Inl ValueError)
      | _ \<Rightarrow> Inl TypeError)"

definition file_write_act :: "string \<Rightarrow> nat \<Rightarrow> act_io \<Rightarrow> request \<Rightarrow> action_result \<times> 'x effect list" where
  "file_write_act sandbox max_bytes io r =
     (case r of
        FileWriteRequest name content \<Rightarrow>
          (case content of
             PStr body \<Rightarrow>
               if utf8_size body > max_bytes then (fail io ValueError, [])
               else if \<not> io_mkdir io then (fail io OtherException, [])
               else (case resolve_sandbox_path io sandbox name of
                   Inl e \<Rightarrow> (fail io e, [])
                 | Inr target \<Rightarrow>
                     if \<not> io_parent io then (fail io OtherException, [])
                     else (done_if io (io_write io) OtherException, [Write target body]))
           | _ \<Rightarrow> (fail io OtherException, []))
      | _ \<Rightarrow> (fail io TypeError, []))"

definition is_str :: "pyval \<Rightarrow> bool" where
  "is_str v = (case v of PStr _ \<Rightarrow> True | _ \<Rightarrow> False)"

definition notify_act :: "string \<Rightarrow> string option \<Rightarrow> act_io \<Rightarrow> request \<Rightarrow> action_result \<times> 'x effect list" where
  "notify_act cmd fallback io r =
     (case r of
        NotifyRequest title body urgency \<Rightarrow>
          if io_which io cmd
          then if list_all is_str [urgency, title, body]
               then (done_if io (io_exit io = Some 0) RuntimeError, [Exec cmd [PStr ''-u'', urgency, title, body] None])
               else (fail io TypeError, [])
          else (case fallback of
              Some f \<Rightarrow> (done_if io (io_write io) OtherException, [LogLine f])
            | None \<Rightarrow> (fail io RuntimeError, []))
      | _ \<Rightarrow> (fail io TypeError, []))"

text \<open>\<open>list(args)\<close>\<close>

definition list_of :: "pyval \<Rightarrow> py_exc + pyval list" where
  "list_of v = (case v of PList vs \<Rightarrow> Inr vs | PStr s \<Rightarrow> Inr (map (\<lambda>c. PStr [c]) s)
     | PDict d \<Rightarrow> Inr (map (\<lambda>(k, _). PStr k) d) | _ \<Rightarrow> Inl TypeError)"

definition shell_act :: "whitelist \<Rightarrow> act_io \<Rightarrow> request \<Rightarrow> action_result \<times> 'x effect list" where
  "shell_act w io r =
     (case r of
        ShellRequest command args \<Rightarrow>
          (case ebind (list_of args) (\<lambda>vs. ebind (whitelist_match (io_fullmatch io) w command vs) (\<lambda>oe. Inr (vs, oe))) of
             Inl e \<Rightarrow> (fail io e, [])
           | Inr (_, None) \<Rightarrow> (fail io ValueError, [])
           | Inr (vs, Some e) \<Rightarrow>
               (done_if io (io_exit io = Some 0 \<and> \<not> io_timeout io) RuntimeError, [Exec (we_command e) vs (we_cwd e)]))
      | _ \<Rightarrow> (fail io TypeError, []))"

fun effector_act :: "act_io \<Rightarrow> 'x effector \<Rightarrow> request \<Rightarrow> (py_exc + action_result) \<times> 'x effect list" where
  "effector_act io (FileWriteEffector sandbox m) r = (case file_write_act sandbox m io r of (a, fx) \<Rightarrow> (Inr a, fx))"
| "effector_act io (NotifyEffector cmd f) r = (case notify_act cmd f io r of (a, fx) \<Rightarrow> (Inr a, fx))"
| "effector_act io (ShellEffector w) r = (case shell_act w io r of (a, fx) \<Rightarrow> (Inr a, fx))"
| "effector_act io (Registered x) r = (io_external io, [External x r])"

section \<open>The module\<close>

record ('k, 'x) effectors =
  ef_secret :: "'k option"
  ef_enforce :: bool
  ef_high_water :: "string \<Rightarrow> int option"
  ef_enabled :: "string list"
  ef_types :: "string \<Rightarrow> request_type option"
  ef_effectors :: "string \<Rightarrow> 'x effector option"
  ef_baseline :: real
  ef_alert :: real
  ef_log :: "line list option"
  ef_published :: "(pydict \<times> real) list"
  ef_effects :: "'x effect list"

text \<open>What does not change: the keyed hash, the link of the audit chain, \<open>str\<close> of a value.\<close>

record 'k ports =
  pt_mac :: "'k mac"
  pt_hash :: link_hash
  pt_str :: "pyval \<Rightarrow> string"

definition effectors_init ::
  "real \<Rightarrow> real \<Rightarrow> 'k option \<Rightarrow> bool \<Rightarrow> string list \<Rightarrow> string \<Rightarrow> nat \<Rightarrow> string \<Rightarrow> string option \<Rightarrow> whitelist \<Rightarrow>
   line list option \<Rightarrow> py_exc + ('k, 'x) effectors" where
  "effectors_init baseline alert secret enforce enabled sandbox max_bytes notify fallback w file =
     (if \<not> (0 \<le> baseline \<and> baseline \<le> 1) then Inl ValueError
      else if \<not> (0 \<le> alert \<and> alert \<le> 1) then Inl ValueError
      else if max_bytes = 0 then Inl ValueError
      else Inr \<lparr>ef_secret = secret, ef_enforce = enforce, ef_high_water = Map.empty, ef_enabled = enabled,
             ef_types = REQUEST_TYPES,
             ef_effectors = [''file_write'' \<mapsto> FileWriteEffector sandbox max_bytes, ''notify'' \<mapsto> NotifyEffector notify fallback,
                             ''shell'' \<mapsto> ShellEffector w],
             ef_baseline = baseline, ef_alert = alert, ef_log = file, ef_published = [], ef_effects = []\<rparr>)"

definition register_effector :: "string \<Rightarrow> 'x effector \<Rightarrow> request_type option \<Rightarrow> ('k, 'x) effectors \<Rightarrow> ('k, 'x) effectors" where
  "register_effector name e ty s =
     (let s1 = s\<lparr>ef_effectors := (ef_effectors s)(name \<mapsto> e)\<rparr>
      in case ty of None \<Rightarrow> s1 | Some t \<Rightarrow> s1\<lparr>ef_types := (ef_types s1)(name \<mapsto> t)\<rparr>)"

definition str_or_empty :: "(pyval \<Rightarrow> string) \<Rightarrow> pydict \<Rightarrow> string \<Rightarrow> string" where
  "str_or_empty py_str d k = (let v = dget d k PNone in if truthy v then str_of py_str v else [])"

definition dict_or_empty :: "pydict \<Rightarrow> string \<Rightarrow> pyval" where
  "dict_or_empty d k = (let v = dget d k PNone in if truthy v then v else PDict [])"

definition verify_provenance :: "'k ports \<Rightarrow> event \<Rightarrow> ('k, 'x) effectors \<Rightarrow> (py_exc + string option) \<times> ('k, 'x) effectors" where
  "verify_provenance P e s =
     (if \<not> ef_enforce s then (Inr None, s)
      else case ef_secret s of
        None \<Rightarrow> (Inr (Some ''provenance enforcement enabled but no signing secret configured''), s)
      | Some secret \<Rightarrow>
          let d = ev_payload e in
          case (dget d ''sig'' PNone, dget d ''run_id'' PNone, dget d ''seq'' PNone) of
            (PStr signature, rid, n) \<Rightarrow>
              if signature = [] then (Inr (Some ''act intent missing provenance signature''), s)
              else (case (rid, n) of
                (PStr run_id, n) \<Rightarrow>
                  if run_id = [] then (Inr (Some ''act intent missing run_id''), s)
                  else (case n of
                    PInt seq \<Rightarrow>
                      (case verify_intent_signature (pt_mac P) secret
                              (ACT, str_or_empty (pt_str P) d ''effector'', dict_or_empty d ''params'', run_id, seq) (PStr signature) of
                         Inl x \<Rightarrow> (Inl x, s)
                       | Inr False \<Rightarrow> (Inr (Some ''act intent signature is invalid''), s)
                       | Inr True \<Rightarrow>
                           if (case ef_high_water s run_id of None \<Rightarrow> False | Some prev \<Rightarrow> seq \<le> prev)
                           then (Inr (Some ''act intent already realized (replay)''), s)
                           else (Inr None, s\<lparr>ef_high_water := (ef_high_water s)(run_id \<mapsto> seq)\<rparr>))
                  | _ \<Rightarrow> (Inr (Some ''act intent missing or malformed seq''), s))
              | _ \<Rightarrow> (Inr (Some ''act intent missing run_id''), s))
          | _ \<Rightarrow> (Inr (Some ''act intent missing provenance signature''), s))"

text \<open>A failing append of the log is logged only; a failing bus raises.\<close>

definition audit :: "'k ports \<Rightarrow> act_io \<Rightarrow> audit_entry \<Rightarrow> ('k, 'x) effectors \<Rightarrow> ('k, 'x) effectors" where
  "audit P io a s = (if io_log io then s\<lparr>ef_log := append_entry (pt_hash P) (pt_str P) a (ef_log s)\<rparr> else s)"

definition publish :: "act_io \<Rightarrow> pydict \<Rightarrow> real \<Rightarrow> ('k, 'x) effectors \<Rightarrow> py_exc option \<times> ('k, 'x) effectors" where
  "publish io payload salience s =
     (if io_bus io then (None, s\<lparr>ef_published := ef_published s @ [(payload, salience)]\<rparr>) else (Some OtherException, s))"

definition record_provenance_rejected ::
  "'k ports \<Rightarrow> act_io \<Rightarrow> event \<Rightarrow> string \<Rightarrow> ('k, 'x) effectors \<Rightarrow> py_exc option \<times> ('k, 'x) effectors" where
  "record_provenance_rejected P io e reason s =
     (let name = str_or_empty (pt_str P) (ev_payload e) ''effector'' in
      publish io
        [(''effector'', PStr name), (''success'', PBool False), (''elapsed_ms'', PFloat (Fin 0)), (''error'', PStr reason),
         (''blocked'', PBool False), (''provenance_rejected'', PBool True), (''alert'', PBool True)]
        (ef_alert s)
        (audit P io \<lparr>ae_timestamp = Fin (io_time io), ae_effector = name, ae_request = [], ae_success = False,
                     ae_elapsed = Fin 0, ae_error = Some reason, ae_blocked = False, ae_rejected = True\<rparr> s))"

definition opt_str :: "string option \<Rightarrow> pyval" where
  "opt_str x = (case x of None \<Rightarrow> PNone | Some s \<Rightarrow> PStr s)"

definition record_action ::
  "'k ports \<Rightarrow> act_io \<Rightarrow> string \<Rightarrow> request \<Rightarrow> action_result \<Rightarrow> bool \<Rightarrow> ('k, 'x) effectors \<Rightarrow> py_exc option \<times> ('k, 'x) effectors" where
  "record_action P io name r res is_blocked s =
     publish io
       [(''effector'', PStr name), (''success'', PBool (ar_success res)), (''elapsed_ms'', PFloat (Fin (ar_elapsed res))),
        (''error'', opt_str (ar_error res)), (''blocked'', PBool is_blocked), (''alert'', PBool (\<not> ar_success res))]
       (if ar_success res then ef_baseline s else ef_alert s)
       (audit P io \<lparr>ae_timestamp = Fin (io_time io), ae_effector = name, ae_request = summarize_request r,
                    ae_success = ar_success res, ae_elapsed = Fin (ar_elapsed res), ae_error = ar_error res,
                    ae_blocked = is_blocked, ae_rejected = False\<rparr> s)"

definition refused :: "string \<Rightarrow> action_result" where
  "refused why = \<lparr>ar_success = False, ar_elapsed = 0, ar_error = Some why\<rparr>"

definition act :: "'k ports \<Rightarrow> act_io \<Rightarrow> string \<Rightarrow> request \<Rightarrow> ('k, 'x) effectors \<Rightarrow> py_exc option \<times> ('k, 'x) effectors" where
  "act P io name r s =
     (if name \<notin> set (ef_enabled s)
      then record_action P io name r
             (refused (''effector '' @ squoted name @ '' is not in the operator effector whitelist (blocked)'')) True s
      else case ef_effectors s name of
        None \<Rightarrow> record_action P io name r (refused (''unknown effector '' @ squoted name)) False s
      | Some e \<Rightarrow>
          (case effector_act io e r of
             (res, fx) \<Rightarrow>
               let s1 = s\<lparr>ef_effects := ef_effects s @ fx\<rparr> in
               case res of Inl x \<Rightarrow> (Some x, s1) | Inr a \<Rightarrow> record_action P io name r a False s1))"

text \<open>A raise out of the act is logged; one out of the provenance boundary is not caught.\<close>

definition handle_intent :: "'k ports \<Rightarrow> act_io \<Rightarrow> event \<Rightarrow> ('k, 'x) effectors \<Rightarrow> py_exc option \<times> ('k, 'x) effectors" where
  "handle_intent P io e s =
     (if str_or_empty (pt_str P) (ev_payload e) ''kind'' \<noteq> ACT then (None, s)
      else case verify_provenance P e s of
        (Inl x, s1) \<Rightarrow> (Some x, s1)
      | (Inr (Some reason), s1) \<Rightarrow> record_provenance_rejected P io e reason s1
      | (Inr None, s1) \<Rightarrow>
          let name = str_or_empty (pt_str P) (ev_payload e) ''effector'' in
          if name = [] then (None, s1)
          else (case ef_types s1 name of
              None \<Rightarrow> (None, s1)
            | Some ty \<Rightarrow>
                (case dict_or_empty (ev_payload e) ''params'' of
                   PDict d \<Rightarrow>
                     (case make_request ty d of
                        Inl _ \<Rightarrow> (None, s1)
                      | Inr r \<Rightarrow> (None, snd (act P io name r s1)))
                 | _ \<Rightarrow> (None, s1))))"

text \<open>The intent loop: the first raise ends it, and what follows on the stream is not handled.\<close>

fun intent_loop :: "'k ports \<Rightarrow> (act_io \<times> event) list \<Rightarrow> ('k, 'x) effectors \<Rightarrow> py_exc option \<times> ('k, 'x) effectors" where
  "intent_loop P [] s = (None, s)"
| "intent_loop P ((io, e) # es) s =
     (case handle_intent P io e s of
        (Some x, s1) \<Rightarrow> (Some x, s1)
      | (None, s1) \<Rightarrow> intent_loop P es s1)"

section \<open>What a step leaves alone\<close>

text \<open>The settings and the boundary of the module: everything but the marks, the log and the attempts.\<close>

definition same_setup :: "('k, 'x) effectors \<Rightarrow> ('k, 'x) effectors \<Rightarrow> bool" where
  "same_setup s s' \<longleftrightarrow> ef_secret s' = ef_secret s \<and> ef_enforce s' = ef_enforce s \<and> ef_enabled s' = ef_enabled s \<and>
     ef_types s' = ef_types s \<and> ef_effectors s' = ef_effectors s \<and> ef_alert s' = ef_alert s \<and> ef_baseline s' = ef_baseline s"

lemma same_setup_refl [simp]: "same_setup s s"
  by (simp add: same_setup_def)

lemma same_setup_trans: "same_setup s t \<Longrightarrow> same_setup t u \<Longrightarrow> same_setup s u"
  by (simp add: same_setup_def)

lemma publish_keeps [simp]:
  "same_setup s (snd (publish io d x s))" "ef_high_water (snd (publish io d x s)) = ef_high_water s"
  "ef_effects (snd (publish io d x s)) = ef_effects s" "ef_log (snd (publish io d x s)) = ef_log s"
  by (simp_all add: publish_def same_setup_def)

lemma audit_keeps [simp]:
  "same_setup s (audit P io a s)" "ef_high_water (audit P io a s) = ef_high_water s"
  "ef_effects (audit P io a s) = ef_effects s" "ef_published (audit P io a s) = ef_published s"
  "ef_alert (audit P io a s) = ef_alert s"
  by (simp_all add: audit_def same_setup_def)

lemma record_keeps [simp]:
  "same_setup s (snd (record_action P io n r a b s))" "ef_high_water (snd (record_action P io n r a b s)) = ef_high_water s"
  "ef_effects (snd (record_action P io n r a b s)) = ef_effects s"
  "same_setup s (snd (record_provenance_rejected P io e y s))"
  "ef_high_water (snd (record_provenance_rejected P io e y s)) = ef_high_water s"
  "ef_effects (snd (record_provenance_rejected P io e y s)) = ef_effects s"
  by (simp_all add: record_action_def record_provenance_rejected_def Let_def,
      auto intro: same_setup_trans [OF audit_keeps(1) publish_keeps(1)])

text \<open>The attempts of an act are those of an enabled, registered effector.\<close>

definition act_effects :: "act_io \<Rightarrow> string \<Rightarrow> request \<Rightarrow> ('k, 'x) effectors \<Rightarrow> 'x effect list" where
  "act_effects io name r s =
     (if name \<in> set (ef_enabled s)
      then (case ef_effectors s name of None \<Rightarrow> [] | Some e \<Rightarrow> snd (effector_act io e r)) else [])"

lemma act_keeps [simp]:
  "same_setup s (snd (act P io name r s))" "ef_high_water (snd (act P io name r s)) = ef_high_water s"
  "ef_effects (snd (act P io name r s)) = ef_effects s @ act_effects io name r s"
proof -
  have s1: "same_setup s (s\<lparr>ef_effects := fx\<rparr>)" for fx by (simp add: same_setup_def)
  note recorded = same_setup_trans [OF s1 record_keeps(1)]
  show "same_setup s (snd (act P io name r s))"
    by (auto simp: act_def Let_def s1 recorded split: option.splits prod.splits sum.splits)
  show "ef_high_water (snd (act P io name r s)) = ef_high_water s"
    by (auto simp: act_def Let_def split: option.splits prod.splits sum.splits)
  show "ef_effects (snd (act P io name r s)) = ef_effects s @ act_effects io name r s"
    by (auto simp: act_def act_effects_def Let_def split: option.splits prod.splits sum.splits)
qed

section \<open>The provenance boundary\<close>

text \<open>The token of an intent, and what the boundary asks of an accepted one.\<close>

definition token :: "event \<Rightarrow> pyval \<times> pyval" where
  "token e = (dget (ev_payload e) ''run_id'' PNone, dget (ev_payload e) ''seq'' PNone)"

definition authorised :: "'k ports \<Rightarrow> 'k \<Rightarrow> event \<Rightarrow> string \<Rightarrow> int \<Rightarrow> bool" where
  "authorised P k e rid n \<longleftrightarrow> token e = (PStr rid, PInt n) \<and> rid \<noteq> [] \<and>
     (\<exists>g. dget (ev_payload e) ''sig'' PNone = PStr g \<and>
        pt_mac P k (ACT, str_or_empty (pt_str P) (ev_payload e) ''effector'', dict_or_empty (ev_payload e) ''params'', rid, n) = Some g)"

definition above_mark :: "('k, 'x) effectors \<Rightarrow> string \<Rightarrow> int \<Rightarrow> bool" where
  "above_mark s rid n \<longleftrightarrow> (\<forall>m. ef_high_water s rid = Some m \<longrightarrow> m < n)"

lemma verify_signature_True:
  "verify_intent_signature mac k x (PStr g) = Inr True \<Longrightarrow> g \<noteq> [] \<and> mac k x = Some g"
  by (auto simp: verify_intent_signature_def compare_digest_def split: if_splits option.splits)

lemma verify_accepts:
  assumes "verify_provenance P e s = (Inr None, s')" "ef_enforce s"
  obtains k rid n where "ef_secret s = Some k" "authorised P k e rid n" "above_mark s rid n"
    "s' = s\<lparr>ef_high_water := (ef_high_water s)(rid \<mapsto> n)\<rparr>"
proof -
  obtain k where k: "ef_secret s = Some k"
    using assms by (cases "ef_secret s") (simp_all add: verify_provenance_def)
  obtain g where g: "dget (ev_payload e) ''sig'' PNone = PStr g" "g \<noteq> []"
    using assms k by (auto simp: verify_provenance_def Let_def split: pyval.splits if_splits)
  obtain rid where rid: "dget (ev_payload e) ''run_id'' PNone = PStr rid" "rid \<noteq> []"
    using assms k g by (auto simp: verify_provenance_def Let_def split: pyval.splits if_splits)
  obtain n where n: "dget (ev_payload e) ''seq'' PNone = PInt n"
    using assms k g rid by (auto simp: verify_provenance_def Let_def split: pyval.splits if_splits)
  let ?x = "(ACT, str_or_empty (pt_str P) (ev_payload e) ''effector'', dict_or_empty (ev_payload e) ''params'', rid, n)"
  have v: "verify_intent_signature (pt_mac P) k ?x (PStr g) = Inr True"
    using assms k g rid n by (auto simp: verify_provenance_def Let_def split: sum.splits bool.splits if_splits option.splits)
  have "above_mark s rid n" "s' = s\<lparr>ef_high_water := (ef_high_water s)(rid \<mapsto> n)\<rparr>"
    using assms k g rid n v by (auto simp: verify_provenance_def above_mark_def Let_def split: option.splits if_splits)
  moreover have "authorised P k e rid n"
    using g rid n verify_signature_True [OF v] by (simp add: authorised_def token_def)
  ultimately show ?thesis using k that by blast
qed

lemma verify_rejects:
  assumes "verify_provenance P e s = (r, s')" "r \<noteq> Inr None"
  shows "s' = s"
proof (rule ccontr)
  assume "s' \<noteq> s"
  with assms show False
    by (auto simp: verify_provenance_def Let_def split: option.splits pyval.splits sum.splits bool.splits if_splits)
qed

text \<open>What handling one intent attempts, and what it moves.\<close>

lemma handle_cases:
  assumes "handle_intent P io e s = (x, s')" "ef_enforce s"
  obtains (still) "same_setup s s'" "ef_high_water s' = ef_high_water s" "ef_effects s' = ef_effects s"
  | (accepted) k rid n where "same_setup s s'" "ef_secret s = Some k" "authorised P k e rid n" "above_mark s rid n"
      "ef_high_water s' = (ef_high_water s)(rid \<mapsto> n)"
      "ef_effects s' = ef_effects s \<or> (\<exists>r. ef_effects s' = ef_effects s @ act_effects io (str_or_empty (pt_str P) (ev_payload e) ''effector'') r s)"
proof (cases "str_or_empty (pt_str P) (ev_payload e) ''kind'' = ACT")
  case False
  with assms show ?thesis by (intro still) (simp_all add: handle_intent_def)
next
  case kind: True
  obtain v s1 where v: "verify_provenance P e s = (v, s1)" by fastforce
  show ?thesis
  proof (cases "v = Inr None")
    case False
    with verify_rejects [OF v] have s1: "s1 = s" by simp
    show ?thesis
    proof (cases v)
      case (Inl y)
      with assms kind v s1 show ?thesis by (intro still) (simp_all add: handle_intent_def)
    next
      case (Inr w)
      with False obtain reason where "v = Inr (Some reason)" by (cases w) simp_all
      with assms kind v s1 have "s' = snd (record_provenance_rejected P io e reason s)"
        by (simp add: handle_intent_def)
      then show ?thesis by (intro still) simp_all
    qed
  next
    case True
    note v = v [unfolded True]
    from verify_accepts [OF v assms(2)] obtain k rid n where a: "ef_secret s = Some k" "authorised P k e rid n"
      "above_mark s rid n" "s1 = s\<lparr>ef_high_water := (ef_high_water s)(rid \<mapsto> n)\<rparr>" .
    let ?name = "str_or_empty (pt_str P) (ev_payload e) ''effector''"
    have s1: "same_setup s s1" "act_effects io ?name r s1 = act_effects io ?name r s" for r
      using a(4) by (simp_all add: same_setup_def act_effects_def)
    consider "s' = s1" | r where "s' = snd (act P io ?name r s1)"
      using assms(1) kind v
      by (auto simp: handle_intent_def Let_def split: if_splits option.splits pyval.splits sum.splits)
    then show ?thesis
    proof cases
      case 1
      with a s1 show ?thesis by (intro accepted [of k rid n]) simp_all
    next
      case 2
      then have "same_setup s s'" using same_setup_trans [OF s1(1) act_keeps(1)] by simp
      with 2 a s1 show ?thesis by (intro accepted [of k rid n]) auto
    qed
  qed
qed

section \<open>Acts over a run\<close>

text \<open>The intents of a run whose handling attempted something.\<close>

fun acted :: "'k ports \<Rightarrow> (act_io \<times> event) list \<Rightarrow> ('k, 'x) effectors \<Rightarrow> event list" where
  "acted P [] s = []"
| "acted P ((io, e) # es) s =
     (case handle_intent P io e s of
        (x, s1) \<Rightarrow> (if ef_effects s1 \<noteq> ef_effects s then [e] else []) @ (if x = None then acted P es s1 else []))"

definition may_act :: "'k ports \<Rightarrow> ('k, 'x) effectors \<Rightarrow> event \<Rightarrow> bool" where
  "may_act P s e \<longleftrightarrow> (\<exists>k rid n. ef_secret s = Some k \<and> authorised P k e rid n \<and> above_mark s rid n \<and>
     str_or_empty (pt_str P) (ev_payload e) ''effector'' \<in> set (ef_enabled s))"

lemma act_effects_enabled: "act_effects io name r s \<noteq> [] \<Longrightarrow> name \<in> set (ef_enabled s)"
  by (simp add: act_effects_def split: if_splits)

lemma may_act_back:
  assumes "same_setup s s1" "\<And>rid n. above_mark s1 rid n \<Longrightarrow> above_mark s rid n" "may_act P s1 e"
  shows "may_act P s e"
  using assms unfolding may_act_def same_setup_def by metis

lemma handle_marks:
  assumes "handle_intent P io e s = (x, s1)" "ef_enforce s"
  shows "same_setup s s1 \<and> (\<forall>rid n. above_mark s1 rid n \<longrightarrow> above_mark s rid n) \<and>
    (ef_effects s1 \<noteq> ef_effects s \<longrightarrow> may_act P s e \<and>
       (\<forall>rid n. token e = (PStr rid, PInt n) \<longrightarrow> ef_high_water s1 rid = Some n))"
  using assms
proof (cases rule: handle_cases)
  case still
  then show ?thesis by (simp add: above_mark_def)
next
  case (accepted k rid n)
  have marks: "above_mark s rid' n'" if "above_mark s1 rid' n'" for rid' n'
    using that accepted(4,5) by (force simp: above_mark_def split: if_splits)
  have "may_act P s e" if "ef_effects s1 \<noteq> ef_effects s"
  proof -
    from that accepted(6) obtain r where "act_effects io (str_or_empty (pt_str P) (ev_payload e) ''effector'') r s \<noteq> []" by auto
    from act_effects_enabled [OF this] accepted(2-4) show ?thesis unfolding may_act_def by blast
  qed
  moreover have "ef_high_water s1 rid' = Some n'" if "token e = (PStr rid', PInt n')" for rid' n'
    using that accepted(3,5) by (simp add: authorised_def)
  ultimately show ?thesis using accepted(1) marks by blast
qed

text \<open>
  C2. Acts are signed, enabled and never replayed: over any stream of events, an attempt on the world is
  made only for an act whose signature is the keyed hash of its own fields under the boot's secret,
  whose effector the operator has enabled, and whose number is above the mark of its run; and no two
  attempts are made for the same run id and number.
\<close>

theorem acts_are_signed_and_never_replayed:
  assumes "ef_enforce s"
  shows "distinct (map token (acted P es s)) \<and> (\<forall>e \<in> set (acted P es s). may_act P s e)"
  using assms
proof (induction P es s rule: acted.induct)
  case (2 P io e es s)
  obtain x s1 where h: "handle_intent P io e s = (x, s1)" by fastforce
  note m = handle_marks [OF h "2.prems"]
  have enf: "ef_enforce s1" using m "2.prems" by (simp add: same_setup_def)
  have rest: "distinct (map token (acted P es s1)) \<and> (\<forall>e \<in> set (acted P es s1). may_act P s1 e)" if "x = None"
    using "2.IH" [OF h [symmetric] that enf] .
  have further: "may_act P s e'" if "x = None" "e' \<in> set (acted P es s1)" for e'
    using rest that may_act_back [of s s1 P e'] m by blast
  have "token e \<notin> token ` set (acted P es s1)" if q: "x = None" "ef_effects s1 \<noteq> ef_effects s"
  proof
    assume "token e \<in> token ` set (acted P es s1)"
    then obtain e' where e': "e' \<in> set (acted P es s1)" "token e = token e'" by blast
    then obtain k rid n where "authorised P k e' rid n" "above_mark s1 rid n"
      using rest [OF q(1)] unfolding may_act_def by blast
    moreover from this have "ef_high_water s1 rid = Some n" using m q(2) e'(2) by (simp add: authorised_def)
    ultimately show False by (auto simp: above_mark_def)
  qed
  with m rest further show ?case by (auto simp: h)
qed simp

definition sample_io :: act_io where
  "sample_io = \<lparr>io_elapsed = 1, io_sandbox = (\<lambda>_. [''files'']), io_resolve = (\<lambda>_ s. Inr [''files'', s]), io_mkdir = True,
     io_parent = True, io_write = True, io_which = (\<lambda>_. True), io_exit = Some 0, io_timeout = False,
     io_fullmatch = (\<lambda>p a. Inr (p = a)), io_external = Inl OtherException, io_time = 0, io_log = True, io_bus = True\<rparr>"

definition sample_ports :: "string ports" where
  "sample_ports = \<lparr>pt_mac = (\<lambda>k x. case x of (kind, eff, params, rid, n) \<Rightarrow> Some (k @ eff)),
     pt_hash = (\<lambda>p c. CHR ''h'' # p), pt_str = (\<lambda>_. [])\<rparr>"

definition sample_act :: "int \<Rightarrow> event" where
  "sample_act n = \<lparr>ev_source = ''action_selection'', ev_type = ''intent.act'',
     ev_payload = [(''kind'', PStr ACT), (''effector'', PStr ''notify''),
       (''params'', PDict [(''title'', PStr ''t''), (''body'', PStr ''b'')]),
       (''run_id'', PStr ''r''), (''seq'', PInt n), (''sig'', PStr ''knotify'')],
     ev_salience = 1, ev_timestamp = 0, ev_parent = None\<rparr>"

definition sample_effectors :: "(string, unit) effectors" where
  "sample_effectors = \<lparr>ef_secret = Some ''k'', ef_enforce = True, ef_high_water = Map.empty, ef_enabled = [''notify''],
     ef_types = REQUEST_TYPES, ef_effectors = [''notify'' \<mapsto> NotifyEffector ''notify-send'' None], ef_baseline = 3 / 10,
     ef_alert = 7 / 10, ef_log = None, ef_published = [], ef_effects = []\<rparr>"

lemma sample_handled:
  "fst (handle_intent sample_ports sample_io (sample_act 0) sample_effectors) = None"
  "ef_effects (snd (handle_intent sample_ports sample_io (sample_act 0) sample_effectors)) \<noteq> []"
proof -
  have v: "verify_provenance sample_ports (sample_act 0) sample_effectors =
    (Inr None, sample_effectors\<lparr>ef_high_water := [''r'' \<mapsto> 0]\<rparr>)"
    by (simp add: verify_provenance_def sample_ports_def sample_act_def sample_effectors_def Let_def
        verify_intent_signature_def compare_digest_def ascii_def str_or_empty_def dict_or_empty_def str_of_def)
  have k: "str_or_empty (pt_str sample_ports) (ev_payload (sample_act 0)) ''kind'' = ACT"
    "str_or_empty (pt_str sample_ports) (ev_payload (sample_act 0)) ''effector'' = ''notify''"
    "dict_or_empty (ev_payload (sample_act 0)) ''params'' = PDict [(''title'', PStr ''t''), (''body'', PStr ''b'')]"
    by (simp_all add: sample_act_def str_or_empty_def dict_or_empty_def str_of_def ACT_def)
  have ty: "ef_types sample_effectors ''notify'' = Some NotifyT"
    by (simp add: sample_effectors_def REQUEST_TYPES_def)
  have "handle_intent sample_ports sample_io (sample_act 0) sample_effectors =
    (None, snd (act sample_ports sample_io ''notify'' (NotifyRequest (PStr ''t'') (PStr ''b'') (PStr ''normal''))
      (sample_effectors\<lparr>ef_high_water := [''r'' \<mapsto> 0]\<rparr>)))"
    by (simp add: handle_intent_def v k ty kwargs_ok_def arg_def)
  then show "fst (handle_intent sample_ports sample_io (sample_act 0) sample_effectors) = None"
    "ef_effects (snd (handle_intent sample_ports sample_io (sample_act 0) sample_effectors)) \<noteq> []"
    by (simp_all add: act_effects_def sample_effectors_def notify_act_def sample_io_def is_str_def)
qed

lemma acts_are_signed_and_never_replayed_witness:
  "acted sample_ports [(sample_io, sample_act 0), (sample_io, sample_act 0)] sample_effectors \<noteq> [] \<and>
   distinct (map token (acted sample_ports [(sample_io, sample_act 0), (sample_io, sample_act 0)] sample_effectors))"
proof
  have "ef_effects sample_effectors = []" by (simp add: sample_effectors_def)
  with sample_handled show "acted sample_ports [(sample_io, sample_act 0), (sample_io, sample_act 0)] sample_effectors \<noteq> []"
    by (cases "handle_intent sample_ports sample_io (sample_act 0) sample_effectors") simp
  have "ef_enforce sample_effectors" by (simp add: sample_effectors_def)
  from acts_are_signed_and_never_replayed [OF this]
  show "distinct (map token (acted sample_ports [(sample_io, sample_act 0), (sample_io, sample_act 0)] sample_effectors))"
    by blast
qed

section \<open>What an act may attempt\<close>

lemma match_args_all:
  "match_args fm ps as = Inr True \<Longrightarrow> length as = length ps \<Longrightarrow>
     list_all2 (\<lambda>p v. \<exists>a. v = PStr a \<and> fm p a = Inr True) ps as"
  by (induction fm ps as rule: match_args.induct) (auto split: if_splits)

lemma whitelist_match_Some:
  assumes "whitelist_match fm w command args = Inr (Some e)"
  shows "\<exists>c. command = PStr c \<and> map_of w c = Some e \<and>
    list_all2 (\<lambda>p v. \<exists>a. v = PStr a \<and> fm p a = Inr True) (we_patterns e) args"
proof -
  obtain c where c: "command = PStr c" using assms by (auto simp: whitelist_match_def split: pyval.splits)
  then obtain e' where e': "map_of w c = Some e'" using assms by (auto simp: whitelist_match_def split: option.splits)
  have len: "length args = length (we_patterns e')" and m: "match_args fm (we_patterns e') args = Inr True" and "e' = e"
    using assms c e' by (auto simp: whitelist_match_def split: if_splits)
  with c e' match_args_all [OF m len] show ?thesis by simp
qed

text \<open>The bounds of an attempt: where a file may be written, and which process may be started.\<close>

definition in_bounds :: "act_io \<Rightarrow> 'x effector \<Rightarrow> request \<Rightarrow> 'x effect \<Rightarrow> bool" where
  "in_bounds io e r x = (case x of
     Write target body \<Rightarrow>
       (case e of FileWriteEffector sandbox m \<Rightarrow> prefix (io_sandbox io sandbox) target \<and> utf8_size body \<le> m | _ \<Rightarrow> False)
   | Exec cmd args cwd \<Rightarrow>
       (case e of
          ShellEffector w \<Rightarrow> (\<exists>c en. map_of w c = Some en \<and> cmd = we_command en \<and> cwd = we_cwd en \<and>
            list_all2 (\<lambda>p v. \<exists>a. v = PStr a \<and> io_fullmatch io p a = Inr True) (we_patterns en) args)
        | NotifyEffector notify f \<Rightarrow> cmd = notify \<and> list_all is_str args \<and> length args = 4
        | _ \<Rightarrow> False)
   | LogLine f \<Rightarrow> (case e of NotifyEffector _ fallback \<Rightarrow> fallback = Some f | _ \<Rightarrow> False)
   | External y q \<Rightarrow> e = Registered y \<and> q = r)"

lemma resolve_inside: "resolve_sandbox_path io sandbox name = Inr target \<Longrightarrow> prefix (io_sandbox io sandbox) target"
  by (auto simp: resolve_sandbox_path_def split: if_splits pyval.splits)

lemma file_write_bounds:
  "x \<in> set (snd (file_write_act sandbox m io r)) \<Longrightarrow> in_bounds io (FileWriteEffector sandbox m) r x"
  by (auto simp: file_write_act_def in_bounds_def split: request.splits pyval.splits if_splits sum.splits dest: resolve_inside)

lemma notify_bounds:
  "x \<in> set (snd (notify_act cmd f io r)) \<Longrightarrow> in_bounds io (NotifyEffector cmd f) r x"
  by (auto simp: notify_act_def in_bounds_def is_str_def split: request.splits if_splits option.splits)

lemma shell_bounds:
  assumes "x \<in> set (snd (shell_act w io r))"
  shows "in_bounds io (ShellEffector w) r x"
proof -
  obtain command args where r: "r = ShellRequest command args"
    using assms by (cases r) (simp_all add: shell_act_def)
  obtain vs where vs: "list_of args = Inr vs" using assms r by (cases "list_of args") (simp_all add: shell_act_def)
  obtain e where e: "whitelist_match (io_fullmatch io) w command vs = Inr (Some e)"
    using assms r vs by (auto simp: shell_act_def split: sum.splits option.splits)
  then have "x = Exec (we_command e) vs (we_cwd e)" using assms r vs by (simp add: shell_act_def)
  with whitelist_match_Some [OF e] show ?thesis by (auto simp: in_bounds_def)
qed

lemma effector_bounds: "x \<in> set (snd (effector_act io e r)) \<Longrightarrow> in_bounds io e r x"
proof (cases e)
  case (FileWriteEffector sandbox m)
  then show "x \<in> set (snd (effector_act io e r)) \<Longrightarrow> ?thesis"
    using file_write_bounds [of x sandbox m io r] by (simp split: prod.splits)
next
  case (NotifyEffector cmd f)
  then show "x \<in> set (snd (effector_act io e r)) \<Longrightarrow> ?thesis"
    using notify_bounds [of x cmd f io r] by (simp split: prod.splits)
next
  case (ShellEffector w)
  then show "x \<in> set (snd (effector_act io e r)) \<Longrightarrow> ?thesis"
    using shell_bounds [of x w io r] by (simp split: prod.splits)
next
  case (Registered y)
  then show "x \<in> set (snd (effector_act io e r)) \<Longrightarrow> ?thesis" by (simp add: in_bounds_def)
qed


definition sample_writer :: "(string, unit) effectors" where
  "sample_writer = sample_effectors\<lparr>ef_enabled := [''file_write''],
     ef_effectors := [''file_write'' \<mapsto> FileWriteEffector ''state'' 100]\<rparr>"


section \<open>Refusals\<close>

text \<open>
  A refused act leaves a trace and nothing else: when the boundary gives a reason to reject an act,
  nothing is attempted and no mark moves, the log gains exactly one entry, marked as rejected with
  this reason and without the request, chained to the entry before it, and one alert is published.
\<close>

theorem rejected_acts_are_audited:
  assumes "str_or_empty (pt_str P) (ev_payload e) ''kind'' = ACT" and "fst (verify_provenance P e s) = Inr (Some reason)"
    and "io_log io" and "io_bus io"
  shows "\<exists>a p s'. handle_intent P io e s = (None, s') \<and> ef_effects s' = ef_effects s \<and> ef_high_water s' = ef_high_water s \<and>
    ef_log s' = append_entry (pt_hash P) (pt_str P) a (ef_log s) \<and> ae_rejected a \<and> ae_error a = Some reason \<and> ae_request a = [] \<and>
    ef_published s' = ef_published s @ [(p, ef_alert s)] \<and> dget p ''alert'' PNone = PBool True"
proof -
  obtain s1 where v: "verify_provenance P e s = (Inr (Some reason), s1)" using assms(2) by (metis prod.collapse)
  then have s1: "s1 = s" using verify_rejects by blast
  let ?a = "\<lparr>ae_timestamp = Fin (io_time io), ae_effector = str_or_empty (pt_str P) (ev_payload e) ''effector'',
    ae_request = [], ae_success = False, ae_elapsed = Fin 0, ae_error = Some reason, ae_blocked = False, ae_rejected = True\<rparr>"
  let ?p = "[(''effector'', PStr (str_or_empty (pt_str P) (ev_payload e) ''effector'')), (''success'', PBool False),
    (''elapsed_ms'', PFloat (Fin 0)), (''error'', PStr reason), (''blocked'', PBool False),
    (''provenance_rejected'', PBool True), (''alert'', PBool True)]"
  have "handle_intent P io e s = publish io ?p (ef_alert s) (audit P io ?a s)"
    using assms(1) v s1 by (simp add: handle_intent_def record_provenance_rejected_def Let_def)
  then have "handle_intent P io e s = (None, (audit P io ?a s)\<lparr>ef_published := ef_published s @ [(?p, ef_alert s)]\<rparr>)"
    using assms(4) by (simp add: publish_def)
  then show ?thesis using assms(3)
    by (intro exI [of _ ?a] exI [of _ ?p] exI [of _ "(audit P io ?a s)\<lparr>ef_published := ef_published s @ [(?p, ef_alert s)]\<rparr>"])
      (simp add: audit_def)
qed

lemma rejected_acts_are_audited_witness:
  "\<exists>a p s'. handle_intent sample_ports sample_io (sample_act 0) (sample_effectors\<lparr>ef_secret := None\<rparr>) = (None, s') \<and>
     ef_effects s' = [] \<and> ef_log s' = append_entry (pt_hash sample_ports) (pt_str sample_ports) a None \<and>
     ef_published s' = [(p, 7 / 10)]"
proof -
  let ?s = "sample_effectors\<lparr>ef_secret := None\<rparr>"
  have k: "str_or_empty (pt_str sample_ports) (ev_payload (sample_act 0)) ''kind'' = ACT"
    by (simp add: sample_act_def str_or_empty_def str_of_def ACT_def)
  have v: "fst (verify_provenance sample_ports (sample_act 0) ?s) =
      Inr (Some ''provenance enforcement enabled but no signing secret configured'')"
    by (simp add: verify_provenance_def sample_effectors_def)
  have io: "io_log sample_io" "io_bus sample_io" by (simp_all add: sample_io_def)
  have s: "ef_effects ?s = []" "ef_log ?s = None" "ef_published ?s = []" "ef_alert ?s = 7 / 10"
    by (simp_all add: sample_effectors_def)
  from rejected_acts_are_audited [OF k v io] show ?thesis unfolding s by auto
qed

section \<open>A signature that cannot be compared\<close>

text \<open>
  A signature outside ASCII ends the intent loop: the comparison of the digests raises, the boundary
  does not catch it, and nothing that follows on the stream is handled any more, whatever it is. The
  refused act itself leaves no trace: nothing is logged and nothing is published.
\<close>

theorem non_ascii_signature_ends_the_loop:
  assumes "str_or_empty (pt_str P) (ev_payload e) ''kind'' = ACT" and "ef_enforce s" and "ef_secret s = Some k"
    and "dget (ev_payload e) ''sig'' PNone = PStr g" and "\<not> ascii g" and "token e = (PStr rid, PInt n)" and "rid \<noteq> []"
    and "pt_mac P k (ACT, str_or_empty (pt_str P) (ev_payload e) ''effector'', dict_or_empty (ev_payload e) ''params'', rid, n) = Some h"
  shows "intent_loop P ((io, e) # rest) s = (Some TypeError, s)"
proof -
  have "g \<noteq> []" using assms(5) by (auto simp: ascii_def)
  then have "verify_provenance P e s = (Inl TypeError, s)"
    using assms by (simp add: verify_provenance_def token_def verify_intent_signature_def compare_digest_def Let_def)
  with assms(1) show ?thesis by (simp add: handle_intent_def)
qed

definition forged_act :: event where
  "forged_act = \<lparr>ev_source = ''action_selection'', ev_type = ''intent.act'',
     ev_payload = [(''kind'', PStr ACT), (''effector'', PStr ''notify''), (''run_id'', PStr ''r''), (''seq'', PInt 0),
       (''sig'', PStr [char_of (233 :: nat)])],
     ev_salience = 1, ev_timestamp = 0, ev_parent = None\<rparr>"

lemma non_ascii_signature_ends_the_loop_witness:
  "intent_loop sample_ports [(sample_io, forged_act), (sample_io, sample_act 0)] sample_effectors = (Some TypeError, sample_effectors) \<and>
   ef_effects (snd (intent_loop sample_ports [(sample_io, sample_act 0)] sample_effectors)) \<noteq> []"
proof
  show "intent_loop sample_ports [(sample_io, forged_act), (sample_io, sample_act 0)] sample_effectors = (Some TypeError, sample_effectors)"
    by (rule non_ascii_signature_ends_the_loop [of _ _ _ "''k''" "[char_of (233 :: nat)]" "''r''" 0 "''knotify''"])
      (simp_all add: forged_act_def sample_effectors_def sample_ports_def str_or_empty_def str_of_def dict_or_empty_def ACT_def
        ascii_def token_def Let_def)
  show "ef_effects (snd (intent_loop sample_ports [(sample_io, sample_act 0)] sample_effectors)) \<noteq> []"
    using sample_handled by (cases "handle_intent sample_ports sample_io (sample_act 0) sample_effectors") simp
qed

end
