(* ===== verification/SignedActs.thy ===== *)
theory SignedActs
  imports CycleEngine Effectors
begin

text \<open>
  The path of an act through three components: action selection signs it (\<open>ActionSelection\<close>), the
  cycle publishes it (\<open>CycleEngine\<close>), the effectors verify it off the bus (\<open>Effectors\<close>). The bus
  carries payloads unchanged and in order; messages it refuses are lost.
\<close>

section \<open>The payload of an intent\<close>

lemma dget_field_if [simp]: "dget (field_if k v @ d) k' w = (if k = k' \<and> v \<noteq> None then the v else dget d k' w)"
  by (simp add: field_if_def split: option.splits)

lemma dget_field_if_end [simp]: "dget (field_if k v) k' w = (if k = k' \<and> v \<noteq> None then the v else w)"
  by (auto simp: field_if_def split: option.splits)

lemma payload_fields [simp]:
  "dget (to_event_payload i) ''kind'' PNone = PStr (it_kind i)"
  "dget (to_event_payload i) ''sig'' PNone = (case it_sig i of None \<Rightarrow> PNone | Some g \<Rightarrow> PStr g)"
  "dget (to_event_payload i) ''run_id'' PNone = (case it_run_id i of None \<Rightarrow> PNone | Some g \<Rightarrow> PStr g)"
  "dget (to_event_payload i) ''seq'' PNone = (case it_seq i of None \<Rightarrow> PNone | Some g \<Rightarrow> PInt g)"
  "dget (to_event_payload i) ''effector'' PNone = (case it_effector i of None \<Rightarrow> PNone | Some g \<Rightarrow> PStr g)"
  "dget (to_event_payload i) ''params'' PNone = (if it_params i = [] then PNone else PDict (it_params i))"
  by (auto simp: to_event_payload_def split: option.splits)

text \<open>What the verifier reads of a published act is what the signer signed.\<close>

lemma payload_signed:
  "str_or_empty py_str (to_event_payload i) ''effector'' = effector_name i"
  "dict_or_empty (to_event_payload i) ''params'' = PDict (it_params i)"
  "str_or_empty py_str (to_event_payload i) ''kind'' = it_kind i"
  by (auto simp: str_or_empty_def dict_or_empty_def effector_name_def str_of_def Let_def split: option.splits)

section \<open>Intents in a message list\<close>

fun sent_intents :: "outgoing list \<Rightarrow> event list" where
  "sent_intents [] = []"
| "sent_intents (IntentEvent e # ms) = e # sent_intents ms"
| "sent_intents (_ # ms) = sent_intents ms"

lemma sent_intents_append [simp]: "sent_intents (xs @ ys) = sent_intents xs @ sent_intents ys"
  by (induction xs rule: sent_intents.induct) auto

lemma sent_intents_none: "list_all (\<lambda>m. \<not> is_intent m) ms \<Longrightarrow> sent_intents ms = []"
  by (induction ms rule: sent_intents.induct) auto

text \<open>The events carry intents that were signed in order between two states of the signer.\<close>

definition carries :: "'k mac \<Rightarrow> 'k signer \<Rightarrow> 'k signer \<Rightarrow> event list \<Rightarrow> bool" where
  "carries mac sg sg' es \<longleftrightarrow> signer_le sg sg' \<and>
     (\<exists>is. map ev_payload es = map to_event_payload is \<and> signed_between mac sg sg' is)"

lemma carries_Nil: "signer_le sg sg' \<Longrightarrow> carries mac sg sg' []"
  unfolding carries_def by (auto intro: exI [of _ "[]"])

lemma carries_append:
  assumes "carries mac a b xs" "carries mac b c ys"
  shows "carries mac a c (xs @ ys)"
  using assms unfolding carries_def by (metis map_append signed_between_append signer_le_trans)

lemma signed_between_subseq:
  assumes "signed_between mac s t (i # is)" "signed_between mac s t is \<Longrightarrow> signed_between mac s t js"
    "set js \<subseteq> set is"
  shows "signed_between mac s t (i # js)"
proof -
  have "signed_between mac s t is"
    using assms(1) by (auto simp: signed_between_def seqs_def split: if_splits)
  then have js: "signed_between mac s t js" by (rule assms(2))
  have "set (seqs js) \<subseteq> set (seqs is)" using assms(3) by (auto simp: seqs_def)
  then show ?thesis using assms(1) js by (auto simp: signed_between_def seqs_def split: if_splits)
qed

text \<open>Publishing drops some intents and keeps the order of the others.\<close>

lemma send_intent:
  "\<exists>es. en_out (publish_intent io i s) = en_out s @ map IntentEvent es \<and> length es \<le> 1 \<and>
     map ev_payload es = replicate (length es) (to_event_payload i)"
proof (cases "INTENT_TYPES (it_kind i)")
  case None
  then show ?thesis by (simp add: publish_intent_def intent_payload_event_def)
next
  case (Some ty)
  obtain r s1 where r: "stamp io s = (r, s1)" by fastforce
  have out: "en_out s1 = en_out s" using stamp_quiet [OF r, of "\<lambda>_. False"] by (auto simp: extends_def list_all_iff)
  show ?thesis
  proof (cases r)
    case (Inl e)
    with Some r out show ?thesis by (simp add: publish_intent_def intent_payload_event_def send_def)
  next
    case (Inr t)
    let ?e = "\<lparr>ev_source = ''action_selection'', ev_type = ty, ev_payload = to_event_payload i, ev_salience = 1 / 2,
      ev_timestamp = t, ev_parent = None\<rparr>"
    show ?thesis
    proof (cases "io_publish io (length (en_out s1))")
      case True
      with Some r out Inr show ?thesis
        by (intro exI [of _ "[?e]"]) (simp add: publish_intent_def intent_payload_event_def send_def put_out_def)
    next
      case False
      with Some r out Inr show ?thesis
        by (intro exI [of _ "[]"]) (simp add: publish_intent_def intent_payload_event_def send_def put_out_def)
    qed
  qed
qed

lemma publish_batch:
  assumes "signed_between mac sg sg' is"
  shows "\<exists>es is'. en_out (fold (publish_intent io) is s) = en_out s @ map IntentEvent es \<and>
    map ev_payload es = map to_event_payload is' \<and> set is' \<subseteq> set is \<and> signed_between mac sg sg' is'"
  using assms
proof (induction "is" arbitrary: s)
  case Nil
  then show ?case by (intro exI [of _ "[]"]) simp
next
  case (Cons i "is")
  obtain es where es: "en_out (publish_intent io i s) = en_out s @ map IntentEvent es" "length es \<le> 1"
    "map ev_payload es = replicate (length es) (to_event_payload i)" using send_intent by blast
  have "signed_between mac sg sg' is"
    using Cons.prems by (auto simp: signed_between_def seqs_def split: if_splits)
  from Cons.IH [OF this, of "publish_intent io i s"] obtain fs is' where fs:
    "en_out (fold (publish_intent io) is (publish_intent io i s)) = en_out (publish_intent io i s) @ map IntentEvent fs"
    "map ev_payload fs = map to_event_payload is'" "set is' \<subseteq> set is" "signed_between mac sg sg' is'" by blast
  show ?case
  proof (cases es)
    case Nil
    with es fs show ?thesis by (intro exI [of _ fs] exI [of _ is']) auto
  next
    case (Cons e rest)
    then have "es = [e]" "ev_payload e = to_event_payload i" using es(2,3) by simp_all
    with es fs signed_between_subseq [OF Cons.prems, of is'] show ?thesis
      by (intro exI [of _ "e # fs"] exI [of _ "i # is'"]) auto
  qed
qed

section \<open>What a step of the cycle ships\<close>

text \<open>
  From a state whose action selection signs, a step leads to a state that signs on, and the intents it
  sends were signed in between.
\<close>

definition ships :: "'k mac \<Rightarrow> ('s, 'r, 'p, 'k) engine \<Rightarrow> ('s, 'r, 'p, 'k) engine \<Rightarrow> bool" where
  "ships mac s s' \<longleftrightarrow> (\<forall>a sg. en_actions s = Some a \<longrightarrow> as_signer a = Some sg \<longrightarrow>
     (\<exists>ms a' sg'. en_out s' = en_out s @ ms \<and> en_actions s' = Some a' \<and> as_signer a' = Some sg' \<and>
        carries mac sg sg' (sent_intents ms)))"

lemma ships_trans:
  assumes "ships mac s t" "ships mac t u"
  shows "ships mac s u"
  unfolding ships_def
proof (intro allI impI)
  fix a sg assume a: "en_actions s = Some a" "as_signer a = Some sg"
  from assms(1) a obtain ms b sh where one: "en_out t = en_out s @ ms" "en_actions t = Some b" "as_signer b = Some sh"
    "carries mac sg sh (sent_intents ms)" unfolding ships_def by blast
  from assms(2) one(2,3) obtain ns c si where two: "en_out u = en_out t @ ns" "en_actions u = Some c"
    "as_signer c = Some si" "carries mac sh si (sent_intents ns)" unfolding ships_def by blast
  have "carries mac sg si (sent_intents (ms @ ns))" using carries_append [OF one(4) two(4)] by simp
  with one(1) two show "\<exists>ms a' sg'. en_out u = en_out s @ ms \<and> en_actions u = Some a' \<and> as_signer a' = Some sg' \<and>
     carries mac sg sg' (sent_intents ms)" by (intro exI [of _ "ms @ ns"]) simp
qed

text \<open>A step that leaves the action selection alone and sends no intent.\<close>

definition idle :: "('s, 'r, 'p, 'k) engine \<Rightarrow> ('s, 'r, 'p, 'k) engine \<Rightarrow> bool" where
  "idle s s' \<longleftrightarrow> en_actions s' = en_actions s \<and> (\<exists>ms. en_out s' = en_out s @ ms \<and> list_all (\<lambda>m. \<not> is_intent m) ms)"

lemma idle_refl [simp]: "idle s s"
  by (simp add: idle_def)

lemma idle_trans: "idle s t \<Longrightarrow> idle t u \<Longrightarrow> idle s u"
  by (fastforce simp: idle_def)

lemma idle_ships: "idle s s' \<Longrightarrow> ships mac s s'"
  unfolding idle_def ships_def by (fastforce simp: sent_intents_none carries_Nil)

lemma idle_update [simp]:
  "idle s (s\<lparr>en_cycle := c\<rparr>)" "idle s (s\<lparr>en_workspace := w\<rparr>)" "idle s (s\<lparr>en_recorded := r\<rparr>)"
  "idle s (s\<lparr>en_control_cursor := x\<rparr>)" "idle s (s\<lparr>en_interoception_cursor := x\<rparr>)" "idle s (on_cycle f s)"
  by (simp_all add: idle_def on_cycle_def)

lemma stamp_idle: "stamp io s = (r, s') \<Longrightarrow> idle s s'"
  by (auto simp: stamp_def split: if_splits prod.splits)

lemma put_out_idle: "\<not> is_intent m \<Longrightarrow> idle s (snd (put_out io m s))"
  by (auto simp: put_out_def idle_def)

lemma send_idle:
  assumes "\<And>e. \<not> is_intent (wrap e)"
  shows "idle s (send io wrap src typ d x s)"
proof -
  obtain r s1 where r: "stamp io s = (r, s1)" by fastforce
  note q = stamp_idle [OF r]
  show ?thesis
  proof (cases r)
    case (Inl e)
    with r q show ?thesis by (simp add: send_def)
  next
    case (Inr t)
    with r idle_trans [OF q put_out_idle] assms show ?thesis by (simp add: send_def)
  qed
qed

lemma not_intents [simp]: "\<not> is_intent (RatesEvent e)" "\<not> is_intent (ScaleEvent e)"
  by (simp_all add: is_intent_def)

lemma safe_read_actions [simp]: "en_actions (snd (safe_read io x s)) = en_actions s"
  by (simp add: safe_read_def split: sum.splits)

lemma read_each_actions [simp]: "en_actions (snd (read_each io xs s)) = en_actions s"
proof (induction xs arbitrary: s)
  case (Cons x xs)
  obtain r s1 where r: "safe_read io x s = (r, s1)" by fastforce
  then show ?case using safe_read_actions [of io x s] Cons.IH [of s1] by (cases "read_each io xs s1") simp
qed simp

lemma reading_actions:
  "en_actions (snd (read_streams io xs s)) = en_actions s" "en_actions (seed_cursors io xs s) = en_actions s"
  "en_actions (advance_cursors rs s) = en_actions s"
proof -
  show "en_actions (snd (read_streams io xs s)) = en_actions s"
    by (simp add: read_streams_def split: option.splits sum.splits)
  show "en_actions (seed_cursors io xs s) = en_actions s"
    by (induction xs arbitrary: s) (simp_all split: option.splits)
  show "en_actions (advance_cursors rs s) = en_actions s"
    by (induction rs s rule: advance_cursors.induct) (simp_all split: option.splits)
qed

lemma gather_actions: "en_actions (snd (gather_tick io s)) = en_actions s"
proof -
  obtain rs s1 where "read_streams io (io_streams io) (seed_cursors io (io_streams io) s) = (rs, s1)" by fastforce
  then show ?thesis
    using reading_actions(1) [of io "io_streams io" "seed_cursors io (io_streams io) s"]
    by (simp add: gather_tick_def reading_actions(2,3) Let_def)
qed

lemma gather_idle: "idle s (snd (gather_tick io s))"
  by (simp add: idle_def gather_actions)

lemma observe_signer: "as_signer (fold (\<lambda>(_, e). observe_own_output po e) es a) = as_signer a"
  by (induction es arbitrary: a) (simp_all add: observe_own_output_def case_prod_beta)

lemma forward_ships: "ships mac s (forward_own_output po es s)"
  by (auto simp: ships_def forward_own_output_def observe_signer intro: carries_Nil)

lemma select_idle: "select_tick io b es s = (r, s') \<Longrightarrow> idle s s'"
  by (auto simp: select_tick_def Let_def split: if_splits sum.splits prod.splits)

lemma outcomes_idle: "idle s (fold (publish_outcome io) ds s)"
proof (induction ds arbitrary: s)
  case (Cons d ds)
  have "idle s (publish_outcome io d s)" by (simp add: publish_outcome_def send_idle)
  with Cons.IH show ?case by (simp add: idle_trans)
qed simp

lemma fold_publish_actions: "en_actions (fold (publish_intent io) is s) = en_actions s"
proof (induction "is" arbitrary: s)
  case (Cons i "is")
  have "en_actions (send io IntentEvent src t d x s) = en_actions s" for src t d x
  proof -
    obtain r s1 where r: "stamp io s = (r, s1)" by fastforce
    then have "en_actions s1 = en_actions s" using stamp_idle [OF r] by (simp add: idle_def)
    with r show ?thesis by (cases r) (auto simp: send_def put_out_def)
  qed
  then have "en_actions (publish_intent io i s) = en_actions s"
    by (simp add: publish_intent_def split: option.splits)
  with Cons.IH show ?case by simp
qed simp

lemma run_action_ships: "ships mac s (run_action_selection mac po io sn s)"
  unfolding ships_def
proof (intro allI impI)
  fix a sg assume a: "en_actions s = Some a" "as_signer a = Some sg"
  let ?C = "\<lambda>t. \<exists>ms a' sg'. en_out t = en_out s @ ms \<and> en_actions t = Some a' \<and> as_signer a' = Some sg' \<and>
     carries mac sg sg' (sent_intents ms)"
  obtain r a1 where sel: "as_select mac (po_inhibited po) (po_call po) sn a = (r, a1)" by fastforce
  from as_select_Some [OF sel a(2)] obtain sg1 where sg1: "as_signer a1 = Some sg1" "signer_le sg sg1"
    "\<forall>js. r = Inr js \<longrightarrow> signed_between mac sg sg1 js" by blast
  show "?C (run_action_selection mac po io sn s)"
  proof (cases r)
    case (Inl e)
    with a sel sg1 show ?thesis by (auto simp: run_action_selection_def intro: carries_Nil)
  next
    case (Inr "is")
    define s1 where "s1 = fold (publish_intent io) is (s\<lparr>en_actions := Some a1\<rparr>)"
    from publish_batch [of mac sg sg1 "is" io "s\<lparr>en_actions := Some a1\<rparr>"] sg1(3) Inr
    obtain es js where out: "en_out s1 = en_out s @ map IntentEvent es"
      "map ev_payload es = map to_event_payload js" "signed_between mac sg sg1 js" by (auto simp: s1_def)
    then have c: "carries mac sg sg1 es" using sg1(2) unfolding carries_def by blast
    have es: "sent_intents (map IntentEvent es) = es" by (induction es) simp_all
    obtain q p where o: "po_outcomes po sn (as_policy a1) = (q, p)" by fastforce
    let ?s2 = "s1\<lparr>en_actions := Some (a1\<lparr>as_policy := p\<rparr>)\<rparr>"
    have fin: "?C t" if q: "idle ?s2 t" for t
    proof -
      from q obtain ns where ns: "en_out t = en_out s @ map IntentEvent es @ ns" "list_all (\<lambda>m. \<not> is_intent m) ns"
        "en_actions t = Some (a1\<lparr>as_policy := p\<rparr>)" using out(1) by (auto simp: idle_def)
      then show ?thesis using sg1(1) c es
        by (intro exI [of _ "map IntentEvent es @ ns"] exI [of _ "a1\<lparr>as_policy := p\<rparr>"] exI [of _ sg1])
          (simp add: sent_intents_none)
    qed
    show ?thesis
    proof (cases q)
      case (Inl x)
      with a sel Inr o fin [OF idle_refl] show ?thesis
        by (simp add: run_action_selection_def s1_def [symmetric] Let_def)
    next
      case (Inr ds)
      with a sel \<open>r = Inr is\<close> o fin [OF outcomes_idle] show ?thesis
        by (simp add: run_action_selection_def s1_def [symmetric] Let_def)
    qed
  qed
qed

lemma broadcast_ships: "ships mac s (broadcast_tick mac po io b osn s)"
proof (cases osn)
  case None
  then show ?thesis by (simp add: broadcast_tick_def idle_ships)
next
  case (Some sn)
  obtain ok s1 where p: "put_out io (Broadcast sn b) s = (ok, s1)" by fastforce
  then have one: "ships mac s s1" using put_out_idle [of "Broadcast sn b" s io] by (simp add: idle_ships)
  have two: "ships mac s (run_action_selection mac po io sn s1)" by (rule ships_trans [OF one run_action_ships])
  show ?thesis using one two idle_ships [OF idle_refl] p Some by (cases ok; cases b) (simp_all add: broadcast_tick_def)
qed

lemma tick_ships: "ships mac s (snd (tick mac po io s))"
proof -
  obtain budget slip s1 where st: "open_tick io s = ((budget, slip), s1)" by (metis prod.exhaust)
  obtain g seen s2 where g: "gather_tick io s1 = ((g, seen), s2)" by (metis prod.exhaust)
  let ?s2 = "forward_own_output po (canonical g) s2"
  obtain b s3 where b: "promote_tick io (canonical g) (observe_affect io (canonical g) ?s2) = (b, s3)" by fastforce
  obtain osn ocf s4 where sel: "select_tick io b (canonical g) s3 = ((osn, ocf), s4)" by (metis prod.exhaust)
  define s5 where "s5 = broadcast_tick mac po io b osn s4"
  have t: "snd (tick mac po io s) = close_tick io budget slip b (osn = None) (record_ablation osn ocf s5)"
    by (simp add: tick_def st g b sel Let_def s5_def)
  have "idle s s1" using st by (auto simp: open_tick_def split: prod.splits)
  moreover have "idle s1 s2" using gather_idle [of s1 io] g by simp
  ultimately have 1: "ships mac s ?s2" using idle_trans idle_ships forward_ships ships_trans by blast
  have "idle ?s2 (observe_affect io (canonical g) ?s2)" by (simp add: observe_affect_def)
  moreover have "idle (observe_affect io (canonical g) ?s2) s3" using b by (auto simp: promote_tick_def split: prod.splits)
  moreover have "idle s3 s4" by (rule select_idle [OF sel])
  ultimately have "idle ?s2 s4" using idle_trans by blast
  then have 2: "ships mac ?s2 s5" using idle_ships broadcast_ships ships_trans unfolding s5_def by blast
  let ?s6 = "record_ablation osn ocf s5"
  have "idle s5 ?s6" by (simp add: record_ablation_def split: option.splits)
  moreover have "idle ?s6 (close_tick io budget slip b (osn = None) ?s6)"
    unfolding close_tick_def Let_def
    by (rule idle_trans [OF idle_update(6) idle_trans [OF send_idle idle_update(6)]]) (simp add: is_intent_def)
  ultimately have 3: "ships mac s5 (snd (tick mac po io s))" unfolding t using idle_trans idle_ships by blast
  show ?thesis using 1 2 3 ships_trans by blast
qed

lemma control_idle: "idle s (snd (control_batch io es s))"
proof (induction io es s rule: control_batch.induct)
  case (2 io e es s)
  obtain r c where a: "apply_rate_control_event (ev_payload e) (en_cycle s) = (r, c)" by fastforce
  have sent: "idle s (send io RatesEvent src t d x (s\<lparr>en_cycle := c\<rparr>))" for src t d x
    by (rule idle_trans [OF idle_update(1) send_idle]) simp
  show ?case
  proof (cases "ev_type e = ''cycle.set_rates''")
    case True
    show ?thesis
    proof (cases r)
      case (Inl x)
      with True a show ?thesis by simp
    next
      case (Inr applied)
      let ?t = "if applied then send io RatesEvent ''cycle'' ''cycle.rates''
        [(''processing_rate_hz'', PFloat (cy_processing c)), (''experiential_rate_hz'', PFloat (cy_experiential c))]
        (1 / 10) (s\<lparr>en_cycle := c\<rparr>) else s\<lparr>en_cycle := c\<rparr>"
      have "idle s ?t" using sent by simp
      moreover have "idle ?t (snd (control_batch io es ?t))" using "2.IH"(2) True a Inr by simp
      ultimately have "idle s (snd (control_batch io es ?t))" by (rule idle_trans)
      with True a Inr show ?thesis by simp
    qed
  qed (use "2.IH"(1) in simp)
qed simp

lemma consume_control_idle: "idle s (snd (consume_control ro s))"
proof -
  let ?s1 = "s\<lparr>en_control_cursor := seeded (en_seed_tail s) (ro_control_tail ro) (en_control_cursor s)\<rparr>"
  have "idle s (snd (control_batch io es (?s1\<lparr>en_control_cursor := x\<rparr>)))" for io es x
    by (rule idle_trans [OF idle_trans [OF idle_update(4) idle_update(4)] control_idle])
  then show ?thesis by (auto simp: consume_control_def Let_def split: sum.splits)
qed

lemma consume_interoception_idle: "idle s (consume_interoception ro s)"
  by (simp add: consume_interoception_def idle_def on_cycle_def Let_def split: sum.splits prod.splits)

lemma adapt_idle: "idle s (adapt_scale ro s)"
proof -
  have "idle s (send io ScaleEvent src t d x (s\<lparr>en_cycle := c\<rparr>))" for io src t d x c
    by (rule idle_trans [OF idle_update(1) send_idle]) simp
  then show ?thesis by (simp add: adapt_scale_def Let_def split: prod.splits option.splits)
qed

lemma round_ships: "ships mac s (snd (loop_round mac po ro s))"
proof -
  obtain ox s1 where c: "consume_control ro s = (ox, s1)" by fastforce
  then have one: "idle s s1" using consume_control_idle [of s ro] by simp
  obtain res s2 where t: "tick mac po (ro_tick ro) (consume_interoception ro s1) = (res, s2)" by fastforce
  have "ships mac (consume_interoception ro s1) s2" using tick_ships [of mac "consume_interoception ro s1" po "ro_tick ro"] t by simp
  moreover have "ships mac s (consume_interoception ro s1)"
    using idle_trans [OF one consume_interoception_idle] by (rule idle_ships)
  moreover have "ships mac s2 (adapt_scale ro s2)" using adapt_idle by (rule idle_ships)
  ultimately have "ships mac s (adapt_scale ro s2)" using ships_trans by blast
  with one idle_ships [OF idle_refl [of s]] idle_ships [OF one] c t show ?thesis
    by (cases ox) (simp_all add: loop_round_def)
qed

text \<open>The rounds of the loop, one after the other.\<close>

definition rounds :: "'k mac \<Rightarrow> 'p policy \<Rightarrow> ('s, 'r) round_io list \<Rightarrow> ('s, 'r, 'p, 'k) engine \<Rightarrow> ('s, 'r, 'p, 'k) engine" where
  "rounds mac po ros s = fold (\<lambda>ro s. snd (loop_round mac po ro s)) ros s"

lemma rounds_ship: "ships mac s (rounds mac po ros s)"
  unfolding rounds_def
proof (induction ros arbitrary: s)
  case (Cons ro ros)
  show ?case using ships_trans [OF round_ships [of mac s po ro] Cons.IH] by simp
qed (simp add: idle_ships)


section \<open>Verification of what was shipped\<close>

text \<open>The verdicts of the boundary on the acts among the events, each handled before the next.\<close>

fun verdicts :: "'k ports \<Rightarrow> (act_io \<times> event) list \<Rightarrow> ('k, 'x) effectors \<Rightarrow> (py_exc + string option) list" where
  "verdicts P [] f = []"
| "verdicts P ((io, e) # es) f =
     (if str_or_empty (pt_str P) (ev_payload e) ''kind'' = ACT then [fst (verify_provenance P e f)] else []) @
     verdicts P es (snd (handle_intent P io e f))"

text \<open>A keyed hash whose signatures can be compared: a hexadecimal digest.\<close>

definition printable :: "'k mac \<Rightarrow> bool" where
  "printable mac \<longleftrightarrow> (\<forall>k x g. mac k x = Some g \<longrightarrow> g \<noteq> [] \<and> ascii g)"

lemma signed_act_accepted:
  assumes "ef_enforce f" "ef_secret f = Some k" "printable (pt_mac P)" "rid \<noteq> []" "ev_payload e = to_event_payload i"
    "is_act i" "signed_in (pt_mac P) k rid lo hi i" "\<forall>m. ef_high_water f rid = Some m \<longrightarrow> m < n" "it_seq i = Some n"
  shows "verify_provenance P e f = (Inr None, f\<lparr>ef_high_water := (ef_high_water f)(rid \<mapsto> n)\<rparr>)"
proof -
  obtain g where g: "it_run_id i = Some rid" "it_sig i = Some g"
    "pt_mac P k (ACT, effector_name i, PDict (it_params i), rid, n) = Some g"
    using assms(7,9) unfolding signed_in_def by auto
  then have "g \<noteq> []" "ascii g" using assms(3) unfolding printable_def by blast+
  with g have "verify_intent_signature (pt_mac P) k (ACT, effector_name i, PDict (it_params i), rid, n) (PStr g) = Inr True"
    by (simp add: verify_intent_signature_def compare_digest_def)
  moreover have "\<not> (case ef_high_water f rid of None \<Rightarrow> False | Some prev \<Rightarrow> n \<le> prev)"
    using assms(8) by (auto split: option.splits)
  ultimately show ?thesis
    using assms(1,2,4,9) g \<open>g \<noteq> []\<close>
    by (simp add: verify_provenance_def assms(5) payload_signed payload_fields Let_def)
qed

lemma handle_accepted:
  assumes "str_or_empty (pt_str P) (ev_payload e) ''kind'' = ACT" "verify_provenance P e f = (Inr None, f1)"
  shows "fst (handle_intent P io e f) = None \<and> ef_high_water (snd (handle_intent P io e f)) = ef_high_water f1 \<and>
    same_setup f1 (snd (handle_intent P io e f))"
  using assms by (auto simp: handle_intent_def Let_def split: option.splits pyval.splits sum.splits)

lemma signed_acts_pass:
  assumes "map (ev_payload \<circ> snd) es = map to_event_payload is" "signed_between (pt_mac P) sg sg' is"
    "ef_enforce f" "ef_secret f = Some (sg_secret sg)" "printable (pt_mac P)" "sg_run_id sg \<noteq> []"
    "\<forall>m. ef_high_water f (sg_run_id sg) = Some m \<longrightarrow> (\<forall>n \<in> set (seqs is). m < n)"
  shows "list_all (\<lambda>r. r = Inr None) (verdicts P es f) \<and> fst (intent_loop P es f) = None"
  using assms
proof (induction es arbitrary: "is" f)
  case (Cons x es)
  obtain io e where x: "x = (io, e)" by fastforce
  obtain i js where ijs: "is = i # js" using Cons.prems(1) by (cases "is") simp_all
  with Cons.prems(1) x have i: "is = i # js" "ev_payload e = to_event_payload i"
    "map (ev_payload \<circ> snd) es = map to_event_payload js" by (simp_all add: o_def)
  have js: "signed_between (pt_mac P) sg sg' js"
    using Cons.prems(2) i(1) by (auto simp: signed_between_def seqs_def split: if_splits)
  obtain oe f1 where h: "handle_intent P io e f = (oe, f1)" by fastforce
  have kind: "str_or_empty (pt_str P) (ev_payload e) ''kind'' = ACT \<longleftrightarrow> is_act i"
    by (simp add: i(2) payload_signed is_act_def)
  show ?case
  proof (cases "is_act i")
    case False
    then have "oe = None" "f1 = f" using h kind by (simp_all add: handle_intent_def)
    moreover have "set (seqs js) \<subseteq> set (seqs is)" by (auto simp: i(1) seqs_def)
    ultimately show ?thesis using Cons.IH [OF i(3) js Cons.prems(3-6)] Cons.prems(7) x h kind False by auto
  next
    case True
    then have s: "signed_in (pt_mac P) (sg_secret sg) (sg_run_id sg) (sg_seq sg) (sg_seq sg') i"
      using Cons.prems(2) i(1) by (simp add: signed_between_def)
    then obtain n where n: "it_seq i = Some n" by (auto simp: signed_in_def)
    have ns: "seqs is = n # seqs js" using True n i(1) by (simp add: seqs_def)
    then have later: "\<forall>m \<in> set (seqs js). n < m" using Cons.prems(2) by (simp add: signed_between_def)
    have hw: "\<forall>m. ef_high_water f (sg_run_id sg) = Some m \<longrightarrow> m < n" using Cons.prems(7) ns by auto
    note v = signed_act_accepted [OF Cons.prems(3,4,5,6) i(2) True s hw n]
    have keep: "oe = None \<and> ef_high_water f1 = (ef_high_water f)(sg_run_id sg \<mapsto> n) \<and> ef_enforce f1 \<and> ef_secret f1 = ef_secret f"
      using handle_accepted [OF _ v, of io] h kind True Cons.prems(3) by (simp add: same_setup_def)
    have "list_all (\<lambda>r. r = Inr None) (verdicts P es f1) \<and> fst (intent_loop P es f1) = None"
      using keep Cons.prems(3,4) later by (intro Cons.IH [OF i(3) js _ _ Cons.prems(5,6)]) auto
    then show ?thesis using x h v kind True keep by simp
  qed
qed simp


text \<open>
  C1. Signed acts are accepted: over any rounds of the cycle, whatever the streams, the bus and the policy
  do, the intents the cycle puts on the bus pass the boundary of the effectors that hold the signer's
  secret. Each act is accepted when it is handled, in the order in which it was sent, and the intent
  loop reaches the end of the stream without a raise. The keyed hash gives hexadecimal digests, the run
  has an id, and no act of a sequence number still to come has been realised before.
\<close>

theorem signed_acts_are_accepted:
  assumes "en_actions s = Some a" and "as_signer a = Some sg" and "sg_run_id sg \<noteq> []"
    and "printable (pt_mac P)" and "ef_enforce f" and "ef_secret f = Some (sg_secret sg)"
    and "\<forall>m. ef_high_water f (sg_run_id sg) = Some m \<longrightarrow> m < int (sg_seq sg)"
    and "en_out (rounds (pt_mac P) po ros s) = en_out s @ ms" and "map snd handled = sent_intents ms"
  shows "list_all (\<lambda>r. r = Inr None) (verdicts P handled f) \<and> fst (intent_loop P handled f) = None"
proof -
  from rounds_ship [of "pt_mac P" s po ros] assms(1,2,8) obtain sg' where c: "carries (pt_mac P) sg sg' (map snd handled)"
    unfolding ships_def assms(9) by auto
  then obtain "is" where i: "map (ev_payload \<circ> snd) handled = map to_event_payload is" "signed_between (pt_mac P) sg sg' is"
    unfolding carries_def by auto
  have "\<forall>m. ef_high_water f (sg_run_id sg) = Some m \<longrightarrow> (\<forall>n \<in> set (seqs is). m < n)"
    using assms(7) signed_between_seqs [OF i(2)] by fastforce
  with signed_acts_pass [OF i assms(5,6,4,3)] show ?thesis by blast
qed


definition act_ports :: "string ports" where
  "act_ports = sample_ports\<lparr>pt_mac := (\<lambda>_ _. Some ''a7'')\<rparr>"

definition acting_policy :: "unit policy" where
  "acting_policy = quiet_policy\<lparr>po_call := (\<lambda>_ p. (Inr [(Intent ACT ''now'' [] ''felt'')\<lparr>it_effector := Some ''notify''\<rparr>], p))\<rparr>"

definition signing :: "(unit, string) action_selection" where
  "signing = \<lparr>as_policy = (), as_signer = Some \<lparr>sg_secret = ''k'', sg_run_id = ''r'', sg_seq = 0\<rparr>\<rparr>"

definition sample_round :: "(unit, unit) round_io" where
  "sample_round = \<lparr>ro_tick = sample_tick_io, ro_control = (\<lambda>_. Inl OtherException), ro_control_tail = ''0'',
     ro_interoception = (\<lambda>_. Inl OtherException), ro_interoception_tail = ''0'', ro_begin = 0, ro_busy_end = 0,
     ro_observe = 0, ro_anchor = (0, 0)\<rparr>"

lemma sample_round_acts:
  "\<exists>e ms. en_out (rounds (pt_mac act_ports) acting_policy [sample_round] (sample_engine (Some signing))) = ms \<and>
     IntentEvent e \<in> set ms \<and> dget (ev_payload e) ''kind'' PNone = PStr ACT"
proof -
  let ?m = "pt_mac act_ports" and ?s = "sample_engine (Some signing)"
  let ?s3 = "?s\<lparr>en_cycle := (plain_cycle 10 10)\<lparr>cy_prev := Some (0, Fin 100), cy_acc := Fin 0\<rparr>, en_cursors := [''b.out'' \<mapsto> ''1-0'']\<rparr>"
  obtain sn r where sn: "\<not> sn_inhibited sn" and t: "tick ?m acting_policy sample_tick_io ?s = (r, close_tick sample_tick_io
      (Fin 100) (Fin 0) True False (broadcast_tick ?m acting_policy sample_tick_io True (Some sn) ?s3))"
    using sample_tick [of ?m acting_policy "Some signing"] by blast
  define s5 where "s5 = broadcast_tick ?m acting_policy sample_tick_io True (Some sn) ?s3"
  have five: "\<exists>e. IntentEvent e \<in> set (en_out s5) \<and> dget (ev_payload e) ''kind'' PNone = PStr ACT"
    using sn by (simp add: s5_def broadcast_tick_def put_out_def sample_tick_io_def sample_engine_def signing_def act_ports_def
        run_action_selection_def as_select_def acting_policy_def quiet_policy_def sign_intent_def sign_def publish_intent_def
        intent_payload_event_def INTENT_TYPES_def send_def stamp_def SPEAK_def THINK_def ACT_def Intent_def Let_def payload_fields)
  let ?s6 = "close_tick sample_tick_io (Fin 100) (Fin 0) True False s5"
  have q: "consume_control sample_round ?s = (None, ?s)" "consume_interoception sample_round ?s = ?s" "ro_tick sample_round = sample_tick_io"
    by (simp_all add: consume_control_def consume_interoception_def sample_round_def sample_engine_def seeded_def Let_def)
  have run: "cy_running (en_cycle ?s)" "\<not> cy_stopped (en_cycle ?s)" by (simp_all add: sample_engine_def plain_cycle_def)
  have rounds: "rounds ?m acting_policy [sample_round] ?s = adapt_scale sample_round ?s6"
    using run t by (simp add: rounds_def loop_round_def q s5_def)
  have "\<exists>ts. en_out ?s6 = en_out s5 @ ts"
    using close_tick_messages [of sample_tick_io "Fin 100" "Fin 0" True False s5] by blast
  moreover have "\<exists>ns. en_out (adapt_scale sample_round ?s6) = en_out ?s6 @ ns"
    using adapt_idle [of ?s6 sample_round] by (auto simp: idle_def)
  ultimately show ?thesis using five unfolding rounds by auto
qed

lemma signed_acts_are_accepted_witness:
  "\<exists>handled. map (IntentEvent \<circ> snd) handled \<noteq> [] \<and> verdicts act_ports handled sample_effectors \<noteq> [] \<and>
     list_all (\<lambda>r. r = Inr None) (verdicts act_ports handled sample_effectors)"
proof -
  let ?s = "sample_engine (Some signing)"
  obtain e ms where ms: "en_out (rounds (pt_mac act_ports) acting_policy [sample_round] ?s) = ms" "IntentEvent e \<in> set ms"
    "dget (ev_payload e) ''kind'' PNone = PStr ACT" using sample_round_acts by blast
  have mem: "e \<in> set (sent_intents ms)" using ms(2) by (induction ms rule: sent_intents.induct) auto
  let ?h = "map (Pair sample_io) (sent_intents ms)"
  have h: "map snd ?h = sent_intents ms" by (simp add: o_def)
  have a: "en_actions ?s = Some signing" "en_out (rounds (pt_mac act_ports) acting_policy [sample_round] ?s) = en_out ?s @ ms"
    using ms(1) by (simp_all add: sample_engine_def)
  have b: "as_signer signing = Some \<lparr>sg_secret = ''k'', sg_run_id = ''r'', sg_seq = 0\<rparr>" by (simp add: signing_def)
  have "list_all (\<lambda>r. r = Inr None) (verdicts act_ports ?h sample_effectors)"
    using signed_acts_are_accepted [OF a(1) b _ _ _ _ _ a(2) h, of sample_effectors]
    by (simp add: sample_effectors_def printable_def act_ports_def ascii_def)
  moreover have some: "verdicts act_ports es f \<noteq> []" if "e \<in> snd ` set es" for es f
    using that
  proof (induction es arbitrary: f)
    case (Cons x es)
    have k: "str_or_empty (pt_str act_ports) (ev_payload e) ''kind'' = ACT"
      using ms(3) by (simp add: str_or_empty_def str_of_def ACT_def Let_def)
    show ?case
    proof (cases "snd x = e")
      case True
      with k show ?thesis by (cases x) simp
    next
      case False
      with Cons show ?thesis by (cases x) auto
    qed
  qed simp
  moreover have "verdicts act_ports ?h sample_effectors \<noteq> []" using mem by (intro some) force
  moreover have "map (IntentEvent \<circ> snd) ?h \<noteq> []" using mem by auto
  ultimately show ?thesis by blast
qed

end
