(* ===== verification/Inflight.thy ===== *)
theory Inflight
  imports Prelude
begin

text \<open>
  Models \<open>kaine/residency/inflight.py\<close>, the gate that counts work in worker threads, and its client in
  \<open>kaine/text_embedding.py\<close>, which drops a model only when no thread uses it. The loop, the worker
  threads, cancellation and the closing of the loop interleave: each is a rule of a step relation, and
  the body of a rule is the code between two points where another may run.
\<close>

section \<open>The gate\<close>

text \<open>Where the wrapper of a job is: not handed to the executor, queued there, running, returned.\<close>

datatype place = Held | Queued | Running | Returned

record job =
  jb_loop :: nat
  jb_place :: place
  jb_started :: bool
  jb_abandoned :: bool
  jb_scheduled :: bool
  jb_released :: bool

record gate =
  ga_count :: int
  ga_event :: "(nat \<times> bool) option"
  ga_jobs :: "job list"

definition new_gate :: gate where
  "new_gate = \<lparr>ga_count = 0, ga_event = None, ga_jobs = []\<rparr>"

definition ensure_event :: "nat \<Rightarrow> gate \<Rightarrow> py_exc + gate" where
  "ensure_event running g =
     (if (case ga_event g of None \<Rightarrow> True | Some (l, _) \<Rightarrow> l \<noteq> running)
      then if ga_count g \<noteq> 0 then Inl RuntimeError else Inr (g\<lparr>ga_event := Some (running, True)\<rparr>)
      else Inr g)"

definition set_event :: "bool \<Rightarrow> gate \<Rightarrow> gate" where
  "set_event b g = g\<lparr>ga_event := map_option (\<lambda>(l, _). (l, b)) (ga_event g)\<rparr>"

definition new_job :: "nat \<Rightarrow> job" where
  "new_job running = \<lparr>jb_loop = running, jb_place = Held, jb_started = False, jb_abandoned = False,
     jb_scheduled = False, jb_released = False\<rparr>"

definition admit :: "nat \<Rightarrow> gate \<Rightarrow> py_exc + gate" where
  "admit running g =
     ebind (ensure_event running g) (\<lambda>g.
       Inr (set_event False (g\<lparr>ga_count := ga_count g + 1, ga_jobs := ga_jobs g @ [new_job running]\<rparr>)))"

definition gate_release :: "gate \<Rightarrow> gate" where
  "gate_release g =
     (let g1 = g\<lparr>ga_count := ga_count g - 1\<rparr> in if ga_count g1 \<le> 0 then set_event True g1 else g1)"

definition on_job :: "nat \<Rightarrow> (job \<Rightarrow> job) \<Rightarrow> gate \<Rightarrow> gate" where
  "on_job j f g = g\<lparr>ga_jobs := (ga_jobs g)[j := f (ga_jobs g ! j)]\<rparr>"

text \<open>Releasing a ticket a second time does nothing.\<close>

definition ticket_release :: "nat \<Rightarrow> gate \<Rightarrow> gate" where
  "ticket_release j g =
     (if jb_released (ga_jobs g ! j) then g
      else gate_release (on_job j (\<lambda>b. b\<lparr>jb_released := True\<rparr>) g))"

text \<open>The parts of \<open>run\<close>: handing the wrapper over, its start, its end, the release, the failure.\<close>

definition run_submit :: "nat \<Rightarrow> nat \<Rightarrow> gate \<Rightarrow> py_exc + gate" where
  "run_submit running j g =
     (if jb_loop (ga_jobs g ! j) \<noteq> running then Inl RuntimeError
      else Inr (on_job j (\<lambda>b. b\<lparr>jb_place := Queued\<rparr>) g))"

definition wrapper_start :: "nat \<Rightarrow> gate \<Rightarrow> gate" where
  "wrapper_start j g =
     on_job j (\<lambda>b. if jb_abandoned b then b\<lparr>jb_place := Returned\<rparr> else b\<lparr>jb_place := Running, jb_started := True\<rparr>) g"

definition wrapper_end :: "bool \<Rightarrow> nat \<Rightarrow> gate \<Rightarrow> gate" where
  "wrapper_end shut j g = on_job j (\<lambda>b. b\<lparr>jb_place := Returned, jb_scheduled := \<not> shut\<rparr>) g"

definition release_callback :: "nat \<Rightarrow> gate \<Rightarrow> gate" where
  "release_callback j g = ticket_release j (on_job j (\<lambda>b. b\<lparr>jb_scheduled := False\<rparr>) g)"

definition run_failed :: "nat \<Rightarrow> gate \<Rightarrow> gate" where
  "run_failed j g =
     (if jb_started (ga_jobs g ! j) then g
      else ticket_release j (on_job j (\<lambda>b. b\<lparr>jb_abandoned := True\<rparr>) g))"

section \<open>The client\<close>

text \<open>
  The holder of the load lock: a caller that encodes, or the unloader, waiting for the gate or woken by
  it. The model is loaded or not.
\<close>

datatype holder = Encoder | Waiter | Woken

record client =
  cl_gate :: gate
  cl_lock :: "holder option"
  cl_loaded :: bool
  cl_closed :: bool

definition new_client :: client where
  "new_client = \<lparr>cl_gate = new_gate, cl_lock = None, cl_loaded = False, cl_closed = False\<rparr>"

definition idle_event :: "gate \<Rightarrow> bool" where
  "idle_event g \<longleftrightarrow> (case ga_event g of Some (_, True) \<Rightarrow> True | _ \<Rightarrow> False)"

definition with_gate :: "client \<Rightarrow> gate \<Rightarrow> client" where
  "with_gate c g = c\<lparr>cl_gate := g\<rparr>"

inductive step :: "nat \<Rightarrow> client \<Rightarrow> client \<Rightarrow> bool" for running :: nat where
  encode_lock: "\<not> cl_closed c \<Longrightarrow> cl_lock c = None \<Longrightarrow> step running c (c\<lparr>cl_lock := Some Encoder\<rparr>)"
| encode_load: "\<not> cl_closed c \<Longrightarrow> cl_lock c = Some Encoder \<Longrightarrow> step running c (c\<lparr>cl_loaded := True\<rparr>)"
| encode_gives_up: "\<not> cl_closed c \<Longrightarrow> cl_lock c = Some Encoder \<Longrightarrow> step running c (c\<lparr>cl_lock := None\<rparr>)"
| encode_admit: "\<not> cl_closed c \<Longrightarrow> cl_lock c = Some Encoder \<Longrightarrow> cl_loaded c \<Longrightarrow> admit running (cl_gate c) = Inr g \<Longrightarrow>
    step running c (c\<lparr>cl_lock := None, cl_gate := g\<rparr>)"
| unload_lock: "\<not> cl_closed c \<Longrightarrow> cl_lock c = None \<Longrightarrow> cl_loaded c \<Longrightarrow> ensure_event running (cl_gate c) = Inr g \<Longrightarrow>
    step running c (c\<lparr>cl_lock := Some Waiter, cl_gate := g\<rparr>)"
| unload_wakes: "\<not> cl_closed c \<Longrightarrow> cl_lock c = Some Waiter \<Longrightarrow> idle_event (cl_gate c) \<Longrightarrow>
    step running c (c\<lparr>cl_lock := Some Woken\<rparr>)"
| unload_gives_up: "\<not> cl_closed c \<Longrightarrow> cl_lock c \<in> {Some Waiter, Some Woken} \<Longrightarrow> step running c (c\<lparr>cl_lock := None\<rparr>)"
| unload_drop: "\<not> cl_closed c \<Longrightarrow> cl_lock c = Some Woken \<Longrightarrow>
    step running c (c\<lparr>cl_lock := None, cl_loaded := False\<rparr>)"
| submit: "\<not> cl_closed c \<Longrightarrow> j < length (ga_jobs (cl_gate c)) \<Longrightarrow> jb_place (ga_jobs (cl_gate c) ! j) = Held \<Longrightarrow>
    \<not> jb_released (ga_jobs (cl_gate c) ! j) \<Longrightarrow> run_submit running j (cl_gate c) = Inr g \<Longrightarrow> step running c (with_gate c g)"
| unused: "\<not> cl_closed c \<Longrightarrow> j < length (ga_jobs (cl_gate c)) \<Longrightarrow> jb_place (ga_jobs (cl_gate c) ! j) = Held \<Longrightarrow>
    step running c (with_gate c (ticket_release j (cl_gate c)))"
| start: "j < length (ga_jobs (cl_gate c)) \<Longrightarrow> jb_place (ga_jobs (cl_gate c) ! j) = Queued \<Longrightarrow>
    step running c (with_gate c (wrapper_start j (cl_gate c)))"
| finish: "j < length (ga_jobs (cl_gate c)) \<Longrightarrow> jb_place (ga_jobs (cl_gate c) ! j) = Running \<Longrightarrow>
    step running c (with_gate c (wrapper_end (cl_closed c) j (cl_gate c)))"
| release: "\<not> cl_closed c \<Longrightarrow> j < length (ga_jobs (cl_gate c)) \<Longrightarrow> jb_scheduled (ga_jobs (cl_gate c) ! j) \<Longrightarrow>
    step running c (with_gate c (release_callback j (cl_gate c)))"
| failed: "\<not> cl_closed c \<Longrightarrow> j < length (ga_jobs (cl_gate c)) \<Longrightarrow> jb_place (ga_jobs (cl_gate c) ! j) \<noteq> Held \<Longrightarrow>
    step running c (with_gate c (run_failed j (cl_gate c)))"
| close: "step running c (c\<lparr>cl_closed := True\<rparr>)"

inductive_cases stepE: "step running c c'"

section \<open>What a gate keeps\<close>

text \<open>
  A job that is released has ended, was abandoned before it started, or was never handed over; a job is
  abandoned only before it starts.
\<close>

definition job_ok :: "job \<Rightarrow> bool" where
  "job_ok b \<longleftrightarrow> (jb_abandoned b \<longrightarrow> jb_released b \<and> \<not> jb_started b) \<and>
     (jb_place b \<in> {Held, Queued} \<longrightarrow> \<not> jb_started b) \<and>
     (jb_place b = Running \<longrightarrow> jb_started b \<and> \<not> jb_released b) \<and>
     (jb_place b = Queued \<and> jb_released b \<longrightarrow> jb_abandoned b) \<and>
     (jb_scheduled b \<longrightarrow> jb_place b = Returned \<and> jb_started b)"

definition open_jobs :: "job list \<Rightarrow> nat" where
  "open_jobs bs = length (filter (\<lambda>b. \<not> jb_released b) bs)"

definition gate_ok :: "nat \<Rightarrow> gate \<Rightarrow> bool" where
  "gate_ok running g \<longleftrightarrow> list_all job_ok (ga_jobs g) \<and> list_all (\<lambda>b. jb_loop b = running) (ga_jobs g) \<and>
     ga_count g = int (open_jobs (ga_jobs g)) \<and>
     (ga_jobs g = [] \<or> ga_event g \<noteq> None) \<and>
     (\<forall>l b. ga_event g = Some (l, b) \<longrightarrow> l = running \<and> (b \<longleftrightarrow> ga_count g = 0))"

text \<open>
  A woken unloader finds the gate idle, an unloader has the event, and while the loop is open a job that
  has ended is released or its release is scheduled.
\<close>

definition client_ok :: "nat \<Rightarrow> client \<Rightarrow> bool" where
  "client_ok running c \<longleftrightarrow> gate_ok running (cl_gate c) \<and>
     (cl_lock c = Some Woken \<longrightarrow> ga_count (cl_gate c) = 0) \<and>
     (cl_lock c \<in> {Some Waiter, Some Woken} \<longrightarrow> ga_event (cl_gate c) \<noteq> None) \<and>
     (\<not> cl_closed c \<longrightarrow>
        list_all (\<lambda>b. jb_place b = Returned \<and> \<not> jb_released b \<longrightarrow> jb_scheduled b) (ga_jobs (cl_gate c)))"

lemma open_jobs_simps [simp]:
  "open_jobs [] = 0" "open_jobs (b # bs) = (if jb_released b then 0 else 1) + open_jobs bs"
  "open_jobs (bs @ cs) = open_jobs bs + open_jobs cs"
  by (simp_all add: open_jobs_def)

lemma open_jobs_update:
  assumes "j < length bs"
  shows "int (open_jobs (bs[j := b])) = int (open_jobs bs) + (if jb_released b then 0 else 1) - (if jb_released (bs ! j) then 0 else 1)"
  using assms
proof (induction bs arbitrary: j)
  case (Cons x bs)
  then show ?case by (cases j) auto
qed simp

lemma list_all_update: "list_all P xs \<Longrightarrow> P x \<Longrightarrow> list_all P (xs[j := x])"
  by (auto simp: list_all_iff dest: set_update_subset_insert [THEN subsetD])

lemma on_job_simps [simp]:
  "ga_count (on_job j f g) = ga_count g" "ga_event (on_job j f g) = ga_event g"
  "ga_jobs (on_job j f g) = (ga_jobs g)[j := f (ga_jobs g ! j)]"
  by (simp_all add: on_job_def)

lemma set_event_simps [simp]:
  "ga_count (set_event b g) = ga_count g" "ga_jobs (set_event b g) = ga_jobs g"
  "ga_event (set_event b g) = map_option (\<lambda>(l, _). (l, b)) (ga_event g)"
  by (simp_all add: set_event_def)

text \<open>A change of one job that releases nothing.\<close>

lemma on_job_ok:
  assumes "gate_ok running g" "j < length (ga_jobs g)" "jb_released (f (ga_jobs g ! j)) = jb_released (ga_jobs g ! j)"
    "job_ok (f (ga_jobs g ! j))" "jb_loop (f (ga_jobs g ! j)) = jb_loop (ga_jobs g ! j)"
  shows "gate_ok running (on_job j f g)"
proof -
  have "jb_loop (ga_jobs g ! j) = running" using assms(1,2) by (auto simp: gate_ok_def list_all_length)
  then show ?thesis using assms by (auto simp: gate_ok_def open_jobs_update intro: list_all_update)
qed

text \<open>A change of one job followed by the release of its ticket.\<close>

lemma ticket_release_ok:
  assumes "gate_ok running g" "j < length (ga_jobs g)" "jb_released (f (ga_jobs g ! j)) = jb_released (ga_jobs g ! j)"
    "job_ok ((f (ga_jobs g ! j))\<lparr>jb_released := True\<rparr>)" "jb_loop (f (ga_jobs g ! j)) = jb_loop (ga_jobs g ! j)"
  shows "gate_ok running (ticket_release j (on_job j f g))"
proof (cases "jb_released (ga_jobs g ! j)")
  case True
  then have "(f (ga_jobs g ! j))\<lparr>jb_released := True\<rparr> = f (ga_jobs g ! j)" using assms(3) by (cases "f (ga_jobs g ! j)") simp
  with True assms on_job_ok [of running g j f] show ?thesis by (simp add: ticket_release_def)
next
  case False
  let ?b = "(f (ga_jobs g ! j))\<lparr>jb_released := True\<rparr>"
  have l: "jb_loop ?b = running" using assms(1,2,5) by (auto simp: gate_ok_def list_all_length)
  have "int (open_jobs ((ga_jobs g)[j := ?b])) = ga_count g - 1"
    using assms(1,2) False open_jobs_update [of j "ga_jobs g" ?b] by (simp add: gate_ok_def)
  moreover have "ga_event g \<noteq> None" using assms(1,2) by (auto simp: gate_ok_def)
  moreover have "list_all job_ok ((ga_jobs g)[j := ?b])" "list_all (\<lambda>b. jb_loop b = running) ((ga_jobs g)[j := ?b])"
    using assms(1,4) l by (auto simp: gate_ok_def intro!: list_all_update)
  ultimately show ?thesis using assms(1,2,3) False
    by (auto simp: gate_ok_def ticket_release_def gate_release_def Let_def)
qed

lemma ticket_release_simps [simp]:
  "length (ga_jobs (ticket_release j g)) = length (ga_jobs g)"
  "ga_event (ticket_release j g) = None \<longleftrightarrow> ga_event g = None"
  "ga_jobs (ticket_release j g) = (ga_jobs g)[j := (ga_jobs g ! j)\<lparr>jb_released := True\<rparr>]"
proof -
  show jobs: "ga_jobs (ticket_release j g) = (ga_jobs g)[j := (ga_jobs g ! j)\<lparr>jb_released := True\<rparr>]"
  proof (cases "jb_released (ga_jobs g ! j)")
    case True
    then have e: "(ga_jobs g ! j)\<lparr>jb_released := True\<rparr> = ga_jobs g ! j" by (cases "ga_jobs g ! j") simp
    show ?thesis unfolding ticket_release_def e using True by simp
  qed (simp add: ticket_release_def gate_release_def Let_def)
  then show "length (ga_jobs (ticket_release j g)) = length (ga_jobs g)" by simp
  show "ga_event (ticket_release j g) = None \<longleftrightarrow> ga_event g = None"
    by (simp add: ticket_release_def gate_release_def Let_def)
qed

lemma ensure_ok:
  assumes "gate_ok running g" "ensure_event running g = Inr h"
  shows "gate_ok running h \<and> ga_jobs h = ga_jobs g \<and> ga_count h = ga_count g \<and> (\<exists>b. ga_event h = Some (running, b))"
proof (cases "ga_event g")
  case None
  with assms show ?thesis by (auto simp: ensure_event_def gate_ok_def split: if_splits)
next
  case (Some x)
  moreover from this assms(1) have "fst x = running" by (cases x) (simp add: gate_ok_def)
  ultimately show ?thesis using assms by (cases x) (simp add: ensure_event_def)
qed

lemma admit_ok:
  assumes "gate_ok running g" "admit running g = Inr h"
  shows "gate_ok running h \<and> ga_jobs h = ga_jobs g @ [new_job running] \<and> ga_count h = ga_count g + 1"
proof -
  obtain g1 where g1: "ensure_event running g = Inr g1"
    and h: "h = set_event False (g1\<lparr>ga_count := ga_count g1 + 1, ga_jobs := ga_jobs g1 @ [new_job running]\<rparr>)"
    using assms(2) by (auto simp: admit_def)
  from ensure_ok [OF assms(1) g1] obtain b where g2: "gate_ok running g1" "ga_jobs g1 = ga_jobs g" "ga_count g1 = ga_count g"
    "ga_event g1 = Some (running, b)" by blast
  then show ?thesis by (simp add: h gate_ok_def new_job_def job_ok_def)
qed

section \<open>Every step keeps it\<close>

text \<open>What a step of one job leaves: a lock, the model, and a count that does not grow.\<close>

lemma client_job:
  assumes "client_ok running c" "gate_ok running g" "ga_count g \<le> ga_count (cl_gate c)"
    "ga_event (cl_gate c) \<noteq> None \<longrightarrow> ga_event g \<noteq> None"
    "\<not> cl_closed c \<Longrightarrow> list_all (\<lambda>b. jb_place b = Returned \<and> \<not> jb_released b \<longrightarrow> jb_scheduled b) (ga_jobs g)"
  shows "client_ok running (with_gate c g)"
proof -
  have "0 \<le> ga_count g" using assms(2) by (simp add: gate_ok_def)
  then show ?thesis using assms by (auto simp: client_ok_def with_gate_def)
qed

lemma release_count: "ga_count (ticket_release j g) \<le> ga_count g"
  by (simp add: ticket_release_def gate_release_def Let_def)

lemma client_on_job:
  assumes "client_ok running c" "j < length (ga_jobs (cl_gate c))"
    "jb_released (f (ga_jobs (cl_gate c) ! j)) = jb_released (ga_jobs (cl_gate c) ! j)"
    "job_ok (f (ga_jobs (cl_gate c) ! j))" "jb_loop (f (ga_jobs (cl_gate c) ! j)) = jb_loop (ga_jobs (cl_gate c) ! j)"
    "\<not> cl_closed c \<Longrightarrow> jb_place (f (ga_jobs (cl_gate c) ! j)) = Returned \<Longrightarrow>
       jb_released (ga_jobs (cl_gate c) ! j) \<or> jb_scheduled (f (ga_jobs (cl_gate c) ! j))"
  shows "client_ok running (with_gate c (on_job j f (cl_gate c)))"
proof (rule client_job [OF assms(1)])
  show "gate_ok running (on_job j f (cl_gate c))"
    using assms(1-5) by (intro on_job_ok) (simp_all add: client_ok_def)
  show "list_all (\<lambda>b. jb_place b = Returned \<and> \<not> jb_released b \<longrightarrow> jb_scheduled b) (ga_jobs (on_job j f (cl_gate c)))"
    if "\<not> cl_closed c"
    using that assms(1,3,6) by (auto simp: client_ok_def intro!: list_all_update)
qed simp_all

lemma client_release:
  assumes "client_ok running c" "j < length (ga_jobs (cl_gate c))"
    "jb_released (f (ga_jobs (cl_gate c) ! j)) = jb_released (ga_jobs (cl_gate c) ! j)"
    "job_ok ((f (ga_jobs (cl_gate c) ! j))\<lparr>jb_released := True\<rparr>)"
    "jb_loop (f (ga_jobs (cl_gate c) ! j)) = jb_loop (ga_jobs (cl_gate c) ! j)"
  shows "client_ok running (with_gate c (ticket_release j (on_job j f (cl_gate c))))"
proof (rule client_job [OF assms(1)])
  show "gate_ok running (ticket_release j (on_job j f (cl_gate c)))"
    using assms by (intro ticket_release_ok) (simp_all add: client_ok_def)
  show "ga_count (ticket_release j (on_job j f (cl_gate c))) \<le> ga_count (cl_gate c)"
    using release_count [of j "on_job j f (cl_gate c)"] by simp
  show "list_all (\<lambda>b. jb_place b = Returned \<and> \<not> jb_released b \<longrightarrow> jb_scheduled b)
      (ga_jobs (ticket_release j (on_job j f (cl_gate c))))" if "\<not> cl_closed c"
    using that assms(1,2) by (auto simp: client_ok_def intro!: list_all_update)
qed simp_all

lemma job_at: "client_ok running c \<Longrightarrow> j < length (ga_jobs (cl_gate c)) \<Longrightarrow> job_ok (ga_jobs (cl_gate c) ! j)"
  by (auto simp: client_ok_def gate_ok_def list_all_length)

lemma on_job_id [simp]: "on_job j (\<lambda>b. b) g = g"
  by (simp add: on_job_def)

lemma step_ok:
  assumes "step running c c'" "client_ok running c"
  shows "client_ok running c'"
  using assms(1)
proof cases
  case encode_lock
  with assms(2) show ?thesis by (simp add: client_ok_def)
next
  case encode_load
  with assms(2) show ?thesis by (simp add: client_ok_def)
next
  case encode_gives_up
  with assms(2) show ?thesis by (simp add: client_ok_def)
next
  case (encode_admit g)
  have "gate_ok running (cl_gate c)" using assms(2) by (simp add: client_ok_def)
  note a = admit_ok [OF this encode_admit(5)]
  from a assms(2) encode_admit(1,2) show ?thesis by (simp add: client_ok_def new_job_def)
next
  case (unload_lock g)
  have "gate_ok running (cl_gate c)" using assms(2) by (simp add: client_ok_def)
  note a = ensure_ok [OF this unload_lock(5)]
  from a assms(2) unload_lock(1,2) show ?thesis by (auto simp: client_ok_def)
next
  case unload_wakes
  with assms(2) show ?thesis
    by (auto simp: client_ok_def gate_ok_def idle_event_def split: option.splits prod.splits bool.splits)
next
  case unload_gives_up
  with assms(2) show ?thesis by (simp add: client_ok_def)
next
  case unload_drop
  with assms(2) show ?thesis by (simp add: client_ok_def)
next
  case (submit j g)
  have g: "g = on_job j (\<lambda>b. b\<lparr>jb_place := Queued\<rparr>) (cl_gate c)"
    using submit(6) by (simp add: run_submit_def split: if_splits)
  show ?thesis unfolding submit(1) g
    using assms(2) submit(3-5) job_at [OF assms(2) submit(3)] by (intro client_on_job) (simp_all add: job_ok_def)
next
  case (unused j)
  have "client_ok running (with_gate c (ticket_release j (on_job j (\<lambda>b. b) (cl_gate c))))"
    using assms(2) unused(3,4) job_at [OF assms(2) unused(3)] by (intro client_release) (simp_all add: job_ok_def)
  then show ?thesis by (simp add: unused(1))
next
  case (start j)
  then show ?thesis unfolding start(1) wrapper_start_def
    using assms(2) job_at [OF assms(2) start(2)] by (intro client_on_job) (auto simp: job_ok_def)
next
  case (finish j)
  then show ?thesis unfolding finish(1) wrapper_end_def
    using assms(2) job_at [OF assms(2) finish(2)] by (intro client_on_job) (auto simp: job_ok_def)
next
  case (release j)
  then show ?thesis unfolding release(1) release_callback_def
    using assms(2) job_at [OF assms(2) release(3)] by (intro client_release) (auto simp: job_ok_def)
next
  case (failed j)
  show ?thesis
  proof (cases "jb_started (ga_jobs (cl_gate c) ! j)")
    case True
    with assms(2) failed(1) show ?thesis by (simp add: run_failed_def with_gate_def)
  next
    case False
    with assms(2) failed(3,4) job_at [OF assms(2) failed(3)] show ?thesis
      unfolding failed(1) by (simp add: run_failed_def) (intro client_release, auto simp: job_ok_def)
  qed
next
  case close
  with assms(2) show ?thesis by (simp add: client_ok_def)
qed

lemma reach_ok: "(step running)\<^sup>*\<^sup>* new_client c \<Longrightarrow> client_ok running c"
proof (induction rule: rtranclp_induct)
  case base
  show ?case by (simp add: client_ok_def new_client_def new_gate_def gate_ok_def)
next
  case (step c c')
  then show ?case by (blast intro: step_ok)
qed

text \<open>A released job stays released.\<close>

definition settled :: "nat \<Rightarrow> client \<Rightarrow> bool" where
  "settled j c \<longleftrightarrow> j < length (ga_jobs (cl_gate c)) \<and> jb_released (ga_jobs (cl_gate c) ! j)"

lemma settled_on_job:
  "settled j c \<Longrightarrow> jb_released (f (ga_jobs (cl_gate c) ! i)) = jb_released (ga_jobs (cl_gate c) ! i) \<Longrightarrow>
     settled j (with_gate c (on_job i f (cl_gate c)))"
  by (cases "i = j") (auto simp: settled_def with_gate_def)

lemma settled_release:
  assumes "\<And>b. jb_released (f b) = jb_released b" "settled j c"
  shows "settled j (with_gate c (ticket_release i (on_job i f (cl_gate c))))"
  using assms(2) by (cases "i = j") (simp_all add: settled_def with_gate_def)

lemma settled_step:
  assumes "step running c c'" "settled j c"
  shows "settled j c'"
  using assms(1)
proof cases
  case (encode_admit g)
  then show ?thesis using assms(2)
    by (auto simp: settled_def admit_def ensure_event_def nth_append split: if_splits option.splits)
next
  case (unload_lock g)
  then show ?thesis using assms(2) by (auto simp: settled_def ensure_event_def split: if_splits option.splits)
next
  case (submit i g)
  have g: "g = on_job i (\<lambda>b. b\<lparr>jb_place := Queued\<rparr>) (cl_gate c)"
    using submit(6) by (simp add: run_submit_def split: if_splits)
  show ?thesis unfolding submit(1) g by (rule settled_on_job [OF assms(2)]) simp
next
  case (unused i)
  have "settled j (with_gate c (ticket_release i (on_job i (\<lambda>b. b) (cl_gate c))))"
    by (rule settled_release [OF _ assms(2)]) simp
  then show ?thesis by (simp add: unused(1))
next
  case (start i)
  show ?thesis unfolding start(1) wrapper_start_def by (rule settled_on_job [OF assms(2)]) simp
next
  case (finish i)
  show ?thesis unfolding finish(1) wrapper_end_def by (rule settled_on_job [OF assms(2)]) simp
next
  case (release i)
  show ?thesis unfolding release(1) release_callback_def by (rule settled_release [OF _ assms(2)]) simp
next
  case (failed i)
  have "settled j (with_gate c (ticket_release i (on_job i (\<lambda>b. b\<lparr>jb_abandoned := True\<rparr>) (cl_gate c))))"
    by (rule settled_release [OF _ assms(2)]) simp
  with assms(2) show ?thesis by (simp add: failed(1) run_failed_def settled_def with_gate_def)
qed (use assms(2) in \<open>simp_all add: settled_def\<close>)

lemma settled_steps: "(step running)\<^sup>*\<^sup>* c c' \<Longrightarrow> settled j c \<Longrightarrow> settled j c'"
  by (induction rule: rtranclp_induct) (blast intro: settled_step)+

lemma settled_not_running: "client_ok running c \<Longrightarrow> settled j c \<Longrightarrow> jb_place (ga_jobs (cl_gate c) ! j) \<noteq> Running"
  using job_at [of running c j] by (auto simp: settled_def job_ok_def)

lemma idle_settled: "client_ok running c \<Longrightarrow> ga_count (cl_gate c) = 0 \<Longrightarrow> j < length (ga_jobs (cl_gate c)) \<Longrightarrow> settled j c"
  by (auto simp: client_ok_def gate_ok_def open_jobs_def filter_empty_conv settled_def)

text \<open>
  C14. An unload waits for the workers: whatever the interleaving of callers, worker threads, cancellations
  and the closing of the loop, when the unloader has been woken and is about to drop the model, no
  worker thread runs a job that was admitted, and none of these jobs ever runs in any continuation.
\<close>

theorem unload_waits_for_workers:
  assumes "(step running)\<^sup>*\<^sup>* new_client c" and "cl_lock c = Some Woken" and "(step running)\<^sup>*\<^sup>* c c'"
    and "j < length (ga_jobs (cl_gate c))"
  shows "jb_place (ga_jobs (cl_gate c) ! j) \<noteq> Running \<and> jb_place (ga_jobs (cl_gate c') ! j) \<noteq> Running"
proof -
  have c: "client_ok running c" using reach_ok [OF assms(1)] .
  have c': "client_ok running c'" using reach_ok [OF rtranclp_trans [OF assms(1,3)]] .
  have "settled j c" using idle_settled [OF c _ assms(4)] c assms(2) by (simp add: client_ok_def)
  with settled_steps [OF assms(3)] settled_not_running c c' show ?thesis by blast
qed

section \<open>A run of the client\<close>

lemmas step_intros = step.intros

text \<open>One caller encodes, its worker runs and ends, the release reaches the loop, the unloader wakes.\<close>

definition used_job :: job where
  "used_job = \<lparr>jb_loop = 0, jb_place = Returned, jb_started = True, jb_abandoned = False, jb_scheduled = False, jb_released = True\<rparr>"

definition job_client :: "job \<Rightarrow> client" where
  "job_client b = \<lparr>cl_gate = \<lparr>ga_count = (if jb_released b then 0 else 1), ga_event = Some (0, jb_released b), ga_jobs = [b]\<rparr>,
     cl_lock = None, cl_loaded = True, cl_closed = False\<rparr>"

lemma admitted: "(step 0)\<^sup>*\<^sup>* new_client (job_client (new_job 0))"
proof -
  let ?c1 = "new_client\<lparr>cl_lock := Some Encoder\<rparr>"
  let ?c2 = "?c1\<lparr>cl_loaded := True\<rparr>"
  have "step 0 new_client ?c1" by (rule encode_lock) (simp_all add: new_client_def)
  moreover have "step 0 ?c1 ?c2" by (rule encode_load) (simp_all add: new_client_def)
  moreover have "step 0 ?c2 (?c2\<lparr>cl_lock := None, cl_gate := cl_gate (job_client (new_job 0))\<rparr>)"
    by (rule encode_admit) (simp_all add: new_client_def admit_def ensure_event_def new_gate_def set_event_def job_client_def new_job_def)
  moreover have "?c2\<lparr>cl_lock := None, cl_gate := cl_gate (job_client (new_job 0))\<rparr> = job_client (new_job 0)"
    by (simp add: job_client_def new_client_def)
  ultimately show ?thesis by (metis (no_types, lifting) rtranclp.rtrancl_into_rtrancl rtranclp.rtrancl_refl)
qed

lemma used: "(step 0)\<^sup>*\<^sup>* new_client (job_client used_job)"
proof -
  let ?q = "(new_job 0)\<lparr>jb_place := Queued\<rparr>"
  let ?r = "?q\<lparr>jb_place := Running, jb_started := True\<rparr>"
  let ?e = "?r\<lparr>jb_place := Returned, jb_scheduled := True\<rparr>"
  have "step 0 (job_client (new_job 0)) (with_gate (job_client (new_job 0)) (cl_gate (job_client ?q)))"
    by (rule submit [of _ 0]) (simp_all add: job_client_def new_job_def run_submit_def on_job_def)
  moreover have "with_gate (job_client (new_job 0)) (cl_gate (job_client ?q)) = job_client ?q"
    by (simp add: with_gate_def job_client_def new_job_def)
  moreover have "step 0 (job_client ?q) (with_gate (job_client ?q) (wrapper_start 0 (cl_gate (job_client ?q))))"
    by (rule start) (simp_all add: job_client_def new_job_def)
  moreover have "with_gate (job_client ?q) (wrapper_start 0 (cl_gate (job_client ?q))) = job_client ?r"
    by (simp add: with_gate_def job_client_def new_job_def wrapper_start_def on_job_def)
  moreover have "step 0 (job_client ?r) (with_gate (job_client ?r) (wrapper_end (cl_closed (job_client ?r)) 0 (cl_gate (job_client ?r))))"
    by (rule finish) (simp_all add: job_client_def new_job_def)
  moreover have "with_gate (job_client ?r) (wrapper_end (cl_closed (job_client ?r)) 0 (cl_gate (job_client ?r))) = job_client ?e"
    by (simp add: with_gate_def job_client_def new_job_def wrapper_end_def on_job_def)
  moreover have "step 0 (job_client ?e) (with_gate (job_client ?e) (release_callback 0 (cl_gate (job_client ?e))))"
    by (rule release) (simp_all add: job_client_def new_job_def)
  moreover have "with_gate (job_client ?e) (release_callback 0 (cl_gate (job_client ?e))) = job_client used_job"
    by (simp add: with_gate_def job_client_def new_job_def release_callback_def ticket_release_def gate_release_def
        on_job_def set_event_def used_job_def)
  ultimately show ?thesis using admitted by (metis (no_types, lifting) rtranclp.rtrancl_into_rtrancl)
qed

lemma unload_waits_for_workers_witness:
  "\<exists>c. (step 0)\<^sup>*\<^sup>* new_client c \<and> cl_lock c = Some Woken \<and> length (ga_jobs (cl_gate c)) = 1 \<and>
     jb_place (ga_jobs (cl_gate c) ! 0) \<noteq> Running"
proof -
  let ?c1 = "(job_client used_job)\<lparr>cl_lock := Some Waiter, cl_gate := cl_gate (job_client used_job)\<rparr>"
  let ?c = "?c1\<lparr>cl_lock := Some Woken\<rparr>"
  have "step 0 (job_client used_job) ?c1"
    by (rule unload_lock) (simp_all add: job_client_def used_job_def ensure_event_def)
  moreover have "step 0 ?c1 ?c" by (rule unload_wakes) (simp_all add: job_client_def used_job_def idle_event_def)
  ultimately have c: "(step 0)\<^sup>*\<^sup>* new_client ?c" using used by (metis (no_types, lifting) rtranclp.rtrancl_into_rtrancl)
  have "jb_place (ga_jobs (cl_gate ?c) ! 0) \<noteq> Running"
    using unload_waits_for_workers [OF c _ rtranclp.rtrancl_refl, of 0] by (simp add: job_client_def)
  with c show ?thesis by (intro exI [of _ ?c]) (simp add: job_client_def)
qed

section \<open>The count, and draining\<close>

text \<open>
  The count is exact: in every reachable state the gate counts the admitted tickets that were not
  released, each once however often its release is asked for, and the idle event is set exactly when
  there is none.
\<close>

theorem inflight_count_is_exact:
  assumes "(step running)\<^sup>*\<^sup>* new_client c"
  shows "ga_count (cl_gate c) = int (length (filter (\<lambda>b. \<not> jb_released b) (ga_jobs (cl_gate c)))) \<and>
    (\<forall>l b. ga_event (cl_gate c) = Some (l, b) \<longrightarrow> (b \<longleftrightarrow> list_all jb_released (ga_jobs (cl_gate c))))"
proof -
  have "gate_ok running (cl_gate c)" using reach_ok [OF assms] by (simp add: client_ok_def)
  then show ?thesis by (auto simp: gate_ok_def open_jobs_def filter_empty_conv list_all_iff)
qed

lemma inflight_count_is_exact_witness:
  "ga_count (cl_gate (job_client (new_job 0))) = int (length (filter (\<lambda>b. \<not> jb_released b) (ga_jobs (cl_gate (job_client (new_job 0))))))"
  using inflight_count_is_exact [OF admitted] by blast

text \<open>How far a job is from its release.\<close>

definition distance :: "job \<Rightarrow> nat" where
  "distance b = (if jb_released b then 0 else case jb_place b of Held \<Rightarrow> 4 | Queued \<Rightarrow> 3 | Running \<Rightarrow> 2 | Returned \<Rightarrow> 1)"

definition work_left :: "client \<Rightarrow> nat" where
  "work_left c = sum_list (map distance (ga_jobs (cl_gate c)))"

lemma sum_update_less:
  fixes f :: "'a \<Rightarrow> nat"
  shows "j < length xs \<Longrightarrow> f x < f (xs ! j) \<Longrightarrow> sum_list (map f (xs[j := x])) < sum_list (map f xs)"
proof (induction xs arbitrary: j)
  case (Cons y ys)
  then show ?case by (cases j) auto
qed simp

lemma job_progress:
  assumes "client_ok running c" "\<not> cl_closed c" "j < length (ga_jobs (cl_gate c))" "\<not> jb_released (ga_jobs (cl_gate c) ! j)"
  shows "\<exists>c'. step running c c' \<and> cl_lock c' = cl_lock c \<and> cl_closed c' = cl_closed c \<and> cl_loaded c' = cl_loaded c \<and> work_left c' < work_left c"
proof -
  let ?b = "ga_jobs (cl_gate c) ! j"
  have less: "work_left (with_gate c g) < work_left c"
    if "ga_jobs g = (ga_jobs (cl_gate c))[j := b]" "distance b < distance ?b" for g b
    using that assms(3) by (simp add: work_left_def with_gate_def sum_update_less)
  have q: "\<not> jb_abandoned ?b" using job_at [OF assms(1,3)] assms(4) by (simp add: job_ok_def)
  have l: "jb_loop ?b = running" using assms(1,3) by (auto simp: client_ok_def gate_ok_def list_all_length)
  show ?thesis
  proof (cases "jb_place ?b")
    case Held
    let ?g = "on_job j (\<lambda>b. b\<lparr>jb_place := Queued\<rparr>) (cl_gate c)"
    have "step running c (with_gate c ?g)"
      by (rule submit [OF assms(2,3) Held assms(4)]) (simp add: run_submit_def l)
    moreover have "work_left (with_gate c ?g) < work_left c"
      by (rule less [of _ "?b\<lparr>jb_place := Queued\<rparr>"]) (simp_all add: distance_def Held assms(4))
    ultimately show ?thesis by (intro exI [of _ "with_gate c ?g"]) (simp add: with_gate_def)
  next
    case Queued
    let ?g = "wrapper_start j (cl_gate c)"
    have "step running c (with_gate c ?g)" by (rule start [OF assms(3) Queued])
    moreover have "work_left (with_gate c ?g) < work_left c"
      by (rule less [of _ "?b\<lparr>jb_place := Running, jb_started := True\<rparr>"])
        (simp_all add: distance_def Queued assms(4) wrapper_start_def q)
    ultimately show ?thesis by (intro exI [of _ "with_gate c ?g"]) (simp add: with_gate_def)
  next
    case Running
    let ?g = "wrapper_end (cl_closed c) j (cl_gate c)"
    have "step running c (with_gate c ?g)" by (rule finish [OF assms(3) Running])
    moreover have "work_left (with_gate c ?g) < work_left c"
      by (rule less [of _ "?b\<lparr>jb_place := Returned, jb_scheduled := \<not> cl_closed c\<rparr>"])
        (simp_all add: distance_def Running assms(4) wrapper_end_def)
    ultimately show ?thesis by (intro exI [of _ "with_gate c ?g"]) (simp add: with_gate_def)
  next
    case Returned
    let ?g = "release_callback j (cl_gate c)"
    have "jb_scheduled ?b" using assms Returned by (auto simp: client_ok_def list_all_length)
    then have "step running c (with_gate c ?g)" by (rule release [OF assms(2,3)])
    moreover have "work_left (with_gate c ?g) < work_left c"
      by (rule less [of _ "?b\<lparr>jb_scheduled := False, jb_released := True\<rparr>"])
        (simp_all add: distance_def Returned assms(3,4) release_callback_def)
    ultimately show ?thesis by (intro exI [of _ "with_gate c ?g"]) (simp add: with_gate_def)
  qed
qed

lemma drain:
  "client_ok running c \<Longrightarrow> \<not> cl_closed c \<Longrightarrow> \<exists>c'. (step running)\<^sup>*\<^sup>* c c' \<and> client_ok running c' \<and> cl_lock c' = cl_lock c \<and>
     cl_closed c' = cl_closed c \<and> cl_loaded c' = cl_loaded c \<and> ga_count (cl_gate c') = 0"
proof (induction c rule: measure_induct_rule [of work_left])
  case (less c)
  show ?case
  proof (cases "ga_count (cl_gate c) = 0")
    case True
    with less.prems show ?thesis by blast
  next
    case False
    then have "open_jobs (ga_jobs (cl_gate c)) \<noteq> 0" using less.prems(1) by (simp add: client_ok_def gate_ok_def)
    then obtain j where j: "j < length (ga_jobs (cl_gate c))" "\<not> jb_released (ga_jobs (cl_gate c) ! j)"
      by (auto simp: open_jobs_def filter_empty_conv in_set_conv_nth)
    from job_progress [OF less.prems j] obtain c1 where c1: "step running c c1" "cl_lock c1 = cl_lock c"
      "cl_closed c1 = cl_closed c" "cl_loaded c1 = cl_loaded c" "work_left c1 < work_left c" by blast
    from less.IH [OF c1(5) step_ok [OF c1(1) less.prems(1)]] c1(3) less.prems(2) obtain c2 where
      "(step running)\<^sup>*\<^sup>* c1 c2" "client_ok running c2" "cl_lock c2 = cl_lock c1" "cl_closed c2 = cl_closed c1"
      "cl_loaded c2 = cl_loaded c1" "ga_count (cl_gate c2) = 0" by auto
    with c1 show ?thesis by (metis converse_rtranclp_into_rtranclp)
  qed
qed

text \<open>
  C15. An unload can always complete: from every reachable state in which the unloader waits on an open
  loop, the jobs in flight can run to their release and the unloader wakes and drops the model. The
  protocol of tickets, worker threads and the event has no deadlock.
\<close>

theorem unload_can_complete:
  assumes "(step running)\<^sup>*\<^sup>* new_client c" and "\<not> cl_closed c" and "cl_lock c = Some Waiter"
  shows "\<exists>c'. (step running)\<^sup>*\<^sup>* c c' \<and> \<not> cl_loaded c' \<and> cl_lock c' = None"
proof -
  from drain [OF reach_ok [OF assms(1)] assms(2)] obtain d where d: "(step running)\<^sup>*\<^sup>* c d" "client_ok running d"
    "cl_lock d = Some Waiter" "\<not> cl_closed d" "ga_count (cl_gate d) = 0" using assms(2,3) by auto
  then have "idle_event (cl_gate d)" by (auto simp: client_ok_def gate_ok_def idle_event_def split: option.splits)
  then have "step running d (d\<lparr>cl_lock := Some Woken\<rparr>)" using d by (intro unload_wakes)
  moreover have "step running (d\<lparr>cl_lock := Some Woken\<rparr>) ((d\<lparr>cl_lock := Some Woken\<rparr>)\<lparr>cl_lock := None, cl_loaded := False\<rparr>)"
    using d by (intro unload_drop) simp_all
  ultimately have "(step running)\<^sup>*\<^sup>* c ((d\<lparr>cl_lock := Some Woken\<rparr>)\<lparr>cl_lock := None, cl_loaded := False\<rparr>)"
    using d(1) by (meson rtranclp.rtrancl_into_rtrancl)
  moreover have "\<not> cl_loaded ((d\<lparr>cl_lock := Some Woken\<rparr>)\<lparr>cl_lock := None, cl_loaded := False\<rparr>)"
    "cl_lock ((d\<lparr>cl_lock := Some Woken\<rparr>)\<lparr>cl_lock := None, cl_loaded := False\<rparr>) = None" by simp_all
  ultimately show ?thesis by blast
qed

lemma unload_can_complete_witness:
  "\<exists>c'. (step 0)\<^sup>*\<^sup>* ((job_client (new_job 0))\<lparr>cl_lock := Some Waiter\<rparr>) c' \<and> \<not> cl_loaded c' \<and> cl_lock c' = None"
proof (rule unload_can_complete)
  have "step 0 (job_client (new_job 0)) ((job_client (new_job 0))\<lparr>cl_lock := Some Waiter, cl_gate := cl_gate (job_client (new_job 0))\<rparr>)"
    by (rule unload_lock) (simp_all add: job_client_def ensure_event_def)
  moreover have "(job_client (new_job 0))\<lparr>cl_lock := Some Waiter, cl_gate := cl_gate (job_client (new_job 0))\<rparr> =
      (job_client (new_job 0))\<lparr>cl_lock := Some Waiter\<rparr>" by (simp add: job_client_def)
  ultimately show "(step 0)\<^sup>*\<^sup>* new_client ((job_client (new_job 0))\<lparr>cl_lock := Some Waiter\<rparr>)"
    using admitted by (metis (no_types, lifting) rtranclp.rtrancl_into_rtrancl)
qed (simp_all add: job_client_def)

section \<open>A closed loop\<close>

definition unreleased :: "nat \<Rightarrow> client \<Rightarrow> bool" where
  "unreleased j c \<longleftrightarrow> cl_closed c \<and> j < length (ga_jobs (cl_gate c)) \<and> \<not> jb_released (ga_jobs (cl_gate c) ! j)"

lemma unreleased_step:
  assumes "step running c c'" "unreleased j c"
  shows "unreleased j c'"
  using assms(1)
proof cases
  case (start i)
  with assms(2) show ?thesis by (cases "i = j") (simp_all add: unreleased_def with_gate_def wrapper_start_def)
next
  case (finish i)
  with assms(2) show ?thesis by (cases "i = j") (simp_all add: unreleased_def with_gate_def wrapper_end_def)
qed (use assms(2) in \<open>auto simp: unreleased_def\<close>)

lemma unreleased_steps: "(step running)\<^sup>*\<^sup>* c c' \<Longrightarrow> unreleased j c \<Longrightarrow> unreleased j c'"
  by (induction rule: rtranclp_induct) (blast intro: unreleased_step)+

text \<open>
  C40. A loop that closes with a job in flight strands the gate: the release is never delivered, and from
  then on, also when the worker has long ended, every admission on another loop raises.
\<close>

theorem closed_loop_strands_the_gate:
  assumes "(step running)\<^sup>*\<^sup>* new_client c" and "unreleased j c" and "(step running)\<^sup>*\<^sup>* c c'" and "other \<noteq> running"
  shows "admit other (cl_gate c') = Inl RuntimeError"
proof -
  have ok: "gate_ok running (cl_gate c')" using reach_ok [OF rtranclp_trans [OF assms(1,3)]] by (simp add: client_ok_def)
  have u: "unreleased j c'" by (rule unreleased_steps [OF assms(3,2)])
  then have "ga_jobs (cl_gate c') ! j \<in> {b \<in> set (ga_jobs (cl_gate c')). \<not> jb_released b}" by (simp add: unreleased_def)
  then have "open_jobs (ga_jobs (cl_gate c')) \<noteq> 0" by (auto simp: open_jobs_def filter_empty_conv)
  then have "ga_count (cl_gate c') \<noteq> 0" using ok by (simp add: gate_ok_def)
  moreover have "case ga_event (cl_gate c') of None \<Rightarrow> True | Some (l, _) \<Rightarrow> l \<noteq> other"
    using ok assms(4) by (auto simp: gate_ok_def split: option.splits)
  ultimately show ?thesis by (simp add: admit_def ensure_event_def)
qed

lemma closed_loop_strands_the_gate_witness:
  "admit 1 (cl_gate ((job_client (new_job 0))\<lparr>cl_closed := True\<rparr>)) = Inl RuntimeError"
proof (rule closed_loop_strands_the_gate [of 0 _ 0, OF _ _ rtranclp.rtrancl_refl])
  show "(step 0)\<^sup>*\<^sup>* new_client ((job_client (new_job 0))\<lparr>cl_closed := True\<rparr>)"
    using admitted close by (rule rtranclp.rtrancl_into_rtrancl)
qed (simp_all add: unreleased_def job_client_def new_job_def)

end
