(* ===== verification/Residency.thy ===== *)
theory Residency
  imports PyVal "HOL-Library.AList"
begin

text \<open>
  Models \<open>kaine/residency/budget.py\<close> (one memory budget per domain) and \<open>fit.py\<close> (does a set of modules
  co-reside, take turns, or not fit). Files are an argument
  (\<open>files\<close>, \<open>None\<close> when reading raises), as are the memory pools of the host. The prose of a report is
  left out.
\<close>

section \<open>Memory budgets\<close>

definition GIB :: int where "GIB = 2 ^ 30"

definition default_reserve_bytes :: "int \<Rightarrow> int" where
  "default_reserve_bytes physical = max GIB (physical div 10)"

record cgroup =
  cg_limit :: "int option"
  cg_usage :: "int option"

record pool =
  pl_kind :: string
  pl_total :: "int option"
  pl_available :: "int option"

datatype memory_state = Unified | Discrete | UnknownState

record domain =
  dm_name :: string
  dm_kind :: string
  dm_total :: "int option"
  dm_available :: "int option"
  dm_reserve :: int
  dm_budget :: "int option"

subsection \<open>The control group\<close>

definition cut :: "char \<Rightarrow> string \<Rightarrow> (string \<times> string) option" where
  "cut c s = (if c \<in> set s then Some (takeWhile (\<lambda>x. x \<noteq> c) s, tl (dropWhile (\<lambda>x. x \<noteq> c) s)) else None)"

fun split_on :: "char \<Rightarrow> string \<Rightarrow> string list" where
  "split_on c [] = [[]]"
| "split_on c (x # xs) =
     (if x = c then [] # split_on c xs
      else case split_on c xs of [] \<Rightarrow> [[x]] | p # ps \<Rightarrow> (x # p) # ps)"

text \<open>A line of the group file: hierarchy, controllers and path, or no such line.\<close>

definition group_line :: "string \<Rightarrow> (string \<times> string) option" where
  "group_line l = (case cut (CHR '':'') (py_strip l) of None \<Rightarrow> None | Some (_, r) \<Rightarrow> cut (CHR '':'') r)"

definition below_root :: "string \<Rightarrow> string" where
  "below_root p = (if p = ''/'' then [] else p)"

fun group_paths :: "string list \<Rightarrow> string option \<times> string option \<Rightarrow> string option \<times> string option" where
  "group_paths [] vs = vs"
| "group_paths (l # ls) (v2, v1) =
     group_paths ls
       (case group_line l of
          None \<Rightarrow> (v2, v1)
        | Some (controllers, p) \<Rightarrow>
            if controllers = [] then (Some (below_root p), v1)
            else if ''memory'' \<in> set (split_on (CHR '','') controllers) then (v2, Some (below_root p))
            else (v2, v1))"

definition read_int :: "(string \<Rightarrow> string option) \<Rightarrow> string \<Rightarrow> int option" where
  "read_int files p = (case files p of None \<Rightarrow> None | Some t \<Rightarrow> parse_int t)"

definition under :: "string \<Rightarrow> string \<Rightarrow> string" where
  "under d p = (let q = dropWhile (\<lambda>x. x = CHR ''/'') p in if q = [] then d else d @ ''/'' @ q)"

definition cgroup_memory :: "string list option \<Rightarrow> (string \<Rightarrow> string option) \<Rightarrow> string \<Rightarrow> cgroup" where
  "cgroup_memory lines files mount =
     (case lines of
        None \<Rightarrow> \<lparr>cg_limit = None, cg_usage = None\<rparr>
      | Some ls \<Rightarrow>
          (case group_paths ls (None, None) of
             (_, Some p) \<Rightarrow>
               let d = under (mount @ ''/memory'') p;
                   limit = read_int files (d @ ''/memory.limit_in_bytes'')
               in \<lparr>cg_limit = (case limit of Some n \<Rightarrow> if n \<ge> 2 ^ 60 then None else Some n | None \<Rightarrow> None),
                   cg_usage = read_int files (d @ ''/memory.usage_in_bytes'')\<rparr>
           | (Some p, None) \<Rightarrow>
               let d = under mount p
               in \<lparr>cg_limit = (if map_option py_strip (files (d @ ''/memory.max'')) = Some ''max'' then None
                               else read_int files (d @ ''/memory.max'')),
                   cg_usage = read_int files (d @ ''/memory.current'')\<rparr>
           | (None, None) \<Rightarrow> \<lparr>cg_limit = None, cg_usage = None\<rparr>))"

subsection \<open>The budgets\<close>

definition device_reserve :: "int option \<Rightarrow> int option \<Rightarrow> int" where
  "device_reserve physical reserve =
     (case reserve of Some r \<Rightarrow> r | None \<Rightarrow> (case physical of None \<Rightarrow> GIB | Some t \<Rightarrow> default_reserve_bytes t))"

definition budget_of :: "int option \<Rightarrow> int \<Rightarrow> int option" where
  "budget_of available reserve = map_option (\<lambda>a. max 0 (a - reserve)) available"

definition opt_min :: "int option \<Rightarrow> int option \<Rightarrow> int option" where
  "opt_min x y = (case (x, y) of (Some a, Some b) \<Rightarrow> Some (min a b) | (Some a, None) \<Rightarrow> Some a | (None, q) \<Rightarrow> q)"

definition headroom :: "cgroup \<Rightarrow> int option" where
  "headroom c = map_option (\<lambda>l. case cg_usage c of None \<Rightarrow> l | Some u \<Rightarrow> l - u) (cg_limit c)"

definition system_domain :: "pool \<Rightarrow> cgroup \<Rightarrow> int option \<Rightarrow> domain" where
  "system_domain p c reserve =
     (let r = device_reserve (pl_total p) reserve; a = opt_min (pl_available p) (headroom c)
      in \<lparr>dm_name = ''system'', dm_kind = ''system'', dm_total = opt_min (pl_total p) (cg_limit c),
          dm_available = a, dm_reserve = r, dm_budget = budget_of a r\<rparr>)"

definition device_domain :: "int option \<Rightarrow> string \<times> memory_state \<times> pool list \<Rightarrow> domain option" where
  "device_domain reserve x =
     (case x of (name, state, pools) \<Rightarrow>
        if state \<noteq> Discrete then None
        else map_option (\<lambda>p.
               let r = device_reserve (pl_total p) reserve
               in \<lparr>dm_name = name, dm_kind = ''device'', dm_total = pl_total p, dm_available = pl_available p,
                   dm_reserve = r, dm_budget = budget_of (pl_available p) r\<rparr>)
             (find (\<lambda>p. pl_kind p = ''vram'') pools))"

definition derive_budgets :: "pool \<Rightarrow> cgroup \<Rightarrow> (string \<times> memory_state \<times> pool list) list \<Rightarrow> int option \<Rightarrow> domain list" where
  "derive_budgets p c accelerators reserve =
     system_domain p c reserve # List.map_filter (device_domain reserve) accelerators"

section \<open>The fit report\<close>

record need =
  nd_component :: string
  nd_domain :: string
  nd_footprint :: "int option"
  nd_estimate :: "int option"
  nd_interactive :: bool
  nd_rung :: string

datatype fit_status = CoResides | Multiplex | DoesNotFit | UnknownBudget

record domain_fit =
  df_domain :: string
  df_budget :: "int option"
  df_need :: int
  df_status :: fit_status
  df_shortfall :: int
  df_pinned :: "string option"
  df_multiplexed :: "string list"
  df_rungs :: "(string \<times> string) list"
  df_single_shortfall :: int

definition group_needs_by_domain :: "need list \<Rightarrow> (string \<times> need list) list" where
  "group_needs_by_domain ns =
     fold (\<lambda>n gs. AList.update (nd_domain n) ((case map_of gs (nd_domain n) of None \<Rightarrow> [] | Some xs \<Rightarrow> xs) @ [n]) gs) ns []"

definition effective_bytes :: "need \<Rightarrow> int" where
  "effective_bytes n = (case nd_footprint n of Some b \<Rightarrow> b | None \<Rightarrow> (case nd_estimate n of Some b \<Rightarrow> b | None \<Rightarrow> 0))"

definition figured :: "need \<Rightarrow> bool" where
  "figured n \<longleftrightarrow> nd_footprint n \<noteq> None \<or> nd_estimate n \<noteq> None"

text \<open>\<open>{n.component: v}\<close>: a repeated component keeps its place and its last value.\<close>

definition by_component :: "(need \<Rightarrow> 'a) \<Rightarrow> need list \<Rightarrow> (string \<times> 'a) list" where
  "by_component f ns = fold (\<lambda>n d. AList.update (nd_component n) (f n) d) ns []"

definition max_default :: "int list \<Rightarrow> int" where
  "max_default xs = (if xs = [] then 0 else Max (set xs))"

definition other_max :: "(string \<times> int) list \<Rightarrow> string \<Rightarrow> int" where
  "other_max sizes c = max_default (map snd (filter (\<lambda>(k, _). k \<noteq> c) sizes))"

definition size_of :: "(string \<times> int) list \<Rightarrow> string \<Rightarrow> int" where
  "size_of sizes c = (case map_of sizes c of None \<Rightarrow> 0 | Some b \<Rightarrow> b)"

text \<open>The configured pin, then the interactive needs, the largest first.\<close>

definition pin_candidates :: "string \<Rightarrow> need list \<Rightarrow> string list" where
  "pin_candidates pin ns =
     (if pin \<in> nd_component ` set ns then [pin] else []) @
     map nd_component (filter (\<lambda>n. nd_interactive n \<and> nd_component n \<noteq> pin) (sort_key (\<lambda>n. - effective_bytes n) ns))"

definition pinned_component :: "string \<Rightarrow> int \<Rightarrow> need list \<Rightarrow> string option" where
  "pinned_component pin budget ns =
     (let sizes = by_component effective_bytes ns
      in find (\<lambda>c. size_of sizes c + other_max sizes c \<le> budget) (pin_candidates pin ns))"

definition fit_domain :: "string \<Rightarrow> int option \<Rightarrow> string \<Rightarrow> need list \<Rightarrow> domain_fit" where
  "fit_domain pin budget name ns =
     (let unplanned = \<lparr>df_domain = name, df_budget = budget, df_need = 0, df_status = UnknownBudget, df_shortfall = 0,
            df_pinned = None, df_multiplexed = map nd_component ns, df_rungs = by_component nd_rung ns, df_single_shortfall = 0\<rparr>;
          need_bytes = sum_list (map effective_bytes ns);
          largest = max_default (map snd (by_component effective_bytes ns))
      in if \<not> list_all figured ns then unplanned
         else case budget of
           None \<Rightarrow> unplanned\<lparr>df_need := need_bytes\<rparr>
         | Some b \<Rightarrow>
             if need_bytes \<le> b then unplanned\<lparr>df_need := need_bytes, df_status := CoResides, df_multiplexed := []\<rparr>
             else let p = pinned_component pin b ns;
                      status = (if p \<noteq> None \<or> largest \<le> b then Multiplex else DoesNotFit)
                  in unplanned\<lparr>df_need := need_bytes, df_status := status, df_shortfall := need_bytes - b, df_pinned := p,
                       df_multiplexed := filter (\<lambda>c. Some c \<noteq> p) (map nd_component ns),
                       df_single_shortfall := (if status = DoesNotFit then largest - b else 0)\<rparr>)"

definition budget_by_domain :: "domain list \<Rightarrow> string \<Rightarrow> int option" where
  "budget_by_domain ds name = (case map_of (rev (map (\<lambda>d. (dm_name d, dm_budget d)) ds)) name of None \<Rightarrow> None | Some b \<Rightarrow> b)"

record fit_report =
  fr_domains :: "domain_fit list"
  fr_co_resides :: bool
  fr_uncalibrated :: "string list"

definition make_fit_report :: "domain list \<Rightarrow> need list \<Rightarrow> string \<Rightarrow> fit_report" where
  "make_fit_report budgets ns pin =
     (let groups = group_needs_by_domain ns;
          fits = map (\<lambda>(name, xs). fit_domain pin (budget_by_domain budgets name) name xs) groups
      in \<lparr>fr_domains = fits, fr_co_resides = list_all (\<lambda>f. df_status f = CoResides) fits,
          fr_uncalibrated = concat (map (\<lambda>(_, xs). map nd_component (filter (\<lambda>n. nd_footprint n = None) xs)) groups)\<rparr>)"


section \<open>A budget is within the memory\<close>

text \<open>What a budget promises: it is not negative, and leaves the reserve of what is available.\<close>

definition within_memory :: "domain \<Rightarrow> bool" where
  "within_memory d \<longleftrightarrow> (\<forall>b. dm_budget d = Some b \<longrightarrow> 0 \<le> b \<and> (b = 0 \<or> (\<exists>a. dm_available d = Some a \<and> b + dm_reserve d \<le> a)))"

lemma budget_within: "dm_budget d = budget_of (dm_available d) (dm_reserve d) \<Longrightarrow> within_memory d"
  by (cases "dm_available d") (auto simp: within_memory_def budget_of_def)

text \<open>
  No budget exceeds the memory: every domain's budget is not negative and, where it is not zero, leaves
  the reserve free of the available memory; the system budget stays below the host's figure and below
  the head room of the control group; a device gives a domain only where its memory is its own.
\<close>

theorem budgets_are_within_memory:
  assumes "ds = derive_budgets p c accelerators reserve" and "d \<in> set ds"
  shows "within_memory d \<and>
    (d = hd ds \<longrightarrow> (\<forall>b h. dm_budget d = Some b \<longrightarrow> h \<in> {pl_available p, headroom c} \<longrightarrow> (\<forall>m. h = Some m \<longrightarrow> b = 0 \<or> b + dm_reserve d \<le> m))) \<and>
    (d \<in> set (tl ds) \<longrightarrow> (\<exists>pools q. (dm_name d, Discrete, pools) \<in> set accelerators \<and> q \<in> set pools \<and> pl_kind q = ''vram'' \<and>
       dm_available d = pl_available q))"
proof (intro conjI impI allI)
  have dev: "\<exists>name pools q. (name, Discrete, pools) \<in> set accelerators \<and> q \<in> set pools \<and> pl_kind q = ''vram'' \<and>
      dm_name d = name \<and> dm_available d = pl_available q \<and> dm_budget d = budget_of (dm_available d) (dm_reserve d)"
    if "d \<in> set (tl ds)"
  proof -
    from that assms(1) obtain x where x: "x \<in> set accelerators" "device_domain reserve x = Some d"
      by (auto simp: derive_budgets_def map_filter_def)
    obtain name state pools where xx: "x = (name, state, pools)" by (cases x) auto
    with x(2) obtain q where q: "find (\<lambda>p. pl_kind p = ''vram'') pools = Some q" and st: "state = Discrete"
      by (auto simp: device_domain_def split: if_splits)
    from q have "q \<in> set pools" "pl_kind q = ''vram''" by (auto simp: find_Some_iff)
    with x xx q st show ?thesis
      by (intro exI [of _ name] exI [of _ pools] exI [of _ q]) (auto simp: device_domain_def Let_def)
  qed
  have hd: "hd ds = system_domain p c reserve" "ds \<noteq> []" using assms(1) by (simp_all add: derive_budgets_def)
  then have "d = hd ds \<or> d \<in> set (tl ds)" using assms(2) by (metis list.collapse set_ConsD)
  then show "within_memory d"
  proof
    assume "d = hd ds"
    then show ?thesis unfolding hd by (intro budget_within) (simp add: system_domain_def Let_def)
  qed (use dev budget_within in blast)
  show "\<exists>pools q. (dm_name d, Discrete, pools) \<in> set accelerators \<and> q \<in> set pools \<and> pl_kind q = ''vram'' \<and>
      dm_available d = pl_available q" if "d \<in> set (tl ds)" using dev [OF that] by blast
  fix b h m
  assume "d = hd ds" "dm_budget d = Some b" "h \<in> {pl_available p, headroom c}" "h = Some m"
  then show "b = 0 \<or> b + dm_reserve d \<le> m" unfolding hd
    by (auto simp: system_domain_def Let_def budget_of_def opt_min_def split: option.splits)
qed

definition sample_pool :: pool where
  "sample_pool = \<lparr>pl_kind = ''system'', pl_total = Some (16 * 2 ^ 30), pl_available = Some (8 * 2 ^ 30)\<rparr>"

lemma budgets_are_within_memory_witness:
  "\<exists>d. d \<in> set (derive_budgets sample_pool \<lparr>cg_limit = Some (6 * 2 ^ 30), cg_usage = Some (2 ^ 30)\<rparr> [] None) \<and>
     dm_budget d = Some (5 * 2 ^ 30 - (16 * 2 ^ 30) div 10) \<and> within_memory d"
proof -
  let ?c = "\<lparr>cg_limit = Some (6 * 2 ^ 30), cg_usage = Some (2 ^ 30)\<rparr>"
  let ?d = "system_domain sample_pool ?c None"
  have d: "?d \<in> set (derive_budgets sample_pool ?c [] None)" by (simp add: derive_budgets_def)
  moreover have "within_memory ?d" using budgets_are_within_memory [OF refl d] by blast
  moreover have "dm_budget ?d = Some (5 * 2 ^ 30 - (16 * 2 ^ 30) div 10)"
    by (simp add: system_domain_def sample_pool_def device_reserve_def default_reserve_bytes_def GIB_def budget_of_def
        opt_min_def headroom_def Let_def)
  ultimately show ?thesis by blast
qed


section \<open>The plan is right\<close>

lemma update_append: "k \<notin> fst ` set d \<Longrightarrow> AList.update k v d = d @ [(k, v)]"
  by (induction d) auto

lemma by_component_distinct:
  assumes "distinct (map nd_component ns)"
  shows "by_component f ns = map (\<lambda>n. (nd_component n, f n)) ns"
proof -
  have "fold (\<lambda>n d. AList.update (nd_component n) (f n) d) ns d = d @ map (\<lambda>n. (nd_component n, f n)) ns"
    if "distinct (map nd_component ns)" "\<forall>n \<in> set ns. nd_component n \<notin> fst ` set d" for d
    using that
  proof (induction ns arbitrary: d)
    case (Cons n ns)
    have "\<forall>m \<in> set ns. nd_component m \<noteq> nd_component n" using Cons.prems(1) by (auto simp: image_iff)
    with Cons.prems have "fold (\<lambda>n d. AList.update (nd_component n) (f n) d) ns (d @ [(nd_component n, f n)]) =
        (d @ [(nd_component n, f n)]) @ map (\<lambda>n. (nd_component n, f n)) ns" by (intro Cons.IH) auto
    with Cons.prems show ?case by (simp add: update_append)
  qed simp
  from this [of "[]"] assms show ?thesis by (simp add: by_component_def)
qed

lemma max_default_ge: "x \<in> set xs \<Longrightarrow> x \<le> max_default xs"
  by (auto simp: max_default_def)

lemma max_default_le: "xs \<noteq> [] \<Longrightarrow> max_default xs \<le> b \<longleftrightarrow> (\<forall>x \<in> set xs. x \<le> b)"
  by (simp add: max_default_def)

lemma max_default_pos: "\<forall>x \<in> set xs. 0 \<le> x \<Longrightarrow> 0 \<le> max_default xs"
  by (auto simp: max_default_def Max_ge_iff neq_Nil_conv)

lemma size_of_need:
  assumes "distinct (map nd_component ns)" "n \<in> set ns"
  shows "size_of (by_component effective_bytes ns) (nd_component n) = effective_bytes n"
proof -
  have "map_of (map (\<lambda>n. (nd_component n, effective_bytes n)) ns) (nd_component n) = Some (effective_bytes n)"
    using assms by (intro map_of_is_SomeI) (auto simp: o_def)
  then show ?thesis using assms(1) by (simp add: size_of_def by_component_distinct)
qed

lemma other_max_ge:
  assumes "distinct (map nd_component ns)" "m \<in> set ns" "nd_component m \<noteq> c"
  shows "effective_bytes m \<le> other_max (by_component effective_bytes ns) c"
  unfolding other_max_def by (rule max_default_ge) (use assms in \<open>force simp: by_component_distinct\<close>)

lemma other_max_pos:
  assumes "distinct (map nd_component ns)" "\<forall>n \<in> set ns. 0 \<le> effective_bytes n"
  shows "0 \<le> other_max (by_component effective_bytes ns) c"
  unfolding other_max_def by (rule max_default_pos) (use assms in \<open>auto simp: by_component_distinct\<close>)

text \<open>A pin leaves room for every other need of its domain, and is the configured one or interactive.\<close>

definition good_pin :: "string \<Rightarrow> int \<Rightarrow> need list \<Rightarrow> string \<Rightarrow> bool" where
  "good_pin pin b ns c \<longleftrightarrow> (\<exists>n \<in> set ns. nd_component n = c \<and> (c = pin \<or> nd_interactive n) \<and> effective_bytes n \<le> b \<and>
     (\<forall>m \<in> set ns. nd_component m \<noteq> c \<longrightarrow> effective_bytes n + effective_bytes m \<le> b))"

lemma pinned_good:
  assumes "distinct (map nd_component ns)" "\<forall>n \<in> set ns. 0 \<le> effective_bytes n" "pinned_component pin b ns = Some c"
  shows "good_pin pin b ns c"
proof -
  let ?s = "by_component effective_bytes ns"
  from assms(3) have c: "c \<in> set (pin_candidates pin ns)" "size_of ?s c + other_max ?s c \<le> b"
    by (auto simp: pinned_component_def Let_def find_Some_iff dest: nth_mem)
  then obtain n where n: "n \<in> set ns" "nd_component n = c" "c = pin \<or> nd_interactive n"
    by (auto simp: pin_candidates_def split: if_splits)
  then have le: "effective_bytes n + other_max ?s c \<le> b" using c(2) size_of_need [OF assms(1) n(1)] by simp
  have "effective_bytes n + effective_bytes m \<le> b" if "m \<in> set ns" "nd_component m \<noteq> c" for m
    using other_max_ge [OF assms(1) that] le by linarith
  moreover have "effective_bytes n \<le> b" using other_max_pos [OF assms(1,2), of c] le by linarith
  ultimately show ?thesis using n unfolding good_pin_def by blast
qed

text \<open>What a plan should say, from the figures alone.\<close>

definition fit_spec :: "int option \<Rightarrow> need list \<Rightarrow> fit_status" where
  "fit_spec budget ns =
     (case budget of
        None \<Rightarrow> UnknownBudget
      | Some b \<Rightarrow>
          if \<not> list_all figured ns then UnknownBudget
          else if sum_list (map effective_bytes ns) \<le> b then CoResides
          else if \<exists>n \<in> set ns. effective_bytes n > b then DoesNotFit
          else Multiplex)"

lemma fit_domain_right:
  assumes "distinct (map nd_component ns)" "\<forall>n \<in> set ns. 0 \<le> effective_bytes n" "ns \<noteq> []"
  shows "df_status (fit_domain pin budget name ns) = fit_spec budget ns"
    and "df_pinned (fit_domain pin budget name ns) = Some c \<Longrightarrow> \<exists>b. budget = Some b \<and> good_pin pin b ns c"
proof -
  have big: "max_default (map snd (by_component effective_bytes ns)) \<le> b \<longleftrightarrow> (\<forall>n \<in> set ns. effective_bytes n \<le> b)" for b
    using assms(1,3) by (simp add: by_component_distinct max_default_le)
  have pin: "\<forall>n \<in> set ns. effective_bytes n \<le> b" if "pinned_component pin b ns = Some c" for b c
  proof
    fix m assume m: "m \<in> set ns"
    from pinned_good [OF assms(1,2) that] obtain n where n: "n \<in> set ns" "effective_bytes n \<le> b" "nd_component n = c"
      "\<forall>m \<in> set ns. nd_component m \<noteq> c \<longrightarrow> effective_bytes n + effective_bytes m \<le> b" by (auto simp: good_pin_def)
    have "m = n" if "nd_component m = c" using that n m assms(1) by (auto simp: distinct_map inj_on_def)
    with n m assms(2) show "effective_bytes m \<le> b" by fastforce
  qed
  show "df_status (fit_domain pin budget name ns) = fit_spec budget ns"
  proof (cases budget)
    case (Some b)
    have "pinned_component pin b ns \<noteq> None \<or> max_default (map snd (by_component effective_bytes ns)) \<le> b \<longleftrightarrow>
        \<not> (\<exists>n \<in> set ns. effective_bytes n > b)"
      using big [of b] pin [of b] by (auto simp: not_less [symmetric])
    with Some show ?thesis by (simp add: fit_domain_def fit_spec_def Let_def)
  qed (simp add: fit_domain_def fit_spec_def Let_def)
  show "\<exists>b. budget = Some b \<and> good_pin pin b ns c" if "df_pinned (fit_domain pin budget name ns) = Some c"
    using that pinned_good [OF assms(1,2)] by (auto simp: fit_domain_def Let_def split: if_splits option.splits)
qed

text \<open>The groups of the needs, by domain, none empty.\<close>

lemma group_needs:
  "distinct (map fst (group_needs_by_domain ns)) \<and>
   map_of (group_needs_by_domain ns) d = (if d \<in> nd_domain ` set ns then Some (filter (\<lambda>n. nd_domain n = d) ns) else None)"
proof (induction ns arbitrary: d rule: rev_induct)
  case Nil
  then show ?case by (simp add: group_needs_by_domain_def)
next
  case (snoc n ns)
  have "group_needs_by_domain (ns @ [n]) =
      AList.update (nd_domain n) ((case map_of (group_needs_by_domain ns) (nd_domain n) of None \<Rightarrow> [] | Some xs \<Rightarrow> xs) @ [n])
        (group_needs_by_domain ns)" by (simp add: group_needs_by_domain_def)
  moreover have "filter (\<lambda>m. nd_domain m = nd_domain n) ns = []" if "nd_domain n \<notin> nd_domain ` set ns"
    using that by (auto simp: filter_empty_conv image_iff)
  ultimately show ?case using snoc.IH [of d] snoc.IH [of "nd_domain n"]
    by (auto simp: update_conv distinct_update split: option.splits)
qed

lemma group_member:
  "(d, xs) \<in> set (group_needs_by_domain ns) \<longleftrightarrow> d \<in> nd_domain ` set ns \<and> xs = filter (\<lambda>n. nd_domain n = d) ns"
proof -
  have "(d, xs) \<in> set (group_needs_by_domain ns) \<longleftrightarrow> map_of (group_needs_by_domain ns) d = Some xs"
    using group_needs [THEN conjunct1, of ns] by (simp add: map_of_eq_Some_iff)
  then show ?thesis using group_needs [of ns d] by auto
qed

text \<open>
  C16. The plan is right: for needs whose components are distinct within a domain and whose figures are not
  negative, each domain's verdict is the one its figures give (everything together fits, each alone
  fits, one alone does not fit, unknown), a pinned component leaves room for every other one, and the
  report says that all co-reside exactly when in every domain the sum is within a known budget.
\<close>

theorem fit_plan_is_right:
  assumes "\<forall>d. distinct (map nd_component (filter (\<lambda>n. nd_domain n = d) ns))" and "\<forall>n \<in> set ns. 0 \<le> effective_bytes n"
  shows "(\<forall>f \<in> set (fr_domains (make_fit_report budgets ns pin)).
      let xs = filter (\<lambda>n. nd_domain n = df_domain f) ns; b = budget_by_domain budgets (df_domain f)
      in df_status f = fit_spec b xs \<and> (\<forall>c. df_pinned f = Some c \<longrightarrow> (\<exists>m. b = Some m \<and> good_pin pin m xs c))) \<and>
    (fr_co_resides (make_fit_report budgets ns pin) \<longleftrightarrow>
      (\<forall>d \<in> nd_domain ` set ns. fit_spec (budget_by_domain budgets d) (filter (\<lambda>n. nd_domain n = d) ns) = CoResides))"
proof -
  define fit where "fit = (\<lambda>(d, xs). fit_domain pin (budget_by_domain budgets d) d xs)"
  have right: "df_status (fit (d, xs)) = fit_spec (budget_by_domain budgets d) xs \<and> df_domain (fit (d, xs)) = d \<and>
      (\<forall>c. df_pinned (fit (d, xs)) = Some c \<longrightarrow> (\<exists>m. budget_by_domain budgets d = Some m \<and> good_pin pin m xs c))"
    if g: "(d, xs) \<in> set (group_needs_by_domain ns)" for d xs
  proof -
    from g have xs: "xs = filter (\<lambda>n. nd_domain n = d) ns" "xs \<noteq> []" by (auto simp: group_member filter_empty_conv)
    have "distinct (map nd_component xs)" "\<forall>n \<in> set xs. 0 \<le> effective_bytes n" using assms by (simp_all add: xs(1))
    from fit_domain_right [OF this xs(2)] show ?thesis
      by (auto simp: fit_def fit_domain_def Let_def split: option.splits)
  qed
  have doms: "fr_domains (make_fit_report budgets ns pin) = map fit (group_needs_by_domain ns)"
    "fr_co_resides (make_fit_report budgets ns pin) = list_all (\<lambda>f. df_status f = CoResides) (map fit (group_needs_by_domain ns))"
    by (simp_all add: make_fit_report_def fit_def Let_def)
  have mem: "(d, filter (\<lambda>n. nd_domain n = d) ns) \<in> set (group_needs_by_domain ns)" if "d \<in> nd_domain ` set ns" for d
    using that by (simp add: group_member)
  show ?thesis
  proof (intro conjI)
    show "\<forall>f \<in> set (fr_domains (make_fit_report budgets ns pin)).
      let xs = filter (\<lambda>n. nd_domain n = df_domain f) ns; b = budget_by_domain budgets (df_domain f)
      in df_status f = fit_spec b xs \<and> (\<forall>c. df_pinned f = Some c \<longrightarrow> (\<exists>m. b = Some m \<and> good_pin pin m xs c))"
    proof
      fix f assume "f \<in> set (fr_domains (make_fit_report budgets ns pin))"
      then obtain d xs where f: "f = fit (d, xs)" and g: "(d, xs) \<in> set (group_needs_by_domain ns)" by (auto simp: doms(1))
      have dom: "df_domain f = d" using right [OF g] f by simp
      have xs: "filter (\<lambda>n. nd_domain n = d) ns = xs" using g by (simp add: group_member)
      show "let xs = filter (\<lambda>n. nd_domain n = df_domain f) ns; b = budget_by_domain budgets (df_domain f)
        in df_status f = fit_spec b xs \<and> (\<forall>c. df_pinned f = Some c \<longrightarrow> (\<exists>m. b = Some m \<and> good_pin pin m xs c))"
        unfolding Let_def dom xs using right [OF g] f by blast
    qed
    show "fr_co_resides (make_fit_report budgets ns pin) \<longleftrightarrow>
      (\<forall>d \<in> nd_domain ` set ns. fit_spec (budget_by_domain budgets d) (filter (\<lambda>n. nd_domain n = d) ns) = CoResides)"
      unfolding doms(2) list_all_iff set_map
    proof safe
      fix n assume a: "\<forall>f \<in> fit ` set (group_needs_by_domain ns). df_status f = CoResides" "n \<in> set ns"
      let ?d = "nd_domain n"
      have g: "(?d, filter (\<lambda>m. nd_domain m = ?d) ns) \<in> set (group_needs_by_domain ns)" using a(2) by (intro mem) simp
      with a(1) have "df_status (fit (?d, filter (\<lambda>m. nd_domain m = ?d) ns)) = CoResides" by blast
      with right [OF g] show "fit_spec (budget_by_domain budgets ?d) (filter (\<lambda>m. nd_domain m = ?d) ns) = CoResides" by simp
    next
      fix d xs assume a: "\<forall>d \<in> nd_domain ` set ns. fit_spec (budget_by_domain budgets d) (filter (\<lambda>n. nd_domain n = d) ns) = CoResides"
        "(d, xs) \<in> set (group_needs_by_domain ns)"
      then show "df_status (fit (d, xs)) = CoResides" using right [OF a(2)] by (auto simp: group_member)
    qed
  qed
qed

definition small_need :: "string \<Rightarrow> int \<Rightarrow> bool \<Rightarrow> need" where
  "small_need c b i = \<lparr>nd_component = c, nd_domain = ''system'', nd_footprint = Some b, nd_estimate = None,
     nd_interactive = i, nd_rung = []\<rparr>"

lemma fit_plan_is_right_witness:
  "\<not> fr_co_resides (make_fit_report (derive_budgets sample_pool \<lparr>cg_limit = None, cg_usage = None\<rparr> [] (Some 0))
     [small_need ''language'' (5 * 2 ^ 30) True, small_need ''vision'' (4 * 2 ^ 30) False] ''language'')"
proof -
  let ?ns = "[small_need ''language'' (5 * 2 ^ 30) True, small_need ''vision'' (4 * 2 ^ 30) False]"
  let ?b = "derive_budgets sample_pool \<lparr>cg_limit = None, cg_usage = None\<rparr> [] (Some 0)"
  have "\<forall>d. distinct (map nd_component (filter (\<lambda>n. nd_domain n = d) ?ns))" "\<forall>n \<in> set ?ns. 0 \<le> effective_bytes n"
    by (simp_all add: small_need_def effective_bytes_def)
  note plan = fit_plan_is_right [OF this, of ?b "''language''"]
  have "fit_spec (budget_by_domain ?b ''system'') (filter (\<lambda>n. nd_domain n = ''system'') ?ns) = Multiplex"
    by (simp add: fit_spec_def budget_by_domain_def derive_budgets_def system_domain_def sample_pool_def budget_of_def
        opt_min_def headroom_def device_reserve_def small_need_def effective_bytes_def figured_def Let_def map_filter_def)
  with plan show ?thesis by (simp add: small_need_def)
qed

end
