(* ===== verification/PreserveWatch.thy ===== *)
theory PreserveWatch
  imports ControlState
begin

text \<open>
  Models \<open>kaine/cycle/preserve_watch.py\<close>: the watcher that handles the operator's requests to preserve
  a live entity. One poll freezes the cycle under the source \<open>preserve\<close>, waits for the pause, preserves,
  records the result and lifts its freeze again or stops the entity. What the environment does during a
  poll (the clock, the pause, what raises, and the operations other holders perform on the control file
  before the poll and while it waits) is a record, so a run of the watcher is a list of such records.
  A request file that is no UTF-8 is \<open>NotText\<close>; a run cancelled in the middle of a poll is not modelled.
\<close>

section \<open>Requests\<close>

record preserve_request =
  rq_id :: string
  rq_reason :: string
  rq_stop :: bool
  rq_requested_at :: string

datatype request_file = NotText | JFile jfile

definition is_lower_hex :: "char \<Rightarrow> bool" where
  "is_lower_hex c \<longleftrightarrow> is_digit c \<or> (let n = of_char c :: nat in 97 \<le> n \<and> n \<le> 102)"

text \<open>
  \<open>^[0-9a-f]{32}$\<close>: the dollar also matches before a newline that ends the text.
\<close>

definition request_id_ok :: "string \<Rightarrow> bool" where
  "request_id_ok s \<longleftrightarrow>
     list_all is_lower_hex (take 32 s) \<and> (length s = 32 \<or> length s = 33 \<and> s ! 32 = CHR 0x0A)"

definition write_request :: "preserve_request \<Rightarrow> request_file \<Rightarrow> request_file" where
  "write_request r f =
     JFile (write_json_atomic Absent
       (PDict [(''request_id'', PStr (rq_id r)), (''reason'', PStr (rq_reason r)),
               (''stop'', PBool (rq_stop r)), (''requested_at'', PStr (rq_requested_at r))]))"

text \<open>
  A value that is no object has no \<open>get\<close>: AttributeError. Neither it nor UnicodeDecodeError is caught;
  both are OtherException.
\<close>

fun read_request :: "request_file \<Rightarrow> py_exc + preserve_request option" where
  "read_request NotText = Inl OtherException"
| "read_request (JFile Absent) = Inr None"
| "read_request (JFile Unreadable) = Inr None"
| "read_request (JFile (Doc (PDict d))) =
     Inr (case (dget d ''request_id'' PNone, dget d ''reason'' PNone, dget d ''stop'' PNone,
                dget d ''requested_at'' PNone) of
            (PStr i, PStr r, PBool b, PStr t) \<Rightarrow>
              if request_id_ok i
              then Some \<lparr>rq_id = i, rq_reason = r, rq_stop = b, rq_requested_at = t\<rparr> else None
          | _ \<Rightarrow> None)"
| "read_request (JFile (Doc _)) = Inl OtherException"

definition write_result :: "pydict \<Rightarrow> jfile \<Rightarrow> jfile" where
  "write_result d f = write_json_atomic f (PDict d)"

fun read_result :: "jfile \<Rightarrow> pydict option" where
  "read_result (Doc (PDict d)) = Some d"
| "read_result _ = None"

section \<open>The watcher\<close>

text \<open>
  \<open>pw_preserved\<close> lists the requests whose preservation was started, newest last, and
  \<open>pw_stopping\<close> those preserved with the entity to be stopped; \<open>pw_stop_calls\<close> counts the calls of
  \<open>request_stop\<close> that returned. The code keeps none of the three.
\<close>

record watcher =
  pw_last_handled :: pyval
  pw_release_pending :: bool
  pw_ctl :: ctl_world
  pw_result :: jfile
  pw_preserved :: "string list"
  pw_stopping :: "string list"
  pw_stop_calls :: nat

definition new_watcher :: "jfile \<Rightarrow> ctl_world \<Rightarrow> watcher" where
  "new_watcher result ctl =
     \<lparr>pw_last_handled = (case read_result result of Some d \<Rightarrow> dget d ''request_id'' PNone | None \<Rightarrow> PNone),
      pw_release_pending = False, pw_ctl = ctl, pw_result = result, pw_preserved = [], pw_stopping = [],
      pw_stop_calls = 0\<rparr>"

text \<open>
  What \<open>preserve\<close> and \<open>bundle_for\<close> give: the truth of \<open>ok\<close>, the identifier and the bundle as far as they
  were reached, and the text of what was raised.
\<close>

record preserve_outcome =
  oc_ok :: bool
  oc_id :: pyval
  oc_bundle :: pyval
  oc_error :: pyval

definition outcome :: "string + bool \<times> pyval \<times> (string + string) \<Rightarrow> preserve_outcome" where
  "outcome r =
     (case r of
        Inl e \<Rightarrow> \<lparr>oc_ok = False, oc_id = PNone, oc_bundle = PNone, oc_error = PStr e\<rparr>
      | Inr (ok, i, Inl e) \<Rightarrow> \<lparr>oc_ok = ok, oc_id = i, oc_bundle = PNone, oc_error = PStr e\<rparr>
      | Inr (ok, i, Inr b) \<Rightarrow> \<lparr>oc_ok = ok, oc_id = i, oc_bundle = PStr b, oc_error = PNone\<rparr>)"

record poll_env =
  ev_request :: request_file
  ev_before :: "ctl_op list"
  ev_during :: "ctl_op list"
  ev_ts :: string
  ev_now :: string
  ev_clock :: "nat \<Rightarrow> real"
  ev_paused :: "nat \<Rightarrow> bool"
  ev_timeout :: real
  ev_preserve :: "string + bool \<times> pyval \<times> (string + string)"
  ev_push_raises :: bool
  ev_pop_raises :: bool
  ev_write_raises :: bool
  ev_stop_raises :: bool

subsection \<open>Waiting for the pause\<close>

text \<open>
  Reading \<open>i\<close> of the clock is compared with the deadline, then the pause is asked for. The value is the
  number of the reading that ended the wait, \<open>None\<close> when none does.
\<close>

partial_function (option) wait_for_pause :: "(nat \<Rightarrow> real) \<Rightarrow> (nat \<Rightarrow> bool) \<Rightarrow> real \<Rightarrow> nat \<Rightarrow> nat option" where
  [code]: "wait_for_pause clock paused deadline i =
     (if clock i < deadline then if paused i then Some i else wait_for_pause clock paused deadline (Suc i)
      else Some i)"

subsection \<open>One poll\<close>

definition release_freeze :: "poll_env \<Rightarrow> watcher \<Rightarrow> watcher" where
  "release_freeze e s =
     (if ev_pop_raises e then s\<lparr>pw_release_pending := True\<rparr>
      else s\<lparr>pw_ctl := snd (pop_freeze (ev_ts e) (Some ''preserve'') (pw_ctl s)), pw_release_pending := False\<rparr>)"

definition result_payload :: "poll_env \<Rightarrow> preserve_request \<Rightarrow> preserve_outcome \<Rightarrow> pydict" where
  "result_payload e r oc =
     [(''request_id'', PStr (rq_id r)), (''ok'', PBool (oc_ok oc)), (''preservation_id'', oc_id oc),
      (''bundle'', oc_bundle oc), (''error'', oc_error oc), (''finished_at'', PStr (ev_now e))]"

text \<open>From the preservation to the end of the step. Stopping logs an exception and goes on.\<close>

definition finish_request :: "poll_env \<Rightarrow> preserve_request \<Rightarrow> watcher \<Rightarrow> watcher" where
  "finish_request e r s =
     (let oc = outcome (ev_preserve e);
          s1 = s\<lparr>pw_last_handled := PStr (rq_id r), pw_preserved := pw_preserved s @ [rq_id r]\<rparr>;
          s2 = (if ev_write_raises e then s1
                else s1\<lparr>pw_result := write_result (result_payload e r oc) (pw_result s1)\<rparr>)
      in if oc_ok oc \<and> rq_stop r then
           s2\<lparr>pw_stopping := pw_stopping s2 @ [rq_id r],
             pw_stop_calls := (if ev_stop_raises e then pw_stop_calls s2 else Suc (pw_stop_calls s2))\<rparr>
         else release_freeze e s2)"

definition handle_request :: "poll_env \<Rightarrow> preserve_request \<Rightarrow> watcher \<Rightarrow> ((py_exc + unit) \<times> watcher) option" where
  "handle_request e r s =
     (if ev_push_raises e then Some (Inl OtherException, s)
      else let pushed = snd (push_freeze (ev_ts e) (PStr (''preserve: '' @ rq_reason r)) ''preserve'' (ev_now e) (pw_ctl s));
               during = run (ctl_step (ev_ts e)) pushed (ev_during e)
           in map_option (\<lambda>_. (Inr (), finish_request e r (s\<lparr>pw_ctl := during\<rparr>)))
                (wait_for_pause (ev_clock e) (ev_paused e) (ev_clock e 0 + ev_timeout e) 1))"

definition watch_step :: "poll_env \<Rightarrow> watcher \<Rightarrow> ((py_exc + unit) \<times> watcher) option" where
  "watch_step e s =
     (if pw_release_pending s then Some (Inr (), release_freeze e s)
      else case read_request (ev_request e) of
             Inl x \<Rightarrow> Some (Inl x, s)
           | Inr None \<Rightarrow> Some (Inr (), s)
           | Inr (Some r) \<Rightarrow>
               if PStr (rq_id r) = pw_last_handled s then Some (Inr (), s) else handle_request e r s)"

text \<open>The loop: what a step raises is logged. The other holders act between the polls.\<close>

definition poll :: "poll_env \<Rightarrow> watcher \<Rightarrow> watcher option" where
  "poll e s = map_option snd
     (watch_step e (s\<lparr>pw_ctl := run (ctl_step (ev_ts e)) (pw_ctl s) (ev_before e)\<rparr>))"

fun polls :: "poll_env list \<Rightarrow> watcher \<Rightarrow> watcher option" where
  "polls [] s = Some s"
| "polls (e # es) s = Option.bind (poll e s) (polls es)"

section \<open>The wait ends\<close>

lemma wait_over: "\<not> clock i < deadline \<or> paused i \<Longrightarrow> wait_for_pause clock paused deadline i = Some i"
  by (subst wait_for_pause.simps) auto

lemma wait_ends:
  assumes "i \<le> n" and "deadline \<le> clock n"
  shows "\<exists>j. wait_for_pause clock paused deadline i = Some j \<and> i \<le> j \<and> j \<le> n \<and>
    (paused j \<or> deadline \<le> clock j) \<and> (\<forall>k. i \<le> k \<and> k < j \<longrightarrow> \<not> paused k \<and> clock k < deadline)"
  using assms(1)
proof (induction "n - i" arbitrary: i rule: less_induct)
  case less
  show ?case
  proof (cases "clock i < deadline \<and> \<not> paused i")
    case True
    with assms(2) less.prems have "i < n" by (cases "i = n") auto
    then have "n - Suc i < n - i" and "Suc i \<le> n" by simp_all
    then obtain j where j: "wait_for_pause clock paused deadline (Suc i) = Some j" "Suc i \<le> j" "j \<le> n"
        "paused j \<or> deadline \<le> clock j" "\<forall>k. Suc i \<le> k \<and> k < j \<longrightarrow> \<not> paused k \<and> clock k < deadline"
      using less.hyps [of "Suc i"] by blast
    have "wait_for_pause clock paused deadline i = Some j"
      using True j(1) by (subst wait_for_pause.simps) simp
    moreover have "\<forall>k. i \<le> k \<and> k < j \<longrightarrow> \<not> paused k \<and> clock k < deadline"
      using True j(5) by (metis Suc_leI le_neq_implies_less)
    ultimately show ?thesis using j by (intro exI [of _ j]) auto
  next
    case False
    then have "\<not> clock i < deadline \<or> paused i" by blast
    with less.prems wait_over [of clock i deadline paused] show ?thesis by (intro exI [of _ i]) auto
  qed
qed

lemma clock_advances:
  fixes clock :: "nat \<Rightarrow> real"
  assumes "\<forall>i. clock i + \<delta> \<le> clock (Suc i)"
  shows "clock 0 + real n * \<delta> \<le> clock n"
proof (induction n)
  case (Suc n)
  have "clock 0 + real (Suc n) * \<delta> = (clock 0 + real n * \<delta>) + \<delta>" by (simp add: algebra_simps)
  also have "\<dots> \<le> clock (Suc n)" using Suc.IH assms by (metis add_le_cancel_right order_trans)
  finally show ?case .
qed simp

definition wait_bound :: "real \<Rightarrow> real \<Rightarrow> nat" where
  "wait_bound timeout \<delta> = max 1 (nat \<lceil>timeout / \<delta>\<rceil>)"

lemma deadline_reached:
  fixes clock :: "nat \<Rightarrow> real"
  assumes "0 < \<delta>" and "\<forall>i. clock i + \<delta> \<le> clock (Suc i)"
  shows "clock 0 + timeout \<le> clock (wait_bound timeout \<delta>)"
proof -
  have "timeout / \<delta> \<le> real (wait_bound timeout \<delta>)" unfolding wait_bound_def by linarith
  then have "timeout \<le> real (wait_bound timeout \<delta>) * \<delta>" using assms(1) by (simp add: pos_divide_le_eq)
  with clock_advances [OF assms(2), of "wait_bound timeout \<delta>"] show ?thesis by linarith
qed

text \<open>The clock of every poll advances by \<open>\<delta>\<close> from one reading to the next.\<close>

definition ticking :: "real \<Rightarrow> poll_env \<Rightarrow> bool" where
  "ticking \<delta> e \<longleftrightarrow> 0 < \<delta> \<and> (\<forall>i. ev_clock e i + \<delta> \<le> ev_clock e (Suc i))"

lemma poll_returns: "ticking \<delta> e \<Longrightarrow> \<exists>s'. poll e s = Some s'"
proof -
  assume t: "ticking \<delta> e"
  have "1 \<le> wait_bound (ev_timeout e) \<delta>" by (simp add: wait_bound_def)
  moreover have "ev_clock e 0 + ev_timeout e \<le> ev_clock e (wait_bound (ev_timeout e) \<delta>)"
    using t deadline_reached by (simp add: ticking_def)
  ultimately obtain j where "wait_for_pause (ev_clock e) (ev_paused e) (ev_clock e 0 + ev_timeout e) 1 = Some j"
    using wait_ends [of 1 "wait_bound (ev_timeout e) \<delta>" "ev_clock e 0 + ev_timeout e" "ev_clock e" "ev_paused e"]
    by blast
  then show ?thesis
    by (auto simp: poll_def watch_step_def handle_request_def Let_def split: sum.split option.split)
qed

section \<open>Whose freezes are on the stack\<close>

text \<open>The operations of the other holders: none of them names \<open>preserve\<close> or pops without a name.\<close>

fun foreign :: "ctl_op \<Rightarrow> bool" where
  "foreign (CPush r s t) = (map_stored_value (map_module_key s) \<noteq> ''preserve'')"
| "foreign (CPop (Some s)) = (s \<noteq> ''preserve'')"
| "foreign (CStandDown s) = (s \<noteq> ''preserve'')"
| "foreign (COverride now srcs) = True"
| "foreign CRead = True"
| "foreign _ = False"

text \<open>A readable control file with \<open>n\<close> freezes of the watcher.\<close>

definition own_freezes :: "nat \<Rightarrow> ctl_world \<Rightarrow> bool" where
  "own_freezes n w \<longleftrightarrow> (\<exists>st. ctl_stack w = Some st \<and> length (filter (entry_from ''preserve'') st) = n)"

lemma foreign_override:
  assumes "own_freezes n w"
  shows "own_freezes n (snd (override_freeze now srcs w))"
proof -
  from assms obtain st where st: "ctl_stack w = Some st" "length (filter (entry_from ''preserve'') st) = n"
    by (auto simp: own_freezes_def)
  let ?keep = "filter (\<lambda>e. \<forall>s \<in> set srcs. \<not> entry_from s e) st"
  have clean: "map clean_entry ?keep = ?keep" using ctl_stack_clean [OF st(1)] map_clean_subset by auto
  have same: "filter (entry_from ''preserve'') ?keep = filter (entry_from ''preserve'') st"
    if "set srcs \<subseteq> set overridable_sources"
    using that by (auto simp: overridable_sources_def filter_filter entry_from_same intro!: filter_cong)
  show ?thesis
    using st clean same by (auto simp: override_spec own_freezes_def Let_def ctl_stack_def from_dict_to_dict)
qed

lemma foreign_step: "own_freezes n w \<Longrightarrow> foreign x \<Longrightarrow> own_freezes n (ctl_step ts w x)"
proof (cases x rule: foreign.cases)
  case (2 s)
  assume "own_freezes n w" and "foreign x"
  with 2 show ?thesis
    using filter_remove_last_other [of "entry_from s" "entry_from ''preserve''"]
    by (auto simp: own_freezes_def stack_results entry_from_same)
next
  case (3 s)
  assume "own_freezes n w" and "foreign x"
  with 3 show ?thesis
    by (auto simp: own_freezes_def stack_results filter_filter entry_from_same intro!: arg_cong [of _ _ length] filter_cong)
next
  case 5
  assume "own_freezes n w"
  with 5 show ?thesis by (simp add: own_freezes_def ctl_stack_file_cong [OF read_control_file])
qed (auto simp: own_freezes_def stack_results freeze_cycle_def entry_from_def freeze_entry_def foreign_override [unfolded own_freezes_def])

interpretation others: machine "ctl_step ts" foreign "own_freezes n" for ts n
  by unfold_locales (rule foreign_step)

lemma own_push: "own_freezes n w \<Longrightarrow> own_freezes (Suc n) (snd (push_freeze ts r ''preserve'' t w))"
  by (auto simp: own_freezes_def stack_results entry_from_def freeze_entry_def)

lemma own_pop: "own_freezes n w \<Longrightarrow> own_freezes (n - 1) (snd (pop_freeze ts (Some ''preserve'') w))"
  by (auto simp: own_freezes_def stack_results length_filter_remove_last)

section \<open>Invariants of the watcher\<close>

definition calm :: "poll_env \<Rightarrow> bool" where
  "calm e \<longleftrightarrow> list_all foreign (ev_before e) \<and> list_all foreign (ev_during e)"

definition accounted :: "watcher \<Rightarrow> bool" where
  "accounted s \<longleftrightarrow>
     own_freezes (length (pw_stopping s) + (if pw_release_pending s then 1 else 0)) (pw_ctl s)"

lemma release_accounted:
  assumes "own_freezes (Suc (length (pw_stopping s))) (pw_ctl s)"
  shows "accounted (release_freeze e s)"
  using assms own_pop [OF assms] by (simp add: accounted_def release_freeze_def)

lemma finish_accounted:
  assumes "own_freezes (Suc (length (pw_stopping s))) (pw_ctl s)" and "\<not> pw_release_pending s"
  shows "accounted (finish_request e r s)"
proof (cases "oc_ok (outcome (ev_preserve e)) \<and> rq_stop r")
  case True
  with assms show ?thesis by (simp add: finish_request_def accounted_def Let_def)
next
  case False
  then obtain s' where "finish_request e r s = release_freeze e s'"
      "pw_stopping s' = pw_stopping s" "pw_ctl s' = pw_ctl s"
    by (cases "ev_write_raises e") (auto simp: finish_request_def Let_def)
  with assms show ?thesis by (simp add: release_accounted)
qed

lemma handle_accounted:
  assumes "accounted s" and "\<not> pw_release_pending s" and "calm e" and "handle_request e r s = Some (x, s')"
  shows "accounted s'"
proof (cases "ev_push_raises e")
  case True
  with assms show ?thesis by (simp add: handle_request_def)
next
  case False
  let ?pushed = "snd (push_freeze (ev_ts e) (PStr (''preserve: '' @ rq_reason r)) ''preserve'' (ev_now e) (pw_ctl s))"
  have "own_freezes (Suc (length (pw_stopping s))) ?pushed"
    using assms(1,2) by (simp add: accounted_def own_push)
  then have "own_freezes (Suc (length (pw_stopping s))) (run (ctl_step (ev_ts e)) ?pushed (ev_during e))"
    using assms(3) by (simp add: calm_def others.run_inv)
  moreover have "s' = finish_request e r (s\<lparr>pw_ctl := run (ctl_step (ev_ts e)) ?pushed (ev_during e)\<rparr>)"
    using assms(4) False by (auto simp: handle_request_def Let_def)
  ultimately show ?thesis using assms(2) by (simp add: finish_accounted)
qed

lemma step_accounted:
  assumes "accounted s" and "calm e" and "watch_step e s = Some (x, s')"
  shows "accounted s'"
proof (cases "pw_release_pending s")
  case True
  with assms(1) have "own_freezes (Suc (length (pw_stopping s))) (pw_ctl s)" by (simp add: accounted_def)
  then have "accounted (release_freeze e s)" by (rule release_accounted)
  with True assms(3) show ?thesis by (simp add: watch_step_def)
next
  case False
  with assms show ?thesis
    by (auto simp: watch_step_def split: sum.splits option.splits if_splits intro: handle_accounted)
qed

lemma poll_accounted:
  assumes "accounted s" and "calm e" and "poll e s = Some s'"
  shows "accounted s'"
proof -
  let ?s = "s\<lparr>pw_ctl := run (ctl_step (ev_ts e)) (pw_ctl s) (ev_before e)\<rparr>"
  have "accounted ?s" using assms(1,2) by (simp add: accounted_def calm_def others.run_inv)
  moreover obtain x where "watch_step e ?s = Some (x, s')" using assms(3) by (auto simp: poll_def)
  ultimately show ?thesis using assms(2) by (auto intro: step_accounted)
qed

lemma polls_accounted:
  "accounted s \<Longrightarrow> list_all calm es \<Longrightarrow> polls es s = Some s' \<Longrightarrow> accounted s'"
proof (induction es arbitrary: s)
  case (Cons e es)
  then obtain t where t: "poll e s = Some t" "polls es t = Some s'" by (auto simp: bind_eq_Some_conv)
  with Cons.prems poll_accounted [of s e t] show ?case by (auto intro: Cons.IH)
qed simp

subsection \<open>Each request once\<close>

text \<open>\<open>h\<close>: the request recorded when the watcher was made.\<close>

definition history :: "pyval \<Rightarrow> watcher \<Rightarrow> pyval list" where
  "history h s = h # map PStr (pw_preserved s)"

definition no_repeat :: "pyval \<Rightarrow> watcher \<Rightarrow> bool" where
  "no_repeat h s \<longleftrightarrow> distinct_adj (history h s) \<and> pw_last_handled s = last (history h s)"

lemma finish_fields:
  "pw_preserved (finish_request e r s) = pw_preserved s @ [rq_id r]"
  "pw_last_handled (finish_request e r s) = PStr (rq_id r)"
  by (simp_all add: finish_request_def release_freeze_def Let_def)

lemma release_fields [simp]:
  "pw_preserved (release_freeze e s) = pw_preserved s"
  "pw_last_handled (release_freeze e s) = pw_last_handled s"
  "pw_result (release_freeze e s) = pw_result s"
  by (simp_all add: release_freeze_def)

lemma watch_step_cases:
  assumes "watch_step e s = Some (x, s')"
  obtains (quiet) "pw_preserved s' = pw_preserved s" "pw_last_handled s' = pw_last_handled s"
  | (handled) r where "read_request (ev_request e) = Inr (Some r)" "PStr (rq_id r) \<noteq> pw_last_handled s"
      "pw_preserved s' = pw_preserved s @ [rq_id r]" "pw_last_handled s' = PStr (rq_id r)"
proof (cases "\<exists>r c. s' = finish_request e r (s\<lparr>pw_ctl := c\<rparr>) \<and> read_request (ev_request e) = Inr (Some r) \<and>
    PStr (rq_id r) \<noteq> pw_last_handled s")
  case True
  then show thesis using handled by (auto simp: finish_fields)
next
  case False
  with assms have "pw_preserved s' = pw_preserved s \<and> pw_last_handled s' = pw_last_handled s"
    by (auto simp: watch_step_def handle_request_def Let_def split: if_splits sum.splits option.splits)
  then show thesis using quiet by blast
qed

lemma poll_cases:
  assumes "poll e s = Some s'"
  obtains (quiet) "pw_preserved s' = pw_preserved s" "pw_last_handled s' = pw_last_handled s"
  | (handled) r where "read_request (ev_request e) = Inr (Some r)" "PStr (rq_id r) \<noteq> pw_last_handled s"
      "pw_preserved s' = pw_preserved s @ [rq_id r]" "pw_last_handled s' = PStr (rq_id r)"
proof -
  let ?s = "s\<lparr>pw_ctl := run (ctl_step (ev_ts e)) (pw_ctl s) (ev_before e)\<rparr>"
  from assms obtain x where "watch_step e ?s = Some (x, s')" by (auto simp: poll_def)
  then show thesis by (cases rule: watch_step_cases) (use quiet handled in auto)
qed

lemma poll_no_repeat: "no_repeat h s \<Longrightarrow> poll e s = Some s' \<Longrightarrow> no_repeat h s'"
proof -
  assume inv: "no_repeat h s" and "poll e s = Some s'"
  from this(2) show ?thesis
  proof (cases rule: poll_cases)
    case quiet
    with inv show ?thesis by (simp add: no_repeat_def history_def)
  next
    case (handled r)
    then have "history h s' = history h s @ [PStr (rq_id r)]" by (simp add: history_def)
    moreover from inv handled have "last (history h s) \<noteq> PStr (rq_id r)" by (auto simp: no_repeat_def)
    ultimately show ?thesis using inv handled
      by (simp add: no_repeat_def distinct_adj_append_iff)
  qed
qed

lemma polls_no_repeat: "no_repeat h s \<Longrightarrow> polls es s = Some s' \<Longrightarrow> no_repeat h s'"
  by (induction es arbitrary: s) (auto simp: bind_eq_Some_conv dest: poll_no_repeat)

section \<open>Properties\<close>

definition sample_request :: preserve_request where
  "sample_request =
     \<lparr>rq_id = ''00112233445566778899aabbccddeeff'', rq_reason = ''backup'', rq_stop = False,
      rq_requested_at = ''2026-01-01T00:00:00+00:00''\<rparr>"

definition quiet_env :: "request_file \<Rightarrow> poll_env" where
  "quiet_env f =
     \<lparr>ev_request = f, ev_before = [CPush PNone ''operator'' ''t''], ev_during = [CPop (Some ''operator'')],
      ev_ts = ''t'', ev_now = ''t'', ev_clock = (\<lambda>i. real i / 10), ev_paused = (\<lambda>i. i = 3), ev_timeout = 5,
      ev_preserve = Inr (True, PStr ''p1'', Inr ''/bundle''), ev_push_raises = False, ev_pop_raises = False,
      ev_write_raises = False, ev_stop_raises = False\<rparr>"

definition sample_env :: poll_env where
  "sample_env = quiet_env (write_request sample_request NotText)"

lemma request_written:
  "request_id_ok (rq_id r) \<Longrightarrow> read_request (write_request r f) = Inr (Some r)"
  by (simp add: write_request_def write_json_atomic_def)

lemma sample_request_read: "read_request (ev_request sample_env) = Inr (Some sample_request)"
proof -
  have "request_id_ok (rq_id sample_request)" by code_simp
  then show ?thesis by (simp add: sample_env_def quiet_env_def request_written)
qed

lemma sample_env_calm: "calm sample_env"
proof -
  have "map_stored_value (map_module_key ''operator'') \<noteq> ''preserve''" by code_simp
  then show ?thesis by (simp add: calm_def sample_env_def quiet_env_def)
qed

lemma sample_env_ticks: "ticking (1 / 10) sample_env"
  by (simp add: ticking_def sample_env_def quiet_env_def field_simps)

definition sample_watcher :: watcher where
  "sample_watcher = new_watcher Absent (sample_world [sample_entry ''welfare''])"

lemma sample_watcher_own: "own_freezes 0 (pw_ctl sample_watcher)"
proof -
  have "\<not> entry_from ''preserve'' (clean_entry (sample_entry ''welfare''))" by code_simp
  then show ?thesis by (simp add: sample_watcher_def new_watcher_def own_freezes_def ctl_stack_sample)
qed

text \<open>
  C27. The wait for the pause ends. When the clock advances by at least \<open>\<delta>\<close> between two readings, the loop
  ends within \<open>timeout / \<delta>\<close> readings (one at least), at the first reading at which the cycle is paused
  or the deadline has passed, whatever the cycle does.
\<close>

theorem pause_wait_ends:
  assumes "0 < \<delta>" and "\<forall>i. clock i + \<delta> \<le> clock (Suc i)"
  shows "\<exists>j. wait_for_pause clock paused (clock 0 + timeout) 1 = Some j \<and> j \<le> wait_bound timeout \<delta> \<and>
    (paused j \<or> clock 0 + timeout \<le> clock j) \<and>
    (\<forall>k. 1 \<le> k \<and> k < j \<longrightarrow> \<not> paused k \<and> clock k < clock 0 + timeout)"
proof -
  have "1 \<le> wait_bound timeout \<delta>" by (simp add: wait_bound_def)
  with deadline_reached [of \<delta> clock timeout, OF assms]
    wait_ends [of 1 "wait_bound timeout \<delta>" "clock 0 + timeout" clock paused]
  show ?thesis by blast
qed

theorem pause_wait_ends_witness:
  "\<exists>j. wait_for_pause (\<lambda>i. real i / 10) (\<lambda>i. i = 7) (real 0 / 10 + 5) 1 = Some j \<and> j \<le> wait_bound 5 (1 / 10) \<and>
    (j = 7 \<or> real 0 / 10 + 5 \<le> real j / 10) \<and>
    (\<forall>k. 1 \<le> k \<and> k < j \<longrightarrow> \<not> k = 7 \<and> real k / 10 < real 0 / 10 + 5)"
  by (rule pause_wait_ends) (simp_all add: field_simps)

text \<open>
  C25. The watcher's freezes are accounted for. From a readable control file without an entry of the
  watcher, whatever the requests are, whatever raises and whatever freezes other holders push and lift
  before and during each poll, between two polls the stack holds exactly one entry of the watcher for
  each request after which the entity is to stop, and one more only while a failed release waits for
  its retry. No poll leaves another one behind.
\<close>

theorem preserve_freezes_accounted:
  assumes "own_freezes 0 ctl" and "list_all calm es" and "polls es (new_watcher result ctl) = Some s"
  shows "own_freezes (length (pw_stopping s) + (if pw_release_pending s then 1 else 0)) (pw_ctl s)"
proof -
  have "accounted (new_watcher result ctl)" using assms(1) by (simp add: accounted_def new_watcher_def)
  with polls_accounted assms(2,3) show ?thesis unfolding accounted_def by blast
qed

theorem preserve_freezes_accounted_witness:
  "\<exists>s. polls [sample_env, sample_env] sample_watcher = Some s \<and>
    own_freezes (length (pw_stopping s) + (if pw_release_pending s then 1 else 0)) (pw_ctl s)"
proof -
  obtain t where t: "poll sample_env sample_watcher = Some t" using poll_returns [OF sample_env_ticks] by blast
  obtain s where "poll sample_env t = Some s" using poll_returns [OF sample_env_ticks] by blast
  with t have s: "polls [sample_env, sample_env] sample_watcher = Some s" by simp
  have "own_freezes 0 (sample_world [sample_entry ''welfare''])"
    using sample_watcher_own by (simp add: sample_watcher_def new_watcher_def)
  then show ?thesis
    using preserve_freezes_accounted [of _ "[sample_env, sample_env]" Absent s] s sample_env_calm
    by (auto simp: sample_watcher_def)
qed

text \<open>
  C26. A new request is answered in the poll that sees it, and never twice in a row. When no release is
  pending and the freeze can be pushed, the poll returns, the request is preserved once and recorded
  as handled, and the result file names it (unless writing raises); and in every run the request
  recorded before it started and the requests preserved since never have two equal neighbours.
\<close>

theorem new_request_is_answered:
  assumes "polls es (new_watcher result ctl) = Some s" and "read_request (ev_request e) = Inr (Some r)"
    and "PStr (rq_id r) \<noteq> pw_last_handled s" and "\<not> pw_release_pending s" and "\<not> ev_push_raises e"
    and "ticking \<delta> e"
  shows "\<exists>s'. polls (es @ [e]) (new_watcher result ctl) = Some s' \<and>
    pw_preserved s' = pw_preserved s @ [rq_id r] \<and> pw_last_handled s' = PStr (rq_id r) \<and>
    (\<not> ev_write_raises e \<longrightarrow> pw_result s' = Doc (PDict (result_payload e r (outcome (ev_preserve e))))) \<and>
    distinct_adj (history (pw_last_handled (new_watcher result ctl)) s')"
proof -
  have append: "polls (xs @ ys) t = Option.bind (polls xs t) (polls ys)" for xs ys t
    by (induction xs arbitrary: t) (auto simp: bind_assoc split: option.splits bind_splits)
  obtain s' where s': "poll e s = Some s'" using poll_returns [OF assms(6)] by blast
  let ?s = "s\<lparr>pw_ctl := run (ctl_step (ev_ts e)) (pw_ctl s) (ev_before e)\<rparr>"
  from s' obtain x where "watch_step e ?s = Some (x, s')" by (auto simp: poll_def)
  with assms(2-5) obtain c where fin: "s' = finish_request e r (?s\<lparr>pw_ctl := c\<rparr>)"
    by (auto simp: watch_step_def handle_request_def Let_def)
  have run: "polls (es @ [e]) (new_watcher result ctl) = Some s'" using assms(1) s' by (simp add: append)
  have "no_repeat (pw_last_handled (new_watcher result ctl)) (new_watcher result ctl)"
    by (simp add: no_repeat_def history_def new_watcher_def)
  with run have "no_repeat (pw_last_handled (new_watcher result ctl)) s'" by (blast intro: polls_no_repeat)
  then have adj: "distinct_adj (history (pw_last_handled (new_watcher result ctl)) s')"
    by (simp add: no_repeat_def)
  have "\<not> ev_write_raises e \<longrightarrow> pw_result s' = Doc (PDict (result_payload e r (outcome (ev_preserve e))))"
    by (simp add: fin finish_request_def Let_def write_result_def write_json_atomic_def)
  with fin run adj show ?thesis by (simp add: finish_fields)
qed

theorem new_request_is_answered_witness:
  "\<exists>s'. polls ([] @ [sample_env]) (new_watcher Absent (sample_world [])) = Some s' \<and>
    pw_preserved s' = [] @ [rq_id sample_request] \<and> pw_last_handled s' = PStr (rq_id sample_request) \<and>
    (\<not> False \<longrightarrow> pw_result s' =
       Doc (PDict (result_payload sample_env sample_request (outcome (ev_preserve sample_env))))) \<and>
    distinct_adj (history PNone s')"
proof -
  let ?w = "new_watcher Absent (sample_world [])"
  have "PStr (rq_id sample_request) \<noteq> pw_last_handled ?w" "pw_last_handled ?w = PNone" "\<not> pw_release_pending ?w"
      "pw_preserved ?w = []"
    by (simp_all add: new_watcher_def)
  moreover have "\<not> ev_push_raises sample_env" "ev_write_raises sample_env = False"
    by (simp_all add: sample_env_def quiet_env_def)
  ultimately show ?thesis
    using new_request_is_answered [of "[]" Absent "sample_world []" ?w sample_env sample_request "1 / 10"]
      sample_request_read sample_env_ticks by simp
qed

text \<open>
  When the preservation succeeds and the stop it asked for cannot be requested, nothing retries: the
  freeze stays on the stack while the watcher counts the request as handled.
\<close>

theorem failed_stop_leaves_freeze:
  assumes "own_freezes 0 (pw_ctl s)" and "\<not> pw_release_pending s" and "pw_stopping s = []"
    and "oc_ok (outcome (ev_preserve e))" and "rq_stop r" and "ev_stop_raises e" and "\<not> ev_push_raises e"
    and "calm e" and "handle_request e r s = Some (x, s')"
  shows "own_freezes 1 (pw_ctl s') \<and> pw_stop_calls s' = pw_stop_calls s \<and> \<not> pw_release_pending s' \<and>
    pw_last_handled s' = PStr (rq_id r)"
proof -
  have "accounted s" using assms by (simp add: accounted_def)
  with assms have "accounted s'" by (blast intro: handle_accounted)
  moreover obtain c where "s' = finish_request e r (s\<lparr>pw_ctl := c\<rparr>)"
    using assms(7,9) by (auto simp: handle_request_def Let_def)
  ultimately show ?thesis using assms
    by (cases "ev_write_raises e") (simp_all add: accounted_def finish_request_def Let_def)
qed

theorem failed_stop_leaves_freeze_witness:
  "\<exists>s'. handle_request (sample_env\<lparr>ev_stop_raises := True\<rparr>) (sample_request\<lparr>rq_stop := True\<rparr>) sample_watcher =
      Some (Inr (), s') \<and> own_freezes 1 (pw_ctl s') \<and> pw_stop_calls s' = 0"
proof -
  let ?e = "sample_env\<lparr>ev_stop_raises := True\<rparr>" and ?r = "sample_request\<lparr>rq_stop := True\<rparr>"
  have paused: "wait_for_pause (\<lambda>i. real i / 10) (\<lambda>i. i = 3) 5 1 = Some 3"
    by (simp add: wait_for_pause.simps eval_nat_numeral)
  then obtain s' where s': "handle_request ?e ?r sample_watcher = Some (Inr (), s')"
    by (simp add: handle_request_def Let_def sample_env_def quiet_env_def)
  have "calm ?e" using sample_env_calm by (simp add: calm_def)
  then have "own_freezes 1 (pw_ctl s') \<and> pw_stop_calls s' = pw_stop_calls sample_watcher \<and>
      \<not> pw_release_pending s' \<and> pw_last_handled s' = PStr (rq_id ?r)"
    using failed_stop_leaves_freeze [OF sample_watcher_own _ _ _ _ _ _ _ s']
    by (simp add: sample_watcher_def new_watcher_def sample_env_def quiet_env_def outcome_def)
  with s' show ?thesis by (simp add: sample_watcher_def new_watcher_def)
qed

end
