(* ===== verification/Drives.thy ===== *)
theory Drives
  imports PyVal Complex_Main
begin

text \<open>
  Models \<open>kaine/modules/affect/drives.py\<close>: the four drive accumulators with their exact steps, the
  hysteresis latch, the counts of how crossings ended, the configuration and the saved state. Values and
  inputs are reals; the configuration is checked on floats with infinities and NaN before they become
  the reals of a drive.
\<close>

section \<open>One drive\<close>

definition clamp01 :: "real \<Rightarrow> real" where
  "clamp01 x = (if x < 0 then 0 else if x > 1 then 1 else x)"

record drive =
  dr_name :: string
  dr_value :: real
  dr_build :: real
  dr_decay :: real
  dr_threshold :: real
  dr_gain :: real
  dr_hysteresis :: real
  dr_heterostatic :: bool
  dr_fired :: bool
  dr_own :: nat
  dr_other :: nat
  dr_reset :: nat

fun within_fl :: "pyfloat \<Rightarrow> (real \<Rightarrow> bool) \<Rightarrow> bool" where
  "within_fl (Fin r) p = p r"
| "within_fl _ p = False"

fun fin :: "pyfloat \<Rightarrow> real" where
  "fin (Fin r) = r"
| "fin _ = 0"

definition Drive :: "string \<Rightarrow> pyfloat \<Rightarrow> pyfloat \<Rightarrow> pyfloat \<Rightarrow> pyfloat \<Rightarrow> bool \<Rightarrow> py_exc + drive" where
  "Drive n build decay threshold gain hetero =
     (if \<not> within_fl gain (\<lambda>x. 0 \<le> x \<and> x \<le> 1) then Inl ValueError
      else if \<not> within_fl build (\<lambda>x. 0 \<le> x) then Inl ValueError
      else if \<not> within_fl decay (\<lambda>x. 0 \<le> x) then Inl ValueError
      else if \<not> within_fl threshold (\<lambda>x. 0 < x \<and> x \<le> 1) then Inl ValueError
      else Inr \<lparr>dr_name = n, dr_value = 0, dr_build = fin build, dr_decay = fin decay,
                dr_threshold = fin threshold, dr_gain = fin gain, dr_hysteresis = 9 / 10,
                dr_heterostatic = hetero, dr_fired = False, dr_own = 0, dr_other = 0, dr_reset = 0\<rparr>)"

definition band :: "drive \<Rightarrow> real" where
  "band d = dr_threshold d * dr_hysteresis d"

definition drive_step :: "drive \<Rightarrow> real \<Rightarrow> real \<Rightarrow> real \<Rightarrow> real" where
  "drive_step d v u dt =
     (let r = dr_build d * u + dr_decay d in
      if r > 0 then (let eq = dr_build d * u / r in clamp01 (eq + (v - eq) * exp (- r * dt))) else v)"

definition check_hysteresis :: "bool \<Rightarrow> drive \<Rightarrow> drive" where
  "check_hysteresis own d =
     (if dr_fired d \<and> dr_value d < band d then
        (let d1 = d\<lparr>dr_fired := False\<rparr> in
         if dr_heterostatic d1 then d1
         else if own then d1\<lparr>dr_own := Suc (dr_own d1)\<rparr> else d1\<lparr>dr_other := Suc (dr_other d1)\<rparr>)
      else d)"

definition drive_tick :: "real \<Rightarrow> real \<Rightarrow> real option \<Rightarrow> drive \<Rightarrow> drive" where
  "drive_tick dt signal no_response d =
     (if dt \<le> 0 then d
      else let u = clamp01 signal;
               d1 = d\<lparr>dr_value := drive_step d (dr_value d) u dt\<rparr>;
               own = (case no_response of None \<Rightarrow> False
                      | Some nr \<Rightarrow>
                          u < clamp01 nr \<and> dr_fired d1 \<and> dr_value d1 < band d1 \<and>
                          drive_step d (dr_value d) (clamp01 nr) dt \<ge> band d1)
           in check_hysteresis own d1)"

definition drive_relieve :: "real \<Rightarrow> bool \<Rightarrow> drive \<Rightarrow> drive" where
  "drive_relieve strength own d =
     check_hysteresis own (d\<lparr>dr_value := clamp01 (dr_value d * (1 - dr_gain d * clamp01 strength))\<rparr>)"

definition drive_relieve_fraction :: "real \<Rightarrow> bool \<Rightarrow> drive \<Rightarrow> drive" where
  "drive_relieve_fraction fraction own d =
     check_hysteresis own (d\<lparr>dr_value := clamp01 (dr_value d * (1 - clamp01 fraction))\<rparr>)"

definition drive_relieve_rate :: "real \<Rightarrow> real \<Rightarrow> bool \<Rightarrow> drive \<Rightarrow> drive" where
  "drive_relieve_rate strength dt own d =
     check_hysteresis own
       (if dt > 0 then d\<lparr>dr_value := clamp01 (dr_value d * exp (- dr_gain d * clamp01 strength * dt))\<rparr> else d)"

definition consume_crossing :: "drive \<Rightarrow> bool \<times> drive" where
  "consume_crossing d =
     (if dr_value d \<ge> dr_threshold d \<and> \<not> dr_fired d then (True, d\<lparr>dr_fired := True\<rparr>) else (False, d))"

definition drive_power :: "drive \<Rightarrow> real" where
  "drive_power d = (real (dr_own d) + 1) / (real (dr_own d) + real (dr_other d) + 2)"

definition drive_clear :: "drive \<Rightarrow> drive" where
  "drive_clear d = d\<lparr>dr_value := 0, dr_fired := False\<rparr>"

definition sleep_reset :: "drive \<Rightarrow> drive" where
  "sleep_reset d =
     drive_clear (if dr_fired d \<and> \<not> dr_heterostatic d then d\<lparr>dr_reset := Suc (dr_reset d)\<rparr> else d)"

section \<open>The set of drives\<close>

record drive_set =
  ds_curiosity :: drive
  ds_boredom :: drive
  ds_social :: drive
  ds_restlessness :: drive

definition all_drives :: "drive_set \<Rightarrow> drive list" where
  "all_drives s = [ds_curiosity s, ds_boredom s, ds_social s, ds_restlessness s]"

definition deficits :: "drive_set \<Rightarrow> drive list" where
  "deficits s = [ds_boredom s, ds_social s, ds_restlessness s]"

definition drive_names :: "string list" where
  "drive_names = [''curiosity'', ''boredom'', ''social_drive'', ''restlessness'']"

text \<open>\<open>getattr(self, name, None)\<close> as far as it is a drive.\<close>

definition on_drive :: "string \<Rightarrow> (drive \<Rightarrow> drive) \<Rightarrow> drive_set \<Rightarrow> py_exc + drive_set" where
  "on_drive n f s =
     (if n = ''curiosity'' then Inr (s\<lparr>ds_curiosity := f (ds_curiosity s)\<rparr>)
      else if n = ''boredom'' then Inr (s\<lparr>ds_boredom := f (ds_boredom s)\<rparr>)
      else if n = ''social_drive'' then Inr (s\<lparr>ds_social := f (ds_social s)\<rparr>)
      else if n = ''restlessness'' then Inr (s\<lparr>ds_restlessness := f (ds_restlessness s)\<rparr>)
      else Inl KeyError)"

subsection \<open>The configuration\<close>

definition drive_defaults :: "(string \<times> (real \<times> real \<times> real \<times> real)) list" where
  "drive_defaults =
     [(''curiosity'', (5/100, 96/100000, 7/10, 0)), (''boredom'', (4/100, 45/10000, 7/10, 3/10)),
      (''social_drive'', (1/100, 11/10000, 7/10, 8/10)), (''restlessness'', (3/100, 33/10000, 7/10, 5/10))]"

definition config_keys :: "string list" where
  "config_keys = [''build_rate'', ''decay_rate'', ''threshold'', ''relief_gain'']"

definition config_float :: "pydict \<Rightarrow> string \<Rightarrow> real \<Rightarrow> py_exc + pyfloat" where
  "config_float sub k dflt = py_float (dget sub k (PFloat (Fin dflt)))"

definition drive_from :: "string \<Rightarrow> real \<times> real \<times> real \<times> real \<Rightarrow> pyval \<Rightarrow> py_exc + drive" where
  "drive_from n ps sub =
     (case (sub, ps) of
        (PDict d, (b, c, t, g)) \<Rightarrow>
          if \<exists>k \<in> set (map fst d). k \<notin> set config_keys then Inl ValueError
          else ebind (config_float d ''build_rate'' b) (\<lambda>b.
               ebind (config_float d ''decay_rate'' c) (\<lambda>c.
               ebind (config_float d ''threshold'' t) (\<lambda>t.
               ebind (config_float d ''relief_gain'' g) (\<lambda>g. Drive n b c t g (n = ''curiosity'')))))
      | _ \<Rightarrow> Inl OtherException)"

definition from_config :: "pydict \<Rightarrow> py_exc + drive_set" where
  "from_config section =
     (if \<exists>n \<in> set (map fst section). n \<notin> set drive_names then Inl ValueError
      else ebind (emap_list (\<lambda>(n, ps). drive_from n ps (dget section n (PDict []))) drive_defaults)
             (\<lambda>ds. Inr \<lparr>ds_curiosity = ds ! 0, ds_boredom = ds ! 1, ds_social = ds ! 2, ds_restlessness = ds ! 3\<rparr>))"

subsection \<open>Operations\<close>

definition crossing :: "drive \<Rightarrow> (string \<times> real) list" where
  "crossing d = (if fst (consume_crossing d) then [(dr_name d, dr_value d)] else [])"

definition consume :: "drive \<Rightarrow> drive" where
  "consume d = snd (consume_crossing d)"

text \<open>The signals: progress, activity, social, action and boredom's without the own response.\<close>

record signals =
  sg_progress :: real
  sg_activity :: real
  sg_social :: real
  sg_action :: real
  sg_no_response :: "real option"

definition set_tick :: "real \<Rightarrow> signals \<Rightarrow> drive_set \<Rightarrow> drive_set \<times> (string \<times> real) list" where
  "set_tick dt g s =
     (let c = drive_tick dt (sg_progress g) None (ds_curiosity s);
          b = drive_tick dt (sg_activity g) (sg_no_response g) (ds_boredom s);
          o' = drive_tick dt (sg_social g) None (ds_social s);
          r = drive_tick dt (sg_action g) (Some 1) (ds_restlessness s)
      in (\<lparr>ds_curiosity = consume c, ds_boredom = consume b, ds_social = consume o', ds_restlessness = consume r\<rparr>,
          concat (map crossing [c, b, o', r])))"

definition reset_deficits :: "drive_set \<Rightarrow> drive_set" where
  "reset_deficits s =
     s\<lparr>ds_boredom := sleep_reset (ds_boredom s), ds_social := sleep_reset (ds_social s),
       ds_restlessness := sleep_reset (ds_restlessness s)\<rparr>"

definition reset_all :: "drive_set \<Rightarrow> drive_set" where
  "reset_all s =
     \<lparr>ds_curiosity = drive_clear (ds_curiosity s), ds_boredom = drive_clear (ds_boredom s),
      ds_social = drive_clear (ds_social s), ds_restlessness = drive_clear (ds_restlessness s)\<rparr>"

subsection \<open>The saved state\<close>

definition outcomes_to_dict :: "drive_set \<Rightarrow> pydict" where
  "outcomes_to_dict s =
     map (\<lambda>d. (dr_name d, PDict [(''own'', PInt (int (dr_own d))), (''other'', PInt (int (dr_other d)))])) (all_drives s)"

definition reset_ends_to_dict :: "drive_set \<Rightarrow> pydict" where
  "reset_ends_to_dict s = map (\<lambda>d. (dr_name d, PInt (int (dr_reset d)))) (deficits s)"

definition fired_to_dict :: "drive_set \<Rightarrow> pydict" where
  "fired_to_dict s = map (\<lambda>d. (dr_name d, PBool (dr_fired d))) (all_drives s)"

definition above_to_dict :: "drive_set \<Rightarrow> pydict" where
  "above_to_dict s = map (\<lambda>d. (dr_name d, PBool (dr_value d \<ge> dr_threshold d))) (all_drives s)"

definition open_to_dict :: "drive_set \<Rightarrow> pydict" where
  "open_to_dict s = map (\<lambda>d. (dr_name d, PBool (dr_fired d))) (deficits s)"

definition values_to_dict :: "drive_set \<Rightarrow> pydict" where
  "values_to_dict s = map (\<lambda>d. (dr_name d, PFloat (Fin (dr_value d)))) (all_drives s)"

fun count_of :: "pyval \<Rightarrow> nat option" where
  "count_of (PInt n) = (if n \<ge> 0 then Some (nat n) else None)"
| "count_of _ = None"

definition with_outcome :: "pydict \<Rightarrow> drive \<Rightarrow> drive" where
  "with_outcome e d =
     (let d1 = (case count_of (dget e ''own'' PNone) of Some n \<Rightarrow> d\<lparr>dr_own := n\<rparr> | None \<Rightarrow> d)
      in case count_of (dget e ''other'' PNone) of Some n \<Rightarrow> d1\<lparr>dr_other := n\<rparr> | None \<Rightarrow> d1)"

fun load_entry :: "drive_set \<Rightarrow> string \<times> pyval \<Rightarrow> drive_set" where
  "load_entry s (n, PDict e) = (case on_drive n (with_outcome e) s of Inr s' \<Rightarrow> s' | Inl _ \<Rightarrow> s)"
| "load_entry s (n, _) = s"

fun load_outcomes :: "pyval \<Rightarrow> drive_set \<Rightarrow> drive_set" where
  "load_outcomes (PDict d) s = foldl load_entry s d"
| "load_outcomes _ s = s"

definition with_reset :: "pydict \<Rightarrow> drive \<Rightarrow> drive" where
  "with_reset e d = (case count_of (dget e (dr_name d) PNone) of Some n \<Rightarrow> d\<lparr>dr_reset := n\<rparr> | None \<Rightarrow> d)"

fun load_reset_ends :: "pyval \<Rightarrow> drive_set \<Rightarrow> drive_set" where
  "load_reset_ends (PDict e) s =
     s\<lparr>ds_boredom := with_reset e (ds_boredom s), ds_social := with_reset e (ds_social s),
       ds_restlessness := with_reset e (ds_restlessness s)\<rparr>"
| "load_reset_ends _ s = s"

definition with_fired :: "pyval \<Rightarrow> drive \<Rightarrow> drive" where
  "with_fired data d =
     d\<lparr>dr_fired := (case data of
                      PDict e \<Rightarrow> (case dget e (dr_name d) PNone of PBool b \<Rightarrow> b | _ \<Rightarrow> dr_value d \<ge> dr_threshold d)
                    | _ \<Rightarrow> dr_value d \<ge> dr_threshold d)\<rparr>"

definition load_fired :: "pyval \<Rightarrow> drive_set \<Rightarrow> drive_set" where
  "load_fired data s =
     \<lparr>ds_curiosity = with_fired data (ds_curiosity s), ds_boredom = with_fired data (ds_boredom s),
      ds_social = with_fired data (ds_social s), ds_restlessness = with_fired data (ds_restlessness s)\<rparr>"

section \<open>Runs\<close>

datatype drive_op =
    Tick real signals
  | Relieve string real bool
  | RelieveRate string real real bool
  | RelieveFraction string real bool
  | SleepReset

text \<open>An operation that raises KeyError changes nothing; the crossings are those of the ticks.\<close>

fun drive_op_step :: "drive_set \<Rightarrow> drive_op \<Rightarrow> drive_set \<times> (string \<times> real) list" where
  "drive_op_step s (Tick dt g) = set_tick dt g s"
| "drive_op_step s (Relieve n x own) = (case on_drive n (drive_relieve x own) s of Inr s' \<Rightarrow> (s', []) | Inl _ \<Rightarrow> (s, []))"
| "drive_op_step s (RelieveRate n x dt own) =
     (case on_drive n (drive_relieve_rate x dt own) s of Inr s' \<Rightarrow> (s', []) | Inl _ \<Rightarrow> (s, []))"
| "drive_op_step s (RelieveFraction n x own) =
     (case on_drive n (drive_relieve_fraction x own) s of Inr s' \<Rightarrow> (s', []) | Inl _ \<Rightarrow> (s, []))"
| "drive_op_step s SleepReset = (reset_deficits s, [])"

fun drive_run :: "drive_set \<Rightarrow> drive_op list \<Rightarrow> drive_set \<times> (string \<times> real) list" where
  "drive_run s [] = (s, [])"
| "drive_run s (x # xs) =
     (let (s1, c1) = drive_op_step s x; (s2, c2) = drive_run s1 xs in (s2, c1 @ c2))"

section \<open>The exact step\<close>

definition drive_ok :: "drive \<Rightarrow> bool" where
  "drive_ok d \<longleftrightarrow> 0 \<le> dr_build d \<and> 0 \<le> dr_decay d \<and> 0 < dr_threshold d \<and> dr_threshold d \<le> 1 \<and>
     0 \<le> dr_gain d \<and> dr_gain d \<le> 1 \<and> dr_hysteresis d = 9 / 10 \<and> 0 \<le> dr_value d \<and> dr_value d \<le> 1"

lemma unit_clamp_bounds [simp]: "0 \<le> clamp01 x" "clamp01 x \<le> 1"
  by (simp_all add: clamp01_def)

lemma unit_clamp_id [simp]: "0 \<le> x \<Longrightarrow> x \<le> 1 \<Longrightarrow> clamp01 x = x"
  by (simp add: clamp01_def)

definition drive_rate :: "drive \<Rightarrow> real \<Rightarrow> real" where
  "drive_rate d u = dr_build d * u + dr_decay d"

definition equilibrium :: "drive \<Rightarrow> real \<Rightarrow> real" where
  "equilibrium d u = dr_build d * u / drive_rate d u"

lemma equilibrium_bounds:
  assumes "0 \<le> dr_build d" and "0 \<le> dr_decay d" and "0 \<le> u" and "0 < drive_rate d u"
  shows "0 \<le> equilibrium d u \<and> equilibrium d u \<le> 1"
  using assms by (simp add: equilibrium_def drive_rate_def divide_simps)

lemma blend_bounds:
  fixes a v x :: real
  assumes "0 \<le> a" "a \<le> 1" "0 \<le> v" "v \<le> 1" "0 \<le> x" "x \<le> 1"
  shows "0 \<le> a + (v - a) * x \<and> a + (v - a) * x \<le> 1"
proof -
  have eq: "a + (v - a) * x = (1 - x) * a + x * v" by (simp add: algebra_simps)
  have "(1 - x) * a \<le> 1 - x" "x * v \<le> x" using assms by (simp_all add: mult_left_le)
  moreover have "0 \<le> (1 - x) * a" "0 \<le> x * v" using assms by simp_all
  ultimately show ?thesis unfolding eq by linarith
qed

text \<open>Inside its bounds the step needs no clamp.\<close>

lemma drive_step_solution:
  assumes "drive_ok d" and "0 \<le> u" and "0 \<le> v" and "v \<le> 1" and "0 \<le> t"
  shows "drive_step d v u t =
    (if 0 < drive_rate d u then equilibrium d u + (v - equilibrium d u) * exp (- drive_rate d u * t) else v)"
proof (cases "0 < drive_rate d u")
  case True
  have "0 \<le> equilibrium d u" "equilibrium d u \<le> 1"
    using equilibrium_bounds [OF _ _ assms(2) True] assms(1) by (auto simp: drive_ok_def)
  moreover have "exp (- drive_rate d u * t) \<le> 1" using True assms(5) by simp
  ultimately show ?thesis
    using True blend_bounds [of "equilibrium d u" v "exp (- drive_rate d u * t)"] assms(3,4)
    by (simp add: drive_step_def drive_rate_def equilibrium_def Let_def)
qed (simp add: drive_step_def drive_rate_def Let_def)

lemma drive_step_bounds:
  assumes "0 \<le> v" and "v \<le> 1"
  shows "0 \<le> drive_step d v u t \<and> drive_step d v u t \<le> 1"
  using assms by (simp add: drive_step_def Let_def)

lemma drive_step_add:
  assumes "drive_ok d" and "0 \<le> u" and "0 \<le> v" and "v \<le> 1" and "0 \<le> s" and "0 \<le> t"
  shows "drive_step d (drive_step d v u s) u t = drive_step d v u (s + t)"
proof -
  have "0 \<le> drive_step d v u s" "drive_step d v u s \<le> 1" using drive_step_bounds assms(3,4) by blast+
  with assms show ?thesis
    by (simp add: drive_step_solution algebra_simps flip: exp_add)
qed

lemma drive_step_derivative:
  assumes "drive_ok d" and "0 \<le> u" and "0 \<le> v" and "v \<le> 1" and "0 < t"
  shows "((\<lambda>t. drive_step d v u t) has_real_derivative
    dr_build d * u * (1 - drive_step d v u t) - dr_decay d * drive_step d v u t) (at t)"
proof -
  define r a where "r = drive_rate d u" and "a = equilibrium d u"
  let ?f = "\<lambda>t. if 0 < r then a + (v - a) * exp (- r * t) else v"
  have same: "drive_step d v u x = ?f x" if "0 \<le> x" for x
    using drive_step_solution [OF assms(1-4) that] by (simp add: r_def a_def)
  have "0 \<le> r" using assms(1,2) by (simp add: r_def drive_rate_def drive_ok_def)
  have f': "(?f has_real_derivative dr_build d * u * (1 - ?f t) - dr_decay d * ?f t) (at t)"
  proof (cases "0 < r")
    case True
    then have "r * a = dr_build d * u" by (simp add: r_def a_def equilibrium_def)
    moreover have "dr_build d * u + dr_decay d = r" by (simp add: r_def drive_rate_def)
    ultimately have flow: "- r * ((v - a) * exp (- r * t)) =
        dr_build d * u * (1 - (a + (v - a) * exp (- r * t))) - dr_decay d * (a + (v - a) * exp (- r * t))"
      by algebra
    have "((\<lambda>t. a + (v - a) * exp (- r * t)) has_real_derivative - r * ((v - a) * exp (- r * t))) (at t)"
      by (auto intro!: derivative_eq_intros)
    with True flow show ?thesis by simp
  next
    case False
    with \<open>0 \<le> r\<close> have "dr_build d * u + dr_decay d = 0" by (simp add: r_def drive_rate_def)
    moreover have "0 \<le> dr_build d * u" "0 \<le> dr_decay d" using assms(1,2) by (simp_all add: drive_ok_def)
    ultimately have "dr_build d * u = 0" "dr_decay d = 0" by linarith+
    then have "dr_build d * u * (1 - ?f t) - dr_decay d * ?f t = 0" by simp
    with False show ?thesis by simp
  qed
  have "eventually (\<lambda>x. ?f x = drive_step d v u x) (nhds t)"
    using eventually_nhds_in_open [of "{0<..}" t] assms(5)
    by (auto elim!: eventually_mono simp: same)
  then show ?thesis
    using f' same [of t] assms(5) by (auto elim: DERIV_cong_ev [THEN iffD1, rotated -1])
qed

section \<open>One drive of the set\<close>

definition pick :: "string \<Rightarrow> drive_set \<Rightarrow> drive" where
  "pick n s =
     (if n = ''curiosity'' then ds_curiosity s else if n = ''boredom'' then ds_boredom s
      else if n = ''social_drive'' then ds_social s else ds_restlessness s)"

definition named :: "drive_set \<Rightarrow> bool" where
  "named s \<longleftrightarrow> map dr_name (all_drives s) = drive_names"

definition signal_for :: "string \<Rightarrow> signals \<Rightarrow> real" where
  "signal_for n g =
     (if n = ''curiosity'' then sg_progress g else if n = ''boredom'' then sg_activity g
      else if n = ''social_drive'' then sg_social g else sg_action g)"

definition response_for :: "string \<Rightarrow> signals \<Rightarrow> real option" where
  "response_for n g =
     (if n = ''boredom'' then sg_no_response g else if n = ''restlessness'' then Some 1 else None)"

text \<open>What an operation does to the drive \<open>n\<close>, and how many crossings of it it reports.\<close>

fun drive_local :: "string \<Rightarrow> drive_op \<Rightarrow> drive \<Rightarrow> drive \<times> nat" where
  "drive_local n (Tick dt g) d =
     (let d1 = drive_tick dt (signal_for n g) (response_for n g) d
      in (consume d1, if fst (consume_crossing d1) then 1 else 0))"
| "drive_local n (Relieve m x own) d = (if m = n then drive_relieve x own d else d, 0)"
| "drive_local n (RelieveRate m x dt own) d = (if m = n then drive_relieve_rate x dt own d else d, 0)"
| "drive_local n (RelieveFraction m x own) d = (if m = n then drive_relieve_fraction x own d else d, 0)"
| "drive_local n SleepReset d = (if n = ''curiosity'' then d else sleep_reset d, 0)"

fun local_run :: "string \<Rightarrow> drive_op list \<Rightarrow> drive \<Rightarrow> drive \<times> nat" where
  "local_run n [] d = (d, 0)"
| "local_run n (x # xs) d =
     (let (d1, k1) = drive_local n x d; (d2, k2) = local_run n xs d1 in (d2, k1 + k2))"

definition times_crossed :: "string \<Rightarrow> (string \<times> real) list \<Rightarrow> nat" where
  "times_crossed n cs = length (filter (\<lambda>c. fst c = n) cs)"

lemma times_crossed_append [simp]: "times_crossed n (xs @ ys) = times_crossed n xs + times_crossed n ys"
  by (simp add: times_crossed_def)

lemma times_crossed_Nil [simp]: "times_crossed n [] = 0"
  by (simp add: times_crossed_def)

lemma check_name [simp]:
  "dr_name (check_hysteresis own d) = dr_name d"
  "dr_value (check_hysteresis own d) = dr_value d"
  by (simp_all add: check_hysteresis_def Let_def)

lemma op_name [simp]:
  "dr_name (drive_tick dt g nr d) = dr_name d" "dr_name (drive_relieve x own d) = dr_name d"
  "dr_name (drive_relieve_fraction x own d) = dr_name d" "dr_name (drive_relieve_rate x dt own d) = dr_name d"
  "dr_name (consume d) = dr_name d" "dr_name (sleep_reset d) = dr_name d"
  by (simp_all add: drive_tick_def drive_relieve_def drive_relieve_fraction_def drive_relieve_rate_def
      consume_def consume_crossing_def sleep_reset_def drive_clear_def Let_def)

lemma named_iff:
  "named s \<longleftrightarrow> dr_name (ds_curiosity s) = ''curiosity'' \<and> dr_name (ds_boredom s) = ''boredom'' \<and>
    dr_name (ds_social s) = ''social_drive'' \<and> dr_name (ds_restlessness s) = ''restlessness''"
  by (simp add: named_def all_drives_def drive_names_def)

lemma times_crossed_crossing [simp]:
  "times_crossed n (crossing d) = (if dr_name d = n \<and> fst (consume_crossing d) then 1 else 0)"
  by (simp add: times_crossed_def crossing_def)

lemma on_drive_local:
  assumes "named s" and "\<And>d. dr_name (f d) = dr_name d" and "n \<in> set drive_names"
  shows "named (case on_drive m f s of Inr s' \<Rightarrow> s' | Inl _ \<Rightarrow> s) \<and>
    pick n (case on_drive m f s of Inr s' \<Rightarrow> s' | Inl _ \<Rightarrow> s) = (if m = n then f (pick n s) else pick n s)"
  using assms by (auto simp: on_drive_def pick_def named_iff drive_names_def)

lemma set_tick_local:
  assumes "named s" and "n \<in> set drive_names"
  shows "named (fst (set_tick dt g s)) \<and>
    (pick n (fst (set_tick dt g s)), times_crossed n (snd (set_tick dt g s))) = drive_local n (Tick dt g) (pick n s)"
proof -
  from assms(2) consider "n = ''curiosity''" | "n = ''boredom''" | "n = ''social_drive''" | "n = ''restlessness''"
    by (auto simp: drive_names_def)
  then show ?thesis
    by cases (use assms(1) in
      \<open>simp_all add: set_tick_def Let_def named_iff pick_def signal_for_def response_for_def del: list.map\<close>,
      simp_all)
qed

lemma op_step_local:
  assumes "named s" and "n \<in> set drive_names"
  shows "named (fst (drive_op_step s x)) \<and>
    (pick n (fst (drive_op_step s x)), times_crossed n (snd (drive_op_step s x))) = drive_local n x (pick n s)"
proof (cases x)
  case (Tick dt g)
  with set_tick_local [OF assms] show ?thesis by simp
next
  case (Relieve m y own)
  with on_drive_local [OF assms(1) _ assms(2), of "drive_relieve y own" m] show ?thesis
    by (cases "on_drive m (drive_relieve y own) s") auto
next
  case (RelieveRate m y dt own)
  with on_drive_local [OF assms(1) _ assms(2), of "drive_relieve_rate y dt own" m] show ?thesis
    by (cases "on_drive m (drive_relieve_rate y dt own) s") auto
next
  case (RelieveFraction m y own)
  with on_drive_local [OF assms(1) _ assms(2), of "drive_relieve_fraction y own" m] show ?thesis
    by (cases "on_drive m (drive_relieve_fraction y own) s") auto
next
  case SleepReset
  with assms show ?thesis by (auto simp: reset_deficits_def named_iff pick_def drive_names_def)
qed

lemma drive_run_local:
  "named s \<Longrightarrow> n \<in> set drive_names \<Longrightarrow>
   named (fst (drive_run s xs)) \<and>
   (pick n (fst (drive_run s xs)), times_crossed n (snd (drive_run s xs))) = local_run n xs (pick n s)"
proof (induction xs arbitrary: s)
  case (Cons x xs)
  obtain s1 c1 where one: "drive_op_step s x = (s1, c1)" by fastforce
  obtain s2 c2 where rest: "drive_run s1 xs = (s2, c2)" by fastforce
  have "named s1" "(pick n s1, times_crossed n c1) = drive_local n x (pick n s)"
    using op_step_local [OF Cons.prems, of x] one by auto
  moreover from this Cons.prems have "named s2" "(pick n s2, times_crossed n c2) = local_run n xs (pick n s1)"
    using Cons.IH [of s1] rest by auto
  ultimately show ?case
    using one rest by (simp add: Let_def split: prod.splits) (metis prod.inject)
qed simp

section \<open>The ledger of crossings\<close>

text \<open>\<open>k\<close> crossings so far: each has ended in one of the three ways, or is the open one.\<close>

definition ends :: "drive \<Rightarrow> nat" where
  "ends d = dr_own d + dr_other d + dr_reset d + (if dr_fired d then 1 else 0)"

definition ledger :: "string \<Rightarrow> nat \<Rightarrow> drive \<Rightarrow> bool" where
  "ledger n k d \<longleftrightarrow> drive_ok d \<and> dr_heterostatic d = (n = ''curiosity'') \<and>
     (if n = ''curiosity'' then dr_own d = 0 \<and> dr_other d = 0 \<and> dr_reset d = 0 else ends d = k)"

lemma ledger_check: "ledger n k d \<Longrightarrow> ledger n k (check_hysteresis own d)"
  by (auto simp: ledger_def drive_ok_def check_hysteresis_def ends_def Let_def split: if_splits)

lemma ledger_value: "ledger n k d \<Longrightarrow> 0 \<le> v \<Longrightarrow> v \<le> 1 \<Longrightarrow> ledger n k (d\<lparr>dr_value := v\<rparr>)"
  by (auto simp: ledger_def drive_ok_def ends_def split: if_splits)

lemma ledger_tick: "ledger n k d \<Longrightarrow> ledger n k (drive_tick dt g nr d)"
proof (cases "dt \<le> 0")
  case False
  assume l: "ledger n k d"
  then have "0 \<le> dr_value d" "dr_value d \<le> 1" by (simp_all add: ledger_def drive_ok_def)
  then have "ledger n k (d\<lparr>dr_value := drive_step d (dr_value d) (clamp01 g) dt\<rparr>)"
    using l drive_step_bounds by (simp add: ledger_value)
  with False show ?thesis by (simp add: drive_tick_def Let_def ledger_check)
qed (simp add: drive_tick_def)

lemma ledger_consume:
  "ledger n k d \<Longrightarrow> ledger n (k + (if fst (consume_crossing d) then 1 else 0)) (consume d)"
  by (auto simp: ledger_def drive_ok_def consume_def consume_crossing_def ends_def split: if_splits)

lemma ledger_sleep: "ledger n k d \<Longrightarrow> n \<noteq> ''curiosity'' \<Longrightarrow> ledger n k (sleep_reset d)"
  by (auto simp: ledger_def drive_ok_def sleep_reset_def drive_clear_def ends_def)

lemma ledger_local: "ledger n k d \<Longrightarrow> drive_local n x d = (d', j) \<Longrightarrow> ledger n (k + j) d'"
proof (cases x)
  case (Tick dt g)
  assume "ledger n k d" "drive_local n x d = (d', j)"
  with Tick ledger_consume [OF ledger_tick, of n k d dt "signal_for n g" "response_for n g"] show ?thesis
    by (auto simp: Let_def)
qed (auto simp: drive_relieve_def drive_relieve_fraction_def drive_relieve_rate_def
    intro!: ledger_check ledger_value ledger_sleep split: if_splits)

lemma ledger_run: "ledger n k d \<Longrightarrow> local_run n xs d = (d', j) \<Longrightarrow> ledger n (k + j) d'"
proof (induction xs arbitrary: d k j d')
  case (Cons x xs)
  obtain d1 j1 where one: "drive_local n x d = (d1, j1)" by fastforce
  obtain d2 j2 where rest: "local_run n xs d1 = (d2, j2)" by fastforce
  from Cons.prems one rest have "d' = d2" "j = j1 + j2" by auto
  with Cons.IH [OF ledger_local [OF Cons.prems(1) one] rest] show ?case by (simp add: add.assoc)
qed simp

subsection \<open>The latch\<close>

text \<open>
  While the latch is set and the value stays at or above the band, no crossing is reported and the latch
  stays set. The states after each operation are listed.
\<close>

fun local_states :: "string \<Rightarrow> drive_op list \<Rightarrow> drive \<Rightarrow> drive list" where
  "local_states n [] d = []"
| "local_states n (x # xs) d = fst (drive_local n x d) # local_states n xs (fst (drive_local n x d))"

lemma check_latched: "dr_fired d \<Longrightarrow> band d \<le> dr_value d \<Longrightarrow> check_hysteresis own d = d"
  by (simp add: check_hysteresis_def)

lemma check_fields [simp]:
  "band (check_hysteresis own d) = band d" "dr_threshold (check_hysteresis own d) = dr_threshold d"
  "dr_gain (check_hysteresis own d) = dr_gain d"
  by (simp_all add: check_hysteresis_def band_def Let_def)

lemma band_value [simp]: "band (d\<lparr>dr_value := v\<rparr>) = band d" "band (consume d) = band d"
    "dr_value (consume d) = dr_value d"
  by (simp_all add: band_def consume_def consume_crossing_def)

lemma latched_tick:
  assumes "dr_fired d" and "band d \<le> dr_value (drive_tick dt g nr d)"
  shows "dr_fired (drive_tick dt g nr d)"
  using assms by (simp add: drive_tick_def Let_def check_latched split: if_splits)

lemma latched_local:
  assumes "dr_fired d" and "x \<noteq> SleepReset" and "drive_local n x d = (d', j)" and "band d \<le> dr_value d'"
  shows "dr_fired d' \<and> j = 0 \<and> band d' = band d"
proof (cases x)
  case (Tick dt g)
  let ?t = "drive_tick dt (signal_for n g) (response_for n g) d"
  have "d' = consume ?t" "j = (if fst (consume_crossing ?t) then 1 else 0)"
    using assms(3) Tick by (auto simp: Let_def)
  moreover have "band ?t = band d" by (simp add: drive_tick_def Let_def)
  moreover have "dr_fired ?t" using latched_tick [OF assms(1)] assms(4) calculation by simp
  ultimately show ?thesis by (simp add: consume_def consume_crossing_def)
qed (use assms in \<open>auto simp: drive_relieve_def drive_relieve_fraction_def drive_relieve_rate_def check_latched
    split: if_splits\<close>)

lemma latched_run:
  "dr_fired d \<Longrightarrow> SleepReset \<notin> set xs \<Longrightarrow> \<forall>t \<in> set (local_states n xs d). band d \<le> dr_value t \<Longrightarrow>
   dr_fired (fst (local_run n xs d)) \<and> snd (local_run n xs d) = 0"
proof (induction xs arbitrary: d)
  case (Cons x xs)
  obtain d1 j1 where one: "drive_local n x d = (d1, j1)" by fastforce
  have "dr_fired d1 \<and> j1 = 0 \<and> band d1 = band d"
    using latched_local [OF Cons.prems(1) _ one] Cons.prems(2,3) one by auto
  with Cons.IH [of d1] Cons.prems one show ?case by (simp add: Let_def split: prod.splits)
qed simp

text \<open>A crossing sets the latch, so one stretch above the band reports at most one.\<close>

lemma local_crossing_latches: "drive_local n x d = (d', j) \<Longrightarrow> j \<noteq> 0 \<Longrightarrow> j = 1 \<and> dr_fired d'"
  by (cases x) (auto simp: Let_def consume_def consume_crossing_def split: if_splits)

lemma local_band: "drive_local n x d = (d', j) \<Longrightarrow> band d' = band d"
  by (cases x)
    (auto simp: Let_def drive_tick_def drive_relieve_def drive_relieve_fraction_def drive_relieve_rate_def
      sleep_reset_def drive_clear_def band_def consume_def consume_crossing_def check_hysteresis_def
      split: if_splits)

lemma stretch_run:
  "SleepReset \<notin> set xs \<Longrightarrow> \<forall>t \<in> set (local_states n xs d). band d \<le> dr_value t \<Longrightarrow> snd (local_run n xs d) \<le> 1"
proof (induction xs arbitrary: d)
  case (Cons x xs)
  obtain d1 j1 where one: "drive_local n x d = (d1, j1)" by fastforce
  have "band d1 = band d" using one by (rule local_band)
  with Cons.prems one have rest: "SleepReset \<notin> set xs" "\<forall>t \<in> set (local_states n xs d1). band d1 \<le> dr_value t" by auto
  show ?case
  proof (cases "j1 = 0")
    case True
    with Cons.IH [OF rest] one show ?thesis by (simp add: Let_def split: prod.splits)
  next
    case False
    obtain d2 j2 where last: "local_run n xs d1 = (d2, j2)" by fastforce
    with False local_crossing_latches [OF one] latched_run [OF _ rest] have "j1 = 1" "j2 = 0" by auto
    with one last show ?thesis by (simp add: Let_def)
  qed
qed simp

section \<open>Drives from the configuration\<close>

lemma within_fl_fin: "within_fl x p \<longleftrightarrow> (\<exists>r. x = Fin r \<and> p r)"
  by (cases x) auto

lemma Drive_ok: "Drive n b c t g h = Inr d \<Longrightarrow> drive_ok d \<and> dr_name d = n \<and> dr_heterostatic d = h \<and>
    dr_own d = 0 \<and> dr_other d = 0 \<and> dr_reset d = 0 \<and> \<not> dr_fired d"
  by (auto simp: Drive_def drive_ok_def within_fl_fin split: if_splits)

lemma drive_from_ok:
  assumes "drive_from n ps sub = Inr d"
  shows "dr_name d = n \<and> ledger n 0 d"
proof -
  obtain e where "sub = PDict e" using assms by (cases sub) (auto simp: drive_from_def)
  with assms obtain b c t g where "Drive n b c t g (n = ''curiosity'') = Inr d"
    by (auto simp: drive_from_def split: prod.splits if_splits)
  from Drive_ok [OF this] show ?thesis by (simp add: ledger_def ends_def)
qed

lemma from_config_ok:
  assumes "from_config section = Inr s"
  shows "named s \<and> (\<forall>n \<in> set drive_names. ledger n 0 (pick n s))"
  using assms
  by (auto simp: from_config_def drive_defaults_def named_iff drive_names_def pick_def
      split: if_splits dest!: drive_from_ok)

section \<open>Properties\<close>

definition sample_drives :: drive_set where
  "sample_drives = (case from_config [] of Inr s \<Rightarrow> s | Inl _ \<Rightarrow> undefined)"

definition busy :: signals where
  "busy = \<lparr>sg_progress = 1, sg_activity = 0, sg_social = 0, sg_action = 1, sg_no_response = None\<rparr>"

lemma sample_config: "from_config [] = Inr sample_drives"
  by (simp add: sample_drives_def from_config_def drive_defaults_def drive_from_def config_float_def Drive_def)

lemma sample_named: "named sample_drives"
  using from_config_ok [OF sample_config] by blast

lemma sample_curiosity_ok: "drive_ok (ds_curiosity sample_drives)"
  using from_config_ok [OF sample_config] by (simp add: drive_names_def ledger_def pick_def)

text \<open>
  C23. The step of a drive is the exact solution of its equation: the value starts where it was, its rate of
  change at every later time is build u (1 - D) - decay D, it stays between 0 and 1, and stepping by s and
  then by t is stepping by s + t, so the value does not depend on the update rate.
\<close>

theorem drive_step_is_exact:
  assumes "drive_ok d" and "0 \<le> u" and "u \<le> 1" and "0 \<le> v" and "v \<le> 1" and "0 < s" and "0 < t"
  shows "drive_step d v u 0 = v \<and> 0 \<le> drive_step d v u t \<and> drive_step d v u t \<le> 1 \<and>
    ((\<lambda>t. drive_step d v u t) has_real_derivative
       dr_build d * u * (1 - drive_step d v u t) - dr_decay d * drive_step d v u t) (at t) \<and>
    dr_value (drive_tick t u None (drive_tick s u None (d\<lparr>dr_value := v\<rparr>))) =
      dr_value (drive_tick (s + t) u None (d\<lparr>dr_value := v\<rparr>))"
proof -
  have start: "drive_step d v u 0 = v" using assms by (simp add: drive_step_solution)
  have same: "drive_step (check_hysteresis own (e\<lparr>dr_value := y\<rparr>)) x u x' = drive_step e x u x'" for e own x x' y
    by (simp add: drive_step_def check_hysteresis_def Let_def)
  have plain: "drive_step (e\<lparr>dr_value := y\<rparr>) x u x' = drive_step e x u x'" for e x x' y
    by (simp add: drive_step_def Let_def)
  have "drive_step d (drive_step d v u s) u t = drive_step d v u (s + t)"
    using assms by (simp add: drive_step_add)
  with assms have ticks: "dr_value (drive_tick t u None (drive_tick s u None (d\<lparr>dr_value := v\<rparr>))) =
      dr_value (drive_tick (s + t) u None (d\<lparr>dr_value := v\<rparr>))"
    by (simp add: drive_tick_def Let_def same plain)
  show ?thesis
    using start ticks drive_step_bounds [OF assms(4,5)] drive_step_derivative [OF assms(1,2,4,5,7)] by blast
qed

theorem drive_step_is_exact_witness:
  "((\<lambda>t. drive_step (ds_curiosity sample_drives) (1/2) 1 t) has_real_derivative
     dr_build (ds_curiosity sample_drives) * 1 * (1 - drive_step (ds_curiosity sample_drives) (1/2) 1 2) -
     dr_decay (ds_curiosity sample_drives) * drive_step (ds_curiosity sample_drives) (1/2) 1 2) (at 2)"
  using drive_step_is_exact [OF sample_curiosity_ok, of 1 "1/2" 1 2] by simp

text \<open>
  C22. Every crossing is accounted for. From the configured drives, whatever ticks, reliefs and sleep
  resets follow, every value stays between 0 and 1; the crossings reported for a deficit are exactly those
  the entity's response ended, those that ended otherwise, those the sleep reset ended and the one that
  is open; and curiosity, which is interest and no deficit, counts no end.
\<close>

theorem crossings_are_accounted:
  assumes "from_config section = Inr s" and "drive_run s ops = (s', cs)"
  shows "(\<forall>d \<in> set (all_drives s'). 0 \<le> dr_value d \<and> dr_value d \<le> 1) \<and>
    (\<forall>d \<in> set (deficits s').
       times_crossed (dr_name d) cs = dr_own d + dr_other d + dr_reset d + (if dr_fired d then 1 else 0)) \<and>
    dr_own (ds_curiosity s') = 0 \<and> dr_other (ds_curiosity s') = 0 \<and> dr_reset (ds_curiosity s') = 0"
proof -
  have s: "named s" "\<forall>n \<in> set drive_names. ledger n 0 (pick n s)" using from_config_ok [OF assms(1)] by auto
  have each: "named s' \<and> ledger n (times_crossed n cs) (pick n s')" if n: "n \<in> set drive_names" for n
    using drive_run_local [OF s(1) n, of ops] assms(2) ledger_run [of n 0 "pick n s" ops "pick n s'" "times_crossed n cs"] s(2) n
    by simp
  then have "named s'" by (auto simp: drive_names_def)
  moreover have "ledger ''curiosity'' (times_crossed ''curiosity'' cs) (ds_curiosity s')"
    "ledger ''boredom'' (times_crossed ''boredom'' cs) (ds_boredom s')"
    "ledger ''social_drive'' (times_crossed ''social_drive'' cs) (ds_social s')"
    "ledger ''restlessness'' (times_crossed ''restlessness'' cs) (ds_restlessness s')"
    using each [of "''curiosity''"] each [of "''boredom''"] each [of "''social_drive''"] each [of "''restlessness''"]
    by (simp_all add: drive_names_def pick_def)
  ultimately show ?thesis
    by (simp add: all_drives_def deficits_def named_iff ledger_def drive_ok_def ends_def)
qed

theorem crossings_are_accounted_witness:
  "\<exists>s' cs. drive_run sample_drives [Tick 60 busy, Relieve ''restlessness'' 1 True, Tick 60 busy, SleepReset] = (s', cs) \<and>
    (\<forall>d \<in> set (deficits s').
       times_crossed (dr_name d) cs = dr_own d + dr_other d + dr_reset d + (if dr_fired d then 1 else 0))"
proof -
  let ?ops = "[Tick 60 busy, Relieve ''restlessness'' 1 True, Tick 60 busy, SleepReset]"
  obtain s' cs where run: "drive_run sample_drives ?ops = (s', cs)" by fastforce
  with crossings_are_accounted [OF sample_config run] show ?thesis by blast
qed

text \<open>
  One stretch above the band is one crossing. While every state of a run keeps a drive at or above its
  band and no sleep resets it, the drive is reported at most once, and not at all when it was already
  latched: no storm of events while the value hovers about the threshold.
\<close>

theorem one_crossing_per_stretch:
  assumes "named s" and "n \<in> set drive_names" and "SleepReset \<notin> set ops" and "drive_run s ops = (s', cs)"
    and "\<forall>d \<in> set (local_states n ops (pick n s)). dr_threshold (pick n s) * dr_hysteresis (pick n s) \<le> dr_value d"
  shows "times_crossed n cs \<le> (if dr_fired (pick n s) then 0 else 1)"
proof -
  have "times_crossed n cs = snd (local_run n ops (pick n s))"
    using drive_run_local [OF assms(1,2), of ops] assms(4) by (metis fst_conv snd_conv)
  then show ?thesis
    using latched_run [OF _ assms(3), of "pick n s" n] stretch_run [OF assms(3), of n "pick n s"] assms(5)
    by (simp add: band_def)
qed

definition hovering :: drive_set where
  "hovering = sample_drives\<lparr>ds_boredom := (ds_boredom sample_drives)\<lparr>dr_value := 7 / 10\<rparr>\<rparr>"

theorem one_crossing_per_stretch_witness:
  "\<exists>s' cs. drive_run hovering [Tick 0 busy, RelieveFraction ''boredom'' (1 / 20) False, Tick 0 busy] = (s', cs) \<and>
    times_crossed ''boredom'' cs \<le> (if False then 0 else 1)"
proof -
  let ?ops = "[Tick 0 busy, RelieveFraction ''boredom'' (1 / 20) False, Tick 0 busy]"
  obtain s' cs where run: "drive_run hovering ?ops = (s', cs)" by fastforce
  have fields: "dr_threshold (ds_boredom sample_drives) = 7 / 10" "dr_hysteresis (ds_boredom sample_drives) = 9 / 10"
      "\<not> dr_fired (ds_boredom sample_drives)"
    by (simp_all add: sample_drives_def from_config_def drive_defaults_def drive_from_def config_float_def Drive_def)
  have named: "named hovering" using sample_named by (simp add: hovering_def named_iff)
  have "\<forall>d \<in> set (local_states ''boredom'' ?ops (pick ''boredom'' hovering)).
      dr_threshold (pick ''boredom'' hovering) * dr_hysteresis (pick ''boredom'' hovering) \<le> dr_value d"
    by (simp add: fields hovering_def pick_def drive_tick_def drive_relieve_fraction_def consume_def
        consume_crossing_def clamp01_def)
  from one_crossing_per_stretch [OF named _ _ run this]
  have "times_crossed ''boredom'' cs \<le> (if dr_fired (pick ''boredom'' hovering) then 0 else 1)"
    by (simp add: drive_names_def)
  moreover have "dr_fired (pick ''boredom'' hovering) = False" by (simp add: fields pick_def hovering_def)
  ultimately show ?thesis using run by (intro exI [of _ s'] exI [of _ cs]) (simp only: simp_thms)
qed

text \<open>
  Saved drives come back. Loading the end counters, the sleep-reset counters and the latches that one
  set of drives wrote gives another set the same counters and latches and leaves its values alone; a state
  saved without latches gives a latch to exactly the drives at or above their threshold.
\<close>

theorem drive_state_roundtrip:
  assumes "named s" and "named t"
    and "t1 = load_outcomes (PDict (outcomes_to_dict s)) t"
    and "t2 = load_reset_ends (PDict (reset_ends_to_dict s)) t1"
    and "t3 = load_fired (PDict (fired_to_dict s)) t2"
  shows "map (\<lambda>d. (dr_own d, dr_other d, dr_fired d)) (all_drives t3) =
      map (\<lambda>d. (dr_own d, dr_other d, dr_fired d)) (all_drives s) \<and>
    map dr_reset (deficits t3) = map dr_reset (deficits s) \<and>
    map dr_value (all_drives t3) = map dr_value (all_drives t) \<and>
    map dr_fired (all_drives (load_fired PNone t)) = map (\<lambda>d. dr_threshold d \<le> dr_value d) (all_drives t)"
  using assms
  by (simp add: outcomes_to_dict_def reset_ends_to_dict_def fired_to_dict_def all_drives_def deficits_def
      named_iff on_drive_def with_outcome_def with_reset_def load_fired_def with_fired_def Let_def)

theorem drive_state_roundtrip_witness:
  "map dr_fired (all_drives (load_fired PNone hovering)) = map (\<lambda>d. dr_threshold d \<le> dr_value d) (all_drives hovering)"
proof -
  have "named hovering" using sample_named by (simp add: hovering_def named_iff)
  from drive_state_roundtrip [OF sample_named this refl refl refl] show ?thesis by blast
qed

end
