(* ===== verification/OffHost.thy ===== *)
theory OffHost
  imports ForkTiming ControlState "HOL-Library.Sublist"
begin

text \<open>
  Models work that leaves the live host: \<open>kaine/distributed/job.py\<close> (the job descriptor),
  \<open>runner.py\<close> and \<open>boinc.py\<close> (who may run it, work units, the output boundary, the quorum),
  \<open>gate.py\<close> and \<open>fork_entity.py\<close> (what may come back), and \<open>kaine/lifecycle/fork_merge_gate.py\<close> (what
  becomes of a fork when it is merged). The verifiers, the merge of the fork manager, the callbacks, the
  file system, \<open>str\<close>, the clock and the fresh identifiers are arguments. A verifier that raises is \<open>Inl\<close>
  of the exception's text.
\<close>

section \<open>Jobs\<close>

datatype job_kind = VoiceAlign | Abliterate | Consolidate | Eval | ForkedEntity
datatype artifact_kind = LoraAdapter | ModifiedModel | MemoryDelta | EvalReport | ForkSnapshot

fun kind_value :: "job_kind \<Rightarrow> string" where
  "kind_value VoiceAlign = ''voice_align''"
| "kind_value Abliterate = ''abliterate''"
| "kind_value Consolidate = ''consolidate''"
| "kind_value Eval = ''eval''"
| "kind_value ForkedEntity = ''forked_entity''"

fun artifact_value :: "artifact_kind \<Rightarrow> string" where
  "artifact_value LoraAdapter = ''lora_adapter''"
| "artifact_value ModifiedModel = ''modified_model''"
| "artifact_value MemoryDelta = ''memory_delta''"
| "artifact_value EvalReport = ''eval_report''"
| "artifact_value ForkSnapshot = ''fork_snapshot''"

definition enum_of :: "('a \<Rightarrow> string) \<Rightarrow> 'a list \<Rightarrow> pyval \<Rightarrow> py_exc + 'a" where
  "enum_of val xs v = (case find (\<lambda>x. v = PStr (val x)) xs of Some x \<Rightarrow> Inr x | None \<Rightarrow> Inl ValueError)"

definition job_kind_of :: "pyval \<Rightarrow> py_exc + job_kind" where
  "job_kind_of = enum_of kind_value [VoiceAlign, Abliterate, Consolidate, Eval, ForkedEntity]"

definition artifact_kind_of :: "pyval \<Rightarrow> py_exc + artifact_kind" where
  "artifact_kind_of = enum_of artifact_value [LoraAdapter, ModifiedModel, MemoryDelta, EvalReport, ForkSnapshot]"

record expected_artifact =
  ea_kind :: artifact_kind
  ea_relpath :: string

record batch_job =
  bj_kind :: job_kind
  bj_artifact :: expected_artifact
  bj_id :: string
  bj_inputs :: pydict
  bj_base_model :: pyval
  bj_fork :: pyval
  bj_directive :: pyval
  bj_time_scale :: "pyfloat option"
  bj_created :: pyfloat

text \<open>\<open>raw[k]\<close> of a JSON value.\<close>

fun item :: "pyval \<Rightarrow> string \<Rightarrow> py_exc + pyval" where
  "item (PDict d) k = (case map_of d k of Some v \<Rightarrow> Inr v | None \<Rightarrow> Inl KeyError)"
| "item _ k = Inl TypeError"

definition artifact_to_dict :: "expected_artifact \<Rightarrow> pyval" where
  "artifact_to_dict a = PDict [(''kind'', PStr (artifact_value (ea_kind a))), (''relpath'', PStr (ea_relpath a))]"

definition artifact_from_dict :: "(pyval \<Rightarrow> string) \<Rightarrow> pyval \<Rightarrow> py_exc + expected_artifact" where
  "artifact_from_dict py_str raw =
     ebind (item raw ''kind'') (\<lambda>k. ebind (artifact_kind_of k) (\<lambda>kind.
     ebind (item raw ''relpath'') (\<lambda>p. Inr \<lparr>ea_kind = kind, ea_relpath = py_str p\<rparr>)))"

definition job_to_dict :: "batch_job \<Rightarrow> pydict" where
  "job_to_dict j =
     [(''kind'', PStr (kind_value (bj_kind j))), (''expected_artifact'', artifact_to_dict (bj_artifact j)),
      (''job_id'', PStr (bj_id j)), (''inputs'', PDict (bj_inputs j)), (''base_model_ref'', bj_base_model j),
      (''fork_snapshot_id'', bj_fork j), (''directive'', bj_directive j),
      (''time_scale'', fl_val (bj_time_scale j)), (''created_at'', PFloat (bj_created j))]"

text \<open>\<open>a or b\<close>\<close>

definition py_or :: "pyval \<Rightarrow> pyval \<Rightarrow> pyval" where
  "py_or a b = (if truthy a then a else b)"

definition job_from_dict :: "(pyval \<Rightarrow> string) \<Rightarrow> string \<Rightarrow> pyfloat \<Rightarrow> pydict \<Rightarrow> py_exc + batch_job" where
  "job_from_dict py_str uuid now raw =
     ebind (item (PDict raw) ''kind'') (\<lambda>k. ebind (job_kind_of k) (\<lambda>kind.
     ebind (item (PDict raw) ''expected_artifact'') (\<lambda>a. ebind (artifact_from_dict py_str a) (\<lambda>artifact.
     ebind (dict_of (py_or (dget raw ''inputs'' PNone) (PDict []))) (\<lambda>inputs.
     ebind (if dget raw ''time_scale'' PNone = PNone then Inr None
            else ebind (py_float (dget raw ''time_scale'' PNone)) (\<lambda>x. Inr (Some x))) (\<lambda>ts.
     ebind (py_float (py_or (dget raw ''created_at'' PNone) (PFloat now))) (\<lambda>created.
       Inr \<lparr>bj_kind = kind, bj_artifact = artifact,
            bj_id = py_str (py_or (dget raw ''job_id'' PNone) (PStr uuid)), bj_inputs = inputs,
            bj_base_model = dget raw ''base_model_ref'' PNone, bj_fork = dget raw ''fork_snapshot_id'' PNone,
            bj_directive = dget raw ''directive'' PNone, bj_time_scale = ts, bj_created = created\<rparr>)))))))"

definition kind_deterministic :: "batch_job \<Rightarrow> bool" where
  "kind_deterministic j \<longleftrightarrow> bj_kind j \<in> {Eval}"

definition deterministic :: "batch_job \<Rightarrow> bool" where
  "deterministic j \<longleftrightarrow>
     kind_deterministic j \<and>
     (dget (bj_inputs j) ''deterministic'' PNone = PNone \<or> truthy (dget (bj_inputs j) ''deterministic'' PNone))"

definition is_entity_bearing :: "batch_job \<Rightarrow> bool" where
  "is_entity_bearing j \<longleftrightarrow> bj_kind j = ForkedEntity"

fun default_artifact :: "job_kind \<Rightarrow> artifact_kind" where
  "default_artifact VoiceAlign = LoraAdapter"
| "default_artifact Abliterate = ModifiedModel"
| "default_artifact Consolidate = MemoryDelta"
| "default_artifact Eval = EvalReport"
| "default_artifact ForkedEntity = ForkSnapshot"

definition default_artifact_for :: "job_kind \<Rightarrow> string \<Rightarrow> expected_artifact" where
  "default_artifact_for k relpath = \<lparr>ea_kind = default_artifact k, ea_relpath = relpath\<rparr>"

text \<open>
  The job of a forked being. \<open>sidecar\<close> is what its plaintext identity reads as: the entity and its
  lineage. Identifier and directive are strings, the time scale is any value.
\<close>

definition build_forked_entity_job ::
  "string \<Rightarrow> pyfloat \<Rightarrow> (string \<times> string list) option \<Rightarrow> string \<Rightarrow> string \<Rightarrow> pyfloat option \<Rightarrow> pyval \<Rightarrow> string \<Rightarrow>
   py_exc + batch_job" where
  "build_forked_entity_job uuid now sidecar fork_id directive time_scale base relpath =
     (if fork_id = [] then Inl ValueError
      else if py_strip directive = [] then Inl ValueError
      else ebind (build_timing_metadata (fl_val time_scale) PNone PNone PNone) (\<lambda>timing.
        Inr \<lparr>bj_kind = ForkedEntity, bj_artifact = \<lparr>ea_kind = ForkSnapshot, ea_relpath = relpath\<rparr>, bj_id = uuid,
             bj_inputs = [(''fork_snapshot_id'', PStr fork_id), (''directive'', PStr directive)] @ timing @
               (case sidecar of None \<Rightarrow> []
                | Some (e, l) \<Rightarrow> [(''fork_identity'', PDict [(''entity_id'', PStr e), (''lineage'', PList (map PStr l))])]),
             bj_base_model = base, bj_fork = PStr fork_id, bj_directive = PStr directive,
             bj_time_scale = time_scale, bj_created = now\<rparr>))"

section \<open>Runners\<close>

datatype trust_tier = OwnedHost | RentedTrustedGpu | Volunteer

fun tier_rank :: "trust_tier \<Rightarrow> nat" where
  "tier_rank OwnedHost = 0"
| "tier_rank RentedTrustedGpu = 1"
| "tier_rank Volunteer = 2"

record runner =
  rn_name :: string
  rn_tier :: trust_tier
  rn_accepts :: "batch_job \<Rightarrow> bool"

definition local_trusted_runner :: "string \<Rightarrow> runner" where
  "local_trusted_runner n = \<lparr>rn_name = n, rn_tier = OwnedHost, rn_accepts = (\<lambda>_. True)\<rparr>"

definition boinc_accepts :: "batch_job \<Rightarrow> bool" where
  "boinc_accepts j \<longleftrightarrow> \<not> is_entity_bearing j"

definition boinc_runner :: "string \<Rightarrow> runner" where
  "boinc_runner n = \<lparr>rn_name = n, rn_tier = Volunteer, rn_accepts = boinc_accepts\<rparr>"

definition order_runners :: "runner list \<Rightarrow> runner list" where
  "order_runners rs = sort_key (\<lambda>r. tier_rank (rn_tier r)) rs"

definition eligible :: "batch_job \<Rightarrow> bool \<Rightarrow> runner \<Rightarrow> bool" where
  "eligible j ready r \<longleftrightarrow>
     rn_accepts r j \<and> \<not> (rn_tier r = Volunteer \<and> is_entity_bearing j \<and> \<not> ready)"

text \<open>NoEligibleRunner is OtherException.\<close>

definition select_runner :: "batch_job \<Rightarrow> runner list \<Rightarrow> bool \<Rightarrow> py_exc + runner" where
  "select_runner j rs ready =
     (case find (eligible j ready) (order_runners rs) of Some r \<Rightarrow> Inr r | None \<Rightarrow> Inl OtherException)"

section \<open>Work units\<close>

datatype plan_class = Cpu | Cuda | Opencl

record work_unit =
  wu_job :: string
  wu_image :: string
  wu_classes :: "plan_class list"
  wu_inputs :: "string list"
  wu_result :: string
  wu_deterministic :: bool
  wu_replication :: int

definition package :: "(pyval \<Rightarrow> string) \<Rightarrow> string \<Rightarrow> plan_class list \<Rightarrow> int \<Rightarrow> batch_job \<Rightarrow> py_exc + work_unit" where
  "package py_str img classes replication j =
     (if \<not> boinc_accepts j then Inl OtherException
      else ebind (iter_items (py_or (dget (bj_inputs j) ''input_relpaths'' (PList [])) (PList []))) (\<lambda>ps.
        Inr \<lparr>wu_job = bj_id j, wu_image = img, wu_classes = classes, wu_inputs = map py_str ps,
             wu_result = ea_relpath (bj_artifact j), wu_deterministic = deterministic j,
             wu_replication = (if deterministic j then replication else 1)\<rparr>))"

definition name_forms :: "string \<Rightarrow> string list" where
  "name_forms n =
     n # sort (filter (\<lambda>m. m \<noteq> n)
       (remdups ((case map_of legacy_modules n of Some m \<Rightarrow> [m] | None \<Rightarrow> []) @
                 map fst (filter (\<lambda>(old, new). new = n) legacy_modules))))"

definition forbidden_fragments :: "string list" where
  "forbidden_fragments =
     [''raw_sense'', ''sensory_raw'', ''audition/raw'', ''voice_adapter'', ''kaine.toml'', ''operator_config'', ''secrets''] @
     concat (map (\<lambda>(m, leaf). map (\<lambda>f. f @ ''/'' @ leaf) (name_forms m))
       [(''vision'', ''frames''), (''perceptual_locus'', ''raw''), (''sleep'', ''adapters'')])"

text \<open>\<open>lower\<close> changes letters beyond ASCII too; no fragment has one.\<close>

definition boundary_text :: "string \<Rightarrow> string" where
  "boundary_text p = map (\<lambda>c. lower_char (if c = CHR 0x5C then CHR ''/'' else c)) p"

text \<open>\<open>fragment in text\<close>\<close>

definition occurs :: "string \<Rightarrow> string \<Rightarrow> bool" where
  "occurs f t \<longleftrightarrow> list_ex (prefix f) (suffixes t)"

definition crosses_boundary :: "string \<Rightarrow> bool" where
  "crosses_boundary p \<longleftrightarrow> list_ex (\<lambda>f. occurs f (boundary_text p)) forbidden_fragments"

definition enforce_output_boundary :: "string list \<Rightarrow> py_exc + unit" where
  "enforce_output_boundary ps = (if list_ex crosses_boundary ps then Inl OtherException else Inr ())"

section \<open>The quorum\<close>

record quorum_return =
  qr_run :: string
  qr_admissible :: bool
  qr_digest :: string

record quorum_verdict =
  qv_accepted :: bool
  qv_digest :: "string option"
  qv_agreeing :: nat

fun count_digest :: "(string \<times> nat) list \<Rightarrow> string \<Rightarrow> (string \<times> nat) list" where
  "count_digest [] d = [(d, 1)]"
| "count_digest ((e, n) # cs) d = (if e = d then (e, Suc n) # cs else (e, n) # count_digest cs d)"

text \<open>\<open>max(items, key=...)\<close>: the first of the greatest.\<close>

fun first_max :: "string \<times> nat \<Rightarrow> (string \<times> nat) list \<Rightarrow> string \<times> nat" where
  "first_max b [] = b"
| "first_max b (c # cs) = first_max (if snd c > snd b then c else b) cs"

definition quorum_validate :: "quorum_return list \<Rightarrow> int \<Rightarrow> quorum_verdict" where
  "quorum_validate rs min_quorum =
     (case foldl count_digest [] (map qr_digest (filter qr_admissible rs)) of
        [] \<Rightarrow> \<lparr>qv_accepted = False, qv_digest = None, qv_agreeing = 0\<rparr>
      | c # cs \<Rightarrow>
          (let (d, n) = first_max c cs
           in if int n \<ge> min_quorum then \<lparr>qv_accepted = True, qv_digest = Some d, qv_agreeing = n\<rparr>
              else \<lparr>qv_accepted = False, qv_digest = None, qv_agreeing = n\<rparr>))"

section \<open>What may come back\<close>

record verifier_outcome =
  vo_passed :: bool
  vo_score :: "pyfloat option"
  vo_detail :: string

record gate_result =
  gr_job :: string
  gr_kind :: job_kind
  gr_promotable :: bool
  gr_reasons :: "string list"
  gr_capability :: "verifier_outcome option"
  gr_evaluation :: "verifier_outcome option"
  gr_fork :: "verifier_outcome option"

type_synonym verifier = "batch_job \<Rightarrow> string \<Rightarrow> string + verifier_outcome"

record verification_gate =
  vg_capability :: "verifier option"
  vg_evaluator :: "verifier option"
  vg_fork :: "verifier option"
  vg_surface :: bool

text \<open>A verifier that is not configured, or raises, has not passed.\<close>

definition run_verifier :: "string \<Rightarrow> string \<Rightarrow> verifier option \<Rightarrow> batch_job \<Rightarrow> string \<Rightarrow> verifier_outcome" where
  "run_verifier missing raised v j p =
     (case v of
        None \<Rightarrow> \<lparr>vo_passed = False, vo_score = None, vo_detail = missing\<rparr>
      | Some f \<Rightarrow> (case f j p of
                    Inr out \<Rightarrow> out
                  | Inl e \<Rightarrow> \<lparr>vo_passed = False, vo_score = None, vo_detail = raised @ e\<rparr>))"

definition run_capability :: "verification_gate \<Rightarrow> batch_job \<Rightarrow> string \<Rightarrow> verifier_outcome" where
  "run_capability g =
     run_verifier ''no capability verifier configured (fail-closed)'' ''verifier error: '' (vg_capability g)"

definition run_evaluation :: "verification_gate \<Rightarrow> batch_job \<Rightarrow> string \<Rightarrow> verifier_outcome" where
  "run_evaluation g =
     run_verifier ''no independent evaluator configured (fail-closed)'' ''evaluator error: '' (vg_evaluator g)"

definition run_fork_gate :: "verification_gate \<Rightarrow> batch_job \<Rightarrow> string \<Rightarrow> verifier_outcome" where
  "run_fork_gate g =
     run_verifier ''no fork welfare gate configured (fail-closed)'' ''fork gate error: '' (vg_fork g)"

definition failing :: "string \<Rightarrow> verifier_outcome \<Rightarrow> string list" where
  "failing msg o' = (if vo_passed o' then [] else [msg @ vo_detail o'])"

text \<open>The result and what is shown to the operator: every verdict, when there is a surface.\<close>

definition gate_verify :: "(string \<Rightarrow> bool) \<Rightarrow> verification_gate \<Rightarrow> batch_job \<Rightarrow> string \<Rightarrow> gate_result \<times> gate_result list" where
  "gate_verify exists g j p =
     (let result =
        (if \<not> exists p then
           \<lparr>gr_job = bj_id j, gr_kind = bj_kind j, gr_promotable = False, gr_reasons = [''artifact missing at '' @ p],
            gr_capability = None, gr_evaluation = None, gr_fork = None\<rparr>
         else if bj_kind j = ForkedEntity then
           (let f = run_fork_gate g j p in
            \<lparr>gr_job = bj_id j, gr_kind = bj_kind j, gr_promotable = vo_passed f,
             gr_reasons = failing ''fork welfare/admissibility gate rejected: '' f,
             gr_capability = None, gr_evaluation = None, gr_fork = Some f\<rparr>)
         else
           (let c = run_capability g j p; e = run_evaluation g j p in
            \<lparr>gr_job = bj_id j, gr_kind = bj_kind j, gr_promotable = vo_passed c \<and> vo_passed e,
             gr_reasons = failing ''capability-loss veto failed: '' c @ failing ''independent evaluation failed: '' e,
             gr_capability = Some c, gr_evaluation = Some e, gr_fork = None\<rparr>))
      in (result, if vg_surface g then [result] else []))"

text \<open>The paths promoted. What \<open>promote\<close> raises is raised after that.\<close>

definition promote_if_verified ::
  "(string \<Rightarrow> bool) \<Rightarrow> verification_gate \<Rightarrow> batch_job \<Rightarrow> string \<Rightarrow> gate_result \<times> gate_result list \<times> string list" where
  "promote_if_verified exists g j p =
     (let (result, shown) = gate_verify exists g j p
      in (result, shown, if gr_promotable result then [p] else []))"

text \<open>\<open>len(v)\<close>, \<open>None\<close> for TypeError.\<close>

fun py_len :: "pyval \<Rightarrow> nat option" where
  "py_len (PStr s) = Some (length s)"
| "py_len (PList xs) = Some (length xs)"
| "py_len (PDict d) = Some (length d)"
| "py_len _ = None"

text \<open>\<open>read\<close> is the JSON of the artifact: missing, unreadable with a text, or a value.\<close>

definition forked_entity_gate :: "(string \<Rightarrow> (string + pyval) option) \<Rightarrow> verifier" where
  "forked_entity_gate read j p =
     (case read p of
        None \<Rightarrow> Inr \<lparr>vo_passed = False, vo_score = None, vo_detail = ''post-run snapshot missing''\<rparr>
      | Some (Inl e) \<Rightarrow> Inr \<lparr>vo_passed = False, vo_score = None, vo_detail = ''post-run snapshot unparseable: '' @ e\<rparr>
      | Some (Inr data) \<Rightarrow>
          (if \<not> is_dict data \<or> \<not> truthy (dget (the_dict data) ''modules'' PNone)
           then Inr \<lparr>vo_passed = False, vo_score = None, vo_detail = ''post-run snapshot carries no module state''\<rparr>
           else case py_len (dget (the_dict data) ''modules'' PNone) of
                  None \<Rightarrow> Inl ''object has no len()''
                | Some n \<Rightarrow> Inr \<lparr>vo_passed = True, vo_score = None,
                    vo_detail = ''post-run snapshot admissible ('' @ show_nat n @ '' modules)''\<rparr>))"

section \<open>Merging a fork\<close>

record welfare_signals =
  ws_distress :: bool
  ws_continue :: bool

definition indicates_individuation :: "welfare_signals \<Rightarrow> bool" where
  "indicates_individuation w \<longleftrightarrow> ws_distress w \<or> ws_continue w"

datatype fate_reason = LivedTimeUnknown | LivedLongEnough | Individuated | Instrument

text \<open>The verdict; of its signals only whether lived time alone decided.\<close>

record fork_verdict =
  fv_individuated :: bool
  fv_merged :: string
  fv_discarded :: bool
  fv_preserved :: bool
  fv_decommission :: bool
  fv_reason :: fate_reason
  fv_for_lived_time :: bool

record merge_effects =
  me_merged :: "(string \<times> string) list"
  me_preserved :: "string list"
  me_shown :: "fork_verdict list"

definition default_fork_preserve_min_lived_s :: pyfloat where
  "default_fork_preserve_min_lived_s = Fin 1800"

text \<open>\<open>x >= y\<close>\<close>

definition fl_geq :: "pyfloat \<Rightarrow> pyfloat \<Rightarrow> bool" where
  "fl_geq x y \<longleftrightarrow> fl_less y x \<or> x = y \<and> x \<noteq> NaN"

definition lived_long_enough :: "pyfloat option \<Rightarrow> pyfloat \<Rightarrow> bool" where
  "lived_long_enough lived least = (case lived of None \<Rightarrow> True | Some l \<Rightarrow> \<not> fl_finite l \<or> fl_geq l least)"

text \<open>
  \<open>merge\<close> is the fork manager's: the new snapshot or what was raised. \<open>preserve_fn\<close> and \<open>surface\<close> are
  given or not; what they raise is logged and changes nothing, so only their calls are kept.
\<close>

definition gated_merge ::
  "(string \<Rightarrow> string \<Rightarrow> py_exc + string) \<Rightarrow> string \<Rightarrow> string \<Rightarrow> bool \<Rightarrow> welfare_signals option \<Rightarrow> bool \<Rightarrow> bool \<Rightarrow>
   pyfloat option \<Rightarrow> pyfloat \<Rightarrow> (py_exc + fork_verdict) \<times> merge_effects" where
  "gated_merge merge parent fork diverged welfare preserve_fn surface lived least =
     (let w = (case welfare of Some w \<Rightarrow> w | None \<Rightarrow> \<lparr>ws_distress = False, ws_continue = False\<rparr>);
          long = lived_long_enough lived least;
          for_time = (long \<and> \<not> (diverged \<or> indicates_individuation w));
          individuated = (diverged \<or> indicates_individuation w \<or> long)
      in case merge parent fork of
           Inl e \<Rightarrow> (Inl e, \<lparr>me_merged = [(parent, fork)], me_preserved = [], me_shown = []\<rparr>)
         | Inr sid \<Rightarrow>
             (let v =
                (if individuated then
                   \<lparr>fv_individuated = True, fv_merged = sid, fv_discarded = False, fv_preserved = True,
                    fv_decommission = True,
                    fv_reason = (if for_time
                                 then case lived of
                                        None \<Rightarrow> LivedTimeUnknown
                                      | Some l \<Rightarrow> if \<not> fl_finite l then LivedTimeUnknown else LivedLongEnough
                                 else Individuated),
                    fv_for_lived_time = for_time\<rparr>
                 else
                   \<lparr>fv_individuated = False, fv_merged = sid, fv_discarded = True, fv_preserved = False,
                    fv_decommission = False, fv_reason = Instrument, fv_for_lived_time = for_time\<rparr>)
              in (Inr v, \<lparr>me_merged = [(parent, fork)],
                          me_preserved = (if individuated \<and> preserve_fn then [fork] else []),
                          me_shown = (if surface then [v] else [])\<rparr>)))"

section \<open>The selection of a runner\<close>

lemma find_order:
  assumes "find p (order_runners rs) = Some r"
  shows "r \<in> set rs \<and> p r \<and> (\<forall>r' \<in> set rs. p r' \<longrightarrow> tier_rank (rn_tier r) \<le> tier_rank (rn_tier r'))"
proof -
  let ?key = "\<lambda>r. tier_rank (rn_tier r)"
  from assms obtain i where i: "i < length (order_runners rs)" "p (order_runners rs ! i)" "r = order_runners rs ! i"
      "\<forall>j < i. \<not> p (order_runners rs ! j)"
    by (auto simp: find_Some_iff)
  have sorted: "sorted (map ?key (order_runners rs))" by (simp add: order_runners_def)
  have "?key r \<le> ?key r'" if r': "r' \<in> set rs" "p r'" for r'
  proof -
    from r' have "r' \<in> set (order_runners rs)" by (simp add: order_runners_def)
    then obtain j where j: "j < length (order_runners rs)" "r' = order_runners rs ! j"
      by (metis in_set_conv_nth)
    with i r'(2) have "i \<le> j" by (meson not_le_imp_less)
    with sorted i j show ?thesis using sorted_nth_mono [OF sorted, of i j] by simp
  qed
  moreover have "r \<in> set rs"
    using i nth_mem [of i "order_runners rs"] by (simp add: order_runners_def)
  ultimately show ?thesis using i by blast
qed

lemma find_order_none: "find p (order_runners rs) = None \<longleftrightarrow> (\<forall>r \<in> set rs. \<not> p r)"
  by (auto simp: find_None_iff order_runners_def)

section \<open>Counting digests\<close>

definition occurrences :: "'a list \<Rightarrow> 'a \<Rightarrow> nat" where
  "occurrences xs x = length (filter (\<lambda>y. y = x) xs)"

definition tally :: "string list \<Rightarrow> (string \<times> nat) list \<Rightarrow> bool" where
  "tally xs cs \<longleftrightarrow> distinct (map fst cs) \<and> set (map fst cs) = set xs \<and> (\<forall>(d, n) \<in> set cs. n = occurrences xs d)"

lemma keys_count: "set (map fst (count_digest cs d)) = insert d (set (map fst cs))"
  by (induction cs d rule: count_digest.induct) auto

lemma count_digest_keys: "distinct (map fst cs) \<Longrightarrow> distinct (map fst (count_digest cs d))"
proof (induction cs d rule: count_digest.induct)
  case (2 e n cs d)
  then show ?case using keys_count [of cs d] by (auto simp del: set_map)
qed simp

lemma count_digest_mem:
  "distinct (map fst cs) \<Longrightarrow> (e, n) \<in> set (count_digest cs d) \<longleftrightarrow>
   (if e = d then (if d \<in> set (map fst cs) then \<exists>k. (d, k) \<in> set cs \<and> n = Suc k else n = 1) else (e, n) \<in> set cs)"
  by (induction cs d rule: count_digest.induct) (force split: if_splits)+

lemma tally_step: "tally xs cs \<Longrightarrow> tally (xs @ [d]) (count_digest cs d)"
proof -
  assume t: "tally xs cs"
  then have dist: "distinct (map fst cs)" by (simp add: tally_def)
  have "n = occurrences (xs @ [d]) e" if "(e, n) \<in> set (count_digest cs d)" for e n
  proof (cases "e = d")
    case True
    show ?thesis
    proof (cases "d \<in> set xs")
      case True
      with that \<open>e = d\<close> t obtain k where "(d, k) \<in> set cs" "n = Suc k"
        by (auto simp: count_digest_mem [OF dist] tally_def)
      with t \<open>e = d\<close> show ?thesis by (auto simp: tally_def occurrences_def)
    next
      case False
      with that \<open>e = d\<close> t have "n = 1" by (auto simp: count_digest_mem [OF dist] tally_def)
      moreover have "occurrences xs d = 0" using False by (auto simp: occurrences_def filter_empty_conv)
      ultimately show ?thesis using \<open>e = d\<close> by (simp add: occurrences_def)
    qed
  next
    case False
    with that t show ?thesis by (auto simp: count_digest_mem [OF dist] tally_def occurrences_def)
  qed
  then show ?thesis using t count_digest_keys [OF dist, of d] keys_count [of cs d] by (auto simp: tally_def)
qed

lemma tally_foldl: "tally xs cs \<Longrightarrow> tally (xs @ ds) (foldl count_digest cs ds)"
proof (induction ds arbitrary: xs cs)
  case (Cons d ds)
  from Cons.IH [OF tally_step [OF Cons.prems, of d]] show ?case by simp
qed simp

lemma tally_all: "tally ds (foldl count_digest [] ds)"
  using tally_foldl [of "[]" "[]" ds] by (simp add: tally_def)

lemma first_max_best:
  "first_max b cs \<in> set (b # cs) \<and> (\<forall>c \<in> set (b # cs). snd c \<le> snd (first_max b cs))"
proof (induction cs arbitrary: b)
  case (Cons c cs)
  from Cons.IH [of "if snd c > snd b then c else b"] show ?case by (auto split: if_splits)
qed simp

section \<open>Properties\<close>

definition sample_job :: batch_job where
  "sample_job =
     \<lparr>bj_kind = ForkedEntity, bj_artifact = default_artifact_for ForkedEntity ''post_run_snapshot.json'', bj_id = ''j1'',
      bj_inputs = [(''directive'', PStr ''explore'')], bj_base_model = PNone, bj_fork = PStr ''f1'',
      bj_directive = PStr ''explore'', bj_time_scale = Some (Fin 2), bj_created = Fin 1000\<rparr>"

fun text_of :: "pyval \<Rightarrow> string" where
  "text_of (PStr s) = s"
| "text_of _ = []"

lemma fl_geq_Fin [simp]: "fl_geq (Fin x) (Fin y) \<longleftrightarrow> y \<le> x"
  by (auto simp: fl_geq_def)

text \<open>
  A merge discards no fork that may be someone. With a finite floor, a fork is discarded exactly when its
  divergence was not found, neither welfare signal is raised and its lived time is known, finite and
  below the floor; in every other case it is preserved, handed to the preserver when there is one, and
  may be ended by an operator's decommission only. Exactly one of the two fates holds, the parent takes
  the fork's knowledge once in both, and every verdict is shown to the surface; when the merge raises
  there is no verdict and no fork is given up.
\<close>

theorem no_individual_is_discarded:
  assumes "gated_merge merge parent fork diverged (Some w) preserve_fn surface lived (Fin least) = (r, eff)"
  shows "me_merged eff = [(parent, fork)] \<and>
    (case r of
       Inl e \<Rightarrow> merge parent fork = Inl e \<and> me_preserved eff = [] \<and> me_shown eff = []
     | Inr v \<Rightarrow>
         (fv_discarded v \<longleftrightarrow>
            \<not> diverged \<and> \<not> ws_distress w \<and> \<not> ws_continue w \<and> (\<exists>l. lived = Some (Fin l) \<and> l < least)) \<and>
         (fv_preserved v \<longleftrightarrow> \<not> fv_discarded v) \<and> (fv_decommission v \<longleftrightarrow> fv_preserved v) \<and>
         me_preserved eff = (if fv_preserved v \<and> preserve_fn then [fork] else []) \<and>
         me_shown eff = (if surface then [v] else []) \<and> merge parent fork = Inr (fv_merged v))"
proof -
  have long: "lived_long_enough lived (Fin least) \<longleftrightarrow> \<not> (\<exists>l. lived = Some (Fin l) \<and> l < least)"
  proof (cases lived)
    case (Some l)
    then show ?thesis by (cases l) (auto simp: lived_long_enough_def)
  qed (simp add: lived_long_enough_def)
  show ?thesis
  proof (cases "merge parent fork")
    case (Inl e)
    with assms show ?thesis by (auto simp: gated_merge_def Let_def)
  next
    case (Inr sid)
    show ?thesis
      by (cases "diverged \<or> indicates_individuation w \<or> lived_long_enough lived (Fin least)")
        (use assms Inr long in \<open>auto simp: gated_merge_def Let_def indicates_individuation_def\<close>)
  qed
qed

theorem no_individual_is_discarded_witness:
  "\<exists>v eff. gated_merge (\<lambda>p f. Inr ''m1'') ''p'' ''f'' False (Some \<lparr>ws_distress = False, ws_continue = True\<rparr>) True True
      (Some (Fin 60)) (Fin 1800) = (Inr v, eff) \<and> \<not> fv_discarded v \<and> me_preserved eff = [''f'']"
proof -
  let ?m = "gated_merge (\<lambda>p f. Inr ''m1'') ''p'' ''f'' False (Some \<lparr>ws_distress = False, ws_continue = True\<rparr>) True True
      (Some (Fin 60)) (Fin 1800)"
  obtain r eff where m: "?m = (r, eff)" by fastforce
  obtain v where "r = Inr v" using m by (auto simp: gated_merge_def Let_def)
  with no_individual_is_discarded [OF m] m show ?thesis by auto
qed

text \<open>A floor that is not a number turns the protection by lived time off: every known lived time is too short.\<close>

theorem nan_floor_discards:
  "fv_discarded (projr (fst (gated_merge (\<lambda>p f. Inr ''m1'') p f False None preserve_fn surface (Some (Fin l)) NaN)))"
  by (simp add: gated_merge_def Let_def lived_long_enough_def fl_geq_def indicates_individuation_def)

text \<open>
  C20. Only what was verified on the trusted host is promoted. An artifact is promoted exactly when it is there
  and, for a forked entity, the configured fork gate returned a pass, for every other job both the
  configured capability verifier and the configured independent evaluator returned a pass; a verifier
  that is missing, that fails the artifact or that raises keeps it out. A rejection always names a
  reason, and every verdict is shown to the surface.
\<close>

theorem only_verified_is_promoted:
  assumes "promote_if_verified exists g j p = (r, shown, promoted)"
  shows "(promoted = [p] \<longleftrightarrow>
      exists p \<and>
      (if bj_kind j = ForkedEntity then \<exists>f out. vg_fork g = Some f \<and> f j p = Inr out \<and> vo_passed out
       else (\<exists>f out. vg_capability g = Some f \<and> f j p = Inr out \<and> vo_passed out) \<and>
            (\<exists>f out. vg_evaluator g = Some f \<and> f j p = Inr out \<and> vo_passed out))) \<and>
    (promoted \<noteq> [p] \<longrightarrow> promoted = [] \<and> gr_reasons r \<noteq> []) \<and> shown = (if vg_surface g then [r] else [])"
proof -
  have passed: "vo_passed (run_verifier m e v j p) \<longleftrightarrow> (\<exists>f out. v = Some f \<and> f j p = Inr out \<and> vo_passed out)" for m e v
    by (auto simp: run_verifier_def split: option.split sum.split)
  have r: "r = fst (gate_verify exists g j p)" "shown = (if vg_surface g then [r] else [])"
    "promoted = (if gr_promotable r then [p] else [])"
    using assms by (auto simp: promote_if_verified_def gate_verify_def Let_def)
  show ?thesis
  proof (cases "exists p \<and> bj_kind j \<noteq> ForkedEntity")
    case True
    then show ?thesis
      using r by (auto simp: gate_verify_def Let_def run_capability_def run_evaluation_def passed failing_def)
  next
    case False
    then show ?thesis
      using r by (auto simp: gate_verify_def Let_def run_fork_gate_def passed failing_def)
  qed
qed

theorem only_verified_is_promoted_witness:
  "\<exists>r shown promoted. promote_if_verified (\<lambda>_. True)
      \<lparr>vg_capability = None, vg_evaluator = None,
       vg_fork = Some (forked_entity_gate (\<lambda>_. Some (Inr (PDict [(''modules'', PDict [(''sleep'', PNone)])])))), vg_surface = True\<rparr>
      sample_job ''out.json'' = (r, shown, promoted) \<and> promoted = [''out.json''] \<and> shown = [r]"
proof -
  let ?g = "\<lparr>vg_capability = None, vg_evaluator = None,
       vg_fork = Some (forked_entity_gate (\<lambda>_. Some (Inr (PDict [(''modules'', PDict [(''sleep'', PNone)])])))), vg_surface = True\<rparr>"
  obtain r shown promoted where p: "promote_if_verified (\<lambda>_. True) ?g sample_job ''out.json'' = (r, shown, promoted)"
    by (cases "promote_if_verified (\<lambda>_. True) ?g sample_job ''out.json''") auto
  from only_verified_is_promoted [OF p] show ?thesis
    using p by (simp add: sample_job_def forked_entity_gate_def)
qed

text \<open>
  C21. A job goes to the most trusted runner that may have it. The runner chosen is one of those given, accepts
  the job, and no eligible runner is more trusted; a forked being never goes to a volunteer while the
  welfare model for volunteers is not ready, and is never packed as a volunteer's work unit at all; the
  choice fails only when no runner is eligible.
\<close>

theorem runner_choice_is_safe:
  "(case select_runner j rs ready of
      Inr r \<Rightarrow> r \<in> set rs \<and> rn_accepts r j \<and> (bj_kind j = ForkedEntity \<and> \<not> ready \<longrightarrow> rn_tier r \<noteq> Volunteer) \<and>
        (\<forall>r' \<in> set rs. eligible j ready r' \<longrightarrow> tier_rank (rn_tier r) \<le> tier_rank (rn_tier r'))
    | Inl _ \<Rightarrow> \<forall>r \<in> set rs. \<not> eligible j ready r) \<and>
   (bj_kind j = ForkedEntity \<longrightarrow> package py_str img classes n j = Inl OtherException)"
proof (cases "find (eligible j ready) (order_runners rs)")
  case None
  then show ?thesis using find_order_none [of "eligible j ready" rs]
    by (simp add: select_runner_def package_def boinc_accepts_def is_entity_bearing_def)
next
  case (Some r)
  from find_order [OF Some] show ?thesis
    using Some by (auto simp: select_runner_def eligible_def is_entity_bearing_def package_def boinc_accepts_def)
qed

theorem runner_choice_is_safe_witness:
  "(case select_runner sample_job [boinc_runner ''b'', local_trusted_runner ''l''] False of
      Inr r \<Rightarrow> rn_tier r \<noteq> Volunteer | Inl _ \<Rightarrow> False)"
proof -
  have "eligible sample_job False (local_trusted_runner ''l'')"
    by (simp add: eligible_def local_trusted_runner_def)
  moreover have "bj_kind sample_job = ForkedEntity" by (simp add: sample_job_def)
  ultimately show ?thesis
    using runner_choice_is_safe [where j = sample_job and rs = "[boinc_runner ''b'', local_trusted_runner ''l'']" and ready = False]
    by (auto split: sum.splits)
qed

text \<open>
  The quorum counts admissible agreement only. With a quorum of at least one, the verdict is to accept
  exactly when some digest is returned by that many admissible runs; the digest accepted is one of the
  most returned, and the number of agreeing runs is how many admissible runs returned it.
\<close>

theorem quorum_is_sound:
  assumes "1 \<le> q"
  shows "(qv_accepted (quorum_validate rs q) \<longleftrightarrow>
      (\<exists>d. q \<le> int (occurrences (map qr_digest (filter qr_admissible rs)) d))) \<and>
    (\<forall>d. qv_digest (quorum_validate rs q) = Some d \<longrightarrow>
      qv_agreeing (quorum_validate rs q) = occurrences (map qr_digest (filter qr_admissible rs)) d \<and>
      (\<forall>e. occurrences (map qr_digest (filter qr_admissible rs)) e \<le>
           occurrences (map qr_digest (filter qr_admissible rs)) d)) \<and>
    (qv_accepted (quorum_validate rs q) \<longleftrightarrow> qv_digest (quorum_validate rs q) \<noteq> None)"
proof -
  define ds where "ds = map qr_digest (filter qr_admissible rs)"
  have zero: "occurrences ds d = 0" if "d \<notin> set ds" for d
    using that by (auto simp: occurrences_def filter_empty_conv)
  show ?thesis
  proof (cases "foldl count_digest [] ds")
    case Nil
    with tally_all [of ds] have "ds = []" by (simp add: tally_def)
    with assms show ?thesis by (simp add: quorum_validate_def occurrences_def flip: ds_def)
  next
    case (Cons c cs)
    obtain d n where m: "first_max c cs = (d, n)" by fastforce
    have t: "tally ds (c # cs)" using tally_all [of ds] Cons by simp
    from first_max_best [of c cs] m have best: "(d, n) \<in> set (c # cs)" "\<forall>x \<in> set (c # cs). snd x \<le> n" by auto
    with t have n: "n = occurrences ds d" by (auto simp: tally_def)
    have most: "occurrences ds e \<le> n" for e
    proof (cases "e \<in> set ds")
      case True
      with t have "e \<in> set (map fst (c # cs))" by (simp only: tally_def)
      then obtain x where "x \<in> set (c # cs)" "e = fst x" by (metis image_iff list.set_map)
      then have "(e, snd x) \<in> set (c # cs)" by simp
      then obtain k where "(e, k) \<in> set (c # cs)" ..
      with t best(2) have "k = occurrences ds e" "k \<le> n" unfolding tally_def by fastforce+
      then show ?thesis by simp
    qed (simp add: zero)
    have q: "quorum_validate rs q = (if int n \<ge> q then \<lparr>qv_accepted = True, qv_digest = Some d, qv_agreeing = n\<rparr>
        else \<lparr>qv_accepted = False, qv_digest = None, qv_agreeing = n\<rparr>)"
      using Cons m by (simp add: quorum_validate_def flip: ds_def)
    have "(\<exists>e. q \<le> int (occurrences ds e)) \<longleftrightarrow> q \<le> int n"
    proof
      assume "\<exists>e. q \<le> int (occurrences ds e)"
      then obtain e where "q \<le> int (occurrences ds e)" ..
      moreover have "int (occurrences ds e) \<le> int n" using most [of e] by simp
      ultimately show "q \<le> int n" by linarith
    qed (use n in blast)
    moreover have "\<forall>e. occurrences ds e \<le> occurrences ds d" using most n by simp
    ultimately show ?thesis unfolding q ds_def [symmetric] using n by (cases "q \<le> int n") simp_all
  qed
qed

theorem quorum_is_sound_witness:
  "qv_accepted (quorum_validate
     [\<lparr>qr_run = ''a'', qr_admissible = True, qr_digest = ''x''\<rparr>, \<lparr>qr_run = ''b'', qr_admissible = False, qr_digest = ''y''\<rparr>,
      \<lparr>qr_run = ''c'', qr_admissible = True, qr_digest = ''x''\<rparr>] 2)"
proof -
  have "int (occurrences [''x'', ''x''] ''x'') = 2" by (simp add: occurrences_def)
  then have "2 \<le> int (occurrences [''x'', ''x''] ''x'')" by linarith
  then show ?thesis
    using quorum_is_sound [of 2 "[\<lparr>qr_run = ''a'', qr_admissible = True, qr_digest = ''x''\<rparr>,
      \<lparr>qr_run = ''b'', qr_admissible = False, qr_digest = ''y''\<rparr>, \<lparr>qr_run = ''c'', qr_admissible = True, qr_digest = ''x''\<rparr>]"]
    by (auto intro: exI [of _ "''x''"])
qed

text \<open>
  A job descriptor survives its JSON form: a job with an identifier and a creation time other than zero is
  read back as it was, whatever identifier and time a job without them would be given.
\<close>

theorem job_roundtrip:
  assumes "\<forall>s. py_str (PStr s) = s" and "bj_id j \<noteq> []" and "bj_created j \<noteq> Fin 0"
  shows "job_from_dict py_str uuid now (job_to_dict j) = Inr j"
proof -
  have k: "job_kind_of (PStr (kind_value k)) = Inr k" for k
    by (cases k) (simp_all add: job_kind_of_def enum_of_def)
  have a: "artifact_kind_of (PStr (artifact_value k)) = Inr k" for k
    by (cases k) (simp_all add: artifact_kind_of_def enum_of_def)
  show ?thesis
    using assms
    by (cases "bj_time_scale j"; cases "bj_inputs j")
      (simp_all add: job_from_dict_def job_to_dict_def artifact_from_dict_def artifact_to_dict_def k a py_or_def fl_val_def)
qed

theorem job_roundtrip_witness:
  "job_from_dict text_of ''u'' (Fin 5) (job_to_dict sample_job) = Inr sample_job"
  by (rule job_roundtrip) (simp_all add: sample_job_def)

end
