(* ===== verification/Homeostasis.thy ===== *)
theory Homeostasis
  imports PyVal
begin

text \<open>
  Models what decides that the entity rests: \<open>kaine/modules/interoception/fatigue.py\<close> (the fatigue
  accumulator), \<open>regulation.py\<close> beside it (advisories on sustained prediction error),
  \<open>kaine/housekeeping_pressure.py\<close> (the pressure that speeds fatigue up) and
  \<open>kaine/modules/sleep/scheduler.py\<close> (when rest is due and how long it can be deferred). Clock readings
  are arguments. Times, errors and levels are reals; the values of a housekeeping report are any JSON.
\<close>

section \<open>Housekeeping pressure\<close>

record pressure =
  hp_disk :: real
  hp_memory :: real
  hp_episodic :: real

definition new_pressure :: pressure where
  "new_pressure = \<lparr>hp_disk = 0, hp_memory = 0, hp_episodic = 0\<rparr>"

text \<open>An integer too large for a float makes \<open>isfinite\<close> raise OverflowError.\<close>

fun finite_non_negative :: "pyval \<Rightarrow> py_exc + real option" where
  "finite_non_negative (PInt n) =
     ebind (fl_of_int n) (\<lambda>x. Inr (case x of Fin r \<Rightarrow> if 0 \<le> r then Some r else None | _ \<Rightarrow> None))"
| "finite_non_negative (PFloat (Fin r)) = Inr (if 0 \<le> r then Some r else None)"
| "finite_non_negative _ = Inr None"

definition term_of :: "pyval \<Rightarrow> py_exc + real" where
  "term_of v = ebind (finite_non_negative v) (\<lambda>x. Inr (case x of Some r \<Rightarrow> r | None \<Rightarrow> 0))"

text \<open>The terms are set one after the other: what was set before a value raised stays set.\<close>

definition set_from_sleep :: "pydict \<Rightarrow> pressure \<Rightarrow> py_exc option \<times> pressure" where
  "set_from_sleep report p =
     (case dget report ''terms'' PNone of
        PDict t \<Rightarrow>
          (case term_of (dget t ''disk'' PNone) of
             Inl e \<Rightarrow> (Some e, p)
           | Inr d \<Rightarrow>
               (case term_of (dget t ''memory'' PNone) of
                  Inl e \<Rightarrow> (Some e, p\<lparr>hp_disk := d\<rparr>)
                | Inr m \<Rightarrow>
                    (case term_of (dget t ''episodic'' PNone) of
                       Inl e \<Rightarrow> (Some e, p\<lparr>hp_disk := d, hp_memory := m\<rparr>)
                     | Inr x \<Rightarrow> (None, \<lparr>hp_disk = d, hp_memory = m, hp_episodic = x\<rparr>))))
      | _ \<Rightarrow> (None, p))"

definition note_floor_disk_excess :: "pyval \<Rightarrow> pressure \<Rightarrow> py_exc option \<times> pressure" where
  "note_floor_disk_excess v p =
     (case finite_non_negative v of
        Inl e \<Rightarrow> (Some e, p)
      | Inr (Some r) \<Rightarrow> (None, p\<lparr>hp_disk := max (hp_disk p) r\<rparr>)
      | Inr None \<Rightarrow> (None, p))"

definition pressure_value :: "pressure \<Rightarrow> real" where
  "pressure_value p = hp_disk p + hp_memory p + hp_episodic p"

definition pressure_reset :: "pressure \<Rightarrow> pressure" where
  "pressure_reset p = new_pressure"

section \<open>Fatigue\<close>

text \<open>\<open>fa_pressure\<close>: what the injected callable gives now, \<open>None\<close> without one or when it raises.\<close>

record fatigue =
  fa_decay :: real
  fa_threshold :: real
  fa_factor :: real
  fa_pressure :: "pyval option"
  fa_value :: real
  fa_crossed :: bool
  fa_faster :: bool
  fa_last :: "real option"

definition FatigueAccumulator :: "real \<Rightarrow> real \<Rightarrow> real \<Rightarrow> pyval option \<Rightarrow> py_exc + fatigue" where
  "FatigueAccumulator decay threshold factor p =
     (if decay < 0 then Inl ValueError
      else if threshold \<le> 0 then Inl ValueError
      else if factor < 1 then Inl ValueError
      else Inr \<lparr>fa_decay = decay, fa_threshold = threshold, fa_factor = factor, fa_pressure = p,
                fa_value = 0, fa_crossed = False, fa_faster = False, fa_last = None\<rparr>)"

definition set_faster_decay :: "bool \<Rightarrow> fatigue \<Rightarrow> fatigue" where
  "set_faster_decay b f = f\<lparr>fa_faster := b\<rparr>"

definition build_pressure :: "fatigue \<Rightarrow> py_exc + real" where
  "build_pressure f =
     (case fa_pressure f of
        None \<Rightarrow> Inr 0
      | Some v \<Rightarrow> if fa_faster f then Inr 0 else term_of v)"

definition decay_rate :: "fatigue \<Rightarrow> real" where
  "decay_rate f = (if fa_faster f then fa_decay f * fa_factor f else fa_decay f)"

definition integrate :: "fatigue \<Rightarrow> real \<Rightarrow> real \<Rightarrow> real \<Rightarrow> real" where
  "integrate f e p dt = max 0 (fa_value f + e * (1 + p) * dt - decay_rate f * dt)"

definition fatigue_update :: "real \<Rightarrow> real \<Rightarrow> fatigue \<Rightarrow> (py_exc + bool) \<times> fatigue" where
  "fatigue_update err now f =
     (case fa_last f of
        None \<Rightarrow> (Inr False, f\<lparr>fa_last := Some now\<rparr>)
      | Some t0 \<Rightarrow>
          (let dt = max 0 (now - t0); f1 = f\<lparr>fa_last := Some now\<rparr>; e = max 0 err in
           case build_pressure f1 of
             Inl x \<Rightarrow> (Inl x, f1)
           | Inr p \<Rightarrow>
               (let new = integrate f1 e p dt;
                    newly = (fa_value f1 < fa_threshold f1 \<and> new \<ge> fa_threshold f1);
                    f2 = f1\<lparr>fa_value := new\<rparr>
                in (Inr newly, if newly then f2\<lparr>fa_crossed := True\<rparr> else f2))))"

definition would_cross :: "real \<Rightarrow> real \<Rightarrow> fatigue \<Rightarrow> py_exc + bool" where
  "would_cross err now f =
     (case fa_last f of
        None \<Rightarrow> Inr False
      | Some t0 \<Rightarrow>
          (let dt = max 0 (now - t0); e = max 0 err in
           ebind (build_pressure f) (\<lambda>p.
             Inr (fa_value f < fa_threshold f \<and> integrate f e p dt \<ge> fa_threshold f))))"

definition fatigue_reset :: "fatigue \<Rightarrow> fatigue" where
  "fatigue_reset f = f\<lparr>fa_value := 0, fa_crossed := False, fa_last := None\<rparr>"

definition fatigue_state_dict :: "fatigue \<Rightarrow> pydict" where
  "fatigue_state_dict f = [(''value'', PFloat (Fin (fa_value f)))]"

section \<open>Regulation\<close>

definition actions :: "string list" where
  "actions = [''reduce_rate'', ''shed_module'', ''request_maintenance'']"

definition severities :: "int list" where
  "severities = [1, 2, 3]"

record detector =
  rd_threshold :: real
  rd_window :: real
  rd_start :: "real option"
  rd_windows :: int
  rd_emitted :: int

definition RegulationDetector :: "real \<Rightarrow> real \<Rightarrow> py_exc + detector" where
  "RegulationDetector threshold window =
     (if threshold < 0 then Inl ValueError
      else if window \<le> 0 then Inl ValueError
      else Inr \<lparr>rd_threshold = threshold, rd_window = window, rd_start = None, rd_windows = 0, rd_emitted = -1\<rparr>)"

definition detector_reset :: "detector \<Rightarrow> detector" where
  "detector_reset d = d\<lparr>rd_start := None, rd_windows := 0, rd_emitted := -1\<rparr>"

definition sustain_elapsed_s :: "real \<Rightarrow> detector \<Rightarrow> real" where
  "sustain_elapsed_s now d = (case rd_start d of None \<Rightarrow> 0 | Some s \<Rightarrow> max 0 (now - s))"

text \<open>\<open>int(x)\<close> of a float\<close>

definition truncated :: "real \<Rightarrow> int" where
  "truncated x = (if 0 \<le> x then \<lfloor>x\<rfloor> else \<lceil>x\<rceil>)"

text \<open>An advisory is its action and severity; the reason's text is left out.\<close>

definition detector_update :: "real \<Rightarrow> real \<Rightarrow> detector \<Rightarrow> (string \<times> int) option \<times> detector" where
  "detector_update err now d =
     (if err < rd_threshold d then (None, detector_reset d)
      else
        (let start = (case rd_start d of None \<Rightarrow> now | Some s \<Rightarrow> s);
             d1 = d\<lparr>rd_start := Some start\<rparr>;
             windows = truncated ((now - start) / rd_window d1)
         in if windows > 0 \<and> windows > rd_emitted d1 then
              (let tier = nat (min (windows - 1) (int (length actions) - 1))
               in (Some (actions ! tier, severities ! tier), d1\<lparr>rd_windows := windows, rd_emitted := windows\<rparr>))
            else (None, d1)))"

fun detector_run :: "(real \<times> real) list \<Rightarrow> detector \<Rightarrow> (string \<times> int) list \<times> detector" where
  "detector_run [] d = ([], d)"
| "detector_run ((err, now) # xs) d =
     (let (a, d1) = detector_update err now d; (as, d2) = detector_run xs d1
      in ((case a of Some x \<Rightarrow> x # as | None \<Rightarrow> as), d2))"

section \<open>Rest\<close>

record rest_scheduler =
  rs_interval :: real
  rs_max_deferral :: real
  rs_per_defer :: real
  rs_original :: real
  rs_effective :: real

definition RestScheduler :: "real \<Rightarrow> real \<Rightarrow> real \<Rightarrow> real \<Rightarrow> py_exc + rest_scheduler" where
  "RestScheduler interval max_deferral per_defer now =
     (if interval \<le> 0 then Inl ValueError
      else if max_deferral < 0 then Inl ValueError
      else if per_defer \<le> 0 then Inl ValueError
      else Inr \<lparr>rs_interval = interval, rs_max_deferral = max_deferral, rs_per_defer = per_defer,
                rs_original = now + interval, rs_effective = now + interval\<rparr>)"

definition total_deferral :: "rest_scheduler \<Rightarrow> real" where
  "total_deferral s = max 0 (rs_effective s - rs_original s)"

definition is_due :: "real \<Rightarrow> rest_scheduler \<Rightarrow> bool" where
  "is_due now s \<longleftrightarrow>
     (if now \<ge> rs_effective s then True else if now \<ge> rs_original s + rs_max_deferral s then True else False)"

definition try_defer :: "real \<Rightarrow> rest_scheduler \<Rightarrow> bool \<times> rest_scheduler" where
  "try_defer now s =
     (if now \<ge> rs_original s + rs_max_deferral s then (False, s)
      else (let cap = rs_original s + rs_max_deferral s;
                proposed = (if rs_effective s + rs_per_defer s > cap then cap else rs_effective s + rs_per_defer s)
            in if proposed - rs_effective s < 1 / 1000 then (False, s) else (True, s\<lparr>rs_effective := proposed\<rparr>)))"

definition mark_completed :: "real \<Rightarrow> rest_scheduler \<Rightarrow> rest_scheduler" where
  "mark_completed now s = s\<lparr>rs_original := now + rs_interval s, rs_effective := now + rs_interval s\<rparr>"

definition export_remaining :: "real \<Rightarrow> rest_scheduler \<Rightarrow> real \<times> real" where
  "export_remaining now s = (rs_original s - now, rs_effective s - now)"

definition restore_remaining :: "real \<Rightarrow> pyfloat \<Rightarrow> pyfloat \<Rightarrow> rest_scheduler \<Rightarrow> py_exc + rest_scheduler" where
  "restore_remaining now original effective s =
     (case (original, effective) of
        (Fin a, Fin b) \<Rightarrow>
          if b < a then Inl ValueError else Inr (s\<lparr>rs_original := now + a, rs_effective := now + b\<rparr>)
      | _ \<Rightarrow> Inl ValueError)"

fun defer_run :: "real list \<Rightarrow> rest_scheduler \<Rightarrow> nat \<times> rest_scheduler" where
  "defer_run [] s = (0, s)"
| "defer_run (t # ts) s =
     (let (ok, s1) = try_defer t s; (n, s2) = defer_run ts s1 in (if ok then Suc n else n, s2))"

section \<open>Rest comes in its window\<close>

definition sched_ok :: "real \<Rightarrow> nat \<Rightarrow> rest_scheduler \<Rightarrow> bool" where
  "sched_ok due n s \<longleftrightarrow>
     0 < rs_per_defer s \<and> 0 \<le> rs_max_deferral s \<and> rs_original s = due \<and> due \<le> rs_effective s \<and>
     rs_effective s \<le> due + rs_max_deferral s \<and>
     (rs_effective s = due + real n * rs_per_defer s \<or>
      rs_effective s = due + rs_max_deferral s \<and> 0 < n \<and> real (n - 1) * rs_per_defer s < rs_max_deferral s)"

lemma try_defer_ok:
  assumes "sched_ok due n s"
  shows "sched_ok due (if fst (try_defer t s) then Suc n else n) (snd (try_defer t s))"
proof (cases "fst (try_defer t s)")
  case False
  then have "snd (try_defer t s) = s" by (simp add: try_defer_def Let_def split: if_splits)
  with False assms show ?thesis by simp
next
  case True
  let ?cap = "rs_original s + rs_max_deferral s" and ?next = "rs_effective s + rs_per_defer s"
  let ?new = "if ?next > ?cap then ?cap else ?next"
  from True have s': "snd (try_defer t s) = s\<lparr>rs_effective := ?new\<rparr>" and grows: "1 / 1000 \<le> ?new - rs_effective s"
    by (auto simp: try_defer_def Let_def split: if_splits)
  from assms have base: "0 < rs_per_defer s" "rs_original s = due" "due \<le> rs_effective s"
      "0 \<le> rs_max_deferral s" by (auto simp: sched_ok_def)
  have below: "rs_effective s < ?cap" using grows by (auto split: if_splits)
  with assms have eff: "rs_effective s = due + real n * rs_per_defer s" by (auto simp: sched_ok_def)
  show ?thesis
  proof (cases "?next > ?cap")
    case True
    with s' assms eff below base \<open>fst (try_defer t s)\<close> show ?thesis by (simp add: sched_ok_def)
  next
    case False
    with s' assms eff base \<open>fst (try_defer t s)\<close> show ?thesis by (simp add: sched_ok_def algebra_simps)
  qed
qed

lemma try_defer_const [simp]: "rs_max_deferral (snd (try_defer t s)) = rs_max_deferral s"
    "rs_per_defer (snd (try_defer t s)) = rs_per_defer s"
  by (simp_all add: try_defer_def Let_def)

lemma defer_run_ok:
  "sched_ok due n s \<Longrightarrow> defer_run ts s = (m, s') \<Longrightarrow>
   sched_ok due (n + m) s' \<and> rs_max_deferral s' = rs_max_deferral s \<and> rs_per_defer s' = rs_per_defer s"
proof (induction ts arbitrary: n s m)
  case (Cons t ts)
  obtain ok s1 where one: "try_defer t s = (ok, s1)" by fastforce
  obtain k s2 where rest: "defer_run ts s1 = (k, s2)" by fastforce
  from Cons.prems(2) one rest have m: "m = (if ok then Suc k else k)" "s' = s2" by auto
  have "sched_ok due (if ok then Suc n else n) s1" using try_defer_ok [OF Cons.prems(1), of t] one by simp
  from Cons.IH [OF this] rest m have "sched_ok due ((if ok then Suc n else n) + k) s'"
      "rs_max_deferral s' = rs_max_deferral s1" "rs_per_defer s' = rs_per_defer s1" by auto
  with m one try_defer_const [of t s] show ?case by (cases ok) auto
qed simp

lemma deferrals_bounded:
  assumes "sched_ok due n s"
  shows "real n * rs_per_defer s < rs_max_deferral s + rs_per_defer s"
proof -
  from assms have ok: "0 < rs_per_defer s" "rs_effective s \<le> due + rs_max_deferral s"
    "rs_effective s = due + real n * rs_per_defer s \<or>
     0 < n \<and> real (n - 1) * rs_per_defer s < rs_max_deferral s"
    by (auto simp: sched_ok_def)
  from ok(3) show ?thesis
  proof
    assume "0 < n \<and> real (n - 1) * rs_per_defer s < rs_max_deferral s"
    then show ?thesis by (cases n) (auto simp: algebra_simps)
  qed (use ok in linarith)
qed

section \<open>Fatigue does not depend on the update rate\<close>

lemma max_add_steps:
  fixes a v s t :: real
  assumes "0 \<le> s" and "0 \<le> t" and "0 \<le> v"
  shows "max 0 (max 0 (v + a * s) + a * t) = max 0 (v + a * (s + t))"
proof (cases "0 \<le> v + a * s")
  case False
  then have "a < 0" using assms by (meson add_nonneg_nonneg mult_nonneg_nonneg not_less)
  then have "a * t \<le> 0" using assms(2) by (simp add: mult_nonpos_nonneg)
  with False show ?thesis by (simp add: algebra_simps max_def)
qed (simp add: algebra_simps)

lemma integrate_flow: "integrate f e p dt = max 0 (fa_value f + (e * (1 + p) - decay_rate f) * dt)"
  by (simp add: integrate_def algebra_simps)

lemma build_pressure_cong [simp]:
  "build_pressure (f\<lparr>fa_last := x\<rparr>) = build_pressure f" "build_pressure (f\<lparr>fa_value := v\<rparr>) = build_pressure f"
  "build_pressure (f\<lparr>fa_crossed := b\<rparr>) = build_pressure f"
  by (cases "fa_pressure f"; simp add: build_pressure_def)+

lemma decay_rate_cong [simp]:
  "decay_rate (f\<lparr>fa_last := x\<rparr>) = decay_rate f" "decay_rate (f\<lparr>fa_value := v\<rparr>) = decay_rate f"
  "decay_rate (f\<lparr>fa_crossed := b\<rparr>) = decay_rate f"
  by (simp_all add: decay_rate_def)

lemma integrate_cong [simp]: "integrate (f\<lparr>fa_last := x\<rparr>) e p dt = integrate f e p dt"
  by (simp add: integrate_def)

lemma update_effect:
  assumes "fa_last g = Some s" and "s \<le> t" and "build_pressure g = Inr p"
  shows "fa_value (snd (fatigue_update err t g)) = integrate g (max 0 err) p (t - s)"
    and "fa_last (snd (fatigue_update err t g)) = Some t"
    and "build_pressure (snd (fatigue_update err t g)) = Inr p"
    and "decay_rate (snd (fatigue_update err t g)) = decay_rate g"
  using assms by (simp_all add: fatigue_update_def Let_def)

lemma update_twice:
  assumes "fa_last f = Some t0" and "t0 \<le> t1" and "t1 \<le> t2" and "0 \<le> fa_value f" and "build_pressure f = Inr p"
  shows "fa_value (snd (fatigue_update err t2 (snd (fatigue_update err t1 f)))) = fa_value (snd (fatigue_update err t2 f))"
proof -
  let ?e = "max 0 err"
  note val = update_effect
  let ?a = "?e * (1 + p) - decay_rate f"
  have "fa_value (snd (fatigue_update err t2 (snd (fatigue_update err t1 f)))) =
      max 0 (max 0 (fa_value f + ?a * (t1 - t0)) + ?a * (t2 - t1))"
    using val [OF assms(1,2,5)] val [of "snd (fatigue_update err t1 f)" t1 t2] assms(3) by (simp add: integrate_flow)
  also have "\<dots> = max 0 (fa_value f + ?a * (t2 - t0))"
    using max_add_steps [of "t1 - t0" "t2 - t1" "fa_value f" ?a] assms(2-4) by simp
  also have "\<dots> = fa_value (snd (fatigue_update err t2 f))"
    using val [OF assms(1) _ assms(5)] assms(2,3) by (simp add: integrate_flow)
  finally show ?thesis .
qed

lemma would_cross_agrees: "would_cross err now f = fst (fatigue_update err now f)"
  by (cases "fa_last f")
    (auto simp: would_cross_def fatigue_update_def Let_def build_pressure_def integrate_def decay_rate_def
      split: option.splits sum.splits)

section \<open>Advisories of one episode\<close>

text \<open>The number of the window an advisory was given for only grows, and with it the severity.\<close>

definition tier :: "int \<Rightarrow> nat" where
  "tier w = nat (min (w - 1) 2)"

lemma actions_length [simp]: "length actions = 3"
  by (simp add: actions_def)

definition advisory :: "int \<Rightarrow> string \<times> int" where
  "advisory w = (actions ! tier w, severities ! tier w)"

definition windows_at :: "detector \<Rightarrow> real \<Rightarrow> int" where
  "windows_at d now = (case rd_start d of None \<Rightarrow> 0 | Some s \<Rightarrow> truncated ((now - s) / rd_window d))"

lemma truncated_0 [simp]: "truncated 0 = 0"
  by (simp add: truncated_def)

lemma detector_update_high:
  assumes "rd_threshold d \<le> err"
  shows "detector_update err now d =
    (let d1 = (if rd_start d = None then d\<lparr>rd_start := Some now\<rparr> else d); w = windows_at d1 now in
     if 0 < w \<and> rd_emitted d1 < w then (Some (advisory w), d1\<lparr>rd_windows := w, rd_emitted := w\<rparr>) else (None, d1))"
proof (cases "rd_start d")
  case None
  with assms show ?thesis by (simp add: detector_update_def Let_def windows_at_def)
next
  case (Some s)
  then have "d\<lparr>rd_start := Some s\<rparr> = d" by simp
  with Some assms show ?thesis by (simp add: detector_update_def Let_def windows_at_def advisory_def tier_def)
qed

lemma truncated_mono: "x \<le> y \<Longrightarrow> truncated x \<le> truncated y"
  by (auto simp: truncated_def floor_mono ceiling_mono intro: order_trans [of _ 0])

definition high_episode :: "detector \<Rightarrow> (real \<times> real) list \<Rightarrow> bool" where
  "high_episode d xs \<longleftrightarrow> (\<forall>x \<in> set xs. rd_threshold d \<le> fst x)"

text \<open>The advisories of an episode that has begun are those of increasing windows up to the last reading.\<close>

lemma detector_run_high:
  assumes "0 < rd_window d" and "rd_start d = Some s" and "\<forall>x \<in> set xs. rd_threshold d \<le> fst x \<and> snd x \<le> last_t"
    and "detector_run xs d = (as, d')"
  shows "\<exists>ws. as = map advisory ws \<and> sorted_wrt (<) ws \<and>
    (\<forall>w \<in> set ws. 0 < w \<and> rd_emitted d < w \<and> w \<le> truncated ((last_t - s) / rd_window d))"
  using assms
proof (induction xs arbitrary: d as)
  case (Cons x xs)
  obtain err now where x: "x = (err, now)" by fastforce
  have high: "rd_threshold d \<le> err" and "now \<le> last_t" using Cons.prems(3) x by auto
  let ?w = "windows_at d now"
  have w_le: "?w \<le> truncated ((last_t - s) / rd_window d)"
    using \<open>now \<le> last_t\<close> Cons.prems(1,2) by (simp add: windows_at_def truncated_mono divide_right_mono)
  show ?case
  proof (cases "0 < ?w \<and> rd_emitted d < ?w")
    case True
    let ?d1 = "d\<lparr>rd_windows := ?w, rd_emitted := ?w\<rparr>"
    have one: "detector_update err now d = (Some (advisory ?w), ?d1)"
      using detector_update_high [OF high] True Cons.prems(2) by (simp add: Let_def)
    obtain as1 where rest: "detector_run xs ?d1 = (as1, d')" and as: "as = advisory ?w # as1"
      using Cons.prems(4) x one by (auto split: prod.splits)
    obtain ws where ws: "as1 = map advisory ws" "sorted_wrt (<) ws"
        "\<forall>w \<in> set ws. 0 < w \<and> ?w < w \<and> w \<le> truncated ((last_t - s) / rd_window d)"
      using Cons.IH [of ?d1 as1] Cons.prems rest by auto
    with as True w_le show ?thesis by (intro exI [of _ "?w # ws"]) auto
  next
    case False
    have one: "detector_update err now d = (None, d)"
      using detector_update_high [OF high] False Cons.prems(2) by (auto simp: Let_def)
    obtain as1 where "detector_run xs d = (as1, d')" and "as = as1"
      using Cons.prems(4) x one by (auto split: prod.splits)
    then show ?thesis using Cons.IH [of d as1] Cons.prems by auto
  qed
qed simp

lemma advisory_severity: "0 < w \<Longrightarrow> snd (advisory w) = min w 3"
proof -
  assume "0 < w"
  then consider "w = 1" | "w = 2" | "3 \<le> w" by linarith
  then show ?thesis by cases (simp_all add: advisory_def tier_def severities_def numeral_2_eq_2)
qed

lemma increasing_length:
  assumes "sorted_wrt (<) ws" and "\<forall>w \<in> set ws. 0 < w \<and> w \<le> (m::int)"
  shows "length ws \<le> nat m"
proof -
  have "distinct ws" using assms(1) by (simp add: strict_sorted_iff)
  then have "length ws = card (set ws)" by (simp add: distinct_card)
  also have "\<dots> \<le> card {1..m}" using assms(2) by (intro card_mono) auto
  finally show ?thesis by simp
qed

lemma severities_sorted:
  "sorted_wrt (<) ws \<Longrightarrow> \<forall>w \<in> set ws. 0 < w \<Longrightarrow> sorted (map (snd \<circ> advisory) ws)"
  by (induction ws) (auto simp: advisory_severity min_def)

section \<open>Pressure between sleeps\<close>

datatype pressure_op = Report pydict | Floor pyval

fun pressure_step :: "pressure \<Rightarrow> pressure_op \<Rightarrow> pressure" where
  "pressure_step p (Report r) = snd (set_from_sleep r p)"
| "pressure_step p (Floor v) = snd (note_floor_disk_excess v p)"

definition terms_ok :: "pressure \<Rightarrow> bool" where
  "terms_ok p \<longleftrightarrow> 0 \<le> hp_disk p \<and> 0 \<le> hp_memory p \<and> 0 \<le> hp_episodic p"

lemma finite_non_negative_ge: "finite_non_negative v = Inr (Some r) \<Longrightarrow> 0 \<le> r"
proof (induction v rule: finite_non_negative.induct)
  case (1 n)
  then obtain x where "(case x of Fin r \<Rightarrow> if 0 \<le> r then Some r else None | _ \<Rightarrow> None) = Some r" by auto
  then show ?case by (cases x) (auto split: if_splits)
qed (auto split: if_splits)

lemma term_of_ge: "term_of v = Inr r \<Longrightarrow> 0 \<le> r"
  by (auto simp: term_of_def split: option.splits dest: finite_non_negative_ge)

lemma set_from_sleep_ok: "terms_ok p \<Longrightarrow> terms_ok (snd (set_from_sleep r p))"
  by (auto simp: set_from_sleep_def terms_ok_def split: pyval.split sum.split dest: term_of_ge)

lemma pressure_step_ok: "terms_ok p \<Longrightarrow> True \<Longrightarrow> terms_ok (pressure_step p x)"
proof (cases x)
  case (Floor v)
  assume "terms_ok p"
  with Floor show ?thesis by (auto simp: note_floor_disk_excess_def terms_ok_def split: sum.split option.split)
qed (simp add: set_from_sleep_ok)

interpretation pressure: machine pressure_step "\<lambda>_. True" terms_ok
  by unfold_locales (rule pressure_step_ok)

text \<open>A report that replaces nothing: housekeeping was disabled or failed.\<close>

fun keeps_terms :: "pressure_op \<Rightarrow> bool" where
  "keeps_terms (Report r) = (\<not> is_dict (dget r ''terms'' PNone))"
| "keeps_terms (Floor v) = True"

lemma pressure_step_grows: "keeps_terms x \<Longrightarrow> pressure_value p \<le> pressure_value (pressure_step p x)"
proof (cases x)
  case (Report r)
  assume "keeps_terms x"
  with Report show ?thesis by (cases "dget r ''terms'' PNone") (simp_all add: set_from_sleep_def)
next
  case (Floor v)
  then show ?thesis by (auto simp: note_floor_disk_excess_def pressure_value_def split: sum.split option.split)
qed

interpretation waking: ranked_machine pressure_step keeps_terms "\<lambda>_. True" pressure_value
  by unfold_locales (simp_all add: pressure_step_grows)

section \<open>Properties\<close>

definition sample_scheduler :: rest_scheduler where
  "sample_scheduler =
     \<lparr>rs_interval = 100, rs_max_deferral = 150, rs_per_defer = 60, rs_original = 100, rs_effective = 100\<rparr>"

lemma sample_scheduler_new: "RestScheduler 100 150 60 0 = Inr sample_scheduler"
  by (simp add: RestScheduler_def sample_scheduler_def)

text \<open>
  C24. Rest comes in its window. After a sleep that ended at time t, whatever deferrals are asked for and
  whenever, rest is not due before the interval has passed and is due once the interval and the maximum
  deferral have; the deferrals granted together never exceed the maximum, and their number stays below
  the maximum over one deferral, plus one.
\<close>

theorem rest_comes_in_window:
  assumes "RestScheduler interval max_deferral per_defer t0 = Inr s0"
    and "defer_run ts (mark_completed t s0) = (n, s)"
  shows "(now < t + interval \<longrightarrow> \<not> is_due now s) \<and> (t + interval + max_deferral \<le> now \<longrightarrow> is_due now s) \<and>
    total_deferral s \<le> max_deferral \<and> real n * per_defer < max_deferral + per_defer"
proof -
  from assms(1) have conf: "rs_interval s0 = interval" "rs_max_deferral s0 = max_deferral" "rs_per_defer s0 = per_defer"
      "0 \<le> max_deferral" "0 < per_defer"
    by (auto simp: RestScheduler_def split: if_splits)
  then have "sched_ok (t + interval) 0 (mark_completed t s0)" by (simp add: sched_ok_def mark_completed_def)
  from defer_run_ok [OF this assms(2)] conf
  have ok: "sched_ok (t + interval) n s" "rs_max_deferral s = max_deferral" "rs_per_defer s = per_defer"
    by (simp_all add: mark_completed_def)
  then show ?thesis using deferrals_bounded [OF ok(1)] by (auto simp: is_due_def sched_ok_def total_deferral_def)
qed

theorem rest_comes_in_window_witness:
  "\<exists>n s. defer_run [10, 50, 120, 200] (mark_completed 0 sample_scheduler) = (n, s) \<and> \<not> is_due 99 s \<and> is_due 250 s \<and>
    real n * 60 < 150 + 60"
proof -
  obtain n s where run: "defer_run [10, 50, 120, 200] (mark_completed 0 sample_scheduler) = (n, s)" by fastforce
  from rest_comes_in_window [OF sample_scheduler_new run, of 99] rest_comes_in_window [OF sample_scheduler_new run, of 250]
  show ?thesis using run by auto
qed

text \<open>
  Fatigue does not depend on how often it is updated. With the same error, pressure and sleep flag, an
  update at \<open>t1\<close> followed by one at \<open>t2\<close> leaves the level one update at \<open>t2\<close> leaves, the floor at zero
  included; and \<open>would_cross\<close> foretells what \<open>update\<close> returns, also when the pressure raises.
\<close>

theorem fatigue_is_rate_independent:
  assumes "fa_last f = Some t0" and "t0 \<le> t1" and "t1 \<le> t2" and "0 \<le> fa_value f" and "build_pressure f = Inr p"
  shows "fa_value (snd (fatigue_update err t2 (snd (fatigue_update err t1 f)))) =
      fa_value (snd (fatigue_update err t2 f)) \<and>
    would_cross err t1 f = fst (fatigue_update err t1 f)"
  using update_twice [OF assms] would_cross_agrees by blast

definition sample_fatigue :: fatigue where
  "sample_fatigue =
     \<lparr>fa_decay = 1 / 100, fa_threshold = 100, fa_factor = 3, fa_pressure = Some (PFloat (Fin 1)), fa_value = 0,
      fa_crossed = False, fa_faster = False, fa_last = Some 0\<rparr>"

theorem fatigue_is_rate_independent_witness:
  "fa_value (snd (fatigue_update 2 60 (snd (fatigue_update 2 10 sample_fatigue)))) =
      fa_value (snd (fatigue_update 2 60 sample_fatigue)) \<and>
    would_cross 2 10 sample_fatigue = fst (fatigue_update 2 10 sample_fatigue)"
proof -
  have "build_pressure sample_fatigue = Inr 1" by (simp add: sample_fatigue_def build_pressure_def term_of_def)
  then show ?thesis by (intro fatigue_is_rate_independent [of _ 0]) (simp_all add: sample_fatigue_def)
qed

text \<open>
  One episode of stress gives one advisory for each window at most, and they escalate. From a new
  detector, when every error from time s on reaches the threshold, the advisories come in order of
  severity, each of them one of the three, and there are no more of them than whole windows between s and
  the last reading, so none before the first window is over.
\<close>

theorem advisories_escalate:
  assumes "RegulationDetector threshold window = Inr d" and "s \<le> last_t"
    and "\<forall>x \<in> set ((e, s) # xs). threshold \<le> fst x \<and> snd x \<le> last_t"
    and "detector_run ((e, s) # xs) d = (as, d')"
  shows "sorted (map snd as) \<and> set as \<subseteq> {(''reduce_rate'', 1), (''shed_module'', 2), (''request_maintenance'', 3)} \<and>
    length as \<le> nat \<lfloor>(last_t - s) / window\<rfloor>"
proof -
  let ?d1 = "d\<lparr>rd_start := Some s\<rparr>"
  from assms(1) have d: "rd_threshold d = threshold" "rd_window d = window" "0 < window" "rd_start d = None"
      "rd_emitted d = -1"
    by (auto simp: RegulationDetector_def split: if_splits)
  then have "detector_update e s d = (None, ?d1)"
    using detector_update_high [of d e s] assms(3) by (simp add: Let_def windows_at_def)
  then have "detector_run xs ?d1 = (as, d')" using assms(4) by (auto split: prod.splits)
  then obtain ws where ws: "as = map advisory ws" "sorted_wrt (<) ws"
      "\<forall>w \<in> set ws. 0 < w \<and> w \<le> truncated ((last_t - s) / window)"
    using detector_run_high [of ?d1 s xs last_t as d'] assms(3) d by auto
  have "truncated ((last_t - s) / window) = \<lfloor>(last_t - s) / window\<rfloor>" using d(3) assms(2) by (simp add: truncated_def)
  then have "length as \<le> nat \<lfloor>(last_t - s) / window\<rfloor>" using ws increasing_length [of ws] by simp
  moreover have sev: "sorted (map snd as)" using severities_sorted ws by simp
  have each: "advisory w \<in> {(''reduce_rate'', 1), (''shed_module'', 2), (''request_maintenance'', 3)}"
    if "0 < w" for w
  proof -
    consider "w = 1" | "w = 2" | "3 \<le> w" using \<open>0 < w\<close> by linarith
    then show ?thesis by cases (simp_all add: advisory_def tier_def severities_def actions_def numeral_2_eq_2)
  qed
  moreover have "set as \<subseteq> {(''reduce_rate'', 1), (''shed_module'', 2), (''request_maintenance'', 3)}"
  proof
    fix x assume "x \<in> set as"
    then obtain w where "w \<in> set ws" "x = advisory w" using ws(1) by auto
    with each ws(3) show "x \<in> {(''reduce_rate'', 1), (''shed_module'', 2), (''request_maintenance'', 3)}" by blast
  qed
  ultimately show ?thesis using sev by blast
qed

theorem advisories_escalate_witness:
  "\<exists>d as d'. RegulationDetector (1 / 2) 30 = Inr d \<and>
    detector_run [(1, 0), (1, 31), (1, 40), (1, 61)] d = (as, d') \<and> sorted (map snd as) \<and> length as \<le> 2"
proof -
  obtain d where d: "RegulationDetector (1 / 2) 30 = Inr d" by (simp add: RegulationDetector_def)
  obtain as d' where run: "detector_run [(1, 0), (1, 31), (1, 40), (1, 61)] d = (as, d')" by fastforce
  have "\<lfloor>(61 - 0) / 30 :: real\<rfloor> = 2" by (simp add: floor_eq_iff)
  then show ?thesis using advisories_escalate [OF d _ _ run, of 61] d run by auto
qed

text \<open>
  The pressure carries over. Its terms are never negative, whatever reports and measurements come, and
  between two sleep reports that have terms it never falls: a report without terms changes nothing and a
  measurement of the awake floor only raises the disk term.
\<close>

theorem pressure_carries_over:
  assumes "list_all keeps_terms ys"
  shows "terms_ok (run pressure_step new_pressure (xs @ ys)) \<and>
    pressure_value (run pressure_step new_pressure xs) \<le> pressure_value (run pressure_step new_pressure (xs @ ys))"
proof -
  have "terms_ok new_pressure" by (simp add: terms_ok_def new_pressure_def)
  moreover have "list_all (\<lambda>_. True) (xs @ ys)" by (simp add: list_all_iff)
  ultimately have "terms_ok (run pressure_step new_pressure (xs @ ys))" by (rule pressure.run_inv)
  moreover have "pressure_value (run pressure_step new_pressure xs) \<le>
      pressure_value (run pressure_step (run pressure_step new_pressure xs) ys)"
    using assms by (intro waking.run_rank) simp_all
  ultimately show ?thesis by simp
qed

theorem pressure_carries_over_witness:
  "pressure_value (run pressure_step new_pressure [Floor (PFloat (Fin 2))]) \<le>
    pressure_value (run pressure_step new_pressure ([Floor (PFloat (Fin 2))] @ [Report [], Floor (PInt 1)]))"
  using pressure_carries_over [of "[Report [], Floor (PInt 1)]" "[Floor (PFloat (Fin 2))]"] by simp

end
