(* ===== verification/IndividuationStats.thy ===== *)
theory IndividuationStats
  imports PyVal Complex_Main
begin

text \<open>
  Models \<open>kaine/lifecycle/individuation_stats.py\<close>: the energy statistic between a reference and a current
  sample, its stratified sum, the permutation test with its early stop, the spending of significance over
  looks and the decision. Arrays are lists of rows of reals; the random permutations are an argument
  (\<open>perms e k\<close>: for each stratum the \<open>k\<close> permutations drawn after \<open>e\<close> of them).
\<close>

section \<open>Distances and energy\<close>

type_synonym rows = "real list list"

definition dot :: "real list \<Rightarrow> real list \<Rightarrow> real" where
  "dot a b = sum_list (map2 (*) a b)"

definition dist_rows :: "real list \<Rightarrow> real list \<Rightarrow> real" where
  "dist_rows a b = sqrt (max 0 (dot a a + dot b b - 2 * dot a b))"

definition pairwise_distance_matrix :: "rows \<Rightarrow> real list list" where
  "pairwise_distance_matrix a = map (\<lambda>r. map (dist_rows r) a) a"

definition pairwise_mean_distance :: "rows \<Rightarrow> rows \<Rightarrow> real" where
  "pairwise_mean_distance a b =
     (\<Sum>x\<leftarrow>a. \<Sum>y\<leftarrow>b. dist_rows x y) / (real (length a) * real (length b))"

definition within_mean_distance :: "rows \<Rightarrow> real" where
  "within_mean_distance a =
     (\<Sum>x\<leftarrow>a. \<Sum>y\<leftarrow>a. dist_rows x y) / (real (length a) * (real (length a) - 1))"

definition dim_of :: "rows \<Rightarrow> nat" where
  "dim_of a = (case a of [] \<Rightarrow> 0 | r # _ \<Rightarrow> length r)"

definition energy :: "rows \<Rightarrow> rows \<Rightarrow> real" where
  "energy x y = 2 * pairwise_mean_distance x y - within_mean_distance x - within_mean_distance y"

definition energy_u :: "rows \<Rightarrow> rows \<Rightarrow> py_exc + real" where
  "energy_u x y =
     (if dim_of x \<noteq> dim_of y then Inl ValueError
      else if length x < 2 \<or> length y < 2 then Inl ValueError
      else Inr (energy x y))"

definition stratified_energy :: "(rows \<times> rows) list \<Rightarrow> py_exc + real" where
  "stratified_energy strata =
     ebind (emap_list (\<lambda>(x, y). energy_u x y) strata) (\<lambda>es. Inr (sum_list es))"

definition effect_size_h :: "(rows \<times> rows) list \<Rightarrow> py_exc + real" where
  "effect_size_h strata =
     ebind (emap_list (\<lambda>(x, y). ebind (energy_u x y) (\<lambda>e. Inr (e, 2 * pairwise_mean_distance x y))) strata) (\<lambda>es.
       let num = sum_list (map fst es); den = sum_list (map snd es)
       in Inr (if den = 0 then 0 else num / den))"

section \<open>The permutation test\<close>

text \<open>One row of the label matrix: the first \<open>n_b\<close> indices of the permutation are the reference group.\<close>

definition label_row :: "nat \<Rightarrow> nat \<Rightarrow> nat list \<Rightarrow> bool list" where
  "label_row m n_b perm = map (\<lambda>c. c \<in> set (take n_b perm)) [0..<m]"

definition random_label_matrix :: "nat \<Rightarrow> nat \<Rightarrow> nat list list \<Rightarrow> bool list list" where
  "random_label_matrix m n_b ps = map (label_row m n_b) ps"

text \<open>\<open>einsum("km,mn,kn->k", P, D, Q)\<close> for one row.\<close>

definition quad :: "bool list \<Rightarrow> real list list \<Rightarrow> bool list \<Rightarrow> real" where
  "quad p d q = (\<Sum>m<length d. \<Sum>n<length d. of_bool (p ! m) * d ! m ! n * of_bool (q ! n))"

definition ones :: "bool list \<Rightarrow> nat" where
  "ones p = length (filter id p)"

definition row_statistic :: "real list list \<Rightarrow> nat \<Rightarrow> bool list \<Rightarrow> real" where
  "row_statistic d n_b p =
     (let q = map Not p; n_c = length d - n_b in
      2 * quad p d q / (real n_b * real n_c)
      - quad p d p / (real n_b * (real n_b - 1)) - quad q d q / (real n_c * (real n_c - 1)))"

text \<open>The statistic of each of the \<open>k\<close> permutations, summed over the strata; group sizes come from row 0.\<close>

definition batch_statistics :: "real list list list \<Rightarrow> bool list list list \<Rightarrow> py_exc + real list" where
  "batch_statistics ds labels =
     (if ds = [] \<or> labels = [] then Inl ValueError
      else if \<exists>(d, ps) \<in> set (zip ds labels). ones (ps ! 0) < 2 \<or> length d < ones (ps ! 0) + 2 then Inl ValueError
      else Inr (map (\<lambda>r. \<Sum>(d, ps)\<leftarrow>zip ds labels. row_statistic d (ones (ps ! 0)) (ps ! r))
                  [0..<length (labels ! 0)]))"

record permutation_result =
  pt_p_value :: real
  pt_statistic :: real
  pt_permutations :: nat
  pt_exceed :: nat
  pt_planned :: nat
  pt_stopped :: bool

definition p_value :: "nat \<Rightarrow> nat \<Rightarrow> real" where
  "p_value planned exceed = (real exceed + 1) / (real planned + 1)"

text \<open>\<open>batch e k\<close>: the statistics of the next \<open>k\<close> permutations. The state is how many were evaluated and exceeded.\<close>

function perm_loop ::
  "(nat \<Rightarrow> nat \<Rightarrow> py_exc + real list) \<Rightarrow> real \<Rightarrow> nat \<Rightarrow> nat \<Rightarrow> real option \<Rightarrow> nat \<Rightarrow> nat \<Rightarrow> py_exc + (nat \<times> nat \<times> bool)" where
  "perm_loop batch threshold planned bs alpha evaluated exceed =
     (if evaluated < planned \<and> 0 < bs then
        let k = min bs (planned - evaluated) in
        case batch evaluated k of
          Inl e \<Rightarrow> Inl e
        | Inr ts \<Rightarrow>
            let exceed' = exceed + length (filter (\<lambda>t. t \<ge> threshold) ts); evaluated' = evaluated + k in
            if alpha \<noteq> None \<and> p_value planned exceed' > the alpha then Inr (evaluated', exceed', True)
            else perm_loop batch threshold planned bs alpha evaluated' exceed'
      else Inr (evaluated, exceed, False))"
  by pat_completeness auto
termination by (relation "measure (\<lambda>(_, _, planned, _, _, evaluated, _). planned - evaluated)") auto

declare perm_loop.simps [simp del]

definition stratum_ok :: "rows \<times> rows \<Rightarrow> bool" where
  "stratum_ok s \<longleftrightarrow> (case s of (x, y) \<Rightarrow> dim_of x = dim_of y \<and> 2 \<le> length x \<and> 2 \<le> length y)"

definition permuted_batch ::
  "(rows \<times> rows) list \<Rightarrow> (nat \<Rightarrow> nat \<Rightarrow> nat list list list) \<Rightarrow> nat \<Rightarrow> nat \<Rightarrow> py_exc + real list" where
  "permuted_batch strata perms e k =
     batch_statistics (map (\<lambda>(x, y). pairwise_distance_matrix (x @ y)) strata)
       (map2 (\<lambda>(x, y) ps. random_label_matrix (length (x @ y)) (length x) ps) strata (perms e k))"

definition permutation_test ::
  "(rows \<times> rows) list \<Rightarrow> nat \<Rightarrow> (nat \<Rightarrow> nat \<Rightarrow> nat list list list) \<Rightarrow> real option \<Rightarrow> nat \<Rightarrow> py_exc + permutation_result" where
  "permutation_test strata permutations perms alpha bs =
     (if permutations < 1 then Inl ValueError
      else if bs < 1 then Inl ValueError
      else if strata = [] then Inl ValueError
      else if \<not> list_all stratum_ok strata then Inl ValueError
      else ebind (stratified_energy strata) (\<lambda>t_obs.
           let threshold = t_obs - max 1 \<bar>t_obs\<bar> / 10 ^ 12 in
           ebind (perm_loop (permuted_batch strata perms) threshold permutations bs alpha 0 0)
             (\<lambda>(evaluated, exceed, stopped).
               Inr \<lparr>pt_p_value = p_value permutations exceed, pt_statistic = t_obs, pt_permutations = evaluated,
                    pt_exceed = exceed, pt_planned = permutations, pt_stopped = stopped\<rparr>)))"

section \<open>Spending and decision\<close>

definition spending_s :: real where
  "spending_s = 21097 / 10000"

definition spending_alpha :: "nat \<Rightarrow> real \<Rightarrow> py_exc + real" where
  "spending_alpha k alpha_total =
     (if k < 1 then Inl ValueError
      else if \<not> (0 < alpha_total \<and> alpha_total < 1) then Inl ValueError
      else Inr (alpha_total / (spending_s * real (k + 1) * (ln (real (k + 1)))\<^sup>2)))"

definition required_permutations :: "real \<Rightarrow> int \<Rightarrow> int option" where
  "required_permutations alpha_k b_max = (let b = \<lceil>20 / alpha_k\<rceil> in if b > b_max then None else Some b)"

definition decide :: "real \<Rightarrow> real \<Rightarrow> real \<Rightarrow> real \<Rightarrow> bool \<Rightarrow> bool" where
  "decide p alpha_k h effect_min warmed_up \<longleftrightarrow> warmed_up \<and> p \<le> alpha_k \<and> h \<ge> effect_min"

section \<open>The matrix form is the statistic of the relabelled sample\<close>

definition chosen :: "bool list \<Rightarrow> 'a list \<Rightarrow> 'a list" where
  "chosen p xs = map snd (filter fst (zip p xs))"

lemma chosen_simps [simp]:
  "chosen [] xs = []" "chosen p [] = []"
  "chosen (b # p) (x # xs) = (if b then x # chosen p xs else chosen p xs)"
  by (simp_all add: chosen_def)

lemma sum_chosen:
  "length p = length xs \<Longrightarrow> (\<Sum>m<length xs. of_bool (p ! m) * f (xs ! m)) = (\<Sum>x\<leftarrow>chosen p xs. f x :: real)"
proof (induction p xs rule: list_induct2)
  case (Cons b p x xs)
  have "(\<Sum>m<length (x # xs). of_bool ((b # p) ! m) * f ((x # xs) ! m)) =
      of_bool b * f x + (\<Sum>m<length xs. of_bool (p ! m) * f (xs ! m))"
    by (simp only: length_Cons sum.lessThan_Suc_shift nth_Cons_0 nth_Cons_Suc)
  with Cons.IH show ?case by (cases b) simp_all
qed simp

lemma quad_chosen:
  assumes "length p = length xs" and "length q = length xs"
  shows "quad p (pairwise_distance_matrix xs) q = (\<Sum>x\<leftarrow>chosen p xs. \<Sum>y\<leftarrow>chosen q xs. dist_rows x y)"
proof -
  let ?g = "\<lambda>x. \<Sum>y\<leftarrow>chosen q xs. dist_rows x y"
  have "quad p (pairwise_distance_matrix xs) q =
      (\<Sum>m<length xs. of_bool (p ! m) * (\<Sum>n<length xs. of_bool (q ! n) * dist_rows (xs ! m) (xs ! n)))"
    unfolding quad_def sum_distrib_left
    by (simp add: pairwise_distance_matrix_def del: sum_mult_of_bool_eq sum_of_bool_mult_eq)
      (simp only: mult.assoc mult.commute mult.left_commute)
  also have "\<dots> = (\<Sum>m<length xs. of_bool (p ! m) * ?g (xs ! m))"
    by (simp add: sum_chosen [OF assms(2)])
  also have "\<dots> = (\<Sum>x\<leftarrow>chosen p xs. ?g x)" by (rule sum_chosen [OF assms(1)])
  finally show ?thesis .
qed

lemma length_chosen: "length p = length xs \<Longrightarrow> length (chosen p xs) = ones p"
  by (induction p xs rule: list_induct2) (simp_all add: ones_def)

lemma ones_not: "ones (map Not p) = length p - ones p"
proof (induction p)
  case (Cons b p)
  have "ones p \<le> length p" by (simp add: ones_def)
  with Cons show ?case by (simp add: ones_def Suc_diff_le)
qed (simp add: ones_def)

lemma row_statistic_energy:
  assumes "length p = length xs"
  shows "row_statistic (pairwise_distance_matrix xs) (ones p) p = energy (chosen p xs) (chosen (map Not p) xs)"
proof -
  have q: "length (map Not p) = length xs" using assms by simp
  have n: "length (pairwise_distance_matrix xs) - ones p = ones (map Not p)"
    using assms by (simp add: pairwise_distance_matrix_def ones_not)
  show ?thesis
    by (simp add: row_statistic_def Let_def n energy_def pairwise_mean_distance_def within_mean_distance_def
        quad_chosen assms length_chosen length_chosen [OF q])
qed

section \<open>A draw is a relabelling\<close>

definition draws_ok :: "(rows \<times> rows) list \<Rightarrow> (nat \<Rightarrow> nat \<Rightarrow> nat list list list) \<Rightarrow> nat \<Rightarrow> nat \<Rightarrow> bool" where
  "draws_ok strata perms e k \<longleftrightarrow>
     list_all2 (\<lambda>s ps. length ps = k \<and>
       (\<forall>p \<in> set ps. distinct p \<and> set p = {..<length (fst s @ snd s)})) strata (perms e k)"

lemma ones_label_row:
  assumes "distinct p" and "set p = {..<m}" and "n \<le> m"
  shows "ones (label_row m n p) = n"
proof -
  have "length p = m" using assms by (metis card_lessThan distinct_card)
  then have "card (set (take n p)) = n" using assms(1,3) distinct_card [of "take n p"] by (simp add: min_def)
  moreover have "set (take n p) \<subseteq> {..<m}" using set_take_subset [of n p] assms(2) by simp
  then have "{c. c < m \<and> c \<in> set (take n p)} = set (take n p)" by auto
  moreover have "ones (label_row m n p) = card {c. c < m \<and> c \<in> set (take n p)}"
  proof -
    let ?f = "\<lambda>c. c \<in> set (take n p)"
    have "ones (label_row m n p) = length (filter ?f [0..<m])" by (simp add: ones_def label_row_def filter_map comp_def)
    also have "\<dots> = card (set (filter ?f [0..<m]))" by (intro distinct_card [symmetric] distinct_filter distinct_upt)
    also have "set (filter ?f [0..<m]) = {c. c < m \<and> ?f c}" by auto
    finally show ?thesis .
  qed
  ultimately show ?thesis by simp
qed

lemma zip_map2: "zip (map f xs) (map2 g xs ys) = map (\<lambda>(x, y). (f x, g x y)) (zip xs ys)"
  by (induction xs ys rule: list_induct2') auto

definition relabelled :: "(rows \<times> rows) \<times> nat list list \<Rightarrow> nat \<Rightarrow> real" where
  "relabelled s r =
     (let xs = fst (fst s) @ snd (fst s); p = label_row (length xs) (length (fst (fst s))) (snd s ! r)
      in energy (chosen p xs) (chosen (map Not p) xs))"

lemma permuted_batch_relabels:
  assumes "strata \<noteq> []" and "list_all stratum_ok strata" and "draws_ok strata perms e k" and "0 < k"
  shows "permuted_batch strata perms e k =
    Inr (map (\<lambda>r. \<Sum>s\<leftarrow>zip strata (perms e k). relabelled s r) [0..<k])"
proof -
  let ?D = "\<lambda>s. pairwise_distance_matrix (fst s @ snd s)"
  let ?L = "\<lambda>s ps. random_label_matrix (length (fst s @ snd s)) (length (fst s)) ps"
  have len: "length (perms e k) = length strata" using assms(3) by (simp add: draws_ok_def list_all2_lengthD)
  have mem: "length ps = k \<and> stratum_ok s \<and> (\<forall>r < k. ones (?L s ps ! r) = length (fst s) \<and>
      row_statistic (?D s) (length (fst s)) (?L s ps ! r) = relabelled (s, ps) r)"
    if "(s, ps) \<in> set (zip strata (perms e k))" for s ps
  proof -
    from that assms(3) have ps: "length ps = k" "\<forall>p \<in> set ps. distinct p \<and> set p = {..<length (fst s @ snd s)}"
      unfolding draws_ok_def by (auto simp: list_all2_iff)
    from that assms(2) have "stratum_ok s" by (auto simp: list_all_iff dest: set_zip_leftD)
    moreover have "ones (?L s ps ! r) = length (fst s) \<and>
        row_statistic (?D s) (length (fst s)) (?L s ps ! r) = relabelled (s, ps) r" if "r < k" for r
    proof -
      let ?p = "label_row (length (fst s @ snd s)) (length (fst s)) (ps ! r)"
      have p: "?L s ps ! r = ?p" using that ps(1) by (simp add: random_label_matrix_def)
      have "distinct (ps ! r)" "set (ps ! r) = {..<length (fst s @ snd s)}" using ps that by simp_all
      then have "ones ?p = length (fst s)" by (rule ones_label_row) simp
      moreover have "length ?p = length (fst s @ snd s)" by (simp add: label_row_def)
      ultimately show ?thesis using row_statistic_energy [of ?p "fst s @ snd s"] p
        by (simp add: relabelled_def Let_def)
    qed
    ultimately show ?thesis using ps(1) by blast
  qed
  have zipped: "zip (map ?D strata) (map2 ?L strata (perms e k)) =
      map (\<lambda>(s, ps). (?D s, ?L s ps)) (zip strata (perms e k))"
    by (rule zip_map2)
  have guard: "\<not> (ones (?L s ps ! 0) < 2 \<or> length (?D s) < ones (?L s ps ! 0) + 2)"
    if "(s, ps) \<in> set (zip strata (perms e k))" for s ps
    using mem [OF that] assms(4) by (auto simp: stratum_ok_def pairwise_distance_matrix_def split: prod.splits)
  have sums: "(\<Sum>(d, ps)\<leftarrow>zip (map ?D strata) (map2 ?L strata (perms e k)). row_statistic d (ones (ps ! 0)) (ps ! r)) =
      (\<Sum>s\<leftarrow>zip strata (perms e k). relabelled s r)" if "r < k" for r
    unfolding zipped map_map
    using mem assms(4) that by (intro arg_cong [of _ _ sum_list] map_cong refl) (auto simp: comp_def)
  from assms(1) len obtain s ss ps pss where "strata = s # ss" "perms e k = ps # pss"
    by (metis length_0_conv list.exhaust)
  then have k: "length (map2 ?L strata (perms e k) ! 0) = k" "map2 ?L strata (perms e k) \<noteq> []"
    using mem [of s ps] by (simp_all add: random_label_matrix_def)
  have eta: "permuted_batch strata perms e k = batch_statistics (map ?D strata) (map2 ?L strata (perms e k))"
    unfolding permuted_batch_def by (simp add: case_prod_unfold)
  show ?thesis
    unfolding eta batch_statistics_def zipped k(1) using assms(1) k(2) guard sums [unfolded zipped] by auto
qed

section \<open>Stopping early\<close>

definition hits :: "real \<Rightarrow> real list \<Rightarrow> nat" where
  "hits t ts = length (filter (\<lambda>x. x \<ge> t) ts)"

lemma perm_loop_end: "\<not> (i < n \<and> 0 < bs) \<Longrightarrow> perm_loop batch t n bs alpha i x = Inr (i, x, False)"
  by (subst perm_loop.simps) auto

lemma perm_loop_step:
  "i < n \<Longrightarrow> 0 < bs \<Longrightarrow> batch i (min bs (n - i)) = Inr ts \<Longrightarrow>
   perm_loop batch t n bs alpha i x =
     (if alpha \<noteq> None \<and> p_value n (x + hits t ts) > the alpha then Inr (i + min bs (n - i), x + hits t ts, True)
      else perm_loop batch t n bs alpha (i + min bs (n - i)) (x + hits t ts))"
  by (subst perm_loop.simps) (simp add: Let_def hits_def)

lemma perm_loop_raised:
  "i < n \<Longrightarrow> 0 < bs \<Longrightarrow> batch i (min bs (n - i)) = Inl e \<Longrightarrow> perm_loop batch t n bs alpha i x = Inl e"
  by (subst perm_loop.simps) (simp add: Let_def)

lemma perm_loop_full: "perm_loop batch t n bs None i x = Inr (i', x', st) \<Longrightarrow> x \<le> x' \<and> \<not> st"
proof (induction "n - i" arbitrary: i x rule: less_induct)
  case less
  show ?case
  proof (cases "i < n \<and> 0 < bs")
    case False
    with less.prems show ?thesis using perm_loop_end [OF False, of batch t None x] by simp
  next
    case True
    then obtain ts where ts: "batch i (min bs (n - i)) = Inr ts"
      using less.prems perm_loop_raised [of i n bs batch] by (cases "batch i (min bs (n - i))") auto
    have "perm_loop batch t n bs None (i + min bs (n - i)) (x + hits t ts) = Inr (i', x', st)"
      using less.prems perm_loop_step [where batch = batch and i = i and n = n and bs = bs and ts = ts and t = t and alpha = None and x = x] ts True by simp
    moreover have "n - (i + min bs (n - i)) < n - i" using True by (cases "bs \<le> n - i") auto
    ultimately show ?thesis using less.hyps [of "i + min bs (n - i)" "x + hits t ts"] by simp
  qed
qed

lemma p_value_mono: "x \<le> y \<Longrightarrow> p_value n x \<le> p_value n y"
  by (simp add: p_value_def divide_right_mono)

lemma perm_loop_early:
  "perm_loop batch t n bs (Some a) i x = Inr (i1, x1, st) \<Longrightarrow> perm_loop batch t n bs None i x = Inr (i2, x2, st2) \<Longrightarrow>
   if st then a < p_value n x1 \<and> x1 \<le> x2 else i1 = i2 \<and> x1 = x2"
proof (induction "n - i" arbitrary: i x rule: less_induct)
  case less
  show ?case
  proof (cases "i < n \<and> 0 < bs")
    case False
    with less.prems show ?thesis
      using perm_loop_end [OF False, of batch t None x] perm_loop_end [OF False, of batch t "Some a" x] by simp
  next
    case True
    then obtain ts where ts: "batch i (min bs (n - i)) = Inr ts"
      using less.prems(1) perm_loop_raised [of i n bs batch] by (cases "batch i (min bs (n - i))") auto
    let ?i = "i + min bs (n - i)" and ?x = "x + hits t ts"
    have full: "perm_loop batch t n bs None ?i ?x = Inr (i2, x2, st2)"
      using less.prems(2) perm_loop_step [where batch = batch and i = i and n = n and bs = bs and ts = ts and t = t and alpha = None and x = x] ts True by simp
    show ?thesis
    proof (cases "a < p_value n ?x")
      case True
      with less.prems(1) \<open>i < n \<and> 0 < bs\<close> have "x1 = ?x" "st"
        using perm_loop_step [where batch = batch and i = i and n = n and bs = bs and ts = ts and t = t and alpha = "Some a" and x = x] ts \<open>i < n \<and> 0 < bs\<close> by simp_all
      with True perm_loop_full [OF full] show ?thesis by simp
    next
      case False
      with less.prems(1) True have "perm_loop batch t n bs (Some a) ?i ?x = Inr (i1, x1, st)"
        using perm_loop_step [where batch = batch and i = i and n = n and bs = bs and ts = ts and t = t and alpha = "Some a" and x = x] ts \<open>i < n \<and> 0 < bs\<close> by simp
      moreover have "n - ?i < n - i" using \<open>i < n \<and> 0 < bs\<close> by (cases "bs \<le> n - i") auto
      ultimately show ?thesis using less.hyps [OF _ _ full] by blast
    qed
  qed
qed

section \<open>The significance spent\<close>

lemma ln_2_ge: "2 / 3 \<le> ln (2::real)"
proof -
  have "exp (1 / 12) \<le> 1 + 1 / 12 + (1 / 12 :: real)\<^sup>2" by (rule exp_bound) simp_all
  then have "exp (1 / 12 :: real) ^ 8 \<le> (157 / 144) ^ 8" by (intro power_mono) (simp_all add: power2_eq_square)
  moreover have "(157 / 144 :: real) ^ 8 \<le> 2" by (simp add: power_divide)
  moreover have "exp (1 / 12 :: real) ^ 8 = exp (2 / 3)" by (simp flip: exp_of_nat_mult)
  ultimately have "exp (2 / 3 :: real) \<le> 2" by linarith
  then show ?thesis using ln_ge_iff [of 2 "2 / 3"] by simp
qed

definition look_share :: "nat \<Rightarrow> real" where
  "look_share n = 1 / (real n * (ln (real n))\<^sup>2)"

lemma look_share_step:
  assumes "3 \<le> n"
  shows "look_share n \<le> 1 / ln (real (n - 1)) - 1 / ln (real n)"
proof -
  let ?a = "ln (real (n - 1))" and ?b = "ln (real n)"
  have pos: "0 < ?a" "?a \<le> ?b" "0 < ?b" using assms by simp_all
  have "?a - ?b = ln (1 - 1 / real n)"
  proof -
    have "1 - 1 / real n = real (n - 1) / real n" using assms by (simp add: field_simps of_nat_diff)
    moreover have "ln (real (n - 1) / real n) = ?a - ?b" using assms by (simp add: ln_div)
    ultimately show ?thesis by simp
  qed
  also have "\<dots> \<le> - (1 / real n)"
    using ln_add_one_self_le_self2 [of "- 1 / real n"] assms by simp
  finally have "1 / real n \<le> ?b - ?a" by simp
  then have "1 / real n / (?b * ?b) \<le> (?b - ?a) / (?b * ?b)" using pos by (intro divide_right_mono) auto
  also have "\<dots> \<le> (?b - ?a) / (?a * ?b)" using pos by (intro divide_left_mono mult_right_mono) auto
  also have "\<dots> = 1 / ?a - 1 / ?b" using pos by (simp add: field_simps)
  finally show ?thesis by (simp add: look_share_def power2_eq_square)
qed

lemma look_shares:
  "1 \<le> m \<Longrightarrow> (\<Sum>k = 1..m. look_share (k + 1)) \<le> look_share 2 + 1 / ln 2 - 1 / ln (real (m + 1))"
proof (induction m rule: nat_induct_at_least)
  case base
  have "(\<Sum>k = 1..1. look_share (k + 1)) = look_share 2" by (simp add: numeral_2_eq_2)
  then show ?case by simp
next
  case (Suc m)
  have "look_share (Suc m + 1) \<le> 1 / ln (real (m + 1)) - 1 / ln (real (Suc m + 1))"
    using look_share_step [of "Suc m + 1"] Suc.hyps by simp
  with Suc.IH show ?case by simp
qed

lemma look_shares_bound: "(\<Sum>k = 1..m. look_share (k + 1)) \<le> 21 / 8"
proof (cases "1 \<le> m")
  case True
  have l: "2 / 3 \<le> ln (2::real)" by (rule ln_2_ge)
  then have "(2 / 3)\<^sup>2 \<le> (ln (2::real))\<^sup>2" by (intro power_mono) simp_all
  then have "1 / (2 * (ln (2::real))\<^sup>2) \<le> 1 / (2 * (2 / 3)\<^sup>2)" by (intro divide_left_mono) simp_all
  then have "look_share 2 \<le> 9 / 8" by (simp add: look_share_def power2_eq_square)
  moreover have "1 / ln (2::real) \<le> 1 / (2 / 3)" using l by (intro divide_left_mono) simp_all
  then have "1 / ln (2::real) \<le> 3 / 2" by (simp only: divide_divide_eq_right mult_1)
  moreover have "0 \<le> 1 / ln (real (m + 1))" using True by simp
  ultimately show ?thesis using look_shares [OF True] by linarith
qed simp

lemma spending_alpha_share:
  "spending_alpha k a = Inr x \<Longrightarrow> 1 \<le> k \<and> 0 < a \<and> a < 1 \<and> x = a / spending_s * look_share (k + 1)"
  by (auto simp: spending_alpha_def look_share_def split: if_splits)

lemma stratified_energy_returns: "list_all stratum_ok strata \<Longrightarrow> \<exists>x. stratified_energy strata = Inr x"
proof -
  have "list_all stratum_ok strata \<Longrightarrow> \<exists>es. emap_list (\<lambda>(x, y). energy_u x y) strata = Inr es"
    by (induction strata) (auto simp: stratum_ok_def energy_u_def)
  then show "list_all stratum_ok strata \<Longrightarrow> ?thesis" by (auto simp: stratified_energy_def)
qed

lemma perm_loop_returns:
  assumes "\<forall>e k. 0 < k \<longrightarrow> (\<exists>ts. batch e k = Inr ts)"
  shows "\<exists>r. perm_loop batch t n bs alpha i x = Inr r"
proof (induction "n - i" arbitrary: i x rule: less_induct)
  case less
  show ?case
  proof (cases "i < n \<and> 0 < bs")
    case True
    then obtain ts where ts: "batch i (min bs (n - i)) = Inr ts" using assms by fastforce
    have "n - (i + min bs (n - i)) < n - i" using True by (cases "bs \<le> n - i") auto
    then obtain r where "perm_loop batch t n bs alpha (i + min bs (n - i)) (x + hits t ts) = Inr r"
      using less.hyps by blast
    with True show ?thesis using perm_loop_step [where batch = batch and i = i and n = n and bs = bs and ts = ts] ts by (cases r) auto
  qed (use perm_loop_end in blast)
qed

text \<open>The test returns for valid strata, whatever the permutations are.\<close>

lemma permutation_test_returns:
  assumes "1 \<le> n" "1 \<le> bs" "strata \<noteq> []" "list_all stratum_ok strata" "\<forall>e k. 0 < k \<longrightarrow> draws_ok strata perms e k"
  shows "\<exists>r. permutation_test strata n perms alpha bs = Inr r"
proof -
  obtain obs where obs: "stratified_energy strata = Inr obs" using stratified_energy_returns [OF assms(4)] by blast
  have "\<exists>ts. permuted_batch strata perms e k = Inr ts" if "0 < k" for e k
    using permuted_batch_relabels [OF assms(3,4)] assms(5) that by blast
  then obtain i x st where "perm_loop (permuted_batch strata perms) (obs - max 1 \<bar>obs\<bar> / 10 ^ 12) n bs alpha 0 0 = Inr (i, x, st)"
    using perm_loop_returns [where batch = "permuted_batch strata perms"] by (metis prod_cases3)
  then show ?thesis using assms obs by (simp add: permutation_test_def Let_def)
qed

definition spent :: "nat \<Rightarrow> real \<Rightarrow> real" where
  "spent m a = (\<Sum>k = 1..m. case spending_alpha k a of Inr x \<Rightarrow> x | Inl _ \<Rightarrow> 0)"

lemma spending_total:
  assumes "0 < a" and "a < 1"
  shows "(\<Sum>k = 1..m. case spending_alpha k a of Inr x \<Rightarrow> x | Inl _ \<Rightarrow> 0) < 5 / 4 * a"
proof -
  have each: "(case spending_alpha k a of Inr x \<Rightarrow> x | Inl _ \<Rightarrow> 0) = a / spending_s * look_share (k + 1)"
    if "k \<in> {1..m}" for k
    using that assms by (simp add: spending_alpha_def look_share_def)
  have "(\<Sum>k = 1..m. case spending_alpha k a of Inr x \<Rightarrow> x | Inl _ \<Rightarrow> 0) =
      a / spending_s * (\<Sum>k = 1..m. look_share (k + 1))"
    unfolding sum_distrib_left by (rule sum.cong [OF refl each])
  also have "\<dots> \<le> a / spending_s * (21 / 8)"
    using assms by (intro mult_left_mono look_shares_bound) (simp_all add: spending_s_def)
  also have "\<dots> < 5 / 4 * a" using assms by (simp add: spending_s_def)
  finally show ?thesis .
qed

section \<open>Properties\<close>

definition sample_strata :: "(rows \<times> rows) list" where
  "sample_strata = [([[0, 0], [0, 1]], [[1, 0], [1, 1]])]"

definition sample_perms :: "nat \<Rightarrow> nat \<Rightarrow> nat list list list" where
  "sample_perms e k = [replicate k [0, 1, 2, 3]]"

lemma sample_strata_ok: "list_all stratum_ok sample_strata" "sample_strata \<noteq> []"
  by (simp_all add: sample_strata_def stratum_ok_def dim_of_def)

lemma sample_draws: "draws_ok sample_strata sample_perms e k"
  by (auto simp: draws_ok_def sample_strata_def sample_perms_def)

text \<open>
  C17. The matrix form of the permutation test computes the energy statistic of the relabelled samples. For
  valid strata and draws that are permutations of the pooled rows, the vectorised batch raises nothing
  and its r-th value is the sum over the strata of the energy between the rows the r-th permutation puts
  into the reference group and all the others.
\<close>

theorem permuted_statistics_are_energies:
  assumes "strata \<noteq> []" and "list_all stratum_ok strata" and "draws_ok strata perms e k" and "0 < k"
  shows "\<exists>ts. permuted_batch strata perms e k = Inr ts \<and> length ts = k \<and>
    (\<forall>r < k. ts ! r =
      (\<Sum>((x, y), ps)\<leftarrow>zip strata (perms e k).
         let p = label_row (length (x @ y)) (length x) (ps ! r)
         in energy (chosen p (x @ y)) (chosen (map Not p) (x @ y))))"
proof -
  have "permuted_batch strata perms e k =
      Inr (map (\<lambda>r. \<Sum>s\<leftarrow>zip strata (perms e k). relabelled s r) [0..<k])"
    by (rule permuted_batch_relabels [OF assms])
  moreover have "relabelled s r = (case s of ((x, y), ps) \<Rightarrow> let p = label_row (length (x @ y)) (length x) (ps ! r)
         in energy (chosen p (x @ y)) (chosen (map Not p) (x @ y)))" for s r
    by (cases s; cases "fst s") (simp add: relabelled_def Let_def)
  ultimately show ?thesis by (simp add: case_prod_unfold)
qed

theorem permuted_statistics_are_energies_witness:
  "\<exists>ts. permuted_batch sample_strata sample_perms 0 2 = Inr ts \<and> length ts = 2"
  using permuted_statistics_are_energies [OF sample_strata_ok(2,1) sample_draws, of 2 0] by auto

text \<open>
  C18. Stopping early never changes the decision. Whatever the permutations are, the test that stops at the
  first batch whose lower bound exceeds alpha is significant exactly when the test that evaluates them
  all is; when it did not stop, the two results are the same; and no test reports a p-value below one
  over the planned permutations plus one.
\<close>

theorem early_stop_keeps_decision:
  assumes "permutation_test strata n perms (Some alpha) bs = Inr r1" and "permutation_test strata n perms None bs = Inr r2"
  shows "decide (pt_p_value r1) alpha h effect_min warm = decide (pt_p_value r2) alpha h effect_min warm \<and>
    (\<not> pt_stopped r1 \<longrightarrow> r1 = r2) \<and> 1 / (real n + 1) \<le> pt_p_value r1"
proof -
  define t where "t = (\<lambda>x::real. x - max 1 \<bar>x\<bar> / 10 ^ 12)"
  have valid: "\<not> n < 1" "\<not> bs < 1" "strata \<noteq> []" "list_all stratum_ok strata"
    using assms(1) by (simp_all add: permutation_test_def split: if_splits)
  obtain obs where obs: "stratified_energy strata = Inr obs"
    using assms(1) valid by (cases "stratified_energy strata") (simp_all add: permutation_test_def)
  let ?loop = "\<lambda>a. perm_loop (permuted_batch strata perms) (t obs) n bs a 0 0"
  obtain i1 x1 st where one: "?loop (Some alpha) = Inr (i1, x1, st)"
      "r1 = \<lparr>pt_p_value = p_value n x1, pt_statistic = obs, pt_permutations = i1, pt_exceed = x1, pt_planned = n, pt_stopped = st\<rparr>"
    using assms(1) valid obs by (cases "?loop (Some alpha)") (auto simp: permutation_test_def t_def Let_def)
  obtain i2 x2 st2 where two: "?loop None = Inr (i2, x2, st2)"
      "r2 = \<lparr>pt_p_value = p_value n x2, pt_statistic = obs, pt_permutations = i2, pt_exceed = x2, pt_planned = n, pt_stopped = st2\<rparr>"
    using assms(2) valid obs by (cases "?loop None") (auto simp: permutation_test_def t_def Let_def)
  have early: "if st then alpha < p_value n x1 \<and> x1 \<le> x2 else i1 = i2 \<and> x1 = x2" and "\<not> st2"
    using perm_loop_early [OF one(1) two(1)] perm_loop_full [OF two(1)] by blast+
  have "1 / (real n + 1) \<le> p_value n x1" unfolding p_value_def by (intro divide_right_mono) simp_all
  then show ?thesis
    using one(2) two(2) early \<open>\<not> st2\<close> p_value_mono [of x1 x2 n] by (cases st) (auto simp: decide_def)
qed

lemma sample_test: "\<exists>r. permutation_test sample_strata 1 sample_perms a 1 = Inr r"
  using permutation_test_returns [OF _ _ sample_strata_ok(2,1)] sample_draws by simp

theorem early_stop_keeps_decision_witness:
  "\<exists>r1 r2. permutation_test sample_strata 1 sample_perms (Some (1 / 100)) 1 = Inr r1 \<and>
    permutation_test sample_strata 1 sample_perms None 1 = Inr r2 \<and>
    decide (pt_p_value r1) (1 / 100) 1 0 True = decide (pt_p_value r2) (1 / 100) 1 0 True"
proof -
  obtain r1 r2 where "permutation_test sample_strata 1 sample_perms (Some (1 / 100)) 1 = Inr r1"
      "permutation_test sample_strata 1 sample_perms None 1 = Inr r2"
    using sample_test by blast
  with early_stop_keeps_decision [of sample_strata 1 sample_perms "1 / 100" 1 r1 r2 1 0 True] show ?thesis by blast
qed

text \<open>
  The significance spent over any number of looks stays below five quarters of the total, and every look
  that is given permutations can be significant: its smallest possible p-value is at most its share.
  (The comment claims the total itself; the constant is below the infinite sum it is said to bound.)
\<close>

theorem spending_is_bounded:
  assumes "0 < a" and "a < 1"
  shows "(\<Sum>k = 1..m. case spending_alpha k a of Inr x \<Rightarrow> x | Inl _ \<Rightarrow> 0) < 5 / 4 * a \<and>
    (\<forall>k x b. spending_alpha k a = Inr x \<and> required_permutations x b_max = Some b \<longrightarrow>
       0 < x \<and> 0 < b \<and> b \<le> b_max \<and> p_value (nat b) 0 \<le> x)"
proof -
  have "0 < x \<and> 0 < b \<and> b \<le> b_max \<and> p_value (nat b) 0 \<le> x"
    if "spending_alpha k a = Inr x" and "required_permutations x b_max = Some b" for k x b
  proof -
    from spending_alpha_share [OF that(1)] have "1 \<le> k" "x = a / spending_s * look_share (k + 1)" by blast+
    then have x: "0 < x" using assms by (simp add: spending_s_def look_share_def)
    from that(2) have b: "b = \<lceil>20 / x\<rceil>" "b \<le> b_max" by (auto simp: required_permutations_def Let_def split: if_splits)
    have "20 / x \<le> real_of_int b" unfolding b by (rule le_of_int_ceiling)
    moreover have "0 < 20 / x" using x by simp
    ultimately have "0 < real_of_int b" "20 / x \<le> real_of_int b" by linarith+
    then have "0 < b" "20 \<le> real_of_int b * x" using x by (simp_all add: pos_divide_le_eq)
    then have "1 \<le> x * (real (nat b) + 1)" using x by (simp add: algebra_simps)
    then have "p_value (nat b) 0 \<le> x" by (simp add: p_value_def pos_divide_le_eq)
    with x b \<open>0 < b\<close> show ?thesis by simp
  qed
  with spending_total [OF assms] show ?thesis by blast
qed

theorem spending_is_bounded_witness:
  "(\<Sum>k = 1..100. case spending_alpha k (1 / 20) of Inr x \<Rightarrow> x | Inl _ \<Rightarrow> 0) < 5 / 4 * (1 / 20 :: real)"
  using spending_is_bounded [of "1 / 20" 100] by simp

end
