(* ===== verification/Individuation.thy ===== *)
theory Individuation
  imports IndividuationStats OffHost
begin

text \<open>
  Models the individuation instrument: \<open>kaine/lifecycle/individuation_store.py\<close> (the ledger with its
  latch, the evidence drawn from it), \<open>kaine/cycle/individuation_producer.py\<close> (capturing a reference,
  one look, finishing an interrupted capture), of \<open>individuation_scheduler.py\<close> its changes of the
  ledger, and \<open>kaine/lifecycle/divergence.py\<close> (the verdict on an entity). A stored file is missing, cannot
  be read, or holds a value; the ledger's JSON form is modelled, the reference is held as parsed. The
  language organ, the embedder, encryption, hashing and the clock are arguments: an environment says
  what each of them gave. Texts of a report and of a summary are left out.
\<close>

datatype 'a stored = Missing | Garbled | Stored 'a

datatype store_error =
    LedgerUnreadable | LedgerRegression | ReferenceExists | ReferenceUnreadable
  | InvalidRequest | StoreOverflow

section \<open>The ledger\<close>

record ledger =
  lg_reference :: pyval
  lg_looks :: int
  lg_alpha :: real
  lg_digest :: "string option"
  lg_lived :: real
  lg_ticks :: int
  lg_individuated :: bool
  lg_latched_at :: "string option"
  lg_latched_report :: "string option"
  lg_inconclusive_since :: "string option"
  lg_inconclusive_alerted :: bool
  lg_last_look_at :: "string option"
  lg_conditions_alerted :: pyval
  lg_last_reason :: "string option"

definition new_ledger :: "string \<Rightarrow> string \<Rightarrow> ledger" where
  "new_ledger ref digest =
     \<lparr>lg_reference = PStr ref, lg_looks = 0, lg_alpha = 0, lg_digest = Some digest, lg_lived = 0, lg_ticks = 0,
      lg_individuated = False, lg_latched_at = None, lg_latched_report = None, lg_inconclusive_since = None,
      lg_inconclusive_alerted = False, lg_last_look_at = None, lg_conditions_alerted = PNone, lg_last_reason = None\<rparr>"

fun opt_str :: "string option \<Rightarrow> pyval" where
  "opt_str None = PNone"
| "opt_str (Some s) = PStr s"

definition ledger_to_dict :: "ledger \<Rightarrow> pydict" where
  "ledger_to_dict l =
     [(''reference_id'', lg_reference l), (''looks_completed'', PInt (lg_looks l)),
      (''alpha_spent'', PFloat (Fin (lg_alpha l))), (''last_look_conditions_digest'', opt_str (lg_digest l)),
      (''lived_seconds'', PFloat (Fin (lg_lived l))), (''lived_ticks'', PInt (lg_ticks l)),
      (''individuated'', PBool (lg_individuated l)), (''latched_at'', opt_str (lg_latched_at l)),
      (''latched_report_id'', opt_str (lg_latched_report l)),
      (''inconclusive_since'', opt_str (lg_inconclusive_since l)),
      (''inconclusive_alerted'', PBool (lg_inconclusive_alerted l)),
      (''last_look_at'', opt_str (lg_last_look_at l)),
      (''conditions_alerted_reference'', lg_conditions_alerted l),
      (''last_inconclusive_reason'', opt_str (lg_last_reason l))]"

text \<open>
  \<open>isinstance(v, int)\<close>, which a bool is too; a finite number, where an integer too large for a float
  makes \<open>isfinite\<close> raise OverflowError.
\<close>

fun as_count :: "pyval \<Rightarrow> store_error + int" where
  "as_count (PInt n) = (if n < 0 then Inl LedgerUnreadable else Inr n)"
| "as_count (PBool b) = Inr (if b then 1 else 0)"
| "as_count _ = Inl LedgerUnreadable"

fun as_finite :: "pyval \<Rightarrow> store_error + real" where
  "as_finite (PInt n) = (case fl_of_int n of Inr (Fin r) \<Rightarrow> Inr r | _ \<Rightarrow> Inl StoreOverflow)"
| "as_finite (PBool b) = Inr (if b then 1 else 0)"
| "as_finite (PFloat (Fin r)) = Inr r"
| "as_finite _ = Inl LedgerUnreadable"

fun as_bool :: "pyval \<Rightarrow> store_error + bool" where
  "as_bool (PBool b) = Inr b"
| "as_bool _ = Inl LedgerUnreadable"

fun as_opt_str :: "pyval \<Rightarrow> store_error + string option" where
  "as_opt_str PNone = Inr None"
| "as_opt_str (PStr s) = Inr (Some s)"
| "as_opt_str _ = Inl LedgerUnreadable"

definition check :: "bool \<Rightarrow> 'a \<Rightarrow> store_error + 'a" where
  "check b x = (if b then Inr x else Inl LedgerUnreadable)"

text \<open>The sign of an integer is checked before \<open>isfinite\<close>.\<close>

fun as_lived :: "pyval \<Rightarrow> store_error + real" where
  "as_lived (PInt n) = (if n < 0 then Inl LedgerUnreadable else as_finite (PInt n))"
| "as_lived v = ebind (as_finite v) (\<lambda>x. check (0 \<le> x) x)"

definition ledger_from_dict :: "pydict \<Rightarrow> store_error + ledger" where
  "ledger_from_dict d =
     (if \<exists>k \<in> {''reference_id'', ''looks_completed'', ''alpha_spent'', ''lived_seconds'', ''lived_ticks''}. map_of d k = None
      then Inl LedgerUnreadable
      else
        ebind (as_count (dget d ''looks_completed'' PNone)) (\<lambda>looks.
        ebind (ebind (as_finite (dget d ''alpha_spent'' PNone)) (\<lambda>x. check (0 \<le> x \<and> x \<le> 1) x)) (\<lambda>alpha.
        ebind (as_lived (dget d ''lived_seconds'' PNone)) (\<lambda>lived.
        ebind (as_count (dget d ''lived_ticks'' PNone)) (\<lambda>ticks.
        ebind (as_bool (dget d ''individuated'' (PBool False))) (\<lambda>ind.
        ebind (as_bool (dget d ''inconclusive_alerted'' (PBool False))) (\<lambda>alerted.
        ebind (as_opt_str (dget d ''last_look_conditions_digest'' PNone)) (\<lambda>digest.
        ebind (as_opt_str (dget d ''latched_at'' PNone)) (\<lambda>lat.
        ebind (as_opt_str (dget d ''latched_report_id'' PNone)) (\<lambda>lrep.
        ebind (as_opt_str (dget d ''inconclusive_since'' PNone)) (\<lambda>since.
        ebind (as_opt_str (dget d ''last_look_at'' PNone)) (\<lambda>look.
        ebind (as_opt_str (dget d ''conditions_alerted_reference'' PNone)) (\<lambda>cond.
        ebind (as_opt_str (dget d ''last_inconclusive_reason'' PNone)) (\<lambda>reason.
          Inr \<lparr>lg_reference = dget d ''reference_id'' PNone, lg_looks = looks, lg_alpha = alpha, lg_digest = digest,
               lg_lived = lived, lg_ticks = ticks, lg_individuated = ind, lg_latched_at = lat,
               lg_latched_report = lrep, lg_inconclusive_since = since, lg_inconclusive_alerted = alerted,
               lg_last_look_at = look, lg_conditions_alerted = opt_str cond, lg_last_reason = reason\<rparr>))))))))))))))"

fun load_ledger :: "pydict stored \<Rightarrow> store_error + ledger option" where
  "load_ledger Missing = Inr None"
| "load_ledger Garbled = Inl LedgerUnreadable"
| "load_ledger (Stored d) = ebind (ledger_from_dict d) (\<lambda>l. Inr (Some l))"

definition regresses :: "ledger \<Rightarrow> ledger \<Rightarrow> bool" where
  "regresses old new \<longleftrightarrow>
     lg_looks new < lg_looks old \<or> lg_alpha new < lg_alpha old - 1 / 10 ^ 15 \<or>
     (lg_individuated old \<and> \<not> lg_individuated new) \<or> lg_ticks new < lg_ticks old \<or>
     lg_lived new < lg_lived old - 1 / 10 ^ 9"

definition save_ledger :: "ledger \<Rightarrow> pydict stored \<Rightarrow> store_error + pydict stored" where
  "save_ledger new f =
     (case load_ledger f of
        Inl e \<Rightarrow> Inl e
      | Inr None \<Rightarrow> Inr (Stored (ledger_to_dict new))
      | Inr (Some old) \<Rightarrow> if regresses old new then Inl LedgerRegression else Inr (Stored (ledger_to_dict new)))"

section \<open>The reference and the reports\<close>

record reference =
  rf_id :: string
  rf_kind :: string
  rf_captured_at :: string
  rf_battery_digest :: string
  rf_conditions :: "pydict option"
  rf_digest :: string
  rf_samples :: "string list list"

fun load_reference :: "reference stored \<Rightarrow> store_error + reference option" where
  "load_reference Missing = Inr None"
| "load_reference Garbled = Inl ReferenceUnreadable"
| "load_reference (Stored r) = Inr (Some r)"

definition save_reference :: "reference \<Rightarrow> bool \<Rightarrow> reference stored \<Rightarrow> store_error + reference stored" where
  "save_reference doc overwrite f =
     (if f \<noteq> Missing \<and> \<not> overwrite
      then (case load_reference f of Inl e \<Rightarrow> Inl e | Inr _ \<Rightarrow> Inl ReferenceExists)
      else Inr (Stored doc))"

record report =
  rp_scored :: bool
  rp_reason :: string
  rp_reference :: string
  rp_look :: "int option"
  rp_ts :: string
  rp_p :: real
  rp_alpha :: real
  rp_h :: real
  rp_significant :: bool
  rp_latched :: bool

record store =
  st_ledger :: "pydict stored"
  st_reference :: "reference stored"
  st_reports :: "report list"

definition inconclusive_reasons :: "string list" where
  "inconclusive_reasons =
     [''ledger_unreadable'', ''reference_unreadable'', ''no_reference'', ''ledger_missing'', ''battery_changed'',
      ''conditions_changed'', ''conditions_unreadable'', ''alpha_unresolvable'', ''conditioning_changed_mid_run'',
      ''embedding_failed'', ''embedder_not_semantic'', ''adapter_not_applied'', ''request_failed'', ''organ_resting'',
      ''no_content'', ''self_model_not_ready'', ''disclosure_not_ready'', ''organ_unloaded'', ''asleep'', ''paused'',
      ''deadline_exceeded'', ''conditioning_unreadable'', ''ledger_reference_mismatch'', ''statistics_failed'',
      ''unclassified_failure'']"

definition known_reason :: "string \<Rightarrow> string" where
  "known_reason r = (if r \<in> set inconclusive_reasons then r else ''unclassified_failure'')"

section \<open>One look\<close>

record settings =
  ps_n_reference :: nat
  ps_n_current :: nat
  ps_alpha_total :: real
  ps_b_max :: int
  ps_effect_min :: real

text \<open>
  What the parts around the core gave: \<open>None\<close> or \<open>Inl\<close> where they raised. \<open>pe_abort i\<close> is asked before the
  \<open>i\<close>-th sample, \<open>pe_sample i\<close> is the sampler's answer, a text or the label of a failure.
\<close>

record probe_env =
  pe_refresh_raises :: bool
  pe_battery :: "string list"
  pe_battery_digest :: string
  pe_conditions :: "pydict option"
  pe_digest_before :: "string option"
  pe_digest_after :: "string option"
  pe_abort :: "nat \<Rightarrow> string option"
  pe_sample :: "nat \<Rightarrow> string + string"
  pe_embed :: "string \<Rightarrow> real list option"
  pe_perms :: "nat \<Rightarrow> nat \<Rightarrow> nat list list list"
  pe_now :: string
  pe_id :: string
  pe_report_raises :: bool
  pe_copy_raises :: bool

definition not_embedder :: "string \<Rightarrow> bool" where
  "not_embedder k \<longleftrightarrow> take 8 k \<noteq> ''embedder''"

definition condition_changes :: "pydict \<Rightarrow> pydict \<Rightarrow> string list" where
  "condition_changes old new =
     sort (filter (\<lambda>k. not_embedder k \<and> map_of old k \<noteq> map_of new k)
       (remdups (map fst old @ map fst new)))"

fun sample_prompt :: "probe_env \<Rightarrow> nat \<Rightarrow> nat \<Rightarrow> string + string list" where
  "sample_prompt e i 0 = Inr []"
| "sample_prompt e i (Suc n) =
     (case pe_abort e i of
        Some r \<Rightarrow> Inl (known_reason r)
      | None \<Rightarrow>
          (case pe_sample e i of
             Inl r \<Rightarrow> Inl (known_reason r)
           | Inr t \<Rightarrow> (case sample_prompt e (Suc i) n of Inl r \<Rightarrow> Inl r | Inr ts \<Rightarrow> Inr (t # ts))))"

fun sample_battery :: "probe_env \<Rightarrow> nat \<Rightarrow> nat \<Rightarrow> string list \<Rightarrow> string + string list list" where
  "sample_battery e n i [] = Inr []"
| "sample_battery e n i (p # ps) =
     (case sample_prompt e i n of
        Inl r \<Rightarrow> Inl r
      | Inr ts \<Rightarrow> (case sample_battery e n (i + n) ps of Inl r \<Rightarrow> Inl r | Inr tss \<Rightarrow> Inr (ts # tss)))"

definition normalize_vec :: "real list \<Rightarrow> real list option" where
  "normalize_vec v =
     (let n = sqrt (dot v v) in if v = [] then None else if n = 0 then None else Some (map (\<lambda>x. x / n) v))"

text \<open>\<open>np.stack\<close> takes at least one row, and rows of one length.\<close>

definition stack :: "real list option list \<Rightarrow> rows option" where
  "stack vs =
     (if vs = [] \<or> None \<in> set vs then None
      else let rs = map the vs in if \<exists>r \<in> set rs. length r \<noteq> length (hd rs) then None else Some rs)"

definition embed_all :: "probe_env \<Rightarrow> string list list \<Rightarrow> rows list option" where
  "embed_all e tss =
     (let vs = map (\<lambda>ts. stack (map (\<lambda>t. Option.bind (pe_embed e t) normalize_vec) ts)) tss
      in if None \<in> set vs then None else Some (map the vs))"

datatype look_result = Scored bool | Inconclusive string | Unchanged

definition inconclusive :: "probe_env \<Rightarrow> string \<Rightarrow> string \<Rightarrow> int option \<Rightarrow> store \<Rightarrow> store" where
  "inconclusive e reason ref k s =
     (if pe_report_raises e then s
      else s\<lparr>st_reports := st_reports s @
        [\<lparr>rp_scored = False, rp_reason = reason, rp_reference = ref, rp_look = k, rp_ts = pe_now e, rp_p = 0, rp_alpha = 0,
          rp_h = 0, rp_significant = False, rp_latched = False\<rparr>]\<rparr>)"

text \<open>Steps 7 to 10: sampling, the check for a change in between, embedding, statistics.\<close>

definition measure_look ::
  "settings \<Rightarrow> probe_env \<Rightarrow> bool \<Rightarrow> reference \<Rightarrow> string \<Rightarrow> real \<Rightarrow> nat \<Rightarrow> string + (real \<times> real \<times> bool)" where
  "measure_look ps e warm ref before alpha_k b =
     (case sample_battery e (ps_n_current ps) 0 (pe_battery e) of
        Inl r \<Rightarrow> Inl r
      | Inr current \<Rightarrow>
          (case pe_digest_after e of
             None \<Rightarrow> Inl ''conditioning_unreadable''
           | Some after \<Rightarrow>
               if after \<noteq> before then Inl ''conditioning_changed_mid_run''
               else (case (embed_all e (rf_samples ref), embed_all e current) of
                       (Some xs, Some ys) \<Rightarrow>
                         (case (permutation_test (zip xs ys) b (pe_perms e) (Some alpha_k) 4096, effect_size_h (zip xs ys)) of
                            (Inr res, Inr h) \<Rightarrow>
                              Inr (pt_p_value res, h, decide (pt_p_value res) alpha_k h (ps_effect_min ps) warm)
                          | _ \<Rightarrow> Inl ''statistics_failed'')
                     | _ \<Rightarrow> Inl ''embedding_failed'')))"

definition score_ledger ::
  "probe_env \<Rightarrow> string \<Rightarrow> real \<Rightarrow> bool \<Rightarrow> real \<Rightarrow> int \<Rightarrow> ledger \<Rightarrow> ledger" where
  "score_ledger e before alpha_k significant lived ticks l =
     (let l1 = l\<lparr>lg_looks := lg_looks l + 1, lg_alpha := lg_alpha l + alpha_k, lg_digest := Some before,
                 lg_lived := max (lg_lived l) lived, lg_ticks := max (lg_ticks l) ticks,
                 lg_inconclusive_since := None, lg_inconclusive_alerted := False, lg_last_look_at := Some (pe_now e)\<rparr>
      in if significant \<and> \<not> lg_individuated l
         then l1\<lparr>lg_individuated := True, lg_latched_at := Some (pe_now e), lg_latched_report := Some (pe_id e)\<rparr>
         else l1)"

text \<open>The first reason, in the order of the code, why a look cannot be scored; the ledger and reference otherwise.\<close>

definition look_guard :: "probe_env \<Rightarrow> store \<Rightarrow> (string \<times> string \<times> int option) + (ledger \<times> reference)" where
  "look_guard e s =
     (let seen = (case load_reference (st_reference s) of Inr (Some r) \<Rightarrow> rf_id r | _ \<Rightarrow> ''unknown'') in
      if pe_refresh_raises e then Inl (''conditions_unreadable'', seen, None)
      else case load_ledger (st_ledger s) of
        Inl _ \<Rightarrow> Inl (''ledger_unreadable'', seen, None)
      | Inr lo \<Rightarrow>
          (let next = (case lo of Some l \<Rightarrow> Some (lg_looks l + 1) | None \<Rightarrow> None) in
           case load_reference (st_reference s) of
             Inl _ \<Rightarrow> Inl (''reference_unreadable'', ''unknown'', next)
           | Inr None \<Rightarrow> Inl (''no_reference'', ''unknown'', next)
           | Inr (Some ref) \<Rightarrow>
               (case lo of
                  None \<Rightarrow> Inl (''ledger_missing'', rf_id ref, None)
                | Some l \<Rightarrow>
                    if lg_reference l \<noteq> PStr (rf_id ref) then Inl (''ledger_reference_mismatch'', rf_id ref, None)
                    else if rf_battery_digest ref \<noteq> pe_battery_digest e then Inl (''battery_changed'', rf_id ref, next)
                    else (case pe_conditions e of
                            None \<Rightarrow> Inl (''conditions_unreadable'', rf_id ref, next)
                          | Some now \<Rightarrow>
                              (case rf_conditions ref of
                                 None \<Rightarrow> Inl (''conditions_changed'', rf_id ref, next)
                               | Some old \<Rightarrow>
                                   if old = [] \<or> condition_changes old now \<noteq> [] then Inl (''conditions_changed'', rf_id ref, next)
                                   else Inr (l, ref))))))"

text \<open>
  \<open>Inl\<close>: a number in the ledger overflows, the ledger could not be saved, or writing the report raised
  (\<open>InvalidRequest\<close> stands for that), after which the ledger stays saved.
\<close>

definition look ::
  "settings \<Rightarrow> probe_env \<Rightarrow> bool \<Rightarrow> real \<Rightarrow> int \<Rightarrow> store \<Rightarrow> (store_error + look_result) \<times> store" where
  "look ps e warm lived ticks s =
     (let quit = (\<lambda>(reason, ref, k).
            (if pe_report_raises e then Inl InvalidRequest else Inr (Inconclusive reason), inconclusive e reason ref k s))
      in if \<not> pe_refresh_raises e \<and> load_ledger (st_ledger s) = Inl StoreOverflow then (Inl StoreOverflow, s)
      else case look_guard e s of
           Inl why \<Rightarrow> quit why
         | Inr (l, ref) \<Rightarrow>
             (let k = lg_looks l + 1 in
              case pe_digest_before e of
                None \<Rightarrow> quit (''conditioning_unreadable'', rf_id ref, Some k)
              | Some before \<Rightarrow>
                  if Some before = lg_digest l then (Inr Unchanged, s)
                  else (case spending_alpha (nat k) (ps_alpha_total ps) of
                          Inl _ \<Rightarrow> (Inl InvalidRequest, s)
                        | Inr alpha_k \<Rightarrow>
                            (case required_permutations alpha_k (ps_b_max ps) of
                               None \<Rightarrow> quit (''alpha_unresolvable'', rf_id ref, Some k)
                             | Some b \<Rightarrow>
                                 (case measure_look ps e warm ref before alpha_k (nat b) of
                                    Inl reason \<Rightarrow> quit (reason, rf_id ref, Some k)
                                  | Inr (p, h, sig) \<Rightarrow>
                                      (let l' = score_ledger e before alpha_k sig lived ticks l in
                                       case save_ledger l' (st_ledger s) of
                                         Inl x \<Rightarrow> (Inl x, s)
                                       | Inr f \<Rightarrow>
                                           (let s1 = s\<lparr>st_ledger := f\<rparr> in
                                            if pe_report_raises e then (Inl InvalidRequest, s1)
                                            else (Inr (Scored sig), s1\<lparr>st_reports := st_reports s1 @
                                              [\<lparr>rp_scored = True, rp_reason = [], rp_reference = rf_id ref, rp_look = Some k,
                                                rp_ts = pe_now e, rp_p = p, rp_alpha = alpha_k, rp_h = h,
                                                rp_significant = sig, rp_latched = lg_individuated l'\<rparr>]\<rparr>))))))))"

section \<open>Capturing a reference\<close>

definition reference_kinds :: "string list" where
  "reference_kinds = [''maturation'', ''capture'', ''reconstructed'']"

datatype capture_result = Captured reference | NotCaptured string

definition capture_samples :: "settings \<Rightarrow> probe_env \<Rightarrow> string + (string \<times> string list list)" where
  "capture_samples ps e =
     (case pe_abort e 0 of
        Some r \<Rightarrow> Inl (known_reason r)
      | None \<Rightarrow>
          (case pe_digest_before e of
             None \<Rightarrow> Inl ''conditioning_unreadable''
           | Some before \<Rightarrow>
               (case sample_battery e (ps_n_reference ps) 1 (pe_battery e) of
                  Inl r \<Rightarrow> Inl r
                | Inr tss \<Rightarrow>
                    (case pe_digest_after e of
                       None \<Rightarrow> Inl ''conditioning_unreadable''
                     | Some after \<Rightarrow>
                         if after \<noteq> before then Inl ''conditioning_changed_mid_run'' else Inr (before, tss)))))"

text \<open>
  A reference without a ledger is an interrupted capture and is replaced. \<open>rf_digest\<close> is the digest of the
  conditioning the document stores; the maturation adapter is copied after the reference is saved.
\<close>

definition capture_reference ::
  "settings \<Rightarrow> probe_env \<Rightarrow> string \<Rightarrow> bool \<Rightarrow> store \<Rightarrow> (store_error + capture_result) \<times> store" where
  "capture_reference ps e kind regenerate s =
     (if pe_refresh_raises e \<or> kind \<notin> set reference_kinds \<or> (regenerate \<and> kind = ''maturation'')
      then (Inl InvalidRequest, s)
      else case (if regenerate \<or> st_reference s = Missing then Inr False
                 else case load_ledger (st_ledger s) of
                        Inl x \<Rightarrow> Inl x
                      | Inr (Some _) \<Rightarrow> Inl ReferenceExists
                      | Inr None \<Rightarrow> Inr True) of
        Inl x \<Rightarrow> (Inl x, s)
      | Inr incomplete \<Rightarrow>
          (case capture_samples ps e of
             Inl r \<Rightarrow> (Inr (NotCaptured r), s)
           | Inr (before, tss) \<Rightarrow>
               (case pe_conditions e of
                  None \<Rightarrow> (Inl InvalidRequest, s)
                | Some c \<Rightarrow>
                    (let doc = \<lparr>rf_id = pe_id e, rf_kind = kind, rf_captured_at = pe_now e,
                                rf_battery_digest = pe_battery_digest e, rf_conditions = Some c,
                                rf_digest = before, rf_samples = tss\<rparr>
                     in case save_reference doc (regenerate \<or> incomplete) (st_reference s) of
                          Inl x \<Rightarrow> (Inl x, s)
                        | Inr f \<Rightarrow>
                            (let s1 = s\<lparr>st_reference := f\<rparr> in
                             if kind = ''maturation'' \<and> pe_copy_raises e then (Inl InvalidRequest, s1)
                             else case load_ledger (st_ledger s1) of
                               Inl x \<Rightarrow> (Inl x, s1)
                             | Inr lo \<Rightarrow>
                                 (let l = (case lo of None \<Rightarrow> new_ledger (rf_id doc) before
                                           | Some l \<Rightarrow> l\<lparr>lg_reference := PStr (rf_id doc)\<rparr>)
                                  in case save_ledger l (st_ledger s1) of
                                       Inl x \<Rightarrow> (Inl x, s1)
                                     | Inr g \<Rightarrow> (Inr (Captured doc), s1\<lparr>st_ledger := g\<rparr>)))))))"

definition adopt_reference :: "store \<Rightarrow> (store_error + bool) \<times> store" where
  "adopt_reference s =
     (case load_reference (st_reference s) of
        Inl x \<Rightarrow> (Inl x, s)
      | Inr None \<Rightarrow> (Inr False, s)
      | Inr (Some ref) \<Rightarrow>
          (case load_ledger (st_ledger s) of
             Inl x \<Rightarrow> (Inl x, s)
           | Inr lo \<Rightarrow>
               (let write = (\<lambda>l. case save_ledger l (st_ledger s) of
                                   Inl x \<Rightarrow> (Inl x, s) | Inr f \<Rightarrow> (Inr True, s\<lparr>st_ledger := f\<rparr>))
                in case lo of
                     None \<Rightarrow> write (new_ledger (rf_id ref) (rf_digest ref))
                   | Some l \<Rightarrow>
                       if lg_reference l \<noteq> PStr (rf_id ref) then write (l\<lparr>lg_reference := PStr (rf_id ref)\<rparr>)
                       else (Inr False, s))))"

text \<open>True when a look would not be skipped as unchanged.\<close>

definition look_due :: "probe_env \<Rightarrow> store \<Rightarrow> store_error + bool" where
  "look_due e s =
     (case load_ledger (st_ledger s) of
        Inl StoreOverflow \<Rightarrow> Inl StoreOverflow
      | Inr (Some l) \<Rightarrow> Inr (case pe_digest_before e of None \<Rightarrow> True | Some d \<Rightarrow> Some d \<noteq> lg_digest l)
      | _ \<Rightarrow> Inr True)"

section \<open>The scheduler's changes of the ledger\<close>

text \<open>
  \<open>_flush_lived\<close> keeps the pending time when the ledger cannot be read or written, and drops it when there
  is no ledger. An overflow in the stored numbers is raised.
\<close>

definition flush_lived :: "(real \<times> int) \<times> store \<Rightarrow> (store_error + unit) \<times> (real \<times> int) \<times> store" where
  "flush_lived = (\<lambda>((pend_s, pend_t), s).
     case load_ledger (st_ledger s) of
       Inl StoreOverflow \<Rightarrow> (Inl StoreOverflow, (pend_s, pend_t), s)
     | Inl _ \<Rightarrow> (Inr (), (pend_s, pend_t), s)
     | Inr None \<Rightarrow> (Inr (), (0, 0), s)
     | Inr (Some l) \<Rightarrow>
         if pend_s = 0 \<and> pend_t = 0 then (Inr (), (pend_s, pend_t), s)
         else (case save_ledger (l\<lparr>lg_lived := lg_lived l + pend_s, lg_ticks := lg_ticks l + pend_t\<rparr>) (st_ledger s) of
                 Inl _ \<Rightarrow> (Inr (), (pend_s, pend_t), s)
               | Inr f \<Rightarrow> (Inr (), (0, 0), s\<lparr>st_ledger := f\<rparr>)))"

datatype alert = ConditionsChanged | LongInconclusive "string option" | UnreadableLedger | CaptureFailing string

record mark_env =
  mk_now :: string
  mk_elapsed :: "string \<Rightarrow> real option"
  mk_alert_s :: real
  mk_raises :: "alert \<Rightarrow> bool"

text \<open>What the scheduler remembers in memory: the stretch it alerted on, the unreadable ledger it alerted on.\<close>

record marked =
  mm_since :: "string option"
  mm_unreadable :: bool

definition mark_ledger ::
  "mark_env \<Rightarrow> string option \<Rightarrow> marked \<Rightarrow> ledger \<Rightarrow> ledger \<times> marked \<times> alert list" where
  "mark_ledger e reason m l =
     (let l1 = (case reason of None \<Rightarrow> l | Some r \<Rightarrow> l\<lparr>lg_last_reason := Some r\<rparr>);
          since = (case lg_inconclusive_since l of None \<Rightarrow> mk_now e | Some t \<Rightarrow> t);
          l2 = l1\<lparr>lg_inconclusive_since := Some since\<rparr>;
          tell = (reason = Some ''conditions_changed'' \<and> lg_conditions_alerted l \<noteq> lg_reference l \<and>
                  \<not> mk_raises e ConditionsChanged);
          l3 = (if tell then l2\<lparr>lg_conditions_alerted := lg_reference l\<rparr> else l2);
          elapsed = (case mk_elapsed e since of None \<Rightarrow> mk_alert_s e | Some x \<Rightarrow> x);
          long = LongInconclusive (lg_last_reason l1);
          due = (mk_alert_s e \<le> elapsed \<and> \<not> lg_inconclusive_alerted l \<and> mm_since m \<noteq> Some since \<and>
                 \<not> mk_raises e long)
      in (if due then l3\<lparr>lg_inconclusive_alerted := True\<rparr> else l3,
          if due then m\<lparr>mm_since := Some since\<rparr> else m,
          (if tell then [ConditionsChanged] else []) @ (if due then [long] else [])))"

text \<open>A ledger that reads again re-arms the alert on an unreadable one (\<open>_refresh_state\<close>).\<close>

definition rearm :: "marked \<Rightarrow> store \<Rightarrow> marked" where
  "rearm m s = (case load_ledger (st_ledger s) of Inl _ \<Rightarrow> m | Inr _ \<Rightarrow> m\<lparr>mm_unreadable := False\<rparr>)"

definition alert_unreadable :: "mark_env \<Rightarrow> marked \<Rightarrow> marked \<times> alert list" where
  "alert_unreadable e m =
     (if mm_unreadable m \<or> mk_raises e UnreadableLedger then (m, []) else (m\<lparr>mm_unreadable := True\<rparr>, [UnreadableLedger]))"

text \<open>The updates are empty when there was no reason to note and the stretch had begun; then nothing is saved.\<close>

definition mark_inconclusive ::
  "mark_env \<Rightarrow> string option \<Rightarrow> marked \<times> store \<Rightarrow> (store_error + alert list) \<times> marked \<times> store" where
  "mark_inconclusive e reason = (\<lambda>(m, s).
     case load_ledger (st_ledger s) of
       Inl StoreOverflow \<Rightarrow> (Inl StoreOverflow, m, s)
     | Inl _ \<Rightarrow> (let (m', alerts) = alert_unreadable e m in (Inr alerts, m', s))
     | Inr None \<Rightarrow> (Inr [], m, s)
     | Inr (Some l) \<Rightarrow>
         (let (l', m', alerts) = mark_ledger e reason m l;
              nothing = (reason = None \<and> lg_inconclusive_since l \<noteq> None \<and> alerts = []);
              f = (if nothing then st_ledger s
                   else case save_ledger l' (st_ledger s) of Inl _ \<Rightarrow> st_ledger s | Inr f \<Rightarrow> f);
              s' = s\<lparr>st_ledger := f\<rparr>
          in (Inr alerts, rearm m' s', s')))"

section \<open>The steps of a store\<close>

text \<open>
  Whatever the environment of each call, the pending time is not negative.
\<close>

inductive store_step :: "settings \<Rightarrow> store \<Rightarrow> store \<Rightarrow> bool" for ps where
  step_look: "store_step ps s (snd (look ps e warm lived ticks s))"
| step_capture: "store_step ps s (snd (capture_reference ps e kind regenerate s))"
| step_adopt: "store_step ps s (snd (adopt_reference s))"
| step_flush: "0 \<le> pend_s \<Longrightarrow> 0 \<le> pend_t \<Longrightarrow> store_step ps s (snd (snd (flush_lived ((pend_s, pend_t), s))))"
| step_mark: "store_step ps s (snd (snd (mark_inconclusive me reason (m, s))))"

definition extends :: "ledger \<Rightarrow> ledger \<Rightarrow> bool" where
  "extends l l' \<longleftrightarrow>
     lg_looks l \<le> lg_looks l' \<and> lg_alpha l \<le> lg_alpha l' \<and> (lg_individuated l \<longrightarrow> lg_individuated l') \<and>
     lg_lived l \<le> lg_lived l' \<and> lg_ticks l \<le> lg_ticks l'"

lemma ledger_extends_refl [simp]: "extends l l"
  by (simp add: extends_def)

lemma ledger_extends_trans: "extends a b \<Longrightarrow> extends b c \<Longrightarrow> extends a c"
  unfolding extends_def by linarith

text \<open>What a step writes, as a ledger: nothing, a first ledger, one of the operations' updates.\<close>

definition moved_on :: "ledger \<Rightarrow> ledger \<Rightarrow> bool" where
  "moved_on l l' \<longleftrightarrow>
     lg_looks l' = lg_looks l \<and> lg_alpha l' = lg_alpha l \<and> lg_individuated l' = lg_individuated l \<and>
     lg_lived l \<le> lg_lived l' \<and> lg_ticks l \<le> lg_ticks l' \<and>
     (lg_reference l' = lg_reference l \<or> (\<exists>r. lg_reference l' = PStr r)) \<and>
     (lg_conditions_alerted l' = lg_conditions_alerted l \<or> lg_conditions_alerted l' = lg_reference l)"

definition scored_on :: "settings \<Rightarrow> ledger \<Rightarrow> ledger \<Rightarrow> bool" where
  "scored_on ps l l' \<longleftrightarrow>
     (\<exists>alpha_k. spending_alpha (nat (lg_looks l + 1)) (ps_alpha_total ps) = Inr alpha_k \<and>
        lg_looks l' = lg_looks l + 1 \<and> lg_alpha l' = lg_alpha l + alpha_k \<and>
        (lg_individuated l \<longrightarrow> lg_individuated l') \<and> lg_lived l \<le> lg_lived l' \<and> lg_ticks l \<le> lg_ticks l' \<and>
        lg_reference l' = lg_reference l \<and> lg_conditions_alerted l' = lg_conditions_alerted l)"

definition touched :: "store \<Rightarrow> store \<Rightarrow> bool" where
  "touched s s' \<longleftrightarrow>
     (\<exists>l'. st_ledger s' = Stored (ledger_to_dict l') \<and>
        ((st_ledger s = Missing \<and> (\<exists>r d. l' = new_ledger r d)) \<or>
         (\<exists>l. load_ledger (st_ledger s) = Inr (Some l) \<and> moved_on l l')))"

definition scored :: "settings \<Rightarrow> store \<Rightarrow> store \<Rightarrow> bool" where
  "scored ps s s' \<longleftrightarrow>
     (\<exists>l l'. load_ledger (st_ledger s) = Inr (Some l) \<and> scored_on ps l l' \<and> st_ledger s' = Stored (ledger_to_dict l'))"

lemma save_ledger_writes: "save_ledger l f = Inr g \<Longrightarrow> g = Stored (ledger_to_dict l)"
  by (auto simp: save_ledger_def split: sum.splits option.splits if_splits)

lemma load_None_iff: "load_ledger f = Inr None \<longleftrightarrow> f = Missing"
  by (cases f rule: load_ledger.cases) simp_all

lemma inconclusive_ledger [simp]: "st_ledger (inconclusive e reason ref k s) = st_ledger s"
  by (simp add: inconclusive_def)

lemma look_guard_ledger: "look_guard e s = Inr (l, ref) \<Longrightarrow> load_ledger (st_ledger s) = Inr (Some l)"
  by (auto simp: look_guard_def Let_def split: if_splits sum.splits option.splits)

lemma look_writes:
  assumes "st_ledger (snd (look ps e warm lived ticks s)) \<noteq> st_ledger s"
  shows "\<exists>l ref before alpha_k b p h sig.
    load_ledger (st_ledger s) = Inr (Some l) \<and> spending_alpha (nat (lg_looks l + 1)) (ps_alpha_total ps) = Inr alpha_k \<and>
    measure_look ps e warm ref before alpha_k b = Inr (p, h, sig) \<and>
    st_ledger (snd (look ps e warm lived ticks s)) =
      Stored (ledger_to_dict (score_ledger e before alpha_k sig lived ticks l))"
proof (cases "look_guard e s")
  case (Inl why)
  then have "st_ledger (snd (look ps e warm lived ticks s)) = st_ledger s" by (cases why) (simp add: look_def Let_def)
  with assms show ?thesis by simp
next
  case (Inr lr)
  obtain l ref where lr: "lr = (l, ref)" by (cases lr)
  have load: "load_ledger (st_ledger s) = Inr (Some l)" using Inr lr by (simp add: look_guard_ledger)
  obtain before where before: "pe_digest_before e = Some before"
    using assms Inr lr load by (cases "pe_digest_before e") (auto simp: look_def Let_def)
  have new: "Some before \<noteq> lg_digest l"
    using assms Inr lr load before by (auto simp: look_def Let_def)
  obtain alpha_k where alpha: "spending_alpha (nat (lg_looks l + 1)) (ps_alpha_total ps) = Inr alpha_k"
    using assms Inr lr load before new
    by (cases "spending_alpha (nat (lg_looks l + 1)) (ps_alpha_total ps)") (auto simp: look_def Let_def)
  obtain b where b: "required_permutations alpha_k (ps_b_max ps) = Some b"
    using assms Inr lr load before new alpha
    by (cases "required_permutations alpha_k (ps_b_max ps)") (auto simp: look_def Let_def)
  obtain p h sig where m: "measure_look ps e warm ref before alpha_k (nat b) = Inr (p, h, sig)"
    using assms Inr lr load before new alpha b
    by (cases "measure_look ps e warm ref before alpha_k (nat b)") (auto simp: look_def Let_def)
  let ?l = "score_ledger e before alpha_k sig lived ticks l"
  obtain f where f: "save_ledger ?l (st_ledger s) = Inr f"
    using assms Inr lr load before new alpha b m
    by (cases "save_ledger ?l (st_ledger s)") (auto simp: look_def Let_def)
  have "st_ledger (snd (look ps e warm lived ticks s)) = f"
    using Inr lr load before new alpha b m f by (auto simp: look_def Let_def)
  with save_ledger_writes [OF f] load alpha m show ?thesis by blast
qed

lemma score_ledger_scored:
  "spending_alpha (nat (lg_looks l + 1)) (ps_alpha_total ps) = Inr alpha_k \<Longrightarrow>
   scored_on ps l (score_ledger e before alpha_k sig lived ticks l)"
  by (auto simp: scored_on_def score_ledger_def Let_def)


lemma moved_on_reference [simp]: "moved_on l (l\<lparr>lg_reference := PStr r\<rparr>)"
  by (simp add: moved_on_def)

lemma capture_writes:
  assumes "st_ledger (snd (capture_reference ps e kind regenerate s)) \<noteq> st_ledger s"
  shows "touched s (snd (capture_reference ps e kind regenerate s))"
proof -
  let ?f = "st_ledger (snd (capture_reference ps e kind regenerate s))"
  have "?f = st_ledger s \<or>
    (load_ledger (st_ledger s) = Inr None \<and> (\<exists>r d. ?f = Stored (ledger_to_dict (new_ledger r d)))) \<or>
    (\<exists>l r. load_ledger (st_ledger s) = Inr (Some l) \<and> ?f = Stored (ledger_to_dict (l\<lparr>lg_reference := PStr r\<rparr>)))"
    by (auto simp: capture_reference_def Let_def dest!: save_ledger_writes split: sum.splits option.splits prod.splits)
  with assms show ?thesis
    unfolding touched_def load_None_iff using moved_on_reference by blast
qed

lemma adopt_writes:
  assumes "st_ledger (snd (adopt_reference s)) \<noteq> st_ledger s"
  shows "touched s (snd (adopt_reference s))"
proof -
  let ?f = "st_ledger (snd (adopt_reference s))"
  have "?f = st_ledger s \<or>
    (load_ledger (st_ledger s) = Inr None \<and> (\<exists>r d. ?f = Stored (ledger_to_dict (new_ledger r d)))) \<or>
    (\<exists>l r. load_ledger (st_ledger s) = Inr (Some l) \<and> ?f = Stored (ledger_to_dict (l\<lparr>lg_reference := PStr r\<rparr>)))"
    by (auto simp: adopt_reference_def Let_def dest!: save_ledger_writes split: sum.splits option.splits)
  with assms show ?thesis
    unfolding touched_def load_None_iff using moved_on_reference by blast
qed

lemma flush_writes:
  assumes "0 \<le> pend_s" "0 \<le> pend_t"
    and "st_ledger (snd (snd (flush_lived ((pend_s, pend_t), s)))) \<noteq> st_ledger s"
  shows "touched s (snd (snd (flush_lived ((pend_s, pend_t), s))))"
proof -
  let ?f = "st_ledger (snd (snd (flush_lived ((pend_s, pend_t), s))))"
  let ?l = "\<lambda>l. l\<lparr>lg_lived := lg_lived l + pend_s, lg_ticks := lg_ticks l + pend_t\<rparr>"
  have "?f = st_ledger s \<or> (\<exists>l. load_ledger (st_ledger s) = Inr (Some l) \<and> ?f = Stored (ledger_to_dict (?l l)))"
    by (auto simp: flush_lived_def dest!: save_ledger_writes split: sum.split option.split store_error.split)
  moreover have "moved_on l (?l l)" for l using assms by (simp add: moved_on_def)
  ultimately show ?thesis using assms(3) unfolding touched_def by blast
qed

lemma mark_ledger_moved_on: "moved_on l (fst (mark_ledger e reason m l))"
  by (simp add: mark_ledger_def moved_on_def Let_def split: option.split)

lemma mark_writes:
  assumes "st_ledger (snd (snd (mark_inconclusive me reason (m, s)))) \<noteq> st_ledger s"
  shows "touched s (snd (snd (mark_inconclusive me reason (m, s))))"
proof (cases "load_ledger (st_ledger s)")
  case (Inl x)
  then show ?thesis
    using assms by (cases x) (auto simp: mark_inconclusive_def split: prod.splits)
next
  case (Inr lo)
  obtain l where l: "lo = Some l" using Inr assms by (cases lo) (auto simp: mark_inconclusive_def)
  obtain l' m' alerts where m: "mark_ledger me reason m l = (l', m', alerts)"
    by (cases "mark_ledger me reason m l")
  have "moved_on l l'" using mark_ledger_moved_on [of l me reason m] m by simp
  with assms show ?thesis
    by (auto simp: mark_inconclusive_def Inr l m touched_def Let_def dest!: save_ledger_writes
        split: sum.splits if_splits)
qed

lemma look_scores: "st_ledger (snd (look ps e warm lived ticks s)) = st_ledger s \<or> scored ps s (snd (look ps e warm lived ticks s))"
  using look_writes score_ledger_scored unfolding scored_def by metis

lemma step_writes:
  assumes "store_step ps s s'"
  shows "st_ledger s' = st_ledger s \<or> touched s s' \<or> (\<exists>e warm lived ticks. s' = snd (look ps e warm lived ticks s)) \<and> scored ps s s'"
  using assms
proof cases
  case step_look
  then show ?thesis using look_scores by blast
next
  case step_capture
  then show ?thesis using capture_writes by blast
next
  case step_adopt
  then show ?thesis using adopt_writes by blast
next
  case step_flush
  then show ?thesis using flush_writes by blast
next
  case step_mark
  then show ?thesis using mark_writes by blast
qed

lemma spending_alpha_pos: "spending_alpha k a = Inr x \<Longrightarrow> 0 < x"
  by (auto simp: spending_alpha_def spending_s_def split: if_splits intro!: divide_pos_pos mult_pos_pos)

lemma written_extends:
  assumes "moved_on l l' \<or> scored_on ps l l'"
  shows "extends l l'"
  using assms
proof
  assume "moved_on l l'"
  then show ?thesis by (simp add: moved_on_def extends_def)
next
  assume "scored_on ps l l'"
  then obtain x where "spending_alpha (nat (lg_looks l + 1)) (ps_alpha_total ps) = Inr x" "lg_alpha l' = lg_alpha l + x"
      "lg_looks l' = lg_looks l + 1" "lg_individuated l \<longrightarrow> lg_individuated l'" "lg_lived l \<le> lg_lived l'"
      "lg_ticks l \<le> lg_ticks l'"
    unfolding scored_on_def by blast
  then show ?thesis using spending_alpha_pos by (fastforce simp: extends_def)
qed


section \<open>A ledger reads back\<close>

definition sound_ledger :: "ledger \<Rightarrow> bool" where
  "sound_ledger l \<longleftrightarrow>
     0 \<le> lg_looks l \<and> 0 \<le> lg_alpha l \<and> lg_alpha l \<le> 1 \<and> 0 \<le> lg_lived l \<and> 0 \<le> lg_ticks l \<and>
     (lg_conditions_alerted l = PNone \<or> (\<exists>r. lg_conditions_alerted l = PStr r))"

lemma as_opt_str_opt_str [simp]: "as_opt_str (opt_str x) = Inr x"
  by (cases x) simp_all

lemma as_opt_str_reads: "as_opt_str v = Inr x \<Longrightarrow> opt_str x = v"
  by (cases v rule: as_opt_str.cases) auto

lemma as_opt_str_fails: "as_opt_str v = Inl x \<Longrightarrow> x = LedgerUnreadable \<and> v \<noteq> PNone \<and> v \<noteq> PStr r"
  by (cases v rule: as_opt_str.cases) auto

lemma dget_ledger:
  "dget (ledger_to_dict l) ''individuated'' v = PBool (lg_individuated l)"
  "dget (ledger_to_dict l) ''looks_completed'' v = PInt (lg_looks l)"
  "dget (ledger_to_dict l) ''alpha_spent'' v = PFloat (Fin (lg_alpha l))"
  "dget (ledger_to_dict l) ''lived_seconds'' v = PFloat (Fin (lg_lived l))"
  "dget (ledger_to_dict l) ''lived_ticks'' v = PInt (lg_ticks l)"
  "dget (ledger_to_dict l) ''reference_id'' v = lg_reference l"
  "dget (ledger_to_dict l) ''inconclusive_alerted'' v = PBool (lg_inconclusive_alerted l)"
  "dget (ledger_to_dict l) ''last_look_conditions_digest'' v = opt_str (lg_digest l)"
  "dget (ledger_to_dict l) ''latched_at'' v = opt_str (lg_latched_at l)"
  "dget (ledger_to_dict l) ''latched_report_id'' v = opt_str (lg_latched_report l)"
  "dget (ledger_to_dict l) ''inconclusive_since'' v = opt_str (lg_inconclusive_since l)"
  "dget (ledger_to_dict l) ''last_look_at'' v = opt_str (lg_last_look_at l)"
  "dget (ledger_to_dict l) ''conditions_alerted_reference'' v = lg_conditions_alerted l"
  "dget (ledger_to_dict l) ''last_inconclusive_reason'' v = opt_str (lg_last_reason l)"
  by (simp_all add: ledger_to_dict_def)

lemma ledger_keys:
  "map_of (ledger_to_dict l) ''reference_id'' \<noteq> None"
  "map_of (ledger_to_dict l) ''looks_completed'' \<noteq> None"
  "map_of (ledger_to_dict l) ''alpha_spent'' \<noteq> None"
  "map_of (ledger_to_dict l) ''lived_seconds'' \<noteq> None"
  "map_of (ledger_to_dict l) ''lived_ticks'' \<noteq> None"
  by (simp_all add: ledger_to_dict_def)

lemma ledger_reads:
  "ledger_from_dict (ledger_to_dict l) = (if sound_ledger l then Inr l else Inl LedgerUnreadable)"
proof -
  show ?thesis
  proof (cases "0 \<le> lg_looks l \<and> 0 \<le> lg_alpha l \<and> lg_alpha l \<le> 1 \<and> 0 \<le> lg_lived l \<and> 0 \<le> lg_ticks l")
    case True
    then show ?thesis
      by (cases "as_opt_str (lg_conditions_alerted l)")
        (auto simp: ledger_from_dict_def ledger_keys dget_ledger check_def sound_ledger_def dest: as_opt_str_reads as_opt_str_fails
          elim: opt_str.elims)
  next
    case False
    then show ?thesis
      by (auto simp: ledger_from_dict_def ledger_keys dget_ledger check_def sound_ledger_def)
  qed
qed

lemma load_saved:
  "load_ledger (Stored (ledger_to_dict l)) = (if sound_ledger l then Inr (Some l) else Inl LedgerUnreadable)"
  by (simp add: ledger_reads)


section \<open>The latch and the account\<close>

lemma written_individuated:
  "extends l l' \<Longrightarrow> lg_individuated l \<Longrightarrow> dget (ledger_to_dict l') ''individuated'' v = PBool True"
  by (simp add: extends_def dget_ledger)

text \<open>What a store holds after a ledger \<open>l\<close> was read from it.\<close>

definition holds_on :: "ledger \<Rightarrow> pydict stored \<Rightarrow> pydict stored \<Rightarrow> bool" where
  "holds_on l f f' \<longleftrightarrow> f' = f \<or> (\<exists>l'. f' = Stored (ledger_to_dict l') \<and> extends l l')"

lemma holds_on_step:
  assumes "load_ledger f = Inr (Some l)" "holds_on l f (st_ledger s)" "store_step ps s s'"
  shows "holds_on l f (st_ledger s')"
  using step_writes [OF assms(3)]
proof (elim disjE)
  assume "st_ledger s' = st_ledger s"
  with assms(2) show ?thesis by simp
next
  have present: "st_ledger s \<noteq> Missing"
    using assms(1,2) by (cases f) (auto simp: holds_on_def)
  have go: ?thesis if k: "st_ledger s' = Stored (ledger_to_dict k')" "load_ledger (st_ledger s) = Inr (Some k)"
      "extends k k'" for k k'
  proof -
    have "extends l k"
      using assms(1,2) k(2) by (auto simp: holds_on_def load_saved simp del: load_ledger.simps split: if_splits)
    with k show ?thesis unfolding holds_on_def using ledger_extends_trans by blast
  qed
  {
    assume "touched s s'"
    with present go show ?thesis unfolding touched_def using written_extends by blast
  next
    assume "(\<exists>e warm lived ticks. s' = snd (look ps e warm lived ticks s)) \<and> scored ps s s'"
    with go show ?thesis unfolding scored_def using written_extends by blast
  }
qed

lemma holds_on_steps:
  assumes "(store_step ps)\<^sup>*\<^sup>* s s'" "load_ledger (st_ledger s) = Inr (Some l)"
  shows "holds_on l (st_ledger s) (st_ledger s')"
  using assms(1)
proof (induction rule: rtranclp_induct)
  case base
  then show ?case by (simp add: holds_on_def)
next
  case (step b c)
  then show ?case using holds_on_step [OF assms(2)] by blast
qed

lemma unreadable_is_kept:
  assumes "(store_step ps)\<^sup>*\<^sup>* s s'" "load_ledger (st_ledger s) = Inl x"
  shows "st_ledger s' = st_ledger s"
  using assms(1)
proof (induction rule: rtranclp_induct)
  case (step b c)
  have "\<not> touched b c" "\<not> scored ps b c" using step.IH assms(2) by (auto simp: touched_def scored_def)
  with step_writes [OF step.hyps(2)] step.IH show ?case by simp
qed simp

lemma wrote_latch:
  assumes "store_step ps s s'" "load_ledger (st_ledger s) = Inr (Some l)" "\<not> lg_individuated l"
    and "load_ledger (st_ledger s') = Inr (Some l')" "lg_individuated l'"
  shows "\<exists>e warm lived ticks ref before alpha_k b p h.
    s' = snd (look ps e warm lived ticks s) \<and> spending_alpha (nat (lg_looks l + 1)) (ps_alpha_total ps) = Inr alpha_k \<and>
    measure_look ps e warm ref before alpha_k b = Inr (p, h, True)"
proof -
  have changed: "st_ledger s' \<noteq> st_ledger s" using assms(2-5) by auto
  have "\<not> touched s s'"
    using assms(2-5) by (auto simp: touched_def moved_on_def load_saved simp del: load_ledger.simps(3) split: if_splits)
  with step_writes [OF assms(1)] changed obtain e warm lived ticks where look: "s' = snd (look ps e warm lived ticks s)"
    by blast
  with look_writes changed obtain k ref before alpha_k b p h sig where k: "load_ledger (st_ledger s) = Inr (Some k)"
      "spending_alpha (nat (lg_looks k + 1)) (ps_alpha_total ps) = Inr alpha_k"
      "measure_look ps e warm ref before alpha_k b = Inr (p, h, sig)"
      "st_ledger s' = Stored (ledger_to_dict (score_ledger e before alpha_k sig lived ticks k))"
    by metis
  with assms have "sig" by (auto simp: load_saved score_ledger_def Let_def simp del: load_ledger.simps split: if_splits)
  then have "sig = True" by simp
  moreover have "k = l" using k(1) assms(2) by simp
  ultimately show ?thesis using k look by blast
qed


text \<open>The account of a store that began without a ledger.\<close>

definition accounted :: "settings \<Rightarrow> pydict stored \<Rightarrow> bool" where
  "accounted ps f \<longleftrightarrow>
     f = Missing \<or>
     (\<exists>l. f = Stored (ledger_to_dict l) \<and> 0 \<le> lg_looks l \<and> lg_alpha l = spent (nat (lg_looks l)) (ps_alpha_total ps) \<and>
        0 \<le> lg_lived l \<and> 0 \<le> lg_ticks l \<and> (\<exists>r. lg_reference l = PStr r) \<and>
        (lg_conditions_alerted l = PNone \<or> (\<exists>r. lg_conditions_alerted l = PStr r)))"

lemma spent_Suc: "spending_alpha (Suc m) a = Inr x \<Longrightarrow> spent (Suc m) a = spent m a + x"
  by (simp add: spent_def)

lemma spent_nonneg: "0 \<le> spent m a"
  unfolding spent_def by (intro sum_nonneg) (auto split: sum.split dest!: spending_alpha_pos)

lemma accounted_reads:
  assumes "accounted ps f" "load_ledger f = Inr (Some l)"
  shows "0 \<le> lg_looks l \<and> lg_alpha l = spent (nat (lg_looks l)) (ps_alpha_total ps) \<and> 0 \<le> lg_lived l \<and> 0 \<le> lg_ticks l \<and>
    (\<exists>r. lg_reference l = PStr r) \<and> (lg_conditions_alerted l = PNone \<or> (\<exists>r. lg_conditions_alerted l = PStr r))"
proof -
  obtain k where k: "f = Stored (ledger_to_dict k)" "0 \<le> lg_looks k" "lg_alpha k = spent (nat (lg_looks k)) (ps_alpha_total ps)"
      "0 \<le> lg_lived k" "0 \<le> lg_ticks k" "\<exists>r. lg_reference k = PStr r"
      "lg_conditions_alerted k = PNone \<or> (\<exists>r. lg_conditions_alerted k = PStr r)"
    using assms unfolding accounted_def by fastforce
  then have "k = l" using assms(2) load_saved [of k] by (simp split: if_splits)
  with k show ?thesis by blast
qed

lemma accounted_step:
  assumes "accounted ps (st_ledger s)" "store_step ps s s'"
  shows "accounted ps (st_ledger s')"
  using step_writes [OF assms(2)]
proof (elim disjE)
  assume "st_ledger s' = st_ledger s"
  with assms(1) show ?thesis by simp
next
  assume t: "touched s s'"
  show ?thesis
  proof (cases "st_ledger s = Missing")
    case True
    with t show ?thesis by (auto simp: touched_def accounted_def new_ledger_def spent_def)
  next
    case False
    with t obtain l l' where l: "st_ledger s' = Stored (ledger_to_dict l')" "load_ledger (st_ledger s) = Inr (Some l)" "moved_on l l'"
      unfolding touched_def by blast
    have a: "0 \<le> lg_looks l" "lg_alpha l = spent (nat (lg_looks l)) (ps_alpha_total ps)" "0 \<le> lg_lived l" "0 \<le> lg_ticks l"
        "\<exists>r. lg_reference l = PStr r" "lg_conditions_alerted l = PNone \<or> (\<exists>r. lg_conditions_alerted l = PStr r)"
      using accounted_reads [OF assms(1) l(2)] by blast+
    from l(3) a have "0 \<le> lg_lived l'" "0 \<le> lg_ticks l'" "\<exists>r. lg_reference l' = PStr r"
        "lg_conditions_alerted l' = PNone \<or> (\<exists>r. lg_conditions_alerted l' = PStr r)"
        "lg_looks l' = lg_looks l" "lg_alpha l' = lg_alpha l"
      unfolding moved_on_def by (linarith, linarith, metis, metis, blast, blast)
    with l(1) a show ?thesis unfolding accounted_def by auto
  qed
next
  assume "(\<exists>e warm lived ticks. s' = snd (look ps e warm lived ticks s)) \<and> scored ps s s'"
  then obtain l l' where l: "load_ledger (st_ledger s) = Inr (Some l)" "scored_on ps l l'" "st_ledger s' = Stored (ledger_to_dict l')"
    unfolding scored_def by blast
  have a: "0 \<le> lg_looks l" "lg_alpha l = spent (nat (lg_looks l)) (ps_alpha_total ps)"
      "0 \<le> lg_lived l" "0 \<le> lg_ticks l" "\<exists>r. lg_reference l = PStr r"
      "lg_conditions_alerted l = PNone \<or> (\<exists>r. lg_conditions_alerted l = PStr r)"
    using accounted_reads [OF assms(1) l(1)] by blast+
  obtain x where x: "spending_alpha (Suc (nat (lg_looks l))) (ps_alpha_total ps) = Inr x"
      "lg_alpha l' = lg_alpha l + x" "lg_looks l' = lg_looks l + 1"
    using l(2) a(1) by (auto simp: scored_on_def nat_add_distrib)
  from spent_Suc [OF x(1)] x a have "lg_alpha l' = spent (nat (lg_looks l')) (ps_alpha_total ps)"
    by (simp add: nat_add_distrib)
  with l a x show ?thesis
    unfolding accounted_def scored_on_def by (intro disjI2 exI [where x = l']) auto
qed

lemma accounted_steps:
  assumes "(store_step ps)\<^sup>*\<^sup>* s s'" "st_ledger s = Missing"
  shows "accounted ps (st_ledger s')"
  using assms(1)
proof (induction rule: rtranclp_induct)
  case base
  then show ?case using assms(2) by (simp add: accounted_def)
next
  case (step b c)
  then show ?case using accounted_step by blast
qed

lemma as_bool_reads: "as_bool v = Inr b \<Longrightarrow> v = PBool b"
  by (cases v rule: as_bool.cases) simp_all

lemma dget_default: "dget d k (PBool False) = PBool True \<Longrightarrow> dget d k v = PBool True"
  by (auto simp: dget_def split: option.splits)

lemma read_individuated:
  assumes "ledger_from_dict d = Inr l" "lg_individuated l"
  shows "dget d ''individuated'' PNone = PBool True"
proof -
  have "as_bool (dget d ''individuated'' (PBool False)) = Inr True"
    using assms by (auto simp: ledger_from_dict_def split: if_splits)
  then show ?thesis using as_bool_reads dget_default by blast
qed

section \<open>Properties\<close>

definition sample_reference :: reference where
  "sample_reference =
     \<lparr>rf_id = ''r1'', rf_kind = ''capture'', rf_captured_at = ''t'', rf_battery_digest = ''b'', rf_conditions = None,
      rf_digest = ''d'', rf_samples = []\<rparr>"

definition sample_settings :: settings where
  "sample_settings = \<lparr>ps_n_reference = 2, ps_n_current = 2, ps_alpha_total = 1 / 20, ps_b_max = 200000, ps_effect_min = 0\<rparr>"

definition latched_ledger :: ledger where
  "latched_ledger = (new_ledger ''r0'' ''d'')\<lparr>lg_looks := 3, lg_alpha := 1 / 50, lg_individuated := True\<rparr>"

text \<open>
  C9. A latch is for good and comes from a significant look only: over any sequence of captures, looks, adoptions,
  flushes and marks the looks, the spent significance, the lived time and the latch of a ledger that was once read
  never go back, also in the file as it is written, whether it can be read or not; a ledger that cannot be read is
  never overwritten; and the step that sets the latch is a look whose measured p-value is within its share, with
  the effect and the warm-up asked for.
\<close>

theorem latch_is_for_good:
  assumes "(store_step ps)\<^sup>*\<^sup>* s s'"
  shows "(\<forall>l. load_ledger (st_ledger s) = Inr (Some l) \<longrightarrow>
      (\<exists>d. st_ledger s' = Stored d \<and> (lg_individuated l \<longrightarrow> dget d ''individuated'' PNone = PBool True) \<and>
        (\<forall>l'. load_ledger (st_ledger s') = Inr (Some l') \<longrightarrow> extends l l'))) \<and>
    (\<forall>x. load_ledger (st_ledger s) = Inl x \<longrightarrow> st_ledger s' = st_ledger s) \<and>
    (\<forall>s'' l l'. store_step ps s' s'' \<and> load_ledger (st_ledger s') = Inr (Some l) \<and> \<not> lg_individuated l \<and>
        load_ledger (st_ledger s'') = Inr (Some l') \<and> lg_individuated l' \<longrightarrow>
      (\<exists>e warm lived ticks ref before alpha_k b p h.
        s'' = snd (look ps e warm lived ticks s') \<and> measure_look ps e warm ref before alpha_k b = Inr (p, h, True) \<and>
        spending_alpha (nat (lg_looks l + 1)) (ps_alpha_total ps) = Inr alpha_k \<and>
        warm \<and> p \<le> alpha_k \<and> ps_effect_min ps \<le> h))"
proof (intro conjI allI impI)
  fix l assume l: "load_ledger (st_ledger s) = Inr (Some l)"
  from holds_on_steps [OF assms l] show "\<exists>d. st_ledger s' = Stored d \<and>
      (lg_individuated l \<longrightarrow> dget d ''individuated'' PNone = PBool True) \<and>
      (\<forall>l'. load_ledger (st_ledger s') = Inr (Some l') \<longrightarrow> extends l l')"
    unfolding holds_on_def
  proof (elim disjE exE conjE)
    assume same: "st_ledger s' = st_ledger s"
    obtain d where d: "st_ledger s = Stored d" "ledger_from_dict d = Inr l" using l by (cases "st_ledger s") auto
    then have "lg_individuated l \<longrightarrow> dget d ''individuated'' PNone = PBool True" using read_individuated by blast
    with same l d(1) show ?thesis by auto
  next
    fix k assume k: "st_ledger s' = Stored (ledger_to_dict k)" "extends l k"
    then show ?thesis using written_individuated [OF k(2)]
      by (auto simp: load_saved simp del: load_ledger.simps(3) split: if_splits)
  qed
next
  fix x assume "load_ledger (st_ledger s) = Inl x"
  then show "st_ledger s' = st_ledger s" using unreadable_is_kept [OF assms] by blast
next
  fix s'' l l'
  assume "store_step ps s' s'' \<and> load_ledger (st_ledger s') = Inr (Some l) \<and> \<not> lg_individuated l \<and>
    load_ledger (st_ledger s'') = Inr (Some l') \<and> lg_individuated l'"
  then have "store_step ps s' s''" "load_ledger (st_ledger s') = Inr (Some l)" "\<not> lg_individuated l"
      "load_ledger (st_ledger s'') = Inr (Some l')" "lg_individuated l'" by blast+
  from wrote_latch [OF this] obtain e warm lived ticks ref before alpha_k b p h where
      look: "s'' = snd (look ps e warm lived ticks s')"
      "spending_alpha (nat (lg_looks l + 1)) (ps_alpha_total ps) = Inr alpha_k"
      "measure_look ps e warm ref before alpha_k b = Inr (p, h, True)"
    by (elim exE conjE)
  from look(3) have "warm \<and> p \<le> alpha_k \<and> ps_effect_min ps \<le> h"
    by (auto simp: measure_look_def decide_def split: sum.splits option.splits if_splits)
  with look show "\<exists>e warm lived ticks ref before alpha_k b p h.
        s'' = snd (look ps e warm lived ticks s') \<and> measure_look ps e warm ref before alpha_k b = Inr (p, h, True) \<and>
        spending_alpha (nat (lg_looks l + 1)) (ps_alpha_total ps) = Inr alpha_k \<and>
        warm \<and> p \<le> alpha_k \<and> ps_effect_min ps \<le> h" by blast
qed

theorem latch_is_for_good_witness:
  "\<exists>d. st_ledger (snd (adopt_reference \<lparr>st_ledger = Stored (ledger_to_dict latched_ledger),
      st_reference = Stored sample_reference, st_reports = []\<rparr>)) = Stored d \<and>
    dget d ''individuated'' PNone = PBool True \<and> d \<noteq> ledger_to_dict latched_ledger"
proof -
  let ?s = "\<lparr>st_ledger = Stored (ledger_to_dict latched_ledger), st_reference = Stored sample_reference, st_reports = []\<rparr>"
  have load: "load_ledger (st_ledger ?s) = Inr (Some latched_ledger)"
    by (simp add: ledger_reads sound_ledger_def latched_ledger_def new_ledger_def)
  have "(store_step sample_settings)\<^sup>*\<^sup>* ?s (snd (adopt_reference ?s))" by (blast intro: step_adopt)
  from latch_is_for_good [OF this] load obtain d where d: "st_ledger (snd (adopt_reference ?s)) = Stored d"
      "dget d ''individuated'' PNone = PBool True"
    by (auto simp: latched_ledger_def)
  moreover have "st_ledger (snd (adopt_reference ?s)) =
      Stored (ledger_to_dict (latched_ledger\<lparr>lg_reference := PStr ''r1''\<rparr>))"
    by (simp add: adopt_reference_def sample_reference_def ledger_reads sound_ledger_def latched_ledger_def new_ledger_def
        save_ledger_def regresses_def)
  ultimately show ?thesis by (auto simp: ledger_to_dict_def latched_ledger_def new_ledger_def)
qed

text \<open>
  C19. A store that began without a ledger never locks itself out, whatever happens: with a total of at most four
  fifths, its ledger can always be read, its spent significance is exactly the sum of the shares of the looks it
  counts, and it stays below five quarters of the total.
\<close>

theorem spent_significance_is_accounted:
  assumes "0 < ps_alpha_total ps" and "ps_alpha_total ps \<le> 4 / 5"
    and "st_ledger s = Missing" and "(store_step ps)\<^sup>*\<^sup>* s s'"
  shows "st_ledger s' = Missing \<or>
    (\<exists>l. load_ledger (st_ledger s') = Inr (Some l) \<and> 0 \<le> lg_looks l \<and>
      lg_alpha l = (\<Sum>k = 1..nat (lg_looks l). case spending_alpha k (ps_alpha_total ps) of Inr x \<Rightarrow> x | Inl _ \<Rightarrow> 0) \<and>
      lg_alpha l < 5 / 4 * ps_alpha_total ps)"
proof -
  have total: "spent m (ps_alpha_total ps) < 5 / 4 * ps_alpha_total ps" for m
    using spending_total [of "ps_alpha_total ps" m] assms(1,2) by (simp add: spent_def)
  have le: "spent m (ps_alpha_total ps) \<le> 1" for m using total [of m] assms(2) by linarith
  from accounted_steps [OF assms(4,3)] show ?thesis
    unfolding accounted_def
  proof (elim disjE exE conjE)
    fix l r
    assume l: "st_ledger s' = Stored (ledger_to_dict l)" "0 \<le> lg_looks l"
      "lg_alpha l = spent (nat (lg_looks l)) (ps_alpha_total ps)" "0 \<le> lg_lived l" "0 \<le> lg_ticks l"
      "lg_conditions_alerted l = PNone"
    then have "sound_ledger l" using le spent_nonneg by (simp add: sound_ledger_def)
    with l total show ?thesis by (auto simp: ledger_reads spent_def)
  next
    fix l r r'
    assume l: "st_ledger s' = Stored (ledger_to_dict l)" "0 \<le> lg_looks l"
      "lg_alpha l = spent (nat (lg_looks l)) (ps_alpha_total ps)" "0 \<le> lg_lived l" "0 \<le> lg_ticks l"
      "lg_conditions_alerted l = PStr r'"
    then have "sound_ledger l" using le spent_nonneg by (simp add: sound_ledger_def)
    with l total show ?thesis by (auto simp: ledger_reads spent_def)
  qed blast
qed

theorem spent_significance_is_accounted_witness:
  "\<exists>l. load_ledger (st_ledger (snd (adopt_reference \<lparr>st_ledger = Missing, st_reference = Stored sample_reference,
      st_reports = []\<rparr>))) = Inr (Some l) \<and> lg_alpha l < 1 / 16"
proof -
  let ?s = "\<lparr>st_ledger = Missing, st_reference = Stored sample_reference, st_reports = []\<rparr>"
  have "(store_step sample_settings)\<^sup>*\<^sup>* ?s (snd (adopt_reference ?s))" by (blast intro: step_adopt)
  moreover have "st_ledger (snd (adopt_reference ?s)) \<noteq> Missing"
    by (simp add: adopt_reference_def sample_reference_def save_ledger_def)
  ultimately show ?thesis
    using spent_significance_is_accounted [of sample_settings ?s "snd (adopt_reference ?s)"]
    by (auto simp: sample_settings_def)
qed


end
