(* ===== verification/Divergence.thy ===== *)
theory Divergence
  imports Individuation "HOL-Library.List_Lexorder" "HOL-Library.Char_ord"
begin

text \<open>
  Models the verdict on an entity, \<open>kaine/lifecycle/divergence.py\<close>, with \<open>read_reports\<close> and
  \<open>individuation_evidence\<close> of \<open>individuation_store.py\<close>, and its use by the merge gate: the individuation
  evidence, the voice arm, the drift of the self-model and the trained adapters. What was read from the disk
  is an argument: a file as its parsed lines, missing, or failing. The texts for the operator are left out.
\<close>

section \<open>The reports\<close>

datatype report_line = BadLine | Parsed pyval

text \<open>\<open>x == 2\<close> of a JSON value.\<close>

fun is_two :: "pyval \<Rightarrow> bool" where
  "is_two (PInt n) = (n = 2)"
| "is_two (PFloat x) = (x = Fin 2)"
| "is_two _ = False"

fun is_str :: "pyval \<Rightarrow> bool" where
  "is_str (PStr _) = True"
| "is_str _ = False"

fun matching :: "string \<Rightarrow> report_line \<Rightarrow> pydict option" where
  "matching ref (Parsed (PDict d)) =
     (if dget d ''kind'' PNone \<noteq> PStr ''individuation_report'' then None
      else if \<not> is_two (dget d ''schema_version'' PNone) then None
      else if dget d ''reference_id'' PNone \<noteq> PStr ref then None
      else if \<not> is_str (dget d ''ts'' PNone) then None
      else Some d)"
| "matching ref _ = None"

fun ts_of :: "pydict \<Rightarrow> string" where
  "ts_of d = (case dget d ''ts'' PNone of PStr s \<Rightarrow> s | _ \<Rightarrow> [])"

text \<open>\<open>None\<close> is what is raised: a file that cannot be opened (no lines at all), or a bad line when \<open>strict\<close>.\<close>

definition read_reports :: "report_line list option \<Rightarrow> string \<Rightarrow> bool \<Rightarrow> pydict list option" where
  "read_reports ls ref strict =
     (case ls of
        None \<Rightarrow> None
      | Some ls \<Rightarrow>
          if strict \<and> BadLine \<in> set ls then None
          else Some (sort_key ts_of (List.map_filter (matching ref) ls)))"

text \<open>\<open>max(rs, key=ts)\<close>: the first of the greatest.\<close>

fun newest :: "pydict \<Rightarrow> pydict list \<Rightarrow> pydict" where
  "newest r [] = r"
| "newest r (x # xs) = newest (if ts_of r < ts_of x then x else r) xs"

fun newest_of :: "pydict list \<Rightarrow> pydict option" where
  "newest_of [] = None"
| "newest_of (r # rs) = Some (newest r rs)"

record evidence =
  ev_individuated :: bool
  ev_state :: string
  ev_latest :: "pydict option"

text \<open>\<open>age ts\<close> is the time since \<open>ts\<close>, \<open>None\<close> where it does not parse.\<close>

definition individuation_evidence ::
  "ledger option \<Rightarrow> pydict list \<Rightarrow> string option \<Rightarrow> (string \<Rightarrow> real option) \<Rightarrow> real \<Rightarrow> evidence" where
  "individuation_evidence lo reports digest age max_age =
     (let scored = filter (\<lambda>r. dget r ''outcome'' PNone = PStr ''scored'') reports in
      if \<exists>l. lo = Some l \<and> lg_individuated l then \<lparr>ev_individuated = True, ev_state = ''latched'', ev_latest = newest_of scored\<rparr>
      else if reports = [] then \<lparr>ev_individuated = False, ev_state = ''none'', ev_latest = None\<rparr>
      else (case newest_of scored of
              None \<Rightarrow> \<lparr>ev_individuated = False, ev_state = ''inconclusive'', ev_latest = newest_of reports\<rparr>
            | Some r \<Rightarrow>
                if truthy (dget r ''significant'' PNone)
                then \<lparr>ev_individuated = True, ev_state = ''latched'', ev_latest = Some r\<rparr>
                else (let fresh = (\<exists>l d. lo = Some l \<and> digest = Some d \<and> lg_digest l = Some d) \<and>
                                  (\<exists>a. age (ts_of r) = Some a \<and> a \<le> max_age)
                      in \<lparr>ev_individuated = False, ev_state = (if fresh then ''not_individuated'' else ''stale''),
                          ev_latest = Some r\<rparr>)))"

section \<open>What is read of an entity\<close>

datatype log_line = UnreadableLine | LogRecord pydict

text \<open>A log: missing, no regular file, the lines read and whether reading failed after them.\<close>

datatype log_file = NoFile | Special | Lines "log_line list" bool

record intent_log =
  il_live :: log_file
  il_corpus :: "(string \<times> log_file) list option"

record entity =
  en_ledger :: "pydict stored"
  en_reference :: "reference stored"
  en_reports :: "report_line list option"
  en_digest :: "string option"
  en_voice_unreadable :: bool
  en_logs :: "intent_log list"
  en_measures :: "pydict option"
  en_self_model :: "pydict option"
  en_adapters :: bool

record individuation =
  in_state :: string
  in_individuated :: bool
  in_latched :: bool
  in_looks :: int
  in_latest :: "pydict option"

definition unreadable_individuation :: individuation where
  "unreadable_individuation =
     \<lparr>in_state = ''unreadable'', in_individuated = True, in_latched = False, in_looks = 0, in_latest = None\<rparr>"

definition read_individuation :: "entity \<Rightarrow> (string \<Rightarrow> real option) \<Rightarrow> real \<Rightarrow> individuation" where
  "read_individuation en age max_age =
     (case load_ledger (en_ledger en) of
        Inl _ \<Rightarrow> unreadable_individuation
      | Inr lo \<Rightarrow>
          (let latched = (\<exists>l. lo = Some l \<and> lg_individuated l);
               looks = (case lo of Some l \<Rightarrow> lg_looks l | None \<Rightarrow> 0)
           in case load_reference (en_reference en) of
                Inl _ \<Rightarrow> unreadable_individuation
              | Inr None \<Rightarrow>
                  if latched
                  then \<lparr>in_state = ''latched'', in_individuated = True, in_latched = True, in_looks = looks, in_latest = None\<rparr>
                  else \<lparr>in_state = ''no_reference'', in_individuated = False, in_latched = False, in_looks = looks,
                        in_latest = None\<rparr>
              | Inr (Some ref) \<Rightarrow>
                  (case read_reports (en_reports en) (rf_id ref) True of
                     None \<Rightarrow> unreadable_individuation
                   | Some rs \<Rightarrow>
                       (let ev = individuation_evidence lo rs (en_digest en) age max_age
                        in \<lparr>in_state = ev_state ev, in_individuated = ev_individuated ev, in_latched = latched,
                            in_looks = looks, in_latest = ev_latest ev\<rparr>))))"

section \<open>The voice arm\<close>

definition shows_speech :: "log_line \<Rightarrow> bool" where
  "shows_speech x =
     (case x of UnreadableLine \<Rightarrow> True
      | LogRecord d \<Rightarrow> (case dget d ''generated_text'' PNone of PStr s \<Rightarrow> py_strip s \<noteq> [] | _ \<Rightarrow> False))"

text \<open>\<open>None\<close> where reading raises before a line shows speech.\<close>

fun file_shows_speech :: "log_file \<Rightarrow> bool option" where
  "file_shows_speech NoFile = Some False"
| "file_shows_speech Special = Some True"
| "file_shows_speech (Lines ls raises) = (if list_ex shows_speech ls then Some True else if raises then None else Some False)"

definition has_suffix :: "string \<Rightarrow> string \<Rightarrow> bool" where
  "has_suffix x s \<longleftrightarrow> length x \<le> length s \<and> drop (length s - length x) s = x"

definition log_spoken :: "intent_log \<Rightarrow> bool" where
  "log_spoken il \<longleftrightarrow>
     file_shows_speech (il_live il) \<noteq> Some False \<or>
     (case il_corpus il of
        None \<Rightarrow> True
      | Some files \<Rightarrow>
          list_ex (\<lambda>(n, f). file_shows_speech f \<noteq> Some False)
            (sort_key fst (filter (\<lambda>(n, f). has_suffix ''.jsonl'' n) files)))"

definition has_spoken :: "intent_log list \<Rightarrow> bool" where
  "has_spoken logs = list_ex log_spoken logs"

text \<open>\<open>float(v)\<close> of an integer too large raises OverflowError, which is not caught.\<close>

definition to_float :: "pyval \<Rightarrow> py_exc + real option" where
  "to_float v =
     (case v of PNone \<Rightarrow> Inr None | PBool _ \<Rightarrow> Inr None
      | _ \<Rightarrow> (case py_float v of
                Inr (Fin r) \<Rightarrow> Inr (Some r)
              | Inr _ \<Rightarrow> Inr None
              | Inl OverflowError \<Rightarrow> Inl OverflowError
              | Inl _ \<Rightarrow> Inr None))"

datatype voice_reason =
    PathsUnreadable | MeasurementFailed | MeasurementMissing | AtOrAboveThreshold | BelowThreshold

definition voice_arm :: "entity \<Rightarrow> real \<Rightarrow> py_exc + (bool \<times> voice_reason) option" where
  "voice_arm en threshold =
     (if en_voice_unreadable en then Inr (Some (True, PathsUnreadable))
      else if \<not> has_spoken (en_logs en) then Inr None
      else case en_measures en of
             None \<Rightarrow> Inr (Some (True, MeasurementMissing))
           | Some vm \<Rightarrow>
               if truthy (dget vm ''measurement_failed'' PNone) then Inr (Some (True, MeasurementFailed))
               else ebind (to_float (dget vm ''distinctiveness'' PNone)) (\<lambda>x.
                    ebind (to_float (dget vm ''self_consistency'' PNone)) (\<lambda>_.
                    ebind (to_float (dget vm ''grounding'' PNone)) (\<lambda>_.
                    Inr (Some (case x of None \<Rightarrow> (True, MeasurementMissing)
                               | Some x \<Rightarrow> if threshold \<le> x then (True, AtOrAboveThreshold) else (False, BelowThreshold)))))))"

section \<open>The verdict\<close>

text \<open>\<open>_read_self_model\<close>: the drift count and the length of the history, 0 where any part cannot be read.\<close>

definition self_model_signals :: "pydict option \<Rightarrow> int \<times> nat" where
  "self_model_signals sm =
     (case sm of None \<Rightarrow> (0, 0)
      | Some d \<Rightarrow>
          (case (py_int (py_or (dget d ''drift_count'' (PInt 0)) (PInt 0)),
                 py_len (py_or (dget d ''identity_history'' PNone) (PList []))) of
             (Inr n, Some k) \<Rightarrow> (n, k)
           | _ \<Rightarrow> (0, 0)))"

definition protective_threshold :: "pyfloat \<Rightarrow> real" where
  "protective_threshold t = (case t of Fin r \<Rightarrow> if r < 0 then 0 else r | _ \<Rightarrow> 0)"

record assessment =
  as_diverged :: bool
  as_individuation :: individuation
  as_voice :: "(bool \<times> voice_reason) option"
  as_drift :: bool
  as_adapters :: bool

definition assess_divergence ::
  "entity \<Rightarrow> pyfloat \<Rightarrow> (string \<Rightarrow> real option) \<Rightarrow> real \<Rightarrow> py_exc + assessment" where
  "assess_divergence en threshold age max_age =
     (let ind = read_individuation en age max_age in
      ebind (voice_arm en (protective_threshold threshold)) (\<lambda>voice.
      (let (drift, history) = self_model_signals (en_self_model en);
           drifted = (drift > 0 \<and> history > 0)
       in Inr \<lparr>as_diverged = in_individuated ind \<or> (\<exists>r. voice = Some (True, r)) \<or> drifted \<or> en_adapters en,
               as_individuation = ind, as_voice = voice, as_drift = drifted, as_adapters = en_adapters en\<rparr>)))"

section \<open>What a discard rests on\<close>

lemma discarded_not_diverged:
  assumes "gated_merge merge parent fork d welfare pf sf lived least = (Inr v, eff)" "fv_discarded v"
  shows "\<not> d"
  using assms by (auto simp: gated_merge_def Let_def split: sum.splits option.splits if_splits)

lemma not_diverged:
  assumes "assess_divergence en t age max_age = Inr a" "\<not> as_diverged a"
  shows "\<not> in_individuated (read_individuation en age max_age)" "\<not> en_adapters en"
    "\<not> (0 < fst (self_model_signals (en_self_model en)) \<and> 0 < snd (self_model_signals (en_self_model en)))"
    "\<exists>v. voice_arm en (protective_threshold t) = Inr v \<and> (\<forall>r. v \<noteq> Some (True, r))"
  using assms by (cases "self_model_signals (en_self_model en)"; auto simp: assess_divergence_def Let_def)+

lemma not_individuated:
  assumes "\<not> in_individuated (read_individuation en age max_age)"
  shows "\<exists>lo. load_ledger (en_ledger en) = Inr lo \<and> (\<forall>l. lo = Some l \<longrightarrow> \<not> lg_individuated l) \<and>
    (en_reference en = Missing \<or>
      (\<exists>ref ls rs. en_reference en = Stored ref \<and> en_reports en = Some ls \<and> BadLine \<notin> set ls \<and>
        read_reports (en_reports en) (rf_id ref) True = Some rs \<and>
        (\<forall>r. newest_of (filter (\<lambda>r. dget r ''outcome'' PNone = PStr ''scored'') rs) = Some r \<longrightarrow>
           \<not> truthy (dget r ''significant'' PNone))))"
proof -
  obtain lo where lo: "load_ledger (en_ledger en) = Inr lo"
    using assms by (cases "load_ledger (en_ledger en)") (auto simp: read_individuation_def unreadable_individuation_def)
  show ?thesis
  proof (cases "en_reference en")
    case Missing
    with assms lo show ?thesis by (auto simp: read_individuation_def Let_def split: if_splits)
  next
    case Garbled
    with assms lo show ?thesis by (simp add: read_individuation_def unreadable_individuation_def)
  next
    case (Stored ref)
    obtain rs where rs: "read_reports (en_reports en) (rf_id ref) True = Some rs"
      using assms lo Stored
      by (cases "read_reports (en_reports en) (rf_id ref) True")
        (auto simp: read_individuation_def unreadable_individuation_def)
    then obtain ls where ls: "en_reports en = Some ls" "BadLine \<notin> set ls"
      by (auto simp: read_reports_def split: option.splits if_splits)
    have ev: "\<not> ev_individuated (individuation_evidence lo rs (en_digest en) age max_age)"
      using assms lo Stored rs by (simp add: read_individuation_def Let_def)
    have "\<not> truthy (dget r ''significant'' PNone)"
      if "newest_of (filter (\<lambda>r. dget r ''outcome'' PNone = PStr ''scored'') rs) = Some r" for r
      using ev that by (cases "rs = []") (auto simp: individuation_evidence_def Let_def split: if_splits)
    moreover have "\<forall>l. lo = Some l \<longrightarrow> \<not> lg_individuated l"
      using ev by (auto simp: individuation_evidence_def Let_def)
    ultimately show ?thesis using lo Stored rs ls by blast
  qed
qed

lemma voice_silent_or_measured:
  assumes "voice_arm en t = Inr v" "\<forall>r. v \<noteq> Some (True, r)"
  shows "\<not> en_voice_unreadable en \<and>
    (has_spoken (en_logs en) \<longrightarrow>
      (\<exists>vm x. en_measures en = Some vm \<and> \<not> truthy (dget vm ''measurement_failed'' PNone) \<and>
        to_float (dget vm ''distinctiveness'' PNone) = Inr (Some x) \<and> x < t))"
  using assms
  by (auto simp: voice_arm_def split: if_splits option.splits)

section \<open>Properties\<close>

definition measured_entity :: entity where
  "measured_entity =
     \<lparr>en_ledger = Stored (ledger_to_dict (new_ledger ''r1'' ''d'')), en_reference = Stored sample_reference,
      en_reports = Some [Parsed (PDict [(''kind'', PStr ''other'')])], en_digest = Some ''d'', en_voice_unreadable = False,
      en_logs = [\<lparr>il_live = Lines [LogRecord [(''generated_text'', PStr ''hi'')]] False, il_corpus = Some []\<rparr>],
      en_measures = Some [(''distinctiveness'', PFloat (Fin (1 / 10)))], en_self_model = None, en_adapters = False\<rparr>"



text \<open>An integer no float can hold, measured by a voice, is raised through the verdict that is said never to raise.\<close>

lemma huge_measure_raises:
  assumes "\<not> en_voice_unreadable en" "has_spoken (en_logs en)" "en_measures en = Some [(''distinctiveness'', PInt (2 ^ 1024))]"
  shows "assess_divergence en t age max_age = Inl OverflowError"
  using assms by (simp add: assess_divergence_def voice_arm_def to_float_def fl_of_int_def fl_limit_def)


end
