(* ===== verification/IndividuationSchedule.thy ===== *)
theory IndividuationSchedule
  imports Individuation Clocks
begin

text \<open>
  Models \<open>kaine/cycle/individuation_scheduler.py\<close>: when the individuation instrument captures and looks, the
  account of lived time, and the stretch of failing captures (\<open>CaptureStretch\<close> of
  \<open>individuation_store.py\<close>). One call of \<open>tick\<close> is a function of what it meets: predicates give \<open>None\<close> where
  they raise, and a run of the core is the modelled one. The view kept for the monitor is left out.
\<close>

section \<open>State and surroundings\<close>

record sched_settings =
  ss_sleep_settle_s :: real
  ss_daily_s :: real
  ss_min_look_interval_s :: real
  ss_min_lived_time_s :: real
  ss_min_observations :: int
  ss_blocked_retry_s :: real
  ss_inconclusive_retry_s :: real
  ss_lived_persist_s :: real
  ss_capture_retry_initial_s :: real
  ss_capture_retry_max_s :: real

record stretch =
  sh_since :: string
  sh_alerted :: bool
  sh_reason :: "string option"

record sched =
  sc_store :: store
  sc_lived :: lived_accumulator
  sc_ticks :: "int option"
  sc_bound :: bool
  sc_asleep :: bool
  sc_look_due :: "real option"
  sc_daily :: "real option"
  sc_capture :: "string option"
  sc_regenerate :: bool
  sc_capture_at :: "real option"
  sc_backoff :: real
  sc_pending :: "real \<times> int"
  sc_flush_at :: "real option"
  sc_started :: bool
  sc_marked :: marked
  sc_stretch :: "stretch option"
  sc_since_known :: bool
  sc_stretch_file :: "stretch stored"
  sc_alerts :: "alert list"

record tick_env =
  te_m :: real
  te_end :: real
  te_clock :: "pyfloat option"
  te_paused_s :: "pyfloat option"
  te_index :: "int option"
  te_unloaded :: "bool option"
  te_paused :: "bool option"
  te_verifiable :: "bool option option"
  te_embedder :: "bool option"
  te_core :: probe_env
  te_mark :: mark_env
  te_clock_after :: "pyfloat option"
  te_paused_s_after :: "pyfloat option"
  te_index_after :: "int option"
  te_save_raises :: bool
  te_clear_raises :: bool

text \<open>The second component is False where the call raised; \<open>go\<close> is the next statement.\<close>

definition go :: "sched \<times> bool \<Rightarrow> (sched \<Rightarrow> sched \<times> bool) \<Rightarrow> sched \<times> bool" where
  "go r f = (if snd r then f (fst r) else r)"

definition safe :: "'a option \<Rightarrow> 'a \<Rightarrow> 'a" where
  "safe x d = (case x of None \<Rightarrow> d | Some v \<Rightarrow> v)"

section \<open>Small steps\<close>

definition refresh :: "sched \<Rightarrow> sched \<times> bool" where
  "refresh s =
     (case load_ledger (st_ledger (sc_store s)) of
        Inl StoreOverflow \<Rightarrow> (s, False)
      | _ \<Rightarrow> (s\<lparr>sc_marked := rearm (sc_marked s) (sc_store s)\<rparr>, True))"

definition schedule_look :: "real \<Rightarrow> sched \<Rightarrow> sched" where
  "schedule_look t s = s\<lparr>sc_look_due := Some (case sc_look_due s of None \<Rightarrow> t | Some d \<Rightarrow> min d t)\<rparr>"

text \<open>The state is refreshed only after a flush that wrote.\<close>

definition flush :: "sched \<Rightarrow> sched \<times> bool" where
  "flush s =
     (let (res, p, st) = flush_lived (sc_pending s, sc_store s);
          s' = s\<lparr>sc_pending := p, sc_store := st\<rparr>
      in case res of Inl _ \<Rightarrow> (s', False)
         | Inr _ \<Rightarrow> if st_ledger st \<noteq> st_ledger (sc_store s) then refresh s' else (s', True))"

definition reanchor_lived :: "tick_env \<Rightarrow> sched \<Rightarrow> sched" where
  "reanchor_lived e s =
     s\<lparr>sc_lived := snd (lived_step (te_clock_after e) (te_paused_s_after e) (sc_lived s)),
       sc_ticks := snd (tick_step (te_index_after e) (sc_ticks s)), sc_pending := (0, 0)\<rparr>"

definition reanchor_after_failed_capture :: "tick_env \<Rightarrow> sched \<Rightarrow> sched" where
  "reanchor_after_failed_capture e s =
     (if load_ledger (st_ledger (sc_store s)) = Inr None then reanchor_lived e s else s)"

definition blocked_reason :: "tick_env \<Rightarrow> bool \<Rightarrow> sched \<Rightarrow> string option" where
  "blocked_reason e for_look s =
     (if safe (te_unloaded e) True then Some ''organ_unloaded''
      else if sc_asleep s then Some ''asleep''
      else if safe (te_paused e) True then Some ''paused''
      else if (\<exists>v. te_verifiable e = Some v \<and> \<not> safe v False) then Some ''adapter_unverifiable''
      else if for_look \<and> \<not> safe (te_embedder e) False then Some ''embedder_not_ready''
      else None)"

definition add_alerts :: "alert list \<Rightarrow> sched \<Rightarrow> sched" where
  "add_alerts xs s = s\<lparr>sc_alerts := sc_alerts s @ xs\<rparr>"

definition mark :: "tick_env \<Rightarrow> string \<Rightarrow> sched \<Rightarrow> sched \<times> bool" where
  "mark e reason s =
     (let (res, m, st) = mark_inconclusive (te_mark e) (Some reason) (sc_marked s, sc_store s);
          s' = s\<lparr>sc_marked := m, sc_store := st\<rparr>
      in case res of Inl _ \<Rightarrow> (s', False) | Inr xs \<Rightarrow> (add_alerts xs s', True))"

definition tell_unreadable :: "tick_env \<Rightarrow> sched \<Rightarrow> sched" where
  "tell_unreadable e s =
     (let (m, xs) = alert_unreadable (te_mark e) (sc_marked s) in add_alerts xs (s\<lparr>sc_marked := m\<rparr>))"

section \<open>The stretch of failing captures\<close>

definition capture_failure_labels :: "string list" where
  "capture_failure_labels = inconclusive_reasons @ [''adapter_unverifiable'', ''error'']"

text \<open>A stored stretch that cannot be read counts as due, with an unknown start.\<close>

definition current_stretch :: "tick_env \<Rightarrow> sched \<Rightarrow> stretch \<times> bool" where
  "current_stretch e s =
     (let new = \<lparr>sh_since = mk_now (te_mark e), sh_alerted = False, sh_reason = None\<rparr> in
      case sc_stretch s of
        Some h \<Rightarrow> (h, sc_since_known s)
      | None \<Rightarrow> (case sc_stretch_file s of Missing \<Rightarrow> (new, True) | Garbled \<Rightarrow> (new, False) | Stored h \<Rightarrow> (h, True)))"

definition note_capture_failure :: "tick_env \<Rightarrow> string \<Rightarrow> sched \<Rightarrow> sched" where
  "note_capture_failure e reason s =
     (let label = (if reason \<in> set capture_failure_labels then reason else ''unclassified_failure'');
          (h, known) = current_stretch e s;
          elapsed = (if known then mk_elapsed (te_mark e) (sh_since h) else None);
          due = (case elapsed of None \<Rightarrow> True | Some x \<Rightarrow> mk_alert_s (te_mark e) \<le> x);
          tell = (due \<and> \<not> sh_alerted h \<and> \<not> mk_raises (te_mark e) (CaptureFailing label));
          h' = h\<lparr>sh_alerted := sh_alerted h \<or> tell, sh_reason := Some label\<rparr>
      in add_alerts (if tell then [CaptureFailing label] else [])
           (s\<lparr>sc_stretch := Some h', sc_since_known := known,
              sc_stretch_file := (if te_save_raises e then sc_stretch_file s else Stored h')\<rparr>))"

definition clear_stretch :: "tick_env \<Rightarrow> sched \<Rightarrow> sched" where
  "clear_stretch e s =
     s\<lparr>sc_stretch := None, sc_since_known := True,
       sc_stretch_file := (if te_clear_raises e then sc_stretch_file s else Missing)\<rparr>"

section \<open>A capture and a look\<close>

definition back_off :: "sched_settings \<Rightarrow> tick_env \<Rightarrow> sched \<Rightarrow> sched" where
  "back_off ss e s =
     s\<lparr>sc_capture_at := Some (te_end e + sc_backoff s), sc_backoff := min (2 * sc_backoff s) (ss_capture_retry_max_s ss)\<rparr>"

definition no_capture :: "sched \<Rightarrow> sched" where
  "no_capture s = s\<lparr>sc_capture := None, sc_regenerate := False, sc_capture_at := None\<rparr>"

definition attempt_capture :: "settings \<Rightarrow> sched_settings \<Rightarrow> tick_env \<Rightarrow> string \<Rightarrow> sched \<Rightarrow> sched \<times> bool" where
  "attempt_capture ps ss e kind s =
     (case blocked_reason e False s of
        Some r \<Rightarrow>
          go (refresh (s\<lparr>sc_capture_at := Some (te_m e + ss_blocked_retry_s ss)\<rparr>)) (\<lambda>s. (note_capture_failure e r s, True))
      | None \<Rightarrow>
          go (flush s) (\<lambda>s.
            (let (res, st) = capture_reference ps (te_core e) kind (sc_regenerate s) (sc_store s); s1 = s\<lparr>sc_store := st\<rparr>
             in case res of
                  Inl ReferenceExists \<Rightarrow> refresh (no_capture (clear_stretch e s1))
                | Inl x \<Rightarrow>
                    (let s2 = reanchor_after_failed_capture e (back_off ss e s1)
                     in if x = LedgerUnreadable
                        then (note_capture_failure e ''ledger_unreadable'' (tell_unreadable e s2), True)
                        else (note_capture_failure e ''error'' s2, True))
                | Inr (NotCaptured r) \<Rightarrow>
                    (note_capture_failure e r (reanchor_after_failed_capture e (back_off ss e s1)), True)
                | Inr (Captured doc) \<Rightarrow>
                    refresh (reanchor_lived e ((no_capture (clear_stretch e s1))
                      \<lparr>sc_backoff := ss_capture_retry_initial_s ss\<rparr>)))))"

text \<open>Why no look is due although the time has come: too little lived, or too soon after the last one.\<close>

definition hold_off :: "sched_settings \<Rightarrow> tick_env \<Rightarrow> sched \<Rightarrow> ledger \<Rightarrow> real option option" where
  "hold_off ss e s l =
     (if lg_lived l + fst (sc_pending s) < ss_min_lived_time_s ss \<or> lg_ticks l + snd (sc_pending s) < ss_min_observations ss
      then Some None
      else case lg_last_look_at l of
             None \<Rightarrow> None
           | Some t \<Rightarrow>
               (let elapsed = safe (mk_elapsed (te_mark e) t) (ss_min_look_interval_s ss)
                in if elapsed < ss_min_look_interval_s ss then Some (Some (te_m e + (ss_min_look_interval_s ss - elapsed)))
                   else None))"

definition core_look_due :: "tick_env \<Rightarrow> sched \<Rightarrow> bool" where
  "core_look_due e s = (case look_due (te_core e) (sc_store s) of Inl _ \<Rightarrow> True | Inr b \<Rightarrow> b)"

definition run_look :: "settings \<Rightarrow> sched_settings \<Rightarrow> tick_env \<Rightarrow> sched \<Rightarrow> sched \<times> bool" where
  "run_look ps ss e s =
     (case load_ledger (st_ledger (sc_store s)) of
        Inl StoreOverflow \<Rightarrow> (s, False)
      | before \<Rightarrow>
          (let (lived, ticks, seen) = (case before of Inr (Some l) \<Rightarrow> (lg_lived l, lg_ticks l, Some (lg_looks l)) | _ \<Rightarrow> (0, 0, None));
               (res, st) = look ps (te_core e) True lived ticks (sc_store s);
               s1 = s\<lparr>sc_store := st\<rparr>;
               retry = s1\<lparr>sc_look_due := Some (te_end e + ss_inconclusive_retry_s ss)\<rparr>;
               done' = s1\<lparr>sc_look_due := None\<rparr>
           in case res of
                Inr (Scored sig) \<Rightarrow> refresh done'
              | Inr Unchanged \<Rightarrow> refresh done'
              | Inr (Inconclusive r) \<Rightarrow> go (mark e r retry) refresh
              | Inl _ \<Rightarrow>
                  (case load_ledger (st_ledger st) of
                     Inl StoreOverflow \<Rightarrow> (s1, False)
                   | after \<Rightarrow>
                       if (\<exists>l k. after = Inr (Some l) \<and> seen = Some k \<and> k < lg_looks l) then refresh done'
                       else mark e ''error'' retry)))"

definition attempt_look :: "settings \<Rightarrow> sched_settings \<Rightarrow> tick_env \<Rightarrow> sched \<Rightarrow> sched \<times> bool" where
  "attempt_look ps ss e s =
     (if st_reference (sc_store s) = Missing then refresh (s\<lparr>sc_look_due := None\<rparr>)
      else case load_ledger (st_ledger (sc_store s)) of
        Inl StoreOverflow \<Rightarrow> (s, False)
      | lo \<Rightarrow>
          (case (case lo of Inr (Some l) \<Rightarrow> hold_off ss e s l | _ \<Rightarrow> None) of
             Some again \<Rightarrow> refresh (s\<lparr>sc_look_due := again\<rparr>)
           | None \<Rightarrow>
               (case blocked_reason e True s of
                  Some r \<Rightarrow>
                    go (refresh (s\<lparr>sc_look_due := Some (te_m e + ss_blocked_retry_s ss)\<rparr>))
                      (\<lambda>s. if core_look_due e s then mark e r s else (s, True))
                | None \<Rightarrow> go (flush s) (run_look ps ss e))))"

section \<open>A tick\<close>

definition start :: "sched_settings \<Rightarrow> tick_env \<Rightarrow> sched \<Rightarrow> sched \<times> bool" where
  "start ss e s =
     (if sc_started s then (s, True)
      else refresh ((schedule_look (te_m e + ss_sleep_settle_s ss) (s\<lparr>sc_started := True\<rparr>))
             \<lparr>sc_daily := Some (te_m e + ss_daily_s ss), sc_flush_at := Some (te_m e + ss_lived_persist_s ss)\<rparr>))"

definition count_lived :: "tick_env \<Rightarrow> sched \<Rightarrow> sched" where
  "count_lived e s =
     (let (ds, lived) = lived_step (te_clock e) (te_paused_s e) (sc_lived s); (dt, base) = tick_step (te_index e) (sc_ticks s)
      in s\<lparr>sc_lived := lived, sc_ticks := base, sc_pending := (fst (sc_pending s) + ds, snd (sc_pending s) + dt)\<rparr>)"

definition due :: "tick_env \<Rightarrow> real option \<Rightarrow> bool" where
  "due e t \<longleftrightarrow> (case t of None \<Rightarrow> False | Some t \<Rightarrow> t \<le> te_m e)"

definition periodic_flush :: "sched_settings \<Rightarrow> tick_env \<Rightarrow> sched \<Rightarrow> sched \<times> bool" where
  "periodic_flush ss e s =
     (if due e (sc_flush_at s)
      then go (flush s) (\<lambda>s. (s\<lparr>sc_flush_at := Some (te_m e + ss_lived_persist_s ss)\<rparr>, True))
      else (s, True))"

definition daily_look :: "sched_settings \<Rightarrow> tick_env \<Rightarrow> sched \<Rightarrow> sched" where
  "daily_look ss e s =
     (if due e (sc_daily s) then (schedule_look (te_m e) s)\<lparr>sc_daily := Some (te_m e + ss_daily_s ss)\<rparr> else s)"

definition sched_tick :: "settings \<Rightarrow> sched_settings \<Rightarrow> tick_env \<Rightarrow> sched \<Rightarrow> sched \<times> bool" where
  "sched_tick ps ss e s =
     go (start ss e s) (\<lambda>s.
     go (periodic_flush ss e (count_lived e s)) (\<lambda>s.
       (let s = daily_look ss e s in
        if \<not> sc_bound s then (s, True)
        else if due e (sc_capture_at s) \<and> sc_capture s \<noteq> None then attempt_capture ps ss e (the (sc_capture s)) s
        else if due e (sc_look_due s) then attempt_look ps ss e s
        else (s, True))))"

text \<open>What other parts call in between; \<open>Finish\<close> is the flush at the end of \<open>run\<close>.\<close>

datatype sched_op =
    Tick tick_env | Bind | SleepStarted | SleepCompleted real | RequestCapture string bool real | Finish

definition sched_step :: "settings \<Rightarrow> sched_settings \<Rightarrow> sched \<Rightarrow> sched_op \<Rightarrow> sched" where
  "sched_step ps ss s op' =
     (case op' of
        Tick e \<Rightarrow> fst (sched_tick ps ss e s)
      | Bind \<Rightarrow> s\<lparr>sc_bound := True\<rparr>
      | SleepStarted \<Rightarrow> s\<lparr>sc_asleep := True\<rparr>
      | SleepCompleted m \<Rightarrow>
          schedule_look (m + ss_sleep_settle_s ss)
            (s\<lparr>sc_asleep := False, sc_capture := (if sc_capture s = Some ''maturation'' then Some ''capture'' else sc_capture s)\<rparr>)
      | RequestCapture kind regenerate m \<Rightarrow>
          s\<lparr>sc_capture := Some kind, sc_regenerate := regenerate, sc_capture_at := Some m,
            sc_backoff := ss_capture_retry_initial_s ss\<rparr>
      | Finish \<Rightarrow> fst (flush s))"

section \<open>What a tick does to the ledger\<close>

definition ledger_of :: "sched \<Rightarrow> ledger option" where
  "ledger_of s = (case load_ledger (st_ledger (sc_store s)) of Inr lo \<Rightarrow> lo | Inl _ \<Rightarrow> None)"

lemma ledger_of_Some: "ledger_of s = Some l \<longleftrightarrow> load_ledger (st_ledger (sc_store s)) = Inr (Some l)"
  by (simp add: ledger_of_def split: sum.split)

lemma go_ok [simp]: "snd (go r f) \<longleftrightarrow> snd r \<and> snd (f (fst r))"
  by (simp add: go_def)

lemma refresh_fields [simp]:
  "sc_store (fst (refresh s)) = sc_store s" "sc_pending (fst (refresh s)) = sc_pending s"
  "sc_asleep (fst (refresh s)) = sc_asleep s" "sc_bound (fst (refresh s)) = sc_bound s"
  "sc_capture (fst (refresh s)) = sc_capture s" "sc_stretch (fst (refresh s)) = sc_stretch s"
  "sc_alerts (fst (refresh s)) = sc_alerts s"
  by (simp_all add: refresh_def split: sum.split store_error.split)

lemma schedule_look_fields [simp]:
  "sc_store (schedule_look t s) = sc_store s" "sc_pending (schedule_look t s) = sc_pending s"
  "sc_asleep (schedule_look t s) = sc_asleep s" "sc_bound (schedule_look t s) = sc_bound s"
  "sc_capture (schedule_look t s) = sc_capture s" "sc_stretch (schedule_look t s) = sc_stretch s"
  "sc_alerts (schedule_look t s) = sc_alerts s"
  by (simp_all add: schedule_look_def)

lemma note_fields [simp]:
  "sc_store (note_capture_failure e r s) = sc_store s" "sc_capture (note_capture_failure e r s) = sc_capture s"
  by (simp_all add: note_capture_failure_def Let_def add_alerts_def case_prod_unfold)

lemma reanchor_fields [simp]:
  "sc_store (reanchor_lived e s) = sc_store s" "sc_capture (reanchor_lived e s) = sc_capture s"
  "sc_stretch (reanchor_lived e s) = sc_stretch s" "sc_alerts (reanchor_lived e s) = sc_alerts s"
  "sc_store (reanchor_after_failed_capture e s) = sc_store s"
  "sc_stretch (reanchor_after_failed_capture e s) = sc_stretch s"
  "sc_alerts (reanchor_after_failed_capture e s) = sc_alerts s"
  by (simp_all add: reanchor_lived_def reanchor_after_failed_capture_def)

lemma small_fields [simp]:
  "sc_store (back_off ss e s) = sc_store s" "sc_stretch (back_off ss e s) = sc_stretch s" "sc_alerts (back_off ss e s) = sc_alerts s"
  "sc_store (no_capture s) = sc_store s" "sc_capture (no_capture s) = None"
  "sc_store (clear_stretch e s) = sc_store s" "sc_store (tell_unreadable e s) = sc_store s"
  "sc_stretch (tell_unreadable e s) = sc_stretch s"
  by (simp_all add: back_off_def no_capture_def clear_stretch_def tell_unreadable_def add_alerts_def case_prod_unfold Let_def)

lemma sound_read: "load_ledger f = Inr (Some l) \<Longrightarrow> sound_ledger l"
proof -
  have opt: "\<forall>r. opt_str x \<noteq> PStr r \<Longrightarrow> opt_str x = PNone" for x
    by (cases x) simp_all
  have count: "as_count v = Inr n \<Longrightarrow> 0 \<le> n" for v n
    by (cases v rule: as_count.cases) (auto split: if_splits)
  have lived: "as_lived v = Inr x \<Longrightarrow> 0 \<le> x" for v x
    by (cases v rule: as_lived.cases)
      (auto simp: check_def fl_of_int_def split: if_splits sum.splits pyfloat.splits)
  assume "load_ledger f = Inr (Some l)"
  then obtain d where "ledger_from_dict d = Inr l" by (cases f) auto
  then show ?thesis
    using opt count lived
    by (auto simp: ledger_from_dict_def sound_ledger_def check_def split: if_splits)
qed

lemma flush_reads:
  assumes "ledger_of s = Some l" "0 \<le> fst (sc_pending s)" "0 \<le> snd (sc_pending s)"
  shows "ledger_of (fst (flush s)) =
      Some (l\<lparr>lg_lived := lg_lived l + fst (sc_pending s), lg_ticks := lg_ticks l + snd (sc_pending s)\<rparr>)" (is ?reads)
    and "sc_pending (fst (flush s)) = (0, 0)"
proof -
  obtain ps pt where p: "sc_pending s = (ps, pt)" by (cases "sc_pending s")
  let ?l = "l\<lparr>lg_lived := lg_lived l + ps, lg_ticks := lg_ticks l + pt\<rparr>"
  have load: "load_ledger (st_ledger (sc_store s)) = Inr (Some l)" using assms(1) by (simp add: ledger_of_Some)
  have sound: "sound_ledger ?l" using sound_read [OF load] assms(2,3) p by (auto simp: sound_ledger_def)
  have saved: "save_ledger ?l (st_ledger (sc_store s)) = Inr (Stored (ledger_to_dict ?l))"
    using load assms(2,3) p by (simp add: save_ledger_def regresses_def)
  have same: "?l = l" if "Stored (ledger_to_dict ?l) = st_ledger (sc_store s)"
    using load_saved [of ?l] sound load that by simp
  show ?reads "sc_pending (fst (flush s)) = (0, 0)"
    using load saved sound p same
    by (auto simp: flush_def flush_lived_def Let_def ledger_of_def load_saved simp del: load_ledger.simps(3) split: if_splits)
qed

lemma flush_fields [simp]:
  "sc_asleep (fst (flush s)) = sc_asleep s" "sc_bound (fst (flush s)) = sc_bound s"
  "sc_capture (fst (flush s)) = sc_capture s" "sc_stretch (fst (flush s)) = sc_stretch s"
  "sc_alerts (fst (flush s)) = sc_alerts s" "st_reference (sc_store (fst (flush s))) = st_reference (sc_store s)"
  by (simp_all add: flush_def Let_def case_prod_unfold flush_lived_def split: sum.split option.split store_error.split)


lemma touched_moves:
  assumes "st_ledger st' = st_ledger st \<or> touched st st'" "load_ledger (st_ledger st) = Inr (Some l)"
    and "load_ledger (st_ledger st') = Inr (Some l')"
  shows "lg_looks l' = lg_looks l \<and> lg_lived l \<le> lg_lived l' \<and> lg_ticks l \<le> lg_ticks l'"
  using assms(1)
proof
  assume "touched st st'"
  with assms(2) obtain k where k: "st_ledger st' = Stored (ledger_to_dict k)" "moved_on l k"
    unfolding touched_def by auto
  then have "k = l'" using assms(3) by (simp add: load_saved del: load_ledger.simps(3) split: if_splits)
  with k(2) show ?thesis by (simp add: moved_on_def)
qed (use assms in simp)

lemma mark_store: "sc_store (fst (mark e r s)) = snd (snd (mark_inconclusive (te_mark e) (Some r) (sc_marked s, sc_store s)))"
  by (simp add: mark_def Let_def case_prod_unfold add_alerts_def split: sum.split)

lemma mark_touched: "st_ledger (sc_store (fst (mark e r s))) = st_ledger (sc_store s) \<or> touched (sc_store s) (sc_store (fst (mark e r s)))"
  unfolding mark_store using mark_writes by blast

lemma attempt_capture_store:
  "sc_store (fst (attempt_capture ps ss e kind s)) \<in> {sc_store s, sc_store (fst (flush s)),
     snd (capture_reference ps (te_core e) kind (sc_regenerate (fst (flush s))) (sc_store (fst (flush s))))}"
proof (cases "blocked_reason e False s")
  case (Some r)
  then show ?thesis by (simp add: attempt_capture_def go_def)
next
  case None
  obtain res st where c: "capture_reference ps (te_core e) kind (sc_regenerate (fst (flush s))) (sc_store (fst (flush s))) = (res, st)"
    by (cases "capture_reference ps (te_core e) kind (sc_regenerate (fst (flush s))) (sc_store (fst (flush s)))")
  show ?thesis
  proof (cases res)
    case (Inl x)
    then show ?thesis using None c by (cases x) (simp_all add: attempt_capture_def go_def Let_def)
  next
    case (Inr r)
    then show ?thesis using None c by (cases r) (simp_all add: attempt_capture_def go_def Let_def)
  qed
qed

lemma attempt_capture_looks:
  assumes "ledger_of s = Some l" "ledger_of (fst (attempt_capture ps ss e kind s)) = Some l'"
    and "0 \<le> fst (sc_pending s)" "0 \<le> snd (sc_pending s)"
  shows "lg_looks l' = lg_looks l"
proof -
  let ?f = "fst (flush s)"
  let ?l = "l\<lparr>lg_lived := lg_lived l + fst (sc_pending s), lg_ticks := lg_ticks l + snd (sc_pending s)\<rparr>"
  have f: "ledger_of ?f = Some ?l" using flush_reads(1) [OF assms(1,3,4)] .
  consider "sc_store (fst (attempt_capture ps ss e kind s)) = sc_store s"
    | "sc_store (fst (attempt_capture ps ss e kind s)) = sc_store ?f"
    | "sc_store (fst (attempt_capture ps ss e kind s)) = snd (capture_reference ps (te_core e) kind (sc_regenerate ?f) (sc_store ?f))"
    using attempt_capture_store [of ps ss e kind s] by blast
  then show ?thesis
  proof cases
    case 1
    with assms show ?thesis by (simp add: ledger_of_def)
  next
    case 2
    with assms f show ?thesis by (auto simp: ledger_of_def)
  next
    case 3
    then have "st_ledger (sc_store (fst (attempt_capture ps ss e kind s))) = st_ledger (sc_store ?f) \<or>
        touched (sc_store ?f) (sc_store (fst (attempt_capture ps ss e kind s)))"
      using capture_writes by metis
    from touched_moves [OF this f [unfolded ledger_of_Some] assms(2) [unfolded ledger_of_Some]] show ?thesis by simp
  qed
qed

lemma run_look_store:
  assumes "ledger_of s = Some l"
    and "st = snd (look ps (te_core e) True (lg_lived l) (lg_ticks l) (sc_store s))"
  shows "sc_store (fst (run_look ps ss e s)) = st \<or>
    (\<exists>r m. sc_store (fst (run_look ps ss e s)) = snd (snd (mark_inconclusive (te_mark e) (Some r) (m, st))))"
proof -
  obtain res where look: "look ps (te_core e) True (lg_lived l) (lg_ticks l) (sc_store s) = (res, st)"
    using assms(2) by (cases "look ps (te_core e) True (lg_lived l) (lg_ticks l) (sc_store s)") simp
  have load: "load_ledger (st_ledger (sc_store s)) = Inr (Some l)" using assms(1) by (simp add: ledger_of_Some)
  show ?thesis
  proof (cases res)
    case (Inl x)
    then show ?thesis
      using look load
      by (auto simp: run_look_def Let_def mark_store split: sum.split store_error.split option.split)
  next
    case (Inr r)
    then show ?thesis
      using look load by (cases r) (auto simp: run_look_def Let_def go_def mark_store)
  qed
qed

lemma run_look_scores:
  assumes "ledger_of s = Some l" "ledger_of (fst (run_look ps ss e s)) = Some l'" "lg_looks l < lg_looks l'"
  shows "lg_looks l' = lg_looks l + 1 \<and> lg_lived l \<le> lg_lived l' \<and> lg_ticks l \<le> lg_ticks l'"
proof -
  let ?st = "snd (look ps (te_core e) True (lg_lived l) (lg_ticks l) (sc_store s))"
  let ?s' = "sc_store (fst (run_look ps ss e s))"
  have load: "load_ledger (st_ledger (sc_store s)) = Inr (Some l)" "load_ledger (st_ledger ?s') = Inr (Some l')"
    using assms(1,2) by (simp_all add: ledger_of_Some)
  have after: "st_ledger ?s' = st_ledger ?st \<or> touched ?st ?s'"
    using run_look_store [OF assms(1) refl, where ps = ps and e = e and ss = ss] mark_writes by metis
  have "st_ledger ?st \<noteq> st_ledger (sc_store s)"
    using touched_moves [OF after _ load(2)] load(1) assms(3) by fastforce
  from look_writes [OF this] load(1) obtain ref before alpha_k sig where
    w: "st_ledger ?st = Stored (ledger_to_dict (score_ledger (te_core e) before alpha_k sig (lg_lived l) (lg_ticks l) l))"
    by auto
  let ?k = "score_ledger (te_core e) before alpha_k sig (lg_lived l) (lg_ticks l) l"
  have k: "lg_looks ?k = lg_looks l + 1" "lg_lived l \<le> lg_lived ?k" "lg_ticks l \<le> lg_ticks ?k"
    by (simp_all add: score_ledger_def Let_def)
  have "load_ledger (st_ledger ?st) = Inr (Some ?k)"
  proof (cases "sound_ledger ?k")
    case True
    then show ?thesis unfolding w by (simp add: load_saved del: load_ledger.simps(3))
  next
    case False
    then have "load_ledger (st_ledger ?st) = Inl LedgerUnreadable" unfolding w by (simp add: load_saved del: load_ledger.simps(3))
    with after load(2) show ?thesis by (auto simp: touched_def)
  qed
  from touched_moves [OF after this load(2)] k show ?thesis by simp
qed


lemma attempt_look_waits:
  assumes "ledger_of s = Some l" "ledger_of (fst (attempt_look ps ss e s)) = Some l'" "lg_looks l < lg_looks l'"
    and "0 \<le> fst (sc_pending s)" "0 \<le> snd (sc_pending s)"
  shows "blocked_reason e True s = None \<and> lg_looks l' = lg_looks l + 1 \<and> ss_min_lived_time_s ss \<le> lg_lived l' \<and>
    ss_min_observations ss \<le> lg_ticks l' \<and>
    (\<forall>t x. lg_last_look_at l = Some t \<and> mk_elapsed (te_mark e) t = Some x \<longrightarrow> ss_min_look_interval_s ss \<le> x)"
proof -
  let ?f = "fst (flush s)" and ?s' = "fst (attempt_look ps ss e s)"
  let ?l = "l\<lparr>lg_lived := lg_lived l + fst (sc_pending s), lg_ticks := lg_ticks l + snd (sc_pending s)\<rparr>"
  have load: "load_ledger (st_ledger (sc_store s)) = Inr (Some l)" using assms(1) by (simp add: ledger_of_Some)
  have not_same: "sc_store ?s' \<noteq> sc_store s" using assms(1-3) by (auto simp: ledger_of_def)
  have not_marked: "sc_store ?s' = sc_store (fst (mark e r t)) \<Longrightarrow> sc_store t = sc_store s \<Longrightarrow> False" for r t
    using touched_moves [OF mark_touched [of e r t]] load assms(2,3) by (fastforce simp: ledger_of_Some)
  have ref: "st_reference (sc_store s) \<noteq> Missing" using not_same by (auto simp: attempt_look_def)
  have free: "hold_off ss e s l = None" using not_same ref load by (auto simp: attempt_look_def split: option.splits)
  have unblocked: "blocked_reason e True s = None"
  proof (rule ccontr)
    assume "blocked_reason e True s \<noteq> None"
    then obtain r where r: "blocked_reason e True s = Some r" by blast
    let ?t = "fst (refresh (s\<lparr>sc_look_due := Some (te_m e + ss_blocked_retry_s ss)\<rparr>))"
    have "?s' = ?t \<or> ?s' = fst (mark e r ?t)"
      using r ref load free by (simp add: attempt_look_def go_def)
    then show False
    proof
      assume "?s' = ?t"
      with not_same show False by simp
    next
      assume "?s' = fst (mark e r ?t)"
      then show False using not_marked [of r ?t] by simp
    qed
  qed
  have run: "?s' = (if snd (flush s) then fst (run_look ps ss e ?f) else ?f)"
    using ref load free unblocked by (simp add: attempt_look_def go_def)
  have f: "ledger_of ?f = Some ?l" using flush_reads(1) [OF assms(1,4,5)] .
  have ok: "snd (flush s)" using run f assms(2,3) by (auto split: if_splits)
  have "lg_looks l' = lg_looks l + 1 \<and> lg_lived l + fst (sc_pending s) \<le> lg_lived l' \<and> lg_ticks l + snd (sc_pending s) \<le> lg_ticks l'"
    using run_look_scores [OF f, of ps ss e l'] run ok assms(2,3) by simp
  moreover have "ss_min_lived_time_s ss \<le> lg_lived l + fst (sc_pending s)" "ss_min_observations ss \<le> lg_ticks l + snd (sc_pending s)"
      "\<forall>t x. lg_last_look_at l = Some t \<and> mk_elapsed (te_mark e) t = Some x \<longrightarrow> ss_min_look_interval_s ss \<le> x"
    using free by (auto simp: hold_off_def safe_def Let_def split: if_splits)
  ultimately show ?thesis using unblocked by (intro conjI) (linarith | blast)+
qed

lemma tick_step_nonneg: "0 \<le> fst (tick_step i b)"
  by (simp add: tick_step_def split: option.split)

lemma start_fields [simp]:
  "sc_store (fst (start ss e s)) = sc_store s" "sc_pending (fst (start ss e s)) = sc_pending s"
  "sc_asleep (fst (start ss e s)) = sc_asleep s" "sc_bound (fst (start ss e s)) = sc_bound s"
  "sc_capture (fst (start ss e s)) = sc_capture s" "sc_stretch (fst (start ss e s)) = sc_stretch s"
  "sc_alerts (fst (start ss e s)) = sc_alerts s"
  by (simp_all add: start_def)

lemma count_lived_fields [simp]:
  "sc_store (count_lived e s) = sc_store s" "sc_asleep (count_lived e s) = sc_asleep s" "sc_bound (count_lived e s) = sc_bound s"
  "sc_capture (count_lived e s) = sc_capture s" "sc_stretch (count_lived e s) = sc_stretch s" "sc_alerts (count_lived e s) = sc_alerts s"
  by (simp_all add: count_lived_def case_prod_unfold Let_def)

lemma count_lived_pending:
  "0 \<le> fst (sc_pending s) \<Longrightarrow> 0 \<le> fst (sc_pending (count_lived e s))"
  "0 \<le> snd (sc_pending s) \<Longrightarrow> 0 \<le> snd (sc_pending (count_lived e s))"
  using lived_step_nonneg [of "te_clock e" "te_paused_s e" "sc_lived s"] tick_step_nonneg [of "te_index e" "sc_ticks s"]
  by (simp_all add: count_lived_def case_prod_unfold Let_def)

lemma daily_look_fields [simp]:
  "sc_store (daily_look ss e s) = sc_store s" "sc_pending (daily_look ss e s) = sc_pending s"
  "sc_asleep (daily_look ss e s) = sc_asleep s" "sc_bound (daily_look ss e s) = sc_bound s"
  "sc_capture (daily_look ss e s) = sc_capture s" "sc_stretch (daily_look ss e s) = sc_stretch s"
  "sc_alerts (daily_look ss e s) = sc_alerts s"
  by (simp_all add: daily_look_def)

lemma periodic_flush_fields [simp]:
  "sc_asleep (fst (periodic_flush ss e s)) = sc_asleep s" "sc_bound (fst (periodic_flush ss e s)) = sc_bound s"
  "sc_capture (fst (periodic_flush ss e s)) = sc_capture s" "sc_stretch (fst (periodic_flush ss e s)) = sc_stretch s"
  "sc_alerts (fst (periodic_flush ss e s)) = sc_alerts s"
  by (simp_all add: periodic_flush_def go_def)

lemma periodic_flush_reads:
  assumes "ledger_of s = Some l" "0 \<le> fst (sc_pending s)" "0 \<le> snd (sc_pending s)"
  shows "\<exists>k. ledger_of (fst (periodic_flush ss e s)) = Some k \<and> lg_looks k = lg_looks l \<and> lg_last_look_at k = lg_last_look_at l"
    and "0 \<le> fst (sc_pending (fst (periodic_flush ss e s)))" "0 \<le> snd (sc_pending (fst (periodic_flush ss e s)))"
  using flush_reads [OF assms] assms by (auto simp: periodic_flush_def go_def ledger_of_def)

section \<open>The alert on failing captures\<close>

fun is_failing :: "alert \<Rightarrow> bool" where
  "is_failing (CaptureFailing _) = True"
| "is_failing _ = False"

definition failing_alerts :: "sched \<Rightarrow> nat" where
  "failing_alerts s = length (filter is_failing (sc_alerts s))"

definition alerted :: "sched \<Rightarrow> nat" where
  "alerted s = (if \<exists>h. sc_stretch s = Some h \<and> sh_alerted h then 1 else 0)"

text \<open>An alert is paid for by the mark that it was given.\<close>

definition paid :: "sched \<Rightarrow> sched \<Rightarrow> bool" where
  "paid s s' \<longleftrightarrow> failing_alerts s' + alerted s \<le> failing_alerts s + alerted s'"

lemma paid_trans: "paid s t \<Longrightarrow> paid t u \<Longrightarrow> paid s u"
  unfolding paid_def by linarith

lemma paid_same: "sc_stretch s' = sc_stretch s \<Longrightarrow> sc_alerts s' = sc_alerts s \<Longrightarrow> paid s s'"
  by (simp add: paid_def failing_alerts_def alerted_def)

lemma paid_other_alerts:
  "sc_stretch s' = sc_stretch s \<Longrightarrow> sc_alerts s' = sc_alerts s @ xs \<Longrightarrow> \<forall>x \<in> set xs. \<not> is_failing x \<Longrightarrow> paid s s'"
  by (simp add: paid_def failing_alerts_def alerted_def)

lemma mark_ledger_alerts: "\<forall>x \<in> set (snd (snd (mark_ledger e reason m l))). \<not> is_failing x"
  by (auto simp: mark_ledger_def Let_def)

lemma unreadable_alerts: "\<forall>x \<in> set (snd (alert_unreadable e m)). \<not> is_failing x"
  by (simp add: alert_unreadable_def)

lemma mark_alerts:
  assumes "mark_inconclusive me reason (m, st) = (Inr xs, m', st')"
  shows "\<forall>x \<in> set xs. \<not> is_failing x"
proof (cases "load_ledger (st_ledger st)")
  case (Inl x)
  then show ?thesis
    using assms unreadable_alerts [of me m]
    by (cases x; cases "alert_unreadable me m") (simp_all add: mark_inconclusive_def)
next
  case (Inr lo)
  show ?thesis
  proof (cases lo)
    case (Some l)
    then show ?thesis
      using assms Inr mark_ledger_alerts [of me reason m l]
      by (cases "mark_ledger me reason m l") (simp add: mark_inconclusive_def Let_def)
  qed (use assms Inr in \<open>simp add: mark_inconclusive_def\<close>)
qed

lemma paid_mark: "paid s (fst (mark e r s))"
proof -
  obtain res m' st' where m: "mark_inconclusive (te_mark e) (Some r) (sc_marked s, sc_store s) = (res, m', st')"
    by (cases "mark_inconclusive (te_mark e) (Some r) (sc_marked s, sc_store s)")
  show ?thesis
  proof (cases res)
    case (Inl x)
    with m show ?thesis by (intro paid_same) (simp_all add: mark_def)
  next
    case (Inr xs)
    with m mark_alerts [of "te_mark e" "Some r" "sc_marked s" "sc_store s" xs m' st'] show ?thesis
      by (intro paid_other_alerts [where xs = xs]) (simp_all add: mark_def add_alerts_def)
  qed
qed

lemma paid_tell: "paid s (tell_unreadable e s)"
  by (cases "alert_unreadable (te_mark e) (sc_marked s)")
    (auto simp: tell_unreadable_def add_alerts_def alert_unreadable_def split: if_splits intro!: paid_other_alerts)

lemma paid_note: "paid s (note_capture_failure e r s)"
proof -
  obtain h known where h: "current_stretch e s = (h, known)" by (cases "current_stretch e s")
  then have "sc_stretch s = Some h' \<Longrightarrow> h = h'" for h' by (simp add: current_stretch_def)
  then show ?thesis
    using h by (auto simp: paid_def failing_alerts_def alerted_def note_capture_failure_def add_alerts_def Let_def)
qed

lemma paid_attempt_capture:
  assumes "sc_capture (fst (attempt_capture ps ss e kind s)) \<noteq> None"
  shows "paid s (fst (attempt_capture ps ss e kind s))"
proof (cases "blocked_reason e False s")
  case (Some r)
  let ?t = "fst (refresh (s\<lparr>sc_capture_at := Some (te_m e + ss_blocked_retry_s ss)\<rparr>))"
  have "paid s ?t" by (rule paid_same) simp_all
  then show ?thesis using Some paid_trans paid_note by (auto simp: attempt_capture_def go_def)
next
  case None
  let ?f = "fst (flush s)"
  have f: "paid s ?f" by (rule paid_same) simp_all
  obtain res st where c: "capture_reference ps (te_core e) kind (sc_regenerate ?f) (sc_store ?f) = (res, st)"
    by (cases "capture_reference ps (te_core e) kind (sc_regenerate ?f) (sc_store ?f)")
  let ?s2 = "reanchor_after_failed_capture e (back_off ss e (?f\<lparr>sc_store := st\<rparr>))"
  have s2: "paid s ?s2" using f paid_trans paid_same [of ?s2 ?f] by simp
  have noted: "paid s (note_capture_failure e r ?s2)" "paid s (note_capture_failure e r (tell_unreadable e ?s2))" for r
    using s2 paid_note paid_tell paid_trans by blast+
  show ?thesis
  proof (cases "snd (flush s)")
    case True
    show ?thesis
    proof (cases res)
      case (Inl x)
      then show ?thesis using None c True noted assms by (cases x) (simp_all add: attempt_capture_def go_def Let_def)
    next
      case (Inr r)
      then show ?thesis using None c True noted assms by (cases r) (simp_all add: attempt_capture_def go_def Let_def)
    qed
  next
    case False
    then show ?thesis using None f by (simp add: attempt_capture_def go_def)
  qed
qed

lemma run_look_cases:
  obtains (raised) "fst (run_look ps ss e s) = s"
    | (lost) st where "fst (run_look ps ss e s) = s\<lparr>sc_store := st\<rparr>"
    | (over) st d where "fst (run_look ps ss e s) = fst (refresh (s\<lparr>sc_store := st, sc_look_due := d\<rparr>))"
    | (marked) r st d where "fst (run_look ps ss e s) = fst (mark e r (s\<lparr>sc_store := st, sc_look_due := d\<rparr>))"
    | (both) r st d where "fst (run_look ps ss e s) = fst (go (mark e r (s\<lparr>sc_store := st, sc_look_due := d\<rparr>)) refresh)"
proof -
  show ?thesis
  proof (cases "load_ledger (st_ledger (sc_store s)) = Inl StoreOverflow")
    case True
    then show ?thesis using raised by (simp add: run_look_def)
  next
    case False
    define before where "before = load_ledger (st_ledger (sc_store s))"
    obtain lived ticks seen where b: "(case before of Inr (Some l) \<Rightarrow> (lg_lived l, lg_ticks l, Some (lg_looks l)) | _ \<Rightarrow> (0, 0, None)) =
        (lived, ticks, seen)"
      by (rule prod_cases3)
    obtain res st where look: "look ps (te_core e) True lived ticks (sc_store s) = (res, st)"
      by (cases "look ps (te_core e) True lived ticks (sc_store s)")
    have eq: "run_look ps ss e s =
      (let s1 = s\<lparr>sc_store := st\<rparr>;
           retry = s1\<lparr>sc_look_due := Some (te_end e + ss_inconclusive_retry_s ss)\<rparr>;
           done' = s1\<lparr>sc_look_due := None\<rparr>
       in case res of
            Inr (Scored sig) \<Rightarrow> refresh done'
          | Inr Unchanged \<Rightarrow> refresh done'
          | Inr (Inconclusive r) \<Rightarrow> go (mark e r retry) refresh
          | Inl _ \<Rightarrow>
              (case load_ledger (st_ledger st) of
                 Inl StoreOverflow \<Rightarrow> (s1, False)
               | after \<Rightarrow>
                   if (\<exists>l k. after = Inr (Some l) \<and> seen = Some k \<and> k < lg_looks l) then refresh done'
                   else mark e ''error'' retry))"
    proof (cases "load_ledger (st_ledger (sc_store s))")
      case (Inl x)
      then show ?thesis using False b look by (cases x) (auto simp: run_look_def before_def Let_def)
    next
      case (Inr lo)
      then show ?thesis using b look by (simp add: run_look_def before_def Let_def)
    qed
    show ?thesis
    proof (cases res)
      case (Inl x)
      show ?thesis
      proof (cases "load_ledger (st_ledger st) = Inl StoreOverflow")
        case True
        then show ?thesis using Inl lost [of st] unfolding eq by (simp add: Let_def)
      next
        case False
        have "run_look ps ss e s =
          (if (\<exists>l k. load_ledger (st_ledger st) = Inr (Some l) \<and> seen = Some k \<and> k < lg_looks l)
           then refresh (s\<lparr>sc_store := st, sc_look_due := None\<rparr>)
           else mark e ''error'' (s\<lparr>sc_store := st, sc_look_due := Some (te_end e + ss_inconclusive_retry_s ss)\<rparr>))"
        proof (cases "load_ledger (st_ledger st)")
          case (Inl y)
          then show ?thesis unfolding eq using False \<open>res = Inl x\<close> by (cases y) (simp_all add: Let_def)
        next
          case (Inr lo)
          then show ?thesis unfolding eq using \<open>res = Inl x\<close> by (simp add: Let_def)
        qed
        then show ?thesis using over marked by metis
      qed
    next
      case (Inr r)
      then show ?thesis unfolding eq using both over by (cases r) (simp_all add: Let_def eq)
    qed
  qed
qed

lemma paid_run_look: "paid s (fst (run_look ps ss e s))"
proof (cases rule: run_look_cases [of ps ss e s])
  case (marked r st d)
  show ?thesis unfolding marked by (rule paid_trans [OF paid_same paid_mark]) simp_all
next
  case (both r st d)
  let ?t = "s\<lparr>sc_store := st, sc_look_due := d\<rparr>"
  have "paid s (fst (mark e r ?t))" by (rule paid_trans [OF paid_same paid_mark]) simp_all
  then show ?thesis unfolding both using paid_trans [OF _ paid_same] by (auto simp: go_def)
qed (simp_all add: paid_same)

lemma paid_attempt_look: "paid s (fst (attempt_look ps ss e s))"
proof -
  have quiet: "paid s (fst (refresh (s\<lparr>sc_look_due := d\<rparr>)))" for d by (rule paid_same) simp_all
  have blocked: "paid s (fst (go (refresh (s\<lparr>sc_look_due := d\<rparr>)) (\<lambda>s. if core_look_due e s then mark e r s else (s, True))))" for d r
    using quiet [of d] paid_trans paid_mark by (auto simp: go_def)
  have f: "paid s (fst (flush s))" by (rule paid_same) simp_all
  have run: "paid s (fst (go (flush s) (run_look ps ss e)))"
    using paid_trans [OF f paid_run_look] f by (simp add: go_def)
  have "paid s s" by (rule paid_same) simp_all
  then show ?thesis
    unfolding attempt_look_def
    by (auto simp: quiet blocked run split: sum.split store_error.split option.split)
qed

lemma paid_tick:
  assumes "sc_capture (fst (sched_tick ps ss e s)) \<noteq> None"
  shows "paid s (fst (sched_tick ps ss e s))"
proof -
  let ?s2 = "count_lived e (fst (start ss e s))"
  let ?s4 = "daily_look ss e (fst (periodic_flush ss e ?s2))"
  have s: "paid s (fst (start ss e s))" "paid s (fst (periodic_flush ss e ?s2))" "paid s ?s4"
    by (rule paid_same; simp)+
  have "paid s (fst (attempt_look ps ss e ?s4))" using paid_trans [OF s(3) paid_attempt_look] .
  moreover have "paid s (fst (attempt_capture ps ss e k ?s4))" if "sc_capture (fst (attempt_capture ps ss e k ?s4)) \<noteq> None" for k
    using paid_trans [OF s(3) paid_attempt_capture [OF that]] .
  ultimately show ?thesis
    using assms s by (auto simp: sched_tick_def go_def Let_def split: if_splits)
qed

lemma paid_step:
  assumes "sc_capture (sched_step ps ss s x) \<noteq> None"
  shows "paid s (sched_step ps ss s x)"
  using assms paid_tick
  by (cases x) (auto simp: sched_step_def intro!: paid_same)

lemma tick_waits:
  assumes "load_ledger (st_ledger (sc_store s)) = Inr (Some l)"
    and "load_ledger (st_ledger (sc_store (fst (sched_tick ps ss e s)))) = Inr (Some l')" and "lg_looks l < lg_looks l'"
    and "0 \<le> fst (sc_pending s)" and "0 \<le> snd (sc_pending s)"
  shows "lg_looks l' = lg_looks l + 1 \<and> sc_bound s \<and> \<not> sc_asleep s \<and> te_unloaded e = Some False \<and> te_paused e = Some False \<and>
    (te_verifiable e = None \<or> te_verifiable e = Some (Some True)) \<and> te_embedder e = Some True \<and>
    ss_min_lived_time_s ss \<le> lg_lived l' \<and> ss_min_observations ss \<le> lg_ticks l' \<and>
    (\<forall>t x. lg_last_look_at l = Some t \<and> mk_elapsed (te_mark e) t = Some x \<longrightarrow> ss_min_look_interval_s ss \<le> x)"
proof -
  let ?s2 = "count_lived e (fst (start ss e s))"
  let ?s3 = "fst (periodic_flush ss e ?s2)"
  let ?s4 = "daily_look ss e ?s3" and ?s' = "fst (sched_tick ps ss e s)"
  have l: "ledger_of ?s2 = Some l" and l': "ledger_of ?s' = Some l'" using assms(1,2) by (simp_all add: ledger_of_def)
  have pend: "0 \<le> fst (sc_pending ?s2)" "0 \<le> snd (sc_pending ?s2)" using assms(4,5) count_lived_pending by simp_all
  obtain k where k: "ledger_of ?s3 = Some k" "lg_looks k = lg_looks l" "lg_last_look_at k = lg_last_look_at l"
    using periodic_flush_reads(1) [OF l pend] by blast
  have k4: "ledger_of ?s4 = Some k" using k(1) by (simp add: ledger_of_def)
  have pend4: "0 \<le> fst (sc_pending ?s4)" "0 \<le> snd (sc_pending ?s4)" using periodic_flush_reads(2,3) [OF l pend] by simp_all
  have moved: "sc_store ?s' \<noteq> sc_store s" "sc_store ?s' \<noteq> sc_store ?s3"
    using assms(1,3) l' k by (auto simp: ledger_of_def)
  have look: "?s' = fst (attempt_look ps ss e ?s4) \<and> sc_bound s"
    using moved l' attempt_capture_looks [OF k4 _ pend4] k(2) assms(3)
    by (auto simp: sched_tick_def go_def Let_def split: if_splits)
  with l' have now: "ledger_of (fst (attempt_look ps ss e ?s4)) = Some l'" by simp
  have more: "lg_looks k < lg_looks l'" using assms(3) k(2) by simp
  from attempt_look_waits [OF k4 now more pend4] have waits: "blocked_reason e True ?s4 = None" "lg_looks l' = lg_looks l + 1"
      "ss_min_lived_time_s ss \<le> lg_lived l'" "ss_min_observations ss \<le> lg_ticks l'"
      "\<forall>t x. lg_last_look_at l = Some t \<and> mk_elapsed (te_mark e) t = Some x \<longrightarrow> ss_min_look_interval_s ss \<le> x"
    unfolding k(2,3) by blast+
  have clear: "\<not> sc_asleep s \<and> te_unloaded e = Some False \<and> te_paused e = Some False \<and>
      (te_verifiable e = None \<or> te_verifiable e = Some (Some True)) \<and> te_embedder e = Some True"
    using waits(1)
    by (cases "te_verifiable e"; cases "te_unloaded e"; cases "te_paused e"; cases "te_embedder e")
      (auto simp: blocked_reason_def safe_def split: if_splits option.splits)
  from look clear waits(2-5) show ?thesis by blast
qed


section \<open>The pending time\<close>

definition pending_ok :: "sched \<Rightarrow> bool" where
  "pending_ok s \<longleftrightarrow> 0 \<le> fst (sc_pending s) \<and> 0 \<le> snd (sc_pending s)"

lemma pending_ok_same: "sc_pending s' = sc_pending s \<or> sc_pending s' = (0, 0) \<Longrightarrow> pending_ok s \<Longrightarrow> pending_ok s'"
  by (auto simp: pending_ok_def)

lemma flush_pending: "sc_pending (fst (flush s)) = sc_pending s \<or> sc_pending (fst (flush s)) = (0, 0)"
  by (simp add: flush_def Let_def case_prod_unfold flush_lived_def split: sum.split option.split store_error.split)

lemma other_pending [simp]:
  "sc_pending (note_capture_failure e r s) = sc_pending s" "sc_pending (clear_stretch e s) = sc_pending s"
  "sc_pending (no_capture s) = sc_pending s" "sc_pending (back_off ss e s) = sc_pending s"
  "sc_pending (tell_unreadable e s) = sc_pending s" "sc_pending (reanchor_lived e s) = (0, 0)"
  "sc_pending (fst (mark e r s)) = sc_pending s"
  by (simp_all add: note_capture_failure_def clear_stretch_def no_capture_def back_off_def tell_unreadable_def
      reanchor_lived_def mark_def add_alerts_def Let_def case_prod_unfold split: sum.split)

lemma reanchor_pending:
  "sc_pending (reanchor_after_failed_capture e s) = sc_pending s \<or> sc_pending (reanchor_after_failed_capture e s) = (0, 0)"
  by (simp add: reanchor_after_failed_capture_def)

lemma attempt_capture_pending:
  "sc_pending (fst (attempt_capture ps ss e kind s)) = sc_pending s \<or> sc_pending (fst (attempt_capture ps ss e kind s)) = (0, 0)"
proof (cases "blocked_reason e False s")
  case (Some r)
  then show ?thesis by (simp add: attempt_capture_def go_def)
next
  case None
  obtain res st where c: "capture_reference ps (te_core e) kind (sc_regenerate (fst (flush s))) (sc_store (fst (flush s))) = (res, st)"
    by (cases "capture_reference ps (te_core e) kind (sc_regenerate (fst (flush s))) (sc_store (fst (flush s)))")
  have again: "sc_pending (reanchor_after_failed_capture e (back_off ss e ((fst (flush s))\<lparr>sc_store := st\<rparr>))) = sc_pending s \<or>
      sc_pending (reanchor_after_failed_capture e (back_off ss e ((fst (flush s))\<lparr>sc_store := st\<rparr>))) = (0, 0)"
    using reanchor_pending [of e "back_off ss e ((fst (flush s))\<lparr>sc_store := st\<rparr>)"] flush_pending [of s] by auto
  show ?thesis
  proof (cases res)
    case (Inl x)
    then show ?thesis using None c flush_pending [of s] again by (cases x) (simp_all add: attempt_capture_def go_def Let_def)
  next
    case (Inr r)
    then show ?thesis using None c flush_pending [of s] again by (cases r) (simp_all add: attempt_capture_def go_def Let_def)
  qed
qed

lemma run_look_pending: "sc_pending (fst (run_look ps ss e s)) = sc_pending s"
  by (cases rule: run_look_cases [of ps ss e s]) (simp_all add: go_def)

lemma attempt_look_pending:
  "sc_pending (fst (attempt_look ps ss e s)) = sc_pending s \<or> sc_pending (fst (attempt_look ps ss e s)) = (0, 0)"
proof -
  have run: "sc_pending (fst (go (flush s) (run_look ps ss e))) = sc_pending s \<or>
      sc_pending (fst (go (flush s) (run_look ps ss e))) = (0, 0)"
    using flush_pending [of s] by (simp add: go_def run_look_pending)
  have blocked: "sc_pending (fst (go (refresh (s\<lparr>sc_look_due := d\<rparr>)) (\<lambda>s. if core_look_due e s then mark e r s else (s, True)))) =
      sc_pending s" for d r
    by (simp add: go_def)
  show ?thesis
    using run by (simp add: attempt_look_def blocked split: sum.split store_error.split option.split)
qed

lemma tick_pending: "pending_ok s \<Longrightarrow> pending_ok (fst (sched_tick ps ss e s))"
proof -
  assume "pending_ok s"
  then have c: "pending_ok (count_lived e (fst (start ss e s)))" "pending_ok (fst (start ss e s))"
    using count_lived_pending [of "fst (start ss e s)" e] by (simp_all add: pending_ok_def)
  have "sc_pending (fst (periodic_flush ss e (count_lived e (fst (start ss e s))))) = sc_pending (count_lived e (fst (start ss e s))) \<or>
      sc_pending (fst (periodic_flush ss e (count_lived e (fst (start ss e s))))) = (0, 0)"
    using flush_pending [of "count_lived e (fst (start ss e s))"] by (auto simp: periodic_flush_def go_def)
  then have p: "pending_ok (fst (periodic_flush ss e (count_lived e (fst (start ss e s)))))"
    using pending_ok_same c by blast
  let ?s4 = "daily_look ss e (fst (periodic_flush ss e (count_lived e (fst (start ss e s)))))"
  have s4: "pending_ok ?s4" using p by (simp add: pending_ok_def)
  have "pending_ok (fst (attempt_capture ps ss e k ?s4))" "pending_ok (fst (attempt_look ps ss e ?s4))" for k
    using pending_ok_same [OF attempt_capture_pending s4] pending_ok_same [OF attempt_look_pending s4] by blast+
  with c p s4 show ?thesis by (auto simp: sched_tick_def go_def Let_def split: if_splits)
qed

interpretation pending: machine "sched_step ps ss" "\<lambda>_. True" pending_ok for ps ss
proof
  fix s x
  assume "pending_ok s"
  then show "pending_ok (sched_step ps ss s x)"
    using tick_pending pending_ok_same [OF flush_pending]
    by (cases x) (auto simp: sched_step_def pending_ok_def)
qed

section \<open>Properties\<close>

definition lived_ledger :: ledger where
  "lived_ledger = (new_ledger ''r1'' ''d0'')\<lparr>lg_lived := 5000, lg_ticks := 300\<rparr>"

definition probed_reference :: reference where
  "probed_reference = sample_reference\<lparr>rf_conditions := Some [(''organ'', PStr ''m'')], rf_samples := [[''a'', ''b'']]\<rparr>"

definition probe :: probe_env where
  "probe =
     \<lparr>pe_refresh_raises = False, pe_battery = [''p''], pe_battery_digest = ''b'',
      pe_conditions = Some [(''organ'', PStr ''m'')], pe_digest_before = Some ''d1'', pe_digest_after = Some ''d1'',
      pe_abort = (\<lambda>_. None), pe_sample = (\<lambda>_. Inr ''c''), pe_embed = (\<lambda>_. Some [1, 0]),
      pe_perms = (\<lambda>_ k. [replicate k [0, 1, 2, 3]]), pe_now = ''t1'', pe_id = ''i1'', pe_report_raises = False,
      pe_copy_raises = False\<rparr>"

definition same_strata :: "(rows \<times> rows) list" where
  "same_strata = [([[1, 0], [1, 0]], [[1, 0], [1, 0]])]"

lemma same_strata_ok: "same_strata \<noteq> []" "list_all stratum_ok same_strata"
  by (simp_all add: same_strata_def stratum_ok_def dim_of_def)

lemma same_draws: "draws_ok same_strata (pe_perms probe) e k"
  by (auto simp: draws_ok_def same_strata_def probe_def)

lemma probe_embeds: "embed_all probe [[x, y]] = Some [[[1, 0], [1, 0]]]"
  by (simp add: embed_all_def probe_def stack_def normalize_vec_def dot_def Let_def)

lemma probe_samples: "sample_battery probe 2 0 (pe_battery probe) = Inr [[''c'', ''c'']]"
  by (simp add: probe_def numeral_2_eq_2)

lemma probe_alpha:
  obtains (shares) alpha_k b where "spending_alpha (Suc 0) (1 / 20) = Inr alpha_k" "required_permutations alpha_k 200000 = Some b" "1 \<le> nat b"
proof -
  define a where "a = (1 / 20) / (spending_s * 2 * (ln (2::real))\<^sup>2)"
  have ln2: "0 < ln (2::real)" "ln (2::real) < 1" using ln_2_less_1 by simp_all
  then have sq: "0 < (ln (2::real))\<^sup>2" "(ln (2::real))\<^sup>2 \<le> 1" by (simp_all add: power_le_one)
  have inv: "20 / a = 400 * spending_s * 2 * (ln (2::real))\<^sup>2" using sq(1) by (simp add: a_def field_simps spending_s_def)
  have "0 < 20 / a" "20 / a \<le> 2000" unfolding inv using sq by (simp_all add: spending_s_def)
  then have c: "0 < \<lceil>20 / a\<rceil>" "\<lceil>20 / a\<rceil> \<le> 200000" by (simp_all only: zero_less_ceiling ceiling_le_iff)
  then have "1 \<le> nat \<lceil>20 / a\<rceil>" by linarith
  moreover have "required_permutations a 200000 = Some \<lceil>20 / a\<rceil>" using c(2) by (simp only: required_permutations_def Let_def) simp
  moreover have "spending_alpha (Suc 0) (1 / 20) = Inr a" by (simp add: spending_alpha_def a_def)
  ultimately show ?thesis using that by blast
qed

lemma probe_measures:
  assumes "1 \<le> n"
  shows "\<exists>p h sig. measure_look sample_settings probe True probed_reference ''d1'' alpha_k n = Inr (p, h, sig)"
proof -
  obtain r where r: "permutation_test same_strata n (pe_perms probe) (Some alpha_k) 4096 = Inr r"
    using permutation_test_returns [OF assms _ same_strata_ok] same_draws by (metis one_le_numeral)
  obtain h where h: "effect_size_h same_strata = Inr h"
    by (simp add: effect_size_h_def same_strata_def energy_u_def dim_of_def Let_def)
  have "zip [[[1, 0], [1, 0]]] [[[1, 0], [1, 0]]] = same_strata" by (simp add: same_strata_def)
  with r h show ?thesis
    using probe_samples probe_embeds [of "''a''" "''b''"] probe_embeds [of "''c''" "''c''"]
    by (simp add: measure_look_def sample_settings_def probed_reference_def) (simp add: probe_def)
qed


definition sample_sched_settings :: sched_settings where
  "sample_sched_settings =
     \<lparr>ss_sleep_settle_s = 120, ss_daily_s = 86400, ss_min_look_interval_s = 21600, ss_min_lived_time_s = 1800,
      ss_min_observations = 200, ss_blocked_retry_s = 300, ss_inconclusive_retry_s = 3600, ss_lived_persist_s = 300,
      ss_capture_retry_initial_s = 60, ss_capture_retry_max_s = 3600\<rparr>"

definition waiting :: sched where
  "waiting =
     \<lparr>sc_store = \<lparr>st_ledger = Stored (ledger_to_dict lived_ledger), st_reference = Stored probed_reference, st_reports = []\<rparr>,
      sc_lived = lived_init False False, sc_ticks = None, sc_bound = True, sc_asleep = False, sc_look_due = Some 5,
      sc_daily = Some 86400, sc_capture = None, sc_regenerate = False, sc_capture_at = None, sc_backoff = 60,
      sc_pending = (0, 0), sc_flush_at = Some 300, sc_started = True,
      sc_marked = \<lparr>mm_since = None, mm_unreadable = False\<rparr>, sc_stretch = None, sc_since_known = True,
      sc_stretch_file = Missing, sc_alerts = []\<rparr>"

definition awake_tick :: tick_env where
  "awake_tick =
     \<lparr>te_m = 10, te_end = 20, te_clock = None, te_paused_s = None, te_index = None, te_unloaded = Some False,
      te_paused = Some False, te_verifiable = None, te_embedder = Some True, te_core = probe,
      te_mark = \<lparr>mk_now = ''t1'', mk_elapsed = (\<lambda>_. None), mk_alert_s = 1209600, mk_raises = (\<lambda>_. False)\<rparr>,
      te_clock_after = None, te_paused_s_after = None, te_index_after = None, te_save_raises = False,
      te_clear_raises = False\<rparr>"

lemma lived_ledger_read: "load_ledger (Stored (ledger_to_dict lived_ledger)) = Inr (Some lived_ledger)"
  by (simp add: load_saved sound_ledger_def lived_ledger_def new_ledger_def del: load_ledger.simps(3))

lemma waiting_looks:
  "\<exists>alpha_k sig st. look sample_settings probe True 5000 300 (sc_store waiting) = (Inr (Scored sig), st) \<and>
    st_ledger st = Stored (ledger_to_dict (score_ledger probe ''d1'' alpha_k sig 5000 300 lived_ledger)) \<and>
    0 < alpha_k \<and> alpha_k < 1 / 16"
proof -
  obtain alpha_k b where a: "spending_alpha (Suc 0) (1 / 20) = Inr alpha_k" "required_permutations alpha_k 200000 = Some b" "1 \<le> nat b"
    by (rule probe_alpha)
  obtain p h sig where m: "measure_look sample_settings probe True probed_reference ''d1'' alpha_k (nat b) = Inr (p, h, sig)"
    using probe_measures [OF a(3)] by blast
  have guard: "look_guard probe (sc_store waiting) = Inr (lived_ledger, probed_reference)"
    using lived_ledger_read
    by (simp add: look_guard_def waiting_def probe_def probed_reference_def sample_reference_def condition_changes_def
        lived_ledger_def new_ledger_def Let_def del: load_ledger.simps(3))
  let ?l = "score_ledger probe ''d1'' alpha_k sig 5000 300 lived_ledger"
  have pos: "0 < alpha_k" using spending_alpha_pos [OF a(1)] .
  have save: "save_ledger ?l (st_ledger (sc_store waiting)) = Inr (Stored (ledger_to_dict ?l))"
    using lived_ledger_read pos
    by (simp add: save_ledger_def waiting_def regresses_def score_ledger_def Let_def lived_ledger_def new_ledger_def
        del: load_ledger.simps(3))
  have small: "alpha_k < 1 / 16"
    using spending_total [of "1 / 20" 1] a(1) by simp
  have f: "pe_digest_before probe = Some ''d1''" "\<not> pe_refresh_raises probe" "\<not> pe_report_raises probe"
      "Some ''d1'' \<noteq> lg_digest lived_ledger"
    by (simp_all add: probe_def lived_ledger_def new_ledger_def)
  have shares: "spending_alpha (nat (lg_looks lived_ledger + 1)) (ps_alpha_total sample_settings) = Inr alpha_k"
      "required_permutations alpha_k (ps_b_max sample_settings) = Some b"
    using a(1,2) by (simp_all add: lived_ledger_def new_ledger_def sample_settings_def)
  have load: "load_ledger (st_ledger (sc_store waiting)) = Inr (Some lived_ledger)"
    using lived_ledger_read by (simp add: waiting_def del: load_ledger.simps(3))
  have "fst (look sample_settings probe True 5000 300 (sc_store waiting)) = Inr (Scored sig) \<and>
      st_ledger (snd (look sample_settings probe True 5000 300 (sc_store waiting))) = Stored (ledger_to_dict ?l)"
    using guard shares m save load f by (simp add: look_def Let_def)
  with pos small show ?thesis
    by (intro exI [of _ alpha_k] exI [of _ sig] exI [of _ "snd (look sample_settings probe True 5000 300 (sc_store waiting))"] conjI)
      (simp_all add: prod_eq_iff)
qed

lemma waiting_tick:
  "\<exists>l'. load_ledger (st_ledger (sc_store (fst (sched_tick sample_settings sample_sched_settings awake_tick waiting)))) = Inr (Some l') \<and>
    lg_looks l' = 1"
proof -
  obtain alpha_k sig st where k: "look sample_settings probe True 5000 300 (sc_store waiting) = (Inr (Scored sig), st)"
      "st_ledger st = Stored (ledger_to_dict (score_ledger probe ''d1'' alpha_k sig 5000 300 lived_ledger))"
      "0 < alpha_k" "alpha_k < 1 / 16"
    using waiting_looks by blast
  let ?l = "score_ledger probe ''d1'' alpha_k sig 5000 300 lived_ledger"
  have load: "load_ledger (st_ledger (sc_store waiting)) = Inr (Some lived_ledger)"
    using lived_ledger_read by (simp add: waiting_def del: load_ledger.simps(3))
  have f: "lg_lived lived_ledger = 5000" "lg_ticks lived_ledger = 300" "lg_looks lived_ledger = 0" "lg_last_look_at lived_ledger = None"
      "te_core awake_tick = probe"
    by (simp_all add: lived_ledger_def new_ledger_def awake_tick_def)
  have sound: "sound_ledger ?l"
    using k(3,4) by (simp add: sound_ledger_def score_ledger_def Let_def lived_ledger_def new_ledger_def)
  have "sc_store (fst (run_look sample_settings sample_sched_settings awake_tick waiting)) = st"
    using load k(1) f by (simp add: run_look_def Let_def)
  moreover have "fst (sched_tick sample_settings sample_sched_settings awake_tick waiting) =
      fst (run_look sample_settings sample_sched_settings awake_tick waiting)"
  proof -
    have "count_lived awake_tick waiting = waiting"
      by (simp add: count_lived_def awake_tick_def waiting_def lived_step_def lived_init_def tick_step_def)
    moreover have "flush waiting = (waiting, True)"
      using load by (simp add: flush_def flush_lived_def Let_def) (simp add: waiting_def)
    moreover have "hold_off sample_sched_settings awake_tick waiting lived_ledger = None"
      using f by (simp add: hold_off_def sample_sched_settings_def waiting_def)
    moreover have "start sample_sched_settings awake_tick waiting = (waiting, True)"
      "periodic_flush sample_sched_settings awake_tick waiting = (waiting, True)"
      "daily_look sample_sched_settings awake_tick waiting = waiting"
      "sc_bound waiting" "\<not> due awake_tick (sc_capture_at waiting)" "due awake_tick (sc_look_due waiting)"
      "blocked_reason awake_tick True waiting = None" "st_reference (sc_store waiting) \<noteq> Missing"
      by (simp_all add: start_def periodic_flush_def daily_look_def due_def blocked_reason_def safe_def waiting_def awake_tick_def)
    ultimately show ?thesis using load by (simp add: sched_tick_def attempt_look_def go_def)
  qed
  ultimately show ?thesis
    using k(2) sound by (auto simp: load_saved score_ledger_def Let_def f simp del: load_ledger.simps(3))
qed

text \<open>
  C10. A look waits for its evidence. After any run of the scheduler from one with no
  time pending, when a tick counts a look, it counts exactly one, and the
  entity was awake, not paused, its organ loaded, its adapter verifiable and the embedder ready; the ledger has
  the lived time and the observations asked for; and the last look, where its time can be read, is at least the
  interval ago.
\<close>

theorem looks_wait_for_evidence:
  assumes "sc_pending s0 = (0, 0)" and "s = run (sched_step ps ss) s0 ops"
    and "load_ledger (st_ledger (sc_store s)) = Inr (Some l)"
    and "load_ledger (st_ledger (sc_store (sched_step ps ss s (Tick e)))) = Inr (Some l')" and "lg_looks l < lg_looks l'"
  shows "lg_looks l' = lg_looks l + 1 \<and> sc_bound s \<and> \<not> sc_asleep s \<and> te_unloaded e = Some False \<and> te_paused e = Some False \<and>
    (te_verifiable e = None \<or> te_verifiable e = Some (Some True)) \<and> te_embedder e = Some True \<and>
    ss_min_lived_time_s ss \<le> lg_lived l' \<and> ss_min_observations ss \<le> lg_ticks l' \<and>
    (\<forall>t x. lg_last_look_at l = Some t \<and> mk_elapsed (te_mark e) t = Some x \<longrightarrow> ss_min_look_interval_s ss \<le> x)"
proof -
  have "pending_ok s" using pending.run_inv [of s0 ops] assms(1,2) by (simp add: pending_ok_def list_all_iff)
  then have p: "0 \<le> fst (sc_pending s)" "0 \<le> snd (sc_pending s)" by (simp_all add: pending_ok_def)
  have "load_ledger (st_ledger (sc_store (fst (sched_tick ps ss e s)))) = Inr (Some l')"
    using assms(4) by (simp add: sched_step_def)
  from tick_waits [OF assms(3) this assms(5) p] show ?thesis .
qed

theorem looks_wait_for_evidence_witness:
  "\<exists>l'. load_ledger (st_ledger (sc_store (fst (sched_tick sample_settings sample_sched_settings awake_tick waiting)))) = Inr (Some l') \<and>
    lg_looks l' = 1 \<and> 1800 \<le> lg_lived l' \<and> 200 \<le> lg_ticks l'"
proof -
  obtain l' where l': "load_ledger (st_ledger (sc_store (fst (sched_tick sample_settings sample_sched_settings awake_tick waiting)))) =
      Inr (Some l')" "lg_looks l' = 1"
    using waiting_tick by blast
  have "load_ledger (st_ledger (sc_store waiting)) = Inr (Some lived_ledger)"
    using lived_ledger_read by (simp add: waiting_def del: load_ledger.simps(3))
  from looks_wait_for_evidence [where s0 = waiting and ops = "[]" and s = waiting and ps = sample_settings
      and ss = sample_sched_settings and e = awake_tick and l' = l', OF _ _ this] l'
  have "1800 \<le> lg_lived l' \<and> 200 \<le> lg_ticks l'"
    by (simp add: sched_step_def) (simp add: lived_ledger_def new_ledger_def waiting_def sample_sched_settings_def)
  with l' show ?thesis by blast
qed

lemma paid_run:
  "(\<forall>n \<le> length ops. sc_capture (run (sched_step ps ss) s (take n ops)) \<noteq> None) \<Longrightarrow>
   paid s (run (sched_step ps ss) s ops)"
proof (induction ops rule: rev_induct)
  case Nil
  then show ?case by (simp add: paid_def)
next
  case (snoc x xs)
  have "\<forall>n \<le> length xs. sc_capture (run (sched_step ps ss) s (take n xs)) \<noteq> None"
  proof (intro allI impI)
    fix n
    assume "n \<le> length xs"
    then show "sc_capture (run (sched_step ps ss) s (take n xs)) \<noteq> None"
      using spec [OF snoc.prems, of n] by simp
  qed
  then have "paid s (run (sched_step ps ss) s xs)" by (rule snoc.IH)
  moreover have "sc_capture (sched_step ps ss (run (sched_step ps ss) s xs) x) \<noteq> None"
    using spec [OF snoc.prems, of "length (xs @ [x])"] by simp
  ultimately show ?case using paid_trans paid_step by simp
qed

definition failing_capture :: sched where
  "failing_capture =
     waiting\<lparr>sc_store := \<lparr>st_ledger = Missing, st_reference = Missing, st_reports = []\<rparr>, sc_look_due := None,
             sc_capture := Some ''capture'', sc_capture_at := Some 0\<rparr>"

definition unloaded_tick :: "real \<Rightarrow> tick_env" where
  "unloaded_tick m = awake_tick\<lparr>te_m := m, te_unloaded := Some True, te_save_raises := True\<rparr>"

text \<open>
  A stretch of failing captures alerts the operator once. As long as a capture stays wanted, whatever ticks,
  requests and sleeps follow and even when no record of the stretch can be saved, at most one alert on the failing
  captures is raised, and none when the stretch had been alerted before.
\<close>

theorem one_alert_per_stretch:
  assumes "\<forall>n \<le> length ops. sc_capture (run (sched_step ps ss) s (take n ops)) \<noteq> None"
  shows "failing_alerts (run (sched_step ps ss) s ops) + alerted s \<le> failing_alerts s + 1"
proof -
  have "alerted (run (sched_step ps ss) s ops) \<le> 1" by (simp add: alerted_def)
  with paid_run [OF assms] show ?thesis unfolding paid_def by linarith
qed

theorem one_alert_per_stretch_witness:
  "failing_alerts (run (sched_step sample_settings sample_sched_settings) failing_capture
      [Tick (unloaded_tick 10), Tick (unloaded_tick 400)]) = 1"
proof -
  let ?run = "run (sched_step sample_settings sample_sched_settings) failing_capture"
  note defs = sched_step_def sched_tick_def start_def periodic_flush_def count_lived_def daily_look_def due_def go_def
    attempt_capture_def blocked_reason_def safe_def refresh_def rearm_def note_capture_failure_def current_stretch_def
    add_alerts_def failing_capture_def unloaded_tick_def awake_tick_def waiting_def lived_step_def lived_init_def
    tick_step_def sample_sched_settings_def capture_failure_labels_def inconclusive_reasons_def flush_def flush_lived_def
    schedule_look_def
  have one: "sc_capture (?run [Tick (unloaded_tick 10)]) \<noteq> None" by (simp add: defs Let_def)
  have two: "sc_capture (?run [Tick (unloaded_tick 10), Tick (unloaded_tick 400)]) \<noteq> None \<and>
      1 \<le> failing_alerts (?run [Tick (unloaded_tick 10), Tick (unloaded_tick 400)])"
    by (simp add: defs Let_def failing_alerts_def)
  have start: "sc_capture failing_capture \<noteq> None" "failing_alerts failing_capture = 0"
    by (simp_all add: failing_capture_def waiting_def failing_alerts_def)
  have "\<forall>n \<le> length [Tick (unloaded_tick 10), Tick (unloaded_tick 400)].
      sc_capture (?run (take n [Tick (unloaded_tick 10), Tick (unloaded_tick 400)])) \<noteq> None"
  proof (intro allI impI)
    fix n
    assume "n \<le> length [Tick (unloaded_tick 10), Tick (unloaded_tick 400)]"
    then consider "n = 0" | "n = 1" | "n = 2" by fastforce
    then show "sc_capture (?run (take n [Tick (unloaded_tick 10), Tick (unloaded_tick 400)])) \<noteq> None"
      using one two start(1) by cases simp_all
  qed
  from one_alert_per_stretch [OF this] two start(2) show ?thesis by linarith
qed


end
