(* ===== verification/Spec2Isabelle.thy ===== *)
theory Spec2Isabelle
  imports Supervisor GateRunner TimeScale AccessRate ForkTiming Salience Workspace SignedActs Inflight Residency PreserveWatch Drives OffHost Homeostasis Divergence IndividuationSchedule
begin

text \<open>
  KAINE: a verification library for the core of the cognitive runtime.

  The program. \<open>src/kaine\<close> runs an entity as processor modules that exchange events over a bus. Each tick
  the cycle (\<open>cycle/engine.py\<close>) reads the streams of the active modules, orders the candidates, lets the
  workspace (\<open>workspace/core.py\<close>) select a coalition, broadcasts it and asks action selection for
  intents; the effectors (\<open>modules/effectors\<close>) realise the act intents they can verify. Around the cycle
  stand the freeze file (\<open>cycle/control_state.py\<close>), the supervisor that restarts modules and freezes or
  halts the entity, the lifecycle (\<open>lifecycle\<close>), which decides when an entity in development becomes
  embodied, and the clocks.

  Values. \<open>PyVal\<close> holds Python's values as the code meets them (\<open>pyval\<close>, \<open>pyfloat\<close> with infinities and
  NaN, dictionaries as association lists in order) and its exceptions; a fallible operation returns a
  sum, the left part being what was raised. Floats are reals with the special values: rounding is not
  modelled, so a bound that holds here holds up to rounding. Text is a list of characters below code
  point 256. \<open>Prelude\<close> holds the shared lemmas and the collections.

  Outside code is an argument: the keyed hash of the signatures and the hash of the audit chain, the
  pattern matcher, the file system and processes an effector meets (\<open>act_io\<close>), the bus, the streams and
  the clocks of a tick (\<open>tick_io\<close>, \<open>round_io\<close>), the scorers, the phases and random draws of the
  workspace (\<open>outside\<close>), the policy of action selection (\<open>policy\<close>). Asynchronous calls are sequences of
  steps: the code awaits each of them in turn, and what the outside may do in between is an answer given
  to the step.

  Storage and control.
  \<^item> \<open>StateIO\<close> (\<open>state_io.py\<close>): reading and writing JSON state files.
  \<^item> \<open>ControlState\<close> (\<open>cycle/control_state.py\<close>, the aliases of \<open>legacy_names.py\<close>): the freeze stack. A
    corrupt file fails closed under every operation, welfare freezes survive all but the authorised
    override, the record form is a round trip.
  \<^item> \<open>Incidents\<close> (\<open>cycle/escalation_state.py\<close>, \<open>cycle/incident_log.py\<close>): escalation record, scrubbing.
  \<^item> \<open>Supervisor\<close> (\<open>cycle/supervisor.py\<close>): one poll as a function of the world it meets. Foreign freezes
    are kept, attempts are bounded, a module that cannot be restarted leads to an escalation within a
    number of polls that the theorem states, an escalated poll leaves the entity frozen and halted.

  Lifecycle.
  \<^item> \<open>Stage\<close>, \<open>MaturationGate\<close>, \<open>MaturationAck\<close>, \<open>GateRunner\<close> (\<open>lifecycle/stage.py\<close>,
    \<open>maturation_gate.py\<close>, \<open>maturation_ack.py\<close>, \<open>gate_runner.py\<close>): the stage record, the evidence, the
    operator's acknowledgement and the loop that counts sleeps off the bus. Embodiment is final, an
    entity matures on evidence only and once, each sleep is counted exactly once.
  \<^item> \<open>Clocks\<close> (\<open>entity_clock.py\<close>, \<open>unfrozen_clock.py\<close>, \<open>lived_time.py\<close>), \<open>TimeScale\<close>, \<open>AccessRate\<close>,
    \<open>ForkTiming\<close>: subjective time never goes back, changes of the scale and the access rate are bounded
    and a dwell apart, the timing profile of a fork is a round trip.

  Workspace.
  \<^item> \<open>BusSchema\<close>, \<open>Registry\<close>: events, candidate keys, registration.
  \<^item> \<open>Salience\<close>, \<open>Coherence\<close>, \<open>Feedback\<close>: what scores a candidate, and the precision gains.
  \<^item> \<open>Workspace\<close> (\<open>workspace/core.py\<close>): the selection under its arms. The competitive selection is the
    specification "the best k of the stable order"; the primary of the dual selection is the single
    selection (a simulation over the whole state of the workspace).
  \<^item> \<open>ActionSelection\<close> (\<open>workspace/action_selection.py\<close>, the drive, report and stimulus policies,
    \<open>security/intent_signing.py\<close>): the inhibition gate, the policies, the signer. The locale
    \<open>speak_guard\<close> is what the three speaking policies promise; each is an interpretation.

  Cycle and effectors.
  \<^item> \<open>CycleTiming\<close> (\<open>cycle/engine.py\<close>): rates, pause, sleep, logical time, pacing, adaptation of the
    scale. The cached period always belongs to the rate; broadcasts follow the rate to the unit; the
    account of time not awake equals a reference account over the whole history of operations.
  \<^item> \<open>CycleEngine\<close> (\<open>cycle/engine.py\<close>): the tick in its phases and one round of \<open>run_forever\<close>. Over any run
    of ticks what was gathered of a stream plus what is behind its cursor is the stream; the order of
    the candidates does not depend on the order of the reads; intents follow open broadcasts only.
  \<^item> \<open>AuditLog\<close>, \<open>Effectors\<close> (\<open>modules/effectors\<close>): the chained log, the provenance boundary, whitelists,
    the three effectors. Acts are signed, in bounds and never replayed; a refused act is audited; a
    changed log is found out, a truncated one is not.
  \<^item> \<open>SignedActs\<close>: the composition. Whatever the cycle puts on the bus over any rounds is accepted by the
    effectors that share the secret, in order and without a raise.

  Residency and preservation.
  \<^item> \<open>Inflight\<close> (\<open>residency/inflight.py\<close> with \<open>text_embedding.py\<close>): callers, worker threads and the
    unloader as interleaved steps. No unload while a worker runs, and every unload can complete.
  \<^item> \<open>Residency\<close> (\<open>residency/budget.py\<close>, \<open>fit.py\<close>): budgets per domain and the plan that fits them.
  \<^item> \<open>PreserveWatch\<close> (\<open>cycle/preserve_watch.py\<close>): one poll for a preservation request and runs of polls
    among other holders of the freeze file. Its freezes are accounted for, a new request is answered, the
    wait for the pause ends.

  Homeostasis.
  \<^item> \<open>Drives\<close> (\<open>modules/affect/drives.py\<close>): the step is the exact solution of the drive's equation, and
    every crossing of a threshold is ended by a response, a relief or a sleep.
  \<^item> \<open>Homeostasis\<close> (\<open>housekeeping_pressure.py\<close>, \<open>interoception/fatigue.py\<close>, \<open>regulation.py\<close>,
    \<open>sleep/scheduler.py\<close>): pressure, fatigue, advisories, and the window in which rest is due.

  Forks and individuation.
  \<^item> \<open>OffHost\<close> (\<open>distributed\<close>, \<open>lifecycle/fork_merge_gate.py\<close>): jobs, runners, the quorum, the
    verification of what comes back, the merge of a fork.
  \<^item> \<open>IndividuationStats\<close> (\<open>lifecycle/individuation_stats.py\<close>): the permutation test. The matrix form is
    the energy of the relabelled samples; stopping early keeps the decision; the shares are bounded.
  \<^item> \<open>Individuation\<close> (\<open>lifecycle/individuation_store.py\<close>, \<open>cycle/individuation_producer.py\<close>, the ledger
    of \<open>individuation_scheduler.py\<close>): capture, look, adoption, flush and mark as steps of the store. The
    latch is for good, the spent significance is the sum of the shares.
  \<^item> \<open>IndividuationSchedule\<close> (\<open>cycle/individuation_scheduler.py\<close>): one tick and the calls in between.
    A look waits for its evidence, a stretch of failing captures alerts once.
  \<^item> \<open>Divergence\<close> (\<open>lifecycle/divergence.py\<close>): the verdict, and its composition with the store's steps
    and the merge gate: no fork is discarded without full evidence.

  Recursion. Every function is total: loops of the code run over finite lists of inputs (polls, ticks,
  rounds, events), so there is no fuel; theorems quantify over these lists. The loop of the permutation
  test has its termination proof (the permutations left). The in-flight gate and the store of the
  individuation instrument are step relations, with theorems over all their runs.

  Interfaces. A locale states what a client needs of a provider, and each is interpreted on the model of
  the code: \<open>machine\<close> and \<open>ranked_machine\<close> (\<open>Prelude\<close>: an invariant and a measure of the steps of any
  component, the scheduler's pending time among them), \<open>locked_store\<close> (\<open>StateIO\<close>), \<open>freeze_stack\<close> (\<open>ControlState\<close>), \<open>selection_gain\<close>
  (\<open>Coherence\<close>), \<open>broadcast_kept\<close> (\<open>Feedback\<close>), \<open>speak_guard\<close> (\<open>ActionSelection\<close>).

  Not modelled: the modules themselves and the numerical code over torch and numpy (their interface to
  the cycle, events and dormancy, and the drives, fatigue, regulation and rest they use are modelled),
  boot assembly and wiring, the packing of snapshots and the preservation itself (file I/O around the
  request that is modelled), the view the individuation scheduler keeps for display, the catalogue of footprints, dashboard and remote bridge (I/O over the state files), setup,
  the experiment and evaluation tools, the organ server, the planning proposals and text rendering;
  logging and file permissions everywhere; crash safety of file replacement.
\<close>

end
